(* ===== verification/RDMA_Prelude.thy ===== *)
theory RDMA_Prelude
  imports Main "HOL-Library.Word" "HOL-Library.Multiset"
begin

text \<open>
  What the component theories share: the widths of the C++ integers (with 64-bit addresses
  and \<open>size_t\<close>, as on both supported platforms), the development's collections of rewrite rules, and generic
  lemmas on words, lists and options.

  \<^item> \<open>u8\<close>, \<open>u32\<close>, \<open>u64\<close> are the fixed-width unsigned types; \<open>i32\<close> is a C \<open>int\<close>, the same
    bits read with the signed order \<open><s\<close>;
  \<^item> \<open>size_t\<close> and \<open>ptr\<close> are 64 bits wide; \<open>nullptr\<close> is address 0;
  \<^item> \<open>rdma_inv\<close> collects the invariants' unfolding rules, \<open>rdma_step\<close> the equations of single
    operations, so that \<open>simp add: rdma_step\<close> runs a model.
\<close>

named_theorems rdma_inv \<open>unfolding rules of the component invariants\<close>
named_theorems rdma_step \<open>equations that run one operation of a component\<close>

type_synonym u8 = "8 word"
type_synonym u32 = "32 word"
type_synonym u64 = "64 word"
type_synonym i32 = "32 word"
type_synonym size_t = "64 word"
type_synonym ptr = "64 word"

abbreviation (input) nullptr :: ptr where
  "nullptr \<equiv> 0"

abbreviation (input) u32_max :: "'a::len word" where
  "u32_max \<equiv> 4294967295"

subsection \<open>Words\<close>

lemma unat_diff_le: "b \<le> a \<Longrightarrow> unat (a - b) = unat a - unat (b :: 'a::len word)"
  by (rule unat_sub)

lemma unat_u64_less [simp]: "unat (x :: u64) < 18446744073709551616"
  by (rule order.strict_trans2 [OF unsigned_less]) simp

lemma unat_u32_less [simp]: "unat (x :: u32) < 4294967296"
  by (rule order.strict_trans2 [OF unsigned_less]) simp

lemma unat_u8_less [simp]: "unat (x :: u8) < 256"
  by (rule order.strict_trans2 [OF unsigned_less]) simp

text \<open>A sum that does not overflow is the sum of the naturals.\<close>

lemma unat_add_no_wrap:
  "unat a + unat b < 2 ^ LENGTH('a) \<Longrightarrow> unat (a + b) = unat a + unat (b :: 'a::len word)"
  by (simp add: unat_word_ariths)

text \<open>The 32-bit truncation of a 64-bit value that fits loses nothing.\<close>

lemma unat_ucast_32_fits:
  assumes "unat (x :: u64) \<le> 4294967295"
  shows "unat (ucast x :: u32) = unat x"
  using assms by (simp add: unsigned_ucast_eq take_bit_nat_eq_self)

lemma u64_le_u32_max_iff: "(x :: u64) \<le> u32_max \<longleftrightarrow> unat x \<le> 4294967295"
  by (simp add: word_le_nat_alt)

lemma u32_min_le: "min a b \<le> (a :: u32)" "min a b \<le> (b :: u32)"
  by simp_all

lemma u32_min_zero_iff: "min a b = (0 :: u32) \<longleftrightarrow> a = 0 \<or> b = 0"
  by (auto simp: min_def)

subsection \<open>Guards\<close>

text \<open>An early return of \<open>false\<close>, and the guard "set, and over the limit" of the configuration.\<close>

lemma early_return_False: "(if P then False else Q) \<longleftrightarrow> \<not> P \<and> Q"
  by simp

lemma exceeds_limit_iff: "\<not> (x \<noteq> 0 \<and> m < x) \<longleftrightarrow> x = 0 \<or> x \<le> (m :: 'a::{linorder, zero})"
  by auto

subsection \<open>Lists\<close>

lemma length_filter_cons_le: "length (filter P (x # xs)) \<le> Suc (length (filter P xs))"
  by simp

lemma take_append_take_drop: "take n xs @ take m (drop n xs) = take (n + m) xs"
  by (simp add: take_add)

lemma list_update_append_at: "i = length xs \<Longrightarrow> (xs @ y # ys)[i := z] = xs @ z # ys"
  by simp

lemma take_Suc_list_update: "i < length xs \<Longrightarrow> take (Suc i) (xs[i := v]) = take i xs @ [v]"
  by (simp add: take_Suc_conv_app_nth)

lemma filter_neq_removes: "x \<notin> set (filter (\<lambda>y. y \<noteq> x) xs)"
  by simp

lemma count_list_le_length: "count_list xs x \<le> length xs"
  by (induction xs) auto

text \<open>A sum over a set of owners when what \<open>q\<close> holds goes to \<open>p\<close>, which held nothing.\<close>

lemma sum_transfer:
  fixes f g :: "'k \<Rightarrow> 'm::comm_monoid_add"
  assumes "finite D" and "q \<in> D" and "p \<noteq> q" and "p \<in> D \<Longrightarrow> f p = 0" and "g p = f q" and "g q = 0"
    and "\<And>r. r \<noteq> p \<Longrightarrow> r \<noteq> q \<Longrightarrow> g r = f r"
  shows "sum g (insert p D) = sum f D"
proof -
  let ?E = "D - {p} - {q}"
  have "sum f D = sum f (D - {p})" using assms(1,4) by (cases "p \<in> D") (simp_all add: sum.remove)
  moreover have "sum f (D - {p}) = f q + sum f ?E" using assms(1-3) by (intro sum.remove) auto
  moreover have "sum g (insert p D) = g p + sum g (D - {p})" using assms(1) by (rule sum.insert_remove)
  moreover have "sum g (D - {p}) = g q + sum g ?E" using assms(1-3) by (intro sum.remove) auto
  moreover have "sum g ?E = sum f ?E" using assms(7) by (intro sum.cong) auto
  ultimately show ?thesis using assms(5,6) by simp
qed

end
