(* ===== verification/Small_Sglist.thy ===== *)
theory Small_Sglist
  imports RDMA_Prelude
begin

text \<open>
  \<open>detail/small_sglist.hpp\<close>: a vector of native SGEs with storage for eight entries inside the
  object and a heap array for longer lists.

  \<open>data_\<close> is null, points into the object or at the heap array; \<open>heap_id\<close> numbers the heap
  allocations, so that a pointer to a released array is not mistaken for the current one (id 0:
  no array). \<open>sgl_contents\<close> reads the elements through \<open>data_\<close>, as every user of the list does.
  Element type and zero value (what \<open>make_unique<T[]>\<close> and \<open>inline_{}\<close> fill in) are generic.
\<close>

datatype data_ptr = DNull | DInline | DHeap nat

record 'a small_sglist =
  sgl_inline :: "'a list"
  sgl_heap :: "'a list"
  sgl_heap_id :: nat
  sgl_heap_capacity :: nat
  sgl_data :: data_ptr
  sgl_size :: nat

definition inline_sge_count :: nat where
  "inline_sge_count = 8"

definition small_sglist_new :: "('a::zero) small_sglist" where
  "small_sglist_new =
     \<lparr>sgl_inline = replicate inline_sge_count 0, sgl_heap = [], sgl_heap_id = 0,
      sgl_heap_capacity = 0, sgl_data = DNull, sgl_size = 0\<rparr>"

text \<open>\<open>heap_.get()\<close>\<close>

definition sgl_heap_get :: "'a small_sglist \<Rightarrow> data_ptr" where
  "sgl_heap_get s = (if sgl_heap_id s = 0 then DNull else DHeap (sgl_heap_id s))"

text \<open>The array \<open>data_\<close> points at; a stale heap pointer reads nothing.\<close>

definition sgl_target :: "'a small_sglist \<Rightarrow> 'a list" where
  "sgl_target s =
     (case sgl_data s of
        DNull \<Rightarrow> []
      | DInline \<Rightarrow> sgl_inline s
      | DHeap i \<Rightarrow> if i = sgl_heap_id s then sgl_heap s else [])"

definition sgl_contents :: "'a small_sglist \<Rightarrow> 'a list" where
  "sgl_contents s = take (sgl_size s) (sgl_target s)"

definition sgl_clear :: "'a small_sglist \<Rightarrow> 'a small_sglist" where
  "sgl_clear s = s\<lparr>sgl_data := DNull, sgl_size := 0\<rparr>"

text \<open>\<open>std::copy_n(src, n, dst)\<close>\<close>

definition copy_n :: "'a list \<Rightarrow> nat \<Rightarrow> 'a list \<Rightarrow> 'a list" where
  "copy_n src n dst = take n src @ drop (length (take n src)) dst"

definition sgl_reserve :: "nat \<Rightarrow> ('a::zero) small_sglist \<Rightarrow> 'a small_sglist" where
  "sgl_reserve cnt s =
     (if cnt \<le> inline_sge_count then s
      else if cnt > sgl_heap_capacity s then
        let heap = replicate cnt 0;
            heap' = (if sgl_data s \<noteq> DNull then copy_n (sgl_target s) (sgl_size s) heap else heap);
            s' = s\<lparr>sgl_heap := heap', sgl_heap_id := Suc (sgl_heap_id s),
                   sgl_heap_capacity := cnt\<rparr>
        in if sgl_size s > inline_sge_count then s'\<lparr>sgl_data := sgl_heap_get s'\<rparr> else s'
      else s)"

definition sgl_resize :: "nat \<Rightarrow> ('a::zero) small_sglist \<Rightarrow> 'a small_sglist" where
  "sgl_resize cnt s =
     (if cnt = 0 then sgl_clear s
      else
        let old_target = sgl_target s;
            old_size = sgl_size s;
            move_heap_to_inline = (cnt \<le> inline_sge_count \<and> sgl_data s = sgl_heap_get s);
            s1 = sgl_reserve cnt s;
            new_data = (if cnt \<le> inline_sge_count then DInline else sgl_heap_get s1);
            s2 = (if move_heap_to_inline
                  then s1\<lparr>sgl_inline := copy_n old_target (min old_size cnt) (sgl_inline s1)\<rparr>
                  else s1)
        in s2\<lparr>sgl_data := new_data, sgl_size := cnt\<rparr>)"

text \<open>The reference it returns is the index \<open>size_\<close> had before.\<close>

definition sgl_append_uninitialized ::
  "('a::zero) small_sglist \<Rightarrow> 'a small_sglist \<times> nat" where
  "sgl_append_uninitialized s =
     (let index = sgl_size s;
          tgt = sgl_size s + 1;
          s1 = (if tgt > inline_sge_count \<and> tgt > sgl_heap_capacity s
                then let doubled = (if sgl_heap_capacity s = 0 then inline_sge_count * 2
                                    else sgl_heap_capacity s * 2)
                     in sgl_reserve (max tgt doubled) s
                else s);
          s2 = (if sgl_data s1 = DNull then s1\<lparr>sgl_data := DInline\<rparr>
                else if tgt > inline_sge_count then s1\<lparr>sgl_data := sgl_heap_get s1\<rparr>
                else s1)
      in (s2\<lparr>sgl_size := tgt\<rparr>, index))"

text \<open>An assignment through \<open>data_[i]\<close>.\<close>

definition sgl_set :: "nat \<Rightarrow> 'a \<Rightarrow> 'a small_sglist \<Rightarrow> 'a small_sglist" where
  "sgl_set i v s =
     (case sgl_data s of
        DNull \<Rightarrow> s
      | DInline \<Rightarrow> s\<lparr>sgl_inline := (sgl_inline s)[i := v]\<rparr>
      | DHeap k \<Rightarrow> if k = sgl_heap_id s then s\<lparr>sgl_heap := (sgl_heap s)[i := v]\<rparr> else s)"

text \<open>What \<open>build_native_sglist\<close> does per element: append, then fill the returned slot.\<close>

definition sgl_push :: "'a \<Rightarrow> ('a::zero) small_sglist \<Rightarrow> 'a small_sglist" where
  "sgl_push v s = (let (s', i) = sgl_append_uninitialized s in sgl_set i v s')"

definition sgl_uses_heap :: "'a small_sglist \<Rightarrow> bool" where
  "sgl_uses_heap s \<longleftrightarrow> sgl_data s = sgl_heap_get s"

definition sgl_capacity :: "'a small_sglist \<Rightarrow> nat" where
  "sgl_capacity s =
     (if sgl_data s = sgl_heap_get s then sgl_heap_capacity s else inline_sge_count)"

subsection \<open>Representation invariant\<close>

text \<open>
  \<open>sgl_ok\<close> holds of every list the operations produce. \<open>sgl_unspilled\<close> adds that a list short
  enough for the inline storage has never allocated: what a list that was not cleared or shrunk
  satisfies, and what appending needs to keep the elements.
\<close>

definition sgl_ok :: "'a small_sglist \<Rightarrow> bool" where
  "sgl_ok s \<longleftrightarrow>
     length (sgl_inline s) = inline_sge_count \<and>
     length (sgl_heap s) = sgl_heap_capacity s \<and>
     (sgl_heap_id s = 0 \<longleftrightarrow> sgl_heap_capacity s = 0) \<and>
     (sgl_heap_capacity s \<noteq> 0 \<longrightarrow> inline_sge_count < sgl_heap_capacity s) \<and>
     (case sgl_data s of
        DNull \<Rightarrow> sgl_size s = 0
      | DInline \<Rightarrow> sgl_size s \<le> inline_sge_count
      | DHeap i \<Rightarrow> i = sgl_heap_id s \<and> inline_sge_count < sgl_size s \<and>
                  sgl_size s \<le> sgl_heap_capacity s)"

definition sgl_unspilled :: "'a small_sglist \<Rightarrow> bool" where
  "sgl_unspilled s \<longleftrightarrow>
     sgl_ok s \<and> (sgl_size s \<le> inline_sge_count \<longrightarrow> sgl_heap_capacity s = 0)"

lemmas sgl_defs = sgl_heap_get_def sgl_target_def sgl_contents_def

lemma inline_sge_count_8 [simp]: "inline_sge_count = 8"
  by (simp add: inline_sge_count_def)

lemma sgl_ok_new: "sgl_ok small_sglist_new"
  by (simp add: sgl_ok_def small_sglist_new_def)

lemma sgl_unspilled_new: "sgl_unspilled small_sglist_new"
  by (simp add: sgl_unspilled_def sgl_ok_new) (simp add: small_sglist_new_def)

lemma sgl_ok_clear: "sgl_ok s \<Longrightarrow> sgl_ok (sgl_clear s)"
  by (simp add: sgl_ok_def sgl_clear_def)

lemma length_copy_n [simp]: "length (copy_n src n dst) = max (min n (length src)) (length dst)"
  by (auto simp: copy_n_def)

lemma take_copy_n: "k \<le> n \<Longrightarrow> k \<le> length src \<Longrightarrow> take k (copy_n src n dst) = take k src"
  by (simp add: copy_n_def)

lemma sgl_target_length: "sgl_ok s \<Longrightarrow> sgl_size s \<le> length (sgl_target s)"
  by (auto simp: sgl_ok_def sgl_target_def split: data_ptr.splits)

lemma sgl_contents_length [simp]: "sgl_ok s \<Longrightarrow> length (sgl_contents s) = sgl_size s"
  using sgl_target_length [of s] by (simp add: sgl_contents_def)

subsection \<open>Reserving\<close>

lemma sgl_ok_reserve: "sgl_ok s \<Longrightarrow> sgl_ok (sgl_reserve n s)"
  using sgl_target_length [of s]
  by (auto simp: sgl_ok_def sgl_reserve_def Let_def sgl_heap_get_def sgl_target_def
      split: data_ptr.splits)

lemma sgl_reserve_size [simp]: "sgl_size (sgl_reserve n s) = sgl_size s"
  by (simp add: sgl_reserve_def Let_def)

lemma sgl_reserve_data_inline:
  "sgl_ok s \<Longrightarrow> sgl_size s \<le> 8 \<Longrightarrow> sgl_data (sgl_reserve n s) = sgl_data s"
  by (simp add: sgl_reserve_def Let_def)

lemma sgl_reserve_contents:
  assumes "sgl_ok s"
  shows "sgl_contents (sgl_reserve n s) = sgl_contents s"
proof -
  have "sgl_size s \<le> length (sgl_target s)" using assms by (rule sgl_target_length)
  with assms show ?thesis
    by (auto simp: sgl_ok_def sgl_reserve_def Let_def sgl_defs take_copy_n
        split: data_ptr.splits if_splits)
qed

lemma sgl_reserve_heap:
  assumes "sgl_ok s" and "8 < n" and "sgl_heap_capacity s < n"
  shows "sgl_heap_capacity (sgl_reserve n s) = n"
    and "take (sgl_size s) (sgl_heap (sgl_reserve n s)) = sgl_contents s"
    and "sgl_heap_id (sgl_reserve n s) \<noteq> 0"
proof -
  have "sgl_size s \<le> length (sgl_target s)" using assms(1) by (rule sgl_target_length)
  moreover have "sgl_data s = DNull \<Longrightarrow> sgl_size s = 0"
    using assms(1) by (simp add: sgl_ok_def)
  ultimately show "take (sgl_size s) (sgl_heap (sgl_reserve n s)) = sgl_contents s"
    using assms(2,3) by (auto simp: sgl_reserve_def Let_def take_copy_n sgl_contents_def)
qed (use assms in \<open>simp_all add: sgl_reserve_def Let_def\<close>)

subsection \<open>Appending\<close>

lemma sgl_push_size [simp]: "sgl_size (sgl_push v s) = Suc (sgl_size s)"
  by (simp add: sgl_push_def sgl_append_uninitialized_def sgl_set_def Let_def
      split: data_ptr.splits)

text \<open>While the list fits the inline storage, the slot is the next inline one.\<close>

lemma sgl_push_inline:
  assumes "sgl_ok s" and "sgl_size s < 8"
  shows "sgl_push v s =
    s\<lparr>sgl_data := DInline, sgl_size := Suc (sgl_size s),
      sgl_inline := (sgl_inline s)[sgl_size s := v]\<rparr>"
  using assms
  by (auto simp: sgl_push_def sgl_append_uninitialized_def sgl_set_def sgl_ok_def Let_def
      split: data_ptr.splits)

text \<open>Past it, the slot is in the heap array, grown when it is full.\<close>

definition sgl_grown :: "('a::zero) small_sglist \<Rightarrow> 'a small_sglist" where
  "sgl_grown s =
     (if Suc (sgl_size s) > sgl_heap_capacity s
      then sgl_reserve (max (Suc (sgl_size s))
             (if sgl_heap_capacity s = 0 then 16 else sgl_heap_capacity s * 2)) s
      else s)"

lemma sgl_ok_grown: "sgl_ok s \<Longrightarrow> sgl_ok (sgl_grown s)"
  by (simp add: sgl_grown_def sgl_ok_reserve)

lemma sgl_grown_size [simp]: "sgl_size (sgl_grown s) = sgl_size s"
  by (simp add: sgl_grown_def)

lemma sgl_grown_heap:
  assumes "sgl_ok s" and "8 \<le> sgl_size s"
  shows "sgl_size s < sgl_heap_capacity (sgl_grown s)" and "sgl_heap_id (sgl_grown s) \<noteq> 0"
    and "sgl_data (sgl_grown s) \<noteq> DNull"
proof -
  have ok: "sgl_ok (sgl_grown s)" using assms(1) by (rule sgl_ok_grown)
  have "sgl_size s < sgl_heap_capacity (sgl_grown s)"
    using assms sgl_reserve_heap(1) [OF assms(1)]
    by (simp add: sgl_grown_def max_def)
  with ok show "sgl_size s < sgl_heap_capacity (sgl_grown s)"
    and "sgl_heap_id (sgl_grown s) \<noteq> 0"
    by (auto simp: sgl_ok_def)
  show "sgl_data (sgl_grown s) \<noteq> DNull"
    using ok assms(2) by (auto simp: sgl_ok_def split: data_ptr.splits)
qed

lemma sgl_push_heap:
  assumes "sgl_ok s" and "8 \<le> sgl_size s"
  shows "sgl_push v s =
    (sgl_grown s)\<lparr>sgl_data := DHeap (sgl_heap_id (sgl_grown s)), sgl_size := Suc (sgl_size s),
      sgl_heap := (sgl_heap (sgl_grown s))[sgl_size s := v]\<rparr>"
proof -
  have "sgl_append_uninitialized s =
      ((sgl_grown s)\<lparr>sgl_data := DHeap (sgl_heap_id (sgl_grown s)),
         sgl_size := Suc (sgl_size s)\<rparr>, sgl_size s)"
    using assms(2) sgl_grown_heap(2,3) [OF assms]
    by (auto simp: sgl_append_uninitialized_def sgl_grown_def Let_def sgl_heap_get_def)
  then show ?thesis
    by (simp add: sgl_push_def sgl_set_def)
qed

lemma sgl_ok_push:
  assumes "sgl_ok s"
  shows "sgl_ok (sgl_push v s)"
proof (cases "sgl_size s < 8")
  case True
  with assms show ?thesis by (auto simp: sgl_push_inline sgl_ok_def)
next
  case False
  then have ge: "8 \<le> sgl_size s" by simp
  from sgl_ok_grown [OF assms] sgl_grown_heap [OF assms ge] ge show ?thesis
    by (auto simp: sgl_push_heap [OF assms ge] sgl_ok_def)
qed

lemma sgl_contents_inline:
  "sgl_ok s \<Longrightarrow> sgl_size s \<le> 8 \<Longrightarrow> sgl_contents s = take (sgl_size s) (sgl_inline s)"
  by (auto simp: sgl_ok_def sgl_contents_def sgl_target_def split: data_ptr.splits)

lemma sgl_grown_prefix:
  assumes "sgl_unspilled s" and "8 \<le> sgl_size s"
  shows "take (sgl_size s) (sgl_heap (sgl_grown s)) = sgl_contents s"
proof (cases "Suc (sgl_size s) > sgl_heap_capacity s")
  case True
  have ok: "sgl_ok s" using assms(1) by (simp add: sgl_unspilled_def)
  show ?thesis
    unfolding sgl_grown_def if_P [OF True]
    by (rule sgl_reserve_heap(2) [OF ok]) (use True assms(2) in simp_all)
next
  case False
  with assms have "8 < sgl_size s" by (auto simp: sgl_unspilled_def)
  with assms False show ?thesis
    by (auto simp: sgl_grown_def sgl_unspilled_def sgl_ok_def sgl_contents_def sgl_target_def
        split: data_ptr.splits)
qed

text \<open>Appending to a list that was not reused appends.\<close>

lemma sgl_push_contents:
  assumes "sgl_unspilled s"
  shows "sgl_contents (sgl_push v s) = sgl_contents s @ [v]"
proof (cases "sgl_size s < 8")
  case True
  from assms have ok: "sgl_ok s" by (simp add: sgl_unspilled_def)
  have len: "sgl_size s < length (sgl_inline s)" using ok True by (simp add: sgl_ok_def)
  with ok True show ?thesis
    using sgl_contents_inline [OF ok]
    by (simp add: sgl_push_inline sgl_contents_def [of "_\<lparr>sgl_inline := _\<rparr>"] sgl_target_def
        take_Suc_list_update)
next
  case False
  from assms have ok: "sgl_ok s" by (simp add: sgl_unspilled_def)
  from False have ge: "8 \<le> sgl_size s" by simp
  have "sgl_size s < length (sgl_heap (sgl_grown s))"
    using sgl_grown_heap(1) [OF ok ge] sgl_ok_grown [OF ok] by (simp add: sgl_ok_def)
  then show ?thesis
    using sgl_grown_prefix [OF assms ge]
    by (simp add: sgl_push_heap [OF ok ge] sgl_contents_def [of "_\<lparr>sgl_heap := _\<rparr>"]
        sgl_target_def take_Suc_list_update)
qed

lemma sgl_unspilled_push:
  assumes "sgl_unspilled s"
  shows "sgl_unspilled (sgl_push v s)"
proof -
  have ok: "sgl_ok s" using assms by (simp add: sgl_unspilled_def)
  have "Suc (sgl_size s) \<le> 8 \<Longrightarrow> sgl_heap_capacity (sgl_push v s) = 0"
    using assms by (simp add: sgl_push_inline [OF ok] sgl_unspilled_def)
  with sgl_ok_push [OF ok] show ?thesis by (simp add: sgl_unspilled_def)
qed

text \<open>
  Appending the ninth element to a list whose heap array is left from an earlier use switches to
  that array without copying the eight inline elements: the array's old entries are read instead.
\<close>

lemma sgl_push_ninth_reused:
  assumes "sgl_ok s" and "sgl_size s = 8" and "sgl_heap_capacity s \<noteq> 0"
  shows "sgl_contents (sgl_push v s) = take 8 (sgl_heap s) @ [v]"
proof -
  have cap: "8 < sgl_heap_capacity s" using assms(1,3) by (simp add: sgl_ok_def)
  then have "sgl_grown s = s" using assms(2) by (simp add: sgl_grown_def)
  moreover have "8 < length (sgl_heap s)" using assms(1) cap by (simp add: sgl_ok_def)
  ultimately show ?thesis
    using assms(2) sgl_push_heap [OF assms(1), of v] take_Suc_list_update [of 8 "sgl_heap s" v]
    by (simp add: sgl_contents_def sgl_target_def)
qed

subsection \<open>Resizing\<close>

lemma sgl_resize_size [simp]: "sgl_size (sgl_resize n s) = n"
  by (simp add: sgl_resize_def Let_def sgl_clear_def)

lemma sgl_ok_resize:
  assumes "sgl_ok s"
  shows "sgl_ok (sgl_resize n s)"
proof (cases "n \<le> 8")
  case True
  then show ?thesis
    using assms
    by (auto simp: sgl_resize_def Let_def sgl_ok_def sgl_clear_def sgl_reserve_def)
next
  case False
  then have "n \<le> sgl_heap_capacity (sgl_reserve n s)"
    by (simp add: sgl_reserve_def Let_def)
  with False sgl_ok_reserve [OF assms, of n] show ?thesis
    by (auto simp: sgl_resize_def Let_def sgl_ok_def sgl_heap_get_def)
qed

lemma sgl_resize_prefix:
  assumes "sgl_unspilled s"
  shows "take (min (sgl_size s) n) (sgl_contents (sgl_resize n s)) =
    take (min (sgl_size s) n) (sgl_contents s)"
proof (cases "n \<le> 8")
  case True
  have ok: "sgl_ok s" using assms by (simp add: sgl_unspilled_def)
  have len: "sgl_size s \<le> length (sgl_target s)" using ok by (rule sgl_target_length)
  show ?thesis
  proof (cases "sgl_size s \<le> 8")
    case small: True
    then show ?thesis
      using True ok len assms
      by (auto simp: sgl_resize_def Let_def sgl_reserve_def sgl_clear_def sgl_ok_def
          sgl_unspilled_def sgl_contents_def sgl_target_def sgl_heap_get_def copy_n_def
          split: data_ptr.splits)
  next
    case False
    then show ?thesis
      using True ok len
      by (auto simp: sgl_resize_def Let_def sgl_reserve_def sgl_clear_def sgl_ok_def
          sgl_contents_def sgl_target_def sgl_heap_get_def take_copy_n split: data_ptr.splits)
  qed
next
  case False
  have ok: "sgl_ok s" using assms by (simp add: sgl_unspilled_def)
  have "take (sgl_size s) (sgl_heap (sgl_reserve n s)) = sgl_contents s"
  proof (cases "sgl_heap_capacity s < n")
    case True
    with ok False show ?thesis by (simp add: sgl_reserve_heap(2))
  next
    case c: False
    with assms False have "8 < sgl_size s" by (auto simp: sgl_unspilled_def)
    with ok c show ?thesis
      by (auto simp: sgl_reserve_def sgl_ok_def sgl_contents_def sgl_target_def
          split: data_ptr.splits)
  qed
  moreover have "sgl_contents (sgl_resize n s) = take n (sgl_heap (sgl_reserve n s))"
    using False ok by (auto simp: sgl_resize_def Let_def sgl_contents_def sgl_target_def
        sgl_heap_get_def sgl_reserve_def sgl_ok_def)
  ultimately show ?thesis
    by (metis (no_types, lifting) min.commute min.left_idem take_take)
qed

subsection \<open>The interface the SGE builder relies on\<close>

text \<open>
  A sink of elements: clearing empties it, pushing appends. \<open>pushes\<close> is the loop over a whole
  sequence.
\<close>

locale element_sink =
  fixes clear :: "'s \<Rightarrow> 's"
    and push :: "'a \<Rightarrow> 's \<Rightarrow> 's"
    and contents :: "'s \<Rightarrow> 'a list"
    and fresh :: "'s \<Rightarrow> bool"
    and invar :: "'s \<Rightarrow> bool"
  assumes fresh_clear: "fresh s \<Longrightarrow> invar (clear s)"
    and contents_clear: "fresh s \<Longrightarrow> contents (clear s) = []"
    and invar_push: "invar s \<Longrightarrow> invar (push v s)"
    and contents_push: "invar s \<Longrightarrow> contents (push v s) = contents s @ [v]"
begin

lemma pushes: "invar s \<Longrightarrow> invar (fold push vs s) \<and> contents (fold push vs s) = contents s @ vs"
proof (induction vs arbitrary: s)
  case Nil
  then show ?case by simp
next
  case (Cons v vs)
  from Cons.prems have "invar (push v s)" by (rule invar_push)
  then show ?case using Cons.IH [of "push v s"] contents_push [OF Cons.prems] by simp
qed

lemma refill: "fresh s \<Longrightarrow> contents (fold push vs (clear s)) = vs"
  using pushes [OF fresh_clear, of s vs] by (simp add: contents_clear)

end

text \<open>
  \<open>fresh\<close>: a list that owns no heap array, as the local \<open>ibv_sglist_t\<close> of every post operation.
\<close>

definition sgl_fresh :: "'a small_sglist \<Rightarrow> bool" where
  "sgl_fresh s \<longleftrightarrow> sgl_ok s \<and> sgl_heap_capacity s = 0"

lemma sgl_fresh_new: "sgl_fresh small_sglist_new"
  by (simp add: sgl_fresh_def sgl_ok_new) (simp add: small_sglist_new_def)

interpretation sgl: element_sink sgl_clear sgl_push sgl_contents sgl_fresh sgl_unspilled
proof unfold_locales
  fix s :: "'a small_sglist"
  assume f: "sgl_fresh s"
  then show "sgl_unspilled (sgl_clear s)"
    using sgl_ok_clear [of s] by (simp add: sgl_fresh_def sgl_unspilled_def sgl_clear_def)
  show "sgl_contents (sgl_clear s) = []"
    by (simp add: sgl_clear_def sgl_contents_def)
qed (simp_all add: sgl_unspilled_push sgl_push_contents)

text \<open>\<open>uses_heap()\<close> compares two null pointers on a list that never held an element.\<close>

lemma sgl_uses_heap_nonempty:
  "sgl_ok s \<Longrightarrow> sgl_size s \<noteq> 0 \<Longrightarrow> sgl_uses_heap s \<longleftrightarrow> 8 < sgl_size s"
  by (auto simp: sgl_uses_heap_def sgl_heap_get_def sgl_ok_def split: data_ptr.splits)

lemma sgl_uses_heap_empty:
  "sgl_ok s \<Longrightarrow> sgl_data s = DNull \<Longrightarrow> sgl_uses_heap s \<longleftrightarrow> sgl_heap_capacity s = 0"
  by (auto simp: sgl_uses_heap_def sgl_heap_get_def sgl_ok_def)

end
