(* ===== verification/RDMA_Error.thy ===== *)
theory RDMA_Error
  imports RDMA_Prelude
begin

text \<open>
  Error values: \<open>rdma_error.hpp\<close>, \<open>impl/rdma_error.ipp\<close> and \<open>ibv_error.hpp\<close>.

  A C++ \<open>std::error_code\<close> is a pair of an integer and a category, compared on both and
  contextually true when the integer is not zero. The model keeps exactly that pair, so an
  \<open>errno\<close> value and asio's named code for it are the same value, as they are on Linux, and an
  \<open>errno\<close> of 0 is "no error" even after a call that failed.
\<close>

subsection \<open>The library's own error codes\<close>

datatype rdma_errc =
    no_available_device
  | invalid_device
  | invalid_handle
  | already_registered
  | device_not_registered
  | disconnected
  | device_removed
  | connector_terminal
  | too_many_sge
  | private_data_too_large
  | address_family_not_supported
  | buffer_too_large
  | invalid_config

text \<open>\<open>no_available_device = 1\<close>, the others follow in order.\<close>

fun errc_value :: "rdma_errc \<Rightarrow> int" where
  "errc_value no_available_device = 1"
| "errc_value invalid_device = 2"
| "errc_value invalid_handle = 3"
| "errc_value already_registered = 4"
| "errc_value device_not_registered = 5"
| "errc_value disconnected = 6"
| "errc_value device_removed = 7"
| "errc_value connector_terminal = 8"
| "errc_value too_many_sge = 9"
| "errc_value private_data_too_large = 10"
| "errc_value address_family_not_supported = 11"
| "errc_value buffer_too_large = 12"
| "errc_value invalid_config = 13"

datatype error_category = system_category | misc_category | rdma_category | nd_category | generic_category

datatype error_code = EC (ec_value: int) (ec_category: error_category)

text \<open>\<open>static_cast<bool>(ec)\<close>, and a default-constructed or cleared code.\<close>

definition is_error :: "error_code \<Rightarrow> bool" where
  "is_error ec \<longleftrightarrow> ec_value ec \<noteq> 0"

definition no_error :: error_code where
  "no_error = EC 0 system_category"

definition make_error_code :: "rdma_errc \<Rightarrow> error_code" where
  "make_error_code e = EC (errc_value e) rdma_category"

definition make_system_error_code :: "int \<Rightarrow> error_code" where
  "make_system_error_code e = EC e system_category"

text \<open>\<open>last_system_error()\<close> reads \<open>errno\<close>, which a model receives from the call that failed.\<close>

definition last_system_error :: "int \<Rightarrow> error_code" where
  "last_system_error errno = make_system_error_code errno"

text \<open>\<open>throw_error\<close>: \<open>Inl\<close> is the exception, thrown when the code is an error.\<close>

definition throw_error :: "error_code \<Rightarrow> error_code + unit" where
  "throw_error ec = (if is_error ec then Inl ec else Inr ())"

text \<open>
  \<open>rdma_error_category::message\<close>: a \<open>switch\<close> over the integer, with a default for integers that
  are no enumerator.
\<close>

definition rdma_message :: "int \<Rightarrow> string" where
  "rdma_message status =
     (if status = errc_value no_available_device then ''RDMA no available device''
      else if status = errc_value invalid_device then ''RDMA invalid device''
      else if status = errc_value invalid_handle then ''RDMA invalid object handle''
      else if status = errc_value already_registered
        then ''RDMA device already registered on this execution context''
      else if status = errc_value device_not_registered
        then ''RDMA device not registered (call use_device first)''
      else if status = errc_value disconnected then ''RDMA connection disconnected''
      else if status = errc_value device_removed then ''RDMA local device removed''
      else if status = errc_value connector_terminal
        then ''RDMA connector is terminal; create a new connector''
      else if status = errc_value too_many_sge
        then ''RDMA scatter/gather list exceeds device max_sge''
      else if status = errc_value private_data_too_large
        then ''RDMA outgoing private_data exceeds the CM cap''
      else if status = errc_value address_family_not_supported
        then ''RDMA device has no local address of the requested family''
      else if status = errc_value buffer_too_large
        then ''RDMA buffer length exceeds the supported native limit''
      else if status = errc_value invalid_config
        then ''RDMA configuration exceeds device capabilities or is incompatible''
      else ''UNKNOWN_RDMA_ERROR'')"

subsection \<open>System error numbers and asio's names for them (Linux)\<close>

abbreviation (input) EIO :: int where "EIO \<equiv> 5"
abbreviation (input) EBADF :: int where "EBADF \<equiv> 9"
abbreviation (input) EAGAIN :: int where "EAGAIN \<equiv> 11"
abbreviation (input) ECONNABORTED :: int where "ECONNABORTED \<equiv> 103"
abbreviation (input) ECONNRESET :: int where "ECONNRESET \<equiv> 104"
abbreviation (input) ECONNREFUSED :: int where "ECONNREFUSED \<equiv> 111"
abbreviation (input) EHOSTUNREACH :: int where "EHOSTUNREACH \<equiv> 113"
abbreviation (input) ECANCELED :: int where "ECANCELED \<equiv> 125"

abbreviation operation_aborted :: error_code where
  "operation_aborted \<equiv> EC ECANCELED system_category"
abbreviation connection_aborted :: error_code where
  "connection_aborted \<equiv> EC ECONNABORTED system_category"
abbreviation connection_reset :: error_code where
  "connection_reset \<equiv> EC ECONNRESET system_category"
abbreviation connection_refused :: error_code where
  "connection_refused \<equiv> EC ECONNREFUSED system_category"
abbreviation host_unreachable :: error_code where
  "host_unreachable \<equiv> EC EHOSTUNREACH system_category"
abbreviation bad_descriptor :: error_code where
  "bad_descriptor \<equiv> EC EBADF system_category"
abbreviation already_open :: error_code where
  "already_open \<equiv> EC 1 misc_category"

subsection \<open>Lemmas\<close>

lemma errc_value_pos [simp]: "0 < errc_value e"
  by (cases e) simp_all

lemma errc_value_nonzero [simp]: "errc_value e \<noteq> 0"
  by (cases e) simp_all

lemma errc_value_eq_iff [simp]: "errc_value a = errc_value b \<longleftrightarrow> a = b"
  by (cases a; cases b) simp_all

lemma no_error_not_error [simp]: "\<not> is_error no_error"
  by (simp add: is_error_def no_error_def)

lemma make_error_code_is_error [simp]: "is_error (make_error_code e)"
  by (simp add: is_error_def make_error_code_def)

lemma make_error_code_eq_iff [simp]: "make_error_code a = make_error_code b \<longleftrightarrow> a = b"
  by (simp add: make_error_code_def)

lemma is_error_EC [simp]: "is_error (EC v c) \<longleftrightarrow> v \<noteq> 0"
  by (simp add: is_error_def)

lemma make_error_code_neq_system [simp]:
  "make_error_code e \<noteq> EC v system_category" "EC v system_category \<noteq> make_error_code e"
  "make_error_code e \<noteq> EC v misc_category" "EC v misc_category \<noteq> make_error_code e"
  by (simp_all add: make_error_code_def)

lemma make_error_code_neq_no_error [simp]:
  "make_error_code e \<noteq> no_error" "no_error \<noteq> make_error_code e"
  by (simp_all add: make_error_code_def no_error_def)

lemma is_error_system [simp]: "is_error (make_system_error_code e) \<longleftrightarrow> e \<noteq> 0"
  by (simp add: make_system_error_code_def)

lemma is_error_last_system [simp]: "is_error (last_system_error e) \<longleftrightarrow> e \<noteq> 0"
  by (simp add: last_system_error_def)

lemma no_error_neq_EC [simp]:
  "no_error = EC v c \<longleftrightarrow> v = 0 \<and> c = system_category"
  "EC v c = no_error \<longleftrightarrow> v = 0 \<and> c = system_category"
  by (auto simp: no_error_def)

text \<open>
  The message table identifies the error: distinct enumerators have distinct messages, and no
  enumerator falls through to the default.
\<close>

lemma rdma_message_enum:
  "rdma_message (errc_value e) \<noteq> ''UNKNOWN_RDMA_ERROR''"
  by (cases e) (simp_all add: rdma_message_def)

lemma rdma_message_inj:
  "rdma_message (errc_value a) = rdma_message (errc_value b) \<Longrightarrow> a = b"
  by (cases a; cases b) (simp_all add: rdma_message_def)

end
