(* ===== verification/RDMA_Config.thy ===== *)
theory RDMA_Config
  imports RDMA_Error
begin

text \<open>
  Configuration: \<open>rdma_config_t\<close> of \<open>rdma_commons.hpp\<close>, and the two backends' versions of
  \<open>derive_effective_config\<close> and \<open>is_config_compatible\<close> (\<open>ibv/detail/impl/ibv_config_derive.ipp\<close>,
  \<open>nd/detail/impl/nd_config_derive.ipp\<close>).

  The locale \<open>config_policy\<close> is the contract the rest of the library relies on: a field is
  either set by the user and kept, or derived and then within the device's limit. It is
  interpreted for the libibverbs and for the NetworkDirect definitions.
\<close>

subsection \<open>Shared types\<close>

datatype completion_mode = mode_none | mode_event | mode_poll

datatype mr_access_flag_t =
  mr_access_local_write | mr_access_remote_read | mr_access_remote_write

record rdma_config_t =
  cqe :: u32
  cq_poll_batch :: u32
  max_send_wr :: u32
  max_recv_wr :: u32
  max_send_sge :: u32
  max_recv_sge :: u32
  max_inline_data :: u32
  inbound_read_limit :: u32
  outbound_read_limit :: u32
  rnr_retry :: u8
  min_rnr_timer :: u8
  cm_resolve_timeout_ms :: u32
  backlog :: i32

text \<open>\<open>rdma_config_t{}\<close>: the member initialisers.\<close>

definition default_config :: rdma_config_t where
  "default_config =
     \<lparr>cqe = 0, cq_poll_batch = 0, max_send_wr = 0, max_recv_wr = 0, max_send_sge = 0,
      max_recv_sge = 0, max_inline_data = 0, inbound_read_limit = 0, outbound_read_limit = 0,
      rnr_retry = 7, min_rnr_timer = 12, cm_resolve_timeout_ms = 0, backlog = 128\<rparr>"

definition default_cm_resolve_timeout_ms :: u32 where
  "default_cm_resolve_timeout_ms = 2000"

record rdma_remote_addr_t =
  remote_address :: u64
  remote_token :: u32

definition default_cqe :: u32 where "default_cqe = 4096"
definition default_cq_poll_batch :: u32 where "default_cq_poll_batch = 16"
definition default_max_send_wr :: u32 where "default_max_send_wr = 128"
definition default_max_recv_wr :: u32 where "default_max_recv_wr = 128"
definition default_max_send_sge :: u32 where "default_max_send_sge = 4"
definition default_max_recv_sge :: u32 where "default_max_recv_sge = 4"

lemmas config_default_defs =
  default_cqe_def default_cq_poll_batch_def default_max_send_wr_def default_max_recv_wr_def
  default_max_send_sge_def default_max_recv_sge_def default_cm_resolve_timeout_ms_def

subsection \<open>libibverbs: capabilities are C \<open>int\<close>s\<close>

record native_device_attr_t =
  max_cqe :: i32
  max_qp_wr :: i32
  max_sge :: i32
  max_qp_rd_atom :: i32
  max_qp_init_rd_atom :: i32

definition cap_of :: "i32 \<Rightarrow> u32" where
  "cap_of v = (if 0 <s v then v else 0)"

definition ibv_derive_effective_config ::
  "rdma_config_t \<Rightarrow> native_device_attr_t \<Rightarrow> rdma_config_t" where
  "ibv_derive_effective_config user_config caps =
     user_config\<lparr>
       cqe := if cqe user_config = 0 then min (cap_of (max_cqe caps)) default_cqe
              else cqe user_config,
       cq_poll_batch := if cq_poll_batch user_config = 0 then default_cq_poll_batch
                        else cq_poll_batch user_config,
       max_send_wr := if max_send_wr user_config = 0
                      then min (cap_of (max_qp_wr caps)) default_max_send_wr
                      else max_send_wr user_config,
       max_recv_wr := if max_recv_wr user_config = 0
                      then min (cap_of (max_qp_wr caps)) default_max_recv_wr
                      else max_recv_wr user_config,
       max_send_sge := if max_send_sge user_config = 0
                       then min (cap_of (max_sge caps)) default_max_send_sge
                       else max_send_sge user_config,
       max_recv_sge := if max_recv_sge user_config = 0
                       then min (cap_of (max_sge caps)) default_max_recv_sge
                       else max_recv_sge user_config,
       inbound_read_limit := if inbound_read_limit user_config = 0
                             then cap_of (max_qp_rd_atom caps)
                             else inbound_read_limit user_config,
       outbound_read_limit := if outbound_read_limit user_config = 0
                              then cap_of (max_qp_init_rd_atom caps)
                              else outbound_read_limit user_config,
       cm_resolve_timeout_ms := if cm_resolve_timeout_ms user_config = 0
                                then default_cm_resolve_timeout_ms
                                else cm_resolve_timeout_ms user_config\<rparr>"

definition ibv_is_config_compatible ::
  "rdma_config_t \<Rightarrow> native_device_attr_t \<Rightarrow> bool" where
  "ibv_is_config_compatible config caps =
     (if cqe config \<noteq> 0 \<and> cqe config > cap_of (max_cqe caps) then False
      else if max_send_wr config \<noteq> 0 \<and> max_send_wr config > cap_of (max_qp_wr caps) then False
      else if max_recv_wr config \<noteq> 0 \<and> max_recv_wr config > cap_of (max_qp_wr caps) then False
      else if max_send_sge config \<noteq> 0 \<and> max_send_sge config > cap_of (max_sge caps) then False
      else if max_recv_sge config \<noteq> 0 \<and> max_recv_sge config > cap_of (max_sge caps) then False
      else if inbound_read_limit config \<noteq> 0
              \<and> inbound_read_limit config > cap_of (max_qp_rd_atom caps) then False
      else if outbound_read_limit config \<noteq> 0
              \<and> outbound_read_limit config > cap_of (max_qp_init_rd_atom caps) then False
      else True)"

subsection \<open>NetworkDirect: capabilities are \<open>ULONG\<close>s\<close>

record native_context_config_t =
  MaxCompletionQueueDepth :: u32
  MaxInitiatorQueueDepth :: u32
  MaxReceiveQueueDepth :: u32
  MaxInitiatorSge :: u32
  MaxReceiveSge :: u32
  MaxInlineDataSize :: u32
  MaxInboundReadLimit :: u32
  MaxOutboundReadLimit :: u32
  MaxRegistrationSize :: u64
  MaxWindowSize :: u64
  MaxReadSge :: u32
  MaxTransferLength :: u32
  MaxSharedReceiveQueueDepth :: u32
  InlineRequestThreshold :: u32
  LargeRequestThreshold :: u32
  MaxCallerData :: u32
  MaxCalleeData :: u32
  AdapterFlags :: u32

definition nd_derive_effective_config ::
  "rdma_config_t \<Rightarrow> native_context_config_t \<Rightarrow> rdma_config_t" where
  "nd_derive_effective_config user_config caps =
     user_config\<lparr>
       cqe := if cqe user_config = 0 then min (MaxCompletionQueueDepth caps) default_cqe
              else cqe user_config,
       cq_poll_batch := if cq_poll_batch user_config = 0 then default_cq_poll_batch
                        else cq_poll_batch user_config,
       max_send_wr := if max_send_wr user_config = 0
                      then min (MaxInitiatorQueueDepth caps) default_max_send_wr
                      else max_send_wr user_config,
       max_recv_wr := if max_recv_wr user_config = 0
                      then min (MaxReceiveQueueDepth caps) default_max_recv_wr
                      else max_recv_wr user_config,
       max_send_sge := if max_send_sge user_config = 0
                       then min (MaxInitiatorSge caps) default_max_send_sge
                       else max_send_sge user_config,
       max_recv_sge := if max_recv_sge user_config = 0
                       then min (MaxReceiveSge caps) default_max_recv_sge
                       else max_recv_sge user_config,
       max_inline_data := if max_inline_data user_config = 0 then MaxInlineDataSize caps
                          else max_inline_data user_config,
       inbound_read_limit := if inbound_read_limit user_config = 0
                             then MaxInboundReadLimit caps
                             else inbound_read_limit user_config,
       outbound_read_limit := if outbound_read_limit user_config = 0
                              then MaxOutboundReadLimit caps
                              else outbound_read_limit user_config\<rparr>"

definition nd_is_config_compatible ::
  "rdma_config_t \<Rightarrow> native_context_config_t \<Rightarrow> bool" where
  "nd_is_config_compatible config caps \<longleftrightarrow>
     (cqe config = 0 \<or> cqe config \<le> MaxCompletionQueueDepth caps) \<and>
     (max_send_wr config = 0 \<or> max_send_wr config \<le> MaxInitiatorQueueDepth caps) \<and>
     (max_recv_wr config = 0 \<or> max_recv_wr config \<le> MaxReceiveQueueDepth caps) \<and>
     (max_send_sge config = 0 \<or> max_send_sge config \<le> MaxInitiatorSge caps) \<and>
     (max_recv_sge config = 0 \<or> max_recv_sge config \<le> MaxReceiveSge caps) \<and>
     (max_inline_data config = 0 \<or> max_inline_data config \<le> MaxInlineDataSize caps) \<and>
     (inbound_read_limit config = 0 \<or> inbound_read_limit config \<le> MaxInboundReadLimit caps) \<and>
     (outbound_read_limit config = 0 \<or> outbound_read_limit config \<le> MaxOutboundReadLimit caps)"

subsection \<open>The contract of a configuration policy\<close>

text \<open>
  \<open>limited caps\<close> lists the fields the device limits, each with its limit. The library's
  components rely on two things: \<open>use_device\<close> and the completion queues operate on
  \<open>derive config caps\<close>, and device selection asks \<open>compat config caps\<close>.
\<close>

locale config_policy =
  fixes derive :: "rdma_config_t \<Rightarrow> 'caps \<Rightarrow> rdma_config_t"
    and compat :: "rdma_config_t \<Rightarrow> 'caps \<Rightarrow> bool"
    and limited :: "'caps \<Rightarrow> ((rdma_config_t \<Rightarrow> u32) \<times> u32) list"
  assumes compat_limited:
      "compat c caps \<longleftrightarrow> (\<forall>(field, limit) \<in> set (limited caps). field c = 0 \<or> field c \<le> limit)"
    and derive_keeps: "(field, limit) \<in> set (limited caps) \<Longrightarrow> field c \<noteq> 0 \<Longrightarrow>
      field (derive c caps) = field c"
    and derive_auto: "(field, limit) \<in> set (limited caps) \<Longrightarrow> field c = 0 \<Longrightarrow>
      field (derive c caps) \<le> limit"
    and derive_again: "derive (derive c caps) caps = derive c caps"
    and derive_batch: "cq_poll_batch (derive c caps) \<noteq> 0"
begin

lemma derived_within_limit:
  assumes "compat c caps" and "(field, limit) \<in> set (limited caps)"
  shows "field (derive c caps) \<le> limit"
proof (cases "field c = 0")
  case True
  with assms(2) show ?thesis by (rule derive_auto)
next
  case False
  with assms have "field c \<le> limit" by (auto simp: compat_limited)
  with assms(2) False show ?thesis by (simp add: derive_keeps)
qed

lemma derived_compat: "compat c caps \<Longrightarrow> compat (derive c caps) caps"
  by (subst compat_limited) (auto dest: derived_within_limit)

lemma incompatible_field:
  assumes "\<not> compat c caps"
  obtains field limit where "(field, limit) \<in> set (limited caps)" and "limit < field c"
    and "field (derive c caps) = field c"
proof -
  from assms obtain field limit
    where m: "(field, limit) \<in> set (limited caps)" and "\<not> (field c = 0 \<or> field c \<le> limit)"
    by (auto simp: compat_limited)
  then have "field c \<noteq> 0" and "limit < field c" by auto
  with m that show ?thesis by (simp add: derive_keeps)
qed

lemma derived_compat_iff: "compat (derive c caps) caps \<longleftrightarrow> compat c caps"
proof
  assume d: "compat (derive c caps) caps"
  show "compat c caps"
  proof (rule ccontr)
    assume "\<not> compat c caps"
    then obtain field limit where m: "(field, limit) \<in> set (limited caps)"
      and "limit < field c" and "field (derive c caps) = field c"
      by (rule incompatible_field)
    moreover have "field (derive c caps) \<le> limit"
      using derived_within_limit [OF d m] by (simp add: derive_again)
    ultimately show False by simp
  qed
qed (rule derived_compat)

end

subsection \<open>Both backends meet the contract\<close>

definition ibv_limited ::
  "native_device_attr_t \<Rightarrow> ((rdma_config_t \<Rightarrow> u32) \<times> u32) list" where
  "ibv_limited caps =
     [(cqe, cap_of (max_cqe caps)), (max_send_wr, cap_of (max_qp_wr caps)),
      (max_recv_wr, cap_of (max_qp_wr caps)), (max_send_sge, cap_of (max_sge caps)),
      (max_recv_sge, cap_of (max_sge caps)),
      (inbound_read_limit, cap_of (max_qp_rd_atom caps)),
      (outbound_read_limit, cap_of (max_qp_init_rd_atom caps))]"

definition nd_limited ::
  "native_context_config_t \<Rightarrow> ((rdma_config_t \<Rightarrow> u32) \<times> u32) list" where
  "nd_limited caps =
     [(cqe, MaxCompletionQueueDepth caps), (max_send_wr, MaxInitiatorQueueDepth caps),
      (max_recv_wr, MaxReceiveQueueDepth caps), (max_send_sge, MaxInitiatorSge caps),
      (max_recv_sge, MaxReceiveSge caps), (max_inline_data, MaxInlineDataSize caps),
      (inbound_read_limit, MaxInboundReadLimit caps),
      (outbound_read_limit, MaxOutboundReadLimit caps)]"

lemma ibv_derive_fields [simp]:
  "cqe (ibv_derive_effective_config c caps) =
     (if cqe c = 0 then min (cap_of (max_cqe caps)) default_cqe else cqe c)"
  "cq_poll_batch (ibv_derive_effective_config c caps) =
     (if cq_poll_batch c = 0 then default_cq_poll_batch else cq_poll_batch c)"
  "max_send_wr (ibv_derive_effective_config c caps) =
     (if max_send_wr c = 0 then min (cap_of (max_qp_wr caps)) default_max_send_wr
      else max_send_wr c)"
  "max_recv_wr (ibv_derive_effective_config c caps) =
     (if max_recv_wr c = 0 then min (cap_of (max_qp_wr caps)) default_max_recv_wr
      else max_recv_wr c)"
  "max_send_sge (ibv_derive_effective_config c caps) =
     (if max_send_sge c = 0 then min (cap_of (max_sge caps)) default_max_send_sge
      else max_send_sge c)"
  "max_recv_sge (ibv_derive_effective_config c caps) =
     (if max_recv_sge c = 0 then min (cap_of (max_sge caps)) default_max_recv_sge
      else max_recv_sge c)"
  "inbound_read_limit (ibv_derive_effective_config c caps) =
     (if inbound_read_limit c = 0 then cap_of (max_qp_rd_atom caps) else inbound_read_limit c)"
  "outbound_read_limit (ibv_derive_effective_config c caps) =
     (if outbound_read_limit c = 0 then cap_of (max_qp_init_rd_atom caps)
      else outbound_read_limit c)"
  "cm_resolve_timeout_ms (ibv_derive_effective_config c caps) =
     (if cm_resolve_timeout_ms c = 0 then default_cm_resolve_timeout_ms
      else cm_resolve_timeout_ms c)"
  "max_inline_data (ibv_derive_effective_config c caps) = max_inline_data c"
  "rnr_retry (ibv_derive_effective_config c caps) = rnr_retry c"
  "min_rnr_timer (ibv_derive_effective_config c caps) = min_rnr_timer c"
  "backlog (ibv_derive_effective_config c caps) = backlog c"
  by (simp_all add: ibv_derive_effective_config_def)

lemma nd_derive_fields [simp]:
  "cqe (nd_derive_effective_config c d) =
     (if cqe c = 0 then min (MaxCompletionQueueDepth d) default_cqe else cqe c)"
  "cq_poll_batch (nd_derive_effective_config c d) =
     (if cq_poll_batch c = 0 then default_cq_poll_batch else cq_poll_batch c)"
  "max_send_wr (nd_derive_effective_config c d) =
     (if max_send_wr c = 0 then min (MaxInitiatorQueueDepth d) default_max_send_wr
      else max_send_wr c)"
  "max_recv_wr (nd_derive_effective_config c d) =
     (if max_recv_wr c = 0 then min (MaxReceiveQueueDepth d) default_max_recv_wr
      else max_recv_wr c)"
  "max_send_sge (nd_derive_effective_config c d) =
     (if max_send_sge c = 0 then min (MaxInitiatorSge d) default_max_send_sge else max_send_sge c)"
  "max_recv_sge (nd_derive_effective_config c d) =
     (if max_recv_sge c = 0 then min (MaxReceiveSge d) default_max_recv_sge else max_recv_sge c)"
  "max_inline_data (nd_derive_effective_config c d) =
     (if max_inline_data c = 0 then MaxInlineDataSize d else max_inline_data c)"
  "inbound_read_limit (nd_derive_effective_config c d) =
     (if inbound_read_limit c = 0 then MaxInboundReadLimit d else inbound_read_limit c)"
  "outbound_read_limit (nd_derive_effective_config c d) =
     (if outbound_read_limit c = 0 then MaxOutboundReadLimit d else outbound_read_limit c)"
  "cm_resolve_timeout_ms (nd_derive_effective_config c d) = cm_resolve_timeout_ms c"
  "rnr_retry (nd_derive_effective_config c d) = rnr_retry c"
  "min_rnr_timer (nd_derive_effective_config c d) = min_rnr_timer c"
  "backlog (nd_derive_effective_config c d) = backlog c"
  by (simp_all add: nd_derive_effective_config_def)

interpretation ibv_config: config_policy
  ibv_derive_effective_config ibv_is_config_compatible ibv_limited
proof unfold_locales
  fix c caps
  show "ibv_is_config_compatible c caps \<longleftrightarrow>
      (\<forall>(field, limit) \<in> set (ibv_limited caps). field c = 0 \<or> field c \<le> limit)"
    by (simp only: ibv_is_config_compatible_def ibv_limited_def early_return_False
        exceeds_limit_iff list.set ball_simps split_conv simp_thms)
next
  fix c :: rdma_config_t and caps
  show "ibv_derive_effective_config (ibv_derive_effective_config c caps) caps =
      ibv_derive_effective_config c caps"
    by (rule rdma_config_t.equality) (simp_all add: config_default_defs)
qed (auto simp: ibv_limited_def config_default_defs)

interpretation nd_config: config_policy
  nd_derive_effective_config nd_is_config_compatible nd_limited
proof unfold_locales
  fix c caps
  show "nd_is_config_compatible c caps \<longleftrightarrow>
      (\<forall>(field, limit) \<in> set (nd_limited caps). field c = 0 \<or> field c \<le> limit)"
    by (simp add: nd_is_config_compatible_def nd_limited_def)
next
  fix c :: rdma_config_t and caps
  show "nd_derive_effective_config (nd_derive_effective_config c caps) caps =
      nd_derive_effective_config c caps"
    by (rule rdma_config_t.equality) (simp_all add: config_default_defs)
qed (auto simp: nd_limited_def config_default_defs)

end
