(* ===== verification/RDMA_Buffer.thy ===== *)
theory RDMA_Buffer
  imports RDMA_Config
begin

text \<open>
  Buffers and memory regions: \<open>rdma_buffer.hpp\<close>, \<open>detail/mr_range.hpp\<close>, \<open>ibv/ibv_mr.hpp\<close> and
  \<open>nd/nd_mr.hpp\<close> with \<open>nd/impl/nd_mr.ipp\<close>.

  \<open>mr_contains_offset\<close> and \<open>mr_offset_of\<close> are 64-bit arithmetic and kept as such: the lemmas say
  what they decide on natural numbers, wrap-around included. The C++ concept
  \<open>memory_region_like\<close>, which the \<open>buffer\<close> factory is generic over, is the locale of that name;
  the two backends' memory regions are its interpretations.
\<close>

subsection \<open>Range checks (\<open>mr_range.hpp\<close>)\<close>

definition mr_contains_offset :: "size_t \<Rightarrow> size_t \<Rightarrow> size_t \<Rightarrow> bool" where
  "mr_contains_offset region_length off len \<longleftrightarrow>
     off \<le> region_length \<and> len \<le> region_length - off"

definition mr_offset_of :: "ptr \<Rightarrow> size_t \<Rightarrow> ptr \<Rightarrow> size_t \<Rightarrow> size_t option" where
  "mr_offset_of region_base region_length address len =
     (if region_base = nullptr \<or> address = nullptr then None
      else if region_length > - 1 - region_base \<or> address < region_base then None
      else let integer_offset = address - region_base in
        if integer_offset > - 1 then None
        else if \<not> mr_contains_offset region_length integer_offset len then None
        else Some integer_offset)"

subsection \<open>Buffer elements\<close>

datatype buffer_tag = rdma_const_buffer_tag | rdma_mutable_buffer_tag

record rdma_buffer =
  buffer_kind :: buffer_tag
  buf_addr :: ptr
  buf_length :: size_t
  buf_local_key :: u32

text \<open>A default-constructed element, and the implicit conversion from mutable to const.\<close>

definition empty_buffer :: "buffer_tag \<Rightarrow> rdma_buffer" where
  "empty_buffer tag = \<lparr>buffer_kind = tag, buf_addr = nullptr, buf_length = 0, buf_local_key = 0\<rparr>"

definition const_buffer_of :: "rdma_buffer \<Rightarrow> rdma_buffer" where
  "const_buffer_of b =
     \<lparr>buffer_kind = rdma_const_buffer_tag, buf_addr = buf_addr b, buf_length = buf_length b,
      buf_local_key = buf_local_key b\<rparr>"

text \<open>\<open>detail::buffer_size\<close> adds \<open>size_t\<close>s (and wraps as they do); \<open>detail::all_empty\<close>.\<close>

definition buffer_size :: "rdma_buffer list \<Rightarrow> size_t" where
  "buffer_size buffers = fold (\<lambda>b acc. acc + buf_length b) buffers 0"

definition all_empty :: "rdma_buffer list \<Rightarrow> bool" where
  "all_empty buffers = list_all (\<lambda>b. buf_length b = 0) buffers"

subsection \<open>The \<open>buffer\<close> factory, generic over the memory region\<close>

text \<open>
  The template takes its memory region's \<open>addr\<close>, \<open>length\<close>, \<open>local_key\<close> and \<open>is_in_mr\<close>; here they
  are arguments. \<open>local_key\<close> throws on a region that was moved from.
\<close>

definition buffer_whole ::
  "('mr \<Rightarrow> ptr) \<Rightarrow> ('mr \<Rightarrow> size_t) \<Rightarrow> ('mr \<Rightarrow> error_code + u32) \<Rightarrow> buffer_tag \<Rightarrow> 'mr
   \<Rightarrow> error_code + rdma_buffer" where
  "buffer_whole addr len local_key tag m =
     (case local_key m of
        Inl ec \<Rightarrow> Inl ec
      | Inr key \<Rightarrow> Inr \<lparr>buffer_kind = tag, buf_addr = addr m, buf_length = len m,
                        buf_local_key = key\<rparr>)"

definition buffer_range ::
  "('mr \<Rightarrow> ptr) \<Rightarrow> ('mr \<Rightarrow> error_code + u32) \<Rightarrow> ('mr \<Rightarrow> size_t \<Rightarrow> size_t \<Rightarrow> bool) \<Rightarrow> buffer_tag
   \<Rightarrow> 'mr \<Rightarrow> size_t \<Rightarrow> size_t \<Rightarrow> error_code + rdma_buffer" where
  "buffer_range addr local_key is_in_mr tag m off n =
     (if \<not> is_in_mr m off n then Inr (empty_buffer tag)
      else case local_key m of
        Inl ec \<Rightarrow> Inl ec
      | Inr key \<Rightarrow> Inr \<lparr>buffer_kind = tag, buf_addr = addr m + off, buf_length = n,
                        buf_local_key = key\<rparr>)"

subsection \<open>libibverbs memory regions\<close>

record native_mr_t =
  lkey :: u32
  rkey :: u32

text \<open>\<open>mr_\<close> is a \<open>unique_ptr\<close>: \<open>None\<close> after the region was moved from.\<close>

record ibv_memory_region =
  ibv_mr :: "native_mr_t option"
  ibv_mr_addr :: ptr
  ibv_mr_length :: size_t
  ibv_mr_flag :: mr_access_flag_t
  ibv_mr_extra_flag :: i32

definition ibv_local_key :: "ibv_memory_region \<Rightarrow> error_code + u32" where
  "ibv_local_key m =
     (case ibv_mr m of None \<Rightarrow> Inl (make_error_code invalid_handle) | Some r \<Rightarrow> Inr (lkey r))"

definition ibv_remote_key :: "ibv_memory_region \<Rightarrow> error_code + u32" where
  "ibv_remote_key m =
     (case ibv_mr m of None \<Rightarrow> Inl (make_error_code invalid_handle) | Some r \<Rightarrow> Inr (rkey r))"

definition ibv_is_in_mr_ptr :: "ibv_memory_region \<Rightarrow> ptr \<Rightarrow> size_t \<Rightarrow> bool" where
  "ibv_is_in_mr_ptr m addr len \<longleftrightarrow>
     ibv_mr m \<noteq> None \<and> mr_offset_of (ibv_mr_addr m) (ibv_mr_length m) addr len \<noteq> None"

definition ibv_is_in_mr :: "ibv_memory_region \<Rightarrow> size_t \<Rightarrow> size_t \<Rightarrow> bool" where
  "ibv_is_in_mr m off len \<longleftrightarrow>
     ibv_mr m \<noteq> None \<and> mr_contains_offset (ibv_mr_length m) off len"

definition ibv_remote_addr ::
  "ibv_memory_region \<Rightarrow> size_t \<Rightarrow> size_t \<Rightarrow> error_code + rdma_remote_addr_t" where
  "ibv_remote_addr m off len =
     (if \<not> ibv_is_in_mr m off len then Inr \<lparr>remote_address = 0, remote_token = 0\<rparr>
      else case ibv_remote_key m of
        Inl ec \<Rightarrow> Inl ec
      | Inr key \<Rightarrow> Inr \<lparr>remote_address = ibv_mr_addr m + off, remote_token = key\<rparr>)"

definition ibv_slice ::
  "buffer_tag \<Rightarrow> ibv_memory_region \<Rightarrow> size_t \<Rightarrow> size_t \<Rightarrow> error_code + rdma_buffer" where
  "ibv_slice = buffer_range ibv_mr_addr ibv_local_key ibv_is_in_mr"

definition ibv_cslice ::
  "ibv_memory_region \<Rightarrow> size_t \<Rightarrow> size_t \<Rightarrow> error_code + rdma_buffer" where
  "ibv_cslice m off len = ibv_slice rdma_const_buffer_tag m off len"

text \<open>
  The access rights \<open>verbs_ops::reg_mr\<close> asks for. The flags of \<open>verbs.h\<close> are arguments
  (\<open>LW\<close> local write, \<open>RW\<close> remote write, \<open>RR\<close> remote read).
\<close>

unbundle bit_operations_syntax

definition reg_mr_access :: "i32 \<Rightarrow> i32 \<Rightarrow> i32 \<Rightarrow> mr_access_flag_t \<Rightarrow> i32 \<Rightarrow> i32" where
  "reg_mr_access LW RW RR flag extra_flag =
     (case flag of
        mr_access_local_write \<Rightarrow> LW OR extra_flag
      | mr_access_remote_read \<Rightarrow> LW OR RR OR extra_flag
      | mr_access_remote_write \<Rightarrow> LW OR RW OR RR OR extra_flag)"

text \<open>
  \<open>verbs_ops::reg_mr\<close>, \<open>throw_reg_mr\<close> and the constructor. \<open>ibv_reg_mr\<close> is the library call:
  the region, or \<open>None\<close> with the \<open>errno\<close> it left. \<open>has_pd\<close> is \<open>device && device->pd_\<close>.
\<close>

definition reg_mr ::
  "(ptr \<Rightarrow> size_t \<Rightarrow> i32 \<Rightarrow> native_mr_t option \<times> int) \<Rightarrow> i32 \<Rightarrow> i32 \<Rightarrow> i32
   \<Rightarrow> ptr \<Rightarrow> size_t \<Rightarrow> mr_access_flag_t \<Rightarrow> i32 \<Rightarrow> native_mr_t option \<times> error_code" where
  "reg_mr ibv_reg_mr LW RW RR addr len flag extra_flag =
     (case ibv_reg_mr addr len (reg_mr_access LW RW RR flag extra_flag) of
        (None, errno) \<Rightarrow> (None, last_system_error errno)
      | (Some r, _) \<Rightarrow> (Some r, no_error))"

definition ibv_memory_region_ctor ::
  "(ptr \<Rightarrow> size_t \<Rightarrow> i32 \<Rightarrow> native_mr_t option \<times> int) \<Rightarrow> i32 \<Rightarrow> i32 \<Rightarrow> i32
   \<Rightarrow> bool \<Rightarrow> ptr \<Rightarrow> size_t \<Rightarrow> mr_access_flag_t \<Rightarrow> i32 \<Rightarrow> error_code + ibv_memory_region" where
  "ibv_memory_region_ctor ibv_reg_mr LW RW RR has_pd addr len flag extra_flag =
     (if \<not> has_pd then Inl (make_error_code invalid_device)
      else let (result, ec) = reg_mr ibv_reg_mr LW RW RR addr len flag extra_flag in
        if is_error ec then Inl ec
        else Inr \<lparr>ibv_mr = result, ibv_mr_addr = addr, ibv_mr_length = len,
                  ibv_mr_flag = flag, ibv_mr_extra_flag = extra_flag\<rparr>)"

text \<open>The defaulted move constructor: the \<open>unique_ptr\<close> is emptied, the plain members are copied.\<close>

definition ibv_memory_region_move ::
  "ibv_memory_region \<Rightarrow> ibv_memory_region \<times> ibv_memory_region" where
  "ibv_memory_region_move other = (other, other\<lparr>ibv_mr := None\<rparr>)"

subsection \<open>NetworkDirect memory regions\<close>

record nd_memory_region =
  nd_mr :: "native_mr_t option"
  nd_mr_addr :: ptr
  nd_mr_length :: size_t
  nd_mr_flag :: mr_access_flag_t
  nd_mr_extra_flag :: i32

definition nd_local_key :: "nd_memory_region \<Rightarrow> error_code + u32" where
  "nd_local_key m =
     (case nd_mr m of None \<Rightarrow> Inl (make_error_code invalid_handle) | Some r \<Rightarrow> Inr (lkey r))"

definition nd_remote_key :: "nd_memory_region \<Rightarrow> error_code + u32" where
  "nd_remote_key m =
     (case nd_mr m of None \<Rightarrow> Inl (make_error_code invalid_handle) | Some r \<Rightarrow> Inr (rkey r))"

definition nd_is_in_mr_ptr :: "nd_memory_region \<Rightarrow> ptr \<Rightarrow> size_t \<Rightarrow> bool" where
  "nd_is_in_mr_ptr m addr len \<longleftrightarrow>
     nd_mr m \<noteq> None \<and> mr_offset_of (nd_mr_addr m) (nd_mr_length m) addr len \<noteq> None"

definition nd_is_in_mr :: "nd_memory_region \<Rightarrow> size_t \<Rightarrow> size_t \<Rightarrow> bool" where
  "nd_is_in_mr m off len \<longleftrightarrow> nd_mr m \<noteq> None \<and> mr_contains_offset (nd_mr_length m) off len"

definition nd_remote_addr ::
  "nd_memory_region \<Rightarrow> size_t \<Rightarrow> size_t \<Rightarrow> error_code + rdma_remote_addr_t" where
  "nd_remote_addr m off len =
     (if \<not> nd_is_in_mr m off len then Inr \<lparr>remote_address = 0, remote_token = 0\<rparr>
      else case nd_remote_key m of
        Inl ec \<Rightarrow> Inl ec
      | Inr key \<Rightarrow> Inr \<lparr>remote_address = nd_mr_addr m + off, remote_token = key\<rparr>)"

definition nd_slice ::
  "buffer_tag \<Rightarrow> nd_memory_region \<Rightarrow> size_t \<Rightarrow> size_t \<Rightarrow> error_code + rdma_buffer" where
  "nd_slice = buffer_range nd_mr_addr nd_local_key nd_is_in_mr"

definition nd_slice_ptr ::
  "buffer_tag \<Rightarrow> nd_memory_region \<Rightarrow> ptr \<Rightarrow> size_t \<Rightarrow> error_code + rdma_buffer" where
  "nd_slice_ptr tag m addr len =
     (case mr_offset_of (nd_mr_addr m) (nd_mr_length m) addr len of
        Some off \<Rightarrow> nd_slice tag m off len
      | None \<Rightarrow> Inr (empty_buffer tag))"

subsection \<open>What the range checks decide\<close>

lemma mr_contains_offset_iff:
  "mr_contains_offset region_length off len \<longleftrightarrow>
     unat off + unat len \<le> unat region_length"
proof (cases "off \<le> region_length")
  case True
  then have "unat (region_length - off) = unat region_length - unat off"
    by (rule unat_diff_le)
  with True show ?thesis
    by (auto simp: mr_contains_offset_def word_le_nat_alt)
next
  case False
  then show ?thesis
    by (auto simp: mr_contains_offset_def word_le_nat_alt)
qed

lemma region_fits_iff:
  "\<not> region_length > - 1 - base \<longleftrightarrow> unat base + unat region_length < 2 ^ 64"
  for base :: ptr and region_length :: size_t
proof -
  have "unat (- 1 - base) = 18446744073709551615 - unat base"
    by (subst unat_diff_le) (simp_all add: unsigned_minus_1_eq_mask mask_eq_exp_minus_1)
  moreover have "unat region_length \<le> 18446744073709551615 - unat base \<longleftrightarrow>
      unat base + unat region_length < 18446744073709551616"
    using unat_u64_less [of base] by arith
  ultimately show ?thesis
    by (simp add: not_less word_le_nat_alt)
qed

lemma mr_offset_of_Some_iff:
  "mr_offset_of base region_length address len = Some off \<longleftrightarrow>
     base \<noteq> nullptr \<and> address \<noteq> nullptr \<and>
     unat base + unat region_length < 2 ^ 64 \<and>
     unat address = unat base + unat off \<and>
     unat off + unat len \<le> unat region_length"
proof -
  have off_eq: "address - base = off \<longleftrightarrow> unat address = unat base + unat off"
    if le: "base \<le> address"
    using le unat_diff_le [OF le] by (auto simp: word_le_nat_alt word_unat_eq_iff)
  show ?thesis
  proof (cases "base = nullptr \<or> address = nullptr \<or> region_length > - 1 - base
      \<or> address < base")
    case True
    then have "mr_offset_of base region_length address len = None"
      by (auto simp: mr_offset_of_def)
    moreover have "region_length > - 1 - base \<Longrightarrow> \<not> unat base + unat region_length < 2 ^ 64"
      using region_fits_iff [of base region_length] by blast
    moreover have "address < base \<Longrightarrow> unat address \<noteq> unat base + unat off"
      by (simp add: word_less_nat_alt)
    ultimately show ?thesis using True by auto
  next
    case False
    then have le: "base \<le> address" by (simp add: not_less)
    from False have fits: "unat base + unat region_length < 2 ^ 64"
      using region_fits_iff [of base region_length] by blast
    have "mr_offset_of base region_length address len = Some off \<longleftrightarrow>
        address - base = off \<and> mr_contains_offset region_length off len"
      using False by (auto simp: mr_offset_of_def Let_def)
    also have "\<dots> \<longleftrightarrow> unat address = unat base + unat off \<and>
        unat off + unat len \<le> unat region_length"
      by (simp add: off_eq [OF le] mr_contains_offset_iff)
    finally show ?thesis
      using False fits by simp
  qed
qed

text \<open>
  Pointer and offset views agree: inside a region that does not run past the address space, the
  offset of \<open>base + off\<close> is \<open>off\<close>.
\<close>

lemma mr_offset_of_base_plus:
  assumes "base \<noteq> nullptr" and "unat base + unat region_length < 2 ^ 64"
    and "mr_contains_offset region_length off len"
  shows "mr_offset_of base region_length (base + off) len = Some off"
proof -
  have c: "unat off + unat len \<le> unat region_length"
    using assms(3) by (simp add: mr_contains_offset_iff)
  have s: "unat (base + off) = unat base + unat off"
    by (rule unat_add_no_wrap) (use assms(2) c in simp)
  have "unat base \<noteq> 0" using assms(1) by (simp add: unat_eq_0)
  then have "base + off \<noteq> nullptr"
    using s by (metis add_eq_0_iff_both_eq_0 unsigned_0)
  with assms c s show ?thesis by (simp add: mr_offset_of_Some_iff)
qed

subsection \<open>The concept \<open>memory_region_like\<close>\<close>

text \<open>
  A region is \<open>registered\<close> while it owns its native object. The laws are what the \<open>buffer\<close>
  factory and \<open>remote_addr\<close> need; the lemmas are proved once for both backends.
\<close>

locale memory_region_like =
  fixes addr :: "'mr \<Rightarrow> ptr"
    and len :: "'mr \<Rightarrow> size_t"
    and local_key :: "'mr \<Rightarrow> error_code + u32"
    and is_in_mr :: "'mr \<Rightarrow> size_t \<Rightarrow> size_t \<Rightarrow> bool"
    and registered :: "'mr \<Rightarrow> bool"
  assumes in_mr_iff: "is_in_mr m off n \<longleftrightarrow> registered m \<and> mr_contains_offset (len m) off n"
    and key_registered: "registered m \<Longrightarrow> \<exists>k. local_key m = Inr k"
    and key_moved: "\<not> registered m \<Longrightarrow> local_key m = Inl (make_error_code invalid_handle)"
begin

lemma range_total: "\<exists>b. buffer_range addr local_key is_in_mr tag m off n = Inr b"
  using key_registered [of m] by (auto simp: buffer_range_def in_mr_iff)

lemma range_inside:
  assumes "is_in_mr m off n" and "buffer_range addr local_key is_in_mr tag m off n = Inr b"
  shows "buf_addr b = addr m + off" and "buf_length b = n" and "local_key m = Inr (buf_local_key b)"
    and "buffer_kind b = tag"
  using assms by (auto simp: buffer_range_def split: sum.splits)

lemma range_within_region:
  assumes r: "buffer_range addr local_key is_in_mr tag m off n = Inr b"
    and fits: "unat (addr m) + unat (len m) < 2 ^ 64"
    and nonempty: "buf_length b \<noteq> 0"
  shows "unat (addr m) \<le> unat (buf_addr b)"
    and "unat (buf_addr b) + unat (buf_length b) \<le> unat (addr m) + unat (len m)"
proof -
  have inside: "is_in_mr m off n"
  proof (rule ccontr)
    assume "\<not> is_in_mr m off n"
    with r have "b = empty_buffer tag" by (auto simp: buffer_range_def)
    with nonempty show False by (simp add: empty_buffer_def)
  qed
  then have c: "unat off + unat n \<le> unat (len m)"
    by (simp add: in_mr_iff mr_contains_offset_iff)
  have "unat (addr m + off) = unat (addr m) + unat off"
    by (rule unat_add_no_wrap) (use fits c in simp)
  with range_inside [OF inside r] c
  show "unat (addr m) \<le> unat (buf_addr b)"
    and "unat (buf_addr b) + unat (buf_length b) \<le> unat (addr m) + unat (len m)"
    by simp_all
qed

lemma range_outside:
  "\<not> is_in_mr m off n \<Longrightarrow> buffer_range addr local_key is_in_mr tag m off n = Inr (empty_buffer tag)"
  by (simp add: buffer_range_def)

lemma whole_eq_range:
  assumes "registered m"
  shows "buffer_whole addr len local_key tag m =
    buffer_range addr local_key is_in_mr tag m 0 (len m)"
  using assms key_registered [OF assms]
  by (auto simp: buffer_whole_def buffer_range_def in_mr_iff mr_contains_offset_iff)

end

interpretation ibv_region: memory_region_like
  ibv_mr_addr ibv_mr_length ibv_local_key ibv_is_in_mr "\<lambda>m. ibv_mr m \<noteq> None"
  by unfold_locales (auto simp: ibv_is_in_mr_def ibv_local_key_def)

interpretation nd_region: memory_region_like
  nd_mr_addr nd_mr_length nd_local_key nd_is_in_mr "\<lambda>m. nd_mr m \<noteq> None"
  by unfold_locales (auto simp: nd_is_in_mr_def nd_local_key_def)

subsection \<open>Registered regions\<close>

text \<open>
  A constructed region is registered; this needs that a failing \<open>ibv_reg_mr\<close> sets \<open>errno\<close>.
\<close>

definition reg_mr_sets_errno :: "(ptr \<Rightarrow> size_t \<Rightarrow> i32 \<Rightarrow> native_mr_t option \<times> int) \<Rightarrow> bool" where
  "reg_mr_sets_errno ibv_reg_mr \<longleftrightarrow>
     (\<forall>a n acc. fst (ibv_reg_mr a n acc) = None \<longrightarrow> snd (ibv_reg_mr a n acc) \<noteq> 0)"

lemma ibv_memory_region_ctor_registered:
  assumes "reg_mr_sets_errno ibv_reg_mr"
    and "ibv_memory_region_ctor ibv_reg_mr LW RW RR has_pd a n flag extra = Inr m"
  shows "ibv_mr m \<noteq> None" and "ibv_mr_addr m = a" and "ibv_mr_length m = n"
proof -
  obtain r e where call: "ibv_reg_mr a n (reg_mr_access LW RW RR flag extra) = (r, e)"
    by (cases "ibv_reg_mr a n (reg_mr_access LW RW RR flag extra)") auto
  have "r = None \<Longrightarrow> e \<noteq> 0"
    using assms(1) call unfolding reg_mr_sets_errno_def by (metis fst_conv snd_conv)
  with assms(2) call show "ibv_mr m \<noteq> None" and "ibv_mr_addr m = a" and "ibv_mr_length m = n"
    by (auto simp: ibv_memory_region_ctor_def reg_mr_def split: if_splits option.splits)
qed

end
