(* ===== verification/Sglist_Build.thy ===== *)
theory Sglist_Build
  imports Small_Sglist RDMA_Buffer
begin

text \<open>
  The SGE builder of \<open>ibv/ibv_buffer.hpp\<close> and \<open>nd/nd_buffer.hpp\<close>: \<open>fill_native_sge\<close>,
  \<open>build_native_sglist\<close>, \<open>buffers2sglist\<close>. The two files differ in the native SGE's field names
  only; the builder is one definition over the \<open>fill_native_sge\<close> it calls.

  Lengths are 64-bit words; the native length is 32 bits and the byte count of one operation is
  limited to 32 bits. The lemmas give the builder's outcome in closed form over the sum of the
  lengths as a natural number.
\<close>

datatype native_sge = SGE (sge_addr: u64) (sge_length: u32) (sge_lkey: u32)

text \<open>\<open>native_sge_t sge{}\<close> is all zeros.\<close>

instantiation native_sge :: zero
begin

definition zero_native_sge :: native_sge where
  "zero_native_sge = SGE 0 0 0"

instance ..

end

definition ibv_fill_native_sge :: "rdma_buffer \<Rightarrow> native_sge" where
  "ibv_fill_native_sge b = SGE (buf_addr b) (ucast (buf_length b)) (buf_local_key b)"

definition nd_fill_native_sge :: "rdma_buffer \<Rightarrow> native_sge" where
  "nd_fill_native_sge b = SGE (buf_addr b) (ucast (buf_length b)) (buf_local_key b)"

record built_sglist =
  built_data :: data_ptr
  built_count :: nat
  built_total_bytes :: size_t
  built_all_empty :: bool
  built_too_many_sge :: bool
  built_buffer_too_large :: bool
  built_heap_spilled :: bool

definition built_sglist_new :: built_sglist where
  "built_sglist_new =
     \<lparr>built_data = DNull, built_count = 0, built_total_bytes = 0, built_all_empty = True,
      built_too_many_sge = False, built_buffer_too_large = False, built_heap_spilled = False\<rparr>"

text \<open>Every exit of the loop records where the entries are.\<close>

definition build_exit ::
  "built_sglist \<Rightarrow> native_sge small_sglist \<Rightarrow> built_sglist \<times> native_sge small_sglist" where
  "build_exit built sglist =
     (built\<lparr>built_data := sgl_data sglist, built_heap_spilled := sgl_uses_heap sglist\<rparr>, sglist)"

fun build_loop ::
  "(rdma_buffer \<Rightarrow> native_sge) \<Rightarrow> u32 \<Rightarrow> rdma_buffer list \<Rightarrow> built_sglist \<Rightarrow> native_sge small_sglist
   \<Rightarrow> built_sglist \<times> native_sge small_sglist" where
  "build_loop fill max_sges [] built sglist = build_exit built sglist"
| "build_loop fill max_sges (b # bs) built sglist =
     (if max_sges \<noteq> 0 \<and> built_count built \<ge> unat max_sges
      then build_exit (built\<lparr>built_too_many_sge := True\<rparr>) sglist
      else if buf_length b > u32_max \<or> built_total_bytes built > u32_max - buf_length b
      then build_exit (built\<lparr>built_buffer_too_large := True\<rparr>) sglist
      else build_loop fill max_sges bs
        (built\<lparr>built_count := built_count built + 1,
               built_total_bytes := built_total_bytes built + buf_length b,
               built_all_empty := built_all_empty built \<and> buf_length b = 0\<rparr>)
        (sgl_push (fill b) sglist))"

definition ibv_build_native_sglist ::
  "rdma_buffer list \<Rightarrow> native_sge small_sglist \<Rightarrow> u32 \<Rightarrow> built_sglist \<times> native_sge small_sglist"
  where
  "ibv_build_native_sglist bs sglist max_sges =
     build_loop ibv_fill_native_sge max_sges bs built_sglist_new (sgl_clear sglist)"

definition nd_build_native_sglist ::
  "rdma_buffer list \<Rightarrow> native_sge small_sglist \<Rightarrow> u32 \<Rightarrow> built_sglist \<times> native_sge small_sglist"
  where
  "nd_build_native_sglist bs sglist max_sges =
     build_loop nd_fill_native_sge max_sges bs built_sglist_new (sgl_clear sglist)"

text \<open>\<open>buffers2sglist\<close>: no limit on the number of entries, the summary is dropped.\<close>

definition ibv_buffers2sglist ::
  "rdma_buffer list \<Rightarrow> native_sge small_sglist \<Rightarrow> native_sge small_sglist" where
  "ibv_buffers2sglist bs sglist = snd (ibv_build_native_sglist bs sglist 0)"

subsection \<open>The outcome in closed form\<close>

definition total_length :: "rdma_buffer list \<Rightarrow> nat" where
  "total_length bs = (\<Sum>b\<leftarrow>bs. unat (buf_length b))"

text \<open>The buffers the builder looks at: all, or the first \<open>max_sges\<close>.\<close>

definition admitted :: "u32 \<Rightarrow> rdma_buffer list \<Rightarrow> rdma_buffer list" where
  "admitted max_sges bs = (if max_sges = 0 then bs else take (unat max_sges) bs)"

datatype build_outcome = Build_too_many | Build_too_large | Build_ok

definition build_spec :: "u32 \<Rightarrow> rdma_buffer list \<Rightarrow> build_outcome" where
  "build_spec max_sges bs =
     (if total_length (admitted max_sges bs) > 4294967295 then Build_too_large
      else if max_sges \<noteq> 0 \<and> length bs > unat max_sges then Build_too_many
      else Build_ok)"

definition build_outcome_of :: "built_sglist \<Rightarrow> build_outcome" where
  "build_outcome_of built =
     (if built_too_many_sge built then Build_too_many
      else if built_buffer_too_large built then Build_too_large else Build_ok)"

lemma total_length_simps [simp]:
  "total_length [] = 0" "total_length (b # bs) = unat (buf_length b) + total_length bs"
  "total_length (xs @ ys) = total_length xs + total_length ys"
  by (simp_all add: total_length_def)

lemma total_length_take_le: "total_length (take n bs) \<le> total_length bs"
  by (metis append_take_drop_id le_add1 total_length_simps(3))

lemma total_length_zero_iff: "total_length bs = 0 \<longleftrightarrow> all_empty bs"
  by (induction bs) (auto simp: all_empty_def unat_eq_0)

lemma buf_length_le_total: "b \<in> set bs \<Longrightarrow> unat (buf_length b) \<le> total_length bs"
  by (induction bs) auto

text \<open>The builder's 64-bit test is the test on naturals.\<close>

lemma segment_fits_iff:
  fixes l t :: u64
  assumes "unat t \<le> 4294967295"
  shows "\<not> (l > u32_max \<or> t > u32_max - l) \<longleftrightarrow> unat t + unat l \<le> 4294967295"
proof (cases "l \<le> u32_max")
  case True
  then have "unat (u32_max - l) = 4294967295 - unat l"
    by (subst unat_diff_le) simp_all
  then have "t \<le> u32_max - l \<longleftrightarrow> unat t \<le> 4294967295 - unat l"
    by (simp add: word_le_nat_alt)
  with True show ?thesis by (auto simp: not_less u64_le_u32_max_iff)
next
  case False
  then show ?thesis by (auto simp: not_less u64_le_u32_max_iff)
qed

text \<open>
  The loop invariant: the counters summarise the buffers taken so far, the list holds their SGEs.
\<close>

definition build_inv ::
  "(rdma_buffer \<Rightarrow> native_sge) \<Rightarrow> rdma_buffer list \<Rightarrow> built_sglist \<Rightarrow> native_sge small_sglist \<Rightarrow> bool"
  where
  "build_inv fill taken built sglist \<longleftrightarrow>
     built_count built = length taken \<and>
     unat (built_total_bytes built) = total_length taken \<and> total_length taken \<le> 4294967295 \<and>
     built_all_empty built = all_empty taken \<and>
     \<not> built_too_many_sge built \<and> \<not> built_buffer_too_large built \<and>
     sgl_unspilled sglist \<and> sgl_contents sglist = map fill taken"

lemma build_inv_new:
  "sgl_fresh s \<Longrightarrow> build_inv fill [] built_sglist_new (sgl_clear s)"
  by (simp add: build_inv_def built_sglist_new_def all_empty_def sgl.fresh_clear
      sgl.contents_clear)

lemma build_inv_step:
  assumes "build_inv fill taken built sglist"
    and "total_length taken + unat (buf_length b) \<le> 4294967295"
  shows "build_inv fill (taken @ [b])
    (built\<lparr>built_count := built_count built + 1,
           built_total_bytes := built_total_bytes built + buf_length b,
           built_all_empty := built_all_empty built \<and> buf_length b = 0\<rparr>)
    (sgl_push (fill b) sglist)"
proof -
  have "unat (built_total_bytes built + buf_length b) = total_length taken + unat (buf_length b)"
    using assms by (subst unat_add_no_wrap) (auto simp: build_inv_def)
  with assms show ?thesis
    by (simp add: build_inv_def all_empty_def sgl.invar_push sgl.contents_push)
qed

text \<open>What the loop returns, started after \<open>taken\<close> buffers.\<close>

definition build_post ::
  "(rdma_buffer \<Rightarrow> native_sge) \<Rightarrow> u32 \<Rightarrow> rdma_buffer list \<Rightarrow> built_sglist \<times> native_sge small_sglist \<Rightarrow> bool"
  where
  "build_post fill max_sges bs r \<longleftrightarrow>
     build_outcome_of (fst r) = build_spec max_sges bs \<and>
     (build_spec max_sges bs = Build_ok \<longrightarrow>
        build_inv fill bs (fst r) (snd r) \<and> built_data (fst r) = sgl_data (snd r) \<and>
        built_heap_spilled (fst r) = sgl_uses_heap (snd r))"

lemma build_inv_data [simp]:
  "build_inv fill taken (built\<lparr>built_data := d, built_heap_spilled := h\<rparr>) s =
   build_inv fill taken built s"
  by (simp add: build_inv_def)

lemma build_post_too_many:
  assumes "build_inv fill taken built s" and "max_sges \<noteq> 0" and "length taken \<ge> unat max_sges"
    and "length taken \<le> unat max_sges"
  shows "build_post fill max_sges (taken @ b # bs)
    (build_exit (built\<lparr>built_too_many_sge := True\<rparr>) s)"
proof -
  have "admitted max_sges (taken @ b # bs) = taken"
    using assms(2-4) by (simp add: admitted_def)
  with assms show ?thesis
    by (simp add: build_post_def build_spec_def build_exit_def build_outcome_of_def build_inv_def)
qed

lemma build_post_too_large:
  assumes inv: "build_inv fill taken built s"
    and room: "max_sges = 0 \<or> length taken < unat max_sges"
    and over: "total_length taken + unat (buf_length b) > 4294967295"
  shows "build_post fill max_sges (taken @ b # bs)
    (build_exit (built\<lparr>built_buffer_too_large := True\<rparr>) s)"
proof -
  have "\<exists>tail. admitted max_sges (taken @ b # bs) = taken @ b # tail"
  proof (cases "max_sges = 0")
    case True
    then show ?thesis by (simp add: admitted_def)
  next
    case False
    with room obtain k where "unat max_sges - length taken = Suc k"
      by (metis Suc_diff_Suc)
    with False room show ?thesis by (simp add: admitted_def)
  qed
  then have "total_length (admitted max_sges (taken @ b # bs)) > 4294967295"
    using over by auto
  with inv show ?thesis
    by (simp add: build_post_def build_spec_def build_exit_def build_outcome_of_def build_inv_def)
qed

lemma build_loop_post:
  assumes "build_inv fill taken built s"
    and "max_sges = 0 \<or> length taken \<le> unat max_sges"
  shows "build_post fill max_sges (taken @ bs) (build_loop fill max_sges bs built s)"
  using assms
proof (induction bs arbitrary: taken built s)
  case Nil
  then have "build_spec max_sges taken = Build_ok"
    by (auto simp: build_spec_def admitted_def build_inv_def
        intro: order.trans [OF total_length_take_le])
  with Nil show ?case
    by (simp add: build_post_def build_exit_def build_outcome_of_def build_inv_def)
next
  case (Cons b bs)
  have cnt: "built_count built = length taken" and le: "unat (built_total_bytes built) \<le> 4294967295"
    and tot: "unat (built_total_bytes built) = total_length taken"
    using Cons.prems(1) by (simp_all add: build_inv_def)
  note fits = segment_fits_iff [OF le, of "buf_length b"]
  show ?case
  proof (cases "max_sges \<noteq> 0 \<and> length taken \<ge> unat max_sges")
    case True
    then show ?thesis
      using Cons.prems cnt by (simp add: build_post_too_many)
  next
    case room: False
    show ?thesis
    proof (cases "total_length taken + unat (buf_length b) \<le> 4294967295")
      case True
      let ?built = "built\<lparr>built_count := built_count built + 1,
           built_total_bytes := built_total_bytes built + buf_length b,
           built_all_empty := built_all_empty built \<and> buf_length b = 0\<rparr>"
      have "build_post fill max_sges ((taken @ [b]) @ bs)
          (build_loop fill max_sges bs ?built (sgl_push (fill b) s))"
        using room by (intro Cons.IH build_inv_step [OF Cons.prems(1) True]) auto
      moreover have "build_loop fill max_sges (b # bs) built s =
          build_loop fill max_sges bs ?built (sgl_push (fill b) s)"
        using room cnt fits True tot by auto
      ultimately show ?thesis by simp
    next
      case False
      have "build_loop fill max_sges (b # bs) built s =
          build_exit (built\<lparr>built_buffer_too_large := True\<rparr>) s"
        using room cnt fits False tot by auto
      moreover have "max_sges = 0 \<or> length taken < unat max_sges" using room by auto
      ultimately show ?thesis
        using build_post_too_large [OF Cons.prems(1), of max_sges b bs] False by simp
    qed
  qed
qed

lemma ibv_build_post:
  "sgl_fresh s \<Longrightarrow> build_post ibv_fill_native_sge max_sges bs (ibv_build_native_sglist bs s max_sges)"
  using build_loop_post [OF build_inv_new, of s max_sges ibv_fill_native_sge bs]
  by (simp add: ibv_build_native_sglist_def)

lemma nd_build_post:
  "sgl_fresh s \<Longrightarrow> build_post nd_fill_native_sge max_sges bs (nd_build_native_sglist bs s max_sges)"
  using build_loop_post [OF build_inv_new, of s max_sges nd_fill_native_sge bs]
  by (simp add: nd_build_native_sglist_def)

text \<open>An SGE built from an admitted buffer carries the buffer's exact length.\<close>

lemma ibv_fill_exact:
  "unat (buf_length b) \<le> 4294967295 \<Longrightarrow> unat (sge_length (ibv_fill_native_sge b)) = unat (buf_length b)"
  by (simp add: ibv_fill_native_sge_def unat_ucast_32_fits)

end
