(* ===== verification/Verbs_Op.thy ===== *)
theory Verbs_Op
  imports Sglist_Build
begin

text \<open>
  Data-plane operations: \<open>detail/rdma_verbs_op.hpp\<close>, the four operation types
  (\<open>detail/rdma_op_{send,recv,read,write}.hpp\<close>) and the mapping of work completions back to
  operations (\<open>ibv/detail/impl/ibv_op_complete.ipp\<close>).

  Operations live on the heap and are named by their address, which is also the \<open>wr_id\<close> of their
  work request. \<open>vworld\<close> is the state the data plane works on: the host adapter \<open>hw\<close> (a parameter
  type: its calls are arguments), the live operations, the two queues of operations that are to
  complete without a work completion, the handler invocations so far, and \<open>dangling\<close>, set when an
  address without a live operation is dereferenced.
\<close>

subsection \<open>Operations\<close>

datatype verbs_op_type = post_recv | post_send | remote_read | remote_write

text \<open>
  A buffer sequence is one buffer object or a container of them; \<open>is_single_buffer_sequence_v\<close>
  selects the code path on that difference.
\<close>

datatype buffer_seq = Single_buffer rdma_buffer | Buffer_sequence "rdma_buffer list"

fun seq_buffers :: "buffer_seq \<Rightarrow> rdma_buffer list" where
  "seq_buffers (Single_buffer b) = [b]"
| "seq_buffers (Buffer_sequence bs) = bs"

record verbs_op =
  op_kind :: verbs_op_type
  op_ec :: error_code
  op_bytes :: size_t
  op_buffers :: buffer_seq
  op_remote :: rdma_remote_addr_t
  op_handler :: nat

text \<open>
  The constructors: \<open>bytes_transferred_\<close> starts at 0, \<open>ec_\<close> is the given success code. Two-sided
  operations have no remote address (any value here).
\<close>

definition verbs_op_new ::
  "verbs_op_type \<Rightarrow> error_code \<Rightarrow> buffer_seq \<Rightarrow> rdma_remote_addr_t \<Rightarrow> nat \<Rightarrow> verbs_op" where
  "verbs_op_new kind success_ec buffers remote h =
     \<lparr>op_kind = kind, op_ec = success_ec, op_bytes = 0, op_buffers = buffers, op_remote = remote,
      op_handler = h\<rparr>"

definition set_posted_bytes :: "size_t \<Rightarrow> verbs_op \<Rightarrow> verbs_op" where
  "set_posted_bytes n op = op\<lparr>op_bytes := n\<rparr>"

subsection \<open>Completion\<close>

text \<open>What a handler is invoked with.\<close>

record upcall =
  up_handler :: nat
  up_ec :: error_code
  up_bytes :: size_t

definition upcall_of :: "verbs_op \<Rightarrow> upcall" where
  "upcall_of o' = \<lparr>up_handler = op_handler o', up_ec = op_ec o', up_bytes = op_bytes o'\<rparr>"

text \<open>
  The \<open>do_complete\<close> functions. The operation is freed in every case; the handler is invoked only
  with an owner. Sends and writes drop the posted byte count when completed with an error; for
  receives and reads the count comes from the work completion.
\<close>

definition send_do_complete :: "bool \<Rightarrow> verbs_op \<Rightarrow> error_code \<Rightarrow> upcall option" where
  "send_do_complete owner op ec =
     (let op' = (if is_error ec then op\<lparr>op_bytes := 0\<rparr> else op)
      in if owner then Some (upcall_of op') else None)"

definition recv_do_complete :: "bool \<Rightarrow> verbs_op \<Rightarrow> error_code \<Rightarrow> upcall option" where
  "recv_do_complete owner op ec = (if owner then Some (upcall_of op) else None)"

definition read_do_complete :: "bool \<Rightarrow> verbs_op \<Rightarrow> error_code \<Rightarrow> upcall option" where
  "read_do_complete owner op ec = (if owner then Some (upcall_of op) else None)"

definition write_do_complete :: "bool \<Rightarrow> verbs_op \<Rightarrow> error_code \<Rightarrow> upcall option" where
  "write_do_complete owner op ec =
     (let op' = (if is_error ec then op\<lparr>op_bytes := 0\<rparr> else op)
      in if owner then Some (upcall_of op') else None)"

text \<open>The function pointer \<open>complete_func_\<close>, then \<open>complete(owner)\<close> and \<open>destroy()\<close>.\<close>

definition complete_func :: "verbs_op \<Rightarrow> bool \<Rightarrow> error_code \<Rightarrow> upcall option" where
  "complete_func op owner ec =
     (case op_kind op of
        post_send \<Rightarrow> send_do_complete owner op ec
      | post_recv \<Rightarrow> recv_do_complete owner op ec
      | remote_read \<Rightarrow> read_do_complete owner op ec
      | remote_write \<Rightarrow> write_do_complete owner op ec)"

definition op_complete :: "bool \<Rightarrow> verbs_op \<Rightarrow> upcall option" where
  "op_complete owner op = complete_func op owner (op_ec op)"

definition op_destroy :: "verbs_op \<Rightarrow> upcall option" where
  "op_destroy op = complete_func op False no_error"

subsection \<open>The data plane's state\<close>

record 'h vworld =
  hw :: 'h
  live_ops :: "ptr \<rightharpoonup> verbs_op"
  ready :: "ptr list"
  scheduled :: "ptr list"
  upcalls :: "upcall list"
  dangling :: bool

text \<open>
  Completing the operation at an address: it is taken off the heap, then the handler runs. A
  handler is user code, an arbitrary function on the state; it sees the state without the
  operation.
\<close>

definition complete_at ::
  "(upcall \<Rightarrow> 'h vworld \<Rightarrow> 'h vworld) \<Rightarrow> bool \<Rightarrow> ptr \<Rightarrow> 'h vworld \<Rightarrow> 'h vworld" where
  "complete_at handler owner p w =
     (case live_ops w p of
        None \<Rightarrow> w\<lparr>dangling := True\<rparr>
      | Some op \<Rightarrow>
          let w' = w\<lparr>live_ops := (live_ops w)(p := None)\<rparr>
          in (case op_complete owner op of
                None \<Rightarrow> w'
              | Some u \<Rightarrow> handler u (w'\<lparr>upcalls := upcalls w' @ [u]\<rparr>)))"

definition destroy_at :: "ptr \<Rightarrow> 'h vworld \<Rightarrow> 'h vworld" where
  "destroy_at p w =
     (case live_ops w p of
        None \<Rightarrow> w\<lparr>dangling := True\<rparr>
      | Some op \<Rightarrow> w\<lparr>live_ops := (live_ops w)(p := None)\<rparr>)"

text \<open>
  \<open>ibv_complete_op::do_complete\<close>, which the scheduler runs for an immediate completion: the
  wrapper is deleted and the operation completed with the scheduler's owner.
\<close>

definition ibv_complete_op_do_complete ::
  "(upcall \<Rightarrow> 'h vworld \<Rightarrow> 'h vworld) \<Rightarrow> bool \<Rightarrow> ptr \<Rightarrow> 'h vworld \<Rightarrow> 'h vworld" where
  "ibv_complete_op_do_complete handler owner p w = complete_at handler owner p w"

subsection \<open>Work completions\<close>

datatype ibv_wc_status = IBV_WC_SUCCESS | IBV_WC_WR_FLUSH_ERR | IBV_WC_other_status nat

datatype ibv_wc_opcode =
  IBV_WC_SEND | IBV_WC_RDMA_WRITE | IBV_WC_RDMA_READ | IBV_WC_RECV | IBV_WC_other_opcode nat

record native_wc =
  wc_wr_id :: u64
  wc_status :: ibv_wc_status
  wc_opcode :: ibv_wc_opcode
  wc_byte_len :: u32

definition wc_status_to_ec :: "ibv_wc_status \<Rightarrow> error_code" where
  "wc_status_to_ec status =
     (case status of
        IBV_WC_SUCCESS \<Rightarrow> no_error
      | IBV_WC_WR_FLUSH_ERR \<Rightarrow> operation_aborted
      | IBV_WC_other_status _ \<Rightarrow> connection_reset)"

text \<open>The fields a work completion stamps on its operation.\<close>

definition stamp_wc :: "native_wc \<Rightarrow> verbs_op \<Rightarrow> verbs_op" where
  "stamp_wc wc op =
     (if wc_status wc = IBV_WC_SUCCESS
      then if wc_opcode wc \<noteq> IBV_WC_SEND \<and> wc_opcode wc \<noteq> IBV_WC_RDMA_WRITE
           then op\<lparr>op_bytes := ucast (wc_byte_len wc)\<rparr>
           else op
      else op\<lparr>op_bytes := 0, op_ec := wc_status_to_ec (wc_status wc)\<rparr>)"

text \<open>\<open>resolve_verbs_op\<close>: \<open>None\<close> for a null \<open>wr_id\<close>, otherwise the operation's address.\<close>

definition resolve_verbs_op :: "native_wc \<Rightarrow> 'h vworld \<Rightarrow> ptr option \<times> 'h vworld" where
  "resolve_verbs_op wc w =
     (if wc_wr_id wc = 0 then (None, w)
      else case live_ops w (wc_wr_id wc) of
        None \<Rightarrow> (Some (wc_wr_id wc), w\<lparr>dangling := True\<rparr>)
      | Some op \<Rightarrow>
          (Some (wc_wr_id wc),
           w\<lparr>live_ops := (live_ops w)(wc_wr_id wc \<mapsto> stamp_wc wc op)\<rparr>))"

subsection \<open>Lemmas\<close>

lemma op_complete_owner: "\<exists>u. op_complete True op = Some u"
  by (cases "op_kind op") (simp_all add: op_complete_def complete_func_def send_do_complete_def
      recv_do_complete_def read_do_complete_def write_do_complete_def)

lemma op_complete_no_owner [simp]: "op_complete False op = None"
  by (cases "op_kind op") (simp_all add: op_complete_def complete_func_def send_do_complete_def
      recv_do_complete_def read_do_complete_def write_do_complete_def)

lemma op_destroy_None [simp]: "op_destroy op = None"
  by (cases "op_kind op") (simp_all add: op_destroy_def complete_func_def send_do_complete_def
      recv_do_complete_def read_do_complete_def write_do_complete_def)

text \<open>The handler is told the operation's code, whatever the kind.\<close>

lemma op_complete_upcall:
  assumes "op_complete owner op = Some u"
  shows "up_handler u = op_handler op" and "up_ec u = op_ec op"
    and "\<not> is_error (op_ec op) \<Longrightarrow> up_bytes u = op_bytes op"
    and "op_kind op = post_send \<or> op_kind op = remote_write \<Longrightarrow> is_error (op_ec op) \<Longrightarrow>
      up_bytes u = 0"
  using assms
  by (cases "op_kind op"; auto simp: op_complete_def complete_func_def send_do_complete_def
      recv_do_complete_def read_do_complete_def write_do_complete_def upcall_of_def Let_def
      split: if_splits)+

text \<open>
  An operation is \<open>settled\<close> when an error comes with no bytes, or its kind drops them: the state
  every operation is in when it is completed.
\<close>

definition op_settled :: "verbs_op \<Rightarrow> bool" where
  "op_settled op \<longleftrightarrow>
     is_error (op_ec op) \<longrightarrow> op_bytes op = 0 \<or> op_kind op = post_send \<or> op_kind op = remote_write"

lemma op_settled_upcall:
  assumes "op_settled op" and "op_complete owner op = Some u" and "is_error (up_ec u)"
  shows "up_bytes u = 0"
  using assms
  by (cases "op_kind op"; auto simp: op_settled_def op_complete_def complete_func_def
      send_do_complete_def recv_do_complete_def read_do_complete_def write_do_complete_def
      upcall_of_def Let_def split: if_splits)

lemma stamp_wc_settled: "\<not> is_error (op_ec op) \<Longrightarrow> op_settled (stamp_wc wc op)"
  by (simp add: stamp_wc_def op_settled_def)

lemma stamp_wc_kind [simp]:
  "op_kind (stamp_wc wc op) = op_kind op" "op_handler (stamp_wc wc op) = op_handler op"
  by (simp_all add: stamp_wc_def)

lemma wc_status_to_ec_error: "is_error (wc_status_to_ec s) \<longleftrightarrow> s \<noteq> IBV_WC_SUCCESS"
  by (cases s) (simp_all add: wc_status_to_ec_def)

lemma stamp_wc_ec:
  "op_ec (stamp_wc wc op) =
     (if wc_status wc = IBV_WC_SUCCESS then op_ec op else wc_status_to_ec (wc_status wc))"
  by (simp add: stamp_wc_def)

text \<open>Frame facts: what completing and resolving do not touch.\<close>

lemma complete_at_idle:
  assumes "live_ops w p = Some op"
  shows "complete_at (\<lambda>_ w. w) True p w =
    w\<lparr>live_ops := (live_ops w)(p := None),
      upcalls := upcalls w @ [the (op_complete True op)]\<rparr>"
  using assms op_complete_owner [of op] by (auto simp: complete_at_def Let_def)

lemma destroy_at_frame [simp]:
  "hw (destroy_at p w) = hw w" "ready (destroy_at p w) = ready w"
  "scheduled (destroy_at p w) = scheduled w" "upcalls (destroy_at p w) = upcalls w"
  by (simp_all add: destroy_at_def split: option.splits)

lemma resolve_frame [simp]:
  "hw (snd (resolve_verbs_op wc w)) = hw w" "ready (snd (resolve_verbs_op wc w)) = ready w"
  "scheduled (snd (resolve_verbs_op wc w)) = scheduled w"
  "upcalls (snd (resolve_verbs_op wc w)) = upcalls w"
  by (simp_all add: resolve_verbs_op_def split: option.splits)

lemma resolve_dom [simp]: "dom (live_ops (snd (resolve_verbs_op wc w))) = dom (live_ops w)"
  by (auto simp: resolve_verbs_op_def split: option.splits)

lemma resolve_safe:
  "wc_wr_id wc \<in> dom (live_ops w) \<Longrightarrow> dangling (snd (resolve_verbs_op wc w)) = dangling w"
  by (auto simp: resolve_verbs_op_def split: option.splits)

end
