(* ===== verification/IBV_Device.thy ===== *)
theory IBV_Device
  imports RDMA_Config
begin

text \<open>
  Device discovery on libibverbs and rdma_cm: \<open>ibv/detail/impl/ibv_device_impl.ipp\<close>,
  \<open>ibv/ibv_device.hpp\<close>, \<open>ibv/impl/ibv_device.ipp\<close> and the device structure of
  \<open>ibv/detail/ibv_impl_types.hpp\<close>.

  The calls into librdmacm, libibverbs and libc are the fields of \<open>device_api\<close>. A pointer result
  is an address with 0 for failure, beside the \<open>errno\<close> the call left. Devices are shared objects;
  the discovery mutates them before anyone else sees them, so the list holds their values.
\<close>

subsection \<open>Addresses\<close>

datatype ip_address = V4 u32 | V6 "128 word"

text \<open>The port space \<open>rdma::tcp\<close> selects a family.\<close>

datatype port_space = PS_v4 | PS_v6

datatype sockaddr = SA_in u32 | SA_in6 "128 word" | SA_other nat

record ifaddrs =
  ifa_addr :: "sockaddr option"
  ifa_flags :: u32

abbreviation (input) IFF_UP :: u32 where "IFF_UP \<equiv> 1"
abbreviation (input) IFF_LOOPBACK :: u32 where "IFF_LOOPBACK \<equiv> 8"

text \<open>\<open>sizeof(sockaddr_in)\<close> is 16, \<open>sizeof(sockaddr_in6)\<close> is 28.\<close>

definition sockaddr_size :: "sockaddr option \<Rightarrow> nat" where
  "sockaddr_size addr =
     (case addr of
        None \<Rightarrow> 0
      | Some (SA_in _) \<Rightarrow> 16
      | Some (SA_in6 _) \<Rightarrow> 28
      | Some (SA_other _) \<Rightarrow> 0)"

definition to_ip_address :: "sockaddr option \<Rightarrow> ip_address option" where
  "to_ip_address addr =
     (if sockaddr_size addr = 0 then None
      else case addr of
        Some (SA_in a) \<Rightarrow> Some (V4 a)
      | Some (SA_in6 a) \<Rightarrow> Some (V6 a)
      | _ \<Rightarrow> None)"

unbundle bit_operations_syntax

definition is_candidate_local_address :: "ifaddrs \<Rightarrow> bool" where
  "is_candidate_local_address interface =
     (if ifa_addr interface = None then False
      else if (ifa_flags interface AND IFF_UP) = 0 \<or> (ifa_flags interface AND IFF_LOOPBACK) \<noteq> 0
      then False
      else sockaddr_size (ifa_addr interface) \<noteq> 0)"

subsection \<open>Devices\<close>

record ibv_device_t =
  dev_context :: ptr
  dev_pd :: ptr
  dev_attr :: native_device_attr_t
  dev_name :: string
  dev_v4_address :: "ip_address option"
  dev_v6_address :: "ip_address option"

record device_api =
  api_rdma_get_devices :: "ptr list option"
  api_alloc_pd :: "ptr \<Rightarrow> ptr \<times> int"
  api_query_device :: "ptr \<Rightarrow> native_device_attr_t option \<times> int"
  api_get_device_name :: "ptr \<Rightarrow> string option"
  api_getifaddrs :: "ifaddrs list option \<times> int"
  api_rdma_create_id :: int
  api_rdma_bind_addr :: "sockaddr \<Rightarrow> int"
  api_bound_verbs :: "sockaddr \<Rightarrow> ptr"

definition create_device :: "device_api \<Rightarrow> ptr \<Rightarrow> error_code + ibv_device_t" where
  "create_device api context =
     (if context = nullptr then Inl (make_error_code invalid_device)
      else case api_alloc_pd api context of (pd, alloc_errno) \<Rightarrow>
        if pd = nullptr then Inl (last_system_error alloc_errno)
        else case api_query_device api context of
          (None, query_errno) \<Rightarrow> Inl (last_system_error query_errno)
        | (Some attr, _) \<Rightarrow>
            Inr \<lparr>dev_context = context, dev_pd = pd, dev_attr = attr,
                 dev_name = (case api_get_device_name api context of None \<Rightarrow> '''' | Some n \<Rightarrow> n),
                 dev_v4_address = None, dev_v6_address = None\<rparr>)"

definition is_valid_device :: "ibv_device_t option \<Rightarrow> bool" where
  "is_valid_device device =
     (case device of None \<Rightarrow> False | Some d \<Rightarrow> dev_context d \<noteq> nullptr)"

text \<open>The context rdma_cm binds an address to, null when it cannot.\<close>

definition bindable_context_for :: "device_api \<Rightarrow> sockaddr \<Rightarrow> ptr" where
  "bindable_context_for api addr =
     (if api_rdma_create_id api \<noteq> 0 then nullptr
      else if api_rdma_bind_addr api addr \<noteq> 0 then nullptr
      else api_bound_verbs api addr)"

definition attach_device_address :: "ip_address \<Rightarrow> ibv_device_t \<Rightarrow> ibv_device_t" where
  "attach_device_address address device =
     (case address of
        V4 _ \<Rightarrow> if dev_v4_address device = None then device\<lparr>dev_v4_address := Some address\<rparr>
                else device
      | V6 _ \<Rightarrow> if dev_v6_address device = None then device\<lparr>dev_v6_address := Some address\<rparr>
                else device)"

text \<open>The inner loop: the first device with the context is updated, then \<open>break\<close>.\<close>

fun attach_to_first :: "ptr \<Rightarrow> ip_address \<Rightarrow> ibv_device_t list \<Rightarrow> ibv_device_t list" where
  "attach_to_first context address [] = []"
| "attach_to_first context address (d # ds) =
     (if dev_context d = context then attach_device_address address d # ds
      else d # attach_to_first context address ds)"

definition attach_interface :: "device_api \<Rightarrow> ifaddrs \<Rightarrow> ibv_device_t list \<Rightarrow> ibv_device_t list" where
  "attach_interface api it devices =
     (if \<not> is_candidate_local_address it then devices
      else case to_ip_address (ifa_addr it) of
        None \<Rightarrow> devices
      | Some address \<Rightarrow>
          (let context = bindable_context_for api (the (ifa_addr it)) in
           if context = nullptr then devices else attach_to_first context address devices))"

definition attach_local_addresses ::
  "device_api \<Rightarrow> ibv_device_t list \<Rightarrow> error_code + ibv_device_t list" where
  "attach_local_addresses api devices =
     (case api_getifaddrs api of
        (None, errno) \<Rightarrow> Inl (last_system_error errno)
      | (Some interfaces, _) \<Rightarrow> Inr (fold (attach_interface api) interfaces devices))"

definition has_local_address :: "ibv_device_t \<Rightarrow> bool" where
  "has_local_address d \<longleftrightarrow> dev_v4_address d \<noteq> None \<or> dev_v6_address d \<noteq> None"

text \<open>The first loop of \<open>get_devices\<close>: unusable devices are skipped.\<close>

fun create_devices :: "device_api \<Rightarrow> ptr list \<Rightarrow> ibv_device_t list" where
  "create_devices api [] = []"
| "create_devices api (c # cs) =
     (case create_device api c of
        Inl _ \<Rightarrow> create_devices api cs
      | Inr d \<Rightarrow> d # create_devices api cs)"

text \<open>
  \<open>attach_local_addresses\<close> reports a failing \<open>getifaddrs\<close> through \<open>ec\<close>, and \<open>get_devices\<close> tests
  \<open>ec\<close>: with an \<open>errno\<close> of 0 it goes on with the devices as they are, without addresses.
\<close>

definition get_devices :: "device_api \<Rightarrow> error_code + ibv_device_t list" where
  "get_devices api =
     (case api_rdma_get_devices api of
        None \<Rightarrow> Inl (make_error_code no_available_device)
      | Some array \<Rightarrow>
          if array = [] then Inl (make_error_code no_available_device)
          else
            let devices = create_devices api array in
            case attach_local_addresses api devices of
              Inl ec \<Rightarrow>
                if is_error ec then Inl ec else Inl (make_error_code no_available_device)
            | Inr devices' \<Rightarrow>
                (let addressable = filter has_local_address devices' in
                 if addressable = [] then Inl (make_error_code no_available_device)
                 else Inr addressable))"

subsection \<open>The device manager\<close>

definition get_first_available_device ::
  "ibv_device_t list \<Rightarrow> rdma_config_t \<Rightarrow> ibv_device_t option" where
  "get_first_available_device devices config =
     find (\<lambda>d. is_valid_device (Some d) \<and> ibv_is_config_compatible config (dev_attr d)) devices"

text \<open>\<open>func\<close> sees the devices in order until it returns \<open>false\<close>; its state is threaded.\<close>

fun for_each_device :: "(ibv_device_t \<Rightarrow> 's \<Rightarrow> bool \<times> 's) \<Rightarrow> ibv_device_t list \<Rightarrow> 's \<Rightarrow> 's" where
  "for_each_device func [] s = s"
| "for_each_device func (d # ds) s =
     (case func d s of (go_on, s') \<Rightarrow> if go_on then for_each_device func ds s' else s')"

definition get_v4_address :: "ibv_device_t \<Rightarrow> error_code + ip_address" where
  "get_v4_address d =
     (case dev_v4_address d of
        None \<Rightarrow> Inl (make_error_code address_family_not_supported) | Some a \<Rightarrow> Inr a)"

definition get_v6_address :: "ibv_device_t \<Rightarrow> error_code + ip_address" where
  "get_v6_address d =
     (case dev_v6_address d of
        None \<Rightarrow> Inl (make_error_code address_family_not_supported) | Some a \<Rightarrow> Inr a)"

subsection \<open>Lemmas\<close>

text \<open>\<open>device_wf\<close>: what every discovered device satisfies; the address slots hold their family.\<close>

definition device_wf :: "ibv_device_t \<Rightarrow> bool" where
  "device_wf d \<longleftrightarrow>
     dev_context d \<noteq> nullptr \<and> dev_pd d \<noteq> nullptr \<and>
     (\<forall>a. dev_v4_address d = Some a \<longrightarrow> (\<exists>x. a = V4 x)) \<and>
     (\<forall>a. dev_v6_address d = Some a \<longrightarrow> (\<exists>x. a = V6 x))"

lemma create_device_wf: "create_device api c = Inr d \<Longrightarrow> device_wf d \<and> dev_context d = c"
  by (auto simp: create_device_def device_wf_def split: if_splits prod.splits option.splits)

lemma create_devices_wf: "\<forall>d \<in> set (create_devices api cs). device_wf d"
  by (induction cs) (auto split: sum.splits dest: create_device_wf)

lemma create_devices_contexts:
  "map dev_context (create_devices api cs) =
     filter (\<lambda>c. \<exists>d. create_device api c = Inr d) cs"
  by (induction cs) (auto split: sum.splits dest: create_device_wf)

lemma attach_device_address_wf:
  "device_wf d \<Longrightarrow> device_wf (attach_device_address a d)"
  by (cases a) (auto simp: attach_device_address_def device_wf_def)

lemma attach_device_address_frame [simp]:
  "dev_context (attach_device_address a d) = dev_context d"
  "dev_pd (attach_device_address a d) = dev_pd d"
  "dev_attr (attach_device_address a d) = dev_attr d"
  by (cases a; simp add: attach_device_address_def)+

text \<open>The first address of a family wins.\<close>

lemma attach_device_address_keeps:
  "dev_v4_address d = Some x \<Longrightarrow> dev_v4_address (attach_device_address a d) = Some x"
  "dev_v6_address d = Some y \<Longrightarrow> dev_v6_address (attach_device_address a d) = Some y"
  by (cases a; simp add: attach_device_address_def)+

lemma attach_to_first_wf:
  "\<forall>d \<in> set ds. device_wf d \<Longrightarrow> \<forall>d \<in> set (attach_to_first c a ds). device_wf d"
  by (induction ds) (auto intro: attach_device_address_wf)

lemma attach_to_first_contexts [simp]:
  "map dev_context (attach_to_first c a ds) = map dev_context ds"
  by (induction ds) auto

lemma attach_interface_wf:
  "\<forall>d \<in> set ds. device_wf d \<Longrightarrow> \<forall>d \<in> set (attach_interface api it ds). device_wf d"
  by (simp add: attach_interface_def Let_def attach_to_first_wf split: option.split)

lemma attach_interface_contexts [simp]:
  "map dev_context (attach_interface api it ds) = map dev_context ds"
  by (simp add: attach_interface_def Let_def split: option.splits)

lemma attach_interfaces_wf:
  "\<forall>d \<in> set ds. device_wf d \<Longrightarrow> \<forall>d \<in> set (fold (attach_interface api) its ds). device_wf d"
proof (induction its arbitrary: ds)
  case Nil
  then show ?case by simp
next
  case (Cons it its)
  from attach_interface_wf [OF Cons.prems, of api it] show ?case
    using Cons.IH [of "attach_interface api it ds"] by simp
qed

lemma attach_interfaces_contexts:
  "map dev_context (fold (attach_interface api) its ds) = map dev_context ds"
  by (induction its arbitrary: ds) simp_all

lemma get_devices_sound:
  assumes "get_devices api = Inr ds"
  shows "ds \<noteq> []" and "d \<in> set ds \<Longrightarrow> device_wf d" and "d \<in> set ds \<Longrightarrow> has_local_address d"
    and "d \<in> set ds \<Longrightarrow> \<exists>array. api_rdma_get_devices api = Some array \<and> dev_context d \<in> set array"
proof -
  from assms obtain array its e where arr: "api_rdma_get_devices api = Some array"
    and ifs: "api_getifaddrs api = (Some its, e)"
    and ds: "ds = filter has_local_address
        (fold (attach_interface api) its (create_devices api array))"
    and ne: "ds \<noteq> []"
    by (auto simp: get_devices_def attach_local_addresses_def Let_def
        split: option.splits if_splits prod.splits sum.splits)
  show "ds \<noteq> []" by (rule ne)
  {
    assume "d \<in> set ds"
    then have d: "d \<in> set (fold (attach_interface api) its (create_devices api array))"
      and "has_local_address d"
      by (simp_all add: ds)
    then show "has_local_address d" by simp
    show "device_wf d"
      using attach_interfaces_wf [OF create_devices_wf] d by blast
    have "dev_context d \<in>
        set (map dev_context (fold (attach_interface api) its (create_devices api array)))"
      using d by simp
    then have "dev_context d \<in> set (map dev_context (create_devices api array))"
      by (simp only: attach_interfaces_contexts)
    then show "\<exists>array. api_rdma_get_devices api = Some array \<and> dev_context d \<in> set array"
      using arr by (auto simp: create_devices_contexts)
  }
qed

lemma get_first_available_device_Some_iff:
  "get_first_available_device ds config = Some d \<longleftrightarrow>
     (\<exists>i < length ds. ds ! i = d \<and> dev_context d \<noteq> nullptr
        \<and> ibv_is_config_compatible config (dev_attr d)
        \<and> (\<forall>j < i. \<not> (dev_context (ds ! j) \<noteq> nullptr
              \<and> ibv_is_config_compatible config (dev_attr (ds ! j)))))"
  by (auto simp: get_first_available_device_def find_Some_iff is_valid_device_def)

lemma get_first_available_device_None_iff:
  "get_first_available_device ds config = None \<longleftrightarrow>
     (\<forall>d \<in> set ds. dev_context d = nullptr \<or> \<not> ibv_is_config_compatible config (dev_attr d))"
  by (auto simp: get_first_available_device_def find_None_iff is_valid_device_def)

text \<open>\<open>for_each_device\<close> visits exactly the devices before and including the first refusal.\<close>

lemma for_each_device_visits:
  "for_each_device (\<lambda>d s. (P d, s @ [d])) ds s =
     s @ takeWhile P ds @ take 1 (dropWhile P ds)"
  by (induction ds arbitrary: s) auto

end
