(* ===== verification/IBV_Verbs.thy ===== *)
theory IBV_Verbs
  imports Verbs_Op IBV_Device
begin

text \<open>
  The data-plane service: \<open>ibv/detail/ibv_ops_verbs.hpp\<close> (post wrappers),
  \<open>ibv/detail/ibv_service_verbs.hpp\<close> and \<open>ibv/detail/impl/ibv_service_verbs.ipp\<close>.

  The host adapter is the type parameter \<open>'h\<close>; \<open>ibv_post_send\<close>, \<open>ibv_post_recv\<close> and
  \<open>rdma_create_qp\<close> are arguments. What the verbs documentation promises of the post calls is stated
  as \<open>post_send_law\<close> and \<open>post_recv_law\<close> over a view \<open>outstanding\<close> of the work requests the adapter
  holds: a call that returns 0 has queued its work request, a call that fails has not.

  The lemmas: each \<open>do_post_*\<close> equals one closed form \<open>post_spec\<close> (so the single-buffer fast path
  and the general path agree), and every initiation keeps the data plane's accounting \<open>vw_inv\<close>.
\<close>

subsection \<open>Work requests and the post wrappers\<close>

datatype ibv_wr_opcode = IBV_WR_SEND | IBV_WR_RDMA_READ | IBV_WR_RDMA_WRITE

record ibv_send_wr =
  swr_id :: u64
  swr_sg_list :: "native_sge list"
  swr_num_sge :: i32
  swr_opcode :: ibv_wr_opcode
  swr_signaled :: bool
  swr_remote_addr :: u64
  swr_rkey :: u32

record ibv_recv_wr =
  rwr_id :: u64
  rwr_sg_list :: "native_sge list"
  rwr_num_sge :: i32

type_synonym 'h post_send_fn = "'h \<Rightarrow> ptr \<Rightarrow> ibv_send_wr \<Rightarrow> int \<times> 'h"
type_synonym 'h post_recv_fn = "'h \<Rightarrow> ptr \<Rightarrow> ibv_recv_wr \<Rightarrow> int \<times> 'h"

text \<open>The code each wrapper leaves in \<open>ec\<close>: the return code itself is the error number.\<close>

definition rc_to_ec :: "int \<Rightarrow> error_code" where
  "rc_to_ec rc = (if rc \<noteq> 0 then make_system_error_code rc else no_error)"

definition verbs_post_recv ::
  "'h post_recv_fn \<Rightarrow> ptr \<Rightarrow> ptr \<Rightarrow> native_sge list \<Rightarrow> nat \<Rightarrow> 'h \<Rightarrow> error_code \<times> 'h" where
  "verbs_post_recv ibv_post_recv qp ctxt sges cnt h =
     (case ibv_post_recv h qp
        \<lparr>rwr_id = ctxt, rwr_sg_list = take cnt sges, rwr_num_sge = of_nat cnt\<rparr> of
        (rc, h') \<Rightarrow> (rc_to_ec rc, h'))"

definition verbs_post_send ::
  "'h post_send_fn \<Rightarrow> ptr \<Rightarrow> ptr \<Rightarrow> native_sge list \<Rightarrow> nat \<Rightarrow> 'h \<Rightarrow> error_code \<times> 'h" where
  "verbs_post_send ibv_post_send qp ctxt sges cnt h =
     (case ibv_post_send h qp
        \<lparr>swr_id = ctxt, swr_sg_list = take cnt sges, swr_num_sge = of_nat cnt,
         swr_opcode = IBV_WR_SEND, swr_signaled = True, swr_remote_addr = 0, swr_rkey = 0\<rparr> of
        (rc, h') \<Rightarrow> (rc_to_ec rc, h'))"

definition verbs_post_rdma ::
  "'h post_send_fn \<Rightarrow> ibv_wr_opcode \<Rightarrow> ptr \<Rightarrow> ptr \<Rightarrow> native_sge list \<Rightarrow> nat \<Rightarrow> u64 \<Rightarrow> u32 \<Rightarrow> 'h
   \<Rightarrow> error_code \<times> 'h" where
  "verbs_post_rdma ibv_post_send opcode qp ctxt sges cnt raddr key h =
     (case ibv_post_send h qp
        \<lparr>swr_id = ctxt, swr_sg_list = take cnt sges, swr_num_sge = of_nat cnt,
         swr_opcode = opcode, swr_signaled = True, swr_remote_addr = raddr, swr_rkey = key\<rparr> of
        (rc, h') \<Rightarrow> (rc_to_ec rc, h'))"

definition verbs_post_read ::
  "'h post_send_fn \<Rightarrow> ptr \<Rightarrow> ptr \<Rightarrow> native_sge list \<Rightarrow> nat \<Rightarrow> u64 \<Rightarrow> u32 \<Rightarrow> 'h \<Rightarrow> error_code \<times> 'h"
  where
  "verbs_post_read ibv_post_send = verbs_post_rdma ibv_post_send IBV_WR_RDMA_READ"

definition verbs_post_write ::
  "'h post_send_fn \<Rightarrow> ptr \<Rightarrow> ptr \<Rightarrow> native_sge list \<Rightarrow> nat \<Rightarrow> u64 \<Rightarrow> u32 \<Rightarrow> 'h \<Rightarrow> error_code \<times> 'h"
  where
  "verbs_post_write ibv_post_send = verbs_post_rdma ibv_post_send IBV_WR_RDMA_WRITE"

subsection \<open>Per-queue-pair state and the creation of the native queue pair\<close>

record ibv_verbs_impl =
  vi_qp :: ptr
  vi_cq :: ptr
  vi_device :: "ibv_device_t option"
  vi_config :: rdma_config_t
  vi_poll_cq :: ptr

definition verbs_impl_new :: ibv_verbs_impl where
  "verbs_impl_new =
     \<lparr>vi_qp = nullptr, vi_cq = nullptr, vi_device = None, vi_config = default_config,
      vi_poll_cq = nullptr\<rparr>"

definition verbs_is_bound :: "ibv_verbs_impl \<Rightarrow> bool" where
  "verbs_is_bound impl \<longleftrightarrow> vi_cq impl \<noteq> nullptr"

record qp_init_attr =
  attr_send_cq :: ptr
  attr_recv_cq :: ptr
  attr_srq :: ptr
  attr_max_send_wr :: u32
  attr_max_recv_wr :: u32
  attr_max_send_sge :: u32
  attr_max_recv_sge :: u32
  attr_max_inline_data :: u32
  attr_qp_type_rc :: bool
  attr_sq_sig_all :: bool

definition qp_attr_of :: "ibv_verbs_impl \<Rightarrow> qp_init_attr" where
  "qp_attr_of impl =
     \<lparr>attr_send_cq = vi_cq impl, attr_recv_cq = vi_cq impl, attr_srq = nullptr,
      attr_max_send_wr = max_send_wr (vi_config impl),
      attr_max_recv_wr = max_recv_wr (vi_config impl),
      attr_max_send_sge = max_send_sge (vi_config impl),
      attr_max_recv_sge = max_recv_sge (vi_config impl),
      attr_max_inline_data = 0, attr_qp_type_rc = True, attr_sq_sig_all = True\<rparr>"

text \<open>
  \<open>rdma_create_qp\<close> returns its code, the \<open>errno\<close> it left and the queue pair it stored in the
  \<open>cm_id\<close>. The service keeps that pointer when the code is 0.
\<close>

definition verbs_create_qp ::
  "(ptr \<Rightarrow> ptr \<Rightarrow> qp_init_attr \<Rightarrow> int \<times> int \<times> ptr) \<Rightarrow> ptr \<Rightarrow> ibv_verbs_impl
   \<Rightarrow> error_code \<times> ibv_verbs_impl" where
  "verbs_create_qp rdma_create_qp cm_id impl =
     (case vi_device impl of
        None \<Rightarrow> (make_error_code invalid_device, impl)
      | Some d \<Rightarrow>
          if dev_pd d = nullptr \<or> vi_cq impl = nullptr
          then (make_error_code invalid_device, impl)
          else case rdma_create_qp cm_id (dev_pd d) (qp_attr_of impl) of
            (rc, errno, qp) \<Rightarrow>
              if rc \<noteq> 0 then (last_system_error errno, impl)
              else (no_error, impl\<lparr>vi_qp := qp\<rparr>))"

subsection \<open>Posting\<close>

text \<open>The guards set \<open>ec\<close> and return whether the limit is exceeded.\<close>

definition exceeds_sge_limit :: "nat \<Rightarrow> u32 \<Rightarrow> error_code \<Rightarrow> bool \<times> error_code" where
  "exceeds_sge_limit sge_count sge_max ec =
     (if sge_max \<noteq> 0 \<and> sge_count > unat sge_max then (True, make_error_code too_many_sge)
      else (False, ec))"

definition exceeds_buffer_limit :: "size_t \<Rightarrow> error_code \<Rightarrow> bool \<times> error_code" where
  "exceeds_buffer_limit len ec =
     (if len > u32_max then (True, make_error_code buffer_too_large) else (False, ec))"

text \<open>
  Each \<open>do_post_*\<close> returns whether the operation completed immediately, the operation and the
  adapter. The single-buffer path is a fast path beside the general one.
\<close>

definition do_post_send ::
  "'h post_send_fn \<Rightarrow> ibv_verbs_impl \<Rightarrow> ptr \<Rightarrow> verbs_op \<Rightarrow> 'h \<Rightarrow> bool \<times> verbs_op \<times> 'h" where
  "do_post_send ibv_post_send impl p op h =
     (case op_buffers op of
        Single_buffer b \<Rightarrow>
          if buf_length b = 0 then (True, op, h)
          else case exceeds_sge_limit 1 (max_send_sge (vi_config impl)) (op_ec op) of (over, ec) \<Rightarrow>
          if over then (True, op\<lparr>op_ec := ec\<rparr>, h)
          else case exceeds_buffer_limit (buf_length b) ec of (over, ec) \<Rightarrow>
          if over then (True, op\<lparr>op_ec := ec\<rparr>, h)
          else case verbs_post_send ibv_post_send (vi_qp impl) p [ibv_fill_native_sge b] 1 h of
            (ec, h') \<Rightarrow>
              (is_error ec, (set_posted_bytes (buf_length b) op)\<lparr>op_ec := ec\<rparr>, h')
      | Buffer_sequence bs \<Rightarrow>
          (case ibv_build_native_sglist bs small_sglist_new (max_send_sge (vi_config impl)) of
             (built, sglist) \<Rightarrow>
               if built_too_many_sge built
               then (True, op\<lparr>op_ec := make_error_code too_many_sge\<rparr>, h)
               else if built_buffer_too_large built
               then (True, op\<lparr>op_ec := make_error_code buffer_too_large\<rparr>, h)
               else if built_all_empty built then (True, op, h)
               else case verbs_post_send ibv_post_send (vi_qp impl) p (sgl_contents sglist)
                   (built_count built) h of
                 (ec, h') \<Rightarrow>
                   (is_error ec,
                    (set_posted_bytes (built_total_bytes built) op)\<lparr>op_ec := ec\<rparr>, h')))"

definition do_post_recv ::
  "'h post_recv_fn \<Rightarrow> ibv_verbs_impl \<Rightarrow> ptr \<Rightarrow> verbs_op \<Rightarrow> 'h \<Rightarrow> bool \<times> verbs_op \<times> 'h" where
  "do_post_recv ibv_post_recv impl p op h =
     (case op_buffers op of
        Single_buffer b \<Rightarrow>
          if buf_length b = 0 then (True, op, h)
          else case exceeds_sge_limit 1 (max_recv_sge (vi_config impl)) (op_ec op) of (over, ec) \<Rightarrow>
          if over then (True, op\<lparr>op_ec := ec\<rparr>, h)
          else case exceeds_buffer_limit (buf_length b) ec of (over, ec) \<Rightarrow>
          if over then (True, op\<lparr>op_ec := ec\<rparr>, h)
          else case verbs_post_recv ibv_post_recv (vi_qp impl) p [ibv_fill_native_sge b] 1 h of
            (ec, h') \<Rightarrow> (is_error ec, op\<lparr>op_ec := ec\<rparr>, h')
      | Buffer_sequence bs \<Rightarrow>
          (case ibv_build_native_sglist bs small_sglist_new (max_recv_sge (vi_config impl)) of
             (built, sglist) \<Rightarrow>
               if built_too_many_sge built
               then (True, op\<lparr>op_ec := make_error_code too_many_sge\<rparr>, h)
               else if built_buffer_too_large built
               then (True, op\<lparr>op_ec := make_error_code buffer_too_large\<rparr>, h)
               else if built_all_empty built then (True, op, h)
               else case verbs_post_recv ibv_post_recv (vi_qp impl) p (sgl_contents sglist)
                   (built_count built) h of
                 (ec, h') \<Rightarrow> (is_error ec, op\<lparr>op_ec := ec\<rparr>, h')))"

definition do_post_read ::
  "'h post_send_fn \<Rightarrow> ibv_verbs_impl \<Rightarrow> ptr \<Rightarrow> verbs_op \<Rightarrow> 'h \<Rightarrow> bool \<times> verbs_op \<times> 'h" where
  "do_post_read ibv_post_send impl p op h =
     (case op_buffers op of
        Single_buffer b \<Rightarrow>
          if buf_length b = 0 then (True, op, h)
          else case exceeds_sge_limit 1 (max_send_sge (vi_config impl)) (op_ec op) of (over, ec) \<Rightarrow>
          if over then (True, op\<lparr>op_ec := ec\<rparr>, h)
          else case exceeds_buffer_limit (buf_length b) ec of (over, ec) \<Rightarrow>
          if over then (True, op\<lparr>op_ec := ec\<rparr>, h)
          else case verbs_post_read ibv_post_send (vi_qp impl) p [ibv_fill_native_sge b] 1
              (remote_address (op_remote op)) (remote_token (op_remote op)) h of
            (ec, h') \<Rightarrow> (is_error ec, op\<lparr>op_ec := ec\<rparr>, h')
      | Buffer_sequence bs \<Rightarrow>
          (case ibv_build_native_sglist bs small_sglist_new (max_send_sge (vi_config impl)) of
             (built, sglist) \<Rightarrow>
               if built_too_many_sge built
               then (True, op\<lparr>op_ec := make_error_code too_many_sge\<rparr>, h)
               else if built_buffer_too_large built
               then (True, op\<lparr>op_ec := make_error_code buffer_too_large\<rparr>, h)
               else if built_all_empty built then (True, op, h)
               else case verbs_post_read ibv_post_send (vi_qp impl) p (sgl_contents sglist)
                   (built_count built) (remote_address (op_remote op))
                   (remote_token (op_remote op)) h of
                 (ec, h') \<Rightarrow> (is_error ec, op\<lparr>op_ec := ec\<rparr>, h')))"

definition do_post_write ::
  "'h post_send_fn \<Rightarrow> ibv_verbs_impl \<Rightarrow> ptr \<Rightarrow> verbs_op \<Rightarrow> 'h \<Rightarrow> bool \<times> verbs_op \<times> 'h" where
  "do_post_write ibv_post_send impl p op h =
     (case op_buffers op of
        Single_buffer b \<Rightarrow>
          if buf_length b = 0 then (True, op, h)
          else case exceeds_sge_limit 1 (max_send_sge (vi_config impl)) (op_ec op) of (over, ec) \<Rightarrow>
          if over then (True, op\<lparr>op_ec := ec\<rparr>, h)
          else case exceeds_buffer_limit (buf_length b) ec of (over, ec) \<Rightarrow>
          if over then (True, op\<lparr>op_ec := ec\<rparr>, h)
          else case verbs_post_write ibv_post_send (vi_qp impl) p [ibv_fill_native_sge b] 1
              (remote_address (op_remote op)) (remote_token (op_remote op)) h of
            (ec, h') \<Rightarrow>
              (is_error ec, (set_posted_bytes (buf_length b) op)\<lparr>op_ec := ec\<rparr>, h')
      | Buffer_sequence bs \<Rightarrow>
          (case ibv_build_native_sglist bs small_sglist_new (max_send_sge (vi_config impl)) of
             (built, sglist) \<Rightarrow>
               if built_too_many_sge built
               then (True, op\<lparr>op_ec := make_error_code too_many_sge\<rparr>, h)
               else if built_buffer_too_large built
               then (True, op\<lparr>op_ec := make_error_code buffer_too_large\<rparr>, h)
               else if built_all_empty built then (True, op, h)
               else case verbs_post_write ibv_post_send (vi_qp impl) p (sgl_contents sglist)
                   (built_count built) (remote_address (op_remote op))
                   (remote_token (op_remote op)) h of
                 (ec, h') \<Rightarrow>
                   (is_error ec,
                    (set_posted_bytes (built_total_bytes built) op)\<lparr>op_ec := ec\<rparr>, h')))"

subsection \<open>Initiating operations\<close>

text \<open>
  \<open>finish_poll\<close> pushes an immediate completion on the bound completion queue's ready list (a null
  \<open>poll_cq_\<close> is a null dereference); \<open>finish_event\<close> posts an \<open>ibv_complete_op\<close> to the scheduler.
\<close>

definition finish_poll :: "ibv_verbs_impl \<Rightarrow> ptr \<Rightarrow> bool \<Rightarrow> 'h vworld \<Rightarrow> 'h vworld" where
  "finish_poll impl p immediate w =
     (if immediate
      then if vi_poll_cq impl = nullptr then w\<lparr>dangling := True\<rparr>
           else w\<lparr>ready := ready w @ [p]\<rparr>
      else w)"

definition finish_event :: "ibv_verbs_impl \<Rightarrow> ptr \<Rightarrow> bool \<Rightarrow> 'h vworld \<Rightarrow> 'h vworld" where
  "finish_event impl p immediate w = (if immediate then w\<lparr>scheduled := scheduled w @ [p]\<rparr> else w)"

text \<open>
  Allocating the operation at the address \<open>p\<close> the allocator returned, posting it, and storing it.
\<close>

definition post_new_op ::
  "(verbs_op \<Rightarrow> 'h \<Rightarrow> bool \<times> verbs_op \<times> 'h) \<Rightarrow> ptr \<Rightarrow> verbs_op \<Rightarrow> 'h vworld \<Rightarrow> bool \<times> 'h vworld"
  where
  "post_new_op do_post p op w =
     (case do_post op (hw w) of
        (immediate, op', h') \<Rightarrow>
          (immediate, w\<lparr>hw := h', live_ops := (live_ops w)(p \<mapsto> op')\<rparr>))"

abbreviation no_remote :: rdma_remote_addr_t where
  "no_remote \<equiv> \<lparr>remote_address = 0, remote_token = 0\<rparr>"

definition async_send_static ::
  "'h post_send_fn \<Rightarrow> ibv_verbs_impl \<Rightarrow> buffer_seq \<Rightarrow> nat \<Rightarrow> ptr \<Rightarrow> 'h vworld \<Rightarrow> 'h vworld" where
  "async_send_static post impl buffers h p w =
     (case post_new_op (do_post_send post impl p) p
        (verbs_op_new post_send no_error buffers no_remote h) w of
        (immediate, w') \<Rightarrow> finish_poll impl p immediate w')"

definition async_recv_static ::
  "'h post_recv_fn \<Rightarrow> ibv_verbs_impl \<Rightarrow> buffer_seq \<Rightarrow> nat \<Rightarrow> ptr \<Rightarrow> 'h vworld \<Rightarrow> 'h vworld" where
  "async_recv_static post impl buffers h p w =
     (case post_new_op (do_post_recv post impl p) p
        (verbs_op_new post_recv no_error buffers no_remote h) w of
        (immediate, w') \<Rightarrow> finish_poll impl p immediate w')"

definition async_read_static ::
  "'h post_send_fn \<Rightarrow> ibv_verbs_impl \<Rightarrow> buffer_seq \<Rightarrow> rdma_remote_addr_t \<Rightarrow> nat \<Rightarrow> ptr \<Rightarrow> 'h vworld
   \<Rightarrow> 'h vworld" where
  "async_read_static post impl buffers remote h p w =
     (case post_new_op (do_post_read post impl p) p
        (verbs_op_new remote_read no_error buffers remote h) w of
        (immediate, w') \<Rightarrow> finish_poll impl p immediate w')"

definition async_write_static ::
  "'h post_send_fn \<Rightarrow> ibv_verbs_impl \<Rightarrow> buffer_seq \<Rightarrow> rdma_remote_addr_t \<Rightarrow> nat \<Rightarrow> ptr \<Rightarrow> 'h vworld
   \<Rightarrow> 'h vworld" where
  "async_write_static post impl buffers remote h p w =
     (case post_new_op (do_post_write post impl p) p
        (verbs_op_new remote_write no_error buffers remote h) w of
        (immediate, w') \<Rightarrow> finish_poll impl p immediate w')"

definition async_send ::
  "'h post_send_fn \<Rightarrow> ibv_verbs_impl \<Rightarrow> buffer_seq \<Rightarrow> nat \<Rightarrow> ptr \<Rightarrow> 'h vworld \<Rightarrow> 'h vworld" where
  "async_send post impl buffers h p w =
     (case post_new_op (do_post_send post impl p) p
        (verbs_op_new post_send no_error buffers no_remote h) w of
        (immediate, w') \<Rightarrow> finish_event impl p immediate w')"

definition async_recv ::
  "'h post_recv_fn \<Rightarrow> ibv_verbs_impl \<Rightarrow> buffer_seq \<Rightarrow> nat \<Rightarrow> ptr \<Rightarrow> 'h vworld \<Rightarrow> 'h vworld" where
  "async_recv post impl buffers h p w =
     (case post_new_op (do_post_recv post impl p) p
        (verbs_op_new post_recv no_error buffers no_remote h) w of
        (immediate, w') \<Rightarrow> finish_event impl p immediate w')"

definition async_read ::
  "'h post_send_fn \<Rightarrow> ibv_verbs_impl \<Rightarrow> buffer_seq \<Rightarrow> rdma_remote_addr_t \<Rightarrow> nat \<Rightarrow> ptr \<Rightarrow> 'h vworld
   \<Rightarrow> 'h vworld" where
  "async_read post impl buffers remote h p w =
     (case post_new_op (do_post_read post impl p) p
        (verbs_op_new remote_read no_error buffers remote h) w of
        (immediate, w') \<Rightarrow> finish_event impl p immediate w')"

definition async_write ::
  "'h post_send_fn \<Rightarrow> ibv_verbs_impl \<Rightarrow> buffer_seq \<Rightarrow> rdma_remote_addr_t \<Rightarrow> nat \<Rightarrow> ptr \<Rightarrow> 'h vworld
   \<Rightarrow> 'h vworld" where
  "async_write post impl buffers remote h p w =
     (case post_new_op (do_post_write post impl p) p
        (verbs_op_new remote_write no_error buffers remote h) w of
        (immediate, w') \<Rightarrow> finish_event impl p immediate w')"

subsection \<open>The posting contract\<close>

text \<open>
  The closed form of a post: validate the buffers, complete empty requests at once, hand the exact
  SGEs to the adapter once. \<open>counted\<close> says whether the operation records the bytes it posted.
\<close>

definition post_spec ::
  "u32 \<Rightarrow> bool \<Rightarrow> (native_sge list \<Rightarrow> 'h \<Rightarrow> error_code \<times> 'h) \<Rightarrow> verbs_op \<Rightarrow> 'h
   \<Rightarrow> bool \<times> verbs_op \<times> 'h" where
  "post_spec limit counted native op h =
     (let bs = seq_buffers (op_buffers op) in
      case build_spec limit bs of
        Build_too_many \<Rightarrow> (True, op\<lparr>op_ec := make_error_code too_many_sge\<rparr>, h)
      | Build_too_large \<Rightarrow> (True, op\<lparr>op_ec := make_error_code buffer_too_large\<rparr>, h)
      | Build_ok \<Rightarrow>
          if total_length bs = 0 then (True, op, h)
          else case native (map ibv_fill_native_sge bs) h of
            (ec, h') \<Rightarrow>
              (is_error ec,
               (if counted then set_posted_bytes (of_nat (total_length bs)) op else op)
                 \<lparr>op_ec := ec\<rparr>, h'))"

lemma build_ok_facts:
  assumes "ibv_build_native_sglist bs small_sglist_new limit = (built, sglist)"
  shows "built_too_many_sge built \<longleftrightarrow> build_spec limit bs = Build_too_many"
    and "\<not> built_too_many_sge built \<Longrightarrow>
      built_buffer_too_large built \<longleftrightarrow> build_spec limit bs = Build_too_large"
    and "build_spec limit bs = Build_ok \<Longrightarrow> built_all_empty built \<longleftrightarrow> total_length bs = 0"
    and "build_spec limit bs = Build_ok \<Longrightarrow> sgl_contents sglist = map ibv_fill_native_sge bs"
    and "build_spec limit bs = Build_ok \<Longrightarrow> built_count built = length bs"
    and "build_spec limit bs = Build_ok \<Longrightarrow> built_total_bytes built = of_nat (total_length bs)"
proof -
  have post: "build_post ibv_fill_native_sge limit bs (built, sglist)"
    using ibv_build_post [of small_sglist_new limit bs] assms by (simp add: sgl_fresh_new)
  show "built_too_many_sge built \<longleftrightarrow> build_spec limit bs = Build_too_many"
    and "\<not> built_too_many_sge built \<Longrightarrow>
      built_buffer_too_large built \<longleftrightarrow> build_spec limit bs = Build_too_large"
    using post by (auto simp: build_post_def build_outcome_of_def split: if_splits)
  assume "build_spec limit bs = Build_ok"
  then have "build_inv ibv_fill_native_sge bs built sglist"
    using post by (simp add: build_post_def)
  then show "built_all_empty built \<longleftrightarrow> total_length bs = 0"
    and "sgl_contents sglist = map ibv_fill_native_sge bs" and "built_count built = length bs"
    and "built_total_bytes built = of_nat (total_length bs)"
    by (simp_all add: build_inv_def total_length_zero_iff word_unat_eq_iff unsigned_of_nat
        take_bit_nat_eq_self)
qed

text \<open>One buffer: the entry limit cannot be exceeded, the byte limit is the 32-bit one.\<close>

lemma build_spec_single:
  "build_spec limit [b] = (if buf_length b > u32_max then Build_too_large else Build_ok)"
proof -
  have "admitted limit [b] = [b]" and "\<not> (limit \<noteq> 0 \<and> length [b] > unat limit)"
    by (cases "limit = 0"; simp add: admitted_def take_Cons' unat_eq_0)+
  then show ?thesis by (simp only: build_spec_def total_length_simps word_less_nat_alt) simp
qed

lemma exceeds_sge_limit_one [simp]: "exceeds_sge_limit (Suc 0) limit ec = (False, ec)"
  by (cases "limit = 0") (simp_all add: exceeds_sge_limit_def unat_eq_0)

text \<open>The general path and the fast path are both the closed form.\<close>

lemma sequence_path_spec:
  assumes "seq_buffers (op_buffers op) = bs"
  shows "(case ibv_build_native_sglist bs small_sglist_new limit of
       (built, sglist) \<Rightarrow>
         if built_too_many_sge built then (True, op\<lparr>op_ec := make_error_code too_many_sge\<rparr>, h)
         else if built_buffer_too_large built
         then (True, op\<lparr>op_ec := make_error_code buffer_too_large\<rparr>, h)
         else if built_all_empty built then (True, op, h)
         else case native (sgl_contents sglist) (built_count built) h of
           (ec, h') \<Rightarrow>
             (is_error ec,
              (if counted then set_posted_bytes (built_total_bytes built) op else op)\<lparr>op_ec := ec\<rparr>,
              h')) =
     post_spec limit counted (\<lambda>sges. native sges (length sges)) op h"
proof -
  obtain built sglist where b: "ibv_build_native_sglist bs small_sglist_new limit = (built, sglist)"
    by fastforce
  note facts = build_ok_facts [OF b]
  show ?thesis
    using facts assms
    by (cases "build_spec limit bs") (simp_all add: b post_spec_def Let_def split: prod.split)
qed

lemma single_path_spec:
  assumes "op_buffers op = Single_buffer b"
  shows "(if buf_length b = 0 then (True, op, h)
      else case exceeds_sge_limit 1 limit (op_ec op) of (over, ec) \<Rightarrow>
      if over then (True, op\<lparr>op_ec := ec\<rparr>, h)
      else case exceeds_buffer_limit (buf_length b) ec of (over, ec) \<Rightarrow>
      if over then (True, op\<lparr>op_ec := ec\<rparr>, h)
      else case native [ibv_fill_native_sge b] 1 h of
        (ec, h') \<Rightarrow>
          (is_error ec, (if counted then set_posted_bytes (buf_length b) op else op)\<lparr>op_ec := ec\<rparr>, h')) =
     post_spec limit counted (\<lambda>sges. native sges (length sges)) op h"
  using assms
  by (auto simp: post_spec_def build_spec_single exceeds_buffer_limit_def unat_eq_0
      word_less_nat_alt split: prod.split)

lemma do_post_send_spec:
  "do_post_send post impl p op h =
   post_spec (max_send_sge (vi_config impl)) True
     (\<lambda>sges. verbs_post_send post (vi_qp impl) p sges (length sges)) op h"
proof (cases "op_buffers op")
  case (Single_buffer b)
  note single = single_path_spec [OF this, where counted = True]
  show ?thesis by (simp only: do_post_send_def Single_buffer buffer_seq.case if_True if_False flip: single)
next
  case (Buffer_sequence bs)
  then have "seq_buffers (op_buffers op) = bs" by simp
  note seq = sequence_path_spec [OF this, where counted = True]
  show ?thesis by (simp only: do_post_send_def Buffer_sequence buffer_seq.case if_True if_False flip: seq)
qed

lemma do_post_recv_spec:
  "do_post_recv post impl p op h =
   post_spec (max_recv_sge (vi_config impl)) False
     (\<lambda>sges. verbs_post_recv post (vi_qp impl) p sges (length sges)) op h"
proof (cases "op_buffers op")
  case (Single_buffer b)
  note single = single_path_spec [OF this, where counted = False]
  show ?thesis by (simp only: do_post_recv_def Single_buffer buffer_seq.case if_True if_False flip: single)
next
  case (Buffer_sequence bs)
  then have "seq_buffers (op_buffers op) = bs" by simp
  note seq = sequence_path_spec [OF this, where counted = False]
  show ?thesis by (simp only: do_post_recv_def Buffer_sequence buffer_seq.case if_True if_False flip: seq)
qed

lemma do_post_read_spec:
  "do_post_read post impl p op h =
   post_spec (max_send_sge (vi_config impl)) False
     (\<lambda>sges. verbs_post_read post (vi_qp impl) p sges (length sges)
        (remote_address (op_remote op)) (remote_token (op_remote op))) op h"
proof (cases "op_buffers op")
  case (Single_buffer b)
  note single = single_path_spec [OF this, where counted = False and
      native = "\<lambda>sges cnt. verbs_post_read post (vi_qp impl) p sges cnt
        (remote_address (op_remote op)) (remote_token (op_remote op))"]
  show ?thesis by (simp only: do_post_read_def Single_buffer buffer_seq.case if_True if_False flip: single)
next
  case (Buffer_sequence bs)
  then have "seq_buffers (op_buffers op) = bs" by simp
  note seq = sequence_path_spec [OF this, where counted = False and
      native = "\<lambda>sges cnt. verbs_post_read post (vi_qp impl) p sges cnt
        (remote_address (op_remote op)) (remote_token (op_remote op))"]
  show ?thesis by (simp only: do_post_read_def Buffer_sequence buffer_seq.case if_True if_False flip: seq)
qed

lemma do_post_write_spec:
  "do_post_write post impl p op h =
   post_spec (max_send_sge (vi_config impl)) True
     (\<lambda>sges. verbs_post_write post (vi_qp impl) p sges (length sges)
        (remote_address (op_remote op)) (remote_token (op_remote op))) op h"
proof (cases "op_buffers op")
  case (Single_buffer b)
  note single = single_path_spec [OF this, where counted = True and
      native = "\<lambda>sges cnt. verbs_post_write post (vi_qp impl) p sges cnt
        (remote_address (op_remote op)) (remote_token (op_remote op))"]
  show ?thesis by (simp only: do_post_write_def Single_buffer buffer_seq.case if_True if_False flip: single)
next
  case (Buffer_sequence bs)
  then have "seq_buffers (op_buffers op) = bs" by simp
  note seq = sequence_path_spec [OF this, where counted = True and
      native = "\<lambda>sges cnt. verbs_post_write post (vi_qp impl) p sges cnt
        (remote_address (op_remote op)) (remote_token (op_remote op))"]
  show ?thesis by (simp only: do_post_write_def Buffer_sequence buffer_seq.case if_True if_False flip: seq)
qed

text \<open>
  The contract as an interface: the four operations refine \<open>post_spec\<close> over their native call.
\<close>

definition native_law ::
  "('h \<Rightarrow> ptr multiset) \<Rightarrow> ptr \<Rightarrow> (native_sge list \<Rightarrow> 'h \<Rightarrow> error_code \<times> 'h) \<Rightarrow> bool" where
  "native_law outstanding p native \<longleftrightarrow>
     (\<forall>sges h. case native sges h of (ec, h') \<Rightarrow>
        outstanding h' = (if is_error ec then outstanding h else add_mset p (outstanding h)))"

definition post_accounted ::
  "('h \<Rightarrow> ptr multiset) \<Rightarrow> ptr \<Rightarrow> 'h \<Rightarrow> bool \<times> verbs_op \<times> 'h \<Rightarrow> bool" where
  "post_accounted outstanding p h r \<longleftrightarrow>
     (case r of (immediate, op', h') \<Rightarrow>
        op_settled op' \<and>
        (if immediate then outstanding h' = outstanding h
         else outstanding h' = add_mset p (outstanding h) \<and> \<not> is_error (op_ec op')))"

locale post_operation =
  fixes do_post :: "'impl \<Rightarrow> ptr \<Rightarrow> verbs_op \<Rightarrow> 'h \<Rightarrow> bool \<times> verbs_op \<times> 'h"
    and native :: "'impl \<Rightarrow> ptr \<Rightarrow> verbs_op \<Rightarrow> native_sge list \<Rightarrow> 'h \<Rightarrow> error_code \<times> 'h"
    and limit :: "'impl \<Rightarrow> u32"
    and counted :: bool
  assumes refines: "do_post impl p op h = post_spec (limit impl) counted (native impl p op) op h"
    and native_buffers: "native impl p (op\<lparr>op_buffers := x\<rparr>) = native impl p op"
begin

lemma single_is_sequence:
  assumes "op_buffers op = Single_buffer b"
    and "do_post impl p op h = (immediate, op', h')"
  shows "do_post impl p (op\<lparr>op_buffers := Buffer_sequence [b]\<rparr>) h =
    (immediate, op'\<lparr>op_buffers := Buffer_sequence [b]\<rparr>, h')"
  using assms
  by (auto simp: refines post_spec_def native_buffers Let_def set_posted_bytes_def
      split: build_outcome.splits if_splits prod.splits)

lemma rejected:
  assumes "build_spec (limit impl) (seq_buffers (op_buffers op)) \<noteq> Build_ok"
  shows "\<exists>e. do_post impl p op h = (True, op\<lparr>op_ec := make_error_code e\<rparr>, h)"
  using assms
  by (cases "build_spec (limit impl) (seq_buffers (op_buffers op))")
    (auto simp: refines post_spec_def)

lemma identity_kept:
  assumes "do_post impl p op h = (immediate, op', h')"
  shows "op_kind op' = op_kind op \<and> op_handler op' = op_handler op \<and>
    op_buffers op' = op_buffers op \<and> op_remote op' = op_remote op"
  using assms
  by (auto simp: refines post_spec_def Let_def set_posted_bytes_def
      split: build_outcome.splits if_splits prod.splits)

lemma accounted:
  assumes "native_law outstanding p (native impl p op)"
    and "\<not> is_error (op_ec op)" and "op_bytes op = 0"
    and "counted \<Longrightarrow> op_kind op = post_send \<or> op_kind op = remote_write"
  shows "post_accounted outstanding p h (do_post impl p op h)"
proof -
  let ?bs = "seq_buffers (op_buffers op)"
  obtain ec h' where r: "native impl p op (map ibv_fill_native_sge ?bs) h = (ec, h')" by fastforce
  have law: "outstanding h' = (if is_error ec then outstanding h else add_mset p (outstanding h))"
    using assms(1) r unfolding native_law_def by (metis (mono_tags, lifting) case_prod_conv)
  show ?thesis
    using assms(2-4) law
    by (cases "build_spec (limit impl) ?bs")
      (auto simp: refines post_spec_def r post_accounted_def op_settled_def set_posted_bytes_def
        Let_def)
qed

end

interpretation send_post: post_operation "do_post_send post"
  "\<lambda>impl p op sges. verbs_post_send post (vi_qp impl) p sges (length sges)"
  "\<lambda>impl. max_send_sge (vi_config impl)" True for post
  by unfold_locales (simp_all add: do_post_send_spec)

interpretation recv_post: post_operation "do_post_recv post"
  "\<lambda>impl p op sges. verbs_post_recv post (vi_qp impl) p sges (length sges)"
  "\<lambda>impl. max_recv_sge (vi_config impl)" False for post
  by unfold_locales (simp_all add: do_post_recv_spec)

interpretation read_post: post_operation "do_post_read post"
  "\<lambda>impl p op sges. verbs_post_read post (vi_qp impl) p sges (length sges)
     (remote_address (op_remote op)) (remote_token (op_remote op))"
  "\<lambda>impl. max_send_sge (vi_config impl)" False for post
  by unfold_locales (simp_all add: do_post_read_spec)

interpretation write_post: post_operation "do_post_write post"
  "\<lambda>impl p op sges. verbs_post_write post (vi_qp impl) p sges (length sges)
     (remote_address (op_remote op)) (remote_token (op_remote op))"
  "\<lambda>impl. max_send_sge (vi_config impl)" True for post
  by unfold_locales (simp_all add: do_post_write_spec)

subsection \<open>The adapter's documented behaviour\<close>

definition post_send_law :: "('h \<Rightarrow> ptr multiset) \<Rightarrow> 'h post_send_fn \<Rightarrow> bool" where
  "post_send_law outstanding post \<longleftrightarrow>
     (\<forall>h qp wr. case post h qp wr of (rc, h') \<Rightarrow>
        outstanding h' = (if rc = 0 then add_mset (swr_id wr) (outstanding h) else outstanding h))"

definition post_recv_law :: "('h \<Rightarrow> ptr multiset) \<Rightarrow> 'h post_recv_fn \<Rightarrow> bool" where
  "post_recv_law outstanding post \<longleftrightarrow>
     (\<forall>h qp wr. case post h qp wr of (rc, h') \<Rightarrow>
        outstanding h' = (if rc = 0 then add_mset (rwr_id wr) (outstanding h) else outstanding h))"

lemma is_error_rc_to_ec [simp]: "is_error (rc_to_ec rc) \<longleftrightarrow> rc \<noteq> 0"
  by (simp add: rc_to_ec_def)

lemma post_send_lawD:
  "post_send_law outstanding post \<Longrightarrow> post h qp wr = (rc, h') \<Longrightarrow>
   outstanding h' = (if rc = 0 then add_mset (swr_id wr) (outstanding h) else outstanding h)"
  by (auto simp: post_send_law_def dest!: spec [of _ h] spec [of _ qp] spec [of _ wr])

lemma post_recv_lawD:
  "post_recv_law outstanding post \<Longrightarrow> post h qp wr = (rc, h') \<Longrightarrow>
   outstanding h' = (if rc = 0 then add_mset (rwr_id wr) (outstanding h) else outstanding h)"
  by (auto simp: post_recv_law_def dest!: spec [of _ h] spec [of _ qp] spec [of _ wr])

lemma post_send_law_native:
  assumes "post_send_law outstanding post"
  shows "native_law outstanding p (\<lambda>sges. verbs_post_send post qp p sges (length sges))"
    and "native_law outstanding p (\<lambda>sges. verbs_post_read post qp p sges (length sges) ra k)"
    and "native_law outstanding p (\<lambda>sges. verbs_post_write post qp p sges (length sges) ra k)"
  by (auto simp: native_law_def verbs_post_send_def verbs_post_read_def
      verbs_post_write_def verbs_post_rdma_def post_send_lawD [OF assms] split: prod.split)

lemma post_recv_law_native:
  assumes "post_recv_law outstanding post"
  shows "native_law outstanding p (\<lambda>sges. verbs_post_recv post qp p sges (length sges))"
  by (auto simp: native_law_def verbs_post_recv_def post_recv_lawD [OF assms] split: prod.split)

end
