(* ===== verification/Verbs_Accounting.thy ===== *)
theory Verbs_Accounting
  imports IBV_Verbs
begin

text \<open>
  The data plane's ownership accounting. Every live operation is owned by exactly one party: the
  adapter (its work request is outstanding), a batch of work completions read but not yet
  resolved, a queue of resolved operations about to complete, the completion queue's ready list or
  the scheduler. The invariant \<open>vw_inv\<close> says so with multisets; it implies that nothing is freed
  twice or reached after it was freed.

  \<open>outs\<close> is the view of the work requests the adapter holds, \<open>batch\<close> the work completions in hand,
  \<open>held\<close> the resolved operations in hand.
\<close>

definition in_flight :: "('h \<Rightarrow> ptr multiset) \<Rightarrow> ptr list \<Rightarrow> 'h vworld \<Rightarrow> ptr multiset" where
  "in_flight outs batch w = outs (hw w) + mset batch"

definition vw_inv :: "('h \<Rightarrow> ptr multiset) \<Rightarrow> ptr list \<Rightarrow> ptr list \<Rightarrow> 'h vworld \<Rightarrow> bool" where
  "vw_inv outs batch held w \<longleftrightarrow>
     \<not> dangling w \<and> finite (dom (live_ops w)) \<and> nullptr \<notin> dom (live_ops w) \<and>
     mset_set (dom (live_ops w)) =
       mset (ready w) + mset (scheduled w) + mset held + in_flight outs batch w \<and>
     (\<forall>p op. live_ops w p = Some op \<longrightarrow>
        op_settled op \<and> (p \<in># in_flight outs batch w \<longrightarrow> \<not> is_error (op_ec op))) \<and>
     (\<forall>u\<in>set (upcalls w). is_error (up_ec u) \<longrightarrow> up_bytes u = 0)"

lemma vw_invD:
  assumes "vw_inv outs batch held w"
  shows "\<not> dangling w" "finite (dom (live_ops w))" "live_ops w nullptr = None"
    "mset_set (dom (live_ops w)) =
       mset (ready w) + mset (scheduled w) + mset held + in_flight outs batch w"
    "\<And>p op. live_ops w p = Some op \<Longrightarrow> op_settled op"
    "\<And>p op. live_ops w p = Some op \<Longrightarrow> p \<in># in_flight outs batch w \<Longrightarrow> \<not> is_error (op_ec op)"
    "\<And>u. u \<in> set (upcalls w) \<Longrightarrow> is_error (up_ec u) \<Longrightarrow> up_bytes u = 0"
  using assms by (auto simp: vw_inv_def)

text \<open>An owned address is live, and owned once.\<close>

lemma mset_set_single:
  assumes "finite A" and "mset_set A = add_mset p M"
  shows "p \<in> A \<and> p \<notin># M"
proof -
  have "p \<in># mset_set A" using assms(2) by simp
  then have "p \<in> A" using assms(1) by simp
  then have "count (add_mset p M) p = 1" using assms by (simp flip: assms(2))
  with \<open>p \<in> A\<close> show ?thesis by (simp add: not_in_iff)
qed

lemma mset_set_Diff_single: "finite A \<Longrightarrow> mset_set A = add_mset p M \<Longrightarrow> mset_set (A - {p}) = M"
  using mset_set_single [of A p M] mset_set.remove [of A p] by auto

lemma held_live:
  assumes "vw_inv outs batch (p # held) w"
  shows "\<exists>op. live_ops w p = Some op \<and> op_settled op"
  using mset_set_single [of "dom (live_ops w)" p] vw_invD [OF assms] by force

lemma batch_live:
  assumes "vw_inv outs (p # batch) held w"
  shows "\<exists>op. live_ops w p = Some op \<and> \<not> is_error (op_ec op)"
proof -
  have "p \<in> dom (live_ops w)"
    using mset_set_single [of "dom (live_ops w)" p] vw_invD(2,4) [OF assms]
    by (simp add: in_flight_def)
  moreover have "p \<in># in_flight outs (p # batch) w" by (simp add: in_flight_def)
  ultimately show ?thesis using vw_invD(6) [OF assms] by blast
qed

subsection \<open>Moving ownership\<close>

text \<open>Taking an operation off a queue or putting it there.\<close>

lemma vw_inv_ready:
  "vw_inv outs batch held (w\<lparr>ready := q\<rparr>) \<longleftrightarrow> vw_inv outs batch (q @ held) (w\<lparr>ready := []\<rparr>)"
  by (simp add: vw_inv_def in_flight_def ac_simps)

lemma vw_inv_scheduled:
  "vw_inv outs batch held (w\<lparr>scheduled := q\<rparr>) \<longleftrightarrow>
   vw_inv outs batch (q @ held) (w\<lparr>scheduled := []\<rparr>)"
  by (simp add: vw_inv_def in_flight_def ac_simps)

lemma vw_inv_held_perm:
  "mset held = mset held' \<Longrightarrow> vw_inv outs batch held w = vw_inv outs batch held' w"
  by (simp add: vw_inv_def in_flight_def)

lemma vw_inv_take_ready:
  assumes "vw_inv outs batch held w" and "ready w = taken @ rest"
  shows "vw_inv outs batch (taken @ held) (w\<lparr>ready := rest\<rparr>)"
  using assms by (simp add: vw_inv_def in_flight_def ac_simps)

lemma vw_inv_push_ready:
  "vw_inv outs batch (p # held) w \<Longrightarrow> vw_inv outs batch held (w\<lparr>ready := ready w @ [p]\<rparr>)"
  by (simp add: vw_inv_def in_flight_def ac_simps)

lemma vw_inv_take_scheduled:
  assumes "vw_inv outs batch held w" and "scheduled w = taken @ rest"
  shows "vw_inv outs batch (taken @ held) (w\<lparr>scheduled := rest\<rparr>)"
  using assms by (simp add: vw_inv_def in_flight_def ac_simps)

lemma vw_inv_push_scheduled:
  "vw_inv outs batch (p # held) w \<Longrightarrow> vw_inv outs batch held (w\<lparr>scheduled := scheduled w @ [p]\<rparr>)"
  by (simp add: vw_inv_def in_flight_def ac_simps)

text \<open>The adapter hands work completions over, or works without completing anything.\<close>

lemma vw_inv_hw:
  assumes "vw_inv outs batch held w" and "outs (hw w) = mset ids + outs h'"
  shows "vw_inv outs (ids @ batch) held (w\<lparr>hw := h'\<rparr>)"
  using assms by (simp add: vw_inv_def in_flight_def ac_simps)

subsection \<open>Completing and resolving\<close>

text \<open>
  What is asked of the user's handlers: whatever they call keeps the accounting (every library call
  does). \<open>handled\<close> counts the handlers that were invoked or will be.
\<close>

definition handler_ok :: "('h \<Rightarrow> ptr multiset) \<Rightarrow> (upcall \<Rightarrow> 'h vworld \<Rightarrow> 'h vworld) \<Rightarrow> bool" where
  "handler_ok outs handler \<longleftrightarrow>
     (\<forall>batch held u w. vw_inv outs batch held w \<longrightarrow> vw_inv outs batch held (handler u w))"

definition pending_handlers :: "'h vworld \<Rightarrow> nat multiset" where
  "pending_handlers w =
     image_mset (\<lambda>p. op_handler (the (live_ops w p))) (mset_set (dom (live_ops w)))"

definition handled :: "'h vworld \<Rightarrow> nat multiset" where
  "handled w = mset (map up_handler (upcalls w)) + pending_handlers w"

lemma handler_ok_idle [simp]: "handler_ok outs (\<lambda>_ w. w)"
  by (simp add: handler_ok_def)

lemma pending_handlers_cong:
  assumes "dom (live_ops w) = dom (live_ops w')"
    and "\<And>p op op'. live_ops w p = Some op \<Longrightarrow> live_ops w' p = Some op' \<Longrightarrow>
      op_handler op = op_handler op'"
  shows "pending_handlers w = pending_handlers w'"
proof -
  have "op_handler (the (live_ops w p)) = op_handler (the (live_ops w' p))"
    if "p \<in> dom (live_ops w)" for p
    using that assms by (metis domD option.sel)
  then show ?thesis
    unfolding pending_handlers_def assms(1) [symmetric]
    by (intro image_mset_cong) (metis finite_set_mset_mset_set infinite_set_mset_mset_set
        empty_iff)
qed

lemma pending_handlers_remove:
  assumes "finite (dom (live_ops w))" and "live_ops w p = Some op"
  shows "pending_handlers w =
    add_mset (op_handler op) (pending_handlers (w\<lparr>live_ops := (live_ops w)(p := None)\<rparr>))"
proof -
  have "mset_set (dom (live_ops w)) = add_mset p (mset_set (dom (live_ops w) - {p}))"
    using assms by (intro mset_set.remove) auto
  moreover have "image_mset (\<lambda>q. op_handler (the (live_ops w q))) (mset_set (dom (live_ops w) - {p}))
      = image_mset (\<lambda>q. op_handler (the (((live_ops w)(p := None)) q)))
          (mset_set (dom (live_ops w) - {p}))"
    using assms(1) by (intro image_mset_cong) auto
  ultimately show ?thesis using assms(2) by (simp add: pending_handlers_def)
qed

lemma vw_inv_drop_held:
  assumes "vw_inv outs batch (p # held) w"
  shows "vw_inv outs batch held (w\<lparr>live_ops := (live_ops w)(p := None)\<rparr>)"
proof -
  note d = vw_invD [OF assms]
  have "mset_set (dom (live_ops w) - {p}) =
      mset (ready w) + mset (scheduled w) + mset held + in_flight outs batch w"
    using d(2,4) by (intro mset_set_Diff_single) simp_all
  then show ?thesis
    using assms by (auto simp: vw_inv_def in_flight_def split: if_splits)
qed

lemma vw_inv_add_upcall:
  "vw_inv outs batch held w \<Longrightarrow> (is_error (up_ec u) \<Longrightarrow> up_bytes u = 0) \<Longrightarrow>
   vw_inv outs batch held (w\<lparr>upcalls := upcalls w @ [u]\<rparr>)"
  by (auto simp: vw_inv_def in_flight_def)

lemma complete_at_inv:
  assumes inv: "vw_inv outs batch (p # held) w" and h: "handler_ok outs handler"
  shows "vw_inv outs batch held (complete_at handler owner p w)"
proof -
  obtain op where op: "live_ops w p = Some op" "op_settled op"
    using held_live [OF inv] by blast
  note dropped = vw_inv_drop_held [OF inv]
  show ?thesis
  proof (cases "op_complete owner op")
    case None
    with op dropped show ?thesis by (simp add: complete_at_def)
  next
    case (Some u)
    have "vw_inv outs batch held
        (w\<lparr>live_ops := (live_ops w)(p := None), upcalls := upcalls w @ [u]\<rparr>)"
      using vw_inv_add_upcall [OF dropped] op_settled_upcall [OF op(2) Some] by simp
    with h Some op show ?thesis
      by (simp add: complete_at_def handler_ok_def)
  qed
qed

lemma destroy_at_inv:
  assumes "vw_inv outs batch (p # held) w"
  shows "vw_inv outs batch held (destroy_at p w)"
  using held_live [OF assms] vw_inv_drop_held [OF assms] by (auto simp: destroy_at_def)

text \<open>
  \<open>le\<close> is the relation the handlers keep: equality when they initiate nothing, inclusion when they
  may initiate more.
\<close>

definition handler_keeps ::
  "(upcall \<Rightarrow> 'h vworld \<Rightarrow> 'h vworld) \<Rightarrow> (nat multiset \<Rightarrow> nat multiset \<Rightarrow> bool) \<Rightarrow> bool" where
  "handler_keeps handler le \<longleftrightarrow>
     reflp le \<and> transp le \<and> (\<forall>u w. le (handled w) (handled (handler u w)))"

lemma handler_keepsD:
  assumes "handler_keeps handler le"
  shows "le x x" "le x y \<Longrightarrow> le y z \<Longrightarrow> le x z" "le (handled w) (handled (handler u w))"
  using assms by (auto simp: handler_keeps_def dest: reflpD transpD)

lemma complete_at_handled:
  assumes inv: "vw_inv outs batch (p # held) w"
    and h: "handler_keeps handler le"
  shows "le (handled w) (handled (complete_at handler True p w))"
proof -
  obtain op where op: "live_ops w p = Some op"
    using held_live [OF inv] by blast
  obtain u where u: "op_complete True op = Some u" using op_complete_owner by blast
  let ?w = "w\<lparr>live_ops := (live_ops w)(p := None), upcalls := upcalls w @ [u]\<rparr>"
  have "handled ?w = handled w"
    using pending_handlers_remove [OF vw_invD(2) [OF inv] op] op_complete_upcall(1) [OF u]
    by (simp add: handled_def pending_handlers_def)
  then show ?thesis
    using handler_keepsD(3) [OF h, of ?w u] op u by (simp add: complete_at_def)
qed

text \<open>
  Turning a work completion into its operation is the interface both backends implement: the address
  is the completion's \<open>wc_id\<close>, and the completion's status and length are stamped on the operation.
\<close>

locale wc_resolution =
  fixes wc_id :: "'wc \<Rightarrow> ptr" and stamp :: "'wc \<Rightarrow> verbs_op \<Rightarrow> verbs_op"
    and resolve :: "'wc \<Rightarrow> 'h vworld \<Rightarrow> ptr option \<times> 'h vworld"
  assumes resolve_live: "wc_id wc \<noteq> nullptr \<Longrightarrow> live_ops w (wc_id wc) = Some op \<Longrightarrow>
      resolve wc w = (Some (wc_id wc), w\<lparr>live_ops := (live_ops w)(wc_id wc \<mapsto> stamp wc op)\<rparr>)"
    and resolve_hw: "hw (snd (resolve wc w)) = hw w"
    and stamp_settles: "\<not> is_error (op_ec op) \<Longrightarrow> op_settled (stamp wc op)"
    and stamp_handler: "op_handler (stamp wc op) = op_handler op"
begin

lemma resolve_inv:
  assumes inv: "vw_inv outs (wc_id wc # batch) held w"
  shows "\<exists>op. live_ops w (wc_id wc) = Some op \<and>
    resolve wc w = (Some (wc_id wc), w\<lparr>live_ops := (live_ops w)(wc_id wc \<mapsto> stamp wc op)\<rparr>) \<and>
    vw_inv outs batch (wc_id wc # held) (snd (resolve wc w)) \<and>
    handled (snd (resolve wc w)) = handled w"
proof -
  let ?p = "wc_id wc"
  note d = vw_invD [OF inv]
  obtain op where op: "live_ops w ?p = Some op" "\<not> is_error (op_ec op)"
    using batch_live [OF inv] by blast
  have nz: "?p \<noteq> nullptr" using op(1) d(3) by auto
  let ?w = "w\<lparr>live_ops := (live_ops w)(?p \<mapsto> stamp wc op)\<rparr>"
  have res: "resolve wc w = (Some ?p, ?w)"
    using resolve_live [OF nz op(1)] .
  have dom: "dom (live_ops ?w) = dom (live_ops w)" using op by auto
  have "?p \<notin># mset (ready w) + mset (scheduled w) + mset held + in_flight outs batch w"
    using mset_set_single [OF d(2), of ?p] d(4) by (simp add: in_flight_def)
  then have "?p \<notin># in_flight outs batch w" by simp
  then have "vw_inv outs batch (?p # held) ?w"
    using inv stamp_settles [OF op(2), of wc] dom
    by (auto simp: vw_inv_def in_flight_def)
  moreover have "pending_handlers ?w = pending_handlers w"
    using dom op by (intro pending_handlers_cong) (auto split: if_splits simp: stamp_handler)
  ultimately show ?thesis using op res by (auto simp: handled_def)
qed

end

interpretation ibv_wc: wc_resolution wc_wr_id stamp_wc resolve_verbs_op
  by unfold_locales (auto simp: resolve_verbs_op_def stamp_wc_settled split: option.split)

subsection \<open>Initiating\<close>

text \<open>The allocator returns an address that is not null and not in use.\<close>

definition fresh_op :: "ptr \<Rightarrow> 'h vworld \<Rightarrow> bool" where
  "fresh_op p w \<longleftrightarrow> p \<noteq> nullptr \<and> p \<notin> dom (live_ops w)"

lemma post_new_op_inv:
  assumes inv: "vw_inv outs batch held w" and fresh: "fresh_op p w"
    and acc: "post_accounted outs p (hw w) (f op (hw w))"
    and r: "post_new_op f p op w = (immediate, w')"
  shows "vw_inv outs batch (if immediate then p # held else held) w'"
proof -
  obtain op' h' where f: "f op (hw w) = (immediate, op', h')"
    and w': "w' = w\<lparr>hw := h', live_ops := (live_ops w)(p \<mapsto> op')\<rparr>"
    using r by (auto simp: post_new_op_def split: prod.splits)
  have "p \<notin># mset_set (dom (live_ops w))"
    using vw_invD(2) [OF inv] fresh by (simp add: fresh_op_def)
  then have unowned: "p \<notin># outs (hw w)" "p \<notin> set batch"
    by (simp_all add: vw_invD(4) [OF inv] in_flight_def)
  show ?thesis
    using inv fresh acc unowned
    by (auto simp: w' f vw_inv_def fresh_op_def in_flight_def post_accounted_def split: if_splits)
qed

lemma post_new_op_handled:
  assumes fin: "finite (dom (live_ops w))" and fresh: "fresh_op p w"
    and r: "post_new_op f p op w = (immediate, w')"
    and keep: "op_handler (fst (snd (f op (hw w)))) = op_handler op"
  shows "handled w' = add_mset (op_handler op) (handled w)"
proof -
  obtain op' h' where f: "f op (hw w) = (immediate, op', h')"
    and w': "w' = w\<lparr>hw := h', live_ops := (live_ops w)(p \<mapsto> op')\<rparr>"
    using r by (auto simp: post_new_op_def split: prod.splits)
  have "(live_ops w)(p := None) = live_ops w"
    using fresh by (auto simp: fresh_op_def fun_eq_iff domIff)
  then have "pending_handlers w' = add_mset (op_handler op) (pending_handlers w)"
    using pending_handlers_remove [of w' p op'] fin keep
    by (simp add: w' f pending_handlers_def)
  then show ?thesis by (simp add: handled_def w')
qed

lemma finish_poll_inv:
  assumes "vw_inv outs batch (if immediate then p # held else held) w"
    and "vi_poll_cq impl \<noteq> nullptr"
  shows "vw_inv outs batch held (finish_poll impl p immediate w)"
  using assms vw_inv_push_ready [of outs batch p held w]
  by (simp add: finish_poll_def split: if_splits)

lemma finish_event_inv:
  assumes "vw_inv outs batch (if immediate then p # held else held) w"
  shows "vw_inv outs batch held (finish_event impl p immediate w)"
  using assms vw_inv_push_scheduled [of outs batch p held w]
  by (simp add: finish_event_def split: if_splits)

lemma finish_handled [simp]:
  "handled (finish_poll impl p immediate w) = handled w"
  "handled (finish_event impl p immediate w) = handled w"
  by (simp_all add: finish_poll_def finish_event_def handled_def pending_handlers_def)

lemma verbs_op_new_facts [simp]:
  "op_kind (verbs_op_new k e b r h) = k" "op_ec (verbs_op_new k e b r h) = e"
  "op_bytes (verbs_op_new k e b r h) = 0" "op_buffers (verbs_op_new k e b r h) = b"
  "op_remote (verbs_op_new k e b r h) = r" "op_handler (verbs_op_new k e b r h) = h"
  by (simp_all add: verbs_op_new_def)

text \<open>The eight initiating functions keep the accounting and add exactly one owed handler.\<close>

lemma async_two_sided_inv:
  assumes inv: "vw_inv outs batch held w" and fresh: "fresh_op p w"
  shows "post_send_law outs ps \<Longrightarrow> vi_poll_cq impl \<noteq> nullptr \<Longrightarrow>
      vw_inv outs batch held (async_send_static ps impl bufs h p w)"
    and "post_send_law outs ps \<Longrightarrow> vw_inv outs batch held (async_send ps impl bufs h p w)"
    and "post_recv_law outs pr \<Longrightarrow> vi_poll_cq impl \<noteq> nullptr \<Longrightarrow>
      vw_inv outs batch held (async_recv_static pr impl bufs h p w)"
    and "post_recv_law outs pr \<Longrightarrow> vw_inv outs batch held (async_recv pr impl bufs h p w)"
proof -
  have send: "post_accounted outs p (hw w) (do_post_send ps impl p op (hw w))"
    if "post_send_law outs ps" "op = verbs_op_new post_send no_error bufs no_remote h" for op
    using that by (intro send_post.accounted post_send_law_native) auto
  have recv: "post_accounted outs p (hw w) (do_post_recv pr impl p op (hw w))"
    if "post_recv_law outs pr" "op = verbs_op_new post_recv no_error bufs no_remote h" for op
    using that by (intro recv_post.accounted post_recv_law_native) auto
  show "post_send_law outs ps \<Longrightarrow> vi_poll_cq impl \<noteq> nullptr \<Longrightarrow>
      vw_inv outs batch held (async_send_static ps impl bufs h p w)"
    and "post_send_law outs ps \<Longrightarrow> vw_inv outs batch held (async_send ps impl bufs h p w)"
    and "post_recv_law outs pr \<Longrightarrow> vi_poll_cq impl \<noteq> nullptr \<Longrightarrow>
      vw_inv outs batch held (async_recv_static pr impl bufs h p w)"
    and "post_recv_law outs pr \<Longrightarrow> vw_inv outs batch held (async_recv pr impl bufs h p w)"
    using post_new_op_inv [OF inv fresh] send recv
    by (auto simp: async_send_static_def async_send_def async_recv_static_def async_recv_def
        split: prod.split intro!: finish_poll_inv finish_event_inv)
qed

lemma async_one_sided_inv:
  assumes inv: "vw_inv outs batch held w" and fresh: "fresh_op p w" and law: "post_send_law outs ps"
  shows "vi_poll_cq impl \<noteq> nullptr \<Longrightarrow>
      vw_inv outs batch held (async_read_static ps impl bufs r h p w)"
    and "vw_inv outs batch held (async_read ps impl bufs r h p w)"
    and "vi_poll_cq impl \<noteq> nullptr \<Longrightarrow>
      vw_inv outs batch held (async_write_static ps impl bufs r h p w)"
    and "vw_inv outs batch held (async_write ps impl bufs r h p w)"
proof -
  have read: "post_accounted outs p (hw w) (do_post_read ps impl p op (hw w))"
    if "op = verbs_op_new remote_read no_error bufs r h" for op
    using that law by (intro read_post.accounted post_send_law_native) auto
  have wrt: "post_accounted outs p (hw w) (do_post_write ps impl p op (hw w))"
    if "op = verbs_op_new remote_write no_error bufs r h" for op
    using that law by (intro write_post.accounted post_send_law_native) auto
  show "vi_poll_cq impl \<noteq> nullptr \<Longrightarrow>
      vw_inv outs batch held (async_read_static ps impl bufs r h p w)"
    and "vw_inv outs batch held (async_read ps impl bufs r h p w)"
    and "vi_poll_cq impl \<noteq> nullptr \<Longrightarrow>
      vw_inv outs batch held (async_write_static ps impl bufs r h p w)"
    and "vw_inv outs batch held (async_write ps impl bufs r h p w)"
    using post_new_op_inv [OF inv fresh] read wrt
    by (auto simp: async_read_static_def async_read_def async_write_static_def async_write_def
        split: prod.split intro!: finish_poll_inv finish_event_inv)
qed

lemma async_handled:
  assumes fin: "finite (dom (live_ops w))" and fresh: "fresh_op p w"
  shows "handled (async_send_static ps impl bufs h p w) = add_mset h (handled w)"
    and "handled (async_send ps impl bufs h p w) = add_mset h (handled w)"
    and "handled (async_recv_static pr impl bufs h p w) = add_mset h (handled w)"
    and "handled (async_recv pr impl bufs h p w) = add_mset h (handled w)"
    and "handled (async_read_static ps impl bufs r h p w) = add_mset h (handled w)"
    and "handled (async_read ps impl bufs r h p w) = add_mset h (handled w)"
    and "handled (async_write_static ps impl bufs r h p w) = add_mset h (handled w)"
    and "handled (async_write ps impl bufs r h p w) = add_mset h (handled w)"
proof -
  have keep: "op_handler (fst (snd (do_post_send ps impl p op (hw w)))) = op_handler op"
    "op_handler (fst (snd (do_post_recv pr impl p op (hw w)))) = op_handler op"
    "op_handler (fst (snd (do_post_read ps impl p op (hw w)))) = op_handler op"
    "op_handler (fst (snd (do_post_write ps impl p op (hw w)))) = op_handler op" for op
    using send_post.identity_kept recv_post.identity_kept read_post.identity_kept
      write_post.identity_kept
    by (metis prod.collapse)+
  note new = post_new_op_handled [OF fin fresh,
      where f = "do_post_send ps impl p", OF _ keep(1)]
    post_new_op_handled [OF fin fresh,
      where f = "do_post_recv pr impl p", OF _ keep(2)]
    post_new_op_handled [OF fin fresh,
      where f = "do_post_read ps impl p", OF _ keep(3)]
    post_new_op_handled [OF fin fresh,
      where f = "do_post_write ps impl p", OF _ keep(4)]
  show "handled (async_send_static ps impl bufs h p w) = add_mset h (handled w)"
    and "handled (async_send ps impl bufs h p w) = add_mset h (handled w)"
    by (auto simp: async_send_static_def async_send_def new(1) split: prod.split)
  show "handled (async_recv_static pr impl bufs h p w) = add_mset h (handled w)"
    and "handled (async_recv pr impl bufs h p w) = add_mset h (handled w)"
    by (auto simp: async_recv_static_def async_recv_def new(2) split: prod.split)
  show "handled (async_read_static ps impl bufs r h p w) = add_mset h (handled w)"
    and "handled (async_read ps impl bufs r h p w) = add_mset h (handled w)"
    by (auto simp: async_read_static_def async_read_def new(3) split: prod.split)
  show "handled (async_write_static ps impl bufs r h p w) = add_mset h (handled w)"
    and "handled (async_write ps impl bufs r h p w) = add_mset h (handled w)"
    by (auto simp: async_write_static_def async_write_def new(4) split: prod.split)
qed

end
