(* ===== verification/Completion_Dispatch.thy ===== *)
theory Completion_Dispatch
  imports Verbs_Accounting
begin

text \<open>
  Completing operations in bulk, for both backends: dispatching a batch of work completions (each is
  resolved and completed), resolving a batch into a queue, and completing a queue of operations. The
  lemmas are stated over the interface \<open>wc_resolution\<close>; the completion queues and event services of the
  two backends interpret it.
\<close>

type_synonym 'h handler_fn = "upcall \<Rightarrow> 'h vworld \<Rightarrow> 'h vworld"

definition dispatch_with ::
  "('wc \<Rightarrow> 'h vworld \<Rightarrow> ptr option \<times> 'h vworld) \<Rightarrow> 'h handler_fn \<Rightarrow> 'wc \<Rightarrow> 'h vworld \<Rightarrow> 'h vworld" where
  "dispatch_with resolve handler wc w =
     (case resolve wc w of (None, w') \<Rightarrow> w' | (Some p, w') \<Rightarrow> complete_at handler True p w')"

fun resolve_list ::
  "('wc \<Rightarrow> 'h vworld \<Rightarrow> ptr option \<times> 'h vworld) \<Rightarrow> 'wc list \<Rightarrow> ptr list \<times> 'h vworld \<Rightarrow> ptr list \<times> 'h vworld"
  where
  "resolve_list resolve [] (out, w) = (out, w)"
| "resolve_list resolve (wc # wcs) (out, w) =
     (case resolve wc w of
        (None, w') \<Rightarrow> resolve_list resolve wcs (out, w')
      | (Some p, w') \<Rightarrow> resolve_list resolve wcs (out @ [p], w'))"

lemma mset_take_drop: "mset (take k xs) + mset (drop k xs) = mset xs"
  unfolding mset_append [symmetric] by simp

subsection \<open>What handlers may do\<close>

text \<open>
  Handlers that invoke no handler themselves: every dispatch is one invocation. Handlers that leave no
  more work requests outstanding than they found.
\<close>

definition handler_flat :: "'h handler_fn \<Rightarrow> bool" where
  "handler_flat handler \<longleftrightarrow> (\<forall>u w. upcalls (handler u w) = upcalls w)"

definition handler_quiet :: "('h \<Rightarrow> ptr multiset) \<Rightarrow> 'h handler_fn \<Rightarrow> bool" where
  "handler_quiet outs handler \<longleftrightarrow> (\<forall>u w. size (outs (hw (handler u w))) \<le> size (outs (hw w)))"

lemma idle_handler_keeps: "handler_keeps (\<lambda>_ w. w) (=)"
  by (simp add: handler_keeps_def)

lemma idle_handler:
  "handler_quiet outs (\<lambda>_ w. w)" "handler_flat (\<lambda>_ w. w)"
  by (simp_all add: handler_quiet_def handler_flat_def)

lemma handler_keeps_inclusion:
  "\<forall>u w. handled w \<subseteq># handled (handler u w) \<Longrightarrow> handler_keeps handler (\<subseteq>#)"
  by (auto simp: handler_keeps_def intro: reflpI transpI subset_mset.order_trans)

subsection \<open>Completing a queue of operations\<close>

lemma complete_at_count:
  assumes "vw_inv outs batch (p # held) w" and "handler_flat handler"
  shows "length (upcalls (complete_at handler True p w)) = Suc (length (upcalls w))"
proof -
  obtain op where op: "live_ops w p = Some op" using held_live [OF assms(1)] by blast
  obtain u where "op_complete True op = Some u" using op_complete_owner by blast
  with op assms(2) show ?thesis by (simp add: complete_at_def handler_flat_def)
qed

lemma complete_at_quiet:
  "handler_quiet outs handler \<Longrightarrow> size (outs (hw (complete_at handler owner p w))) \<le> size (outs (hw w))"
proof -
  assume "handler_quiet outs handler"
  then have "size (outs (hw (handler u x))) \<le> size (outs (hw w))" if "hw x = hw w" for u x
    using that unfolding handler_quiet_def by metis
  then show ?thesis by (simp add: complete_at_def Let_def split: option.split)
qed

abbreviation complete_each :: "'h handler_fn \<Rightarrow> ptr list \<Rightarrow> 'h vworld \<Rightarrow> 'h vworld" where
  "complete_each handler ps w \<equiv> fold (complete_at handler True) ps w"

lemma complete_each_inv:
  assumes "vw_inv outs batch (ps @ held) w" and "handler_ok outs handler"
  shows "vw_inv outs batch held (complete_each handler ps w)"
  using assms by (induction ps arbitrary: w) (auto intro: complete_at_inv)

lemma complete_each_handled:
  assumes "vw_inv outs batch (ps @ held) w" and "handler_ok outs handler"
    and k: "handler_keeps handler le"
  shows "le (handled w) (handled (complete_each handler ps w))"
  using assms(1)
proof (induction ps arbitrary: w)
  case (Cons p ps)
  have "le (handled w) (handled (complete_at handler True p w))"
    using Cons.prems by (intro complete_at_handled [OF _ k]) simp
  then show ?case
    using Cons.IH [of "complete_at handler True p w"] Cons.prems
      complete_at_inv [OF _ assms(2), of batch p "ps @ held" w True]
    by (auto intro: handler_keepsD(2) [OF k])
qed (simp add: handler_keepsD(1) [OF k])

lemma complete_each_count:
  assumes "vw_inv outs batch (ps @ held) w" and "handler_ok outs handler"
    and "handler_flat handler"
  shows "length (upcalls (complete_each handler ps w)) = length (upcalls w) + length ps"
  using assms(1)
  by (induction ps arbitrary: w)
    (simp_all add: complete_at_inv [OF _ assms(2)] complete_at_count [OF _ assms(3)])

lemma complete_each_quiet:
  assumes "handler_quiet outs handler"
  shows "size (outs (hw (complete_each handler ps w))) \<le> size (outs (hw w))"
  by (induction ps arbitrary: w) (auto intro: order.trans complete_at_quiet [OF assms])

subsection \<open>Dispatching and resolving a batch\<close>

context wc_resolution
begin

lemma dispatch_inv:
  assumes "vw_inv outs (wc_id wc # batch) held w" and "handler_ok outs handler"
  shows "vw_inv outs batch held (dispatch_with resolve handler wc w)"
  using resolve_inv [OF assms(1)] complete_at_inv [OF _ assms(2)]
  by (auto simp: dispatch_with_def)

lemma dispatch_handled:
  assumes "vw_inv outs (wc_id wc # batch) held w" and "handler_keeps handler le"
  shows "le (handled w) (handled (dispatch_with resolve handler wc w))"
  using resolve_inv [OF assms(1)] complete_at_handled [OF _ assms(2)]
  by (fastforce simp: dispatch_with_def)

lemma dispatch_count:
  assumes "vw_inv outs (wc_id wc # batch) held w" and "handler_flat handler"
  shows "length (upcalls (dispatch_with resolve handler wc w)) = Suc (length (upcalls w))"
  using resolve_inv [OF assms(1)] complete_at_count [OF _ assms(2)]
  by (fastforce simp: dispatch_with_def)

lemma dispatch_quiet:
  assumes "handler_quiet outs handler"
  shows "size (outs (hw (dispatch_with resolve handler wc w))) \<le> size (outs (hw w))"
proof -
  obtain x w' where r: "resolve wc w = (x, w')" by fastforce
  then have "hw w' = hw w" using resolve_hw [of wc w] by simp
  then show ?thesis
    using complete_at_quiet [OF assms, of True _ w'] r by (simp add: dispatch_with_def split: option.split)
qed

lemma dispatch_all_inv:
  assumes "vw_inv outs (map wc_id wcs @ batch) held w" and "handler_ok outs handler"
  shows "vw_inv outs batch held (fold (dispatch_with resolve handler) wcs w)"
  using assms by (induction wcs arbitrary: w) (auto intro: dispatch_inv)

lemma dispatch_all_handled:
  assumes "vw_inv outs (map wc_id wcs @ batch) held w" and "handler_ok outs handler"
    and k: "handler_keeps handler le"
  shows "le (handled w) (handled (fold (dispatch_with resolve handler) wcs w))"
  using assms(1)
proof (induction wcs arbitrary: w)
  case (Cons wc wcs)
  let ?w = "dispatch_with resolve handler wc w"
  have "le (handled w) (handled ?w)"
    using Cons.prems by (intro dispatch_handled [OF _ k]) simp
  moreover have "le (handled ?w) (handled (fold (dispatch_with resolve handler) wcs ?w))"
    using Cons dispatch_inv [OF _ assms(2)] by simp
  ultimately show ?case using handler_keepsD(2) [OF k] by simp
qed (simp add: handler_keepsD(1) [OF k])

lemma dispatch_all_count:
  assumes "vw_inv outs (map wc_id wcs @ batch) held w" and "handler_ok outs handler"
    and "handler_flat handler"
  shows "length (upcalls (fold (dispatch_with resolve handler) wcs w)) = length (upcalls w) + length wcs"
  using assms(1)
  by (induction wcs arbitrary: w)
    (simp_all add: dispatch_inv [OF _ assms(2)] dispatch_count [OF _ assms(3)])

lemma dispatch_all_quiet:
  assumes "handler_quiet outs handler"
  shows "size (outs (hw (fold (dispatch_with resolve handler) wcs w))) \<le> size (outs (hw w))"
  by (induction wcs arbitrary: w) (auto intro: order.trans dispatch_quiet [OF assms])

lemma resolve_list_inv:
  assumes "vw_inv outs (map wc_id wcs @ batch) (out @ held) w"
    and "resolve_list resolve wcs (out, w) = (out', w')"
  shows "vw_inv outs batch (out' @ held) w' \<and> handled w' = handled w \<and>
    out' = out @ map wc_id wcs \<and> hw w' = hw w"
  using assms
proof (induction wcs arbitrary: out w)
  case (Cons wc wcs)
  obtain w1 where r: "resolve wc w = (Some (wc_id wc), w1)"
    and i: "vw_inv outs (map wc_id wcs @ batch) (wc_id wc # out @ held) w1"
    and h: "handled w1 = handled w"
    using resolve_inv [of outs wc "map wc_id wcs @ batch" "out @ held" w] Cons.prems(1) by force
  have "hw w1 = hw w" using resolve_hw [of wc w] r by simp
  moreover have "vw_inv outs (map wc_id wcs @ batch) ((out @ [wc_id wc]) @ held) w1"
    using i by (subst vw_inv_held_perm [of _ "wc_id wc # out @ held"]) simp_all
  ultimately show ?case
    using Cons.IH [of "out @ [wc_id wc]" w1] Cons.prems(2) r h by auto
qed simp

end

end
