(* ===== verification/IBV_Completion_Queue.thy ===== *)
theory IBV_Completion_Queue
  imports Completion_Dispatch
begin

text \<open>
  The standalone (poll mode) completion queue: \<open>ibv/ibv_completion_queue.hpp\<close> and
  \<open>ibv/impl/ibv_completion_queue.ipp\<close>.

  The queue's \<open>ready_\<close> list is the field \<open>ready\<close> of the data plane's state. \<open>ibv_poll_cq\<close> and
  \<open>ibv_create_cq\<close> are arguments; \<open>poll_cq_law\<close> is what their documentation promises: at most the
  requested number of completions, each for a work request the adapter held, which it then no
  longer holds.

  \<open>poll\<close> loops until the adapter has nothing; a handler may post more, so the loop may run for ever
  and is a partial function to \<open>option\<close>. The lemmas show that it returns when handlers add no work
  requests, and that any return keeps the accounting.
\<close>

type_synonym 'h poll_cq_fn = "'h \<Rightarrow> nat \<Rightarrow> int \<times> native_wc list \<times> 'h"

subsection \<open>Construction\<close>

record ibv_completion_queue =
  cq_device :: ibv_device_t
  cq_effective_config :: rdma_config_t
  cq_wc_buf_size :: nat
  cq_handle :: ptr

text \<open>\<open>ibv_create_cq\<close> as an argument: context, depth and channel to the queue and the \<open>errno\<close>.\<close>

type_synonym create_cq_fn = "ptr \<Rightarrow> i32 \<Rightarrow> ptr \<Rightarrow> ptr \<times> int"

definition verbs_create_cq :: "create_cq_fn \<Rightarrow> ptr \<Rightarrow> i32 \<Rightarrow> ptr \<Rightarrow> ptr \<times> error_code" where
  "verbs_create_cq ibv_create_cq context depth channel =
     (case ibv_create_cq context depth channel of (cq, errno) \<Rightarrow>
        if cq = nullptr then (nullptr, last_system_error errno) else (cq, no_error))"

text \<open>The constructor asserts a device with a context; it throws the code \<open>create_cq\<close> left.\<close>

definition ibv_completion_queue_ctor ::
  "create_cq_fn \<Rightarrow> ibv_device_t \<Rightarrow> rdma_config_t \<Rightarrow> error_code + ibv_completion_queue" where
  "ibv_completion_queue_ctor ibv_create_cq device config =
     (let effective = ibv_derive_effective_config config (dev_attr device);
          wcsize = (if cq_poll_batch effective \<noteq> 0 then unat (cq_poll_batch effective) else 16)
      in case verbs_create_cq ibv_create_cq (dev_context device) (cqe effective) nullptr of
        (cq, ec) \<Rightarrow>
          if is_error ec then Inl ec
          else Inr \<lparr>cq_device = device, cq_effective_config = effective, cq_wc_buf_size = wcsize,
                    cq_handle = cq\<rparr>)"

subsection \<open>Polling\<close>

definition push_ready :: "ptr \<Rightarrow> 'h vworld \<Rightarrow> 'h vworld" where
  "push_ready p w = w\<lparr>ready := ready w @ [p]\<rparr>"

definition pop_ready :: "'h vworld \<Rightarrow> ptr option \<times> 'h vworld" where
  "pop_ready w = (case ready w of [] \<Rightarrow> (None, w) | p # ps \<Rightarrow> (Some p, w\<lparr>ready := ps\<rparr>))"

definition dispatch :: "'h handler_fn \<Rightarrow> native_wc \<Rightarrow> 'h vworld \<Rightarrow> 'h vworld" where
  "dispatch handler wc w =
     (case resolve_verbs_op wc w of
        (None, w') \<Rightarrow> w'
      | (Some p, w') \<Rightarrow> complete_at handler True p w')"

text \<open>The loop over the moved-out queue, then \<open>drain_ready\<close>.\<close>

fun drain_local :: "'h handler_fn \<Rightarrow> ptr list \<Rightarrow> nat \<Rightarrow> 'h vworld \<Rightarrow> nat \<times> 'h vworld" where
  "drain_local handler [] n w = (n, w)"
| "drain_local handler (p # ps) n w = drain_local handler ps (n + 1) (complete_at handler True p w)"

definition drain_ready :: "'h handler_fn \<Rightarrow> 'h vworld \<Rightarrow> nat \<times> 'h vworld" where
  "drain_ready handler w = drain_local handler (ready w) 0 (w\<lparr>ready := []\<rparr>)"

text \<open>The \<open>do\<close> loop of \<open>poll\<close>; \<open>None\<close> is a loop that never ends.\<close>

partial_function (option) poll_loop ::
  "'h poll_cq_fn \<Rightarrow> 'h handler_fn \<Rightarrow> nat \<Rightarrow> nat \<Rightarrow> 'h vworld \<Rightarrow> (nat \<times> error_code \<times> 'h vworld) option"
  where
  "poll_loop poll_cq handler wcsize tot w =
     (case poll_cq (hw w) wcsize of (n, wcs, h') \<Rightarrow>
        if n < 0 then Some (tot, make_system_error_code EIO, w\<lparr>hw := h'\<rparr>)
        else let w' = fold (dispatch handler) (take (nat n) wcs) (w\<lparr>hw := h'\<rparr>) in
          if n > 0 then poll_loop poll_cq handler wcsize (tot + nat n) w'
          else Some (tot + nat n, no_error, w'))"

definition cq_poll ::
  "'h poll_cq_fn \<Rightarrow> 'h handler_fn \<Rightarrow> ibv_completion_queue \<Rightarrow> 'h vworld
   \<Rightarrow> (nat \<times> error_code \<times> 'h vworld) option" where
  "cq_poll poll_cq handler cq w =
     (case drain_ready handler w of
        (tot, w') \<Rightarrow> poll_loop poll_cq handler (cq_wc_buf_size cq) tot w')"

definition cq_poll_one ::
  "'h poll_cq_fn \<Rightarrow> 'h handler_fn \<Rightarrow> 'h vworld \<Rightarrow> nat \<times> error_code \<times> 'h vworld" where
  "cq_poll_one poll_cq handler w =
     (case pop_ready w of
        (Some p, w') \<Rightarrow> (1, no_error, complete_at handler True p w')
      | (None, _) \<Rightarrow>
          (case poll_cq (hw w) 1 of (n, wcs, h') \<Rightarrow>
             if n < 0 then (0, make_system_error_code EIO, w\<lparr>hw := h'\<rparr>)
             else if n > 0 then (1, no_error, dispatch handler (hd wcs) (w\<lparr>hw := h'\<rparr>))
             else (0, no_error, w\<lparr>hw := h'\<rparr>)))"

text \<open>The throwing overloads: \<open>Inl\<close> is the exception.\<close>

definition throw_if_error ::
  "nat \<times> error_code \<times> 'h vworld \<Rightarrow> (error_code + nat) \<times> 'h vworld" where
  "throw_if_error r = (case r of (n, ec, w) \<Rightarrow> (if is_error ec then Inl ec else Inr n, w))"

definition cq_poll_throwing ::
  "'h poll_cq_fn \<Rightarrow> 'h handler_fn \<Rightarrow> ibv_completion_queue \<Rightarrow> 'h vworld
   \<Rightarrow> ((error_code + nat) \<times> 'h vworld) option" where
  "cq_poll_throwing poll_cq handler cq w = map_option throw_if_error (cq_poll poll_cq handler cq w)"

definition cq_poll_one_throwing ::
  "'h poll_cq_fn \<Rightarrow> 'h handler_fn \<Rightarrow> 'h vworld \<Rightarrow> (error_code + nat) \<times> 'h vworld" where
  "cq_poll_one_throwing poll_cq handler w = throw_if_error (cq_poll_one poll_cq handler w)"

subsection \<open>The adapter's documented behaviour\<close>

definition poll_cq_law :: "('h \<Rightarrow> ptr multiset) \<Rightarrow> 'h poll_cq_fn \<Rightarrow> bool" where
  "poll_cq_law outs poll_cq \<longleftrightarrow>
     (\<forall>h k. case poll_cq h k of (n, wcs, h') \<Rightarrow>
        if n < 0 then outs h' = outs h
        else n \<le> int k \<and> length wcs = nat n \<and> outs h = mset (map wc_wr_id wcs) + outs h')"

lemma poll_cq_lawD:
  assumes "poll_cq_law outs poll_cq" and "poll_cq h k = (n, wcs, h')"
  shows "n < 0 \<Longrightarrow> outs h' = outs h"
    and "0 \<le> n \<Longrightarrow> n \<le> int k" and "0 \<le> n \<Longrightarrow> length wcs = nat n"
    and "0 \<le> n \<Longrightarrow> outs h = mset (map wc_wr_id wcs) + outs h'"
  using assms by (auto simp: poll_cq_law_def dest!: spec [of _ h] spec [of _ k])

subsection \<open>The accounting is kept\<close>

lemma dispatch_is_ibv: "dispatch = dispatch_with resolve_verbs_op"
  by (simp add: fun_eq_iff dispatch_def dispatch_with_def)

lemmas dispatch_all_inv = ibv_wc.dispatch_all_inv [folded dispatch_is_ibv]
lemmas dispatch_all_handled = ibv_wc.dispatch_all_handled [folded dispatch_is_ibv]
lemmas dispatch_all_count = ibv_wc.dispatch_all_count [folded dispatch_is_ibv]
lemmas dispatch_all_quiet = ibv_wc.dispatch_all_quiet [folded dispatch_is_ibv]

lemma drain_local_each: "snd (drain_local handler ps n w) = complete_each handler ps w"
  by (induction ps arbitrary: n w) auto

lemma drain_local_count [simp]: "fst (drain_local handler ps n w) = n + length ps"
  by (induction ps arbitrary: n w) auto

lemma drain_ready_inv:
  assumes "vw_inv outs batch held w" and "handler_ok outs handler"
  shows "vw_inv outs batch held (snd (drain_ready handler w))"
  using vw_inv_take_ready [OF assms(1), of "ready w" "[]"] complete_each_inv [OF _ assms(2)]
  by (simp add: drain_ready_def drain_local_each)

lemma drain_ready_handled:
  assumes "vw_inv outs batch held w" and "handler_ok outs handler" and "handler_keeps handler le"
  shows "le (handled w) (handled (snd (drain_ready handler w)))"
  using complete_each_handled [OF vw_inv_take_ready [OF assms(1), of "ready w" "[]"] assms(2,3)]
  by (simp add: drain_ready_def drain_local_each handled_def pending_handlers_def)

text \<open>One round of the loop: the batch is read and dispatched.\<close>

lemma poll_batch_inv:
  assumes "vw_inv outs [] held w" and "handler_ok outs handler" and "poll_cq_law outs poll_cq"
    and "poll_cq (hw w) k = (n, wcs, h')"
  shows "n < 0 \<Longrightarrow> vw_inv outs [] held (w\<lparr>hw := h'\<rparr>)"
    and "0 \<le> n \<Longrightarrow> vw_inv outs (map wc_wr_id (take (nat n) wcs)) held (w\<lparr>hw := h'\<rparr>)"
    and "0 \<le> n \<Longrightarrow> vw_inv outs [] held (fold (dispatch handler) (take (nat n) wcs) (w\<lparr>hw := h'\<rparr>))"
proof -
  note law = poll_cq_lawD [OF assms(3,4)]
  show "n < 0 \<Longrightarrow> vw_inv outs [] held (w\<lparr>hw := h'\<rparr>)"
    using law(1) vw_inv_hw [OF assms(1), of "[]" h'] by simp
  show "0 \<le> n \<Longrightarrow> vw_inv outs (map wc_wr_id (take (nat n) wcs)) held (w\<lparr>hw := h'\<rparr>)"
    using law(3,4) vw_inv_hw [OF assms(1), of "map wc_wr_id wcs" h'] by simp
  then show "0 \<le> n \<Longrightarrow>
      vw_inv outs [] held (fold (dispatch handler) (take (nat n) wcs) (w\<lparr>hw := h'\<rparr>))"
    using dispatch_all_inv [OF _ assms(2), of "take (nat n) wcs" "[]" held] by simp
qed

text \<open>Whatever the handlers do, a poll that returns has kept the accounting.\<close>

definition poll_post ::
  "('h \<Rightarrow> ptr multiset) \<Rightarrow> ptr list \<Rightarrow> 'h handler_fn \<Rightarrow> nat \<Rightarrow> 'h vworld
   \<Rightarrow> nat \<times> error_code \<times> 'h vworld \<Rightarrow> bool" where
  "poll_post outs held handler tot w r \<longleftrightarrow>
     (case r of (n, ec, w') \<Rightarrow>
        vw_inv outs [] held w' \<and> tot \<le> n \<and> (ec = no_error \<or> ec = make_system_error_code EIO) \<and>
        (\<forall>le. handler_keeps handler le \<longrightarrow> le (handled w) (handled w')) \<and>
        (handler_flat handler \<longrightarrow> length (upcalls w') + tot = length (upcalls w) + n))"

lemma poll_post_step:
  assumes "vw_inv outs [] held w" and "handler_ok outs handler" and "poll_cq_law outs poll_cq"
    and "poll_cq (hw w) k = (n, wcs, h')" and "0 \<le> n"
    and post: "poll_post outs held handler (tot + nat n)
      (fold (dispatch handler) (take (nat n) wcs) (w\<lparr>hw := h'\<rparr>)) r"
  shows "poll_post outs held handler tot w r"
proof -
  let ?w = "w\<lparr>hw := h'\<rparr>" and ?wcs = "take (nat n) wcs"
  note batch = poll_batch_inv(2) [OF assms(1-5)]
  have len: "length ?wcs = nat n" using poll_cq_lawD(3) [OF assms(3,4,5)] by simp
  have "handled ?w = handled w" by (simp add: handled_def pending_handlers_def)
  moreover have "le (handled ?w) (handled (fold (dispatch handler) ?wcs ?w))"
    if "handler_keeps handler le" for le
    using dispatch_all_handled [of outs ?wcs "[]" held ?w handler] batch assms(2) that by simp
  moreover have "length (upcalls (fold (dispatch handler) ?wcs ?w)) = length (upcalls w) + nat n"
    if "handler_flat handler"
    using dispatch_all_count [of outs ?wcs "[]" held ?w handler] batch assms(2) that len by simp
  ultimately show ?thesis
    using post by (auto simp: poll_post_def intro: handler_keepsD(2))
qed

lemma poll_post_exit:
  assumes "vw_inv outs [] held w'" and "ec = no_error \<or> ec = make_system_error_code EIO"
    and "handled w' = handled w" and "upcalls w' = upcalls w"
  shows "poll_post outs held handler tot w (tot, ec, w')"
  using assms handler_keepsD(1) [of handler] by (auto simp: poll_post_def)

lemma poll_loop_post:
  assumes "poll_loop poll_cq handler k tot w = Some r"
    and "vw_inv outs [] held w" and "handler_ok outs handler" and "poll_cq_law outs poll_cq"
  shows "poll_post outs held handler tot w r"
  using assms
proof (induction poll_cq handler k tot w r 
    rule: poll_loop.raw_induct [rotated, consumes 1, case_names step])
  case (step rec poll_cq handler k tot w r)
  obtain n wcs h' where p: "poll_cq (hw w) k = (n, wcs, h')" by (metis prod_cases3)
  let ?w' = "fold (dispatch handler) (take (nat n) wcs) (w\<lparr>hw := h'\<rparr>)"
  note batch = poll_batch_inv [OF step.prems p]
  show ?case
  proof (cases "n < 0")
    case True
    then have "r = (tot, make_system_error_code EIO, w\<lparr>hw := h'\<rparr>)" using step.hyps p by simp
    then show ?thesis
      using batch(1) [OF True] by (auto intro!: poll_post_exit simp: handled_def pending_handlers_def)
  next
    case False
    have "poll_post outs held handler (tot + nat n) ?w' r"
    proof (cases "n > 0")
      case True
      then have "rec poll_cq handler k (tot + nat n) ?w' = Some r"
        using step.hyps p by (simp add: Let_def)
      then show ?thesis using step.IH step.prems batch(3) False by simp
    next
      case n0: False
      then have "r = (tot + nat n, no_error, ?w')" using step.hyps p False by (simp add: Let_def)
      then show ?thesis using batch(3) False by (auto intro!: poll_post_exit)
    qed
    then show ?thesis using poll_post_step [OF step.prems p] False by simp
  qed
qed

subsection \<open>Termination\<close>

lemma poll_loop_returns:
  assumes "poll_cq_law outs poll_cq" and "handler_quiet outs handler"
  shows "\<exists>r. poll_loop poll_cq handler k tot w = Some r"
proof (induction "size (outs (hw w))" arbitrary: tot w rule: less_induct)
  case less
  obtain n wcs h' where p: "poll_cq (hw w) k = (n, wcs, h')" by (metis prod_cases3)
  note law = poll_cq_lawD [OF assms(1) p]
  let ?w' = "fold (dispatch handler) (take (nat n) wcs) (w\<lparr>hw := h'\<rparr>)"
  have "\<exists>r. poll_loop poll_cq handler k (tot + nat n) ?w' = Some r" if "0 < n"
  proof (rule less)
    have "size (outs (hw ?w')) \<le> size (outs h')"
      using dispatch_all_quiet [OF assms(2), of "take (nat n) wcs" "w\<lparr>hw := h'\<rparr>"] by simp
    also have "\<dots> < size (outs (hw w))" using law(3,4) that by simp
    finally show "size (outs (hw ?w')) < size (outs (hw w))" .
  qed
  then show ?case by (subst poll_loop.simps) (simp add: p Let_def)
qed

subsection \<open>The whole operations\<close>

lemma cq_poll_post:
  assumes "cq_poll poll_cq handler cq w = Some r"
    and inv: "vw_inv outs [] held w" and ok: "handler_ok outs handler" and "poll_cq_law outs poll_cq"
  shows "poll_post outs held handler 0 w r"
proof -
  obtain t w1 where d: "drain_ready handler w = (t, w1)" by fastforce
  then have t: "t = length (ready w)" by (metis add_0 drain_local_count drain_ready_def fst_conv)
  have "vw_inv outs [] held w1" using drain_ready_inv [OF inv ok] d by simp
  then have post: "poll_post outs held handler t w1 r"
    using assms d by (auto simp: cq_poll_def intro: poll_loop_post)
  moreover have "le (handled w) (handled w1)" if "handler_keeps handler le" for le
    using drain_ready_handled [OF inv ok that] d by simp
  moreover have "length (upcalls w1) = length (upcalls w) + t" if "handler_flat handler"
    using complete_each_count [OF vw_inv_take_ready [OF inv, of "ready w" "[]"] ok that] d t
      drain_local_each [of handler "ready w" 0 "w\<lparr>ready := []\<rparr>"]
    by (simp add: drain_ready_def)
  ultimately show ?thesis by (auto simp: poll_post_def intro: handler_keepsD(2))
qed

lemma cq_poll_returns:
  "poll_cq_law outs poll_cq \<Longrightarrow> handler_quiet outs handler \<Longrightarrow>
   \<exists>r. cq_poll poll_cq handler cq w = Some r"
  unfolding cq_poll_def by (cases "drain_ready handler w") (metis case_prod_conv poll_loop_returns)

lemma cq_poll_one_post:
  assumes inv: "vw_inv outs [] held w" and ok: "handler_ok outs handler"
    and law: "poll_cq_law outs poll_cq"
  shows "poll_post outs held handler 0 w (cq_poll_one poll_cq handler w)"
proof (cases "ready w")
  case (Cons p ps)
  let ?w = "w\<lparr>ready := ps\<rparr>"
  have taken: "vw_inv outs [] (p # held) ?w"
    using vw_inv_take_ready [OF inv, of "[p]" ps] Cons by simp
  have "handled ?w = handled w" by (simp add: handled_def pending_handlers_def)
  then show ?thesis
    using complete_at_inv [OF taken ok] complete_at_handled [OF taken, of handler]
      complete_at_count [OF taken] Cons
    by (auto simp: cq_poll_one_def pop_ready_def poll_post_def)
next
  case Nil
  obtain n wcs h' where p: "poll_cq (hw w) 1 = (n, wcs, h')" by (metis prod_cases3)
  note batch = poll_batch_inv [OF inv ok law p]
  show ?thesis
  proof (cases "n > 0")
    case True
    then have "nat n = 1" "length wcs = 1" using poll_cq_lawD(2,3) [OF law p] by auto
    then obtain wc where wc: "wcs = [wc]" by (auto simp: length_Suc_conv)
    have "poll_post outs held handler (0 + nat n)
        (fold (dispatch handler) (take (nat n) wcs) (w\<lparr>hw := h'\<rparr>))
        (1, no_error, dispatch handler wc (w\<lparr>hw := h'\<rparr>))"
      using batch(3) \<open>nat n = 1\<close> wc True handler_keepsD(1) [of handler] by (auto simp: poll_post_def)
    from poll_post_step [OF inv ok law p _ this] show ?thesis
      using True Nil p wc by (simp add: cq_poll_one_def pop_ready_def)
  next
    case False
    then have "vw_inv outs [] held (w\<lparr>hw := h'\<rparr>)"
      using batch(1,2) by (cases "n < 0") auto
    then show ?thesis
      using False Nil p
      by (auto simp: cq_poll_one_def pop_ready_def handled_def pending_handlers_def
          intro!: poll_post_exit)
  qed
qed

text \<open>The ready list is served first and in order, before any work completion.\<close>

lemma drain_local_idle:
  assumes "vw_inv outs batch (ps @ held) w"
  shows "upcalls (snd (drain_local (\<lambda>_ w. w) ps n w)) =
    upcalls w @ map (\<lambda>p. the (op_complete True (the (live_ops w p)))) ps"
  using assms
proof (induction ps arbitrary: n w)
  case (Cons p ps)
  obtain op where op: "live_ops w p = Some op" using held_live [of outs batch p "ps @ held" w] Cons by auto
  have "p \<notin># mset (ready w) + mset (scheduled w) + mset (ps @ held) + in_flight outs batch w"
    using mset_set_single [of "dom (live_ops w)" p] vw_invD(2,4) [OF Cons.prems] by simp
  then have "p \<notin> set ps" by simp
  let ?w = "complete_at (\<lambda>_ w. w) True p w"
  have "vw_inv outs batch (ps @ held) ?w" using complete_at_inv Cons.prems by force
  from Cons.IH [OF this, of "n + 1"] show ?case
    using \<open>p \<notin> set ps\<close> op complete_at_idle [OF op] by (auto cong: map_cong)
qed simp

subsection \<open>A concrete adapter\<close>

text \<open>
  An adapter that holds its work requests in a queue and completes them in order. It shows that the
  documented behaviour can be met.
\<close>

definition fifo_post_send :: "ptr list post_send_fn" where
  "fifo_post_send h qp wr = (0, h @ [swr_id wr])"

definition fifo_post_recv :: "ptr list post_recv_fn" where
  "fifo_post_recv h qp wr = (0, h @ [rwr_id wr])"

definition fifo_poll_cq :: "ptr list poll_cq_fn" where
  "fifo_poll_cq h k =
     (int (min k (length h)),
      map (\<lambda>p. \<lparr>wc_wr_id = p, wc_status = IBV_WC_SUCCESS, wc_opcode = IBV_WC_RECV, wc_byte_len = 8\<rparr>)
        (take k h),
      drop k h)"

lemma fifo_laws:
  "post_send_law mset fifo_post_send" "post_recv_law mset fifo_post_recv"
  "poll_cq_law mset fifo_poll_cq"
  by (simp_all add: post_send_law_def post_recv_law_def fifo_post_send_def fifo_post_recv_def)
    (simp add: poll_cq_law_def fifo_poll_cq_def comp_def image_mset.compositionality min.commute
      mset_take_drop)

definition example_world :: "ptr list vworld" where
  "example_world =
     \<lparr>hw = [4096],
      live_ops =
        [4096 \<mapsto> verbs_op_new post_recv no_error (Buffer_sequence []) no_remote 1,
         8192 \<mapsto> verbs_op_new post_send no_error (Buffer_sequence []) no_remote 2],
      ready = [8192], scheduled = [], upcalls = [], dangling = False\<rparr>"

lemma example_world_inv: "vw_inv mset [] [] example_world"
proof -
  have d: "dom (live_ops example_world) = {4096, 8192}" by (auto simp: example_world_def)
  have "live_ops example_world p = Some op \<Longrightarrow> \<not> is_error (op_ec op)" for p op
    by (auto simp: example_world_def split: if_splits)
  then have "\<forall>p op. live_ops example_world p = Some op \<longrightarrow> op_settled op \<and> \<not> is_error (op_ec op)"
    by (auto simp: op_settled_def)
  then show ?thesis
    unfolding vw_inv_def d by (auto simp: in_flight_def example_world_def)
qed

subsection \<open>Properties\<close>

text \<open>
  C4. A poll of the completion queue returns, and completes every handler exactly once: the returned
  count is the number of handlers invoked, no handler that was owed is lost, every operation still
  has exactly one owner and no freed operation is touched. The code is empty or \<open>EIO\<close>.
  Assumptions: the adapter reports each work request it held at most once; handlers call the library
  only (they keep the accounting), and leave no more work requests outstanding than they found.
\<close>

theorem cq_poll_exactly_once:
  assumes "vw_inv outs [] [] w" and "poll_cq_law outs poll_cq"
    and "handler_ok outs handler" and "handler_quiet outs handler" and "handler_flat handler"
    and "\<forall>u w. handled w \<subseteq># handled (handler u w)"
  shows "\<exists>n ec w'. cq_poll poll_cq handler cq w = Some (n, ec, w') \<and>
    length (upcalls w') = length (upcalls w) + n \<and> handled w \<subseteq># handled w' \<and>
    vw_inv outs [] [] w' \<and> (ec = no_error \<or> ec = make_system_error_code EIO)"
proof -
  obtain n ec w' where r: "cq_poll poll_cq handler cq w = Some (n, ec, w')"
    using cq_poll_returns [OF assms(2,4)] by (metis prod_cases3)
  show ?thesis
    using handler_keeps_inclusion [OF assms(6)] cq_poll_post [OF r assms(1,3,2)] assms(5) r by (auto simp: poll_post_def)
qed

definition example_cq :: ibv_completion_queue where
  "example_cq =
     \<lparr>cq_device = \<lparr>dev_context = 1, dev_pd = 2, dev_attr = undefined, dev_name = [],
        dev_v4_address = None, dev_v6_address = None\<rparr>,
      cq_effective_config = default_config, cq_wc_buf_size = 16, cq_handle = 3\<rparr>"

theorem cq_poll_exactly_once_witness:
  "vw_inv mset [] [] example_world \<and>
   (\<exists>n ec w'. cq_poll fifo_poll_cq (\<lambda>_ w. w) example_cq example_world = Some (n, ec, w') \<and>
     length (upcalls w') = length (upcalls example_world) + n \<and>
     handled example_world \<subseteq># handled w' \<and> vw_inv mset [] [] w' \<and>
     (ec = no_error \<or> ec = make_system_error_code EIO))"
  using cq_poll_exactly_once [OF example_world_inv fifo_laws(3) handler_ok_idle idle_handler]
    example_world_inv by simp

text \<open>
  One call of \<open>poll_one\<close> invokes exactly as many handlers as it returns, at most one, and keeps the
  accounting, whatever the handler does.
\<close>

theorem cq_poll_one_exact:
  assumes "vw_inv outs [] [] w" and "poll_cq_law outs poll_cq"
    and "handler_ok outs handler" and "handler_flat handler"
    and "cq_poll_one poll_cq handler w = (n, ec, w')"
  shows "n \<le> 1 \<and> length (upcalls w') = length (upcalls w) + n \<and> vw_inv outs [] [] w' \<and>
    (ready w \<noteq> [] \<longrightarrow> n = 1 \<and> ec = no_error)"
proof -
  have "n \<le> 1" and "ready w \<noteq> [] \<longrightarrow> n = 1 \<and> ec = no_error"
    using assms(5)
    by (auto simp: cq_poll_one_def pop_ready_def split: list.splits prod.splits if_splits)
  then show ?thesis
    using cq_poll_one_post [OF assms(1,3,2)] assms(4,5) by (simp add: poll_post_def)
qed

theorem cq_poll_one_exact_witness:
  "\<exists>ec w'. cq_poll_one fifo_poll_cq (\<lambda>_ w. w) example_world = (1, ec, w') \<and>
    length (upcalls w') = 1 \<and> vw_inv mset [] [] w'"
proof -
  obtain n ec w' where r: "cq_poll_one fifo_poll_cq (\<lambda>_ w. w) example_world = (n, ec, w')"
    by (metis prod_cases3)
  show ?thesis
    using cq_poll_one_exact [OF example_world_inv fifo_laws(3) handler_ok_idle idle_handler(2) r] r
    by (simp add: example_world_def)
qed

text \<open>
  The ready list (empty requests and requests that failed to post) is served first, in the order
  the operations were queued, before any work completion, by handlers that see their own code.
\<close>

theorem drain_ready_fifo:
  assumes "vw_inv outs [] [] w" and "drain_ready (\<lambda>_ w. w) w = (n, w')"
  shows "n = length (ready w) \<and> ready w' = [] \<and>
    map up_handler (upcalls w') =
      map up_handler (upcalls w) @ map (\<lambda>p. op_handler (the (live_ops w p))) (ready w) \<and>
    map up_ec (upcalls w') =
      map up_ec (upcalls w) @ map (\<lambda>p. op_ec (the (live_ops w p))) (ready w)"
proof -
  let ?w = "w\<lparr>ready := []\<rparr>"
  have inv: "vw_inv outs [] (ready w @ []) ?w"
    using vw_inv_take_ready [OF assms(1), of "ready w" "[]"] by simp
  have up: "up_handler (the (op_complete True op)) = op_handler op"
    "up_ec (the (op_complete True op)) = op_ec op" for op
    using op_complete_owner [of op] op_complete_upcall(1,2) by fastforce+
  have "ready (snd (drain_local (\<lambda>_ w. w) ps m x)) = ready x" for ps m and x :: "'a vworld"
    by (induction ps arbitrary: m x)
      (simp_all add: complete_at_def Let_def split: option.split)
  from this [of "ready w" 0 ?w] show ?thesis
    using assms(2) drain_local_idle [OF inv, of 0] drain_local_count [of "\<lambda>_ w. w" "ready w" 0 ?w]
    by (simp add: drain_ready_def up)
qed

theorem drain_ready_fifo_witness:
  "\<exists>n w'. drain_ready (\<lambda>_ w. w) example_world = (n, w') \<and> map up_handler (upcalls w') = [2]"
proof -
  obtain n w' where r: "drain_ready (\<lambda>_ w. w) example_world = (n, w')" by fastforce
  show ?thesis using drain_ready_fifo [OF example_world_inv r] r by (simp add: example_world_def)
qed

end
