(* ===== verification/IBV_IO_Completion.thy ===== *)
theory IBV_IO_Completion
  imports IBV_Completion_Queue
begin

text \<open>
  The event-mode completion service of an \<open>io_context\<close>:
  \<open>ibv/detail/ibv_service_io_completion.hpp\<close> and \<open>impl/ibv_service_io_completion.ipp\<close>.

  The service owns one completion queue and its channel, and one \<open>poller\<close> operation that drains the
  queue and re-arms itself for ever. asio's reactor and scheduler are outside the sources; the state
  records where they hold the poller: in the reactor's queue for the channel's descriptor
  (\<open>Poller_waiting\<close>), or queued in the scheduler (\<open>Poller_posted\<close>).

  The calls on the adapter and on asio's reactor are the fields of \<open>notify_api\<close>, a parameter. The second
  half of the theory states what is documented of them as \<open>wakeup_law\<close>: completions may arrive during every single
  call, and every call may fail. It shows that no wakeup is lost as long as none of the calls fails.
\<close>

subsection \<open>State\<close>

datatype poller_phase = Poller_idle | Poller_waiting | Poller_posted

record io_service =
  io_cq :: ptr
  io_comp_channel :: ptr
  io_registered :: bool
  io_poll_batch :: nat
  io_poller_started :: bool
  io_phase :: poller_phase
  io_completed :: "ptr list"
  io_released :: "ptr list"
  io_fault :: bool

definition io_service_new :: io_service where
  "io_service_new =
     \<lparr>io_cq = nullptr, io_comp_channel = nullptr, io_registered = False, io_poll_batch = 16,
      io_poller_started = False, io_phase = Poller_idle, io_completed = [], io_released = [],
      io_fault = False\<rparr>"

text \<open>Resetting a \<open>unique_ptr\<close> releases what it owned.\<close>

definition reset_cq :: "io_service \<Rightarrow> io_service" where
  "reset_cq s =
     (if io_cq s = nullptr then s
      else s\<lparr>io_cq := nullptr, io_released := io_released s @ [io_cq s]\<rparr>)"

definition reset_comp_channel :: "io_service \<Rightarrow> io_service" where
  "reset_comp_channel s =
     (if io_comp_channel s = nullptr then s
      else s\<lparr>io_comp_channel := nullptr, io_released := io_released s @ [io_comp_channel s]\<rparr>)"

subsection \<open>Set-up and shutdown\<close>

text \<open>
  The calls of the set-up: \<open>ibv_create_comp_channel\<close>, the two \<open>fcntl\<close> calls (whether one failed, and
  the \<open>errno\<close>), \<open>ibv_create_cq\<close> and the reactor's \<open>register_descriptor\<close>.
\<close>

record io_setup_api =
  setup_comp_channel :: "ptr \<Rightarrow> ptr \<times> int"
  setup_nonblock :: "ptr \<Rightarrow> bool \<times> int"
  setup_cq :: create_cq_fn
  setup_register :: "ptr \<Rightarrow> int"

text \<open>\<open>create_comp_channel\<close>: the channel, the code, and what was destroyed on the way.\<close>

definition create_comp_channel :: "io_setup_api \<Rightarrow> ptr \<Rightarrow> ptr \<times> error_code \<times> ptr list" where
  "create_comp_channel api context =
     (case setup_comp_channel api context of (channel, errno) \<Rightarrow>
        if channel = nullptr then (nullptr, last_system_error errno, [])
        else case setup_nonblock api channel of (failed, errno) \<Rightarrow>
          if failed then (nullptr, last_system_error errno, [channel])
          else (channel, no_error, []))"

definition io_initialize ::
  "io_setup_api \<Rightarrow> ibv_device_t option \<Rightarrow> u32 \<Rightarrow> u32 \<Rightarrow> io_service \<Rightarrow> error_code \<times> io_service" where
  "io_initialize api device depth batch s =
     (if io_cq s \<noteq> nullptr then (make_error_code already_registered, s)
      else if \<not> is_valid_device device then (make_error_code invalid_device, s)
      else let context = dev_context (the device) in
        case create_comp_channel api context of (channel, ec, gone) \<Rightarrow>
        let s1 = (reset_comp_channel s)\<lparr>io_comp_channel := channel\<rparr>;
            s1 = s1\<lparr>io_released := io_released s1 @ gone\<rparr>
        in if is_error ec then (ec, s1)
        else case verbs_create_cq (setup_cq api) context depth channel of (cq, ec) \<Rightarrow>
        let s2 = s1\<lparr>io_cq := cq\<rparr>
        in if is_error ec then (ec, reset_comp_channel s2)
        else if channel = nullptr then (ec, s2\<lparr>io_fault := True\<rparr>)
        else let err = setup_register api channel in
          if err \<noteq> 0 then (make_system_error_code err, reset_comp_channel (reset_cq s2))
          else (no_error,
                s2\<lparr>io_registered := True,
                   io_poll_batch := (if batch \<noteq> 0 then unat batch else 16)\<rparr>))"

text \<open>
  Deregistering the descriptor hands a waiting poller to the scheduler, which completes it without
  an owner.
\<close>

definition io_shutdown :: "io_service \<Rightarrow> io_service" where
  "io_shutdown s =
     (let s1 = (if io_comp_channel s \<noteq> nullptr
                then s\<lparr>io_registered := False,
                       io_phase := (if io_phase s = Poller_waiting then Poller_posted else io_phase s)\<rparr>
                else s)
      in reset_comp_channel (reset_cq s1))"

subsection \<open>The poller\<close>

text \<open>
  \<open>ibv_get_cq_event\<close> (whether it returned an event), \<open>ibv_req_notify_cq\<close> (0 or an error number),
  \<open>ibv_poll_cq\<close>, and the reactor's \<open>start_op\<close> on the channel's descriptor. The poller ignores the result of
  \<open>req_notify_cq\<close>.
\<close>

record 'h notify_api =
  nf_get_event :: "'h \<Rightarrow> bool \<times> 'h"
  nf_req_notify :: "'h \<Rightarrow> int \<times> 'h"
  nf_poll_cq :: "'h poll_cq_fn"
  nf_start_op :: "'h \<Rightarrow> 'h"

fun resolve_into :: "native_wc list \<Rightarrow> ptr list \<times> 'h vworld \<Rightarrow> ptr list \<times> 'h vworld" where
  "resolve_into [] (out, w) = (out, w)"
| "resolve_into (wc # wcs) (out, w) =
     (case resolve_verbs_op wc w of
        (None, w') \<Rightarrow> resolve_into wcs (out, w')
      | (Some p, w') \<Rightarrow> resolve_into wcs (out @ [p], w'))"

text \<open>The loop of \<open>poll_into\<close> with the number of batches still allowed.\<close>

fun poll_batches ::
  "'h poll_cq_fn \<Rightarrow> nat \<Rightarrow> nat \<Rightarrow> ptr list \<Rightarrow> 'h vworld \<Rightarrow> ptr list \<times> 'h vworld" where
  "poll_batches poll_cq wcsize 0 out w = (out, w)"
| "poll_batches poll_cq wcsize (Suc left) out w =
     (case poll_cq (hw w) wcsize of (n, wcs, h') \<Rightarrow>
        case resolve_into (take (nat n) wcs) (out, w\<lparr>hw := h'\<rparr>) of (out', w') \<Rightarrow>
          if n = int wcsize \<and> 0 < left then poll_batches poll_cq wcsize left out' w'
          else (out', w'))"

abbreviation (input) max_batches_per_turn :: nat where
  "max_batches_per_turn \<equiv> 4"

definition poll_into ::
  "'h poll_cq_fn \<Rightarrow> io_service \<Rightarrow> ptr list \<Rightarrow> 'h vworld \<Rightarrow> ptr list \<times> 'h vworld" where
  "poll_into poll_cq s out w = poll_batches poll_cq (io_poll_batch s) max_batches_per_turn out w"

text \<open>\<open>ibv_poll_wc_op::do_perform\<close>: \<open>True\<close> is \<open>done\<close>.\<close>

definition poller_do_perform ::
  "'h notify_api \<Rightarrow> io_service \<Rightarrow> 'h vworld \<Rightarrow> bool \<times> io_service \<times> 'h vworld" where
  "poller_do_perform api s w =
     (case nf_get_event api (hw w) of (event, h1) \<Rightarrow>
        let h2 = (if event then snd (nf_req_notify api h1) else h1)
        in case poll_into (nf_poll_cq api) s (io_completed s) (w\<lparr>hw := h2\<rparr>) of
          (out, w') \<Rightarrow> (out \<noteq> [], s\<lparr>io_completed := out\<rparr>, w'))"

definition arm_poller ::
  "'h notify_api \<Rightarrow> io_service \<Rightarrow> 'h vworld \<Rightarrow> io_service \<times> 'h vworld" where
  "arm_poller api s w =
     (case poll_into (nf_poll_cq api) s (io_completed s) (w\<lparr>hw := snd (nf_req_notify api (hw w))\<rparr>) of
        (out, w') \<Rightarrow>
          if out \<noteq> [] then (s\<lparr>io_completed := out, io_phase := Poller_posted\<rparr>, w')
          else (s\<lparr>io_completed := out, io_phase := Poller_waiting\<rparr>,
                w'\<lparr>hw := nf_start_op api (hw w')\<rparr>))"

definition ensure_poller_started ::
  "'h notify_api \<Rightarrow> io_service \<Rightarrow> 'h vworld \<Rightarrow> io_service \<times> 'h vworld" where
  "ensure_poller_started api s w =
     (if io_poller_started s then (s, w)
      else arm_poller api (s\<lparr>io_poller_started := True\<rparr>) w)"

definition on_poll_complete ::
  "'h notify_api \<Rightarrow> 'h handler_fn \<Rightarrow> bool \<Rightarrow> io_service \<Rightarrow> 'h vworld \<Rightarrow> io_service \<times> 'h vworld" where
  "on_poll_complete api handler owner s w =
     (let w' = fold (\<lambda>p. if owner then complete_at handler True p else destroy_at p)
                 (io_completed s) w;
          s' = s\<lparr>io_completed := [], io_phase := Poller_idle\<rparr>
      in if owner then arm_poller api s' w' else (s', w'))"

subsection \<open>Set-up is all or nothing\<close>

text \<open>A call that fails leaves an error number, as POSIX and the verbs library document.\<close>

definition setup_sets_errno :: "io_setup_api \<Rightarrow> bool" where
  "setup_sets_errno api \<longleftrightarrow>
     (\<forall>c. fst (setup_comp_channel api c) = nullptr \<longrightarrow> snd (setup_comp_channel api c) \<noteq> 0) \<and>
     (\<forall>c. fst (setup_nonblock api c) \<longrightarrow> snd (setup_nonblock api c) \<noteq> 0) \<and>
     (\<forall>c k ch. fst (setup_cq api c k ch) = nullptr \<longrightarrow> snd (setup_cq api c k ch) \<noteq> 0)"

lemma verbs_create_cq_cases:
  assumes "verbs_create_cq f c k ch = (cq, ec)"
    and "\<And>c k ch. fst (f c k ch) = nullptr \<Longrightarrow> snd (f c k ch) \<noteq> 0"
  shows "if is_error ec then cq = nullptr else cq \<noteq> nullptr \<and> ec = no_error"
  using assms(1) assms(2) [of c k ch]
  by (auto simp: verbs_create_cq_def split: prod.splits if_splits)

lemma create_comp_channel_cases:
  assumes "create_comp_channel api c = (ch, ec, gone)" and "setup_sets_errno api"
  shows "if is_error ec
    then ch = nullptr \<and> set gone = {fst (setup_comp_channel api c)} - {nullptr}
    else ch \<noteq> nullptr \<and> ch = fst (setup_comp_channel api c) \<and> gone = [] \<and> ec = no_error"
  using assms
  by (auto simp: create_comp_channel_def setup_sets_errno_def split: prod.splits if_splits)
    (metis fst_conv snd_conv)+

text \<open>
  The outcome of a set-up: on failure everything created is released again and nothing is kept; on
  success the queue, the channel and the registration are all there.
\<close>

definition init_outcome ::
  "ptr \<Rightarrow> ptr \<Rightarrow> io_service \<Rightarrow> error_code \<Rightarrow> io_service \<Rightarrow> bool" where
  "init_outcome ch cq s ec s' \<longleftrightarrow>
     io_fault s' = io_fault s \<and>
     (if is_error ec
      then io_cq s' = nullptr \<and> io_comp_channel s' = nullptr \<and>
        io_registered s' = io_registered s \<and>
        (\<exists>gone. io_released s' = io_released s @ gone \<and> set gone \<subseteq> {ch, cq} \<and>
           (ch \<noteq> nullptr \<longrightarrow> ch \<in> set gone))
      else io_cq s' = cq \<and> cq \<noteq> nullptr \<and> io_comp_channel s' = ch \<and> ch \<noteq> nullptr \<and>
        io_registered s' \<and> 0 < io_poll_batch s' \<and> io_released s' = io_released s)"

lemma io_initialize_outcome:
  assumes ini: "io_initialize api (Some d) depth batch s = (ec, s')"
    and dev: "dev_context d \<noteq> nullptr" and s: "io_cq s = nullptr" "io_comp_channel s = nullptr"
    and errno: "setup_sets_errno api"
    and ch0: "ch0 = fst (setup_comp_channel api (dev_context d))"
    and cq0: "cq0 = fst (setup_cq api (dev_context d) depth ch0)"
  shows "init_outcome ch0 cq0 s ec s'"
proof -
  obtain ch ec1 gone where c: "create_comp_channel api (dev_context d) = (ch, ec1, gone)"
    by (metis prod_cases3)
  obtain cq ec2 where q: "verbs_create_cq (setup_cq api) (dev_context d) depth ch = (cq, ec2)"
    by fastforce
  have errno_q: "\<And>c k ch. fst (setup_cq api c k ch) = nullptr \<Longrightarrow> snd (setup_cq api c k ch) \<noteq> 0"
    using errno by (simp add: setup_sets_errno_def)
  note cc = create_comp_channel_cases [OF c errno] and qc = verbs_create_cq_cases [OF q errno_q]
  have cq: "cq = fst (setup_cq api (dev_context d) depth ch)" if "cq \<noteq> nullptr"
    using q that by (simp add: verbs_create_cq_def split: prod.splits if_splits)
  have batch: "0 < (if batch \<noteq> 0 then unat batch else 16)" by (simp add: unat_gt_0)
  note run = io_initialize_def is_valid_device_def reset_comp_channel_def reset_cq_def Let_def
  show ?thesis
  proof (cases "is_error ec1")
    case True
    then have "ec = ec1" "s' = s\<lparr>io_comp_channel := nullptr, io_released := io_released s @ gone\<rparr>"
      using ini dev s c cc by (simp_all add: run)
    moreover have "set gone = {ch0} - {nullptr}" using cc True ch0 by simp
    ultimately show ?thesis using True s by (auto simp: init_outcome_def)
  next
    case f1: False
    then have ch: "ch \<noteq> nullptr" "ch = ch0" "gone = []" using cc ch0 by auto
    show ?thesis
    proof (cases "is_error ec2")
      case True
      then have "ec = ec2" "s' = s\<lparr>io_cq := nullptr, io_comp_channel := nullptr,
          io_released := io_released s @ [ch0]\<rparr>"
        using ini dev s c q f1 ch qc by (simp_all add: run)
      then show ?thesis using True by (simp add: init_outcome_def)
    next
      case f2: False
      then have cq': "cq \<noteq> nullptr" "cq = cq0" using qc cq cq0 ch by auto
      show ?thesis
      proof (cases "setup_register api ch = 0")
        case True
        then have "ec = no_error" "s' = s\<lparr>io_comp_channel := ch0, io_cq := cq0, io_registered := True,
            io_poll_batch := (if batch \<noteq> 0 then unat batch else 16)\<rparr>"
          using ini dev s c q f1 f2 ch cq' by (simp_all add: run)
        then show ?thesis using ch cq' batch by (simp add: init_outcome_def)
      next
        case False
        then have "is_error ec" "s' = s\<lparr>io_cq := nullptr, io_comp_channel := nullptr,
            io_released := io_released s @ [cq0, ch0]\<rparr>"
          using ini dev s c q f1 f2 ch cq' by (auto simp: run)
        then show ?thesis by (simp add: init_outcome_def)
      qed
    qed
  qed
qed

subsection \<open>The accounting is kept\<close>

text \<open>The notification calls do not touch the work requests.\<close>

definition notify_law :: "('h \<Rightarrow> ptr multiset) \<Rightarrow> 'h notify_api \<Rightarrow> bool" where
  "notify_law outs api \<longleftrightarrow>
     (\<forall>h. outs (snd (nf_get_event api h)) = outs h) \<and> (\<forall>h. outs (snd (nf_req_notify api h)) = outs h) \<and>
     (\<forall>h. outs (nf_start_op api h) = outs h) \<and> poll_cq_law outs (nf_poll_cq api)"

lemma resolve_into_list: "resolve_into wcs (out, w) = resolve_list resolve_verbs_op wcs (out, w)"
  by (induction wcs arbitrary: out w) (simp_all split: prod.split option.split)

lemmas resolve_into_inv = ibv_wc.resolve_list_inv [folded resolve_into_list]

lemma poll_batches_inv:
  assumes "vw_inv outs [] (out @ held) w" and "poll_cq_law outs poll_cq"
    and "poll_batches poll_cq k left out w = (out', w')"
  shows "vw_inv outs [] (out' @ held) w' \<and> handled w' = handled w \<and>
    length out' \<le> length out + left * k"
  using assms(1,3)
proof (induction left arbitrary: out w)
  case (Suc left)
  obtain n wcs h' where p: "poll_cq (hw w) k = (n, wcs, h')" by (metis prod_cases3)
  obtain out1 w1 where r: "resolve_into (take (nat n) wcs) (out, w\<lparr>hw := h'\<rparr>) = (out1, w1)"
    by fastforce
  note law = poll_cq_lawD [OF assms(2) p]
  have "vw_inv outs (map wc_wr_id (take (nat n) wcs) @ []) (out @ held) (w\<lparr>hw := h'\<rparr>)"
  proof (cases "n < 0")
    case True
    then show ?thesis using law(1) vw_inv_hw [OF Suc.prems(1), of "[]" h'] by simp
  next
    case False
    then show ?thesis
      using law(3,4) vw_inv_hw [OF Suc.prems(1), of "map wc_wr_id wcs" h'] by simp
  qed
  note res = resolve_into_inv [OF this r]
  have len: "length out1 \<le> length out + k" using res law(2) by (cases "n < 0") auto
  have "handled (w\<lparr>hw := h'\<rparr>) = handled w" by (simp add: handled_def pending_handlers_def)
  with res have h1: "handled w1 = handled w" by simp
  show ?case
  proof (cases "n = int k \<and> 0 < left")
    case True
    then have "poll_batches poll_cq k left out1 w1 = (out', w')" using Suc.prems(2) p r by simp
    from Suc.IH [OF conjunct1 [OF res] this] h1 len show ?thesis by auto
  next
    case False
    then have "out' = out1" "w' = w1" using Suc.prems(2) p r by auto
    with res h1 len show ?thesis by auto
  qed
qed simp

lemma poll_into_inv:
  assumes "vw_inv outs [] (out @ held) w" and "poll_cq_law outs poll_cq"
    and "poll_into poll_cq s out w = (out', w')"
  shows "vw_inv outs [] (out' @ held) w' \<and> handled w' = handled w \<and>
    length out' \<le> length out + 4 * io_poll_batch s"
  using poll_batches_inv [OF assms(1,2), of "io_poll_batch s" max_batches_per_turn] assms(3)
  by (simp add: poll_into_def)

lemma vw_inv_hw_same:
  assumes "vw_inv outs [] held w" and "outs h' = outs (hw w)"
  shows "vw_inv outs [] held (w\<lparr>hw := h'\<rparr>)"
  using vw_inv_hw [OF assms(1), of "[]" h'] assms(2) by simp

lemma arm_poller_inv:
  assumes inv: "vw_inv outs [] (io_completed s) w" and law: "notify_law outs api"
    and r: "arm_poller api s w = (s', w')"
  shows "vw_inv outs [] (io_completed s') w' \<and> handled w' = handled w \<and>
    length (io_completed s') \<le> length (io_completed s) + 4 * io_poll_batch s"
proof -
  let ?w = "w\<lparr>hw := snd (nf_req_notify api (hw w))\<rparr>"
  obtain out w1 where p: "poll_into (nf_poll_cq api) s (io_completed s) ?w = (out, w1)" by fastforce
  have "vw_inv outs [] (io_completed s @ []) ?w"
    using vw_inv_hw_same [OF inv] law by (simp add: notify_law_def)
  moreover have "poll_cq_law outs (nf_poll_cq api)" using law by (simp add: notify_law_def)
  ultimately have q: "vw_inv outs [] out w1" "handled w1 = handled ?w"
    "length out \<le> length (io_completed s) + 4 * io_poll_batch s"
    using poll_into_inv [OF _ _ p, of outs "[]"] by simp_all
  have h: "handled (x\<lparr>hw := h\<rparr>) = handled x" for x :: "'a vworld" and h
    by (simp add: handled_def pending_handlers_def)
  show ?thesis
    using r p q vw_inv_hw_same [OF q(1), of "nf_start_op api (hw w1)"] law
    by (auto simp: arm_poller_def h notify_law_def split: if_splits)
qed

lemma poller_do_perform_inv:
  assumes inv: "vw_inv outs [] (io_completed s) w" and law: "notify_law outs api"
    and r: "poller_do_perform api s w = (fin, s', w')"
  shows "vw_inv outs [] (io_completed s') w' \<and> handled w' = handled w \<and>
    (fin \<longleftrightarrow> io_completed s' \<noteq> []) \<and>
    length (io_completed s') \<le> length (io_completed s) + 4 * io_poll_batch s"
proof -
  obtain e h1 where g: "nf_get_event api (hw w) = (e, h1)" by fastforce
  let ?h2 = "if e then snd (nf_req_notify api h1) else h1"
  obtain out w1 where p: "poll_into (nf_poll_cq api) s (io_completed s) (w\<lparr>hw := ?h2\<rparr>) = (out, w1)"
    by fastforce
  have "outs h1 = outs (hw w)" using law g by (metis notify_law_def snd_conv)
  then have "outs ?h2 = outs (hw w)" using law by (simp add: notify_law_def)
  then have "vw_inv outs [] (io_completed s @ []) (w\<lparr>hw := ?h2\<rparr>)"
    using vw_inv_hw_same [OF inv] by simp
  moreover have "poll_cq_law outs (nf_poll_cq api)" using law by (simp add: notify_law_def)
  ultimately have q: "vw_inv outs [] out w1" "handled w1 = handled (w\<lparr>hw := ?h2\<rparr>)"
    "length out \<le> length (io_completed s) + 4 * io_poll_batch s"
    using poll_into_inv [OF _ _ p, of outs "[]"] by simp_all
  show ?thesis
    using r p q g by (auto simp: poller_do_perform_def handled_def pending_handlers_def Let_def)
qed

lemma complete_all_inv:
  assumes "vw_inv outs batch (ps @ held) w" and "handler_ok outs handler"
  shows "vw_inv outs batch held
    (fold (\<lambda>p. if owner then complete_at handler True p else destroy_at p) ps w)"
  using assms(1)
  by (induction ps arbitrary: w) (simp_all add: complete_at_inv [OF _ assms(2)] destroy_at_inv)

lemma on_poll_complete_inv:
  assumes inv: "vw_inv outs [] (io_completed s) w" and law: "notify_law outs api"
    and ok: "handler_ok outs handler" and r: "on_poll_complete api handler owner s w = (s', w')"
  shows "vw_inv outs [] (io_completed s') w'"
proof -
  let ?w = "fold (\<lambda>p. if owner then complete_at handler True p else destroy_at p) (io_completed s) w"
  have "vw_inv outs [] [] ?w"
    using complete_all_inv [of outs "[]" "io_completed s" "[]" w handler owner] inv ok by simp
  with r law show ?thesis
    by (auto simp: on_poll_complete_def Let_def split: if_splits dest!: arm_poller_inv [rotated 2])
qed

subsection \<open>Documented behaviour of completion notification\<close>

text \<open>
  What can be observed of the adapter and the reactor: the completions queued, whether a notification was
  requested and not used yet, the unread events of the channel, whether the reactor holds an operation for the
  descriptor, whether it is going to perform it, and whether a call has failed.
\<close>

record 'h notify_view =
  nv_entries :: "'h \<Rightarrow> native_wc list"
  nv_armed :: "'h \<Rightarrow> bool"
  nv_events :: "'h \<Rightarrow> nat"
  nv_waiting :: "'h \<Rightarrow> bool"
  nv_ready :: "'h \<Rightarrow> bool"
  nv_failed :: "'h \<Rightarrow> bool"

text \<open>Work completions carry the operation's address, which is not null.\<close>

definition wcs_ok :: "native_wc list \<Rightarrow> bool" where
  "wcs_ok wcs \<longleftrightarrow> (\<forall>wc\<in>set wcs. wc_wr_id wc \<noteq> nullptr)"

text \<open>
  What happens on its own: completions are queued; if a notification was requested they use it up and put an event on
  the channel, and an operation that waits for the descriptor will be performed (\<open>ibv_req_notify_cq(3)\<close>,
  \<open>ibv_get_cq_event(3)\<close>, and the contract of a reactor's read operation).
\<close>

definition keeps_waiting :: "'h notify_view \<Rightarrow> 'h \<Rightarrow> 'h \<Rightarrow> bool" where
  "keeps_waiting v h h' \<longleftrightarrow>
     nv_waiting v h' = nv_waiting v h \<and> (nv_waiting v h \<and> nv_ready v h \<longrightarrow> nv_ready v h') \<and>
     (nv_failed v h \<longrightarrow> nv_failed v h')"

definition arrivals :: "'h notify_view \<Rightarrow> 'h \<Rightarrow> 'h \<Rightarrow> bool" where
  "arrivals v h h' \<longleftrightarrow>
     keeps_waiting v h h' \<and>
     (\<exists>new. wcs_ok new \<and> nv_entries v h' = nv_entries v h @ new \<and>
        (if nv_armed v h \<and> new \<noteq> []
         then \<not> nv_armed v h' \<and> nv_events v h' = Suc (nv_events v h) \<and> (nv_waiting v h \<longrightarrow> nv_ready v h')
         else nv_armed v h' = nv_armed v h \<and> nv_events v h' = nv_events v h))"

text \<open>
  Each call is arrivals and then its effect at one instant \<open>h0\<close>. \<open>ibv_get_cq_event\<close> on a non-blocking channel takes
  an unread event or reports that there is none; \<open>ibv_req_notify_cq\<close> requests a notification for the
  completions still to come; \<open>ibv_poll_cq\<close> takes the first \<open>k\<close> completions, or all when there are fewer;
  an operation started on a readable descriptor is performed. A call that fails has no other effect.
\<close>

definition get_event_law :: "'h notify_view \<Rightarrow> 'h notify_api \<Rightarrow> bool" where
  "get_event_law v api \<longleftrightarrow>
     (\<forall>h b h'. nf_get_event api h = (b, h') \<longrightarrow>
        (\<exists>h0. arrivals v h h0 \<and> keeps_waiting v h0 h' \<and> nv_entries v h' = nv_entries v h0 \<and> nv_armed v h' = nv_armed v h0 \<and>
           (if b then nv_events v h0 = Suc (nv_events v h')
            else nv_events v h' = nv_events v h0 \<and> (0 < nv_events v h0 \<longrightarrow> nv_failed v h'))))"

definition req_notify_law :: "'h notify_view \<Rightarrow> 'h notify_api \<Rightarrow> bool" where
  "req_notify_law v api \<longleftrightarrow>
     (\<forall>h rc h'. nf_req_notify api h = (rc, h') \<longrightarrow>
        (\<exists>h0. arrivals v h h0 \<and> keeps_waiting v h0 h' \<and> nv_entries v h' = nv_entries v h0 \<and> nv_events v h' = nv_events v h0 \<and>
           (if rc = 0 then nv_armed v h' else nv_armed v h' = nv_armed v h0 \<and> nv_failed v h')))"

definition poll_queue_law :: "'h notify_view \<Rightarrow> 'h notify_api \<Rightarrow> bool" where
  "poll_queue_law v api \<longleftrightarrow>
     (\<forall>h k n wcs h'. nf_poll_cq api h k = (n, wcs, h') \<longrightarrow>
        (\<exists>h0. arrivals v h h0 \<and> keeps_waiting v h0 h' \<and> nv_armed v h' = nv_armed v h0 \<and> nv_events v h' = nv_events v h0 \<and>
           (if n < 0 then nv_entries v h' = nv_entries v h0 \<and> nv_failed v h'
            else n = int (min k (length (nv_entries v h0))) \<and> wcs = take k (nv_entries v h0) \<and>
              nv_entries v h' = drop k (nv_entries v h0))))"

definition start_op_law :: "'h notify_view \<Rightarrow> 'h notify_api \<Rightarrow> bool" where
  "start_op_law v api \<longleftrightarrow>
     (\<forall>h. \<exists>h0. arrivals v h h0 \<and> nv_entries v (nf_start_op api h) = nv_entries v h0 \<and>
        nv_armed v (nf_start_op api h) = nv_armed v h0 \<and> nv_events v (nf_start_op api h) = nv_events v h0 \<and>
        nv_waiting v (nf_start_op api h) \<and> (0 < nv_events v h0 \<longrightarrow> nv_ready v (nf_start_op api h)) \<and>
        (nv_failed v h0 \<longrightarrow> nv_failed v (nf_start_op api h)))"

definition wakeup_law :: "'h notify_view \<Rightarrow> 'h notify_api \<Rightarrow> bool" where
  "wakeup_law v api \<longleftrightarrow> get_event_law v api \<and> req_notify_law v api \<and> poll_queue_law v api \<and> start_op_law v api"

subsection \<open>No lost wakeup\<close>

text \<open>
  \<open>notified\<close>: the next arrival raises an event, or an unread event is there. \<open>watched\<close>: moreover the
  event will be reported to a waiting operation. \<open>awake\<close>: the poller can sleep (nothing is queued and an arrival will
  wake it), or the reactor is about to run it.
\<close>

definition notified :: "'h notify_view \<Rightarrow> 'h \<Rightarrow> bool" where
  "notified v h \<longleftrightarrow> nv_armed v h \<or> 0 < nv_events v h"

definition watched :: "'h notify_view \<Rightarrow> 'h \<Rightarrow> bool" where
  "watched v h \<longleftrightarrow> nv_armed v h \<or> 0 < nv_events v h \<and> (nv_waiting v h \<longrightarrow> nv_ready v h)"

definition awake :: "'h notify_view \<Rightarrow> 'h \<Rightarrow> bool" where
  "awake v h \<longleftrightarrow> nv_entries v h = [] \<and> nv_armed v h \<or> nv_ready v h"

lemma watched_notified: "watched v h \<Longrightarrow> notified v h"
  by (auto simp: watched_def notified_def)

lemma watched_awake: "watched v h \<Longrightarrow> nv_entries v h = [] \<Longrightarrow> nv_waiting v h \<Longrightarrow> awake v h"
  by (auto simp: watched_def awake_def)

lemma arrivals_keeps:
  assumes "arrivals v h h'"
  shows "wcs_ok (nv_entries v h) \<Longrightarrow> wcs_ok (nv_entries v h')" "notified v h \<Longrightarrow> notified v h'"
    "watched v h \<Longrightarrow> watched v h'" "nv_waiting v h \<Longrightarrow> awake v h \<Longrightarrow> awake v h'"
    "nv_waiting v h' = nv_waiting v h" "nv_failed v h \<Longrightarrow> nv_failed v h'"
    "nv_entries v h \<noteq> [] \<Longrightarrow> nv_entries v h' \<noteq> []"
    "nv_armed v h' \<Longrightarrow> nv_entries v h' = nv_entries v h"
proof -
  obtain new where n: "wcs_ok new" "nv_entries v h' = nv_entries v h @ new"
    "if nv_armed v h \<and> new \<noteq> []
     then \<not> nv_armed v h' \<and> nv_events v h' = Suc (nv_events v h) \<and> (nv_waiting v h \<longrightarrow> nv_ready v h')
     else nv_armed v h' = nv_armed v h \<and> nv_events v h' = nv_events v h"
    and k: "keeps_waiting v h h'"
    using assms unfolding arrivals_def by blast
  show "wcs_ok (nv_entries v h) \<Longrightarrow> wcs_ok (nv_entries v h')" using n by (auto simp: wcs_ok_def)
  show "notified v h \<Longrightarrow> notified v h'" using n(3) by (auto simp: notified_def split: if_splits)
  show "watched v h \<Longrightarrow> watched v h'" using n(3) k by (auto simp: watched_def keeps_waiting_def split: if_splits)
  show "nv_waiting v h \<Longrightarrow> awake v h \<Longrightarrow> awake v h'"
    using n(2,3) k by (auto simp: awake_def keeps_waiting_def split: if_splits)
  show "nv_waiting v h' = nv_waiting v h" "nv_failed v h \<Longrightarrow> nv_failed v h'" using k by (auto simp: keeps_waiting_def)
  show "nv_entries v h \<noteq> [] \<Longrightarrow> nv_entries v h' \<noteq> []" using n(2) by simp
  show "nv_armed v h' \<Longrightarrow> nv_entries v h' = nv_entries v h" using n(2,3) by (auto split: if_splits)
qed

text \<open>One call at a time.\<close>

lemma get_event_step:
  assumes law: "wakeup_law v api" and r: "nf_get_event api h = (b, h')"
  shows "wcs_ok (nv_entries v h) \<Longrightarrow> wcs_ok (nv_entries v h')" "nv_waiting v h' = nv_waiting v h"
    "nv_failed v h \<Longrightarrow> nv_failed v h'" "nv_entries v h \<noteq> [] \<Longrightarrow> nv_entries v h' \<noteq> []"
    "notified v h \<Longrightarrow> \<not> b \<Longrightarrow> \<not> nv_failed v h' \<Longrightarrow> watched v h'"
proof -
  obtain h0 where a: "arrivals v h h0" and k: "keeps_waiting v h0 h'"
    and e: "nv_entries v h' = nv_entries v h0" "nv_armed v h' = nv_armed v h0"
      "if b then nv_events v h0 = Suc (nv_events v h')
       else nv_events v h' = nv_events v h0 \<and> (0 < nv_events v h0 \<longrightarrow> nv_failed v h')"
    using law r unfolding wakeup_law_def get_event_law_def by blast
  note A = arrivals_keeps [OF a]
  show "wcs_ok (nv_entries v h) \<Longrightarrow> wcs_ok (nv_entries v h')" "nv_waiting v h' = nv_waiting v h"
    "nv_failed v h \<Longrightarrow> nv_failed v h'" "nv_entries v h \<noteq> [] \<Longrightarrow> nv_entries v h' \<noteq> []"
    using A(1,5,6,7) k e(1) by (auto simp: keeps_waiting_def)
  show "notified v h \<Longrightarrow> \<not> b \<Longrightarrow> \<not> nv_failed v h' \<Longrightarrow> watched v h'"
    using A(2) e(2,3) by (auto simp: notified_def watched_def)
qed

lemma req_notify_step:
  assumes law: "wakeup_law v api" and r: "nf_req_notify api h = (rc, h')"
  shows "wcs_ok (nv_entries v h) \<Longrightarrow> wcs_ok (nv_entries v h')" "nv_waiting v h' = nv_waiting v h"
    "nv_failed v h \<Longrightarrow> nv_failed v h'" "nv_entries v h \<noteq> [] \<Longrightarrow> nv_entries v h' \<noteq> []"
    "\<not> nv_failed v h' \<Longrightarrow> watched v h'"
proof -
  obtain h0 where a: "arrivals v h h0" and k: "keeps_waiting v h0 h'" and e: "nv_entries v h' = nv_entries v h0"
      "if rc = 0 then nv_armed v h' else nv_armed v h' = nv_armed v h0 \<and> nv_failed v h'"
    using law r unfolding wakeup_law_def req_notify_law_def by blast
  note A = arrivals_keeps [OF a]
  show "wcs_ok (nv_entries v h) \<Longrightarrow> wcs_ok (nv_entries v h')" "nv_waiting v h' = nv_waiting v h"
    "nv_failed v h \<Longrightarrow> nv_failed v h'" "nv_entries v h \<noteq> [] \<Longrightarrow> nv_entries v h' \<noteq> []"
    using A(1,5,6,7) k e(1) by (auto simp: keeps_waiting_def)
  show "\<not> nv_failed v h' \<Longrightarrow> watched v h'" using e(2) by (auto simp: watched_def split: if_splits)
qed

lemma poll_queue_step:
  assumes law: "wakeup_law v api" and r: "nf_poll_cq api h k = (n, wcs, h')" and k0: "0 < k"
  shows "wcs_ok (nv_entries v h) \<Longrightarrow> wcs_ok (nv_entries v h')"
    "wcs_ok (nv_entries v h) \<Longrightarrow> wcs_ok (take (nat n) wcs)"
    "nv_waiting v h' = nv_waiting v h" "nv_failed v h \<Longrightarrow> nv_failed v h'" "watched v h \<Longrightarrow> watched v h'"
    "take (nat n) wcs = [] \<Longrightarrow> \<not> nv_failed v h' \<Longrightarrow> nv_entries v h' = []"
    "nv_entries v h \<noteq> [] \<Longrightarrow> \<not> nv_failed v h' \<Longrightarrow> take (nat n) wcs \<noteq> []"
    "n = int k \<Longrightarrow> take (nat n) wcs \<noteq> []"
proof -
  obtain h0 where a: "arrivals v h h0" and w: "keeps_waiting v h0 h'"
    and e: "nv_armed v h' = nv_armed v h0" "nv_events v h' = nv_events v h0"
      "if n < 0 then nv_entries v h' = nv_entries v h0 \<and> nv_failed v h'
       else n = int (min k (length (nv_entries v h0))) \<and> wcs = take k (nv_entries v h0) \<and>
         nv_entries v h' = drop k (nv_entries v h0)"
    using law r unfolding wakeup_law_def poll_queue_law_def by blast
  note A = arrivals_keeps [OF a]
  show "wcs_ok (nv_entries v h) \<Longrightarrow> wcs_ok (nv_entries v h')"
    using A(1) e(3) by (auto simp: wcs_ok_def split: if_splits dest: in_set_dropD)
  show "wcs_ok (nv_entries v h) \<Longrightarrow> wcs_ok (take (nat n) wcs)"
    using A(1) e(3) by (auto simp: wcs_ok_def split: if_splits dest!: in_set_takeD)
  show "nv_waiting v h' = nv_waiting v h" "nv_failed v h \<Longrightarrow> nv_failed v h'"
    using A(5,6) w by (auto simp: keeps_waiting_def)
  show "watched v h \<Longrightarrow> watched v h'" using A(3) e(1,2) w by (auto simp: watched_def keeps_waiting_def)
  show "take (nat n) wcs = [] \<Longrightarrow> \<not> nv_failed v h' \<Longrightarrow> nv_entries v h' = []" using e(3) k0 by (auto split: if_splits)
  show "nv_entries v h \<noteq> [] \<Longrightarrow> \<not> nv_failed v h' \<Longrightarrow> take (nat n) wcs \<noteq> []"
    using A(7) e(3) k0 by (auto split: if_splits)
  show "n = int k \<Longrightarrow> take (nat n) wcs \<noteq> []" using e(3) k0 by (auto split: if_splits)
qed

lemma start_op_step:
  assumes law: "wakeup_law v api"
  shows "wcs_ok (nv_entries v h) \<Longrightarrow> wcs_ok (nv_entries v (nf_start_op api h))"
    "nv_waiting v (nf_start_op api h)" "nv_failed v h \<Longrightarrow> nv_failed v (nf_start_op api h)"
    "notified v h \<Longrightarrow> notified v (nf_start_op api h)"
    "watched v h \<Longrightarrow> nv_entries v h = [] \<Longrightarrow> awake v (nf_start_op api h)"
proof -
  have "start_op_law v api" using law by (simp add: wakeup_law_def)
  from spec [OF this [unfolded start_op_law_def], of h]
  obtain h0 where a: "arrivals v h h0" and e: "nv_entries v (nf_start_op api h) = nv_entries v h0"
      "nv_armed v (nf_start_op api h) = nv_armed v h0" "nv_events v (nf_start_op api h) = nv_events v h0"
      "nv_waiting v (nf_start_op api h)" "0 < nv_events v h0 \<longrightarrow> nv_ready v (nf_start_op api h)"
      "nv_failed v h0 \<longrightarrow> nv_failed v (nf_start_op api h)"
    by (elim exE conjE) (erule that, assumption+)
  note A = arrivals_keeps [OF a]
  show "wcs_ok (nv_entries v h) \<Longrightarrow> wcs_ok (nv_entries v (nf_start_op api h))" "nv_waiting v (nf_start_op api h)"
    "nv_failed v h \<Longrightarrow> nv_failed v (nf_start_op api h)" using A(1,6) e by auto
  show "notified v h \<Longrightarrow> notified v (nf_start_op api h)" using A(2) e by (simp add: notified_def)
  show "watched v h \<Longrightarrow> nv_entries v h = [] \<Longrightarrow> awake v (nf_start_op api h)"
    using A(3,8) e by (auto simp: watched_def awake_def)
qed

text \<open>The drain.\<close>

lemma resolve_into_hw: "hw (snd (resolve_into wcs (out, w))) = hw w"
proof (induction wcs arbitrary: out w)
  case (Cons wc wcs)
  obtain x w1 where r: "resolve_verbs_op wc w = (x, w1)" by fastforce
  then have "hw w1 = hw w" using resolve_frame(1) [of wc w] by simp
  with Cons r show ?case by (cases x) simp_all
qed simp

lemma resolve_into_out:
  assumes "wcs_ok wcs"
  shows "fst (resolve_into wcs (out, w)) = out @ map wc_wr_id wcs"
  using assms
proof (induction wcs arbitrary: out w)
  case (Cons wc wcs)
  then have "fst (resolve_verbs_op wc w) = Some (wc_wr_id wc)"
    by (auto simp: resolve_verbs_op_def wcs_ok_def split: option.split)
  then obtain w1 where "resolve_verbs_op wc w = (Some (wc_wr_id wc), w1)" by (metis prod.collapse)
  with Cons show ?case by (simp add: wcs_ok_def)
qed simp

lemma poll_batches_keeps:
  assumes law: "wakeup_law v api" and "wcs_ok (nv_entries v (hw w))" and "0 < k"
    and "poll_batches (nf_poll_cq api) k left out w = (out', w')"
  shows "(watched v (hw w) \<longrightarrow> watched v (hw w')) \<and> wcs_ok (nv_entries v (hw w')) \<and> (\<exists>new. out' = out @ new) \<and>
    nv_waiting v (hw w') = nv_waiting v (hw w) \<and> (nv_failed v (hw w) \<longrightarrow> nv_failed v (hw w'))"
  using assms(2,4)
proof (induction left arbitrary: out w)
  case (Suc left)
  obtain n wcs h' where p: "nf_poll_cq api (hw w) k = (n, wcs, h')" by (metis prod_cases3)
  note step = poll_queue_step [OF law p assms(3)]
  obtain out1 w1 where r: "resolve_into (take (nat n) wcs) (out, w\<lparr>hw := h'\<rparr>) = (out1, w1)" by fastforce
  have hw1: "hw w1 = h'" using resolve_into_hw [of "take (nat n) wcs" out "w\<lparr>hw := h'\<rparr>"] r by simp
  have o1: "out1 = out @ map wc_wr_id (take (nat n) wcs)"
    using resolve_into_out [OF step(2) [OF Suc.prems(1)], of out "w\<lparr>hw := h'\<rparr>"] r by simp
  show ?case
  proof (cases "n = int k \<and> 0 < left")
    case True
    then have "poll_batches (nf_poll_cq api) k left out1 w1 = (out', w')" using Suc.prems(2) p r by simp
    from Suc.IH [OF _ this] show ?thesis using hw1 step(1,3-5) Suc.prems(1) o1 by auto
  next
    case False
    then have "out' = out1" "w' = w1" using Suc.prems(2) p r by auto
    then show ?thesis using hw1 step(1,3-5) Suc.prems(1) o1 by simp
  qed
qed simp

lemma poll_batches_drains:
  assumes law: "wakeup_law v api" and ids: "wcs_ok (nv_entries v (hw w))" and "0 < k"
    and r: "poll_batches (nf_poll_cq api) k (Suc left) [] w = (out', w')" and ok: "\<not> nv_failed v (hw w')"
  shows "out' = [] \<Longrightarrow> nv_entries v (hw w') = []" and "nv_entries v (hw w) \<noteq> [] \<Longrightarrow> out' \<noteq> []"
proof -
  obtain n wcs h' where p: "nf_poll_cq api (hw w) k = (n, wcs, h')" by (metis prod_cases3)
  note step = poll_queue_step [OF law p assms(3)]
  obtain out1 w1 where q: "resolve_into (take (nat n) wcs) ([], w\<lparr>hw := h'\<rparr>) = (out1, w1)" by fastforce
  have hw1: "hw w1 = h'" using resolve_into_hw [of "take (nat n) wcs" "[]" "w\<lparr>hw := h'\<rparr>"] q by simp
  have o1: "out1 = map wc_wr_id (take (nat n) wcs)"
    using resolve_into_out [OF step(2) [OF ids], of "[]" "w\<lparr>hw := h'\<rparr>"] q by simp
  have ext: "(\<exists>new. out' = out1 @ new) \<and> \<not> nv_failed v h'"
  proof (cases "n = int k \<and> 0 < left")
    case True
    then have "poll_batches (nf_poll_cq api) k left out1 w1 = (out', w')" using r p q by simp
    from poll_batches_keeps [OF law _ assms(3) this] show ?thesis using hw1 step(1) ids ok by auto
  next
    case False
    then show ?thesis using r p q hw1 ok by auto
  qed
  show "nv_entries v (hw w) \<noteq> [] \<Longrightarrow> out' \<noteq> []" using ext step(7) o1 by auto
  assume "out' = []"
  then have e: "take (nat n) wcs = []" using ext o1 by auto
  then have "\<not> (n = int k \<and> 0 < left)" using step(8) by auto
  then have "w' = w1" using r p q by auto
  then show "nv_entries v (hw w') = []" using step(6) [OF e] ext hw1 by simp
qed

lemma poll_into_step:
  assumes law: "wakeup_law v api" and ids: "wcs_ok (nv_entries v (hw w))" and batch: "0 < io_poll_batch s"
    and r: "poll_into (nf_poll_cq api) s [] w = (out, w')"
  shows "watched v (hw w) \<Longrightarrow> watched v (hw w')" "wcs_ok (nv_entries v (hw w'))"
    "nv_waiting v (hw w') = nv_waiting v (hw w)" "nv_failed v (hw w) \<Longrightarrow> nv_failed v (hw w')"
    "\<not> nv_failed v (hw w') \<Longrightarrow> out = [] \<Longrightarrow> nv_entries v (hw w') = []"
    "\<not> nv_failed v (hw w') \<Longrightarrow> nv_entries v (hw w) \<noteq> [] \<Longrightarrow> out \<noteq> []"
proof -
  have p: "poll_batches (nf_poll_cq api) (io_poll_batch s) (Suc 3) [] w = (out, w')"
    using r by (simp add: poll_into_def eval_nat_numeral)
  show "watched v (hw w) \<Longrightarrow> watched v (hw w')" "wcs_ok (nv_entries v (hw w'))"
    "nv_waiting v (hw w') = nv_waiting v (hw w)" "nv_failed v (hw w) \<Longrightarrow> nv_failed v (hw w')"
    using poll_batches_keeps [OF law ids batch p] by simp_all
  show "\<not> nv_failed v (hw w') \<Longrightarrow> out = [] \<Longrightarrow> nv_entries v (hw w') = []"
    "\<not> nv_failed v (hw w') \<Longrightarrow> nv_entries v (hw w) \<noteq> [] \<Longrightarrow> out \<noteq> []"
    using poll_batches_drains [OF law ids batch p] by simp_all
qed

text \<open>
  \<open>wakeup_ok\<close>: a poller in the reactor's queue is awake, unless a call has failed, and its batch is empty; a posted
  poller has something to deliver.
\<close>

definition wakeup_ok :: "'h notify_view \<Rightarrow> io_service \<Rightarrow> 'h \<Rightarrow> bool" where
  "wakeup_ok v s h \<longleftrightarrow>
     wcs_ok (nv_entries v h) \<and> 0 < io_poll_batch s \<and>
     (io_phase s = Poller_waiting \<longrightarrow> io_completed s = [] \<and>
        (\<not> nv_failed v h \<longrightarrow> nv_waiting v h \<and> awake v h \<and> notified v h)) \<and>
     (io_phase s = Poller_posted \<longrightarrow> io_completed s \<noteq> []) \<and>
     (io_phase s = Poller_idle \<longrightarrow> io_completed s = [])"

lemma arm_poller_wakeup:
  assumes law: "wakeup_law v api" and "wcs_ok (nv_entries v (hw w))" and batch: "0 < io_poll_batch s"
    and "io_completed s = []" and r: "arm_poller api s w = (s', w')"
  shows "wakeup_ok v s' (hw w') \<and> io_phase s' \<noteq> Poller_idle"
proof -
  obtain rc h1 where n: "nf_req_notify api (hw w) = (rc, h1)" by fastforce
  let ?w = "w\<lparr>hw := h1\<rparr>"
  note N = req_notify_step [OF law n]
  obtain out w1 where p: "poll_into (nf_poll_cq api) s [] ?w = (out, w1)" by fastforce
  have "wcs_ok (nv_entries v (hw ?w))" using N(1) assms(2) by simp
  note P = poll_into_step [OF law this batch p]
  show ?thesis
  proof (cases "out = []")
    case True
    let ?h = "nf_start_op api (hw w1)"
    note S = start_op_step [OF law, of "hw w1"]
    have s': "s' = s\<lparr>io_completed := [], io_phase := Poller_waiting\<rparr>" "hw w' = ?h"
      using assms(4) r p n True by (auto simp: arm_poller_def)
    have "nv_waiting v ?h \<and> awake v ?h \<and> notified v ?h" if "\<not> nv_failed v ?h"
    proof -
      have "\<not> nv_failed v (hw w1)" using S(3) that by blast
      then have "watched v (hw w1)" "nv_entries v (hw w1) = []" using N(5) P(1,4,5) True by auto
      then show ?thesis using S(2,4,5) watched_notified [of v "hw w1"] by simp
    qed
    then show ?thesis using s' batch S(1) P(2) by (simp add: wakeup_ok_def)
  next
    case False
    then have "s' = s\<lparr>io_completed := out, io_phase := Poller_posted\<rparr>" "w' = w1"
      using assms(4) r p n by (auto simp: arm_poller_def)
    then show ?thesis using batch P(2) False by (simp add: wakeup_ok_def)
  qed
qed

text \<open>
  The reactor reports readiness to the waiting poller, possibly for no reason (what it remembers of the readiness
  afterwards is left open); it drops an operation that is done.
\<close>

definition reported :: "'h notify_view \<Rightarrow> 'h \<Rightarrow> 'h \<Rightarrow> bool" where
  "reported v h h' \<longleftrightarrow> nv_entries v h' = nv_entries v h \<and> nv_armed v h' = nv_armed v h \<and>
     nv_events v h' = nv_events v h \<and> nv_waiting v h' = nv_waiting v h \<and> (nv_failed v h \<longrightarrow> nv_failed v h')"

definition retired :: "'h notify_view \<Rightarrow> bool \<Rightarrow> 'h \<Rightarrow> 'h \<Rightarrow> bool" where
  "retired v fin h h' \<longleftrightarrow>
     (if fin then nv_entries v h' = nv_entries v h \<and> (nv_failed v h \<longrightarrow> nv_failed v h') else h' = h)"

lemma poller_do_perform_wakeup:
  assumes law: "wakeup_law v api" and ok: "wakeup_ok v s (hw w)" and phase: "io_phase s = Poller_waiting"
    and rep: "reported v (hw w) h" and r: "poller_do_perform api s (w\<lparr>hw := h\<rparr>) = (fin, s', w')"
  shows "wakeup_ok v (if fin then s'\<lparr>io_phase := Poller_posted\<rparr> else s') (hw w')"
    and "fin = (io_completed s' \<noteq> [])" and "io_poller_started s' = io_poller_started s" and "io_phase s' = Poller_waiting"
    and "nv_entries v (hw w) \<noteq> [] \<Longrightarrow> fin \<or> nv_failed v (hw w')"
proof -
  have pre: "wcs_ok (nv_entries v h)" "0 < io_poll_batch s" "io_completed s = []"
    "\<not> nv_failed v h \<Longrightarrow> nv_waiting v h \<and> notified v h"
    using ok phase rep by (auto simp: wakeup_ok_def reported_def notified_def)
  obtain e h1 where g: "nf_get_event api h = (e, h1)" by fastforce
  note E = get_event_step [OF law g]
  let ?h2 = "if e then snd (nf_req_notify api h1) else h1"
  have N: "wcs_ok (nv_entries v ?h2)" "nv_waiting v ?h2 = nv_waiting v h" "nv_failed v h \<longrightarrow> nv_failed v ?h2"
    "nv_entries v h \<noteq> [] \<longrightarrow> nv_entries v ?h2 \<noteq> []" "\<not> nv_failed v ?h2 \<longrightarrow> watched v ?h2"
  proof -
    obtain rc h2 where n: "nf_req_notify api h1 = (rc, h2)" by fastforce
    note R = req_notify_step [OF law n]
    show "wcs_ok (nv_entries v ?h2)" "nv_waiting v ?h2 = nv_waiting v h" "nv_failed v h \<longrightarrow> nv_failed v ?h2"
      "nv_entries v h \<noteq> [] \<longrightarrow> nv_entries v ?h2 \<noteq> []"
      using E(1-4) R(1-4) pre(1) n by auto
    show "\<not> nv_failed v ?h2 \<longrightarrow> watched v ?h2" using E(3,5) R(5) pre(4) n by auto
  qed
  obtain out w1 where p: "poll_into (nf_poll_cq api) s [] (w\<lparr>hw := ?h2\<rparr>) = (out, w1)" by fastforce
  have "wcs_ok (nv_entries v (hw (w\<lparr>hw := ?h2\<rparr>)))" using N(1) by simp
  note P = poll_into_step [OF law this pre(2) p]
  have r': "fin = (out \<noteq> [])" "s' = s\<lparr>io_completed := out\<rparr>" "w' = w1"
    using r p g pre(3) by (auto simp: poller_do_perform_def Let_def split: if_splits)
  have "nv_waiting v (hw w1) \<and> watched v (hw w1)" if "\<not> nv_failed v (hw w1)"
    using that P(1,3,4) N(2,3,5) pre(4) by auto
  then show "wakeup_ok v (if fin then s'\<lparr>io_phase := Poller_posted\<rparr> else s') (hw w')"
    using P(2,5) pre(2) phase watched_awake [of v "hw w1"] watched_notified [of v "hw w1"]
    by (auto simp: r' wakeup_ok_def)
  show "fin = (io_completed s' \<noteq> [])" "io_poller_started s' = io_poller_started s" "io_phase s' = Poller_waiting"
    by (simp_all add: r' phase)
  show "nv_entries v (hw w) \<noteq> [] \<Longrightarrow> fin \<or> nv_failed v (hw w')"
    using P(6) N(4) rep by (auto simp: r' reported_def)
qed

text \<open>
  The running system: completions arrive and submitters post (they touch no service state), queue pairs
  bind, the reactor performs the waiting poller, the scheduler runs the posted one.
\<close>

inductive poller_step ::
  "'h notify_view \<Rightarrow> 'h notify_api \<Rightarrow> 'h handler_fn \<Rightarrow> io_service \<times> 'h vworld \<Rightarrow> io_service \<times> 'h vworld \<Rightarrow> bool"
  for v api handler where
  arrive: "arrivals v (hw w) (hw w') \<Longrightarrow> poller_step v api handler (s, w) (s, w')"
| start: "ensure_poller_started api s w = (s', w') \<Longrightarrow> poller_step v api handler (s, w) (s', w')"
| perform: "io_phase s = Poller_waiting \<Longrightarrow> reported v (hw w) h \<Longrightarrow>
    poller_do_perform api s (w\<lparr>hw := h\<rparr>) = (fin, s', w') \<Longrightarrow> retired v fin (hw w') h' \<Longrightarrow>
    poller_step v api handler (s, w) (if fin then s'\<lparr>io_phase := Poller_posted\<rparr> else s', w'\<lparr>hw := h'\<rparr>)"
| run: "io_phase s = Poller_posted \<Longrightarrow> on_poll_complete api handler True s w = (s', w') \<Longrightarrow>
    poller_step v api handler (s, w) (s', w')"

inductive_cases poller_stepE: "poller_step v api handler (s, w) (s', w')"

definition poller_init :: "'h notify_view \<Rightarrow> io_service \<Rightarrow> 'h vworld \<Rightarrow> bool" where
  "poller_init v s w \<longleftrightarrow>
     \<not> io_poller_started s \<and> io_phase s = Poller_idle \<and> io_completed s = [] \<and>
     0 < io_poll_batch s \<and> wcs_ok (nv_entries v (hw w))"

definition poller_inv :: "'h notify_view \<Rightarrow> io_service \<times> 'h vworld \<Rightarrow> bool" where
  "poller_inv v c \<longleftrightarrow>
     (case c of (s, w) \<Rightarrow>
        wakeup_ok v s (hw w) \<and> (io_poller_started s \<longleftrightarrow> io_phase s \<noteq> Poller_idle))"

lemma arm_poller_started:
  "arm_poller api s w = (s', w') \<Longrightarrow> io_poller_started s' = io_poller_started s"
  by (auto simp: arm_poller_def split: prod.splits if_splits)

lemma complete_all_keeps:
  assumes "\<And>u w. P (hw w) \<Longrightarrow> P (hw (handler u w))" and "P (hw w)"
  shows "P (hw (fold (\<lambda>p. if owner then complete_at handler True p else destroy_at p) ps w))"
proof -
  have "P (hw (complete_at handler True p w))" if "P (hw w)" for p w
    using that assms(1) by (simp add: complete_at_def Let_def split: option.split)
  moreover have "P (hw (destroy_at p w))" if "P (hw w)" for p w
    using that by (simp add: destroy_at_def split: option.split)
  ultimately show ?thesis using assms(2) by (induction ps arbitrary: w) simp_all
qed

lemma poller_inv_arm:
  assumes "wakeup_law v api" "wcs_ok (nv_entries v (hw w))" "0 < io_poll_batch s" "io_completed s = []"
    "io_poller_started s" and "arm_poller api s w = (s', w')"
  shows "poller_inv v (s', w')"
  using arm_poller_wakeup [OF assms(1-4,6)] arm_poller_started [OF assms(6)] assms(5)
  by (simp add: poller_inv_def)

lemma poller_inv_step:
  assumes law: "wakeup_law v api" and local: "\<And>u w. arrivals v (hw w) (hw (handler u w))"
    and "poller_step v api handler c c'" and "poller_inv v c"
  shows "poller_inv v c'"
  using assms(3,4)
proof (induction rule: poller_step.induct)
  case (arrive w w' s)
  note A = arrivals_keeps [OF arrive(1)]
  show ?case using A(1-2,4-6) arrive.prems by (auto simp: poller_inv_def wakeup_ok_def)
next
  case (start s w s' w')
  show ?case
  proof (cases "io_poller_started s")
    case True
    with start show ?thesis by (simp add: ensure_poller_started_def)
  next
    case False
    with start have arm: "arm_poller api (s\<lparr>io_poller_started := True\<rparr>) w = (s', w')"
      by (simp add: ensure_poller_started_def)
    show ?thesis
      using start.prems False by (intro poller_inv_arm [OF law _ _ _ _ arm]) (simp_all add: poller_inv_def wakeup_ok_def)
  qed
next
  case (perform s w h fin s' w' h')
  have "wakeup_ok v s (hw w)" using perform.prems by (simp add: poller_inv_def)
  note P = poller_do_perform_wakeup [OF law this perform(1-3)]
  show ?case
  proof (cases fin)
    case True
    then show ?thesis using P(1,3,4) perform(1,4) perform.prems
      by (simp add: poller_inv_def wakeup_ok_def retired_def)
  next
    case False
    then show ?thesis using P(1,3,4) perform(1,4) perform.prems by (simp add: poller_inv_def retired_def)
  qed
next
  case (run s w s' w')
  let ?w = "fold (\<lambda>p. if True then complete_at handler True p else destroy_at p) (io_completed s) w"
  have arm: "arm_poller api (s\<lparr>io_completed := [], io_phase := Poller_idle\<rparr>) ?w = (s', w')"
    using run(2) by (simp add: on_poll_complete_def Let_def)
  have "wcs_ok (nv_entries v (hw w))" using run.prems by (simp add: poller_inv_def wakeup_ok_def)
  from complete_all_keeps [of "\<lambda>h. wcs_ok (nv_entries v h)", OF _ this, of handler True "io_completed s"]
  have "wcs_ok (nv_entries v (hw ?w))" using arrivals_keeps(1) [OF local] by blast
  then show ?case
    using run(1) run.prems by (intro poller_inv_arm [OF law _ _ _ _ arm]) (simp_all add: poller_inv_def wakeup_ok_def)
qed

lemma poller_inv_reachable:
  assumes law: "wakeup_law v api" and local: "\<And>u w. arrivals v (hw w) (hw (handler u w))"
    and "poller_init v s0 w0" and run: "(poller_step v api handler)\<^sup>*\<^sup>* (s0, w0) c"
  shows "poller_inv v c"
  using run
proof (induction rule: rtranclp_induct)
  case base
  then show ?case using assms(3) by (simp add: poller_init_def poller_inv_def wakeup_ok_def)
next
  case (step y z)
  then show ?case using poller_inv_step [where handler = handler, OF law local] by blast
qed

subsection \<open>Properties\<close>

text \<open>
  C1. No lost wakeup. For every adapter and reactor that behave as documented, with completions arriving during any of
  the poller's single calls and handlers that post: in every reachable state in which no call has failed and the
  poller sleeps in the reactor while a work completion is queued, the reactor is going to perform it, and performing it
  drains completions and finishes, unless one of its calls fails.
\<close>

theorem no_lost_wakeup:
  assumes "wakeup_law v api" and "\<forall>u w. arrivals v (hw w) (hw (handler u w))"
    and "poller_init v s0 w0" and "(poller_step v api handler)\<^sup>*\<^sup>* (s0, w0) (s, w)"
    and "io_phase s = Poller_waiting" and "nv_entries v (hw w) \<noteq> []" and "\<not> nv_failed v (hw w)"
  shows "nv_waiting v (hw w) \<and> nv_ready v (hw w) \<and>
    (\<forall>h. reported v (hw w) h \<longrightarrow>
      (\<exists>fin s' w'. poller_do_perform api s (w\<lparr>hw := h\<rparr>) = (fin, s', w') \<and>
         (fin \<and> io_completed s' \<noteq> [] \<or> nv_failed v (hw w'))))"
proof -
  have ok: "wakeup_ok v s (hw w)"
    using poller_inv_reachable [OF assms(1) _ assms(3,4)] assms(2) by (simp add: poller_inv_def)
  then have "nv_waiting v (hw w)" "nv_ready v (hw w)" using assms(5-7) by (auto simp: wakeup_ok_def awake_def)
  moreover have "\<exists>fin s' w'. poller_do_perform api s (w\<lparr>hw := h\<rparr>) = (fin, s', w') \<and>
      (fin \<and> io_completed s' \<noteq> [] \<or> nv_failed v (hw w'))" if h: "reported v (hw w) h" for h
  proof -
    obtain fin s' w' where r: "poller_do_perform api s (w\<lparr>hw := h\<rparr>) = (fin, s', w')" by (metis prod_cases3)
    show ?thesis using poller_do_perform_wakeup(2,5) [OF assms(1) ok assms(5) h r] assms(6) r by auto
  qed
  ultimately show ?thesis by blast
qed

subsection \<open>An adapter and a reactor of the law\<close>

text \<open>
  An instance for the examples. \<open>hca_future\<close> holds what arrives before each of the following calls; with
  \<open>hca_broken\<close> requests for a notification fail. The reactor notices an event when it arrives and when an operation
  is started.
\<close>

record hca =
  hca_entries :: "native_wc list"
  hca_armed :: bool
  hca_events :: nat
  hca_waiting :: bool
  hca_ready :: bool
  hca_failed :: bool
  hca_broken :: bool
  hca_future :: "native_wc list list"

definition hca_view :: "hca notify_view" where
  "hca_view = \<lparr>nv_entries = hca_entries, nv_armed = hca_armed, nv_events = hca_events, nv_waiting = hca_waiting,
     nv_ready = hca_ready, nv_failed = hca_failed\<rparr>"

definition hca_arrive :: "native_wc list \<Rightarrow> hca \<Rightarrow> hca" where
  "hca_arrive wcs h =
     (let new = filter (\<lambda>wc. wc_wr_id wc \<noteq> nullptr) wcs; h' = h\<lparr>hca_entries := hca_entries h @ new\<rparr> in
      if new \<noteq> [] \<and> hca_armed h
      then h'\<lparr>hca_armed := False, hca_events := Suc (hca_events h), hca_ready := True\<rparr>
      else h')"

definition hca_tick :: "hca \<Rightarrow> hca" where
  "hca_tick h = (case hca_future h of [] \<Rightarrow> h | wcs # rest \<Rightarrow> hca_arrive wcs (h\<lparr>hca_future := rest\<rparr>))"

definition hca_get_event :: "hca \<Rightarrow> bool \<times> hca" where
  "hca_get_event h =
     (let h' = hca_tick h in
      if 0 < hca_events h' then (True, h'\<lparr>hca_events := hca_events h' - 1\<rparr>) else (False, h'))"

definition hca_req_notify :: "hca \<Rightarrow> int \<times> hca" where
  "hca_req_notify h =
     (let h' = hca_tick h in
      if hca_broken h' then (22, h'\<lparr>hca_failed := True\<rparr>) else (0, h'\<lparr>hca_armed := True\<rparr>))"

definition hca_poll_cq :: "hca poll_cq_fn" where
  "hca_poll_cq h k =
     (let h' = hca_tick h in
      (int (min k (length (hca_entries h'))), take k (hca_entries h'),
       h'\<lparr>hca_entries := drop k (hca_entries h')\<rparr>))"

definition hca_start_op :: "hca \<Rightarrow> hca" where
  "hca_start_op h =
     (let h' = hca_tick h in h'\<lparr>hca_waiting := True, hca_ready := (hca_ready h' \<or> 0 < hca_events h')\<rparr>)"

definition hca_api :: "hca notify_api" where
  "hca_api = \<lparr>nf_get_event = hca_get_event, nf_req_notify = hca_req_notify,
     nf_poll_cq = hca_poll_cq, nf_start_op = hca_start_op\<rparr>"

lemma hca_sel [simp]:
  "nf_get_event hca_api = hca_get_event" "nf_req_notify hca_api = hca_req_notify"
  "nf_poll_cq hca_api = hca_poll_cq" "nf_start_op hca_api = hca_start_op"
  "nv_entries hca_view = hca_entries" "nv_armed hca_view = hca_armed" "nv_events hca_view = hca_events"
  "nv_waiting hca_view = hca_waiting" "nv_ready hca_view = hca_ready" "nv_failed hca_view = hca_failed"
  by (simp_all add: hca_api_def hca_view_def)

lemma hca_arrive_arrivals: "arrivals hca_view h (hca_arrive wcs h)"
  unfolding arrivals_def
  by (intro conjI exI [of _ "filter (\<lambda>wc. wc_wr_id wc \<noteq> nullptr) wcs"])
    (simp_all add: keeps_waiting_def hca_arrive_def Let_def wcs_ok_def)

lemma hca_tick_arrivals: "arrivals hca_view h (hca_tick h)"
proof (cases "hca_future h")
  case Nil
  then show ?thesis using hca_arrive_arrivals [of h "[]"] by (simp add: hca_tick_def hca_arrive_def Let_def)
next
  case (Cons wcs rest)
  have "arrivals hca_view (h\<lparr>hca_future := rest\<rparr>) = arrivals hca_view h"
    by (simp add: fun_eq_iff arrivals_def keeps_waiting_def)
  then show ?thesis using hca_arrive_arrivals [of "h\<lparr>hca_future := rest\<rparr>" wcs] Cons by (simp add: hca_tick_def)
qed

lemma hca_wakeup_law: "wakeup_law hca_view hca_api"
proof -
  have "get_event_law hca_view hca_api" unfolding get_event_law_def
    by (intro allI impI, rule exI, rule conjI [OF hca_tick_arrivals])
      (auto simp: hca_get_event_def Let_def keeps_waiting_def split: if_splits)
  moreover have "req_notify_law hca_view hca_api" unfolding req_notify_law_def
    by (intro allI impI, rule exI, rule conjI [OF hca_tick_arrivals])
      (auto simp: hca_req_notify_def Let_def keeps_waiting_def split: if_splits)
  moreover have "poll_queue_law hca_view hca_api" unfolding poll_queue_law_def
    by (intro allI impI, rule exI, rule conjI [OF hca_tick_arrivals])
      (auto simp: hca_poll_cq_def Let_def keeps_waiting_def)
  moreover have "start_op_law hca_view hca_api" unfolding start_op_law_def
    by (intro allI, rule exI, rule conjI [OF hca_tick_arrivals]) (simp add: hca_start_op_def Let_def)
  ultimately show ?thesis by (simp add: wakeup_law_def)
qed

definition quiet_hca :: hca where
  "quiet_hca = \<lparr>hca_entries = [], hca_armed = False, hca_events = 0, hca_waiting = False, hca_ready = False,
     hca_failed = False, hca_broken = False, hca_future = []\<rparr>"

definition quiet_world :: "hca vworld" where
  "quiet_world = \<lparr>hw = quiet_hca, live_ops = Map.empty, ready = [], scheduled = [], upcalls = [],
     dangling = False\<rparr>"

definition late_wc :: native_wc where
  "late_wc = \<lparr>wc_wr_id = 64, wc_status = IBV_WC_SUCCESS, wc_opcode = IBV_WC_RECV, wc_byte_len = 8\<rparr>"

lemma hca_started:
  "ensure_poller_started hca_api io_service_new (quiet_world\<lparr>hw := quiet_hca\<lparr>hca_broken := b\<rparr>\<rparr>) =
     (io_service_new\<lparr>io_poller_started := True, io_completed := [], io_phase := Poller_waiting\<rparr>,
      quiet_world\<lparr>hw := quiet_hca\<lparr>hca_broken := b, hca_armed := \<not> b, hca_failed := b, hca_waiting := True\<rparr>\<rparr>)"
  by (cases b) (simp_all add: ensure_poller_started_def arm_poller_def io_service_new_def quiet_world_def
      quiet_hca_def poll_into_def eval_nat_numeral hca_req_notify_def hca_tick_def hca_poll_cq_def hca_start_op_def)

text \<open>After the poller started on an idle queue and one completion arrived.\<close>

theorem no_lost_wakeup_witness:
  "\<exists>s w. (poller_step hca_view hca_api (\<lambda>_ w. w))\<^sup>*\<^sup>* (io_service_new, quiet_world) (s, w) \<and>
    io_phase s = Poller_waiting \<and> hca_entries (hw w) = [late_wc] \<and> hca_ready (hw w)"
proof -
  let ?step = "poller_step hca_view hca_api (\<lambda>_ w. w)"
  let ?s = "io_service_new\<lparr>io_poller_started := True, io_completed := [], io_phase := Poller_waiting\<rparr>"
  let ?w = "quiet_world\<lparr>hw := quiet_hca\<lparr>hca_armed := True, hca_waiting := True\<rparr>\<rparr>"
  let ?w2 = "?w\<lparr>hw := hca_arrive [late_wc] (hw ?w)\<rparr>"
  have "ensure_poller_started hca_api io_service_new quiet_world = (?s, ?w)"
    using hca_started [of False] by (simp add: quiet_world_def quiet_hca_def)
  then have "?step (io_service_new, quiet_world) (?s, ?w)" by (rule poller_step.start)
  moreover have "?step (?s, ?w) (?s, ?w2)"
    by (rule poller_step.arrive) (simp add: hca_arrive_arrivals)
  ultimately have reach: "?step\<^sup>*\<^sup>* (io_service_new, quiet_world) (?s, ?w2)"
    by (meson converse_rtranclp_into_rtranclp rtranclp.rtrancl_refl)
  have ini: "poller_init hca_view io_service_new quiet_world"
    by (simp add: poller_init_def io_service_new_def quiet_world_def quiet_hca_def wcs_ok_def)
  have idle: "\<forall>u w. arrivals hca_view (hw (w :: hca vworld)) (hw w)" using hca_arrive_arrivals [of _ "[]"]
    by (simp add: hca_arrive_def Let_def)
  have e: "hca_entries (hw ?w2) = [late_wc]" "\<not> hca_failed (hw ?w2)"
    by (simp_all add: hca_arrive_def quiet_hca_def late_wc_def Let_def)
  have "hca_ready (hw ?w2)" using no_lost_wakeup [OF hca_wakeup_law idle ini reach] e by simp
  then show ?thesis using reach e by (intro exI [of _ ?s] exI [of _ ?w2]) simp
qed

text \<open>
  The exception is real: \<open>arm_poller\<close> ignores the code of \<open>req_notify_cq\<close>. If the request fails, the poller is
  left to wait without a notification, and a completion that arrives then does not wake it.
\<close>

theorem ignored_notify_error:
  "\<exists>s w. ensure_poller_started hca_api io_service_new (quiet_world\<lparr>hw := quiet_hca\<lparr>hca_broken := True\<rparr>\<rparr>) = (s, w) \<and>
     io_phase s = Poller_waiting \<and> hca_entries (hca_arrive [late_wc] (hw w)) = [late_wc] \<and>
     \<not> hca_armed (hca_arrive [late_wc] (hw w)) \<and> \<not> hca_ready (hca_arrive [late_wc] (hw w))"
  by (subst hca_started) (simp add: hca_arrive_def Let_def quiet_hca_def late_wc_def)

text \<open>
  Setting the service up is all or nothing. On failure nothing is kept and the channel that was
  created is released again (a queue that was created too); on success queue, channel and reactor
  registration are all in place and the batch size is positive. A second set-up is refused and
  changes nothing, and so is an invalid device.
\<close>

theorem io_initialize_all_or_nothing:
  assumes "setup_sets_errno api"
    and "io_initialize api device depth batch s = (ec, s')"
    and "io_cq s = nullptr \<longrightarrow> io_comp_channel s = nullptr"
  shows "if io_cq s \<noteq> nullptr then ec = make_error_code already_registered \<and> s' = s
    else if \<not> is_valid_device device then ec = make_error_code invalid_device \<and> s' = s
    else init_outcome (fst (setup_comp_channel api (dev_context (the device))))
      (fst (setup_cq api (dev_context (the device)) depth
        (fst (setup_comp_channel api (dev_context (the device)))))) s ec s'"
proof (cases "io_cq s \<noteq> nullptr \<or> \<not> is_valid_device device")
  case True
  then show ?thesis using assms(2) by (auto simp: io_initialize_def)
next
  case False
  then obtain d where d: "device = Some d" "dev_context d \<noteq> nullptr"
    by (auto simp: is_valid_device_def split: option.splits)
  show ?thesis
    using io_initialize_outcome [OF assms(2) [unfolded d(1)] d(2) _ _ assms(1) refl refl]
      False assms(3) d(1) by simp
qed

definition failing_setup :: io_setup_api where
  "failing_setup =
     \<lparr>setup_comp_channel = (\<lambda>_. (16, 0)), setup_nonblock = (\<lambda>_. (False, 0)),
      setup_cq = (\<lambda>_ _ _. (32, 0)), setup_register = (\<lambda>_. 12)\<rparr>"

theorem io_initialize_all_or_nothing_witness:
  "\<exists>ec s'. io_initialize failing_setup (Some (cq_device example_cq)) 64 0 io_service_new = (ec, s') \<and>
    init_outcome 16 32 io_service_new ec s' \<and> set (io_released s') = {16, 32} \<and> is_error ec"
proof -
  obtain ec s' where r:
    "io_initialize failing_setup (Some (cq_device example_cq)) 64 0 io_service_new = (ec, s')"
    by fastforce
  have e: "setup_sets_errno failing_setup" by (simp add: setup_sets_errno_def failing_setup_def)
  have v: "io_cq io_service_new = nullptr" "io_comp_channel io_service_new = nullptr"
    "is_valid_device (Some (cq_device example_cq))"
    by (simp_all add: io_service_new_def is_valid_device_def example_cq_def)
  have "is_error ec \<and> set (io_released s') = {16, 32}"
    using r v
    by (auto simp: io_initialize_def failing_setup_def create_comp_channel_def verbs_create_cq_def
        reset_comp_channel_def reset_cq_def Let_def io_service_new_def)
  then show ?thesis
    using io_initialize_all_or_nothing [OF e r] v r by (simp add: failing_setup_def)
qed

text \<open>
  A turn of the event-mode poller keeps the accounting: every operation it drained is completed
  exactly once, nothing freed is touched, and the drain that re-arms it takes at most four batches,
  so that one turn cannot monopolise its thread. Without an owner (shutdown) the operations are freed
  and no handler runs.
\<close>

theorem on_poll_complete_accounting:
  assumes "vw_inv outs [] (io_completed s) w" and "notify_law outs api"
    and "handler_ok outs handler" and "on_poll_complete api handler owner s w = (s', w')"
  shows "vw_inv outs [] (io_completed s') w' \<and>
    length (io_completed s') \<le> 4 * io_poll_batch s \<and>
    (\<not> owner \<longrightarrow> upcalls w' = upcalls w \<and> io_completed s' = [])"
proof -
  let ?w = "fold (\<lambda>p. if owner then complete_at handler True p else destroy_at p) (io_completed s) w"
  have w0: "vw_inv outs [] [] ?w"
    using complete_all_inv [of outs "[]" "io_completed s" "[]" w handler owner] assms(1,3) by simp
  have "upcalls (fold destroy_at ps x) = upcalls x" for ps and x :: "'a vworld"
    by (induction ps arbitrary: x) simp_all
  moreover have "length (io_completed s') \<le> 4 * io_poll_batch s" if owner
    using arm_poller_inv [OF _ assms(2), of "s\<lparr>io_completed := [], io_phase := Poller_idle\<rparr>" ?w s' w']
      w0 assms(4) that by (simp add: on_poll_complete_def Let_def)
  ultimately show ?thesis
    using on_poll_complete_inv [OF assms] assms(4)
    by (cases owner) (auto simp: on_poll_complete_def Let_def)
qed

definition fifo_notify :: "ptr list notify_api" where
  "fifo_notify = \<lparr>nf_get_event = \<lambda>h. (h \<noteq> [], h), nf_req_notify = \<lambda>h. (0, h),
     nf_poll_cq = fifo_poll_cq, nf_start_op = \<lambda>h. h\<rparr>"

theorem on_poll_complete_accounting_witness:
  "\<exists>s' w'. on_poll_complete fifo_notify (\<lambda>_ w. w) True io_service_new example_world = (s', w') \<and>
    vw_inv mset [] (io_completed s') w' \<and> length (io_completed s') \<le> 64"
proof -
  obtain s' w' where
    r: "on_poll_complete fifo_notify (\<lambda>_ w. w) True io_service_new example_world = (s', w')"
    by fastforce
  have "notify_law mset fifo_notify" by (simp add: notify_law_def fifo_notify_def fifo_laws)
  moreover have "io_completed io_service_new = []" "io_poll_batch io_service_new = 16"
    by (simp_all add: io_service_new_def)
  ultimately show ?thesis
    using on_poll_complete_accounting [OF _ _ handler_ok_idle r, of mset] example_world_inv r by simp
qed

end
