(* ===== verification/ND_Provider.thy ===== *)
theory ND_Provider
  imports IBV_Device
begin

text \<open>
  What the NetworkDirect backend shares: status codes (\<open>nd/nd_error.hpp\<close>), overlapped handles
  (\<open>nd/detail/nd_impl_types.hpp\<close>, \<open>nd/detail/nd_device_impl.hpp\<close>), the adapter and the wrappers of
  \<open>nd/detail/impl/nd_ops_cm.ipp\<close>.

  The provider's COM interfaces are the type parameter \<open>'n\<close> with the calls of \<open>nd_api\<close>, which return
  an \<open>HRESULT\<close> (a signed 32-bit value, failed when negative).
\<close>

subsection \<open>Status codes and handles\<close>

abbreviation (input) ND_SUCCESS :: int where "ND_SUCCESS \<equiv> 0"
abbreviation (input) ND_PENDING :: int where "ND_PENDING \<equiv> 259"
abbreviation (input) ND_BUFFER_OVERFLOW :: int where "ND_BUFFER_OVERFLOW \<equiv> - 2147483643"
abbreviation (input) ND_CANCELED :: int where "ND_CANCELED \<equiv> - 1073741536"

text \<open>\<open>ERROR_OPERATION_ABORTED\<close>\<close>

abbreviation nd_operation_aborted :: error_code where
  "nd_operation_aborted \<equiv> EC 995 system_category"

definition failed :: "int \<Rightarrow> bool" where
  "failed hr \<longleftrightarrow> hr < 0"

definition make_nd_error_code :: "int \<Rightarrow> error_code" where
  "make_nd_error_code hr = EC hr nd_category"

definition completion_status_to_error :: "int \<Rightarrow> error_code" where
  "completion_status_to_error status =
     (if status = ND_SUCCESS then no_error
      else if status = ND_CANCELED then nd_operation_aborted
      else make_nd_error_code status)"

definition is_closable_handle :: "ptr \<Rightarrow> bool" where
  "is_closable_handle handle \<longleftrightarrow> handle \<noteq> nullptr \<and> handle \<noteq> - 1"

subsection \<open>The provider\<close>

type_synonym nd_endpoint = "ip_address \<times> nat"

record nd_adapter =
  na_adapter :: ptr
  na_pd :: ptr
  na_info :: native_context_config_t
  na_v4 :: "ip_address option"
  na_v6 :: "ip_address option"
  na_adapter_id :: u64
  na_name :: string
  na_sync :: ptr

record 'n nd_api =
  nda_overlapped_file :: "'n \<Rightarrow> ptr \<Rightarrow> int \<times> ptr \<times> 'n"
  nda_close_handle :: "'n \<Rightarrow> ptr \<Rightarrow> 'n"
  nda_create_connector :: "'n \<Rightarrow> ptr \<Rightarrow> ptr \<Rightarrow> int \<times> ptr \<times> 'n"
  nda_create_listener :: "'n \<Rightarrow> ptr \<Rightarrow> ptr \<Rightarrow> int \<times> ptr \<times> 'n"
  nda_release :: "'n \<Rightarrow> ptr \<Rightarrow> 'n"
  nda_bind :: "'n \<Rightarrow> ptr \<Rightarrow> nd_endpoint \<Rightarrow> int \<times> 'n"
  nda_listen :: "'n \<Rightarrow> ptr \<Rightarrow> u32 \<Rightarrow> int \<times> 'n"
  nda_connect :: "'n \<Rightarrow> ptr \<Rightarrow> ptr \<Rightarrow> nd_endpoint \<Rightarrow> u32 \<Rightarrow> u32 \<Rightarrow> u8 list option \<Rightarrow> u32 \<Rightarrow> int \<times> 'n"
  nda_accept :: "'n \<Rightarrow> ptr \<Rightarrow> ptr \<Rightarrow> u32 \<Rightarrow> u32 \<Rightarrow> u8 list option \<Rightarrow> u32 \<Rightarrow> int \<times> 'n"
  nda_complete_connect :: "'n \<Rightarrow> ptr \<Rightarrow> int \<times> 'n"
  nda_disconnect :: "'n \<Rightarrow> ptr \<Rightarrow> int \<times> 'n"
  nda_notify_disconnect :: "'n \<Rightarrow> ptr \<Rightarrow> int \<times> 'n"
  nda_get_private_data :: "'n \<Rightarrow> ptr \<Rightarrow> nat \<Rightarrow> int \<times> u8 list \<times> nat"
  nda_get_connection_request :: "'n \<Rightarrow> ptr \<Rightarrow> ptr \<Rightarrow> int \<times> 'n"
  nda_register_handle :: "ptr \<Rightarrow> error_code"

definition get_v4_address_nd :: "nd_adapter \<Rightarrow> error_code + ip_address" where
  "get_v4_address_nd a =
     (case na_v4 a of None \<Rightarrow> Inl (make_error_code address_family_not_supported) | Some x \<Rightarrow> Inr x)"

definition get_v6_address_nd :: "nd_adapter \<Rightarrow> error_code + ip_address" where
  "get_v6_address_nd a =
     (case na_v6 a of None \<Rightarrow> Inl (make_error_code address_family_not_supported) | Some x \<Rightarrow> Inr x)"

definition create_overlapped_file :: "'n nd_api \<Rightarrow> ptr \<Rightarrow> 'n \<Rightarrow> ptr \<times> error_code \<times> 'n" where
  "create_overlapped_file api context n =
     (case nda_overlapped_file api n context of (hr, result, n') \<Rightarrow>
        if failed hr then (nullptr, make_nd_error_code hr, n')
        else if \<not> is_closable_handle result then (nullptr, make_error_code invalid_handle, n')
        else (result, no_error, n'))"

definition nd_create_connector :: "'n nd_api \<Rightarrow> ptr \<Rightarrow> ptr \<Rightarrow> 'n \<Rightarrow> ptr \<times> error_code \<times> 'n" where
  "nd_create_connector api adapter handle n =
     (case nda_create_connector api n adapter handle of
        (hr, result, n') \<Rightarrow> (result, make_nd_error_code hr, n'))"

definition nd_create_listener :: "'n nd_api \<Rightarrow> ptr \<Rightarrow> ptr \<Rightarrow> 'n \<Rightarrow> ptr \<times> error_code \<times> 'n" where
  "nd_create_listener api adapter handle n =
     (case nda_create_listener api n adapter handle of
        (hr, result, n') \<Rightarrow> (result, make_nd_error_code hr, n'))"

definition nd_bind_addr :: "'n nd_api \<Rightarrow> ptr \<Rightarrow> nd_endpoint \<Rightarrow> 'n \<Rightarrow> int \<times> error_code \<times> 'n" where
  "nd_bind_addr api obj addr n =
     (case nda_bind api n obj addr of (hr, n') \<Rightarrow> (hr, make_nd_error_code hr, n'))"

text \<open>The overlapped calls: success and pending are no errors.\<close>

definition nd_overlapped :: "int \<times> 'n \<Rightarrow> int \<times> error_code \<times> 'n" where
  "nd_overlapped r =
     (case r of (hr, n) \<Rightarrow>
        (hr, if hr \<noteq> ND_SUCCESS \<and> hr \<noteq> ND_PENDING then make_nd_error_code hr else no_error, n))"

definition nd_accept ::
  "'n nd_api \<Rightarrow> ptr \<Rightarrow> ptr \<Rightarrow> u32 \<Rightarrow> u32 \<Rightarrow> u8 list option \<Rightarrow> u32 \<Rightarrow> 'n \<Rightarrow> int \<times> error_code \<times> 'n" where
  "nd_accept api connector qp inbound outbound pd len n =
     nd_overlapped (nda_accept api n connector qp inbound outbound pd len)"

definition nd_connect ::
  "'n nd_api \<Rightarrow> ptr \<Rightarrow> ptr \<Rightarrow> nd_endpoint \<Rightarrow> u32 \<Rightarrow> u32 \<Rightarrow> u8 list option \<Rightarrow> u32 \<Rightarrow> 'n
   \<Rightarrow> int \<times> error_code \<times> 'n" where
  "nd_connect api connector qp addr inbound outbound pd len n =
     nd_overlapped (nda_connect api n connector qp addr inbound outbound pd len)"

definition nd_disconnect_call :: "'n nd_api \<Rightarrow> ptr \<Rightarrow> 'n \<Rightarrow> int \<times> error_code \<times> 'n" where
  "nd_disconnect_call api connector n = nd_overlapped (nda_disconnect api n connector)"

definition nd_notify_disconnect :: "'n nd_api \<Rightarrow> ptr \<Rightarrow> 'n \<Rightarrow> int \<times> error_code \<times> 'n" where
  "nd_notify_disconnect api connector n = nd_overlapped (nda_notify_disconnect api n connector)"

definition nd_listen_call :: "'n nd_api \<Rightarrow> ptr \<Rightarrow> i32 \<Rightarrow> 'n \<Rightarrow> error_code \<times> 'n" where
  "nd_listen_call api listener backlog_n n =
     (case nda_listen api n listener backlog_n of (hr, n') \<Rightarrow> (make_nd_error_code hr, n'))"

definition nd_get_connection_request :: "'n nd_api \<Rightarrow> ptr \<Rightarrow> ptr \<Rightarrow> 'n \<Rightarrow> int \<times> error_code \<times> 'n" where
  "nd_get_connection_request api listener connector n =
     nd_overlapped (nda_get_connection_request api n listener connector)"

subsection \<open>The device service\<close>

record nd_device_service =
  nds_device :: "nd_adapter option"
  nds_effective_config :: rdma_config_t
  nds_registered :: bool

definition nd_device_service_new :: nd_device_service where
  "nd_device_service_new =
     \<lparr>nds_device = None, nds_effective_config = default_config, nds_registered = False\<rparr>"

definition nd_device_service_shutdown :: "nd_device_service \<Rightarrow> nd_device_service" where
  "nd_device_service_shutdown s = s\<lparr>nds_device := None, nds_registered := False\<rparr>"

definition nd_register_device ::
  "nd_adapter option \<Rightarrow> rdma_config_t \<Rightarrow> nd_device_service \<Rightarrow> nd_device_service" where
  "nd_register_device device effective s =
     s\<lparr>nds_device := device, nds_effective_config := effective, nds_registered := True\<rparr>"


subsection \<open>Handles and objects\<close>

text \<open>Dropping the connector and the handle (\<open>destroy\<close>, \<open>shutdown\<close>).\<close>

definition nd_drop :: "'n nd_api \<Rightarrow> ptr \<Rightarrow> ptr \<Rightarrow> 'n \<Rightarrow> 'n" where
  "nd_drop api connector handle n =
     (let n1 = (if connector \<noteq> nullptr then nda_release api n connector else n)
      in if is_closable_handle handle then nda_close_handle api n1 handle else n1)"

text \<open>
  Every object of the provider is opened the same way: an overlapped handle, then the object on it,
  then the handle is registered with the completion port; a failure undoes what was done.
\<close>

definition nd_open_pair ::
  "'n nd_api \<Rightarrow> (ptr \<Rightarrow> 'n \<Rightarrow> ptr \<times> error_code \<times> 'n) \<Rightarrow> ptr \<Rightarrow> 'n \<Rightarrow> error_code \<times> ptr \<times> ptr \<times> 'n" where
  "nd_open_pair api create adapter n =
     (case create_overlapped_file api adapter n of (handle, ec, n1) \<Rightarrow>
        if is_error ec then (ec, nullptr, nullptr, n1)
        else case create handle n1 of (obj, ec, n2) \<Rightarrow>
          if is_error ec then (ec, obj, nullptr, nda_close_handle api n2 handle)
          else if is_error (nda_register_handle api handle)
          then (nda_register_handle api handle, nullptr, nullptr, nd_drop api obj handle n2)
          else (nda_register_handle api handle, obj, handle, n2))"

text \<open>
  The documented behaviour: a call that succeeds returns something new, one that fails creates nothing;
  closing a handle or dropping the last reference releases exactly that object.
\<close>

definition nd_handle_law :: "('n \<Rightarrow> ptr set) \<Rightarrow> 'n nd_api \<Rightarrow> bool" where
  "nd_handle_law live api \<longleftrightarrow>
     (\<forall>n a hr h n'. nda_overlapped_file api n a = (hr, h, n') \<longrightarrow>
        (if \<not> failed hr \<and> is_closable_handle h then h \<notin> live n \<and> live n' = insert h (live n)
         else live n' = live n)) \<and>
     (\<forall>n h. live (nda_close_handle api n h) = live n - {h}) \<and>
     (\<forall>n c. live (nda_release api n c) = live n - {c})"

definition nd_factory_law :: "('n \<Rightarrow> ptr set) \<Rightarrow> (ptr \<Rightarrow> 'n \<Rightarrow> ptr \<times> error_code \<times> 'n) \<Rightarrow> bool" where
  "nd_factory_law live create \<longleftrightarrow>
     (\<forall>h n c ec n'. create h n = (c, ec, n') \<longrightarrow>
        (if is_error ec then c = nullptr \<and> live n' = live n
         else c \<noteq> nullptr \<and> c \<notin> live n \<and> live n' = insert c (live n)))"

lemmas nd_handle_lawD =
  nd_handle_law_def [THEN iffD1, THEN conjunct1, rule_format]
  nd_handle_law_def [THEN iffD1, THEN conjunct2, THEN conjunct1, rule_format]
  nd_handle_law_def [THEN iffD1, THEN conjunct2, THEN conjunct2, rule_format]

lemmas nd_factory_lawD = nd_factory_law_def [THEN iffD1, rule_format]

lemma is_error_nd [simp]: "is_error (make_nd_error_code hr) \<longleftrightarrow> hr \<noteq> ND_SUCCESS"
  by (simp add: make_nd_error_code_def is_error_def)

lemma create_overlapped_file_closable:
  "create_overlapped_file api a n = (h, ec, n') \<Longrightarrow> \<not> is_error ec \<Longrightarrow> is_closable_handle h"
  by (auto simp: create_overlapped_file_def failed_def split: prod.splits if_splits)

lemma create_overlapped_file_live:
  assumes "nd_handle_law live api" and "create_overlapped_file api a n = (h, ec, n')"
  shows "if is_error ec then live n' = live n
    else is_closable_handle h \<and> h \<notin> live n \<and> live n' = insert h (live n)"
proof -
  obtain hr h' m where c: "nda_overlapped_file api n a = (hr, h', m)" by (metis prod_cases3)
  have e: "failed hr \<Longrightarrow> is_error (make_nd_error_code hr)" by (simp add: failed_def)
  consider "failed hr" | "\<not> failed hr" "\<not> is_closable_handle h'" | "\<not> failed hr" "is_closable_handle h'"
    by blast
  then show ?thesis
    using assms(2) [symmetric] c nd_handle_lawD(1) [OF assms(1) c] e
    by cases (simp_all add: create_overlapped_file_def)
qed

lemma nd_drop_live:
  assumes "nd_handle_law live api" and "c \<noteq> nullptr" and "is_closable_handle h"
  shows "live (nd_drop api c h n) = live n - {c, h}"
  using assms nd_handle_lawD(2,3) [OF assms(1)] by (auto simp: nd_drop_def Let_def)

lemma nd_open_pair_live:
  assumes "nd_handle_law live api" and "nd_factory_law live create"
    and "nd_open_pair api create a n = (e, c, h, n')"
  shows "if is_error e then c = nullptr \<and> h = nullptr \<and> live n' = live n
    else c \<noteq> nullptr \<and> is_closable_handle h \<and> c \<noteq> h \<and> c \<notin> live n \<and> h \<notin> live n \<and>
      live n' = live n \<union> {c, h}"
proof -
  obtain h' e1 n1 where f: "create_overlapped_file api a n = (h', e1, n1)" by (metis prod_cases3)
  obtain c' e2 n2 where k: "create h' n1 = (c', e2, n2)" by (metis prod_cases3)
  note F = create_overlapped_file_live [OF assms(1) f] and K = nd_factory_lawD [OF assms(2) k]
  consider "is_error e1" | "\<not> is_error e1" "is_error e2" |
    "\<not> is_error e1" "\<not> is_error e2" "is_error (nda_register_handle api h')" |
    "\<not> is_error e1" "\<not> is_error e2" "\<not> is_error (nda_register_handle api h')" by blast
  then show ?thesis
  proof cases
    case 1
    then show ?thesis using assms(3) f F by (simp add: nd_open_pair_def)
  next
    case 2
    then show ?thesis using assms(3) [symmetric] f k F K nd_handle_lawD(2) [OF assms(1)]
      by (simp add: nd_open_pair_def)
  next
    case 3
    then have "live (nd_drop api c' h' n2) = live n"
      using F K by (auto simp: nd_drop_live [OF assms(1)])
    then show ?thesis using 3 assms(3) [symmetric] f k by (simp add: nd_open_pair_def)
  next
    case 4
    then have "(e, c, h, n') = (nda_register_handle api h', c', h', n2)"
      using assms(3) [symmetric] f k by (simp add: nd_open_pair_def)
    moreover have "live n2 = live n \<union> {c', h'}" "c' \<noteq> h'" "c' \<notin> live n" using 4 F K by auto
    ultimately show ?thesis using 4 F K by simp
  qed
qed

subsection \<open>Ownership\<close>

text \<open>The objects a pair of an object and its handle stands for; null and invalid handles are none.\<close>

definition pair_objs :: "ptr \<Rightarrow> ptr \<Rightarrow> ptr multiset" where
  "pair_objs c h = (if c \<noteq> nullptr then {#c#} else {#}) + (if is_closable_handle h then {#h#} else {#})"

lemma mset_set_Diff1: "finite A \<Longrightarrow> x \<in> A \<Longrightarrow> mset_set (A - {x}) = mset_set A - {#x#}"
  by (simp add: mset_set_Diff)

lemma pair_objs_null [simp]: "pair_objs nullptr nullptr = {#}"
  by (simp add: pair_objs_def is_closable_handle_def)

lemma pair_removed:
  assumes "finite A" and "mset_set A = X + pair_objs c h"
  shows "mset_set (A - (if c \<noteq> nullptr then {c} else {}) - (if is_closable_handle h then {h} else {})) = X"
proof -
  have "pair_objs c h \<subseteq># mset_set A" using assms(2) by simp
  then have "(c \<noteq> nullptr \<longrightarrow> c \<in> A) \<and> (is_closable_handle h \<longrightarrow> h \<in> A) \<and>
      (c \<noteq> nullptr \<and> is_closable_handle h \<longrightarrow> c \<noteq> h)"
    using assms(1)
    by (auto simp: pair_objs_def insert_subset_eq_iff mset_set_Diff1 [symmetric] split: if_splits)
  then show ?thesis
    using assms by (auto simp: pair_objs_def mset_set_Diff1 split: if_splits)
qed

lemma nd_drop_objs:
  assumes "nd_handle_law live api" and "finite (live n)" and "mset_set (live n) = X + pair_objs c h"
  shows "mset_set (live (nd_drop api c h n)) = X \<and> finite (live (nd_drop api c h n))"
proof -
  have "live (nd_drop api c h n) =
      live n - (if c \<noteq> nullptr then {c} else {}) - (if is_closable_handle h then {h} else {})"
    by (simp add: nd_drop_def Let_def nd_handle_lawD(2,3) [OF assms(1)])
  then show ?thesis using pair_removed [OF assms(2,3)] assms(2) by simp
qed

lemma nd_open_pair_objs:
  assumes "nd_handle_law live api" and "nd_factory_law live create"
    and "nd_open_pair api create a n = (e, c, h, n')" and "finite (live n)"
  shows "mset_set (live n') = mset_set (live n) + pair_objs c h \<and> finite (live n') \<and>
    (is_error e \<longleftrightarrow> c = nullptr) \<and> (is_error e \<longleftrightarrow> \<not> is_closable_handle h)"
proof (cases "is_error e")
  case True
  then show ?thesis
    using nd_open_pair_live [OF assms(1-3)] assms(4) by (simp add: is_closable_handle_def)
next
  case False
  then show ?thesis
    using nd_open_pair_live [OF assms(1-3)] assms(4) by (simp add: pair_objs_def)
qed

text \<open>Capabilities and an adapter for the examples.\<close>

definition nd_example_caps :: native_context_config_t where
  "nd_example_caps =
     \<lparr>MaxCompletionQueueDepth = 64, MaxInitiatorQueueDepth = 32, MaxReceiveQueueDepth = 32,
      MaxInitiatorSge = 4, MaxReceiveSge = 4, MaxInlineDataSize = 0, MaxInboundReadLimit = 16,
      MaxOutboundReadLimit = 16, MaxRegistrationSize = 65536, MaxWindowSize = 65536, MaxReadSge = 4,
      MaxTransferLength = 65536, MaxSharedReceiveQueueDepth = 0, InlineRequestThreshold = 0,
      LargeRequestThreshold = 0, MaxCallerData = 256, MaxCalleeData = 256, AdapterFlags = 0\<rparr>"

definition nd_example_adapter :: nd_adapter where
  "nd_example_adapter =
     \<lparr>na_adapter = 8, na_pd = 9, na_info = nd_example_caps, na_v4 = Some (V4 1), na_v6 = None,
      na_adapter_id = 1, na_name = ''nd0'', na_sync = 10\<rparr>"

end
