(* ===== verification/ND_Verbs.thy ===== *)
theory ND_Verbs
  imports Verbs_Accounting ND_Provider
begin

text \<open>
  The data-plane service of NetworkDirect: \<open>nd/detail/nd_ops_verbs.hpp\<close>, \<open>nd/detail/impl/nd_ops_verbs.ipp\<close>,
  \<open>nd/detail/nd_service_verbs.hpp\<close> and \<open>nd/detail/impl/nd_service_verbs.ipp\<close>.

  The provider is the type parameter \<open>'h\<close>; the four post calls of \<open>IND2QueuePair\<close> are the fields of
  \<open>nd_post_api\<close> and return an \<open>HRESULT\<close>. The posting functions are shown to be the same closed form
  \<open>post_spec\<close> as those of the libibverbs service, so its lemmas on posting and accounting hold for both.
\<close>

subsection \<open>The post wrappers\<close>

record 'h nd_post_api =
  ndp_send :: "'h \<Rightarrow> ptr \<Rightarrow> ptr \<Rightarrow> native_sge list \<Rightarrow> u32 \<Rightarrow> i32 \<Rightarrow> int \<times> 'h"
  ndp_receive :: "'h \<Rightarrow> ptr \<Rightarrow> ptr \<Rightarrow> native_sge list \<Rightarrow> u32 \<Rightarrow> int \<times> 'h"
  ndp_read :: "'h \<Rightarrow> ptr \<Rightarrow> ptr \<Rightarrow> native_sge list \<Rightarrow> u32 \<Rightarrow> u64 \<Rightarrow> u32 \<Rightarrow> i32 \<Rightarrow> int \<times> 'h"
  ndp_write :: "'h \<Rightarrow> ptr \<Rightarrow> ptr \<Rightarrow> native_sge list \<Rightarrow> u32 \<Rightarrow> u64 \<Rightarrow> u32 \<Rightarrow> i32 \<Rightarrow> int \<times> 'h"

definition nd_post_send ::
  "'h nd_post_api \<Rightarrow> ptr \<Rightarrow> ptr \<Rightarrow> native_sge list \<Rightarrow> nat \<Rightarrow> 'h \<Rightarrow> error_code \<times> 'h" where
  "nd_post_send api qp ctxt sges cnt h =
     (case ndp_send api h qp ctxt (take cnt sges) (of_nat cnt) 0 of (hr, h') \<Rightarrow> (make_nd_error_code hr, h'))"

definition nd_post_recv ::
  "'h nd_post_api \<Rightarrow> ptr \<Rightarrow> ptr \<Rightarrow> native_sge list \<Rightarrow> nat \<Rightarrow> 'h \<Rightarrow> error_code \<times> 'h" where
  "nd_post_recv api qp ctxt sges cnt h =
     (case ndp_receive api h qp ctxt (take cnt sges) (of_nat cnt) of (hr, h') \<Rightarrow> (make_nd_error_code hr, h'))"

definition nd_post_read ::
  "'h nd_post_api \<Rightarrow> ptr \<Rightarrow> ptr \<Rightarrow> native_sge list \<Rightarrow> nat \<Rightarrow> u64 \<Rightarrow> u32 \<Rightarrow> 'h \<Rightarrow> error_code \<times> 'h" where
  "nd_post_read api qp ctxt sges cnt raddr token h =
     (case ndp_read api h qp ctxt (take cnt sges) (of_nat cnt) raddr token 0 of
        (hr, h') \<Rightarrow> (make_nd_error_code hr, h'))"

definition nd_post_write ::
  "'h nd_post_api \<Rightarrow> ptr \<Rightarrow> ptr \<Rightarrow> native_sge list \<Rightarrow> nat \<Rightarrow> u64 \<Rightarrow> u32 \<Rightarrow> 'h \<Rightarrow> error_code \<times> 'h" where
  "nd_post_write api qp ctxt sges cnt raddr token h =
     (case ndp_write api h qp ctxt (take cnt sges) (of_nat cnt) raddr token 0 of
        (hr, h') \<Rightarrow> (make_nd_error_code hr, h'))"

subsection \<open>Per-queue-pair state and the creation of the queue pair\<close>

record nd_verbs_impl =
  nvi_qp :: ptr
  nvi_cq :: ptr
  nvi_device :: "nd_adapter option"
  nvi_config :: rdma_config_t
  nvi_poll_cq :: ptr

definition nd_verbs_impl_new :: nd_verbs_impl where
  "nd_verbs_impl_new =
     \<lparr>nvi_qp = nullptr, nvi_cq = nullptr, nvi_device = None, nvi_config = default_config,
      nvi_poll_cq = nullptr\<rparr>"

definition nd_is_bound :: "nd_verbs_impl \<Rightarrow> bool" where
  "nd_is_bound impl \<longleftrightarrow> nvi_cq impl \<noteq> nullptr"

record nd_qp_init_attr =
  nqa_context :: ptr
  nqa_rcq :: ptr
  nqa_icq :: ptr
  nqa_max_send_wr :: u32
  nqa_max_recv_wr :: u32
  nqa_max_send_sge :: u32
  nqa_max_recv_sge :: u32
  nqa_max_inline_data :: u32

definition nd_qp_attr_of :: "nd_verbs_impl \<Rightarrow> nd_qp_init_attr" where
  "nd_qp_attr_of impl =
     \<lparr>nqa_context = nullptr, nqa_rcq = nvi_cq impl, nqa_icq = nvi_cq impl,
      nqa_max_send_wr = max_send_wr (nvi_config impl), nqa_max_recv_wr = max_recv_wr (nvi_config impl),
      nqa_max_send_sge = max_send_sge (nvi_config impl), nqa_max_recv_sge = max_recv_sge (nvi_config impl),
      nqa_max_inline_data = max_inline_data (nvi_config impl)\<rparr>"

text \<open>
  \<open>CreateQueuePair\<close> of the protection domain's context. The result is attached whatever the code; a
  call that fails stores no queue pair (\<open>nd_create_qp_law\<close>).
\<close>

type_synonym 'h nd_create_qp_fn = "'h \<Rightarrow> ptr \<Rightarrow> nd_qp_init_attr \<Rightarrow> int \<times> ptr \<times> 'h"

definition nd_create_qp ::
  "'h nd_create_qp_fn \<Rightarrow> nd_verbs_impl \<Rightarrow> 'h \<Rightarrow> error_code \<times> nd_verbs_impl \<times> 'h" where
  "nd_create_qp create impl h =
     (if nvi_qp impl \<noteq> nullptr then (already_open, impl, h)
      else case nvi_device impl of
        None \<Rightarrow> (make_error_code invalid_device, impl, h)
      | Some d \<Rightarrow>
          if na_pd d = nullptr \<or> nvi_cq impl = nullptr
          then (make_error_code invalid_device, impl, h)
          else case create h (na_pd d) (nd_qp_attr_of impl) of
            (hr, qp, h') \<Rightarrow> (make_nd_error_code hr, impl\<lparr>nvi_qp := qp\<rparr>, h'))"

subsection \<open>Posting\<close>

definition nd_exceeds_sge_limit :: "nat \<Rightarrow> u32 \<Rightarrow> error_code \<Rightarrow> bool \<times> error_code" where
  "nd_exceeds_sge_limit sge_count sge_max ec =
     (if sge_max \<noteq> 0 \<and> sge_count > unat sge_max then (True, make_error_code too_many_sge)
      else (False, ec))"

definition nd_exceeds_buffer_limit :: "size_t \<Rightarrow> error_code \<Rightarrow> bool \<times> error_code" where
  "nd_exceeds_buffer_limit len ec =
     (if len > u32_max then (True, make_error_code buffer_too_large) else (False, ec))"

definition nd_do_post_send ::
  "'h nd_post_api \<Rightarrow> nd_verbs_impl \<Rightarrow> ptr \<Rightarrow> verbs_op \<Rightarrow> 'h \<Rightarrow> bool \<times> verbs_op \<times> 'h" where
  "nd_do_post_send api impl p op h =
     (case op_buffers op of
        Single_buffer b \<Rightarrow>
          if buf_length b = 0 then (True, op, h)
          else case nd_exceeds_sge_limit 1 (max_send_sge (nvi_config impl)) (op_ec op) of (over, ec) \<Rightarrow>
          if over then (True, op\<lparr>op_ec := ec\<rparr>, h)
          else case nd_exceeds_buffer_limit (buf_length b) ec of (over, ec) \<Rightarrow>
          if over then (True, op\<lparr>op_ec := ec\<rparr>, h)
          else case nd_post_send api (nvi_qp impl) p [nd_fill_native_sge b] 1 h of
            (ec, h') \<Rightarrow>
              (is_error ec, (set_posted_bytes (buf_length b) op)\<lparr>op_ec := ec\<rparr>, h')
      | Buffer_sequence bs \<Rightarrow>
          (case nd_build_native_sglist bs small_sglist_new (max_send_sge (nvi_config impl)) of
             (built, sglist) \<Rightarrow>
               if built_too_many_sge built
               then (True, op\<lparr>op_ec := make_error_code too_many_sge\<rparr>, h)
               else if built_buffer_too_large built
               then (True, op\<lparr>op_ec := make_error_code buffer_too_large\<rparr>, h)
               else if built_all_empty built then (True, op, h)
               else case nd_post_send api (nvi_qp impl) p (sgl_contents sglist) (built_count built) h of
                 (ec, h') \<Rightarrow>
                   (is_error ec,
                    (set_posted_bytes (built_total_bytes built) op)\<lparr>op_ec := ec\<rparr>, h')))"

definition nd_do_post_recv ::
  "'h nd_post_api \<Rightarrow> nd_verbs_impl \<Rightarrow> ptr \<Rightarrow> verbs_op \<Rightarrow> 'h \<Rightarrow> bool \<times> verbs_op \<times> 'h" where
  "nd_do_post_recv api impl p op h =
     (case op_buffers op of
        Single_buffer b \<Rightarrow>
          if buf_length b = 0 then (True, op, h)
          else case nd_exceeds_sge_limit 1 (max_recv_sge (nvi_config impl)) (op_ec op) of (over, ec) \<Rightarrow>
          if over then (True, op\<lparr>op_ec := ec\<rparr>, h)
          else case nd_exceeds_buffer_limit (buf_length b) ec of (over, ec) \<Rightarrow>
          if over then (True, op\<lparr>op_ec := ec\<rparr>, h)
          else case nd_post_recv api (nvi_qp impl) p [nd_fill_native_sge b] 1 h of
            (ec, h') \<Rightarrow> (is_error ec, op\<lparr>op_ec := ec\<rparr>, h')
      | Buffer_sequence bs \<Rightarrow>
          (case nd_build_native_sglist bs small_sglist_new (max_recv_sge (nvi_config impl)) of
             (built, sglist) \<Rightarrow>
               if built_too_many_sge built
               then (True, op\<lparr>op_ec := make_error_code too_many_sge\<rparr>, h)
               else if built_buffer_too_large built
               then (True, op\<lparr>op_ec := make_error_code buffer_too_large\<rparr>, h)
               else if built_all_empty built then (True, op, h)
               else case nd_post_recv api (nvi_qp impl) p (sgl_contents sglist) (built_count built) h of
                 (ec, h') \<Rightarrow> (is_error ec, op\<lparr>op_ec := ec\<rparr>, h')))"

definition nd_do_post_read ::
  "'h nd_post_api \<Rightarrow> nd_verbs_impl \<Rightarrow> ptr \<Rightarrow> verbs_op \<Rightarrow> 'h \<Rightarrow> bool \<times> verbs_op \<times> 'h" where
  "nd_do_post_read api impl p op h =
     (case op_buffers op of
        Single_buffer b \<Rightarrow>
          if buf_length b = 0 then (True, op, h)
          else case nd_exceeds_sge_limit 1 (max_send_sge (nvi_config impl)) (op_ec op) of (over, ec) \<Rightarrow>
          if over then (True, op\<lparr>op_ec := ec\<rparr>, h)
          else case nd_exceeds_buffer_limit (buf_length b) ec of (over, ec) \<Rightarrow>
          if over then (True, op\<lparr>op_ec := ec\<rparr>, h)
          else case nd_post_read api (nvi_qp impl) p [nd_fill_native_sge b] 1
              (remote_address (op_remote op)) (remote_token (op_remote op)) h of
            (ec, h') \<Rightarrow> (is_error ec, op\<lparr>op_ec := ec\<rparr>, h')
      | Buffer_sequence bs \<Rightarrow>
          (case nd_build_native_sglist bs small_sglist_new (max_send_sge (nvi_config impl)) of
             (built, sglist) \<Rightarrow>
               if built_too_many_sge built
               then (True, op\<lparr>op_ec := make_error_code too_many_sge\<rparr>, h)
               else if built_buffer_too_large built
               then (True, op\<lparr>op_ec := make_error_code buffer_too_large\<rparr>, h)
               else if built_all_empty built then (True, op, h)
               else case nd_post_read api (nvi_qp impl) p (sgl_contents sglist) (built_count built)
                   (remote_address (op_remote op)) (remote_token (op_remote op)) h of
                 (ec, h') \<Rightarrow> (is_error ec, op\<lparr>op_ec := ec\<rparr>, h')))"

definition nd_do_post_write ::
  "'h nd_post_api \<Rightarrow> nd_verbs_impl \<Rightarrow> ptr \<Rightarrow> verbs_op \<Rightarrow> 'h \<Rightarrow> bool \<times> verbs_op \<times> 'h" where
  "nd_do_post_write api impl p op h =
     (case op_buffers op of
        Single_buffer b \<Rightarrow>
          if buf_length b = 0 then (True, op, h)
          else case nd_exceeds_sge_limit 1 (max_send_sge (nvi_config impl)) (op_ec op) of (over, ec) \<Rightarrow>
          if over then (True, op\<lparr>op_ec := ec\<rparr>, h)
          else case nd_exceeds_buffer_limit (buf_length b) ec of (over, ec) \<Rightarrow>
          if over then (True, op\<lparr>op_ec := ec\<rparr>, h)
          else case nd_post_write api (nvi_qp impl) p [nd_fill_native_sge b] 1
              (remote_address (op_remote op)) (remote_token (op_remote op)) h of
            (ec, h') \<Rightarrow>
              (is_error ec, (set_posted_bytes (buf_length b) op)\<lparr>op_ec := ec\<rparr>, h')
      | Buffer_sequence bs \<Rightarrow>
          (case nd_build_native_sglist bs small_sglist_new (max_send_sge (nvi_config impl)) of
             (built, sglist) \<Rightarrow>
               if built_too_many_sge built
               then (True, op\<lparr>op_ec := make_error_code too_many_sge\<rparr>, h)
               else if built_buffer_too_large built
               then (True, op\<lparr>op_ec := make_error_code buffer_too_large\<rparr>, h)
               else if built_all_empty built then (True, op, h)
               else case nd_post_write api (nvi_qp impl) p (sgl_contents sglist) (built_count built)
                   (remote_address (op_remote op)) (remote_token (op_remote op)) h of
                 (ec, h') \<Rightarrow>
                   (is_error ec,
                    (set_posted_bytes (built_total_bytes built) op)\<lparr>op_ec := ec\<rparr>, h')))"

subsection \<open>Initiating operations\<close>

definition nd_finish_poll :: "nd_verbs_impl \<Rightarrow> ptr \<Rightarrow> bool \<Rightarrow> 'h vworld \<Rightarrow> 'h vworld" where
  "nd_finish_poll impl p immediate w =
     (if immediate
      then if nvi_poll_cq impl = nullptr then w\<lparr>dangling := True\<rparr>
           else w\<lparr>ready := ready w @ [p]\<rparr>
      else w)"

definition nd_finish_event :: "nd_verbs_impl \<Rightarrow> ptr \<Rightarrow> bool \<Rightarrow> 'h vworld \<Rightarrow> 'h vworld" where
  "nd_finish_event impl p immediate w = (if immediate then w\<lparr>scheduled := scheduled w @ [p]\<rparr> else w)"

definition nd_complete_op_do_complete ::
  "(upcall \<Rightarrow> 'h vworld \<Rightarrow> 'h vworld) \<Rightarrow> bool \<Rightarrow> ptr \<Rightarrow> 'h vworld \<Rightarrow> 'h vworld" where
  "nd_complete_op_do_complete handler owner p w = complete_at handler owner p w"

definition nd_async_send_static ::
  "'h nd_post_api \<Rightarrow> nd_verbs_impl \<Rightarrow> buffer_seq \<Rightarrow> nat \<Rightarrow> ptr \<Rightarrow> 'h vworld \<Rightarrow> 'h vworld" where
  "nd_async_send_static api impl buffers h p w =
     (case post_new_op (nd_do_post_send api impl p) p
        (verbs_op_new post_send no_error buffers no_remote h) w of
        (immediate, w') \<Rightarrow> nd_finish_poll impl p immediate w')"

definition nd_async_recv_static ::
  "'h nd_post_api \<Rightarrow> nd_verbs_impl \<Rightarrow> buffer_seq \<Rightarrow> nat \<Rightarrow> ptr \<Rightarrow> 'h vworld \<Rightarrow> 'h vworld" where
  "nd_async_recv_static api impl buffers h p w =
     (case post_new_op (nd_do_post_recv api impl p) p
        (verbs_op_new post_recv no_error buffers no_remote h) w of
        (immediate, w') \<Rightarrow> nd_finish_poll impl p immediate w')"

definition nd_async_read_static ::
  "'h nd_post_api \<Rightarrow> nd_verbs_impl \<Rightarrow> buffer_seq \<Rightarrow> rdma_remote_addr_t \<Rightarrow> nat \<Rightarrow> ptr \<Rightarrow> 'h vworld \<Rightarrow> 'h vworld"
  where
  "nd_async_read_static api impl buffers remote h p w =
     (case post_new_op (nd_do_post_read api impl p) p
        (verbs_op_new remote_read no_error buffers remote h) w of
        (immediate, w') \<Rightarrow> nd_finish_poll impl p immediate w')"

definition nd_async_write_static ::
  "'h nd_post_api \<Rightarrow> nd_verbs_impl \<Rightarrow> buffer_seq \<Rightarrow> rdma_remote_addr_t \<Rightarrow> nat \<Rightarrow> ptr \<Rightarrow> 'h vworld \<Rightarrow> 'h vworld"
  where
  "nd_async_write_static api impl buffers remote h p w =
     (case post_new_op (nd_do_post_write api impl p) p
        (verbs_op_new remote_write no_error buffers remote h) w of
        (immediate, w') \<Rightarrow> nd_finish_poll impl p immediate w')"

definition nd_async_send ::
  "'h nd_post_api \<Rightarrow> nd_verbs_impl \<Rightarrow> buffer_seq \<Rightarrow> nat \<Rightarrow> ptr \<Rightarrow> 'h vworld \<Rightarrow> 'h vworld" where
  "nd_async_send api impl buffers h p w =
     (case post_new_op (nd_do_post_send api impl p) p
        (verbs_op_new post_send no_error buffers no_remote h) w of
        (immediate, w') \<Rightarrow> nd_finish_event impl p immediate w')"

definition nd_async_recv ::
  "'h nd_post_api \<Rightarrow> nd_verbs_impl \<Rightarrow> buffer_seq \<Rightarrow> nat \<Rightarrow> ptr \<Rightarrow> 'h vworld \<Rightarrow> 'h vworld" where
  "nd_async_recv api impl buffers h p w =
     (case post_new_op (nd_do_post_recv api impl p) p
        (verbs_op_new post_recv no_error buffers no_remote h) w of
        (immediate, w') \<Rightarrow> nd_finish_event impl p immediate w')"

definition nd_async_read ::
  "'h nd_post_api \<Rightarrow> nd_verbs_impl \<Rightarrow> buffer_seq \<Rightarrow> rdma_remote_addr_t \<Rightarrow> nat \<Rightarrow> ptr \<Rightarrow> 'h vworld \<Rightarrow> 'h vworld"
  where
  "nd_async_read api impl buffers remote h p w =
     (case post_new_op (nd_do_post_read api impl p) p
        (verbs_op_new remote_read no_error buffers remote h) w of
        (immediate, w') \<Rightarrow> nd_finish_event impl p immediate w')"

definition nd_async_write ::
  "'h nd_post_api \<Rightarrow> nd_verbs_impl \<Rightarrow> buffer_seq \<Rightarrow> rdma_remote_addr_t \<Rightarrow> nat \<Rightarrow> ptr \<Rightarrow> 'h vworld \<Rightarrow> 'h vworld"
  where
  "nd_async_write api impl buffers remote h p w =
     (case post_new_op (nd_do_post_write api impl p) p
        (verbs_op_new remote_write no_error buffers remote h) w of
        (immediate, w') \<Rightarrow> nd_finish_event impl p immediate w')"

subsection \<open>The posting contract\<close>

lemma nd_same_helpers:
  "nd_fill_native_sge = ibv_fill_native_sge" "nd_build_native_sglist = ibv_build_native_sglist"
  "nd_exceeds_sge_limit = exceeds_sge_limit" "nd_exceeds_buffer_limit = exceeds_buffer_limit"
proof -
  show fill: "nd_fill_native_sge = ibv_fill_native_sge"
    by (simp add: fun_eq_iff nd_fill_native_sge_def ibv_fill_native_sge_def)
  show "nd_build_native_sglist = ibv_build_native_sglist"
    by (simp add: fun_eq_iff nd_build_native_sglist_def ibv_build_native_sglist_def fill)
  show "nd_exceeds_sge_limit = exceeds_sge_limit" "nd_exceeds_buffer_limit = exceeds_buffer_limit"
    by (simp_all add: fun_eq_iff nd_exceeds_sge_limit_def exceeds_sge_limit_def
        nd_exceeds_buffer_limit_def exceeds_buffer_limit_def)
qed

text \<open>Either path of a posting function with \<open>counted\<close> and the native call \<open>native\<close> is the closed form.\<close>

lemma post_paths_spec:
  "(case op_buffers op of
      Single_buffer b \<Rightarrow>
        if buf_length b = 0 then (True, op, h)
        else case exceeds_sge_limit 1 limit (op_ec op) of (over, ec) \<Rightarrow>
        if over then (True, op\<lparr>op_ec := ec\<rparr>, h)
        else case exceeds_buffer_limit (buf_length b) ec of (over, ec) \<Rightarrow>
        if over then (True, op\<lparr>op_ec := ec\<rparr>, h)
        else case native [ibv_fill_native_sge b] 1 h of
          (ec, h') \<Rightarrow>
            (is_error ec, (if counted then set_posted_bytes (buf_length b) op else op)\<lparr>op_ec := ec\<rparr>, h')
    | Buffer_sequence bs \<Rightarrow>
        (case ibv_build_native_sglist bs small_sglist_new limit of
           (built, sglist) \<Rightarrow>
             if built_too_many_sge built then (True, op\<lparr>op_ec := make_error_code too_many_sge\<rparr>, h)
             else if built_buffer_too_large built
             then (True, op\<lparr>op_ec := make_error_code buffer_too_large\<rparr>, h)
             else if built_all_empty built then (True, op, h)
             else case native (sgl_contents sglist) (built_count built) h of
               (ec, h') \<Rightarrow>
                 (is_error ec,
                  (if counted then set_posted_bytes (built_total_bytes built) op else op)\<lparr>op_ec := ec\<rparr>,
                  h'))) =
   post_spec limit counted (\<lambda>sges. native sges (length sges)) op h"
proof (cases "op_buffers op")
  case (Single_buffer b)
  show ?thesis
    by (simp only: Single_buffer buffer_seq.case flip: single_path_spec [OF Single_buffer, where native = native])
next
  case (Buffer_sequence bs)
  then have "seq_buffers (op_buffers op) = bs" by simp
  note seq = sequence_path_spec [OF this, where native = native]
  show ?thesis by (simp only: Buffer_sequence buffer_seq.case flip: seq)
qed

lemma nd_do_post_spec:
  "nd_do_post_send api impl p op h = post_spec (max_send_sge (nvi_config impl)) True
     (\<lambda>sges. nd_post_send api (nvi_qp impl) p sges (length sges)) op h"
  "nd_do_post_recv api impl p op h = post_spec (max_recv_sge (nvi_config impl)) False
     (\<lambda>sges. nd_post_recv api (nvi_qp impl) p sges (length sges)) op h"
  "nd_do_post_read api impl p op h = post_spec (max_send_sge (nvi_config impl)) False
     (\<lambda>sges. nd_post_read api (nvi_qp impl) p sges (length sges)
        (remote_address (op_remote op)) (remote_token (op_remote op))) op h"
  "nd_do_post_write api impl p op h = post_spec (max_send_sge (nvi_config impl)) True
     (\<lambda>sges. nd_post_write api (nvi_qp impl) p sges (length sges)
        (remote_address (op_remote op)) (remote_token (op_remote op))) op h"
proof -
  note path = post_paths_spec [where native = "nd_post_send api (nvi_qp impl) p" and counted = True]
    post_paths_spec [where native = "nd_post_recv api (nvi_qp impl) p" and counted = False]
    post_paths_spec [where native = "\<lambda>sges cnt. nd_post_read api (nvi_qp impl) p sges cnt
      (remote_address (op_remote op)) (remote_token (op_remote op))" and counted = False]
    post_paths_spec [where native = "\<lambda>sges cnt. nd_post_write api (nvi_qp impl) p sges cnt
      (remote_address (op_remote op)) (remote_token (op_remote op))" and counted = True]
  show "nd_do_post_send api impl p op h = post_spec (max_send_sge (nvi_config impl)) True
     (\<lambda>sges. nd_post_send api (nvi_qp impl) p sges (length sges)) op h"
    by (simp only: nd_do_post_send_def nd_same_helpers if_True flip: path(1))
  show "nd_do_post_recv api impl p op h = post_spec (max_recv_sge (nvi_config impl)) False
     (\<lambda>sges. nd_post_recv api (nvi_qp impl) p sges (length sges)) op h"
    by (simp only: nd_do_post_recv_def nd_same_helpers if_False flip: path(2))
  show "nd_do_post_read api impl p op h = post_spec (max_send_sge (nvi_config impl)) False
     (\<lambda>sges. nd_post_read api (nvi_qp impl) p sges (length sges)
        (remote_address (op_remote op)) (remote_token (op_remote op))) op h"
    by (simp only: nd_do_post_read_def nd_same_helpers if_False flip: path(3))
  show "nd_do_post_write api impl p op h = post_spec (max_send_sge (nvi_config impl)) True
     (\<lambda>sges. nd_post_write api (nvi_qp impl) p sges (length sges)
        (remote_address (op_remote op)) (remote_token (op_remote op))) op h"
    by (simp only: nd_do_post_write_def nd_same_helpers if_True flip: path(4))
qed


interpretation nd_send_post: post_operation "nd_do_post_send api"
  "\<lambda>impl p op sges. nd_post_send api (nvi_qp impl) p sges (length sges)"
  "\<lambda>impl. max_send_sge (nvi_config impl)" True for api
  by unfold_locales (simp_all add: nd_do_post_spec)

interpretation nd_recv_post: post_operation "nd_do_post_recv api"
  "\<lambda>impl p op sges. nd_post_recv api (nvi_qp impl) p sges (length sges)"
  "\<lambda>impl. max_recv_sge (nvi_config impl)" False for api
  by unfold_locales (simp_all add: nd_do_post_spec)

interpretation nd_read_post: post_operation "nd_do_post_read api"
  "\<lambda>impl p op sges. nd_post_read api (nvi_qp impl) p sges (length sges)
     (remote_address (op_remote op)) (remote_token (op_remote op))"
  "\<lambda>impl. max_send_sge (nvi_config impl)" False for api
  by unfold_locales (simp_all add: nd_do_post_spec)

interpretation nd_write_post: post_operation "nd_do_post_write api"
  "\<lambda>impl p op sges. nd_post_write api (nvi_qp impl) p sges (length sges)
     (remote_address (op_remote op)) (remote_token (op_remote op))"
  "\<lambda>impl. max_send_sge (nvi_config impl)" True for api
  by unfold_locales (simp_all add: nd_do_post_spec)

text \<open>
  The provider's documented behaviour: a post call that returns \<open>ND_SUCCESS\<close> has queued its request, any
  other has not.
\<close>

abbreviation (input) queued :: "('h \<Rightarrow> ptr multiset) \<Rightarrow> ptr \<Rightarrow> 'h \<Rightarrow> int \<times> 'h \<Rightarrow> bool" where
  "queued outs ctxt h r \<equiv>
     outs (snd r) = (if fst r = ND_SUCCESS then add_mset ctxt (outs h) else outs h)"

definition nd_post_law :: "('h \<Rightarrow> ptr multiset) \<Rightarrow> 'h nd_post_api \<Rightarrow> bool" where
  "nd_post_law outs api \<longleftrightarrow>
     (\<forall>h qp c sges n f. queued outs c h (ndp_send api h qp c sges n f)) \<and>
     (\<forall>h qp c sges n. queued outs c h (ndp_receive api h qp c sges n)) \<and>
     (\<forall>h qp c sges n ra k f. queued outs c h (ndp_read api h qp c sges n ra k f)) \<and>
     (\<forall>h qp c sges n ra k f. queued outs c h (ndp_write api h qp c sges n ra k f))"

lemma nd_post_law_native:
  assumes "nd_post_law outs api"
  shows "native_law outs p (\<lambda>sges. nd_post_send api qp p sges (length sges))"
    "native_law outs p (\<lambda>sges. nd_post_recv api qp p sges (length sges))"
    "native_law outs p (\<lambda>sges. nd_post_read api qp p sges (length sges) ra k)"
    "native_law outs p (\<lambda>sges. nd_post_write api qp p sges (length sges) ra k)"
  using assms
  by (simp_all add: nd_post_law_def native_law_def nd_post_send_def nd_post_recv_def nd_post_read_def
      nd_post_write_def case_prod_beta)

subsection \<open>The accounting is kept\<close>

lemma nd_finish_inv:
  assumes "vw_inv outs batch (if immediate then p # held else held) w"
  shows "nvi_poll_cq impl \<noteq> nullptr \<Longrightarrow> vw_inv outs batch held (nd_finish_poll impl p immediate w)"
    "vw_inv outs batch held (nd_finish_event impl p immediate w)"
  using assms vw_inv_push_ready [of outs batch p held w] vw_inv_push_scheduled [of outs batch p held w]
  by (simp_all add: nd_finish_poll_def nd_finish_event_def split: if_splits)

lemma nd_finish_handled [simp]:
  "handled (nd_finish_poll impl p immediate w) = handled w"
  "handled (nd_finish_event impl p immediate w) = handled w"
  by (simp_all add: nd_finish_poll_def nd_finish_event_def handled_def pending_handlers_def)

lemma nd_posts_accounted:
  assumes "nd_post_law outs api"
  shows "post_accounted outs p h (nd_do_post_send api impl p (verbs_op_new post_send no_error b r n) h)"
    "post_accounted outs p h (nd_do_post_recv api impl p (verbs_op_new post_recv no_error b r n) h)"
    "post_accounted outs p h (nd_do_post_read api impl p (verbs_op_new remote_read no_error b r n) h)"
    "post_accounted outs p h (nd_do_post_write api impl p (verbs_op_new remote_write no_error b r n) h)"
  by (intro nd_send_post.accounted nd_recv_post.accounted nd_read_post.accounted nd_write_post.accounted
      nd_post_law_native [OF assms]; simp)+

lemma nd_posts_handler:
  "op_handler (fst (snd (nd_do_post_send api impl p op h))) = op_handler op"
  "op_handler (fst (snd (nd_do_post_recv api impl p op h))) = op_handler op"
  "op_handler (fst (snd (nd_do_post_read api impl p op h))) = op_handler op"
  "op_handler (fst (snd (nd_do_post_write api impl p op h))) = op_handler op"
  using nd_send_post.identity_kept nd_recv_post.identity_kept nd_read_post.identity_kept
    nd_write_post.identity_kept
  by (metis prod.collapse)+

text \<open>The eight initiating functions as one: which post, and where an immediate completion goes.\<close>

fun nd_initiate ::
  "'h nd_post_api \<Rightarrow> bool \<Rightarrow> verbs_op_type \<Rightarrow> nd_verbs_impl \<Rightarrow> buffer_seq \<Rightarrow> rdma_remote_addr_t \<Rightarrow> nat \<Rightarrow> ptr
   \<Rightarrow> 'h vworld \<Rightarrow> 'h vworld" where
  "nd_initiate api True post_send impl b r h p w = nd_async_send api impl b h p w"
| "nd_initiate api True post_recv impl b r h p w = nd_async_recv api impl b h p w"
| "nd_initiate api True remote_read impl b r h p w = nd_async_read api impl b r h p w"
| "nd_initiate api True remote_write impl b r h p w = nd_async_write api impl b r h p w"
| "nd_initiate api False post_send impl b r h p w = nd_async_send_static api impl b h p w"
| "nd_initiate api False post_recv impl b r h p w = nd_async_recv_static api impl b h p w"
| "nd_initiate api False remote_read impl b r h p w = nd_async_read_static api impl b r h p w"
| "nd_initiate api False remote_write impl b r h p w = nd_async_write_static api impl b r h p w"

lemmas nd_async_defs =
  nd_async_send_def nd_async_recv_def nd_async_read_def nd_async_write_def nd_async_send_static_def
  nd_async_recv_static_def nd_async_read_static_def nd_async_write_static_def

lemma nd_initiate_inv:
  assumes "vw_inv outs batch held w" and "fresh_op p w" and "nd_post_law outs api"
    and "event \<or> nvi_poll_cq impl \<noteq> nullptr"
  shows "vw_inv outs batch held (nd_initiate api event kind impl b r h p w)"
proof -
  have new: "post_new_op f p op w = (i, w') \<Longrightarrow> post_accounted outs p (hw w) (f op (hw w)) \<Longrightarrow>
      vw_inv outs batch (if i then p # held else held) w'" for f op i w'
    using post_new_op_inv [OF assms(1,2)] by blast
  show ?thesis
    using assms(4)
    by (cases event; cases kind)
      (auto simp: nd_async_defs nd_posts_accounted [OF assms(3)] split: prod.split dest!: new intro!: nd_finish_inv)
qed

lemma nd_initiate_handled:
  assumes "finite (dom (live_ops w))" and "fresh_op p w"
  shows "handled (nd_initiate api event kind impl b r h p w) = add_mset h (handled w)"
proof -
  have new: "post_new_op f p op w = (i, w') \<Longrightarrow> op_handler (fst (snd (f op (hw w)))) = op_handler op \<Longrightarrow>
      handled w' = add_mset (op_handler op) (handled w)" for f op i w'
    using post_new_op_handled [OF assms] by blast
  show ?thesis
    by (cases event; cases kind)
      (auto simp: nd_async_defs nd_posts_handler split: prod.split dest!: new)
qed

end
