(* ===== verification/ND_Completion_Queue.thy ===== *)
theory ND_Completion_Queue
  imports ND_Verbs Completion_Dispatch
begin

text \<open>
  Completions on NetworkDirect: the poll-mode queue (\<open>nd/nd_completion_queue.hpp\<close>,
  \<open>nd/impl/nd_completion_queue.ipp\<close>) and the event service of an \<open>io_context\<close>
  (\<open>nd/detail/nd_service_io_completion.hpp\<close>, \<open>nd/detail/impl/nd_service_io_completion.ipp\<close>).

  \<open>IND2CompletionQueue\<close> is three calls of \<open>nd_cq_api\<close>. The event service has one poller, an overlapped
  request that is either pending in the kernel (\<open>NPoller_pending\<close>) or posted to the scheduler
  (\<open>NPoller_posted\<close>). The lemmas interpret the interface \<open>wc_resolution\<close> of the data plane's accounting.
\<close>

subsection \<open>Work completions\<close>

datatype nd_request_type =
  Nd2RequestTypeReceive | Nd2RequestTypeSend | Nd2RequestTypeBind | Nd2RequestTypeInvalidate |
  Nd2RequestTypeRead | Nd2RequestTypeWrite

record nd_wc =
  nwc_context :: u64
  nwc_status :: int
  nwc_type :: nd_request_type
  nwc_bytes :: u32

record 'h nd_cq_api =
  ncq_create :: "'h \<Rightarrow> ptr \<Rightarrow> ptr \<Rightarrow> u32 \<Rightarrow> int \<times> ptr \<times> 'h"
  ncq_notify :: "'h \<Rightarrow> ptr \<Rightarrow> int \<times> 'h"
  ncq_get_results :: "'h \<Rightarrow> nat \<Rightarrow> nat \<times> nd_wc list \<times> 'h"

definition nd_create_cq ::
  "'h nd_cq_api \<Rightarrow> ptr \<Rightarrow> u32 \<Rightarrow> ptr \<Rightarrow> 'h \<Rightarrow> ptr \<times> error_code \<times> 'h" where
  "nd_create_cq api context depth handle h =
     (case ncq_create api h context handle depth of (hr, result, h') \<Rightarrow> (result, make_nd_error_code hr, h'))"

definition nd_notify_cq :: "'h nd_cq_api \<Rightarrow> ptr \<Rightarrow> 'h \<Rightarrow> int \<times> error_code \<times> 'h" where
  "nd_notify_cq api cq h = nd_overlapped (ncq_notify api h cq)"

text \<open>What a completion stamps on its operation: the code in every case.\<close>

definition nd_stamp_wc :: "nd_wc \<Rightarrow> verbs_op \<Rightarrow> verbs_op" where
  "nd_stamp_wc wc op =
     (let op1 = op\<lparr>op_ec := completion_status_to_error (nwc_status wc)\<rparr> in
      if \<not> is_error (op_ec op1)
      then if nwc_type wc \<noteq> Nd2RequestTypeSend \<and> nwc_type wc \<noteq> Nd2RequestTypeWrite
           then op1\<lparr>op_bytes := ucast (nwc_bytes wc)\<rparr> else op1
      else op1\<lparr>op_bytes := 0\<rparr>)"

definition nd_resolve_wc :: "nd_wc \<Rightarrow> 'h vworld \<Rightarrow> ptr option \<times> 'h vworld" where
  "nd_resolve_wc wc w =
     (if nwc_context wc = 0 then (None, w)
      else case live_ops w (nwc_context wc) of
        None \<Rightarrow> (Some (nwc_context wc), w\<lparr>dangling := True\<rparr>)
      | Some op \<Rightarrow>
          (Some (nwc_context wc), w\<lparr>live_ops := (live_ops w)(nwc_context wc \<mapsto> nd_stamp_wc wc op)\<rparr>))"

subsection \<open>The poll-mode queue\<close>

record nd_completion_queue =
  ncq_device :: nd_adapter
  ncq_effective_config :: rdma_config_t
  ncq_handle :: ptr
  ncq_file :: ptr
  ncq_wc_buf_size :: nat

text \<open>The constructor: \<open>Inl\<close> is the exception.\<close>

definition nd_completion_queue_ctor ::
  "'h nd_api \<Rightarrow> 'h nd_cq_api \<Rightarrow> nd_adapter \<Rightarrow> rdma_config_t \<Rightarrow> 'h \<Rightarrow> (error_code + nd_completion_queue) \<times> 'h"
  where
  "nd_completion_queue_ctor api cqa device config h =
     (let effective = nd_derive_effective_config config (na_info device);
          wcsize = (if cq_poll_batch effective \<noteq> 0 then unat (cq_poll_batch effective) else 16)
      in case create_overlapped_file api (na_adapter device) h of (handle, ec, h1) \<Rightarrow>
        if is_error ec then (Inl ec, h1)
        else case nd_create_cq cqa (na_adapter device) (cqe effective) handle h1 of (cq, ec, h2) \<Rightarrow>
          if is_error ec
          then (Inl ec, let h3 = nda_close_handle api h2 handle
                        in if cq \<noteq> nullptr then nda_release api h3 cq else h3)
          else (Inr \<lparr>ncq_device = device, ncq_effective_config = effective, ncq_handle = cq,
                     ncq_file = handle, ncq_wc_buf_size = wcsize\<rparr>, h2))"

definition nd_push_ready :: "ptr \<Rightarrow> 'h vworld \<Rightarrow> 'h vworld" where
  "nd_push_ready p w = w\<lparr>ready := ready w @ [p]\<rparr>"

definition nd_pop_ready :: "'h vworld \<Rightarrow> ptr option \<times> 'h vworld" where
  "nd_pop_ready w = (case ready w of [] \<Rightarrow> (None, w) | p # ps \<Rightarrow> (Some p, w\<lparr>ready := ps\<rparr>))"

definition nd_dispatch_completion :: "'h handler_fn \<Rightarrow> nd_wc \<Rightarrow> 'h vworld \<Rightarrow> 'h vworld" where
  "nd_dispatch_completion handler wc w =
     (if nwc_context wc = 0 then w
      else case live_ops w (nwc_context wc) of
        None \<Rightarrow> complete_at handler True (nwc_context wc) (w\<lparr>dangling := True\<rparr>)
      | Some op \<Rightarrow>
          complete_at handler True (nwc_context wc)
            (w\<lparr>live_ops := (live_ops w)(nwc_context wc \<mapsto> nd_stamp_wc wc op)\<rparr>))"

fun nd_drain_local :: "'h handler_fn \<Rightarrow> ptr list \<Rightarrow> nat \<Rightarrow> 'h vworld \<Rightarrow> nat \<times> 'h vworld" where
  "nd_drain_local handler [] n w = (n, w)"
| "nd_drain_local handler (p # ps) n w =
     nd_drain_local handler ps (n + 1) (complete_at handler True p w)"

definition nd_drain_ready :: "'h handler_fn \<Rightarrow> 'h vworld \<Rightarrow> nat \<times> 'h vworld" where
  "nd_drain_ready handler w = nd_drain_local handler (ready w) 0 (w\<lparr>ready := []\<rparr>)"

partial_function (option) nd_poll_loop ::
  "'h nd_cq_api \<Rightarrow> 'h handler_fn \<Rightarrow> nat \<Rightarrow> nat \<Rightarrow> 'h vworld \<Rightarrow> (nat \<times> 'h vworld) option" where
  "nd_poll_loop api handler wcsize tot w =
     (case ncq_get_results api (hw w) wcsize of (retrieved, wcs, h') \<Rightarrow>
        let w' = fold (nd_dispatch_completion handler) (take retrieved wcs) (w\<lparr>hw := h'\<rparr>) in
        if retrieved \<noteq> 0 then nd_poll_loop api handler wcsize (tot + retrieved) w'
        else Some (tot + retrieved, w'))"

definition nd_cq_poll ::
  "'h nd_cq_api \<Rightarrow> 'h handler_fn \<Rightarrow> nd_completion_queue \<Rightarrow> 'h vworld \<Rightarrow> (nat \<times> 'h vworld) option" where
  "nd_cq_poll api handler cq w =
     (case nd_drain_ready handler w of
        (tot, w') \<Rightarrow> nd_poll_loop api handler (ncq_wc_buf_size cq) tot w')"

definition nd_cq_poll_one :: "'h nd_cq_api \<Rightarrow> 'h handler_fn \<Rightarrow> 'h vworld \<Rightarrow> nat \<times> 'h vworld" where
  "nd_cq_poll_one api handler w =
     (case nd_pop_ready w of
        (Some p, w') \<Rightarrow> (1, complete_at handler True p w')
      | (None, _) \<Rightarrow>
          (case ncq_get_results api (hw w) 1 of (retrieved, wcs, h') \<Rightarrow>
             if retrieved > 0 then (1, nd_dispatch_completion handler (hd wcs) (w\<lparr>hw := h'\<rparr>))
             else (0, w\<lparr>hw := h'\<rparr>)))"

subsection \<open>The event service\<close>

datatype nd_poller_phase = NPoller_idle | NPoller_pending | NPoller_posted

record nd_io_service =
  nio_cq :: ptr
  nio_handle :: ptr
  nio_wc_size :: nat
  nio_started :: bool
  nio_phase :: nd_poller_phase

definition nd_io_service_new :: nd_io_service where
  "nd_io_service_new =
     \<lparr>nio_cq = nullptr, nio_handle = nullptr, nio_wc_size = 0, nio_started = False,
      nio_phase = NPoller_idle\<rparr>"

definition nd_io_drop_handle :: "'h nd_api \<Rightarrow> nd_io_service \<times> 'h \<Rightarrow> nd_io_service \<times> 'h" where
  "nd_io_drop_handle api = (\<lambda>(s, h).
     (s\<lparr>nio_handle := nullptr\<rparr>,
      if is_closable_handle (nio_handle s) then nda_close_handle api h (nio_handle s) else h))"

definition nd_io_drop_cq :: "'h nd_api \<Rightarrow> nd_io_service \<times> 'h \<Rightarrow> nd_io_service \<times> 'h" where
  "nd_io_drop_cq api = (\<lambda>(s, h).
     (s\<lparr>nio_cq := nullptr\<rparr>, if nio_cq s \<noteq> nullptr then nda_release api h (nio_cq s) else h))"

definition nd_io_shutdown :: "'h nd_api \<Rightarrow> nd_io_service \<times> 'h \<Rightarrow> nd_io_service \<times> 'h" where
  "nd_io_shutdown api sh = nd_io_drop_handle api (nd_io_drop_cq api sh)"

definition nd_io_initialize ::
  "'h nd_api \<Rightarrow> 'h nd_cq_api \<Rightarrow> nd_adapter option \<Rightarrow> u32 \<Rightarrow> u32 \<Rightarrow> nd_io_service \<Rightarrow> 'h
   \<Rightarrow> error_code \<times> nd_io_service \<times> 'h" where
  "nd_io_initialize api cqa device depth batch s h =
     (if nio_cq s \<noteq> nullptr then (make_error_code already_registered, s, h)
      else case device of
        None \<Rightarrow> (make_error_code invalid_device, s, h)
      | Some d \<Rightarrow>
          if na_adapter d = nullptr then (make_error_code invalid_device, s, h)
          else case create_overlapped_file api (na_adapter d) h of (handle, ec, h1) \<Rightarrow>
            if is_error ec then (ec, s, h1)
            else case nd_io_drop_handle api (s, h1) of (s1, h2) \<Rightarrow>
              let s2 = s1\<lparr>nio_handle := handle\<rparr> in
              case nd_create_cq cqa (na_adapter d) depth handle h2 of (cq, ec, h3) \<Rightarrow>
                let s3 = s2\<lparr>nio_cq := cq\<rparr> in
                if is_error ec then (ec, nd_io_drop_handle api (s3, h3))
                else if is_error (nda_register_handle api handle)
                then (nda_register_handle api handle, nd_io_drop_handle api (nd_io_drop_cq api (s3, h3)))
                else (nda_register_handle api handle,
                      s3\<lparr>nio_wc_size := (if batch \<noteq> 0 then unat batch else 16)\<rparr>, h3))"

definition nd_arm_poller ::
  "'h nd_cq_api \<Rightarrow> nd_io_service \<Rightarrow> 'h vworld \<Rightarrow> nd_io_service \<times> 'h vworld" where
  "nd_arm_poller api s w =
     (case nd_notify_cq api (nio_cq s) (hw w) of (hr, ec, h') \<Rightarrow>
        (s\<lparr>nio_phase := (if \<not> is_error ec \<and> hr = ND_PENDING then NPoller_pending else NPoller_posted)\<rparr>,
         w\<lparr>hw := h'\<rparr>))"

definition nd_ensure_poller_started ::
  "'h nd_cq_api \<Rightarrow> nd_io_service \<Rightarrow> 'h vworld \<Rightarrow> nd_io_service \<times> 'h vworld" where
  "nd_ensure_poller_started api s w =
     (if nio_started s then (s, w) else nd_arm_poller api (s\<lparr>nio_started := True\<rparr>) w)"

fun nd_resolve_into :: "nd_wc list \<Rightarrow> ptr list \<times> 'h vworld \<Rightarrow> ptr list \<times> 'h vworld" where
  "nd_resolve_into [] (ops, w) = (ops, w)"
| "nd_resolve_into (wc # wcs) (ops, w) =
     (case nd_resolve_wc wc w of
        (None, w') \<Rightarrow> nd_resolve_into wcs (ops, w')
      | (Some p, w') \<Rightarrow> nd_resolve_into wcs (ops @ [p], w'))"

text \<open>The loop with the number of batches still allowed.\<close>

fun nd_poll_batches ::
  "'h nd_cq_api \<Rightarrow> nat \<Rightarrow> nat \<Rightarrow> ptr list \<Rightarrow> 'h vworld \<Rightarrow> ptr list \<times> 'h vworld" where
  "nd_poll_batches api wcsize 0 ops w = (ops, w)"
| "nd_poll_batches api wcsize (Suc left) ops w =
     (case ncq_get_results api (hw w) wcsize of (n, wcs, h') \<Rightarrow>
        case nd_resolve_into (take n wcs) (ops, w\<lparr>hw := h'\<rparr>) of (ops', w') \<Rightarrow>
          if n = wcsize \<and> 0 < left then nd_poll_batches api wcsize left ops' w' else (ops', w'))"

definition nd_poll_and_dispatch ::
  "'h nd_cq_api \<Rightarrow> 'h handler_fn \<Rightarrow> nd_io_service \<Rightarrow> 'h vworld \<Rightarrow> 'h vworld" where
  "nd_poll_and_dispatch api handler s w =
     (case nd_poll_batches api (nio_wc_size s) 4 [] w of
        (ops, w') \<Rightarrow> fold (complete_at handler True) ops w')"

definition nd_poll_wc_do_complete ::
  "'h nd_cq_api \<Rightarrow> 'h handler_fn \<Rightarrow> bool \<Rightarrow> nd_io_service \<Rightarrow> 'h vworld \<Rightarrow> nd_io_service \<times> 'h vworld" where
  "nd_poll_wc_do_complete api handler owner s w =
     (if owner then nd_arm_poller api s (nd_poll_and_dispatch api handler s w)
      else (s\<lparr>nio_phase := NPoller_idle\<rparr>, w))"

subsection \<open>The accounting is kept\<close>

text \<open>
  \<open>GetResults\<close> returns at most the requested number of results, each for a request the queue pair held,
  which it then no longer holds; \<open>Notify\<close> does not touch the requests.
\<close>

definition nd_cq_law :: "('h \<Rightarrow> ptr multiset) \<Rightarrow> 'h nd_cq_api \<Rightarrow> bool" where
  "nd_cq_law outs api \<longleftrightarrow>
     (\<forall>h k n wcs h'. ncq_get_results api h k = (n, wcs, h') \<longrightarrow>
        n \<le> k \<and> length wcs = n \<and> outs h = mset (map nwc_context wcs) + outs h') \<and>
     (\<forall>h cq. outs (snd (ncq_notify api h cq)) = outs h)"

lemma nd_cq_lawD:
  assumes "nd_cq_law outs api" and "ncq_get_results api h k = (n, wcs, h')"
  shows "n \<le> k" "length wcs = n" "outs h = mset (map nwc_context wcs) + outs h'"
  using assms by (auto simp: nd_cq_law_def)

lemma nd_stamp_facts:
  "op_settled (nd_stamp_wc wc op)" "op_handler (nd_stamp_wc wc op) = op_handler op"
  by (simp_all add: nd_stamp_wc_def op_settled_def Let_def)

interpretation nd_wc_res: wc_resolution nwc_context nd_stamp_wc nd_resolve_wc
  by unfold_locales (auto simp: nd_resolve_wc_def nd_stamp_facts split: option.split)

lemma nd_dispatch_is: "nd_dispatch_completion = dispatch_with nd_resolve_wc"
  by (simp add: fun_eq_iff nd_dispatch_completion_def dispatch_with_def nd_resolve_wc_def split: option.split)

lemma nd_resolve_into_list: "nd_resolve_into wcs (out, w) = resolve_list nd_resolve_wc wcs (out, w)"
  by (induction wcs arbitrary: out w) (simp_all split: prod.split option.split)

lemma nd_drain_local_each: "nd_drain_local handler ps n w = (n + length ps, complete_each handler ps w)"
  by (induction ps arbitrary: n w) auto

lemmas nd_dispatch_all_inv = nd_wc_res.dispatch_all_inv [folded nd_dispatch_is]
lemmas nd_dispatch_all_handled = nd_wc_res.dispatch_all_handled [folded nd_dispatch_is]
lemmas nd_dispatch_all_count = nd_wc_res.dispatch_all_count [folded nd_dispatch_is]
lemmas nd_dispatch_all_quiet = nd_wc_res.dispatch_all_quiet [folded nd_dispatch_is]
lemmas nd_resolve_into_inv = nd_wc_res.resolve_list_inv [folded nd_resolve_into_list]

lemma handled_frame [simp]:
  "handled (w\<lparr>hw := h\<rparr>) = handled w" "handled (w\<lparr>ready := q\<rparr>) = handled w"
  by (simp_all add: handled_def pending_handlers_def)


definition nd_poll_post ::
  "('h \<Rightarrow> ptr multiset) \<Rightarrow> ptr list \<Rightarrow> 'h handler_fn \<Rightarrow> nat \<Rightarrow> 'h vworld \<Rightarrow> nat \<times> 'h vworld \<Rightarrow> bool" where
  "nd_poll_post outs held handler tot w r \<longleftrightarrow>
     (case r of (n, w') \<Rightarrow>
        vw_inv outs [] held w' \<and> tot \<le> n \<and>
        (\<forall>le. handler_keeps handler le \<longrightarrow> le (handled w) (handled w')) \<and>
        (handler_flat handler \<longrightarrow> length (upcalls w') + tot = length (upcalls w) + n))"

text \<open>One batch of results, dispatched.\<close>

lemma nd_batch_step:
  assumes "nd_cq_law outs api" and "handler_ok outs handler" and "vw_inv outs [] held w"
    and "ncq_get_results api (hw w) k = (n, wcs, h')"
    and "w' = fold (nd_dispatch_completion handler) (take n wcs) (w\<lparr>hw := h'\<rparr>)"
  shows "nd_poll_post outs held handler tot w (tot + n, w')"
proof -
  note law = nd_cq_lawD [OF assms(1,4)]
  let ?w = "w\<lparr>hw := h'\<rparr>"
  have b: "vw_inv outs (map nwc_context (take n wcs) @ []) held ?w"
    using vw_inv_hw [OF assms(3), of "map nwc_context wcs" h'] law by simp
  have "vw_inv outs [] held w'"
    using nd_dispatch_all_inv [OF b assms(2)] assms(5) by simp
  moreover have "le (handled w) (handled w')" if "handler_keeps handler le" for le
    using nd_dispatch_all_handled [OF b assms(2) that] assms(5) by simp
  moreover have "length (upcalls w') = length (upcalls w) + n" if "handler_flat handler"
    using nd_dispatch_all_count [OF b assms(2) that] assms(5) law(2) by simp
  ultimately show ?thesis by (auto simp: nd_poll_post_def)
qed

lemma nd_poll_post_inv: "nd_poll_post outs held handler tot w (n, w') \<Longrightarrow> vw_inv outs [] held w'"
  by (simp add: nd_poll_post_def)

lemma nd_poll_post_trans:
  assumes "nd_poll_post outs held handler tot w (n, w')" and "nd_poll_post outs held handler n w' r"
  shows "nd_poll_post outs held handler tot w r"
  using assms by (auto simp: nd_poll_post_def intro: handler_keepsD(2))

lemma nd_poll_loop_total:
  assumes law: "nd_cq_law outs api" and ok: "handler_ok outs handler"
    and quiet: "handler_quiet outs handler" and inv: "vw_inv outs [] held w"
  shows "\<exists>r. nd_poll_loop api handler k tot w = Some r \<and> nd_poll_post outs held handler tot w r"
  using inv
proof (induction "size (outs (hw w))" arbitrary: tot w rule: less_induct)
  case less
  obtain n wcs h' where g: "ncq_get_results api (hw w) k = (n, wcs, h')" by (metis prod_cases3)
  define w' where "w' = fold (nd_dispatch_completion handler) (take n wcs) (w\<lparr>hw := h'\<rparr>)"
  have post: "nd_poll_post outs held handler tot w (tot + n, w')"
    by (rule nd_batch_step [OF law ok less.prems g w'_def])
  show ?case
  proof (cases "n = 0")
    case True
    then show ?thesis using post g by (subst nd_poll_loop.simps) (simp add: w'_def)
  next
    case False
    have "size (outs (hw w')) \<le> size (outs h')"
      using nd_dispatch_all_quiet [OF quiet, of "take n wcs" "w\<lparr>hw := h'\<rparr>"] by (simp add: w'_def)
    also have "\<dots> < size (outs (hw w))" using nd_cq_lawD [OF law g] False by simp
    finally have "\<exists>r. nd_poll_loop api handler k (tot + n) w' = Some r \<and>
        nd_poll_post outs held handler (tot + n) w' r"
      using less.hyps nd_poll_post_inv [OF post] by blast
    then obtain r where "nd_poll_loop api handler k (tot + n) w' = Some r"
      "nd_poll_post outs held handler (tot + n) w' r" by blast
    then show ?thesis
      using nd_poll_post_trans [OF post] g False
      by (subst nd_poll_loop.simps) (simp add: w'_def Let_def)
  qed
qed

lemma nd_drain_ready_post:
  assumes "vw_inv outs [] held w" and "handler_ok outs handler"
  shows "nd_poll_post outs held handler 0 w (nd_drain_ready handler w)"
proof -
  have t: "vw_inv outs [] (ready w @ held) (w\<lparr>ready := []\<rparr>)"
    using vw_inv_take_ready [OF assms(1), of "ready w" "[]"] by simp
  show ?thesis
    using complete_each_inv [OF t assms(2)] complete_each_handled [OF t assms(2)]
      complete_each_count [OF t assms(2)]
    by (auto simp: nd_poll_post_def nd_drain_ready_def nd_drain_local_each)
qed

text \<open>
  C5. On NetworkDirect a poll of the completion queue returns, and completes every handler exactly
  once: the returned count is the number of handlers invoked, no handler that was owed is lost, every
  operation still has exactly one owner and no freed operation is touched. Assumptions: the provider
  reports each request it held at most once; handlers call the library only, invoke no other handler
  and leave no more requests outstanding than they found.
\<close>

theorem nd_cq_poll_exactly_once:
  assumes "vw_inv outs [] [] w" and "nd_cq_law outs api"
    and "handler_ok outs handler" and "handler_quiet outs handler" and "handler_flat handler"
    and "\<forall>u w. handled w \<subseteq># handled (handler u w)"
  shows "\<exists>n w'. nd_cq_poll api handler cq w = Some (n, w') \<and>
    length (upcalls w') = length (upcalls w) + n \<and> handled w \<subseteq># handled w' \<and> vw_inv outs [] [] w'"
proof -
  obtain t w1 where d: "nd_drain_ready handler w = (t, w1)" by fastforce
  have p1: "nd_poll_post outs [] handler 0 w (t, w1)"
    using nd_drain_ready_post [OF assms(1,3)] d by simp
  then obtain n w' where r: "nd_poll_loop api handler (ncq_wc_buf_size cq) t w1 = Some (n, w')"
    "nd_poll_post outs [] handler t w1 (n, w')"
    using nd_poll_loop_total [OF assms(2,3,4) nd_poll_post_inv] by fastforce
  have "nd_poll_post outs [] handler 0 w (n, w')" using nd_poll_post_trans [OF p1 r(2)] .
  then show ?thesis
    using r(1) d handler_keeps_inclusion [OF assms(6)] assms(5)
    by (auto simp: nd_cq_poll_def nd_poll_post_def)
qed

subsection \<open>The poller\<close>

lemma nd_poll_batches_inv:
  assumes "vw_inv outs [] (ops @ held) w" and "nd_cq_law outs api"
    and "nd_poll_batches api k left ops w = (ops', w')"
  shows "vw_inv outs [] (ops' @ held) w' \<and> handled w' = handled w \<and> upcalls w' = upcalls w \<and>
    length ops' \<le> length ops + left * k"
  using assms(1,3)
proof (induction left arbitrary: ops w)
  case (Suc left)
  obtain n wcs h' where g: "ncq_get_results api (hw w) k = (n, wcs, h')" by (metis prod_cases3)
  note law = nd_cq_lawD [OF assms(2) g]
  obtain ops1 w1 where r: "nd_resolve_into (take n wcs) (ops, w\<lparr>hw := h'\<rparr>) = (ops1, w1)" by fastforce
  have b: "vw_inv outs (map nwc_context (take n wcs) @ []) (ops @ held) (w\<lparr>hw := h'\<rparr>)"
    using vw_inv_hw [OF Suc.prems(1), of "map nwc_context wcs" h'] law by simp
  note res = nd_resolve_into_inv [OF b r]
  have up: "upcalls w1 = upcalls w"
  proof -
    have "upcalls (snd (nd_resolve_into xs (o', x))) = upcalls x" for xs o' and x :: "'a vworld"
      by (induction xs arbitrary: o' x)
        (auto simp: nd_resolve_wc_def split: prod.splits option.splits if_splits)
    from this [of "take n wcs" ops "w\<lparr>hw := h'\<rparr>"] r show ?thesis by simp
  qed
  have len: "length ops1 \<le> length ops + k" using res law by simp
  show ?case
  proof (cases "n = k \<and> 0 < left")
    case True
    then have "nd_poll_batches api k left ops1 w1 = (ops', w')" using Suc.prems(2) g r by simp
    from Suc.IH [OF conjunct1 [OF res] this] res up len show ?thesis by auto
  next
    case False
    then have "ops' = ops1" "w' = w1" using Suc.prems(2) g r by auto
    with res up len show ?thesis by auto
  qed
qed simp

lemma nd_arm_poller_inv:
  assumes "vw_inv outs [] held w" and "nd_cq_law outs api" and "nd_arm_poller api s w = (s', w')"
  shows "vw_inv outs [] held w'" "handled w' = handled w" "upcalls w' = upcalls w"
    "nio_phase s' \<noteq> NPoller_idle"
proof -
  have w': "w' = w\<lparr>hw := snd (ncq_notify api (hw w) (nio_cq s))\<rparr>" and "nio_phase s' \<noteq> NPoller_idle"
    using assms(3) by (auto simp: nd_arm_poller_def nd_notify_cq_def nd_overlapped_def case_prod_beta
        split: if_splits)
  moreover have "outs (snd (ncq_notify api (hw w) (nio_cq s))) = outs (hw w)"
    using assms(2) by (simp add: nd_cq_law_def)
  ultimately show "vw_inv outs [] held w'" "handled w' = handled w" "upcalls w' = upcalls w"
    "nio_phase s' \<noteq> NPoller_idle"
    using vw_inv_hw [OF assms(1), of "[]" "snd (ncq_notify api (hw w) (nio_cq s))"] by simp_all
qed

text \<open>
  A turn of the NetworkDirect poller completes every operation it drained exactly once, at most
  four batches of them, loses no handler, keeps the accounting, and leaves the poller armed or posted,
  whatever Notify returns; at shutdown it touches nothing and no handler runs.
\<close>

theorem nd_poller_turn_accounting:
  assumes "vw_inv outs [] [] w" and "nd_cq_law outs api" and "handler_ok outs handler"
    and "handler_flat handler" and "\<forall>u w. handled w \<subseteq># handled (handler u w)"
    and "nd_poll_wc_do_complete api handler owner s w = (s', w')"
  shows "vw_inv outs [] [] w' \<and>
    (if owner then nio_phase s' \<noteq> NPoller_idle \<and> handled w \<subseteq># handled w' \<and>
        length (upcalls w') \<le> length (upcalls w) + 4 * nio_wc_size s
     else w' = w)"
proof (cases owner)
  case True
  obtain ops w1 where b: "nd_poll_batches api (nio_wc_size s) 4 [] w = (ops, w1)" by fastforce
  have "vw_inv outs [] ([] @ []) w" using assms(1) by simp
  from nd_poll_batches_inv [OF this assms(2) b] have d: "vw_inv outs [] (ops @ []) w1"
    "handled w1 = handled w" "upcalls w1 = upcalls w" "length ops \<le> 4 * nio_wc_size s" by auto
  let ?w2 = "complete_each handler ops w1"
  have arm: "nd_arm_poller api s ?w2 = (s', w')"
    using assms(6) True b by (simp add: nd_poll_wc_do_complete_def nd_poll_and_dispatch_def)
  have "vw_inv outs [] [] ?w2" "handled w \<subseteq># handled ?w2"
    "length (upcalls ?w2) = length (upcalls w) + length ops"
    using complete_each_inv [OF d(1) assms(3)] complete_each_count [OF d(1) assms(3,4)] d(2,3)
      complete_each_handled [OF d(1) assms(3) handler_keeps_inclusion [OF assms(5)]] by simp_all
  then show ?thesis using nd_arm_poller_inv [OF _ assms(2) arm] d(4) True by simp
next
  case False
  then show ?thesis using assms(1,6) by (simp add: nd_poll_wc_do_complete_def)
qed


subsection \<open>Set-up is all or nothing\<close>

lemma nd_io_initialize_pair:
  assumes "nio_cq s = nullptr" and "nio_handle s = nullptr" and "na_adapter d \<noteq> nullptr"
  shows "nd_io_initialize api cqa (Some d) depth batch s h =
    (case nd_open_pair api (nd_create_cq cqa (na_adapter d) depth) (na_adapter d) h of
       (e, c, f, h') \<Rightarrow>
         if is_error e then (e, s\<lparr>nio_cq := c, nio_handle := nullptr\<rparr>, h')
         else (e, s\<lparr>nio_cq := c, nio_handle := f,
           nio_wc_size := (if batch \<noteq> 0 then unat batch else 16)\<rparr>, h'))"
proof -
  obtain f e h1 where o: "create_overlapped_file api (na_adapter d) h = (f, e, h1)" by (metis prod_cases3)
  obtain c e2 h2 where k: "nd_create_cq cqa (na_adapter d) depth f h1 = (c, e2, h2)" by (metis prod_cases3)
  have keep: "s\<lparr>nio_cq := nullptr, nio_handle := nullptr\<rparr> = s" using assms(1,2) by simp
  have nc: "\<not> is_closable_handle nullptr" by (simp add: is_closable_handle_def)
  show ?thesis
  proof (cases "is_error e")
    case True
    then show ?thesis using assms keep o by (simp add: nd_io_initialize_def nd_open_pair_def)
  next
    case False
    then show ?thesis
      using assms nc o k create_overlapped_file_closable [OF o]
      by (simp add: nd_io_initialize_def nd_open_pair_def nd_io_drop_handle_def nd_io_drop_cq_def nd_drop_def
          Let_def)
  qed
qed

text \<open>
  Setting up the NetworkDirect completion service is all or nothing: on an error the service keeps
  neither queue nor handle, and exactly the objects there were are alive; otherwise it has a new queue
  and a new registered handle and a positive batch, and \<open>shutdown\<close> gives back exactly what there was.
\<close>

theorem nd_io_initialize_all_or_nothing:
  assumes "nd_handle_law live api" and "nd_factory_law live (nd_create_cq cqa (na_adapter d) depth)"
    and "nio_cq s = nullptr" and "nio_handle s = nullptr" and "na_adapter d \<noteq> nullptr"
    and "nd_io_initialize api cqa (Some d) depth batch s h = (ec, s', h')"
  shows "if is_error ec then s' = s \<and> live h' = live h
    else nio_cq s' \<noteq> nullptr \<and> is_closable_handle (nio_handle s') \<and> 0 < nio_wc_size s' \<and>
      live h' = live h \<union> {nio_cq s', nio_handle s'} \<and>
      live (snd (nd_io_shutdown api (s', h'))) = live h \<and>
      nio_cq (fst (nd_io_shutdown api (s', h'))) = nullptr"
proof -
  obtain e c f h1 where p: "nd_open_pair api (nd_create_cq cqa (na_adapter d) depth) (na_adapter d) h = (e, c, f, h1)"
    by (metis prod_cases4)
  note P = nd_open_pair_live [OF assms(1,2) p]
  have r: "(ec, s', h') = (if is_error e then (e, s\<lparr>nio_cq := c, nio_handle := nullptr\<rparr>, h1)
      else (e, s\<lparr>nio_cq := c, nio_handle := f,
        nio_wc_size := (if batch \<noteq> 0 then unat batch else 16)\<rparr>, h1))"
    using nd_io_initialize_pair [OF assms(3,4,5), of api cqa depth batch h] assms(6) [symmetric] p by simp
  show ?thesis
  proof (cases "is_error e")
    case True
    then show ?thesis using r P assms(3,4) by simp
  next
    case False
    then have "live (nd_drop api c f h1) = live h"
      using P by (auto simp: nd_drop_live [OF assms(1)])
    moreover have "0 < (if batch \<noteq> 0 then unat batch else 16)" by (simp add: unat_gt_0)
    ultimately show ?thesis
      using False r P by (simp add: nd_io_shutdown_def nd_io_drop_handle_def nd_io_drop_cq_def nd_drop_def Let_def)
  qed
qed


subsection \<open>An example provider\<close>

text \<open>
  A provider that holds its requests in a queue and completes them in order; Notify is pending, and the
  objects alive are a list.
\<close>

record nd_fifo =
  nf_requests :: "ptr list"
  nf_next :: ptr
  nf_live :: "ptr list"

definition nd_fifo_alloc :: "nd_fifo \<Rightarrow> int \<times> ptr \<times> nd_fifo" where
  "nd_fifo_alloc h =
     (if is_closable_handle (nf_next h) \<and> nf_next h \<notin> set (nf_live h)
      then (ND_SUCCESS, nf_next h, h\<lparr>nf_next := nf_next h + 1, nf_live := nf_next h # nf_live h\<rparr>)
      else (- 1, nullptr, h))"

definition nd_fifo_cq_api :: "nd_fifo nd_cq_api" where
  "nd_fifo_cq_api =
     \<lparr>ncq_create = \<lambda>h a f k. nd_fifo_alloc h, ncq_notify = \<lambda>h cq. (ND_PENDING, h),
      ncq_get_results = \<lambda>h k.
        (min k (length (nf_requests h)),
         map (\<lambda>p. \<lparr>nwc_context = p, nwc_status = ND_SUCCESS, nwc_type = Nd2RequestTypeReceive, nwc_bytes = 8\<rparr>)
           (take k (nf_requests h)),
         h\<lparr>nf_requests := drop k (nf_requests h)\<rparr>)\<rparr>"

definition nd_fifo_outs :: "nd_fifo \<Rightarrow> ptr multiset" where
  "nd_fifo_outs h = mset (nf_requests h)"

definition nd_fifo_post_api :: "nd_fifo nd_post_api" where
  "nd_fifo_post_api =
     \<lparr>ndp_send = \<lambda>h qp c sges n f. (ND_SUCCESS, h\<lparr>nf_requests := nf_requests h @ [c]\<rparr>),
      ndp_receive = \<lambda>h qp c sges n. (ND_SUCCESS, h\<lparr>nf_requests := nf_requests h @ [c]\<rparr>),
      ndp_read = \<lambda>h qp c sges n ra k f. (ND_SUCCESS, h\<lparr>nf_requests := nf_requests h @ [c]\<rparr>),
      ndp_write = \<lambda>h qp c sges n ra k f. (ND_SUCCESS, h\<lparr>nf_requests := nf_requests h @ [c]\<rparr>)\<rparr>"

lemma nd_fifo_laws: "nd_cq_law nd_fifo_outs nd_fifo_cq_api" "nd_post_law nd_fifo_outs nd_fifo_post_api"
proof -
  show "nd_cq_law nd_fifo_outs nd_fifo_cq_api"
    by (auto simp: nd_cq_law_def nd_fifo_cq_api_def nd_fifo_outs_def multiset.map_comp comp_def mset_take_drop)
  show "nd_post_law nd_fifo_outs nd_fifo_post_api"
    by (simp add: nd_post_law_def nd_fifo_post_api_def nd_fifo_outs_def)
qed

definition nd_example_world :: "nd_fifo vworld" where
  "nd_example_world =
     \<lparr>hw = \<lparr>nf_requests = [4096], nf_next = 16, nf_live = []\<rparr>,
      live_ops =
        [4096 \<mapsto> verbs_op_new post_recv no_error (Buffer_sequence []) no_remote 1,
         8192 \<mapsto> verbs_op_new post_send no_error (Buffer_sequence []) no_remote 2],
      ready = [8192], scheduled = [], upcalls = [], dangling = False\<rparr>"

lemma nd_example_world_inv: "vw_inv nd_fifo_outs [] [] nd_example_world"
proof -
  have d: "dom (live_ops nd_example_world) = {4096, 8192}" by (auto simp: nd_example_world_def)
  have "live_ops nd_example_world p = Some op \<Longrightarrow> \<not> is_error (op_ec op)" for p op
    by (auto simp: nd_example_world_def split: if_splits)
  then have "\<forall>p op. live_ops nd_example_world p = Some op \<longrightarrow> op_settled op \<and> \<not> is_error (op_ec op)"
    by (auto simp: op_settled_def)
  then show ?thesis
    unfolding vw_inv_def d by (auto simp: in_flight_def nd_example_world_def nd_fifo_outs_def)
qed

definition nd_example_cq :: nd_completion_queue where
  "nd_example_cq =
     \<lparr>ncq_device = nd_example_adapter, ncq_effective_config = default_config, ncq_handle = 3,
      ncq_file = 4, ncq_wc_buf_size = 16\<rparr>"

theorem nd_cq_poll_exactly_once_witness:
  "\<exists>n w'. nd_cq_poll nd_fifo_cq_api (\<lambda>_ w. w) nd_example_cq nd_example_world = Some (n, w') \<and>
     length (upcalls w') = n \<and> handled nd_example_world \<subseteq># handled w' \<and> vw_inv nd_fifo_outs [] [] w'"
  using nd_cq_poll_exactly_once [OF nd_example_world_inv nd_fifo_laws(1) handler_ok_idle idle_handler]
  by (simp add: nd_example_world_def)

theorem nd_poller_turn_accounting_witness:
  "\<exists>s' w'. nd_poll_wc_do_complete nd_fifo_cq_api (\<lambda>_ w. w) True (nd_io_service_new\<lparr>nio_wc_size := 16\<rparr>)
      nd_example_world = (s', w') \<and>
     nio_phase s' \<noteq> NPoller_idle \<and> length (upcalls w') \<le> 64 \<and> vw_inv nd_fifo_outs [] [] w'"
proof -
  obtain s' w' where r: "nd_poll_wc_do_complete nd_fifo_cq_api (\<lambda>_ w. w) True
      (nd_io_service_new\<lparr>nio_wc_size := 16\<rparr>) nd_example_world = (s', w')" by fastforce
  show ?thesis
    using nd_poller_turn_accounting [OF nd_example_world_inv nd_fifo_laws(1) handler_ok_idle idle_handler(2) _ r] r
    by (simp add: nd_example_world_def)
qed

definition nd_fifo_api :: "nd_fifo nd_api" where
  "nd_fifo_api =
     \<lparr>nda_overlapped_file = \<lambda>h a. nd_fifo_alloc h,
      nda_close_handle = \<lambda>h f. h\<lparr>nf_live := filter (\<lambda>x. x \<noteq> f) (nf_live h)\<rparr>,
      nda_create_connector = \<lambda>h a f. nd_fifo_alloc h, nda_create_listener = \<lambda>h a f. nd_fifo_alloc h,
      nda_release = \<lambda>h f. h\<lparr>nf_live := filter (\<lambda>x. x \<noteq> f) (nf_live h)\<rparr>,
      nda_bind = \<lambda>h c e. (ND_SUCCESS, h), nda_listen = \<lambda>h l b. (ND_SUCCESS, h),
      nda_connect = \<lambda>h c q e i z pd len. (ND_PENDING, h), nda_accept = \<lambda>h c q i z pd len. (ND_PENDING, h),
      nda_complete_connect = \<lambda>h c. (ND_SUCCESS, h), nda_disconnect = \<lambda>h c. (ND_PENDING, h),
      nda_notify_disconnect = \<lambda>h c. (ND_PENDING, h), nda_get_private_data = \<lambda>h c cap. (ND_SUCCESS, [], 0),
      nda_get_connection_request = \<lambda>h l c. (ND_PENDING, h), nda_register_handle = \<lambda>h. no_error\<rparr>"

definition nd_fifo_live :: "nd_fifo \<Rightarrow> ptr set" where
  "nd_fifo_live h = set (nf_live h)"

lemma nd_fifo_resource_laws:
  "nd_handle_law nd_fifo_live nd_fifo_api" "nd_factory_law nd_fifo_live (nd_create_cq nd_fifo_cq_api a k)"
  by (auto simp: nd_handle_law_def nd_factory_law_def nd_create_cq_def nd_fifo_api_def nd_fifo_cq_api_def
      nd_fifo_alloc_def nd_fifo_live_def failed_def is_closable_handle_def)

theorem nd_io_initialize_all_or_nothing_witness:
  "\<exists>ec s' h'. nd_io_initialize nd_fifo_api nd_fifo_cq_api (Some nd_example_adapter) 64 0 nd_io_service_new
      (hw nd_example_world) = (ec, s', h') \<and> \<not> is_error ec \<and>
     nd_fifo_live (snd (nd_io_shutdown nd_fifo_api (s', h'))) = {}"
proof -
  obtain ec s' h' where r: "nd_io_initialize nd_fifo_api nd_fifo_cq_api (Some nd_example_adapter) 64 0
      nd_io_service_new (hw nd_example_world) = (ec, s', h')" by (metis prod_cases3)
  have "\<not> is_error (fst (nd_io_initialize nd_fifo_api nd_fifo_cq_api (Some nd_example_adapter) 64 0
      nd_io_service_new (hw nd_example_world)))" by code_simp
  then show ?thesis
    using nd_io_initialize_all_or_nothing [OF nd_fifo_resource_laws _ _ _ r] r
    by (simp add: nd_io_service_new_def nd_example_adapter_def nd_fifo_live_def nd_example_world_def)
qed

end
