(* ===== verification/Handler_Ledger.thy ===== *)
theory Handler_Ledger
  imports RDMA_Prelude
begin

text \<open>
  The contract every queue of asynchronous operations keeps towards the program: a handler that is
  handed in is owed until it is invoked, and invoked once. \<open>step w hs w'\<close> is one step of the component
  that takes in the handlers \<open>hs\<close>; \<open>owed\<close> are the handlers held by its operations, \<open>invoked\<close> those
  called so far. A component proves the balance of a single step; its runs then keep the books.
\<close>

inductive labelled_run ::
  "('w \<Rightarrow> 'l multiset \<Rightarrow> 'w \<Rightarrow> bool) \<Rightarrow> 'w \<Rightarrow> 'l multiset \<Rightarrow> 'w \<Rightarrow> bool" for step where
  run_refl: "labelled_run step w {#} w"
| run_step: "labelled_run step w hs w' \<Longrightarrow> step w' hs' w'' \<Longrightarrow> labelled_run step w (hs + hs') w''"

lemma run_one: "step w hs w' \<Longrightarrow> labelled_run step w hs w'"
  using run_step [OF run_refl] by fastforce

lemma run_trans:
  assumes "labelled_run step w' hs' w''" and "labelled_run step w hs w'"
  shows "labelled_run step w (hs + hs') w''"
  using assms
proof (induction rule: labelled_run.induct)
  case (run_step w' hs1 w1 hs2 w2)
  from labelled_run.run_step [OF run_step.IH [OF run_step.prems] run_step.hyps(2)]
  show ?case by (simp add: add.assoc)
qed simp

text \<open>What each step adds to a ledger \<open>P\<close>, its run adds up.\<close>

lemma run_accumulates:
  assumes "labelled_run step w hs w'" and "P X w"
    and "\<And>X w hs w'. P X w \<Longrightarrow> step w hs w' \<Longrightarrow> P (X + hs) w'"
  shows "P (X + hs) w'"
  using assms(1,2)
proof (induction rule: labelled_run.induct)
  case (run_step w hs w' hs' w'')
  then show ?case using assms(3) [of "X + hs"] by (simp add: add.assoc)
qed simp

text \<open>A run may be read under any invariant its steps keep.\<close>

lemma run_invariant:
  assumes "labelled_run step w hs w'" and "P w" and "\<And>w hs w'. P w \<Longrightarrow> step w hs w' \<Longrightarrow> P w'"
  shows "labelled_run (\<lambda>w hs w'. P w \<and> step w hs w') w hs w' \<and> P w'"
  using assms(1,2)
proof (induction rule: labelled_run.induct)
  case (run_refl w)
  then show ?case by (simp add: labelled_run.run_refl)
next
  case (run_step w hs w' hs' w'')
  then have "labelled_run (\<lambda>w hs w'. P w \<and> step w hs w') w hs w'" "P w'" by blast+
  from labelled_run.run_step [OF this(1)] this(2) run_step.hyps(2) assms(3) show ?case by blast
qed

locale handler_ledger =
  fixes step :: "'w \<Rightarrow> nat multiset \<Rightarrow> 'w \<Rightarrow> bool"
    and owed :: "'w \<Rightarrow> nat multiset" and invoked :: "'w \<Rightarrow> nat multiset"
  assumes balance: "step w hs w' \<Longrightarrow> owed w' + invoked w' = owed w + invoked w + hs"
begin

lemma run_balance: "labelled_run step w hs w' \<Longrightarrow> owed w' + invoked w' = owed w + invoked w + hs"
  by (induction rule: labelled_run.induct) (auto dest: balance simp: ac_simps)

lemma exactly_once:
  assumes "labelled_run step w hs w'" and "owed w = {#}" and "invoked w = {#}"
  shows "owed w' + invoked w' = hs \<and> (owed w' = {#} \<longrightarrow> invoked w' = hs)"
  using run_balance [OF assms(1)] assms(2,3) by auto

end

end
