(* ===== verification/Data_Plane_Run.thy ===== *)
theory Data_Plane_Run
  imports IBV_IO_Completion ND_Completion_Queue Handler_Ledger
begin

text \<open>
  The data plane as a whole, for both backends: programs initiate operations in event and in poll mode,
  the poller is started, performed and completed, the scheduler completes the operations it was
  given, the program polls its completion queue, and the adapter works on, in any order. The locale
  \<open>data_plane\<close> is what a backend's steps owe to the accounting; the handlers of all its runs are then
  invoked exactly once.

  The user's handlers run in the middle of a step and initiate nothing there themselves
  (\<open>handler_keeps handler (=)\<close>); what they initiate appears as steps of its own.
\<close>

subsection \<open>The contract\<close>

locale data_plane =
  fixes step :: "'s \<times> 'h vworld \<Rightarrow> nat multiset \<Rightarrow> 's \<times> 'h vworld \<Rightarrow> bool"
    and held :: "'s \<Rightarrow> ptr list" and outs :: "'h \<Rightarrow> ptr multiset"
  assumes step_keeps: "vw_inv outs [] (held s) w \<Longrightarrow> step (s, w) hs (s', w') \<Longrightarrow>
      vw_inv outs [] (held s') w' \<and> handled w' = handled w + hs"
begin

lemma run_keeps:
  assumes "labelled_run step c hs c'" and "vw_inv outs [] (held (fst c)) (snd c)"
  shows "vw_inv outs [] (held (fst c')) (snd c') \<and> handled (snd c') = handled (snd c) + hs"
  using assms
proof (induction rule: labelled_run.induct)
  case (run_step c hs c' hs' c'')
  then show ?case
    using step_keeps [of "fst c'" "snd c'" hs' "fst c''" "snd c''"] by (simp add: ac_simps)
qed simp

lemma run_settled:
  assumes "labelled_run step (s0, w0) hs (s, w)" and "vw_inv outs [] (held s0) w0" and "handled w0 = {#}"
  shows "vw_inv outs [] (held s) w \<and> handled w = hs \<and>
    mset (map up_handler (upcalls w)) \<subseteq># hs \<and>
    (\<forall>u\<in>set (upcalls w). is_error (up_ec u) \<longrightarrow> up_bytes u = 0) \<and>
    (ready w = [] \<and> scheduled w = [] \<and> held s = [] \<and> outs (hw w) = {#} \<longrightarrow>
       mset (map up_handler (upcalls w)) = hs \<and> live_ops w = Map.empty)"
proof -
  have r: "vw_inv outs [] (held s) w" "handled w = hs" using run_keeps [OF assms(1)] assms(2,3) by simp_all
  have "live_ops w = Map.empty" if "ready w = []" "scheduled w = []" "held s = []" "outs (hw w) = {#}"
  proof -
    have "mset_set (dom (live_ops w)) = {#}" using vw_invD(4) [OF r(1)] that by (simp add: in_flight_def)
    then show ?thesis using vw_invD(2) [OF r(1)] by (simp add: mset_set_empty_iff)
  qed
  moreover have "live_ops w = Map.empty \<Longrightarrow> handled w = mset (map up_handler (upcalls w))"
    by (simp add: handled_def pending_handlers_def)
  moreover have "mset (map up_handler (upcalls w)) \<subseteq># handled w" by (simp add: handled_def)
  moreover have "\<forall>u\<in>set (upcalls w). is_error (up_ec u) \<longrightarrow> up_bytes u = 0"
    using vw_invD(7) [OF r(1)] by blast
  ultimately show ?thesis using r by auto
qed

end

subsection \<open>Shared lemmas\<close>

lemma scheduler_turn:
  assumes inv: "vw_inv outs [] held w" and s: "scheduled w = p # ps" and h: "handler_ok outs handler"
    "handler_keeps handler (=)"
  shows "vw_inv outs [] held (complete_at handler True p (w\<lparr>scheduled := ps\<rparr>)) \<and>
    handled (complete_at handler True p (w\<lparr>scheduled := ps\<rparr>)) = handled w"
proof -
  have "vw_inv outs [] (p # held) (w\<lparr>scheduled := ps\<rparr>)"
    using vw_inv_take_scheduled [OF inv, of "[p]" ps] s by simp
  then have "vw_inv outs [] held (complete_at handler True p (w\<lparr>scheduled := ps\<rparr>))"
    "handled (w\<lparr>scheduled := ps\<rparr>) = handled (complete_at handler True p (w\<lparr>scheduled := ps\<rparr>))"
    using complete_at_inv [OF _ h(1)] complete_at_handled [OF _ h(2)] by blast+
  moreover have "handled (w\<lparr>scheduled := ps\<rparr>) = handled w" by (simp add: handled_def pending_handlers_def)
  ultimately show ?thesis by simp
qed

lemma adapter_turn:
  assumes "vw_inv outs [] held w" and "outs h' = outs (hw w)"
  shows "vw_inv outs [] held (w\<lparr>hw := h'\<rparr>) \<and> handled (w\<lparr>hw := h'\<rparr>) = handled w"
  using vw_inv_hw_same [OF assms] by simp

subsection \<open>libibverbs\<close>

text \<open>The eight initiating functions as one; \<open>True\<close> is event mode.\<close>

fun ibv_initiate ::
  "'h post_send_fn \<Rightarrow> 'h post_recv_fn \<Rightarrow> bool \<Rightarrow> verbs_op_type \<Rightarrow> ibv_verbs_impl \<Rightarrow> buffer_seq
   \<Rightarrow> rdma_remote_addr_t \<Rightarrow> nat \<Rightarrow> ptr \<Rightarrow> 'h vworld \<Rightarrow> 'h vworld" where
  "ibv_initiate ps pr True post_send impl b r h p w = async_send ps impl b h p w"
| "ibv_initiate ps pr True post_recv impl b r h p w = async_recv pr impl b h p w"
| "ibv_initiate ps pr True remote_read impl b r h p w = async_read ps impl b r h p w"
| "ibv_initiate ps pr True remote_write impl b r h p w = async_write ps impl b r h p w"
| "ibv_initiate ps pr False post_send impl b r h p w = async_send_static ps impl b h p w"
| "ibv_initiate ps pr False post_recv impl b r h p w = async_recv_static pr impl b h p w"
| "ibv_initiate ps pr False remote_read impl b r h p w = async_read_static ps impl b r h p w"
| "ibv_initiate ps pr False remote_write impl b r h p w = async_write_static ps impl b r h p w"

lemma ibv_initiate_ok:
  assumes "vw_inv outs batch held w" and "fresh_op p w" and "post_send_law outs ps" and "post_recv_law outs pr"
    and "event \<or> vi_poll_cq impl \<noteq> nullptr"
  shows "vw_inv outs batch held (ibv_initiate ps pr event kind impl b r h p w) \<and>
    handled (ibv_initiate ps pr event kind impl b r h p w) = add_mset h (handled w)"
  using async_two_sided_inv [OF assms(1,2)] async_one_sided_inv [OF assms(1,2,3)] assms(3,4,5)
    async_handled [OF vw_invD(2) [OF assms(1)] assms(2)]
  by (cases event; cases kind) simp_all

text \<open>
  A program with a context in event mode and a standalone completion queue on one adapter. \<open>outs\<close> are the
  work requests outstanding on either.
\<close>

record 'h ibv_plane =
  ip_send :: "'h post_send_fn"
  ip_recv :: "'h post_recv_fn"
  ip_notify :: "'h notify_api"
  ip_poll_cq :: "'h poll_cq_fn"
  ip_handler :: "'h handler_fn"

inductive ibv_data_step ::
  "('h \<Rightarrow> ptr multiset) \<Rightarrow> 'h ibv_plane \<Rightarrow> io_service \<times> 'h vworld \<Rightarrow> nat multiset \<Rightarrow> io_service \<times> 'h vworld \<Rightarrow> bool"
  for outs x where
  ibv_data_initiate: "fresh_op p w \<Longrightarrow> event \<or> vi_poll_cq impl \<noteq> nullptr \<Longrightarrow>
    ibv_data_step outs x (s, w) {#h#} (s, ibv_initiate (ip_send x) (ip_recv x) event kind impl b r h p w)"
| ibv_data_start: "ensure_poller_started (ip_notify x) s w = (s', w') \<Longrightarrow>
    ibv_data_step outs x (s, w) {#} (s', w')"
| ibv_data_perform: "io_phase s = Poller_waiting \<Longrightarrow> poller_do_perform (ip_notify x) s w = (fin, s', w') \<Longrightarrow>
    ibv_data_step outs x (s, w) {#} (if fin then s'\<lparr>io_phase := Poller_posted\<rparr> else s', w')"
| ibv_data_complete: "io_phase s = Poller_posted \<Longrightarrow>
    on_poll_complete (ip_notify x) (ip_handler x) True s w = (s', w') \<Longrightarrow>
    ibv_data_step outs x (s, w) {#} (s', w')"
| ibv_data_scheduled: "scheduled w = p # ps \<Longrightarrow>
    ibv_data_step outs x (s, w) {#} (s, ibv_complete_op_do_complete (ip_handler x) True p (w\<lparr>scheduled := ps\<rparr>))"
| ibv_data_poll: "cq_poll (ip_poll_cq x) (ip_handler x) cq w = Some (n, ec, w') \<Longrightarrow>
    ibv_data_step outs x (s, w) {#} (s, w')"
| ibv_data_poll_one: "cq_poll_one (ip_poll_cq x) (ip_handler x) w = (n, ec, w') \<Longrightarrow>
    ibv_data_step outs x (s, w) {#} (s, w')"
| ibv_data_adapter: "outs h' = outs (hw w) \<Longrightarrow> ibv_data_step outs x (s, w) {#} (s, w\<lparr>hw := h'\<rparr>)"

definition ibv_plane_law :: "('h \<Rightarrow> ptr multiset) \<Rightarrow> 'h ibv_plane \<Rightarrow> bool" where
  "ibv_plane_law outs x \<longleftrightarrow>
     post_send_law outs (ip_send x) \<and> post_recv_law outs (ip_recv x) \<and> notify_law outs (ip_notify x) \<and>
     poll_cq_law outs (ip_poll_cq x) \<and> handler_ok outs (ip_handler x) \<and> handler_keeps (ip_handler x) (=)"

lemma poll_post_eq:
  assumes "poll_post outs held handler tot w (n, ec, w')" and "handler_keeps handler (=)"
  shows "vw_inv outs [] held w' \<and> handled w' = handled w"
proof -
  note post = assms(1) [unfolded poll_post_def prod.case]
  have "vw_inv outs [] held w'" "\<forall>le. handler_keeps handler le \<longrightarrow> le (handled w) (handled w')"
    by (rule post [THEN conjunct1] post [THEN conjunct2, THEN conjunct2, THEN conjunct2, THEN conjunct1])+
  then show ?thesis using assms(2) by auto
qed

lemma on_poll_complete_handled:
  assumes inv: "vw_inv outs [] (io_completed s) w" and law: "notify_law outs api"
    and h: "handler_ok outs handler" "handler_keeps handler (=)"
    and r: "on_poll_complete api handler True s w = (s', w')"
  shows "handled w' = handled w"
proof -
  let ?w = "complete_each handler (io_completed s) w"
  have i: "vw_inv outs [] (io_completed s @ []) w" using inv by simp
  have "vw_inv outs [] [] ?w" by (rule complete_each_inv [OF i h(1)])
  moreover have "handled w = handled ?w" by (rule complete_each_handled [OF i h])
  moreover have "arm_poller api (s\<lparr>io_completed := [], io_phase := Poller_idle\<rparr>) ?w = (s', w')"
    using r by (simp add: on_poll_complete_def)
  ultimately show ?thesis
    using arm_poller_inv [OF _ law, of "s\<lparr>io_completed := [], io_phase := Poller_idle\<rparr>" ?w s' w'] by simp
qed

lemma ibv_data_step_keeps:
  assumes inv: "vw_inv outs [] (io_completed s) w" and law: "ibv_plane_law outs x"
    and step: "ibv_data_step outs x (s, w) hs (s', w')"
  shows "vw_inv outs [] (io_completed s') w' \<and> handled w' = handled w + hs"
proof -
  note L = law [unfolded ibv_plane_law_def]
  have P: "post_send_law outs (ip_send x)" "post_recv_law outs (ip_recv x)" "notify_law outs (ip_notify x)"
    "poll_cq_law outs (ip_poll_cq x)" "handler_ok outs (ip_handler x)" "handler_keeps (ip_handler x) (=)"
    using L by simp_all
  from step show ?thesis
  proof cases
    case (ibv_data_initiate p event impl h kind b r)
    then show ?thesis using ibv_initiate_ok [OF inv ibv_data_initiate(4) P(1,2)] by simp
  next
    case ibv_data_start
    then show ?thesis
      using inv arm_poller_inv [OF _ P(3), of "s\<lparr>io_poller_started := True\<rparr>" w s' w']
      by (auto simp: ensure_poller_started_def split: if_splits)
  next
    case (ibv_data_perform fin s1)
    have "io_completed s' = io_completed s1" using ibv_data_perform(2) by simp
    moreover have "vw_inv outs [] (io_completed s1) w'" "handled w' = handled w"
      using poller_do_perform_inv [OF inv P(3) ibv_data_perform(4)] by blast+
    ultimately show ?thesis using ibv_data_perform(1) by simp
  next
    case ibv_data_complete
    then show ?thesis
      using on_poll_complete_inv [OF inv P(3,5)] on_poll_complete_handled [OF inv P(3,5,6)] by simp
  next
    case (ibv_data_scheduled p ps)
    then show ?thesis using scheduler_turn [OF inv _ P(5,6)] by (simp add: ibv_complete_op_do_complete_def)
  next
    case (ibv_data_poll cq n ec)
    then show ?thesis using poll_post_eq [OF cq_poll_post [OF _ inv P(5,4)] P(6)] by simp
  next
    case (ibv_data_poll_one n ec)
    have "poll_post outs (io_completed s) (ip_handler x) 0 w (n, ec, w')"
      using cq_poll_one_post [OF inv P(5,4)] ibv_data_poll_one(3) by simp
    then show ?thesis using poll_post_eq [OF _ P(6)] ibv_data_poll_one(1,2) by simp
  next
    case (ibv_data_adapter h')
    then show ?thesis using adapter_turn [OF inv] by simp
  qed
qed

interpretation ibv_plane: data_plane "\<lambda>c hs c'. ibv_plane_law outs x \<and> ibv_data_step outs x c hs c'" io_completed outs
  for outs x
  by unfold_locales (auto dest: ibv_data_step_keeps)

lemma labelled_run_under: "labelled_run step w hs w' \<Longrightarrow> P \<Longrightarrow> labelled_run (\<lambda>c hs c'. P \<and> step c hs c') w hs w'"
  by (induction rule: labelled_run.induct) (auto intro: labelled_run.intros)

text \<open>
  C2. In every run of the data plane of libibverbs, in event and poll mode together, every live
  operation has exactly one owner and nothing freed is touched; every handler handed in is either owed by
  one operation or was invoked, once, and a handler that is told of an error is told of zero bytes. When the adapter has returned every work request and the queues are
  empty, each handler was invoked exactly once and no operation is left.
\<close>

theorem data_plane_exactly_once:
  assumes "ibv_plane_law outs x" and "vw_inv outs [] (io_completed s0) w0" and "handled w0 = {#}"
    and run: "labelled_run (ibv_data_step outs x) (s0, w0) hs (s, w)"
  shows "vw_inv outs [] (io_completed s) w \<and> handled w = hs \<and>
    mset (map up_handler (upcalls w)) \<subseteq># hs \<and>
    (\<forall>u\<in>set (upcalls w). is_error (up_ec u) \<longrightarrow> up_bytes u = 0) \<and>
    (ready w = [] \<and> scheduled w = [] \<and> io_completed s = [] \<and> outs (hw w) = {#} \<longrightarrow>
       mset (map up_handler (upcalls w)) = hs \<and> live_ops w = Map.empty)"
  by (rule ibv_plane.run_settled [OF labelled_run_under [OF run assms(1)] assms(2,3)])

subsection \<open>NetworkDirect\<close>

record 'h nd_plane =
  np_post :: "'h nd_post_api"
  np_cq :: "'h nd_cq_api"
  np_handler :: "'h handler_fn"

inductive nd_data_step ::
  "('h \<Rightarrow> ptr multiset) \<Rightarrow> 'h nd_plane \<Rightarrow> nd_io_service \<times> 'h vworld \<Rightarrow> nat multiset
   \<Rightarrow> nd_io_service \<times> 'h vworld \<Rightarrow> bool"
  for outs x where
  nd_data_initiate: "fresh_op p w \<Longrightarrow> event \<or> nvi_poll_cq impl \<noteq> nullptr \<Longrightarrow>
    nd_data_step outs x (s, w) {#h#} (s, nd_initiate (np_post x) event kind impl b r h p w)"
| nd_data_start: "nd_ensure_poller_started (np_cq x) s w = (s', w') \<Longrightarrow> nd_data_step outs x (s, w) {#} (s', w')"
| nd_data_complete: "nio_phase s \<noteq> NPoller_idle \<Longrightarrow>
    nd_poll_wc_do_complete (np_cq x) (np_handler x) True s w = (s', w') \<Longrightarrow>
    nd_data_step outs x (s, w) {#} (s', w')"
| nd_data_scheduled: "scheduled w = p # ps \<Longrightarrow>
    nd_data_step outs x (s, w) {#} (s, nd_complete_op_do_complete (np_handler x) True p (w\<lparr>scheduled := ps\<rparr>))"
| nd_data_poll: "nd_cq_poll (np_cq x) (np_handler x) cq w = Some (n, w') \<Longrightarrow>
    nd_data_step outs x (s, w) {#} (s, w')"
| nd_data_poll_one: "nd_cq_poll_one (np_cq x) (np_handler x) w = (n, w') \<Longrightarrow>
    nd_data_step outs x (s, w) {#} (s, w')"
| nd_data_adapter: "outs h' = outs (hw w) \<Longrightarrow> nd_data_step outs x (s, w) {#} (s, w\<lparr>hw := h'\<rparr>)"

definition nd_plane_law :: "('h \<Rightarrow> ptr multiset) \<Rightarrow> 'h nd_plane \<Rightarrow> bool" where
  "nd_plane_law outs x \<longleftrightarrow>
     nd_post_law outs (np_post x) \<and> nd_cq_law outs (np_cq x) \<and> handler_ok outs (np_handler x) \<and>
     handler_quiet outs (np_handler x) \<and> handler_keeps (np_handler x) (=)"

lemma nd_poll_post_eq:
  assumes "nd_poll_post outs held handler tot w (n, w')" and "handler_keeps handler (=)"
  shows "vw_inv outs [] held w' \<and> handled w' = handled w"
proof -
  note post = assms(1) [unfolded nd_poll_post_def prod.case]
  have "vw_inv outs [] held w'" "\<forall>le. handler_keeps handler le \<longrightarrow> le (handled w) (handled w')"
    by (rule post [THEN conjunct1] post [THEN conjunct2, THEN conjunct2, THEN conjunct1])+
  then show ?thesis using assms(2) by auto
qed

lemma nd_cq_poll_post:
  assumes law: "nd_cq_law outs api" "handler_ok outs handler" "handler_quiet outs handler"
    and inv: "vw_inv outs [] [] w" and r: "nd_cq_poll api handler cq w = Some (n, w')"
  shows "nd_poll_post outs [] handler 0 w (n, w')"
proof -
  obtain t w1 where d: "nd_drain_ready handler w = (t, w1)" by fastforce
  have p1: "nd_poll_post outs [] handler 0 w (t, w1)" using nd_drain_ready_post [OF inv law(2)] d by simp
  obtain q where "nd_poll_loop api handler (ncq_wc_buf_size cq) t w1 = Some q" "nd_poll_post outs [] handler t w1 q"
    using nd_poll_loop_total [OF law nd_poll_post_inv [OF p1]] by blast
  then show ?thesis using nd_poll_post_trans [OF p1] r d by (simp add: nd_cq_poll_def)
qed

lemma nd_cq_poll_one_post:
  assumes law: "nd_cq_law outs api" "handler_ok outs handler" "handler_keeps handler (=)"
    and inv: "vw_inv outs [] [] w" and r: "nd_cq_poll_one api handler w = (n, w')"
  shows "vw_inv outs [] [] w' \<and> handled w' = handled w"
proof (cases "ready w")
  case (Cons p ps)
  have "vw_inv outs [] [p] (w\<lparr>ready := ps\<rparr>)"
    using vw_inv_take_ready [OF inv, of "[p]" ps] Cons by simp
  moreover have "w' = complete_at handler True p (w\<lparr>ready := ps\<rparr>)"
    using r Cons by (simp add: nd_cq_poll_one_def nd_pop_ready_def)
  ultimately have "vw_inv outs [] [] w'" "handled (w\<lparr>ready := ps\<rparr>) = handled w'"
    using complete_at_inv [OF _ law(2)] complete_at_handled [OF _ law(3)] by blast+
  then show ?thesis by simp
next
  case Nil
  obtain k wcs h' where g: "ncq_get_results api (hw w) 1 = (k, wcs, h')" by (metis prod_cases3)
  note L = nd_cq_lawD [OF law(1) g]
  have "nd_poll_post outs [] handler 0 w (0 + k, w')"
  proof (rule nd_batch_step [OF law(1,2) inv g])
    show "w' = fold (nd_dispatch_completion handler) (take k wcs) (w\<lparr>hw := h'\<rparr>)"
      using r g Nil L(1,2) by (cases wcs) (auto simp: nd_cq_poll_one_def nd_pop_ready_def split: if_splits)
  qed
  then show ?thesis by (rule nd_poll_post_eq [OF _ law(3)])
qed

lemma nd_data_step_keeps:
  assumes inv: "vw_inv outs [] [] w" and law: "nd_plane_law outs x"
    and step: "nd_data_step outs x (s, w) hs (s', w')"
  shows "vw_inv outs [] [] w' \<and> handled w' = handled w + hs"
proof -
  have P: "nd_post_law outs (np_post x)" "nd_cq_law outs (np_cq x)" "handler_ok outs (np_handler x)"
    "handler_quiet outs (np_handler x)" "handler_keeps (np_handler x) (=)"
    using law by (simp_all add: nd_plane_law_def)
  from step show ?thesis
  proof cases
    case (nd_data_initiate p event impl h kind b r)
    then show ?thesis
      using nd_initiate_inv [OF inv _ P(1)] nd_initiate_handled [OF vw_invD(2) [OF inv]] by simp
  next
    case nd_data_start
    then show ?thesis
      using inv nd_arm_poller_inv [OF inv P(2), of "s\<lparr>nio_started := True\<rparr>" s' w']
      by (auto simp: nd_ensure_poller_started_def split: if_splits)
  next
    case nd_data_complete
    obtain ops w1 where b: "nd_poll_batches (np_cq x) (nio_wc_size s) 4 [] w = (ops, w1)" by fastforce
    have "vw_inv outs [] ([] @ []) w" using inv by simp
    from nd_poll_batches_inv [OF this P(2) b] have d: "vw_inv outs [] (ops @ []) w1" "handled w1 = handled w"
      by auto
    let ?w = "complete_each (np_handler x) ops w1"
    have "vw_inv outs [] [] ?w" by (rule complete_each_inv [OF d(1) P(3)])
    moreover have "handled w1 = handled ?w" by (rule complete_each_handled [OF d(1) P(3,5)])
    moreover have "nd_arm_poller (np_cq x) s ?w = (s', w')"
      using nd_data_complete(3) b by (simp add: nd_poll_wc_do_complete_def nd_poll_and_dispatch_def)
    ultimately show ?thesis
      using nd_arm_poller_inv [OF _ P(2), of "[]" ?w s s' w'] nd_data_complete(1) d(2) by simp
  next
    case (nd_data_scheduled p ps)
    then show ?thesis using scheduler_turn [OF inv _ P(3,5)] by (simp add: nd_complete_op_do_complete_def)
  next
    case (nd_data_poll cq n)
    then show ?thesis using nd_poll_post_eq [OF nd_cq_poll_post [OF P(2,3,4) inv] P(5)] by simp
  next
    case (nd_data_poll_one n)
    then show ?thesis using nd_cq_poll_one_post [OF P(2,3,5) inv] by simp
  next
    case (nd_data_adapter h')
    then show ?thesis using adapter_turn [OF inv] by simp
  qed
qed

interpretation nd_plane: data_plane "\<lambda>c hs c'. nd_plane_law outs x \<and> nd_data_step outs x c hs c'" "\<lambda>s. []" outs
  for outs x
  by unfold_locales (auto dest: nd_data_step_keeps)

text \<open>
  C3. The same for NetworkDirect: in every run of its data plane, in event and poll mode together, every
  live operation has exactly one owner and nothing freed is touched; every handler handed in is owed or
  was invoked, once, with zero bytes if with an error, and all were invoked when the provider has returned every request and the queues are
  empty.
\<close>

theorem nd_data_plane_exactly_once:
  assumes "nd_plane_law outs x" and "vw_inv outs [] [] w0" and "handled w0 = {#}"
    and run: "labelled_run (nd_data_step outs x) (s0, w0) hs (s, w)"
  shows "vw_inv outs [] [] w \<and> handled w = hs \<and>
    mset (map up_handler (upcalls w)) \<subseteq># hs \<and>
    (\<forall>u\<in>set (upcalls w). is_error (up_ec u) \<longrightarrow> up_bytes u = 0) \<and>
    (ready w = [] \<and> scheduled w = [] \<and> outs (hw w) = {#} \<longrightarrow>
       mset (map up_handler (upcalls w)) = hs \<and> live_ops w = Map.empty)"
  using nd_plane.run_settled [OF labelled_run_under [OF run assms(1)] assms(2,3)] by simp

subsection \<open>Runs\<close>

definition data_idle :: "'h \<Rightarrow> 'h vworld" where
  "data_idle h = \<lparr>hw = h, live_ops = Map.empty, ready = [], scheduled = [], upcalls = [], dangling = False\<rparr>"

lemma data_idle_inv: "outs h = {#} \<Longrightarrow> vw_inv outs [] [] (data_idle h)" "handled (data_idle h) = {#}"
  by (simp_all add: data_idle_def vw_inv_def in_flight_def handled_def pending_handlers_def)

abbreviation data_send :: rdma_buffer where
  "data_send \<equiv> \<lparr>buffer_kind = rdma_const_buffer_tag, buf_addr = 4096, buf_length = 8, buf_local_key = 7\<rparr>"

definition fifo_plane :: "ptr list ibv_plane" where
  "fifo_plane =
     \<lparr>ip_send = fifo_post_send, ip_recv = fifo_post_recv,
      ip_notify = \<lparr>nf_get_event = \<lambda>h. (h \<noteq> [], h), nf_req_notify = \<lambda>h. (0, h), nf_poll_cq = fifo_poll_cq,
        nf_start_op = \<lambda>h. h\<rparr>,
      ip_poll_cq = fifo_poll_cq, ip_handler = \<lambda>u w. w\<rparr>"

lemma fifo_plane_law: "ibv_plane_law mset fifo_plane"
  by (simp add: ibv_plane_law_def fifo_plane_def fifo_laws notify_law_def idle_handler_keeps)

text \<open>A send is posted, the poller starts and finds its completion, and completes it.\<close>

definition fifo_sent :: "ptr list vworld" where
  "fifo_sent = ibv_initiate fifo_post_send fifo_post_recv True post_send
     \<lparr>vi_qp = 80, vi_cq = 96, vi_device = None, vi_config = default_config, vi_poll_cq = nullptr\<rparr>
     (Single_buffer data_send) no_remote 5 12288 (data_idle [])"

definition fifo_started :: "io_service \<times> ptr list vworld" where
  "fifo_started = ensure_poller_started (ip_notify fifo_plane) io_service_new fifo_sent"

definition fifo_done :: "io_service \<times> ptr list vworld" where
  "fifo_done = on_poll_complete (ip_notify fifo_plane) (ip_handler fifo_plane) True (fst fifo_started)
     (snd fifo_started)"

lemma fifo_run:
  "labelled_run (ibv_data_step mset fifo_plane) (io_service_new, data_idle []) {#5#} (fst fifo_done, snd fifo_done)"
proof -
  let ?step = "ibv_data_step mset fifo_plane"
  have sel: "ip_send fifo_plane = fifo_post_send" "ip_recv fifo_plane = fifo_post_recv"
    by (simp_all add: fifo_plane_def)
  have a: "?step (io_service_new, data_idle []) {#5#} (io_service_new, fifo_sent)"
    unfolding fifo_sent_def sel [symmetric]
    by (rule ibv_data_initiate) (simp_all add: fresh_op_def data_idle_def)
  have b: "?step (io_service_new, fifo_sent) {#} (fst fifo_started, snd fifo_started)"
    by (rule ibv_data_start) (simp add: fifo_started_def)
  have "io_phase (fst fifo_started) = Poller_posted" by code_simp
  then have c: "?step (fst fifo_started, snd fifo_started) {#} (fst fifo_done, snd fifo_done)"
    by (rule ibv_data_complete) (simp add: fifo_done_def)
  from run_step [where step = ?step, OF run_step [where step = ?step, OF run_one [where step = ?step, OF a] b] c]
  show ?thesis by simp
qed

theorem data_plane_exactly_once_witness:
  "map up_handler (upcalls (snd fifo_done)) = [5] \<and> live_ops (snd fifo_done) = Map.empty"
proof -
  have "ready (snd fifo_done) = [] \<and> scheduled (snd fifo_done) = [] \<and> io_completed (fst fifo_done) = [] \<and>
    hw (snd fifo_done) = []" by code_simp
  moreover have "vw_inv mset [] (io_completed io_service_new) (data_idle [])"
    using data_idle_inv(1) [of mset "[]"] by (simp add: io_service_new_def)
  ultimately have "mset (map up_handler (upcalls (snd fifo_done))) = {#5#} \<and> live_ops (snd fifo_done) = Map.empty"
    using data_plane_exactly_once [OF fifo_plane_law _ data_idle_inv(2) fifo_run] by simp
  then show ?thesis unfolding mset_single_iff by simp
qed

definition nd_fifo_plane :: "nd_fifo nd_plane" where
  "nd_fifo_plane = \<lparr>np_post = nd_fifo_post_api, np_cq = nd_fifo_cq_api, np_handler = \<lambda>u w. w\<rparr>"

lemma nd_fifo_plane_law: "nd_plane_law nd_fifo_outs nd_fifo_plane"
  by (simp add: nd_plane_law_def nd_fifo_plane_def nd_fifo_laws idle_handler_keeps idle_handler)

abbreviation nd_fifo_start :: nd_fifo where
  "nd_fifo_start \<equiv> \<lparr>nf_requests = [], nf_next = 16, nf_live = []\<rparr>"

definition nd_fifo_sent :: "nd_fifo vworld" where
  "nd_fifo_sent = nd_initiate nd_fifo_post_api True post_send
     (nd_verbs_impl_new\<lparr>nvi_qp := 80, nvi_cq := 96, nvi_config := default_config\<rparr>)
     (Single_buffer data_send) no_remote 5 12288 (data_idle nd_fifo_start)"

definition nd_fifo_started :: "nd_io_service \<times> nd_fifo vworld" where
  "nd_fifo_started = nd_ensure_poller_started nd_fifo_cq_api (nd_io_service_new\<lparr>nio_wc_size := 16\<rparr>) nd_fifo_sent"

definition nd_fifo_done :: "nd_io_service \<times> nd_fifo vworld" where
  "nd_fifo_done = nd_poll_wc_do_complete nd_fifo_cq_api (\<lambda>u w. w) True (fst nd_fifo_started) (snd nd_fifo_started)"

lemma nd_fifo_run:
  "labelled_run (nd_data_step nd_fifo_outs nd_fifo_plane) (nd_io_service_new\<lparr>nio_wc_size := 16\<rparr>, data_idle nd_fifo_start)
     {#5#} (fst nd_fifo_done, snd nd_fifo_done)"
proof -
  let ?step = "nd_data_step nd_fifo_outs nd_fifo_plane" and ?s = "nd_io_service_new\<lparr>nio_wc_size := 16\<rparr>"
  have sel: "np_post nd_fifo_plane = nd_fifo_post_api" "np_cq nd_fifo_plane = nd_fifo_cq_api"
    "np_handler nd_fifo_plane = (\<lambda>u w. w)" by (simp_all add: nd_fifo_plane_def)
  have a: "?step (?s, data_idle nd_fifo_start) {#5#} (?s, nd_fifo_sent)"
    unfolding nd_fifo_sent_def sel(1) [symmetric]
    by (rule nd_data_initiate) (simp_all add: fresh_op_def data_idle_def)
  have b: "?step (?s, nd_fifo_sent) {#} (fst nd_fifo_started, snd nd_fifo_started)"
    by (rule nd_data_start) (simp add: nd_fifo_started_def sel)
  have "nio_phase (fst nd_fifo_started) \<noteq> NPoller_idle" by code_simp
  then have c: "?step (fst nd_fifo_started, snd nd_fifo_started) {#} (fst nd_fifo_done, snd nd_fifo_done)"
    by (rule nd_data_complete) (simp add: nd_fifo_done_def sel)
  from run_step [where step = ?step, OF run_step [where step = ?step, OF run_one [where step = ?step, OF a] b] c]
  show ?thesis by simp
qed

theorem nd_data_plane_exactly_once_witness:
  "map up_handler (upcalls (snd nd_fifo_done)) = [5] \<and> live_ops (snd nd_fifo_done) = Map.empty"
proof -
  have "ready (snd nd_fifo_done) = [] \<and> scheduled (snd nd_fifo_done) = [] \<and> nf_requests (hw (snd nd_fifo_done)) = []"
    by code_simp
  moreover have "vw_inv nd_fifo_outs [] [] (data_idle nd_fifo_start)"
    using data_idle_inv(1) [of nd_fifo_outs nd_fifo_start] by (simp add: nd_fifo_outs_def)
  ultimately have "mset (map up_handler (upcalls (snd nd_fifo_done))) = {#5#} \<and>
    live_ops (snd nd_fifo_done) = Map.empty"
    using nd_data_plane_exactly_once [OF nd_fifo_plane_law _ data_idle_inv(2) nd_fifo_run]
    by (simp add: nd_fifo_outs_def)
  then show ?thesis unfolding mset_single_iff by simp
qed

end
