(* ===== verification/IBV_Queue_Pair.thy ===== *)
theory IBV_Queue_Pair
  imports IBV_IO_Completion
begin

text \<open>
  Installing a device on an \<open>io_context\<close> and binding queue pairs:
  \<open>ibv/detail/ibv_service_device.hpp\<close>, \<open>ibv/impl/ibv_use_device.ipp\<close>, \<open>ibv/ibv_queue_pair.hpp\<close>,
  \<open>ibv/impl/ibv_queue_pair.ipp\<close> and the adapter of \<open>detail/move_accept_handler.hpp\<close>.

  An \<open>io_context\<close> is the pair of services the sources keep on it. The lemmas: \<open>use_device\<close> registers
  exactly on success, a bound queue pair has the mode it was bound with, and initiating through a
  bound queue pair keeps the data plane's accounting.
\<close>

subsection \<open>The device service and \<open>use_device\<close>\<close>

record device_service =
  ds_device :: "ibv_device_t option"
  ds_effective_config :: rdma_config_t
  ds_registered :: bool

definition device_service_new :: device_service where
  "device_service_new =
     \<lparr>ds_device = None, ds_effective_config = default_config, ds_registered = False\<rparr>"

definition device_service_shutdown :: "device_service \<Rightarrow> device_service" where
  "device_service_shutdown s = s\<lparr>ds_device := None, ds_registered := False\<rparr>"

definition register_device ::
  "ibv_device_t option \<Rightarrow> rdma_config_t \<Rightarrow> device_service \<Rightarrow> device_service" where
  "register_device device effective s =
     s\<lparr>ds_device := device, ds_effective_config := effective, ds_registered := True\<rparr>"

record io_ctx =
  ctx_dev :: device_service
  ctx_io :: io_service

definition use_device ::
  "io_setup_api \<Rightarrow> ibv_device_t option \<Rightarrow> rdma_config_t \<Rightarrow> io_ctx \<Rightarrow> error_code \<times> io_ctx" where
  "use_device api device config ctx =
     (if ds_registered (ctx_dev ctx) then (make_error_code already_registered, ctx)
      else if \<not> is_valid_device device then (make_error_code invalid_device, ctx)
      else if \<not> ibv_is_config_compatible config (dev_attr (the device))
      then (make_error_code invalid_config, ctx)
      else let effective = ibv_derive_effective_config config (dev_attr (the device)) in
        case io_initialize api device (cqe effective) (cq_poll_batch effective) (ctx_io ctx) of
          (ec, io) \<Rightarrow>
            if is_error ec then (ec, ctx\<lparr>ctx_io := io\<rparr>)
            else (ec, ctx\<lparr>ctx_io := io, ctx_dev := register_device device effective (ctx_dev ctx)\<rparr>))"

text \<open>The throwing overload.\<close>

definition use_device_throwing ::
  "io_setup_api \<Rightarrow> ibv_device_t option \<Rightarrow> rdma_config_t \<Rightarrow> io_ctx \<Rightarrow> (error_code + unit) \<times> io_ctx" where
  "use_device_throwing api device config ctx =
     (case use_device api device config ctx of
        (ec, ctx') \<Rightarrow> (if is_error ec then Inl ec else Inr (), ctx'))"

subsection \<open>Queue pairs\<close>

text \<open>\<open>qp_io_ctx\<close> and \<open>qp_verbs_svc\<close> are the cached pointers; a null \<open>qp_io_ctx\<close> is poll mode.\<close>

record ibv_queue_pair =
  qp_impl :: ibv_verbs_impl
  qp_io_ctx :: ptr
  qp_verbs_svc :: ptr

definition queue_pair_new :: ibv_queue_pair where
  "queue_pair_new = \<lparr>qp_impl = verbs_impl_new, qp_io_ctx = nullptr, qp_verbs_svc = nullptr\<rparr>"

text \<open>The move constructor and assignment between two objects: the target and the source after it.\<close>

definition queue_pair_move :: "ibv_queue_pair \<Rightarrow> ibv_queue_pair \<times> ibv_queue_pair" where
  "queue_pair_move other =
     (\<lparr>qp_impl = qp_impl other, qp_io_ctx = qp_io_ctx other, qp_verbs_svc = qp_verbs_svc other\<rparr>,
      other\<lparr>qp_impl := verbs_impl_new, qp_io_ctx := nullptr, qp_verbs_svc := nullptr\<rparr>)"

definition bound_type :: "ibv_queue_pair \<Rightarrow> completion_mode" where
  "bound_type qp =
     (if \<not> verbs_is_bound (qp_impl qp) then mode_none
      else if qp_io_ctx qp \<noteq> nullptr then mode_event else mode_poll)"

text \<open>\<open>bind(io_context)\<close>; \<open>ctxp\<close> and \<open>svcp\<close> are the addresses of the context and its verbs service.\<close>

definition bind_io ::
  "'h notify_api \<Rightarrow> ptr \<Rightarrow> ptr \<Rightarrow> io_ctx \<Rightarrow> ibv_queue_pair \<Rightarrow> 'h vworld
   \<Rightarrow> error_code \<times> io_ctx \<times> ibv_queue_pair \<times> 'h vworld" where
  "bind_io api ctxp svcp ctx qp w =
     (if verbs_is_bound (qp_impl qp) then (already_open, ctx, qp, w)
      else if \<not> ds_registered (ctx_dev ctx)
      then (make_error_code device_not_registered, ctx, qp, w)
      else
        let qp' = qp\<lparr>qp_io_ctx := ctxp,
              qp_impl := (qp_impl qp)\<lparr>vi_device := ds_device (ctx_dev ctx), vi_cq := io_cq (ctx_io ctx),
                vi_config := ds_effective_config (ctx_dev ctx), vi_poll_cq := nullptr\<rparr>,
              qp_verbs_svc := svcp\<rparr>
        in case ensure_poller_started api (ctx_io ctx) w of
          (io, w') \<Rightarrow> (no_error, ctx\<lparr>ctx_io := io\<rparr>, qp', w'))"

text \<open>\<open>bind(completion_queue)\<close>; \<open>cqp\<close> is the address of the completion queue object.\<close>

definition bind_cq ::
  "ptr \<Rightarrow> ibv_completion_queue \<Rightarrow> ibv_queue_pair \<Rightarrow> error_code \<times> ibv_queue_pair" where
  "bind_cq cqp cq qp =
     (if verbs_is_bound (qp_impl qp) then (already_open, qp)
      else (no_error,
        qp\<lparr>qp_io_ctx := nullptr, qp_verbs_svc := nullptr,
           qp_impl := (qp_impl qp)\<lparr>vi_device := Some (cq_device cq), vi_cq := cq_handle cq,
             vi_config := cq_effective_config cq, vi_poll_cq := cqp\<rparr>\<rparr>))"

text \<open>The closure of \<open>make_create_qp_fn\<close>: it creates the native queue pair and back-fills \<open>impl_\<close>.\<close>

definition make_create_qp_fn ::
  "(ptr \<Rightarrow> ptr \<Rightarrow> qp_init_attr \<Rightarrow> int \<times> int \<times> ptr) \<Rightarrow> ptr \<Rightarrow> ibv_queue_pair
   \<Rightarrow> error_code \<times> ibv_queue_pair" where
  "make_create_qp_fn rdma_create_qp cm_id qp =
     (case verbs_create_qp rdma_create_qp cm_id (qp_impl qp) of
        (ec, impl) \<Rightarrow> (ec, qp\<lparr>qp_impl := impl\<rparr>))"

definition qp_async_send ::
  "'h post_send_fn \<Rightarrow> ibv_queue_pair \<Rightarrow> buffer_seq \<Rightarrow> nat \<Rightarrow> ptr \<Rightarrow> 'h vworld \<Rightarrow> 'h vworld" where
  "qp_async_send ps qp bufs h p w =
     (if qp_io_ctx qp \<noteq> nullptr then async_send ps (qp_impl qp) bufs h p w
      else async_send_static ps (qp_impl qp) bufs h p w)"

definition qp_async_recv ::
  "'h post_recv_fn \<Rightarrow> ibv_queue_pair \<Rightarrow> buffer_seq \<Rightarrow> nat \<Rightarrow> ptr \<Rightarrow> 'h vworld \<Rightarrow> 'h vworld" where
  "qp_async_recv pr qp bufs h p w =
     (if qp_io_ctx qp \<noteq> nullptr then async_recv pr (qp_impl qp) bufs h p w
      else async_recv_static pr (qp_impl qp) bufs h p w)"

definition qp_async_write ::
  "'h post_send_fn \<Rightarrow> ibv_queue_pair \<Rightarrow> buffer_seq \<Rightarrow> rdma_remote_addr_t \<Rightarrow> nat \<Rightarrow> ptr \<Rightarrow> 'h vworld
   \<Rightarrow> 'h vworld" where
  "qp_async_write ps qp bufs r h p w =
     (if qp_io_ctx qp \<noteq> nullptr then async_write ps (qp_impl qp) bufs r h p w
      else async_write_static ps (qp_impl qp) bufs r h p w)"

definition qp_async_read ::
  "'h post_send_fn \<Rightarrow> ibv_queue_pair \<Rightarrow> buffer_seq \<Rightarrow> rdma_remote_addr_t \<Rightarrow> nat \<Rightarrow> ptr \<Rightarrow> 'h vworld
   \<Rightarrow> 'h vworld" where
  "qp_async_read ps qp bufs r h p w =
     (if qp_io_ctx qp \<noteq> nullptr then async_read ps (qp_impl qp) bufs r h p w
      else async_read_static ps (qp_impl qp) bufs r h p w)"

text \<open>\<open>move_accept_handler\<close>: the queue pair the user's handler receives.\<close>

definition move_accept_result :: "error_code \<Rightarrow> ibv_queue_pair \<Rightarrow> ibv_queue_pair" where
  "move_accept_result ec qp = fst (queue_pair_move (if is_error ec then queue_pair_new else qp))"

subsection \<open>Lemmas\<close>

text \<open>The context's invariant: registered exactly when the completion service is set up.\<close>

definition ctx_ok :: "io_ctx \<Rightarrow> bool" where
  "ctx_ok ctx \<longleftrightarrow>
     (if ds_registered (ctx_dev ctx)
      then is_valid_device (ds_device (ctx_dev ctx)) \<and> io_cq (ctx_io ctx) \<noteq> nullptr \<and>
        io_comp_channel (ctx_io ctx) \<noteq> nullptr \<and> io_registered (ctx_io ctx) \<and>
        0 < io_poll_batch (ctx_io ctx) \<and>
        (\<forall>d. ds_device (ctx_dev ctx) = Some d \<longrightarrow>
           ibv_is_config_compatible (ds_effective_config (ctx_dev ctx)) (dev_attr d))
      else io_cq (ctx_io ctx) = nullptr \<and> io_comp_channel (ctx_io ctx) = nullptr)"

lemma use_device_outcome:
  assumes errno: "setup_sets_errno api" and ok: "ctx_ok ctx"
    and r: "use_device api device config ctx = (ec, ctx')"
  shows "ctx_ok ctx' \<and>
    (if is_error ec then ctx_dev ctx' = ctx_dev ctx
     else ds_registered (ctx_dev ctx') \<and> \<not> ds_registered (ctx_dev ctx) \<and>
       ds_device (ctx_dev ctx') = device \<and>
       ds_effective_config (ctx_dev ctx') =
         ibv_derive_effective_config config (dev_attr (the device)))"
proof (cases "ds_registered (ctx_dev ctx) \<or> \<not> is_valid_device device \<or>
    \<not> ibv_is_config_compatible config (dev_attr (the device))")
  case True
  then have "is_error ec" "ctx' = ctx" using r by (auto simp: use_device_def split: if_splits)
  with ok show ?thesis by simp
next
  case False
  then obtain d where d: "device = Some d" "dev_context d \<noteq> nullptr"
    by (auto simp: is_valid_device_def split: option.splits)
  let ?eff = "ibv_derive_effective_config config (dev_attr d)"
  obtain e io where ini:
    "io_initialize api (Some d) (cqe ?eff) (cq_poll_batch ?eff) (ctx_io ctx) = (e, io)"
    by fastforce
  have un: "io_cq (ctx_io ctx) = nullptr" "io_comp_channel (ctx_io ctx) = nullptr"
    using ok False by (simp_all add: ctx_ok_def)
  note out = io_initialize_outcome [OF ini d(2) un errno refl refl]
  have c: "ibv_is_config_compatible ?eff (dev_attr d)"
    using ibv_config.derived_compat False d by simp
  show ?thesis
  proof (cases "is_error e")
    case True
    then have "ec = e" "ctx' = ctx\<lparr>ctx_io := io\<rparr>" using r False d ini by (auto simp: use_device_def)
    then show ?thesis using True out False by (simp add: init_outcome_def ctx_ok_def)
  next
    case ok': False
    then have "ec = e"
      "ctx' = ctx\<lparr>ctx_io := io, ctx_dev := register_device (Some d) ?eff (ctx_dev ctx)\<rparr>"
      using r False d ini by (auto simp: use_device_def)
    then show ?thesis
      using ok' out False d c by (auto simp: init_outcome_def ctx_ok_def register_device_def)
  qed
qed

text \<open>\<open>qp_ok\<close>: a queue pair that is bound for initiating.\<close>

definition qp_ok :: "ibv_queue_pair \<Rightarrow> bool" where
  "qp_ok qp \<longleftrightarrow> qp_io_ctx qp \<noteq> nullptr \<or> vi_poll_cq (qp_impl qp) \<noteq> nullptr"

lemma bind_io_outcome:
  assumes "ctx_ok ctx" and "ctxp \<noteq> nullptr"
    and "bind_io api ctxp svcp ctx qp w = (ec, ctx', qp', w')"
  shows "if is_error ec then qp' = qp \<and> ctx' = ctx \<and> w' = w
    else bound_type qp' = mode_event \<and> qp_ok qp' \<and> vi_qp (qp_impl qp') = vi_qp (qp_impl qp) \<and>
      is_valid_device (vi_device (qp_impl qp'))"
  using assms
  by (auto simp: bind_io_def ctx_ok_def bound_type_def verbs_is_bound_def qp_ok_def Let_def
      split: if_splits prod.splits)

lemma bind_cq_outcome:
  assumes "cq_handle cq \<noteq> nullptr" and "cqp \<noteq> nullptr" and "bind_cq cqp cq qp = (ec, qp')"
  shows "if is_error ec then qp' = qp
    else bound_type qp' = mode_poll \<and> qp_ok qp' \<and> vi_qp (qp_impl qp') = vi_qp (qp_impl qp)"
  using assms
  by (auto simp: bind_cq_def bound_type_def verbs_is_bound_def qp_ok_def split: if_splits)

lemma qp_async_inv:
  assumes "vw_inv outs batch held w" and "fresh_op p w" and "qp_ok qp"
    and "post_send_law outs ps" and "post_recv_law outs pr"
  shows "vw_inv outs batch held (qp_async_send ps qp bufs h p w)"
    and "vw_inv outs batch held (qp_async_recv pr qp bufs h p w)"
    and "vw_inv outs batch held (qp_async_read ps qp bufs r h p w)"
    and "vw_inv outs batch held (qp_async_write ps qp bufs r h p w)"
  using assms async_two_sided_inv [OF assms(1,2)] async_one_sided_inv [OF assms(1,2,4)]
  by (auto simp: qp_async_send_def qp_async_recv_def qp_async_read_def qp_async_write_def qp_ok_def)

lemma qp_async_handled:
  assumes "finite (dom (live_ops w))" and "fresh_op p w"
  shows "handled (qp_async_send ps qp bufs h p w) = add_mset h (handled w)"
    and "handled (qp_async_recv pr qp bufs h p w) = add_mset h (handled w)"
    and "handled (qp_async_read ps qp bufs r h p w) = add_mset h (handled w)"
    and "handled (qp_async_write ps qp bufs r h p w) = add_mset h (handled w)"
  using async_handled [OF assms]
  by (simp_all add: qp_async_send_def qp_async_recv_def qp_async_read_def qp_async_write_def)

end
