(* ===== verification/IBV_CM.thy ===== *)
theory IBV_CM
  imports IBV_Queue_Pair
begin

text \<open>
  Connection management over rdma_cm, the parts below the services:
  \<open>ibv/detail/impl/ibv_ops_cm.ipp\<close> (call wrappers and the drain of events),
  \<open>ibv/detail/impl/ibv_op_cm.ipp\<close>, the connect operation (\<open>ibv/detail/ibv_op_connect.hpp\<close>,
  \<open>impl/ibv_op_connect.ipp\<close>), the accept operation (\<open>ibv/detail/ibv_op_accept.hpp\<close>) and the
  disconnect watcher (\<open>ibv/detail/impl/ibv_op_wait_disconnect.ipp\<close>).

  rdma_cm is the type parameter \<open>'c\<close> with its calls as the fields of \<open>cm_api\<close>; a call returns its
  code, the \<open>errno\<close> it left and the new state. An operation's \<open>do_perform\<close> reads and writes the
  connector's \<open>connect_state_\<close>, which is passed and returned; here it runs alone, the interleaving
  with other threads is the subject of \<open>IBV_Arbitration\<close>.
\<close>

subsection \<open>Types\<close>

datatype connect_state =
  cs_idle | cs_addr_resolve | cs_addr_route | cs_connecting | cs_connected | cs_closed

abbreviation (input) max_private_data_size :: nat where "max_private_data_size \<equiv> 256"
abbreviation (input) max_outgoing_private_data :: nat where "max_outgoing_private_data \<equiv> 255"

datatype cm_event_type =
    RDMA_CM_EVENT_ADDR_RESOLVED | RDMA_CM_EVENT_ADDR_ERROR | RDMA_CM_EVENT_ROUTE_RESOLVED
  | RDMA_CM_EVENT_ROUTE_ERROR | RDMA_CM_EVENT_CONNECT_REQUEST | RDMA_CM_EVENT_CONNECT_RESPONSE
  | RDMA_CM_EVENT_CONNECT_ERROR | RDMA_CM_EVENT_UNREACHABLE | RDMA_CM_EVENT_REJECTED
  | RDMA_CM_EVENT_ESTABLISHED | RDMA_CM_EVENT_DISCONNECTED | RDMA_CM_EVENT_DEVICE_REMOVAL
  | RDMA_CM_EVENT_ADDR_CHANGE | RDMA_CM_EVENT_TIMEWAIT_EXIT

text \<open>\<open>ev_private_data\<close> is \<open>None\<close> for a null pointer, else the bytes it points to.\<close>

record cm_event =
  ev_type :: cm_event_type
  ev_status :: int
  ev_private_data :: "u8 list option"
  ev_private_data_len :: u8
  ev_id :: ptr

record conn_param =
  cp_private_data :: "u8 list option"
  cp_private_data_len :: u8
  cp_responder_resources :: u8
  cp_initiator_depth :: u8
  cp_retry_count :: u8
  cp_rnr_retry_count :: u8

type_synonym endpoint = "sockaddr \<times> nat"

record 'c cm_api =
  cma_event_channel :: "'c \<Rightarrow> ptr \<times> int \<times> 'c"
  cma_fcntl_get :: "'c \<Rightarrow> ptr \<Rightarrow> int \<times> int \<times> 'c"
  cma_fcntl_set :: "'c \<Rightarrow> ptr \<Rightarrow> int \<Rightarrow> int \<times> int \<times> 'c"
  cma_destroy_channel :: "'c \<Rightarrow> ptr \<Rightarrow> 'c"
  cma_create_id :: "'c \<Rightarrow> ptr \<Rightarrow> int \<times> int \<times> ptr \<times> 'c"
  cma_destroy_id :: "'c \<Rightarrow> ptr \<Rightarrow> 'c"
  cma_id_qp :: "'c \<Rightarrow> ptr \<Rightarrow> ptr"
  cma_destroy_qp :: "'c \<Rightarrow> ptr \<Rightarrow> 'c"
  cma_migrate_id :: "'c \<Rightarrow> ptr \<Rightarrow> ptr \<Rightarrow> int \<times> int \<times> 'c"
  cma_bind_addr :: "'c \<Rightarrow> ptr \<Rightarrow> endpoint \<Rightarrow> int \<times> int \<times> 'c"
  cma_listen :: "'c \<Rightarrow> ptr \<Rightarrow> i32 \<Rightarrow> int \<times> int \<times> 'c"
  cma_resolve_addr :: "'c \<Rightarrow> ptr \<Rightarrow> endpoint \<Rightarrow> i32 \<Rightarrow> int \<times> int \<times> 'c"
  cma_resolve_route :: "'c \<Rightarrow> ptr \<Rightarrow> i32 \<Rightarrow> int \<times> int \<times> 'c"
  cma_connect :: "'c \<Rightarrow> ptr \<Rightarrow> conn_param \<Rightarrow> int \<times> int \<times> 'c"
  cma_accept :: "'c \<Rightarrow> ptr \<Rightarrow> conn_param \<Rightarrow> int \<times> int \<times> 'c"
  cma_disconnect :: "'c \<Rightarrow> ptr \<Rightarrow> int \<times> int \<times> 'c"
  cma_get_event :: "'c \<Rightarrow> ptr \<Rightarrow> (int + cm_event) \<times> 'c"
  cma_ack_event :: "'c \<Rightarrow> cm_event \<Rightarrow> 'c"
  cma_modify_qp :: "'c \<Rightarrow> ptr \<Rightarrow> u8 \<Rightarrow> int \<times> 'c"

subsection \<open>Call wrappers\<close>

text \<open>The common tail: the return code, the code for \<open>ec\<close>, the new state.\<close>

definition cm_result :: "int \<times> int \<times> 'c \<Rightarrow> int \<times> error_code \<times> 'c" where
  "cm_result r =
     (case r of (rc, errno, c) \<Rightarrow> (rc, if rc \<noteq> 0 then last_system_error errno else no_error, c))"

definition cm_guarded :: "ptr \<Rightarrow> 'c \<Rightarrow> (int \<times> int \<times> 'c) \<Rightarrow> int \<times> error_code \<times> 'c" where
  "cm_guarded cm_id c r = (if cm_id = nullptr then (- 1, bad_descriptor, c) else cm_result r)"

definition set_nonblocking :: "'c cm_api \<Rightarrow> ptr \<Rightarrow> 'c \<Rightarrow> bool \<times> error_code \<times> 'c" where
  "set_nonblocking api fd c =
     (case cma_fcntl_get api c fd of (opt, errno, c1) \<Rightarrow>
        if opt = - 1 then (False, last_system_error errno, c1)
        else case cma_fcntl_set api c1 fd (opt OR 2048) of (rc, errno, c2) \<Rightarrow>
          if rc = - 1 then (False, last_system_error errno, c2) else (True, no_error, c2))"

text \<open>The channel's owner destroys it when the descriptor cannot be made non-blocking.\<close>

definition create_event_channel :: "'c cm_api \<Rightarrow> 'c \<Rightarrow> ptr \<times> error_code \<times> 'c" where
  "create_event_channel api c =
     (case cma_event_channel api c of (channel, errno, c1) \<Rightarrow>
        if channel = nullptr then (nullptr, last_system_error errno, c1)
        else case set_nonblocking api channel c1 of (ok, ec, c2) \<Rightarrow>
          if \<not> ok then (nullptr, ec, cma_destroy_channel api c2 channel)
          else (channel, ec, c2))"

definition create_cm_id :: "'c cm_api \<Rightarrow> ptr \<Rightarrow> 'c \<Rightarrow> int \<times> ptr \<times> error_code \<times> 'c" where
  "create_cm_id api channel c =
     (case cma_create_id api c channel of (rc, errno, cm_id, c') \<Rightarrow>
        if rc \<noteq> 0 then (rc, nullptr, last_system_error errno, c') else (rc, cm_id, no_error, c'))"

definition migrate_id :: "'c cm_api \<Rightarrow> ptr \<Rightarrow> ptr \<Rightarrow> 'c \<Rightarrow> int \<times> error_code \<times> 'c" where
  "migrate_id api cm_id channel c = cm_result (cma_migrate_id api c cm_id channel)"

definition cm_bind_addr :: "'c cm_api \<Rightarrow> ptr \<Rightarrow> endpoint \<Rightarrow> 'c \<Rightarrow> int \<times> error_code \<times> 'c" where
  "cm_bind_addr api cm_id addr c = cm_guarded cm_id c (cma_bind_addr api c cm_id addr)"

definition cm_listen :: "'c cm_api \<Rightarrow> ptr \<Rightarrow> i32 \<Rightarrow> 'c \<Rightarrow> int \<times> error_code \<times> 'c" where
  "cm_listen api cm_id backlog_n c = cm_guarded cm_id c (cma_listen api c cm_id backlog_n)"

definition resolve_addr :: "'c cm_api \<Rightarrow> ptr \<Rightarrow> endpoint \<Rightarrow> i32 \<Rightarrow> 'c \<Rightarrow> int \<times> error_code \<times> 'c" where
  "resolve_addr api cm_id dst timeout c =
     cm_guarded cm_id c (cma_resolve_addr api c cm_id dst timeout)"

definition resolve_route :: "'c cm_api \<Rightarrow> ptr \<Rightarrow> i32 \<Rightarrow> 'c \<Rightarrow> int \<times> error_code \<times> 'c" where
  "resolve_route api cm_id timeout c = cm_guarded cm_id c (cma_resolve_route api c cm_id timeout)"

definition cm_connect :: "'c cm_api \<Rightarrow> ptr \<Rightarrow> conn_param \<Rightarrow> 'c \<Rightarrow> int \<times> error_code \<times> 'c" where
  "cm_connect api cm_id param c = cm_guarded cm_id c (cma_connect api c cm_id param)"

definition cm_accept :: "'c cm_api \<Rightarrow> ptr \<Rightarrow> conn_param \<Rightarrow> 'c \<Rightarrow> int \<times> error_code \<times> 'c" where
  "cm_accept api cm_id param c = cm_guarded cm_id c (cma_accept api c cm_id param)"

definition cm_disconnect :: "'c cm_api \<Rightarrow> ptr \<Rightarrow> 'c \<Rightarrow> int \<times> error_code \<times> 'c" where
  "cm_disconnect api cm_id c = cm_guarded cm_id c (cma_disconnect api c cm_id)"

text \<open>\<open>get_cm_event\<close>: the code is clear with an event and without one (\<open>EAGAIN\<close>).\<close>

definition get_cm_event :: "'c cm_api \<Rightarrow> ptr \<Rightarrow> 'c \<Rightarrow> cm_event option \<times> error_code \<times> 'c" where
  "get_cm_event api channel c =
     (case cma_get_event api c channel of
        (Inl errno, c') \<Rightarrow> (None, if errno \<noteq> EAGAIN then last_system_error errno else no_error, c')
      | (Inr ev, c') \<Rightarrow> (Some ev, no_error, c'))"

text \<open>\<open>modify_qp\<close> returns the error number itself.\<close>

definition modify_qp :: "'c cm_api \<Rightarrow> ptr \<Rightarrow> u8 \<Rightarrow> 'c \<Rightarrow> error_code \<times> 'c" where
  "modify_qp api qp timer c =
     (case cma_modify_qp api c qp timer of
        (rc, c') \<Rightarrow> (if rc \<noteq> 0 then make_system_error_code rc else no_error, c'))"

text \<open>
  The drain before an id is destroyed; a drained \<open>ESTABLISHED\<close> is answered with a disconnect. The
  event is acknowledged at the end of each round. \<open>None\<close> is a drain that never ends.
\<close>

partial_function (option) drain_loop :: "'c cm_api \<Rightarrow> ptr \<Rightarrow> ptr \<Rightarrow> 'c \<Rightarrow> 'c option" where
  "drain_loop api channel graceful_cm_id c =
     (case get_cm_event api channel c of (event, ec, c1) \<Rightarrow>
        case event of
          None \<Rightarrow> Some c1
        | Some ev \<Rightarrow>
            let c2 = (if graceful_cm_id \<noteq> nullptr \<and> ev_type ev = RDMA_CM_EVENT_ESTABLISHED
                      then snd (snd (cm_disconnect api graceful_cm_id c1)) else c1)
            in drain_loop api channel graceful_cm_id (cma_ack_event api c2 ev))"

definition drain_cm_events :: "'c cm_api \<Rightarrow> ptr \<Rightarrow> ptr \<Rightarrow> 'c \<Rightarrow> 'c option" where
  "drain_cm_events api channel graceful_cm_id c =
     (if channel = nullptr then Some c else drain_loop api channel graceful_cm_id c)"

subsection \<open>The connect operation\<close>

datatype connect_stage = st_addr_resolve | st_addr_route | st_connect | st_done | st_error

text \<open>
  \<open>co_request\<close> is the copied request (its length fits 8 bits), \<open>co_reply_buf\<close> whether the caller gave
  a reply buffer and \<open>co_reply\<close> the bytes written there. \<open>co_create_qp\<close> says whether a callback is set.
\<close>

record connect_op =
  co_ec :: error_code
  co_stage :: connect_stage
  co_cm_id :: ptr
  co_channel :: ptr
  co_timeout :: i32
  co_request :: "u8 list"
  co_reply_buf :: bool
  co_reply_cap :: nat
  co_reply :: "u8 list"
  co_responder_resources :: u8
  co_initiator_depth :: u8
  co_rnr_retry :: u8
  co_min_rnr_timer :: u8
  co_create_qp :: bool
  co_handler :: nat

text \<open>The constructor copies at most \<open>max_outgoing_private_data\<close> bytes.\<close>

definition connect_op_new ::
  "error_code \<Rightarrow> ptr \<Rightarrow> ptr \<Rightarrow> i32 \<Rightarrow> u8 list \<Rightarrow> bool \<Rightarrow> nat \<Rightarrow> u8 \<Rightarrow> u8 \<Rightarrow> u8 \<Rightarrow> u8 \<Rightarrow> bool \<Rightarrow> nat \<Rightarrow> connect_op"
  where
  "connect_op_new success_ec cm_id channel timeout request reply_buf reply_cap responder depth rnr timer
     qp h =
     \<lparr>co_ec = success_ec, co_stage = st_addr_resolve, co_cm_id = cm_id,
      co_channel = (if cm_id \<noteq> nullptr then channel else nullptr), co_timeout = timeout,
      co_request = take (min (length request) max_outgoing_private_data) request,
      co_reply_buf = reply_buf, co_reply_cap = reply_cap, co_reply = [],
      co_responder_resources = responder, co_initiator_depth = depth, co_rnr_retry = rnr,
      co_min_rnr_timer = timer, co_create_qp = qp, co_handler = h\<rparr>"

definition advance :: "connect_state \<Rightarrow> connect_state \<Rightarrow> connect_state \<Rightarrow> bool \<times> connect_state" where
  "advance from to st = (if st = from then (True, to) else (False, st))"

text \<open>Run alone, the compare-exchange loop of \<open>claim_closed\<close> succeeds at its first attempt.\<close>

definition claim_closed :: "connect_state \<Rightarrow> bool \<times> connect_state" where
  "claim_closed st = (if st = cs_closed then (False, st) else (True, cs_closed))"

text \<open>The pattern \<open>ec_ = e; if (!claim_closed()) ec_ = operation_aborted; return done;\<close>\<close>

definition fail_with ::
  "error_code \<Rightarrow> connect_op \<Rightarrow> connect_state \<Rightarrow> 'c \<Rightarrow> bool \<times> connect_op \<times> connect_state \<times> 'c" where
  "fail_with e op st c =
     (case claim_closed st of
        (claimed, st') \<Rightarrow> (True, op\<lparr>co_ec := (if claimed then e else operation_aborted)\<rparr>, st', c))"

definition aborted_by_disconnect ::
  "connect_op \<Rightarrow> connect_state \<Rightarrow> 'c \<Rightarrow> bool \<times> connect_op \<times> connect_state \<times> 'c" where
  "aborted_by_disconnect op st c = (True, op\<lparr>co_ec := operation_aborted\<rparr>, st, c)"

definition event_status_ec :: "cm_event \<Rightarrow> error_code" where
  "event_status_ec ev =
     make_system_error_code (if ev_status ev \<noteq> 0 then - ev_status ev else EHOSTUNREACH)"

type_synonym 'c create_qp_cb = "ptr \<Rightarrow> 'c \<Rightarrow> error_code \<times> 'c"

definition do_process_addr_resolve ::
  "'c cm_api \<Rightarrow> 'c create_qp_cb \<Rightarrow> cm_event \<Rightarrow> connect_op \<Rightarrow> connect_state \<Rightarrow> 'c
   \<Rightarrow> bool \<times> connect_op \<times> connect_state \<times> 'c" where
  "do_process_addr_resolve api create_qp ev op st c =
     (case ev_type ev of
        RDMA_CM_EVENT_ADDR_RESOLVED \<Rightarrow>
          (case advance cs_addr_resolve cs_addr_route st of (moved, st1) \<Rightarrow>
             if \<not> moved then aborted_by_disconnect op st1 c
             else case (if co_create_qp op then create_qp (co_cm_id op) c else (co_ec op, c)) of
               (ec1, c1) \<Rightarrow>
                 if co_create_qp op \<and> is_error ec1 then fail_with ec1 op st1 c1
                 else case resolve_route api (co_cm_id op) (co_timeout op) c1 of
                   (rc, ec2, c2) \<Rightarrow>
                     if rc = 0 then (False, op\<lparr>co_ec := ec2, co_stage := st_addr_route\<rparr>, st1, c2)
                     else fail_with ec2 op st1 c2)
      | RDMA_CM_EVENT_ADDR_ERROR \<Rightarrow> fail_with (event_status_ec ev) op st c
      | _ \<Rightarrow> fail_with connection_aborted op st c)"

definition connect_param :: "connect_op \<Rightarrow> conn_param" where
  "connect_param op =
     \<lparr>cp_private_data = (if co_request op \<noteq> [] then Some (co_request op) else None),
      cp_private_data_len = of_nat (length (co_request op)),
      cp_responder_resources = co_responder_resources op,
      cp_initiator_depth = co_initiator_depth op, cp_retry_count = 7,
      cp_rnr_retry_count = co_rnr_retry op\<rparr>"

definition do_process_addr_route ::
  "'c cm_api \<Rightarrow> cm_event \<Rightarrow> connect_op \<Rightarrow> connect_state \<Rightarrow> 'c
   \<Rightarrow> bool \<times> connect_op \<times> connect_state \<times> 'c" where
  "do_process_addr_route api ev op st c =
     (case ev_type ev of
        RDMA_CM_EVENT_ROUTE_RESOLVED \<Rightarrow>
          (case advance cs_addr_route cs_connecting st of (moved, st1) \<Rightarrow>
             if \<not> moved then aborted_by_disconnect op st1 c
             else case cm_connect api (co_cm_id op) (connect_param op) c of
               (rc, ec, c1) \<Rightarrow>
                 if rc = 0 then (False, op\<lparr>co_ec := ec, co_stage := st_connect\<rparr>, st1, c1)
                 else fail_with ec op st1 c1)
      | RDMA_CM_EVENT_ROUTE_ERROR \<Rightarrow> fail_with (event_status_ec ev) op st c
      | _ \<Rightarrow> fail_with connection_aborted op st c)"

text \<open>The reply copied on \<open>ESTABLISHED\<close>: nothing without a buffer, capacity, pointer and length.\<close>

definition copy_reply :: "cm_event \<Rightarrow> connect_op \<Rightarrow> connect_op" where
  "copy_reply ev op =
     (case ev_private_data ev of
        None \<Rightarrow> op
      | Some bytes \<Rightarrow>
          if co_reply_buf op \<and> co_reply_cap op \<noteq> 0 \<and> ev_private_data_len ev \<noteq> 0
          then op\<lparr>co_reply := take (min (unat (ev_private_data_len ev)) (co_reply_cap op)) bytes\<rparr>
          else op)"

definition do_process_connect ::
  "'c cm_api \<Rightarrow> cm_event \<Rightarrow> connect_op \<Rightarrow> connect_state \<Rightarrow> 'c
   \<Rightarrow> bool \<times> connect_op \<times> connect_state \<times> 'c" where
  "do_process_connect api ev op st c =
     (case ev_type ev of
        RDMA_CM_EVENT_ESTABLISHED \<Rightarrow>
          (if st = cs_connecting
           then case modify_qp api (cma_id_qp api c (co_cm_id op)) (co_min_rnr_timer op) c of
             (ec, c1) \<Rightarrow> (True, (copy_reply ev op)\<lparr>co_ec := ec\<rparr>, cs_connected, c1)
           else case cm_disconnect api (co_cm_id op) c of
             (rc, ignored, c1) \<Rightarrow> (True, op\<lparr>co_ec := operation_aborted\<rparr>, st, c1))
      | RDMA_CM_EVENT_CONNECT_ERROR \<Rightarrow> fail_with connection_aborted op st c
      | RDMA_CM_EVENT_UNREACHABLE \<Rightarrow> fail_with host_unreachable op st c
      | RDMA_CM_EVENT_REJECTED \<Rightarrow> fail_with connection_refused op st c
      | _ \<Rightarrow> fail_with connection_aborted op st c)"

definition connect_do_process ::
  "'c cm_api \<Rightarrow> 'c create_qp_cb \<Rightarrow> cm_event \<Rightarrow> connect_op \<Rightarrow> connect_state \<Rightarrow> 'c
   \<Rightarrow> bool \<times> connect_op \<times> connect_state \<times> 'c" where
  "connect_do_process api create_qp ev op st c =
     (case co_stage op of
        st_addr_resolve \<Rightarrow> do_process_addr_resolve api create_qp ev op st c
      | st_addr_route \<Rightarrow> do_process_addr_route api ev op st c
      | st_connect \<Rightarrow> do_process_connect api ev op st c
      | _ \<Rightarrow> (True, op\<lparr>co_ec := make_error_code invalid_device\<rparr>, st, c))"

text \<open>\<open>do_perform\<close>: \<open>True\<close> is \<open>done\<close>; the event is acknowledged when it goes out of scope.\<close>

definition connect_do_perform ::
  "'c cm_api \<Rightarrow> 'c create_qp_cb \<Rightarrow> connect_op \<Rightarrow> connect_state \<Rightarrow> 'c
   \<Rightarrow> bool \<times> connect_op \<times> connect_state \<times> 'c" where
  "connect_do_perform api create_qp op st c =
     (case get_cm_event api (co_channel op) c of (event, ec, c1) \<Rightarrow>
        if is_error ec then (True, op\<lparr>co_ec := ec\<rparr>, st, c1)
        else case event of
          None \<Rightarrow> (False, op\<lparr>co_ec := ec\<rparr>, st, c1)
        | Some ev \<Rightarrow>
            (case connect_do_process api create_qp ev (op\<lparr>co_ec := ec\<rparr>) st c1 of
               (fin, op', st', c2) \<Rightarrow> (fin, op', st', cma_ack_event api c2 ev)))"

text \<open>What a control-plane handler is invoked with, and \<open>do_complete\<close>.\<close>

record cm_upcall =
  cu_handler :: nat
  cu_ec :: error_code
  cu_reply_len :: nat

definition connect_do_complete ::
  "bool \<Rightarrow> connect_op \<Rightarrow> connect_state \<Rightarrow> cm_upcall option \<times> connect_state" where
  "connect_do_complete owner op st =
     (let st' = (if owner \<and> co_ec op = operation_aborted then cs_closed else st)
      in (if owner
          then Some \<lparr>cu_handler = co_handler op, cu_ec = co_ec op, cu_reply_len = length (co_reply op)\<rparr>
          else None, st'))"

subsection \<open>The accept operation\<close>

record accept_op =
  ao_ec :: error_code
  ao_cm_id :: ptr
  ao_channel :: ptr
  ao_min_rnr_timer :: u8
  ao_handler :: nat

definition accept_op_new :: "error_code \<Rightarrow> ptr \<Rightarrow> ptr \<Rightarrow> u8 \<Rightarrow> nat \<Rightarrow> accept_op" where
  "accept_op_new success_ec cm_id channel timer h =
     \<lparr>ao_ec = success_ec, ao_cm_id = cm_id, ao_channel = (if cm_id \<noteq> nullptr then channel else nullptr),
      ao_min_rnr_timer = timer, ao_handler = h\<rparr>"

definition accept_fail_with ::
  "error_code \<Rightarrow> accept_op \<Rightarrow> connect_state \<Rightarrow> 'c \<Rightarrow> bool \<times> accept_op \<times> connect_state \<times> 'c" where
  "accept_fail_with e op st c =
     (case claim_closed st of
        (claimed, st') \<Rightarrow> (True, op\<lparr>ao_ec := (if claimed then e else operation_aborted)\<rparr>, st', c))"

definition accept_do_process ::
  "'c cm_api \<Rightarrow> cm_event \<Rightarrow> accept_op \<Rightarrow> connect_state \<Rightarrow> 'c
   \<Rightarrow> bool \<times> accept_op \<times> connect_state \<times> 'c" where
  "accept_do_process api ev op st c =
     (case ev_type ev of
        RDMA_CM_EVENT_ESTABLISHED \<Rightarrow>
          (if st \<noteq> cs_connecting
           then case cm_disconnect api (ao_cm_id op) c of
             (rc, ignored, c1) \<Rightarrow> (True, op\<lparr>ao_ec := operation_aborted\<rparr>, st, c1)
           else case modify_qp api (cma_id_qp api c (ao_cm_id op)) (ao_min_rnr_timer op) c of
             (ec, c1) \<Rightarrow> (True, op\<lparr>ao_ec := ec\<rparr>, cs_connected, c1))
      | RDMA_CM_EVENT_REJECTED \<Rightarrow> accept_fail_with connection_refused op st c
      | RDMA_CM_EVENT_CONNECT_ERROR \<Rightarrow> accept_fail_with connection_aborted op st c
      | _ \<Rightarrow> accept_fail_with connection_aborted op st c)"

definition accept_do_perform ::
  "'c cm_api \<Rightarrow> accept_op \<Rightarrow> connect_state \<Rightarrow> 'c \<Rightarrow> bool \<times> accept_op \<times> connect_state \<times> 'c" where
  "accept_do_perform api op st c =
     (case get_cm_event api (ao_channel op) c of (event, ec, c1) \<Rightarrow>
        if is_error ec then (True, op\<lparr>ao_ec := ec\<rparr>, st, c1)
        else case event of
          None \<Rightarrow> (False, op\<lparr>ao_ec := ec\<rparr>, st, c1)
        | Some ev \<Rightarrow>
            (case accept_do_process api ev (op\<lparr>ao_ec := ec\<rparr>) st c1 of
               (fin, op', st', c2) \<Rightarrow> (fin, op', st', cma_ack_event api c2 ev)))"

definition accept_do_complete ::
  "bool \<Rightarrow> accept_op \<Rightarrow> connect_state \<Rightarrow> cm_upcall option \<times> connect_state" where
  "accept_do_complete owner op st =
     (let st' = (if owner \<and> ao_ec op = operation_aborted then cs_closed else st)
      in (if owner then Some \<lparr>cu_handler = ao_handler op, cu_ec = ao_ec op, cu_reply_len = 0\<rparr> else None,
          st'))"

subsection \<open>The disconnect watcher\<close>

record wait_op =
  wo_ec :: error_code
  wo_channel :: ptr
  wo_handler :: nat

definition wait_op_new :: "error_code \<Rightarrow> ptr \<Rightarrow> nat \<Rightarrow> wait_op" where
  "wait_op_new success_ec channel h = \<lparr>wo_ec = success_ec, wo_channel = channel, wo_handler = h\<rparr>"

text \<open>The connector's \<open>peer_closed_\<close> latch is passed and returned.\<close>

definition wait_do_perform ::
  "'c cm_api \<Rightarrow> wait_op \<Rightarrow> bool \<Rightarrow> 'c \<Rightarrow> bool \<times> wait_op \<times> bool \<times> 'c" where
  "wait_do_perform api op peer_closed c =
     (case get_cm_event api (wo_channel op) c of (event, ec, c1) \<Rightarrow>
        if is_error ec then (True, op\<lparr>wo_ec := ec\<rparr>, peer_closed, c1)
        else case event of
          None \<Rightarrow> (False, op\<lparr>wo_ec := ec\<rparr>, peer_closed, c1)
        | Some ev \<Rightarrow>
            (case ev_type ev of
               RDMA_CM_EVENT_DISCONNECTED \<Rightarrow>
                 (True, op\<lparr>wo_ec := make_error_code disconnected\<rparr>, True, cma_ack_event api c1 ev)
             | RDMA_CM_EVENT_DEVICE_REMOVAL \<Rightarrow>
                 (True, op\<lparr>wo_ec := make_error_code device_removed\<rparr>, True, cma_ack_event api c1 ev)
             | _ \<Rightarrow> (False, op\<lparr>wo_ec := ec\<rparr>, peer_closed, cma_ack_event api c1 ev)))"

definition wait_do_complete :: "bool \<Rightarrow> wait_op \<Rightarrow> cm_upcall option" where
  "wait_do_complete owner op =
     (if owner then Some \<lparr>cu_handler = wo_handler op, cu_ec = wo_ec op, cu_reply_len = 0\<rparr> else None)"

subsection \<open>What the calls do to the number of disconnects\<close>

text \<open>
  \<open>disc\<close> counts the \<open>rdma_disconnect\<close> calls made so far: that call adds one, no other call does.
  \<open>cm_errno_law\<close>: a call that fails leaves an error number.
\<close>

definition disc_law :: "('c \<Rightarrow> nat) \<Rightarrow> 'c cm_api \<Rightarrow> bool" where
  "disc_law disc api \<longleftrightarrow>
     (\<forall>c i. disc (snd (snd (cma_disconnect api c i))) = Suc (disc c)) \<and>
     (\<forall>c i t. disc (snd (snd (cma_resolve_route api c i t))) = disc c) \<and>
     (\<forall>c i p. disc (snd (snd (cma_connect api c i p))) = disc c) \<and>
     (\<forall>c q t. disc (snd (cma_modify_qp api c q t)) = disc c) \<and>
     (\<forall>c ch. disc (snd (cma_get_event api c ch)) = disc c) \<and>
     (\<forall>c ev. disc (cma_ack_event api c ev) = disc c)"

definition qp_cb_law :: "('c \<Rightarrow> nat) \<Rightarrow> 'c create_qp_cb \<Rightarrow> bool" where
  "qp_cb_law disc create_qp \<longleftrightarrow> (\<forall>i c. disc (snd (create_qp i c)) = disc c)"

definition cm_errno_law :: "'c cm_api \<Rightarrow> bool" where
  "cm_errno_law api \<longleftrightarrow>
     (\<forall>c i t. fst (cma_resolve_route api c i t) \<noteq> 0 \<longrightarrow> fst (snd (cma_resolve_route api c i t)) \<noteq> 0) \<and>
     (\<forall>c i p. fst (cma_connect api c i p) \<noteq> 0 \<longrightarrow> fst (snd (cma_connect api c i p)) \<noteq> 0)"

lemma disc_lawD:
  assumes "disc_law disc api"
  shows "disc (snd (snd (cma_disconnect api c i))) = Suc (disc c)"
    and "disc (snd (snd (cma_resolve_route api c i t))) = disc c"
    and "disc (snd (snd (cma_connect api c i p))) = disc c"
    and "disc (snd (cma_modify_qp api c q m)) = disc c"
    and "disc (snd (cma_get_event api c ch)) = disc c"
    and "disc (cma_ack_event api c ev) = disc c"
  using assms by (simp_all add: disc_law_def)

lemma cm_guarded_disc:
  assumes "disc (snd (snd r)) = k" and "cm_id = nullptr \<Longrightarrow> disc c = k"
  shows "disc (snd (snd (cm_guarded cm_id c r))) = k"
  using assms by (cases r) (simp add: cm_guarded_def cm_result_def)

lemma wrapper_disc:
  assumes "disc_law disc api"
  shows "disc (snd (snd (resolve_route api i t c))) = disc c"
    and "disc (snd (snd (cm_connect api i p c))) = disc c"
    and "disc (snd (modify_qp api q m c)) = disc c"
    and "disc (snd (snd (get_cm_event api ch c))) = disc c"
    and "i \<noteq> nullptr \<Longrightarrow> disc (snd (snd (cm_disconnect api i c))) = Suc (disc c)"
proof -
  note law = disc_lawD [OF assms]
  show "disc (snd (snd (resolve_route api i t c))) = disc c"
    "disc (snd (snd (cm_connect api i p c))) = disc c"
    by (simp_all add: resolve_route_def cm_connect_def cm_guarded_disc law)
  show "disc (snd (modify_qp api q m c)) = disc c"
    using law(4) [of c q m] by (auto simp: modify_qp_def split: prod.split)
  show "disc (snd (snd (get_cm_event api ch c))) = disc c"
    using law(5) [of c ch] by (auto simp: get_cm_event_def split: prod.split sum.split)
  show "i \<noteq> nullptr \<Longrightarrow> disc (snd (snd (cm_disconnect api i c))) = Suc (disc c)"
    by (simp add: cm_disconnect_def cm_guarded_disc law)
qed

lemma wrapper_error:
  assumes "cm_errno_law api"
  shows "fst (resolve_route api i t c) \<noteq> 0 \<Longrightarrow> is_error (fst (snd (resolve_route api i t c)))"
    and "fst (cm_connect api i p c) \<noteq> 0 \<Longrightarrow> is_error (fst (snd (cm_connect api i p c)))"
  using assms
  by (auto simp: resolve_route_def cm_connect_def cm_guarded_def cm_result_def cm_errno_law_def
      split: prod.splits if_splits) (metis fst_conv snd_conv)+

subsection \<open>The connect operation's contract\<close>

text \<open>
  The state the operation published agrees with its stage, or another thread closed the connector.
\<close>

definition stage_matches :: "connect_op \<Rightarrow> connect_state \<Rightarrow> bool" where
  "stage_matches op st \<longleftrightarrow>
     (st = cs_closed \<and> co_stage op \<in> {st_addr_resolve, st_addr_route, st_connect}) \<or>
     (co_stage op, st) \<in> {(st_addr_resolve, cs_addr_resolve), (st_addr_route, cs_addr_route),
       (st_connect, cs_connecting)}"

definition stage_rank :: "connect_stage \<Rightarrow> nat" where
  "stage_rank s =
     (case s of st_addr_resolve \<Rightarrow> 2 | st_addr_route \<Rightarrow> 1 | st_connect \<Rightarrow> 0 | st_done \<Rightarrow> 0 | st_error \<Rightarrow> 0)"

text \<open>The outcome of processing one event.\<close>

definition connect_outcome ::
  "('c \<Rightarrow> nat) \<Rightarrow> cm_event \<Rightarrow> connect_op \<Rightarrow> connect_state \<Rightarrow> 'c
   \<Rightarrow> bool \<times> connect_op \<times> connect_state \<times> 'c \<Rightarrow> bool" where
  "connect_outcome disc ev op st c r \<longleftrightarrow>
     (case r of (fin, op', st', c') \<Rightarrow>
        (if fin
         then st' = (if co_stage op = st_connect \<and> ev_type ev = RDMA_CM_EVENT_ESTABLISHED \<and>
               st = cs_connecting then cs_connected else cs_closed) \<and>
           (st' = cs_closed \<longrightarrow> is_error (co_ec op')) \<and>
           (st = cs_closed \<longrightarrow> co_ec op' = operation_aborted)
         else stage_matches op' st' \<and> st' \<noteq> cs_closed \<and> st \<noteq> cs_closed \<and>
           stage_rank (co_stage op') < stage_rank (co_stage op) \<and> \<not> is_error (co_ec op')) \<and>
        co_cm_id op' = co_cm_id op \<and>
        disc c' = (if co_stage op = st_connect \<and> ev_type ev = RDMA_CM_EVENT_ESTABLISHED \<and>
          st = cs_closed then Suc (disc c) else disc c))"

lemma fail_with_outcome:
  assumes "is_error e" and "disc c' = disc c"
    and "\<not> (co_stage op = st_connect \<and> ev_type ev = RDMA_CM_EVENT_ESTABLISHED)"
    and "st = cs_closed \<Longrightarrow> st0 = cs_closed" and "st0 = cs_closed \<Longrightarrow> st = cs_closed"
  shows "connect_outcome disc ev op st0 c (fail_with e op st c')"
  using assms by (auto simp: fail_with_def claim_closed_def connect_outcome_def)

lemma event_status_ec_error: "is_error (event_status_ec ev)"
  by (simp add: event_status_ec_def)

lemma do_process_addr_resolve_outcome:
  assumes law: "disc_law disc api" "cm_errno_law api"
    and qp: "qp_cb_law disc create_qp"
    and stage: "co_stage op = st_addr_resolve" "stage_matches op st" and ok: "\<not> is_error (co_ec op)"
  shows "connect_outcome disc ev op st c (do_process_addr_resolve api create_qp ev op st c)"
proof (cases "ev_type ev = RDMA_CM_EVENT_ADDR_RESOLVED")
  case False
  then show ?thesis
    using stage event_status_ec_error [of ev]
    by (cases "ev_type ev") (auto simp: do_process_addr_resolve_def intro!: fail_with_outcome)
next
  case True
  show ?thesis
  proof (cases "st = cs_addr_resolve")
    case False
    then have "st = cs_closed" using stage by (auto simp: stage_matches_def)
    then show ?thesis
      using True stage by (simp add: do_process_addr_resolve_def advance_def aborted_by_disconnect_def
          connect_outcome_def)
  next
    case st: True
    obtain ec1 c1 where q: "(if co_create_qp op then create_qp (co_cm_id op) c else (co_ec op, c)) =
        (ec1, c1)" by fastforce
    have d1: "disc c1 = disc c" using q qp unfolding qp_cb_law_def by (metis snd_conv)
    obtain rc ec2 c2 where r: "resolve_route api (co_cm_id op) (co_timeout op) c1 = (rc, ec2, c2)"
      by (metis prod_cases3)
    have d2: "disc c2 = disc c"
      using wrapper_disc(1) [OF law(1), of "co_cm_id op" "co_timeout op" c1] r d1 by simp
    have e2: "rc \<noteq> 0 \<Longrightarrow> is_error ec2"
      using wrapper_error(1) [OF law(2), of "co_cm_id op" "co_timeout op" c1] r by simp
    have ok2: "rc = 0 \<Longrightarrow> \<not> is_error ec2"
      using r by (auto simp: resolve_route_def cm_guarded_def cm_result_def split: prod.splits if_splits)
    show ?thesis
    proof (cases "co_create_qp op \<and> is_error ec1")
      case True
      then have "do_process_addr_resolve api create_qp ev op st c = fail_with ec1 op cs_addr_route c1"
        using \<open>ev_type ev = _\<close> st q by (simp add: do_process_addr_resolve_def advance_def)
      then show ?thesis using True d1 st stage by (auto intro!: fail_with_outcome)
    next
      case False
      show ?thesis
      proof (cases "rc = 0")
        case True
        then show ?thesis
          using \<open>ev_type ev = _\<close> st q r False d2 ok2 stage
          by (auto simp: do_process_addr_resolve_def advance_def connect_outcome_def
              stage_matches_def stage_rank_def split: if_splits)
      next
        case nz: False
        then have "do_process_addr_resolve api create_qp ev op st c = fail_with ec2 op cs_addr_route c2"
          using \<open>ev_type ev = _\<close> st q r False
          by (auto simp: do_process_addr_resolve_def advance_def split: if_splits)
        then show ?thesis using nz e2 d2 st stage by (auto intro!: fail_with_outcome)
      qed
    qed
  qed
qed

lemma do_process_addr_route_outcome:
  assumes law: "disc_law disc api" "cm_errno_law api"
    and stage: "co_stage op = st_addr_route" "stage_matches op st"
  shows "connect_outcome disc ev op st c (do_process_addr_route api ev op st c)"
proof (cases "ev_type ev = RDMA_CM_EVENT_ROUTE_RESOLVED")
  case False
  then show ?thesis
    using stage event_status_ec_error [of ev]
    by (cases "ev_type ev") (auto simp: do_process_addr_route_def intro!: fail_with_outcome)
next
  case True
  show ?thesis
  proof (cases "st = cs_addr_route")
    case False
    then have "st = cs_closed" using stage by (auto simp: stage_matches_def)
    then show ?thesis
      using True stage by (simp add: do_process_addr_route_def advance_def aborted_by_disconnect_def
          connect_outcome_def)
  next
    case st: True
    obtain rc ec c1 where r: "cm_connect api (co_cm_id op) (connect_param op) c = (rc, ec, c1)"
      by (metis prod_cases3)
    have d: "disc c1 = disc c"
      using wrapper_disc(2) [OF law(1), of "co_cm_id op" "connect_param op" c] r by simp
    have e: "rc \<noteq> 0 \<Longrightarrow> is_error ec"
      using wrapper_error(2) [OF law(2), of "co_cm_id op" "connect_param op" c] r by simp
    have ok: "rc = 0 \<Longrightarrow> \<not> is_error ec"
      using r by (auto simp: cm_connect_def cm_guarded_def cm_result_def split: prod.splits if_splits)
    show ?thesis
    proof (cases "rc = 0")
      case rc: True
      then show ?thesis
        using True st r d ok stage
        by (auto simp: do_process_addr_route_def advance_def connect_outcome_def
            stage_matches_def stage_rank_def)
    next
      case False
      then have "do_process_addr_route api ev op st c = fail_with ec op cs_connecting c1"
        using True st r by (simp add: do_process_addr_route_def advance_def)
      then show ?thesis using False e d st stage by (auto intro!: fail_with_outcome)
    qed
  qed
qed

lemma do_process_connect_outcome:
  assumes law: "disc_law disc api" and id: "co_cm_id op \<noteq> nullptr"
    and stage: "co_stage op = st_connect" "stage_matches op st"
  shows "connect_outcome disc ev op st c (do_process_connect api ev op st c)"
proof (cases "ev_type ev = RDMA_CM_EVENT_ESTABLISHED")
  case False
  then show ?thesis
    using stage by (cases "ev_type ev") (auto simp: do_process_connect_def intro!: fail_with_outcome)
next
  case True
  obtain ec c1 where m: "modify_qp api (cma_id_qp api c (co_cm_id op)) (co_min_rnr_timer op) c = (ec, c1)"
    by fastforce
  obtain rc e c2 where k: "cm_disconnect api (co_cm_id op) c = (rc, e, c2)" by (metis prod_cases3)
  have "disc c1 = disc c" using wrapper_disc(3) [OF law] m by (metis snd_conv)
  moreover have "disc c2 = Suc (disc c)" using wrapper_disc(5) [OF law id, of c] k by simp
  moreover have "co_cm_id (copy_reply ev op) = co_cm_id op"
    by (simp add: copy_reply_def split: option.split)
  moreover have "st = cs_connecting \<or> st = cs_closed" using stage by (auto simp: stage_matches_def)
  ultimately show ?thesis
    using True m k stage by (auto simp: do_process_connect_def connect_outcome_def)
qed

lemma connect_do_process_outcome:
  assumes "disc_law disc api" "cm_errno_law api" and "qp_cb_law disc create_qp"
    and "stage_matches op st" and "\<not> is_error (co_ec op)" and "co_cm_id op \<noteq> nullptr"
  shows "connect_outcome disc ev op st c (connect_do_process api create_qp ev op st c)"
proof (cases "co_stage op")
  case st_addr_resolve
  then show ?thesis
    using do_process_addr_resolve_outcome [OF assms(1,2,3) _ assms(4,5)]
    by (simp add: connect_do_process_def)
next
  case st_addr_route
  then show ?thesis
    using do_process_addr_route_outcome [OF assms(1,2) _ assms(4)] by (simp add: connect_do_process_def)
next
  case st_connect
  then show ?thesis
    using do_process_connect_outcome [OF assms(1,6) _ assms(4)] by (simp add: connect_do_process_def)
qed (use assms(4) in \<open>auto simp: stage_matches_def\<close>)

end
