(* ===== verification/IBV_Connector.thy ===== *)
theory IBV_Connector
  imports IBV_CM
begin

text \<open>
  The connector service: \<open>ibv/detail/ibv_service_connector.hpp\<close>, the cancellation functor of
  \<open>ibv/detail/ibv_op_cm.hpp\<close> and the connector's completion handlers.

  The state is one connector with the operations asio holds for its event channel: \<open>kw_armed\<close> in the
  reactor's queue for the descriptor, \<open>kw_posted\<close> queued for completion. The three reactor calls the
  service makes (\<open>start_op\<close>, \<open>post_immediate_completion\<close>, \<open>cancel_ops\<close>) have their documented effect
  on these two queues. Registering a descriptor is the argument \<open>reg\<close>, which returns an error number.
\<close>

subsection \<open>State\<close>

record connector_impl =
  ci_channel :: ptr
  ci_cm_id :: ptr
  ci_registered :: bool
  ci_state :: connect_state
  ci_peer_closed :: bool

datatype cm_op = Op_connect connect_op | Op_accept accept_op | Op_wait wait_op

fun cm_op_ec :: "cm_op \<Rightarrow> error_code" where
  "cm_op_ec (Op_connect op) = co_ec op"
| "cm_op_ec (Op_accept op) = ao_ec op"
| "cm_op_ec (Op_wait op) = wo_ec op"

fun set_ec :: "error_code \<Rightarrow> cm_op \<Rightarrow> cm_op" where
  "set_ec ec (Op_connect op) = Op_connect (op\<lparr>co_ec := ec\<rparr>)"
| "set_ec ec (Op_accept op) = Op_accept (op\<lparr>ao_ec := ec\<rparr>)"
| "set_ec ec (Op_wait op) = Op_wait (op\<lparr>wo_ec := ec\<rparr>)"

record 'c conn_world =
  kw_cm :: 'c
  kw_impl :: connector_impl
  kw_armed :: "cm_op list"
  kw_posted :: "cm_op list"
  kw_upcalls :: "cm_upcall list"
  kw_fault :: bool

definition reactor_start_op :: "cm_op \<Rightarrow> 'c conn_world \<Rightarrow> 'c conn_world" where
  "reactor_start_op op w = w\<lparr>kw_armed := kw_armed w @ [op]\<rparr>"

definition reactor_post :: "error_code \<Rightarrow> cm_op \<Rightarrow> 'c conn_world \<Rightarrow> 'c conn_world" where
  "reactor_post ec op w = w\<lparr>kw_posted := kw_posted w @ [set_ec ec op]\<rparr>"

definition reactor_cancel_ops :: "'c conn_world \<Rightarrow> 'c conn_world" where
  "reactor_cancel_ops w =
     w\<lparr>kw_posted := kw_posted w @ map (set_ec operation_aborted) (kw_armed w), kw_armed := []\<rparr>"

abbreviation set_state :: "connect_state \<Rightarrow> 'c conn_world \<Rightarrow> 'c conn_world" where
  "set_state st w \<equiv> w\<lparr>kw_impl := (kw_impl w)\<lparr>ci_state := st\<rparr>\<rparr>"

subsection \<open>Construction, opening and adopting\<close>

definition connector_construct :: connector_impl where
  "connector_construct =
     \<lparr>ci_channel = nullptr, ci_cm_id = nullptr, ci_registered = False, ci_state = cs_idle,
      ci_peer_closed = False\<rparr>"

definition conn_is_open :: "connector_impl \<Rightarrow> bool" where
  "conn_is_open impl \<longleftrightarrow> ci_cm_id impl \<noteq> nullptr"

text \<open>
  \<open>open\<close>: local owners release the channel and the id on the early returns, the id first. A null
  channel after a clear code is a null dereference.
\<close>

definition conn_open ::
  "'c cm_api \<Rightarrow> (ptr \<Rightarrow> int) \<Rightarrow> device_service \<Rightarrow> 'c conn_world \<Rightarrow> error_code \<times> 'c conn_world" where
  "conn_open api reg ds w =
     (if conn_is_open (kw_impl w) then (already_open, w)
      else if \<not> ds_registered ds then (make_error_code device_not_registered, w)
      else case create_event_channel api (kw_cm w) of (channel, ec, c1) \<Rightarrow>
        if is_error ec then (ec, w\<lparr>kw_cm := c1\<rparr>)
        else case create_cm_id api channel c1 of (rc, cm_id, ec, c2) \<Rightarrow>
          if rc \<noteq> 0 then (ec, w\<lparr>kw_cm := (if channel = nullptr then c2
                                          else cma_destroy_channel api c2 channel)\<rparr>)
          else if channel = nullptr then (ec, w\<lparr>kw_cm := c2, kw_fault := True\<rparr>)
          else if reg channel \<noteq> 0
          then (make_system_error_code (reg channel),
                w\<lparr>kw_cm := cma_destroy_channel api (cma_destroy_id api c2 cm_id) channel\<rparr>)
          else (no_error,
                w\<lparr>kw_cm := c2,
                   kw_impl := \<lparr>ci_channel = channel, ci_cm_id = cm_id, ci_registered = True,
                     ci_state = cs_idle, ci_peer_closed = False\<rparr>\<rparr>))"

text \<open>\<open>assign\<close> adopts the channel and id of a handle; the handle is emptied on success only.\<close>

definition conn_assign ::
  "(ptr \<Rightarrow> int) \<Rightarrow> ptr \<times> ptr \<Rightarrow> connector_impl \<Rightarrow> error_code \<times> (ptr \<times> ptr) \<times> connector_impl" where
  "conn_assign reg handle impl =
     (case handle of (channel, cm_id) \<Rightarrow>
        if conn_is_open impl then (already_open, handle, impl)
        else if channel = nullptr \<or> cm_id = nullptr
        then (make_error_code invalid_handle, handle, impl)
        else if reg channel \<noteq> 0 then (make_system_error_code (reg channel), handle, impl)
        else (no_error, (nullptr, nullptr),
              \<lparr>ci_channel = channel, ci_cm_id = cm_id, ci_registered = True, ci_state = cs_idle,
               ci_peer_closed = False\<rparr>))"

subsection \<open>Configuration helpers\<close>

definition effective_config :: "device_service \<Rightarrow> rdma_config_t" where
  "effective_config ds = (if ds_registered ds then ds_effective_config ds else default_config)"

definition cm_timeout :: "device_service \<Rightarrow> i32" where
  "cm_timeout ds =
     (let t = cm_resolve_timeout_ms (effective_config ds)
      in if t \<noteq> 0 then t else default_cm_resolve_timeout_ms)"

definition to_u8 :: "u32 \<Rightarrow> u8" where
  "to_u8 v = (if v > 255 then 255 else ucast v)"

subsection \<open>Connecting\<close>

definition start_connect_op ::
  "'c cm_api \<Rightarrow> device_service \<Rightarrow> endpoint \<Rightarrow> connect_op \<Rightarrow> 'c conn_world \<Rightarrow> 'c conn_world" where
  "start_connect_op api ds ep op w =
     (case resolve_addr api (ci_cm_id (kw_impl w)) ep (cm_timeout ds) (kw_cm w) of
        (rc, ec, c1) \<Rightarrow>
          let w1 = w\<lparr>kw_cm := c1\<rparr> in
          if rc = 0
          then if ci_state (kw_impl w1) \<noteq> cs_idle
               then reactor_post operation_aborted (Op_connect op) w1
               else reactor_start_op (Op_connect (op\<lparr>co_ec := no_error\<rparr>)) (set_state cs_addr_resolve w1)
          else reactor_post ec (Op_connect op) (set_state cs_closed w1))"

definition async_connect ::
  "'c cm_api \<Rightarrow> (ptr \<Rightarrow> int) \<Rightarrow> device_service \<Rightarrow> endpoint \<Rightarrow> u8 list \<Rightarrow> bool \<Rightarrow> nat \<Rightarrow> bool \<Rightarrow> nat
   \<Rightarrow> 'c conn_world \<Rightarrow> 'c conn_world" where
  "async_connect api reg ds ep request reply_buf reply_cap qp h w =
     (case (if conn_is_open (kw_impl w) then (no_error, w) else conn_open api reg ds w) of
        (open_ec, w1) \<Rightarrow>
          let eff = effective_config ds;
              impl = kw_impl w1;
              op = connect_op_new no_error (ci_cm_id impl) (ci_channel impl) (cm_timeout ds) request
                reply_buf reply_cap (to_u8 (inbound_read_limit eff)) (to_u8 (outbound_read_limit eff))
                (rnr_retry eff) (min_rnr_timer eff) qp h
          in if is_error open_ec then reactor_post open_ec (Op_connect op) w1
             else if length request > max_outgoing_private_data
             then reactor_post (make_error_code private_data_too_large) (Op_connect op) w1
             else if ci_state impl \<noteq> cs_idle
             then reactor_post (make_error_code connector_terminal) (Op_connect op) w1
             else start_connect_op api ds ep op w1)"

subsection \<open>Accepting\<close>

definition accept_param :: "device_service \<Rightarrow> u8 list \<Rightarrow> conn_param" where
  "accept_param ds private_data =
     (let eff = effective_config ds in
      \<lparr>cp_private_data = (if private_data = [] then None else Some private_data),
       cp_private_data_len = of_nat (length private_data),
       cp_responder_resources = to_u8 (inbound_read_limit eff),
       cp_initiator_depth = to_u8 (outbound_read_limit eff), cp_retry_count = 0,
       cp_rnr_retry_count = rnr_retry eff\<rparr>)"

definition start_accept_op ::
  "'c cm_api \<Rightarrow> 'c create_qp_cb \<Rightarrow> bool \<Rightarrow> device_service \<Rightarrow> u8 list \<Rightarrow> accept_op \<Rightarrow> 'c conn_world
   \<Rightarrow> 'c conn_world" where
  "start_accept_op api create_qp has_qp ds private_data op w =
     (if ci_state (kw_impl w) \<noteq> cs_idle then reactor_post operation_aborted (Op_accept op) w
      else
        let w1 = set_state cs_connecting w;
            cm_id = ci_cm_id (kw_impl w)
        in case (if has_qp then create_qp cm_id (kw_cm w1) else (no_error, kw_cm w1)) of
          (ec, c1) \<Rightarrow>
            let w2 = w1\<lparr>kw_cm := c1\<rparr> in
            if has_qp \<and> is_error ec then reactor_post ec (Op_accept op) (set_state cs_closed w2)
            else case cm_accept api cm_id (accept_param ds private_data) c1 of
              (rc, ec, c2) \<Rightarrow>
                let w3 = w2\<lparr>kw_cm := c2\<rparr> in
                if rc = 0 then reactor_start_op (Op_accept (op\<lparr>ao_ec := no_error\<rparr>)) w3
                else reactor_post ec (Op_accept op) (set_state cs_closed w3))"

text \<open>The guards \<open>async_accept\<close> and \<open>async_move_accept\<close> make in this order; \<open>None\<close> goes on.\<close>

definition accept_guard ::
  "device_service \<Rightarrow> connector_impl \<Rightarrow> u8 list \<Rightarrow> error_code option" where
  "accept_guard ds impl private_data =
     (if \<not> ds_registered ds then Some (make_error_code device_not_registered)
      else if \<not> conn_is_open impl then Some (make_error_code invalid_handle)
      else if length private_data > max_outgoing_private_data
      then Some (make_error_code private_data_too_large)
      else if ci_state impl \<noteq> cs_idle then Some (make_error_code connector_terminal)
      else None)"

definition async_accept ::
  "'c cm_api \<Rightarrow> 'c create_qp_cb \<Rightarrow> bool \<Rightarrow> device_service \<Rightarrow> u8 list \<Rightarrow> nat \<Rightarrow> 'c conn_world
   \<Rightarrow> 'c conn_world" where
  "async_accept api create_qp has_qp ds private_data h w =
     (let op = accept_op_new no_error (ci_cm_id (kw_impl w)) (ci_channel (kw_impl w))
            (min_rnr_timer (effective_config ds)) h
      in case accept_guard ds (kw_impl w) private_data of
        Some ec \<Rightarrow> reactor_post ec (Op_accept op) w
      | None \<Rightarrow> start_accept_op api create_qp has_qp ds private_data op w)"

definition async_move_accept ::
  "'c cm_api \<Rightarrow> 'c create_qp_cb \<Rightarrow> error_code \<Rightarrow> device_service \<Rightarrow> u8 list \<Rightarrow> nat \<Rightarrow> 'c conn_world
   \<Rightarrow> 'c conn_world" where
  "async_move_accept api create_qp bind_ec ds private_data h w =
     (let op = accept_op_new no_error (ci_cm_id (kw_impl w)) (ci_channel (kw_impl w))
            (min_rnr_timer (effective_config ds)) h
      in if is_error bind_ec then reactor_post bind_ec (Op_accept op) w
      else case accept_guard ds (kw_impl w) private_data of
        Some ec \<Rightarrow> reactor_post ec (Op_accept op) w
      | None \<Rightarrow> start_accept_op api create_qp True ds private_data op w)"

subsection \<open>Disconnecting\<close>

definition conn_disconnect :: "'c cm_api \<Rightarrow> 'c conn_world \<Rightarrow> error_code \<times> 'c conn_world" where
  "conn_disconnect api w =
     (if \<not> conn_is_open (kw_impl w) then (make_error_code invalid_handle, w)
      else
        let old = ci_state (kw_impl w); w1 = set_state cs_closed w in
        case old of
          cs_closed \<Rightarrow> (no_error, w)
        | cs_addr_resolve \<Rightarrow>
            (no_error, if ci_channel (kw_impl w) \<noteq> nullptr then reactor_cancel_ops w1 else w1)
        | cs_addr_route \<Rightarrow>
            (no_error, if ci_channel (kw_impl w) \<noteq> nullptr then reactor_cancel_ops w1 else w1)
        | cs_connecting \<Rightarrow>
            (no_error, if ci_channel (kw_impl w) \<noteq> nullptr then reactor_cancel_ops w1 else w1)
        | cs_connected \<Rightarrow>
            (let w2 = (if ci_channel (kw_impl w) \<noteq> nullptr then reactor_cancel_ops w1 else w1)
             in case cm_disconnect api (ci_cm_id (kw_impl w)) (kw_cm w2) of
               (rc, ec, c) \<Rightarrow> (ec, w2\<lparr>kw_cm := c\<rparr>))
        | cs_idle \<Rightarrow> (no_error, w1))"

definition async_wait_disconnect :: "nat \<Rightarrow> 'c conn_world \<Rightarrow> 'c conn_world" where
  "async_wait_disconnect h w =
     (let impl = kw_impl w; op = wait_op_new no_error (ci_channel impl) h in
      if ci_peer_closed impl \<or> ci_state impl = cs_closed
      then reactor_post (make_error_code disconnected) (Op_wait op) w
      else if \<not> conn_is_open impl then reactor_post (make_error_code invalid_handle) (Op_wait op) w
      else reactor_start_op (Op_wait op) w)"

subsection \<open>Performing, completing and cancelling operations\<close>

text \<open>The reactor performs the operation at the front of the queue; a finished one is posted.\<close>

definition perform_front ::
  "'c cm_api \<Rightarrow> 'c create_qp_cb \<Rightarrow> 'c conn_world \<Rightarrow> 'c conn_world" where
  "perform_front api create_qp w =
     (case kw_armed w of
        [] \<Rightarrow> w
      | Op_connect op # ops \<Rightarrow>
          (case connect_do_perform api create_qp op (ci_state (kw_impl w)) (kw_cm w) of
             (fin, op', st, c) \<Rightarrow>
               (set_state st w)\<lparr>kw_cm := c,
                 kw_armed := (if fin then ops else Op_connect op' # ops),
                 kw_posted := (if fin then kw_posted w @ [Op_connect op'] else kw_posted w)\<rparr>)
      | Op_accept op # ops \<Rightarrow>
          (case accept_do_perform api op (ci_state (kw_impl w)) (kw_cm w) of
             (fin, op', st, c) \<Rightarrow>
               (set_state st w)\<lparr>kw_cm := c,
                 kw_armed := (if fin then ops else Op_accept op' # ops),
                 kw_posted := (if fin then kw_posted w @ [Op_accept op'] else kw_posted w)\<rparr>)
      | Op_wait op # ops \<Rightarrow>
          (case wait_do_perform api op (ci_peer_closed (kw_impl w)) (kw_cm w) of
             (fin, op', peer, c) \<Rightarrow>
               w\<lparr>kw_impl := (kw_impl w)\<lparr>ci_peer_closed := peer\<rparr>, kw_cm := c,
                 kw_armed := (if fin then ops else Op_wait op' # ops),
                 kw_posted := (if fin then kw_posted w @ [Op_wait op'] else kw_posted w)\<rparr>))"

text \<open>The scheduler completes a posted operation.\<close>

fun cm_op_do_complete :: "bool \<Rightarrow> cm_op \<Rightarrow> connect_state \<Rightarrow> cm_upcall option \<times> connect_state" where
  "cm_op_do_complete owner (Op_connect op) st = connect_do_complete owner op st"
| "cm_op_do_complete owner (Op_accept op) st = accept_do_complete owner op st"
| "cm_op_do_complete owner (Op_wait op) st = (wait_do_complete owner op, st)"

definition complete_front :: "bool \<Rightarrow> 'c conn_world \<Rightarrow> 'c conn_world" where
  "complete_front owner w =
     (case kw_posted w of
        [] \<Rightarrow> w
      | op # ops \<Rightarrow>
          (case cm_op_do_complete owner op (ci_state (kw_impl w)) of
             (u, st) \<Rightarrow>
               (set_state st w)\<lparr>kw_posted := ops,
                 kw_upcalls := kw_upcalls w @ (case u of None \<Rightarrow> [] | Some x \<Rightarrow> [x])\<rparr>))"

text \<open>
  \<open>cm_op_cancellation\<close>: any of the three cancellation types cancels the operation whose key it was
  armed with; operations are identified by their handler here.
\<close>

abbreviation (input) cancel_terminal :: u32 where "cancel_terminal \<equiv> 1"
abbreviation (input) cancel_partial :: u32 where "cancel_partial \<equiv> 2"
abbreviation (input) cancel_total :: u32 where "cancel_total \<equiv> 4"

fun cm_op_handler :: "cm_op \<Rightarrow> nat" where
  "cm_op_handler (Op_connect op) = co_handler op"
| "cm_op_handler (Op_accept op) = ao_handler op"
| "cm_op_handler (Op_wait op) = wo_handler op"

definition cm_op_cancellation :: "u32 \<Rightarrow> nat \<Rightarrow> 'c conn_world \<Rightarrow> 'c conn_world" where
  "cm_op_cancellation type key w =
     (if (type AND (cancel_terminal OR cancel_partial OR cancel_total)) \<noteq> 0
      then w\<lparr>kw_posted := kw_posted w @
               map (set_ec operation_aborted) (filter (\<lambda>op. cm_op_handler op = key) (kw_armed w)),
             kw_armed := filter (\<lambda>op. cm_op_handler op \<noteq> key) (kw_armed w)\<rparr>
      else w)"

subsection \<open>Destruction and moves\<close>

text \<open>
  Deregistering the descriptor hands the armed operations to the scheduler as aborted. The queue pair
  goes before the id, the id before the channel. \<open>None\<close>: the drain did not end.
\<close>

definition close_for_destruction :: "'c cm_api \<Rightarrow> 'c conn_world \<Rightarrow> 'c conn_world option" where
  "close_for_destruction api w =
     (let impl = kw_impl w;
          w1 = (if ci_channel impl \<noteq> nullptr then reactor_cancel_ops w else w)
      in case (if ci_channel impl \<noteq> nullptr
               then drain_cm_events api (ci_channel impl) (ci_cm_id impl) (kw_cm w1)
               else Some (kw_cm w1)) of
        None \<Rightarrow> None
      | Some c \<Rightarrow>
          let c1 = (if ci_cm_id impl \<noteq> nullptr \<and> cma_id_qp api c (ci_cm_id impl) \<noteq> nullptr
                    then cma_destroy_qp api c (ci_cm_id impl) else c);
              c2 = (if ci_cm_id impl \<noteq> nullptr then cma_destroy_id api c1 (ci_cm_id impl) else c1);
              c3 = (if ci_channel impl \<noteq> nullptr then cma_destroy_channel api c2 (ci_channel impl) else c2)
          in Some (w1\<lparr>kw_cm := c3,
                kw_impl := impl\<lparr>ci_channel := nullptr, ci_cm_id := nullptr, ci_registered := False\<rparr>\<rparr>))"

text \<open>The target and the source after a move construction; \<open>move_assign\<close> closes the target first.\<close>

definition conn_move_construct :: "connector_impl \<Rightarrow> connector_impl \<times> connector_impl" where
  "conn_move_construct other =
     (\<lparr>ci_channel = ci_channel other, ci_cm_id = ci_cm_id other,
       ci_registered = (ci_channel other \<noteq> nullptr \<and> ci_registered other),
       ci_state = ci_state other, ci_peer_closed = ci_peer_closed other\<rparr>,
      other\<lparr>ci_channel := nullptr, ci_cm_id := nullptr,
        ci_registered := (if ci_channel other \<noteq> nullptr then False else ci_registered other)\<rparr>)"

definition conn_move_assign ::
  "'c cm_api \<Rightarrow> connector_impl \<Rightarrow> 'c conn_world \<Rightarrow> ('c conn_world \<times> connector_impl) option" where
  "conn_move_assign api other w =
     (case close_for_destruction api w of
        None \<Rightarrow> None
      | Some w1 \<Rightarrow>
          (case conn_move_construct other of
             (impl, other') \<Rightarrow> Some (w1\<lparr>kw_impl := impl\<rparr>, other')))"

end
