(* ===== verification/IBV_Arbitration.thy ===== *)
theory IBV_Arbitration
  imports IBV_Connector
begin

text \<open>
  The teardown arbitration between a connect or accept operation on the reactor's thread and any
  number of threads in \<open>disconnect()\<close>, at the granularity of single atomic accesses of
  \<open>connect_state_\<close> (\<open>impl/ibv_op_connect.ipp\<close>, \<open>ibv_op_accept.hpp\<close> and \<open>disconnect\<close> of
  \<open>ibv_service_connector.hpp\<close>).

  \<open>op_step\<close> are the steps of the operation: one per compare-exchange, load, store or rdma_cm call
  that matters. \<open>disc_step\<close> are the steps of a thread in \<open>disconnect()\<close>; a weak compare-exchange may
  fail spuriously. \<open>env_step\<close> is rdma_cm bringing the connection up (once), the per-operation
  cancellation, and the destruction that drains the channel when nothing runs any more.

  The invariant is a conservation law: a connection that came up is one token, held by exactly one of
  the event queue, the operation, the state \<open>connected\<close>, a thread about to disconnect, or the
  \<open>rdma_disconnect\<close> calls made. The last section connects the steps with the definitions of
  \<open>IBV_CM\<close> and \<open>IBV_Connector\<close>, which run a whole function at once.
\<close>

subsection \<open>States\<close>

datatype op_stage = A_resolve | A_route | A_connect

fun stage_state :: "op_stage \<Rightarrow> connect_state" where
  "stage_state A_resolve = cs_addr_resolve"
| "stage_state A_route = cs_addr_route"
| "stage_state A_connect = cs_connecting"

fun next_stage :: "op_stage \<Rightarrow> op_stage" where
  "next_stage A_resolve = A_route"
| "next_stage A_route = A_connect"
| "next_stage A_connect = A_connect"

text \<open>
  Where the operation is: before its first compare-exchange; past it but not yet in the reactor's
  queue; in the queue; performing (about to advance, to claim \<open>closed\<close>, with a loaded value in
  \<open>claim_closed\<close>, to arbitrate, to tear down); posted; completed.
\<close>

datatype op_pc =
    P_start op_stage
  | P_issuing op_stage
  | P_armed op_stage
  | P_adv op_stage
  | P_claim
  | P_claim_cas connect_state
  | P_est
  | P_teardown
  | P_posted
  | P_done

datatype d_pc = D_load | D_cas connect_state | D_cancel connect_state | D_disc | D_ret

record arb =
  a_st :: connect_state
  a_pc :: op_pc
  a_aborted :: bool
  a_est :: bool
  a_pending :: bool
  a_disc :: nat
  a_thr :: "d_pc multiset"

fun performing :: "op_pc \<Rightarrow> bool" where
  "performing (P_adv _) = True"
| "performing P_claim = True"
| "performing (P_claim_cas _) = True"
| "performing P_est = True"
| "performing P_teardown = True"
| "performing _ = False"

subsection \<open>Steps\<close>

inductive op_step :: "arb \<Rightarrow> arb \<Rightarrow> bool" where
  publish: "a_pc a = P_start s \<Longrightarrow> a_st a = cs_idle \<Longrightarrow>
    op_step a (a\<lparr>a_st := stage_state s, a_pc := P_issuing s\<rparr>)"
| resolve_failed: "a_pc a = P_start A_resolve \<Longrightarrow>
    op_step a (a\<lparr>a_st := cs_closed, a_pc := P_posted\<rparr>)"
| accept_failed: "a_pc a = P_issuing A_connect \<Longrightarrow>
    op_step a (a\<lparr>a_st := cs_closed, a_pc := P_posted\<rparr>)"
| arm: "a_pc a = P_issuing s \<Longrightarrow> op_step a (a\<lparr>a_pc := P_armed s\<rparr>)"
| publish_lost: "a_pc a = P_start s \<Longrightarrow> a_st a \<noteq> cs_idle \<Longrightarrow>
    op_step a (a\<lparr>a_aborted := True, a_pc := P_posted\<rparr>)"
| fetch_progress: "a_pc a = P_armed s \<Longrightarrow> s \<noteq> A_connect \<Longrightarrow> op_step a (a\<lparr>a_pc := P_adv s\<rparr>)"
| fetch_failure: "a_pc a = P_armed s \<Longrightarrow> op_step a (a\<lparr>a_pc := P_claim\<rparr>)"
| fetch_established: "a_pc a = P_armed A_connect \<Longrightarrow> a_pending a \<Longrightarrow>
    op_step a (a\<lparr>a_pending := False, a_pc := P_est\<rparr>)"
| fetch_error: "a_pc a = P_armed s \<Longrightarrow> op_step a (a\<lparr>a_pc := P_posted\<rparr>)"
| advance_ok: "a_pc a = P_adv s \<Longrightarrow> a_st a = stage_state s \<Longrightarrow>
    op_step a (a\<lparr>a_st := stage_state (next_stage s), a_pc := P_armed (next_stage s)\<rparr>)"
| advance_call_failed: "a_pc a = P_adv s \<Longrightarrow> a_st a = stage_state s \<Longrightarrow>
    op_step a (a\<lparr>a_st := stage_state (next_stage s), a_pc := P_claim\<rparr>)"
| advance_lost: "a_pc a = P_adv s \<Longrightarrow> a_st a \<noteq> stage_state s \<Longrightarrow>
    op_step a (a\<lparr>a_aborted := True, a_pc := P_posted\<rparr>)"
| claim_load: "a_pc a = P_claim \<Longrightarrow> op_step a (a\<lparr>a_pc := P_claim_cas (a_st a)\<rparr>)"
| claim_lost: "a_pc a = P_claim_cas cs_closed \<Longrightarrow>
    op_step a (a\<lparr>a_aborted := True, a_pc := P_posted\<rparr>)"
| claim_won: "a_pc a = P_claim_cas e \<Longrightarrow> e \<noteq> cs_closed \<Longrightarrow> a_st a = e \<Longrightarrow>
    op_step a (a\<lparr>a_st := cs_closed, a_pc := P_posted\<rparr>)"
| claim_retry: "a_pc a = P_claim_cas e \<Longrightarrow> e \<noteq> cs_closed \<Longrightarrow>
    op_step a (a\<lparr>a_pc := P_claim_cas (a_st a)\<rparr>)"
| established_won: "a_pc a = P_est \<Longrightarrow> a_st a = cs_connecting \<Longrightarrow>
    op_step a (a\<lparr>a_st := cs_connected, a_pc := P_posted\<rparr>)"
| established_lost: "a_pc a = P_est \<Longrightarrow> a_st a \<noteq> cs_connecting \<Longrightarrow>
    op_step a (a\<lparr>a_pc := P_teardown\<rparr>)"
| teardown: "a_pc a = P_teardown \<Longrightarrow>
    op_step a (a\<lparr>a_disc := Suc (a_disc a), a_aborted := True, a_pc := P_posted\<rparr>)"
| complete: "a_pc a = P_posted \<Longrightarrow>
    op_step a (a\<lparr>a_st := (if a_aborted a then cs_closed else a_st a), a_pc := P_done\<rparr>)"

text \<open>
  \<open>cancel_ops\<close> takes the descriptor's lock, which the reactor holds while it performs; it aborts an
  operation that is in the queue. \<open>moved from to\<close> moves one thread on.
\<close>

definition moved :: "d_pc \<Rightarrow> d_pc \<Rightarrow> arb \<Rightarrow> arb" where
  "moved from to a = a\<lparr>a_thr := add_mset to (a_thr a - {#from#})\<rparr>"

definition cancel_armed :: "arb \<Rightarrow> arb" where
  "cancel_armed a =
     (case a_pc a of P_armed _ \<Rightarrow> a\<lparr>a_aborted := True, a_pc := P_posted\<rparr> | _ \<Rightarrow> a)"

inductive disc_step :: "arb \<Rightarrow> arb \<Rightarrow> bool" where
  d_call: "disc_step a (a\<lparr>a_thr := add_mset D_load (a_thr a)\<rparr>)"
| d_load: "D_load \<in># a_thr a \<Longrightarrow> disc_step a (moved D_load (D_cas (a_st a)) a)"
| d_already: "D_cas cs_closed \<in># a_thr a \<Longrightarrow> disc_step a (moved (D_cas cs_closed) D_ret a)"
| d_won: "D_cas e \<in># a_thr a \<Longrightarrow> e \<noteq> cs_closed \<Longrightarrow> a_st a = e \<Longrightarrow>
    disc_step a (moved (D_cas e) (D_cancel e) (a\<lparr>a_st := cs_closed\<rparr>))"
| d_retry: "D_cas e \<in># a_thr a \<Longrightarrow> e \<noteq> cs_closed \<Longrightarrow>
    disc_step a (moved (D_cas e) (D_cas (a_st a)) a)"
| d_idle: "D_cancel cs_idle \<in># a_thr a \<Longrightarrow> disc_step a (moved (D_cancel cs_idle) D_ret a)"
| d_cancel_inflight: "D_cancel e \<in># a_thr a \<Longrightarrow>
    e = cs_addr_resolve \<or> e = cs_addr_route \<or> e = cs_connecting \<Longrightarrow> \<not> performing (a_pc a) \<Longrightarrow>
    disc_step a (moved (D_cancel e) D_ret (cancel_armed a))"
| d_cancel_connected: "D_cancel cs_connected \<in># a_thr a \<Longrightarrow> \<not> performing (a_pc a) \<Longrightarrow>
    disc_step a (moved (D_cancel cs_connected) D_disc (cancel_armed a))"
| d_disconnect: "D_disc \<in># a_thr a \<Longrightarrow>
    disc_step a (moved D_disc D_ret (a\<lparr>a_disc := Suc (a_disc a)\<rparr>))"

text \<open>The connection comes up only after \<open>rdma_connect\<close> or \<open>rdma_accept\<close> was issued.\<close>

definition issued :: "arb \<Rightarrow> bool" where
  "issued a \<longleftrightarrow> (\<nexists>s. a_pc a = P_start s) \<and> a_pc a \<notin> {P_issuing A_resolve, P_issuing A_route, P_armed A_resolve,
     P_armed A_route, P_adv A_resolve, P_adv A_route}"

inductive env_step :: "arb \<Rightarrow> arb \<Rightarrow> bool" where
  come_up: "issued a \<Longrightarrow> \<not> a_est a \<Longrightarrow> env_step a (a\<lparr>a_est := True, a_pending := True\<rparr>)"
| op_cancelled: "a_pc a = P_armed s \<Longrightarrow> env_step a (a\<lparr>a_aborted := True, a_pc := P_posted\<rparr>)"
| drain: "a_pc a = P_done \<Longrightarrow> a_pending a \<Longrightarrow> (\<forall>d\<in>#a_thr a. d = D_ret) \<Longrightarrow>
    env_step a (a\<lparr>a_pending := False, a_disc := Suc (a_disc a)\<rparr>)"

definition arb_step :: "arb \<Rightarrow> arb \<Rightarrow> bool" where
  "arb_step a a' \<longleftrightarrow> op_step a a' \<or> disc_step a a' \<or> env_step a a'"

text \<open>A fresh connector about to publish a connect (\<open>A_resolve\<close>) or an accept (\<open>A_connect\<close>).\<close>

definition arb_init :: "op_stage \<Rightarrow> arb" where
  "arb_init s = \<lparr>a_st = cs_idle, a_pc = P_start s, a_aborted = False, a_est = False,
     a_pending = False, a_disc = 0, a_thr = {#}\<rparr>"

subsection \<open>The invariant\<close>

text \<open>Threads that will call \<open>rdma_disconnect\<close>.\<close>

definition tearing :: "d_pc \<Rightarrow> bool" where
  "tearing d \<longleftrightarrow> d = D_cancel cs_connected \<or> d = D_disc"

definition tokens :: "arb \<Rightarrow> nat" where
  "tokens a =
     (if a_pending a then 1 else 0) + (if a_pc a = P_est then 1 else 0) +
     (if a_pc a = P_teardown then 1 else 0) + (if a_st a = cs_connected then 1 else 0) +
     size (filter_mset tearing (a_thr a)) + a_disc a"

fun pc_state_ok :: "op_pc \<Rightarrow> connect_state \<Rightarrow> bool" where
  "pc_state_ok (P_start s) st \<longleftrightarrow> st = cs_idle \<or> st = cs_closed"
| "pc_state_ok (P_issuing s) st \<longleftrightarrow> st = stage_state s \<or> st = cs_closed"
| "pc_state_ok (P_armed s) st \<longleftrightarrow> st = stage_state s \<or> st = cs_closed"
| "pc_state_ok (P_adv s) st \<longleftrightarrow> s \<noteq> A_connect \<and> (st = stage_state s \<or> st = cs_closed)"
| "pc_state_ok P_claim st \<longleftrightarrow> st \<noteq> cs_connected \<and> st \<noteq> cs_idle"
| "pc_state_ok (P_claim_cas e) st \<longleftrightarrow> st \<noteq> cs_connected \<and> st \<noteq> cs_idle \<and> e \<noteq> cs_connected"
| "pc_state_ok P_est st \<longleftrightarrow> st = cs_connecting \<or> st = cs_closed"
| "pc_state_ok P_teardown st \<longleftrightarrow> st = cs_closed"
| "pc_state_ok P_posted st \<longleftrightarrow> st \<noteq> cs_idle"
| "pc_state_ok P_done st \<longleftrightarrow> st \<noteq> cs_idle"

definition arb_inv :: "arb \<Rightarrow> bool" where
  "arb_inv a \<longleftrightarrow>
     tokens a = (if a_est a then 1 else 0) \<and> pc_state_ok (a_pc a) (a_st a) \<and>
     (a_aborted a \<longrightarrow> a_st a \<noteq> cs_connected \<and> (a_pc a = P_posted \<or> a_pc a = P_done)) \<and>
     (\<forall>s. a_pc a = P_start s \<longrightarrow> \<not> a_est a)"

lemma arb_inv_init: "arb_inv (arb_init s)"
  by (simp add: arb_inv_def arb_init_def tokens_def)

lemma stage_state_simps [simp]:
  "stage_state s \<noteq> cs_connected" "stage_state s \<noteq> cs_idle" "stage_state s \<noteq> cs_closed"
  "cs_connected \<noteq> stage_state s" "cs_idle \<noteq> stage_state s" "cs_closed \<noteq> stage_state s"
  by (cases s; simp)+

lemma op_step_inv: "op_step a a' \<Longrightarrow> arb_inv a \<Longrightarrow> arb_inv a'"
proof (induction rule: op_step.induct)
  case (advance_ok a s)
  then show ?case by (cases s) (simp_all add: arb_inv_def tokens_def)
next
  case (advance_call_failed a s)
  then show ?case by (cases s) (simp_all add: arb_inv_def tokens_def)
qed (auto simp: arb_inv_def tokens_def split: if_splits)

lemma moved_thr [simp]:
  "a_thr (moved x y a) = add_mset y (a_thr a - {#x#})" "a_st (moved x y a) = a_st a"
  "a_pc (moved x y a) = a_pc a" "a_aborted (moved x y a) = a_aborted a" "a_est (moved x y a) = a_est a"
  "a_pending (moved x y a) = a_pending a" "a_disc (moved x y a) = a_disc a"
  by (simp_all add: moved_def)

lemma moved_tearing:
  assumes "x \<in># a_thr a"
  shows "size (filter_mset tearing (add_mset y (a_thr a - {#x#}))) + (if tearing x then 1 else 0) =
    size (filter_mset tearing (a_thr a)) + (if tearing y then 1 else 0)"
proof -
  obtain T where "a_thr a = add_mset x T" using assms by (metis insert_DiffM)
  then show ?thesis by simp
qed

lemma cancel_armed_frame [simp]:
  "a_st (cancel_armed a) = a_st a" "a_est (cancel_armed a) = a_est a"
  "a_pending (cancel_armed a) = a_pending a" "a_disc (cancel_armed a) = a_disc a"
  "a_thr (cancel_armed a) = a_thr a"
  by (simp_all add: cancel_armed_def split: op_pc.splits)

lemma cancel_armed_inv: "arb_inv a \<Longrightarrow> arb_inv (cancel_armed a)"
  by (cases "a_pc a") (auto simp: cancel_armed_def arb_inv_def tokens_def split: if_splits)

text \<open>Moving a thread that does not hold the token changes nothing.\<close>

lemma moved_inv:
  assumes "arb_inv a" and "x \<in># a_thr a" and "\<not> tearing x" and "\<not> tearing y"
  shows "arb_inv (moved x y a)"
  using assms moved_tearing [OF assms(2), of y] by (simp add: arb_inv_def tokens_def)

lemma closed_inv:
  assumes "arb_inv a" and "a_st a \<noteq> cs_connected"
  shows "arb_inv (a\<lparr>a_st := cs_closed\<rparr>)"
  using assms by (cases "a_pc a") (auto simp: arb_inv_def tokens_def split: if_splits)

lemma closed_connected_inv:
  assumes "arb_inv a" and "a_st a = cs_connected" and "D_cas cs_connected \<in># a_thr a"
  shows "arb_inv (moved (D_cas cs_connected) (D_cancel cs_connected) (a\<lparr>a_st := cs_closed\<rparr>))"
proof -
  have "size (filter_mset tearing (add_mset (D_cancel cs_connected) (a_thr a - {#D_cas cs_connected#})))
      = Suc (size (filter_mset tearing (a_thr a)))"
    using moved_tearing [OF assms(3), of "D_cancel cs_connected"] by (simp add: tearing_def)
  with assms(1,2) show ?thesis by (cases "a_pc a") (auto simp: arb_inv_def tokens_def split: if_splits)
qed

lemma disc_step_inv: "disc_step a a' \<Longrightarrow> arb_inv a \<Longrightarrow> arb_inv a'"
proof (induction rule: disc_step.induct)
  case (d_call a)
  then show ?case by (simp add: arb_inv_def tokens_def tearing_def)
next
  case (d_won e a)
  show ?case
  proof (cases "e = cs_connected")
    case True
    with d_won closed_connected_inv [of a] show ?thesis by simp
  next
    case False
    with d_won have "arb_inv (a\<lparr>a_st := cs_closed\<rparr>)" by (intro closed_inv) auto
    then show ?thesis using d_won False by (intro moved_inv) (simp_all add: tearing_def)
  qed
next
  case (d_cancel_inflight e a)
  then have "arb_inv (cancel_armed a)" by (intro cancel_armed_inv)
  then show ?case using d_cancel_inflight by (intro moved_inv) (auto simp: tearing_def)
next
  case (d_cancel_connected a)
  then have "arb_inv (cancel_armed a)" by (intro cancel_armed_inv)
  then show ?case
    using d_cancel_connected moved_tearing [of "D_cancel cs_connected" "cancel_armed a" D_disc]
    by (simp add: arb_inv_def tokens_def tearing_def)
next
  case (d_disconnect a)
  then show ?case
    using moved_tearing [of D_disc a D_ret] by (simp add: arb_inv_def tokens_def tearing_def)
qed (simp_all add: moved_inv tearing_def)

lemma env_step_inv: "env_step a a' \<Longrightarrow> arb_inv a \<Longrightarrow> arb_inv a'"
  by (induction rule: env_step.induct) (auto simp: arb_inv_def tokens_def issued_def split: if_splits)

lemma arb_inv_reachable:
  assumes "arb_step\<^sup>*\<^sup>* (arb_init s) a"
  shows "arb_inv a"
  using assms
  by (induction rule: rtranclp_induct)
    (auto simp: arb_inv_init arb_step_def intro: op_step_inv disc_step_inv env_step_inv)


subsection \<open>One teardown\<close>

text \<open>
  A race that ends in a teardown: an accept is published, the connection comes up while a thread is
  between the load and the compare-exchange of \<open>disconnect()\<close>, the operation fetches the event, the
  thread wins, the operation tears the connection down.
\<close>

definition race_state :: "op_pc \<Rightarrow> connect_state \<Rightarrow> bool \<Rightarrow> bool \<Rightarrow> bool \<Rightarrow> nat \<Rightarrow> d_pc multiset \<Rightarrow> arb" where
  "race_state pc st aborted est pending disc thr =
     \<lparr>a_st = st, a_pc = pc, a_aborted = aborted, a_est = est, a_pending = pending, a_disc = disc,
      a_thr = thr\<rparr>"

lemma race_step:
  "arb_step\<^sup>*\<^sup>* x a \<Longrightarrow> op_step a b \<Longrightarrow> arb_step\<^sup>*\<^sup>* x b"
  "arb_step\<^sup>*\<^sup>* x a \<Longrightarrow> disc_step a b \<Longrightarrow> arb_step\<^sup>*\<^sup>* x b"
  "arb_step\<^sup>*\<^sup>* x a \<Longrightarrow> env_step a b \<Longrightarrow> arb_step\<^sup>*\<^sup>* x b"
  by (auto simp: arb_step_def intro: rtranclp.rtrancl_into_rtrancl)

lemma race_reachable:
  "arb_step\<^sup>*\<^sup>* (arb_init A_connect) (race_state P_done cs_closed True True False 1 {#D_ret#})"
proof -
  let ?r = race_state
  note expand = race_state_def moved_def arb_init_def cancel_armed_def
  have "op_step (arb_init A_connect) (?r (P_issuing A_connect) cs_connecting False False False 0 {#})"
    using publish [of "arb_init A_connect" A_connect] by (simp add: expand)
  note p0 = race_step(1) [OF rtranclp.rtrancl_refl this]
  have "op_step (?r (P_issuing A_connect) cs_connecting False False False 0 {#})
     (?r (P_armed A_connect) cs_connecting False False False 0 {#})"
    using arm [of "?r (P_issuing A_connect) cs_connecting False False False 0 {#}" A_connect]
    by (simp add: expand)
  note p1 = race_step(1) [OF p0 this]
  have "env_step (?r (P_armed A_connect) cs_connecting False False False 0 {#})
     (?r (P_armed A_connect) cs_connecting False True True 0 {#})"
    using come_up [of "?r (P_armed A_connect) cs_connecting False False False 0 {#}"]
    by (simp add: expand issued_def)
  note p2 = race_step(3) [OF p1 this]
  have "disc_step (?r (P_armed A_connect) cs_connecting False True True 0 {#})
     (?r (P_armed A_connect) cs_connecting False True True 0 {#D_load#})"
    using d_call [of "?r (P_armed A_connect) cs_connecting False True True 0 {#}"] by (simp add: expand)
  note p3 = race_step(2) [OF p2 this]
  have "disc_step (?r (P_armed A_connect) cs_connecting False True True 0 {#D_load#})
     (?r (P_armed A_connect) cs_connecting False True True 0 {#D_cas cs_connecting#})"
    using d_load [of "?r (P_armed A_connect) cs_connecting False True True 0 {#D_load#}"]
    by (simp add: expand)
  note p4 = race_step(2) [OF p3 this]
  have "op_step (?r (P_armed A_connect) cs_connecting False True True 0 {#D_cas cs_connecting#})
     (?r P_est cs_connecting False True False 0 {#D_cas cs_connecting#})"
    using fetch_established [of "?r (P_armed A_connect) cs_connecting False True True 0
      {#D_cas cs_connecting#}"] by (simp add: expand)
  note p5 = race_step(1) [OF p4 this]
  have "disc_step (?r P_est cs_connecting False True False 0 {#D_cas cs_connecting#})
     (?r P_est cs_closed False True False 0 {#D_cancel cs_connecting#})"
    using d_won [of cs_connecting "?r P_est cs_connecting False True False 0 {#D_cas cs_connecting#}"]
    by (simp add: expand)
  note p6 = race_step(2) [OF p5 this]
  have "op_step (?r P_est cs_closed False True False 0 {#D_cancel cs_connecting#})
     (?r P_teardown cs_closed False True False 0 {#D_cancel cs_connecting#})"
    using established_lost [of "?r P_est cs_closed False True False 0 {#D_cancel cs_connecting#}"]
    by (simp add: expand)
  note p7 = race_step(1) [OF p6 this]
  have "op_step (?r P_teardown cs_closed False True False 0 {#D_cancel cs_connecting#})
     (?r P_posted cs_closed True True False 1 {#D_cancel cs_connecting#})"
    using teardown [of "?r P_teardown cs_closed False True False 0 {#D_cancel cs_connecting#}"]
    by (simp add: expand)
  note p8 = race_step(1) [OF p7 this]
  have "disc_step (?r P_posted cs_closed True True False 1 {#D_cancel cs_connecting#})
     (?r P_posted cs_closed True True False 1 {#D_ret#})"
    using d_cancel_inflight [of cs_connecting
      "?r P_posted cs_closed True True False 1 {#D_cancel cs_connecting#}"] by (simp add: expand)
  note p9 = race_step(2) [OF p8 this]
  have "op_step (?r P_posted cs_closed True True False 1 {#D_ret#})
     (?r P_done cs_closed True True False 1 {#D_ret#})"
    using complete [of "?r P_posted cs_closed True True False 1 {#D_ret#}"] by (simp add: expand)
  from race_step(1) [OF p9 this] show ?thesis .
qed

text \<open>
  C7. However the connect or accept operation, any number of \<open>disconnect()\<close> calls, the
  per-operation cancellation and the connection coming up interleave at the level of single atomic
  accesses: \<open>rdma_disconnect\<close> is called at most once, only for a connection that came up, and never
  while \<open>connect_state_\<close> says \<open>connected\<close>; and an operation that reported an abort never leaves the
  connector \<open>connected\<close>.
\<close>

theorem teardown_at_most_once:
  assumes "arb_step\<^sup>*\<^sup>* (arb_init s) a"
  shows "a_disc a \<le> (if a_est a then 1 else 0) \<and>
    \<not> (a_st a = cs_connected \<and> (0 < a_disc a \<or> a_aborted a))"
  using arb_inv_reachable [OF assms] by (auto simp: arb_inv_def tokens_def split: if_splits)

theorem teardown_at_most_once_witness:
  "arb_step\<^sup>*\<^sup>* (arb_init A_connect) (race_state P_done cs_closed True True False 1 {#D_ret#}) \<and>
   a_disc (race_state P_done cs_closed True True False 1 {#D_ret#}) \<le> 1"
  using teardown_at_most_once [OF race_reachable] race_reachable by (simp add: race_state_def)

text \<open>
  C6. The connection is not leaked: once the operation has completed, every \<open>disconnect()\<close> call
  has returned, the connector is \<open>closed\<close> and no event is left on the channel (the destructor drains
  it), \<open>rdma_disconnect\<close> was called exactly once if the connection came up and not at all otherwise.
\<close>

theorem teardown_exactly_once:
  assumes "arb_step\<^sup>*\<^sup>* (arb_init s) a"
    and "a_pc a = P_done" and "\<forall>d\<in>#a_thr a. d = D_ret" and "a_st a = cs_closed" and "\<not> a_pending a"
  shows "a_disc a = (if a_est a then 1 else 0)"
proof -
  have none: "size (filter_mset tearing (a_thr a)) = 0"
    using assms(3) by (auto simp: tearing_def multiset_eq_iff count_eq_zero_iff)
  have "size (filter_mset tearing (a_thr a)) + a_disc a = (if a_est a then 1 else 0)"
    using arb_inv_reachable [OF assms(1)] assms(2,4,5) by (simp add: arb_inv_def tokens_def)
  with none show ?thesis by linarith
qed

theorem teardown_exactly_once_witness:
  "a_disc (race_state P_done cs_closed True True False 1 {#D_ret#}) = 1"
  using teardown_exactly_once [OF race_reachable] by (simp add: race_state_def)

subsection \<open>The functions as runs of steps\<close>

fun arb_stage :: "connect_stage \<Rightarrow> op_stage" where
  "arb_stage st_addr_resolve = A_resolve"
| "arb_stage st_addr_route = A_route"
| "arb_stage _ = A_connect"

lemma advance_steps:
  assumes "a_pc a = P_armed s" and "a_st a = stage_state s" and "s \<noteq> A_connect"
  shows "arb_step\<^sup>*\<^sup>* a (a\<lparr>a_st := stage_state (next_stage s), a_pc := P_armed (next_stage s)\<rparr>)"
proof -
  have "op_step a (a\<lparr>a_pc := P_adv s\<rparr>)" using assms by (intro fetch_progress)
  note p = race_step(1) [OF rtranclp.rtrancl_refl this]
  have "op_step (a\<lparr>a_pc := P_adv s\<rparr>) (a\<lparr>a_st := stage_state (next_stage s), a_pc := P_armed (next_stage s)\<rparr>)"
    using advance_ok [of "a\<lparr>a_pc := P_adv s\<rparr>" s] assms by simp
  from race_step(1) [OF p this] show ?thesis .
qed

lemma failure_steps:
  assumes "a_pc a = P_armed s"
  shows "\<exists>a'. arb_step\<^sup>*\<^sup>* a a' \<and> a_st a' = cs_closed \<and> a_pc a' = P_posted \<and> a_disc a' = a_disc a \<and>
    a_thr a' = a_thr a \<and> (a_aborted a' \<longleftrightarrow> a_aborted a \<or> a_st a = cs_closed)"
proof -
  have "op_step a (a\<lparr>a_pc := P_claim\<rparr>)" using assms by (intro fetch_failure)
  note p = race_step(1) [OF rtranclp.rtrancl_refl this]
  have "op_step (a\<lparr>a_pc := P_claim\<rparr>) (a\<lparr>a_pc := P_claim_cas (a_st a)\<rparr>)"
    using claim_load [of "a\<lparr>a_pc := P_claim\<rparr>"] by simp
  note p = race_step(1) [OF p this]
  show ?thesis
  proof (cases "a_st a = cs_closed")
    case True
    then have "op_step (a\<lparr>a_pc := P_claim_cas (a_st a)\<rparr>) (a\<lparr>a_aborted := True, a_pc := P_posted\<rparr>)"
      using claim_lost [of "a\<lparr>a_pc := P_claim_cas (a_st a)\<rparr>"] by simp
    from race_step(1) [OF p this] True show ?thesis by fastforce
  next
    case False
    then have "op_step (a\<lparr>a_pc := P_claim_cas (a_st a)\<rparr>) (a\<lparr>a_st := cs_closed, a_pc := P_posted\<rparr>)"
      using claim_won [of "a\<lparr>a_pc := P_claim_cas (a_st a)\<rparr>" "a_st a"] by simp
    from race_step(1) [OF p this] False show ?thesis by fastforce
  qed
qed

text \<open>
  One event processed by the connect operation, whole, is a run of the steps above with the same
  state, disconnects and outcome, whenever an \<open>ESTABLISHED\<close> event is one the model has pending.
\<close>

lemma connect_do_process_simulated:
  assumes law: "disc_law disc api" "cm_errno_law api" "qp_cb_law disc create_qp"
    and op: "stage_matches op st" "\<not> is_error (co_ec op)" "co_cm_id op \<noteq> nullptr"
    and r: "connect_do_process api create_qp ev op st c = (fin, op', st', c')"
    and rel: "a_pc a = P_armed (arb_stage (co_stage op))" "a_st a = st" "a_disc a = disc c"
      "\<not> a_aborted a"
    and pending: "co_stage op = st_connect \<Longrightarrow> ev_type ev = RDMA_CM_EVENT_ESTABLISHED \<Longrightarrow> a_pending a"
  shows "\<exists>a'. arb_step\<^sup>*\<^sup>* a a' \<and> a_st a' = st' \<and> a_disc a' = disc c' \<and> a_thr a' = a_thr a \<and>
    a_pc a' = (if fin then P_posted else P_armed (arb_stage (co_stage op'))) \<and>
    (a_aborted a' \<longrightarrow> co_ec op' = operation_aborted)"
proof -
  have out: "connect_outcome disc ev op st c (fin, op', st', c')"
    using connect_do_process_outcome [OF law op, of ev c] r by simp
  consider (up) "fin" "co_stage op = st_connect" "ev_type ev = RDMA_CM_EVENT_ESTABLISHED"
    | (failed) "fin" "\<not> (co_stage op = st_connect \<and> ev_type ev = RDMA_CM_EVENT_ESTABLISHED)"
    | (on) "\<not> fin" by blast
  then show ?thesis
  proof cases
    case up
    have pc: "a_pc a = P_armed A_connect" using rel(1) up by simp
    have "op_step a (a\<lparr>a_pending := False, a_pc := P_est\<rparr>)"
      using pc pending up by (intro fetch_established) auto
    note p = race_step(1) [OF rtranclp.rtrancl_refl this]
    show ?thesis
    proof (cases "st = cs_connecting")
      case True
      then have "op_step (a\<lparr>a_pending := False, a_pc := P_est\<rparr>)
          (a\<lparr>a_pending := False, a_st := cs_connected, a_pc := P_posted\<rparr>)"
        using established_won [of "a\<lparr>a_pending := False, a_pc := P_est\<rparr>"] rel(2) by simp
      from race_step(1) [OF p this] show ?thesis using out up True rel
        by (intro exI [of _ "a\<lparr>a_pending := False, a_st := cs_connected, a_pc := P_posted\<rparr>"])
          (simp add: connect_outcome_def)
    next
      case False
      let ?t = "a\<lparr>a_pending := False, a_pc := P_teardown\<rparr>"
      have "op_step (a\<lparr>a_pending := False, a_pc := P_est\<rparr>) ?t"
        using established_lost [of "a\<lparr>a_pending := False, a_pc := P_est\<rparr>"] rel(2) False by simp
      note q = race_step(1) [OF p this]
      from race_step(1) [OF q teardown] show ?thesis
        using out up False rel op(1)
        by (intro exI [of _ "?t\<lparr>a_disc := Suc (a_disc ?t), a_aborted := True, a_pc := P_posted\<rparr>"])
          (auto simp: connect_outcome_def stage_matches_def)
    qed
  next
    case failed
    from failure_steps [OF rel(1)] obtain a' where
      "arb_step\<^sup>*\<^sup>* a a'" "a_st a' = cs_closed" "a_pc a' = P_posted" "a_disc a' = a_disc a"
      "a_thr a' = a_thr a" "a_aborted a' \<longleftrightarrow> a_aborted a \<or> a_st a = cs_closed" by blast
    then show ?thesis using out failed rel by (intro exI [of _ a']) (auto simp: connect_outcome_def)
  next
    case on
    have "arb_step\<^sup>*\<^sup>* a (a\<lparr>a_st := st', a_pc := P_armed (arb_stage (co_stage op'))\<rparr>)"
    proof (cases "co_stage op")
      case st_addr_resolve
      have 1: "arb_step\<^sup>*\<^sup>* a (a\<lparr>a_st := cs_addr_route, a_pc := P_armed A_route\<rparr>)"
        using advance_steps [of a A_resolve] rel st_addr_resolve op out on
        by (auto simp: stage_matches_def connect_outcome_def)
      have 2: "arb_step\<^sup>*\<^sup>* (a\<lparr>a_st := cs_addr_route, a_pc := P_armed A_route\<rparr>)
          (a\<lparr>a_st := cs_connecting, a_pc := P_armed A_connect\<rparr>)"
        using advance_steps [of "a\<lparr>a_st := cs_addr_route, a_pc := P_armed A_route\<rparr>" A_route] by simp
      show ?thesis
        using 1 rtranclp_trans [OF 1 2] out on st_addr_resolve
        by (auto simp: stage_matches_def connect_outcome_def stage_rank_def)
    next
      case st_addr_route
      then show ?thesis
        using advance_steps [of a A_route] rel op out on
        by (auto simp: stage_matches_def connect_outcome_def stage_rank_def)
    qed (use out on in \<open>auto simp: connect_outcome_def stage_rank_def\<close>)
    then show ?thesis using out on rel
      by (intro exI [of _ "a\<lparr>a_st := st', a_pc := P_armed (arb_stage (co_stage op'))\<rparr>"])
        (auto simp: connect_outcome_def)
  qed
qed

text \<open>\<open>disconnect()\<close> run whole, on an open connector whose operation is not being performed.\<close>

definition returned :: "arb \<Rightarrow> arb \<Rightarrow> bool" where
  "returned a a' \<longleftrightarrow> a_thr a' = add_mset D_ret (a_thr a - {#D_load#})"

lemma disconnect_steps:
  assumes "D_load \<in># a_thr a" and "\<not> performing (a_pc a)"
  shows "\<exists>a'. arb_step\<^sup>*\<^sup>* a a' \<and> a_st a' = cs_closed \<and> returned a a' \<and>
    a_disc a' = a_disc a + (if a_st a = cs_connected then 1 else 0) \<and>
    a_pc a' = (if a_st a = cs_closed \<or> a_st a = cs_idle then a_pc a else a_pc (cancel_armed a))"
proof -
  let ?T = "a_thr a - {#D_load#}"
  have "disc_step a (a\<lparr>a_thr := add_mset (D_cas (a_st a)) ?T\<rparr>)"
    using d_load [OF assms(1)] by (simp add: moved_def)
  note p = race_step(2) [OF rtranclp.rtrancl_refl this]
  show ?thesis
  proof (cases "a_st a = cs_closed")
    case True
    have "disc_step (a\<lparr>a_thr := add_mset (D_cas (a_st a)) ?T\<rparr>) (a\<lparr>a_thr := add_mset D_ret ?T\<rparr>)"
      using d_already [of "a\<lparr>a_thr := add_mset (D_cas (a_st a)) ?T\<rparr>"] True by (simp add: moved_def)
    from race_step(2) [OF p this] True show ?thesis
      by (intro exI [of _ "a\<lparr>a_thr := add_mset D_ret ?T\<rparr>"]) (simp add: returned_def)
  next
    case False
    let ?b = "a\<lparr>a_st := cs_closed, a_thr := add_mset (D_cancel (a_st a)) ?T\<rparr>"
    have "disc_step (a\<lparr>a_thr := add_mset (D_cas (a_st a)) ?T\<rparr>) ?b"
      using d_won [of "a_st a" "a\<lparr>a_thr := add_mset (D_cas (a_st a)) ?T\<rparr>"] False by (simp add: moved_def)
    note q = race_step(2) [OF p this]
    consider (idle) "a_st a = cs_idle" | (up) "a_st a = cs_connected"
      | (inflight) "a_st a = cs_addr_resolve \<or> a_st a = cs_addr_route \<or> a_st a = cs_connecting"
      using False by (cases "a_st a") auto
    then show ?thesis
    proof cases
      case idle
      from race_step(2) [OF q, of "moved (D_cancel cs_idle) D_ret ?b"] d_idle [of ?b] idle show ?thesis
        by (intro exI [of _ "moved (D_cancel cs_idle) D_ret ?b"]) (simp add: returned_def)
    next
      case inflight
      let ?c = "moved (D_cancel (a_st a)) D_ret (cancel_armed ?b)"
      have "arb_step\<^sup>*\<^sup>* a ?c"
        using race_step(2) [OF q, of ?c] d_cancel_inflight [of "a_st a" ?b] inflight assms(2) by simp
      moreover have "a_pc (cancel_armed ?b) = a_pc (cancel_armed a)"
        by (simp add: cancel_armed_def split: op_pc.split)
      ultimately show ?thesis using inflight
        by (intro exI [of _ ?c]) (auto simp: returned_def)
    next
      case up
      let ?c = "moved (D_cancel cs_connected) D_disc (cancel_armed ?b)"
      let ?d = "moved D_disc D_ret (?c\<lparr>a_disc := Suc (a_disc ?c)\<rparr>)"
      have "arb_step\<^sup>*\<^sup>* a ?c"
        using race_step(2) [OF q, of ?c] d_cancel_connected [of ?b] up assms(2) by simp
      then have "arb_step\<^sup>*\<^sup>* a ?d" using race_step(2) [of a ?c ?d] d_disconnect [of ?c] by simp
      moreover have "a_pc (cancel_armed ?b) = a_pc (cancel_armed a)"
        by (simp add: cancel_armed_def split: op_pc.split)
      ultimately show ?thesis using up by (intro exI [of _ ?d]) (simp add: returned_def)
    qed
  qed
qed

lemma conn_disconnect_simulated:
  assumes law: "disc_law disc api" and w: "conn_is_open (kw_impl w)" "ci_channel (kw_impl w) \<noteq> nullptr"
    and rel: "D_load \<in># a_thr a" "\<not> performing (a_pc a)" "a_st a = ci_state (kw_impl w)"
      "a_disc a = disc (kw_cm w)"
    and r: "conn_disconnect api w = (ec, w')"
  shows "\<exists>a'. arb_step\<^sup>*\<^sup>* a a' \<and> returned a a' \<and> a_st a' = ci_state (kw_impl w') \<and>
    a_disc a' = disc (kw_cm w') \<and>
    (kw_armed w' = kw_armed w \<and> a_pc a' = a_pc a \<or> kw_armed w' = [] \<and> a_pc a' = a_pc (cancel_armed a))"
proof -
  obtain a' where a': "arb_step\<^sup>*\<^sup>* a a'" "a_st a' = cs_closed" "returned a a'"
    "a_disc a' = a_disc a + (if a_st a = cs_connected then 1 else 0)"
    "a_pc a' = (if a_st a = cs_closed \<or> a_st a = cs_idle then a_pc a else a_pc (cancel_armed a))"
    using disconnect_steps [OF rel(1,2)] by blast
  obtain rc e c where k: "cm_disconnect api (ci_cm_id (kw_impl w)) (kw_cm w) = (rc, e, c)"
    by (metis prod_cases3)
  have "disc c = Suc (disc (kw_cm w))"
    using wrapper_disc(5) [OF law, of "ci_cm_id (kw_impl w)" "kw_cm w"] w(1) k
    by (simp add: conn_is_open_def)
  then show ?thesis
    using a' r w rel k
    by (intro exI [of _ a'], cases "ci_state (kw_impl w)")
      (auto simp: conn_disconnect_def reactor_cancel_ops_def Let_def)
qed

end
