(* ===== verification/IBV_CM_Example.thy ===== *)
theory IBV_CM_Example
  imports IBV_Connector
begin

text \<open>
  A concrete rdma_cm that satisfies the laws the connection-management lemmas name: a queue of events,
  a supply of addresses for channels and ids, the set of those alive and a count of the
  \<open>rdma_disconnect\<close> calls. Every call succeeds, unless there is no address left. The witnesses of the connection management run on it.
\<close>

record cm_sim =
  sim_events :: "cm_event list"
  sim_next :: ptr
  sim_live :: "ptr list"
  sim_disc :: nat

definition sim_alloc :: "cm_sim \<Rightarrow> ptr \<times> cm_sim" where
  "sim_alloc s =
     (if sim_next s = nullptr \<or> sim_next s \<in> set (sim_live s) then (nullptr, s)
      else (sim_next s, s\<lparr>sim_next := sim_next s + 1, sim_live := sim_next s # sim_live s\<rparr>))"

definition sim_free :: "cm_sim \<Rightarrow> ptr \<Rightarrow> cm_sim" where
  "sim_free s p = s\<lparr>sim_live := filter (\<lambda>x. x \<noteq> p) (sim_live s)\<rparr>"

definition sim_get_event :: "cm_sim \<Rightarrow> ptr \<Rightarrow> (int + cm_event) \<times> cm_sim" where
  "sim_get_event s ch =
     (case sim_events s of [] \<Rightarrow> (Inl EAGAIN, s) | ev # evs \<Rightarrow> (Inr ev, s\<lparr>sim_events := evs\<rparr>))"

definition sim_cm_api :: "cm_sim cm_api" where
  "sim_cm_api =
     \<lparr>cma_event_channel = \<lambda>s. (case sim_alloc s of (p, s') \<Rightarrow> (p, if p = nullptr then 12 else 0, s')),
      cma_fcntl_get = \<lambda>s fd. (0, 0, s), cma_fcntl_set = \<lambda>s fd v. (0, 0, s),
      cma_destroy_channel = sim_free,
      cma_create_id = \<lambda>s ch. (case sim_alloc s of (p, s') \<Rightarrow>
        if p = nullptr then (- 1, 12, p, s') else (0, 0, p, s')),
      cma_destroy_id = sim_free, cma_id_qp = \<lambda>s i. i + 4096, cma_destroy_qp = \<lambda>s i. s,
      cma_migrate_id = \<lambda>s i ch. (0, 0, s), cma_bind_addr = \<lambda>s i a. (0, 0, s),
      cma_listen = \<lambda>s i b. (0, 0, s), cma_resolve_addr = \<lambda>s i a t. (0, 0, s),
      cma_resolve_route = \<lambda>s i t. (0, 0, s), cma_connect = \<lambda>s i p. (0, 0, s),
      cma_accept = \<lambda>s i p. (0, 0, s),
      cma_disconnect = \<lambda>s i. (0, 0, s\<lparr>sim_disc := Suc (sim_disc s)\<rparr>),
      cma_get_event = sim_get_event, cma_ack_event = \<lambda>s ev. s, cma_modify_qp = \<lambda>s q t. (0, s)\<rparr>"

definition sim_event :: "cm_event_type \<Rightarrow> cm_event" where
  "sim_event t = \<lparr>ev_type = t, ev_status = 0, ev_private_data = None, ev_private_data_len = 0, ev_id = 0\<rparr>"

definition sim_start :: "cm_event_type list \<Rightarrow> cm_sim" where
  "sim_start ts = \<lparr>sim_events = map sim_event ts, sim_next = 16, sim_live = [], sim_disc = 0\<rparr>"

text \<open>A device in use, the callback that creates a queue pair, a connector before its first call.\<close>

definition sim_device_service :: device_service where
  "sim_device_service = device_service_new\<lparr>ds_registered := True, ds_effective_config := default_config\<rparr>"

definition sim_create_qp :: "cm_sim create_qp_cb" where
  "sim_create_qp i s = (no_error, s)"

definition sim_world :: "cm_event_type list \<Rightarrow> cm_sim conn_world" where
  "sim_world ts =
     \<lparr>kw_cm = sim_start ts, kw_impl = connector_construct, kw_armed = [], kw_posted = [],
      kw_upcalls = [], kw_fault = False\<rparr>"

lemmas sim_defs =
  sim_alloc_def sim_free_def sim_get_event_def sim_cm_api_def sim_event_def sim_start_def
  sim_device_service_def sim_create_qp_def sim_world_def

lemma sim_disc_law: "disc_law sim_disc sim_cm_api"
  by (simp add: disc_law_def sim_cm_api_def sim_get_event_def split: list.split)

lemma sim_cm_errno_law: "cm_errno_law sim_cm_api"
  by (simp add: cm_errno_law_def sim_cm_api_def)

lemma sim_qp_cb_law: "qp_cb_law sim_disc sim_create_qp"
  by (simp add: qp_cb_law_def sim_create_qp_def)

end
