(* ===== verification/IBV_Connector_Run.thy ===== *)
theory IBV_Connector_Run
  imports IBV_CM_Example Handler_Ledger
begin

text \<open>
  Runs of a connector: \<open>conn_step\<close> is one call of the program on the connector, the reactor
  performing an operation, the scheduler completing one, or rdma_cm moving on by itself, in any order
  and with any arguments. It is labelled with the handlers it takes in. The first part shows where
  handlers go (every one of them is armed, posted or invoked, once), the second how \<open>connect_state_\<close>
  moves.
\<close>

inductive conn_step :: "'c cm_api \<Rightarrow> 'c conn_world \<Rightarrow> nat multiset \<Rightarrow> 'c conn_world \<Rightarrow> bool" for api where
  step_open: "conn_step api w {#} (snd (conn_open api reg ds w))"
| step_assign: "conn_assign reg handle (kw_impl w) = (ec, handle', impl') \<Longrightarrow>
    conn_step api w {#} (w\<lparr>kw_impl := impl'\<rparr>)"
| step_connect: "conn_step api w {#h#} (async_connect api reg ds ep request reply_buf reply_cap qp h w)"
| step_accept: "conn_step api w {#h#} (async_accept api create_qp has_qp ds private_data h w)"
| step_move_accept: "conn_step api w {#h#} (async_move_accept api create_qp bind_ec ds private_data h w)"
| step_disconnect: "conn_step api w {#} (snd (conn_disconnect api w))"
| step_wait: "conn_step api w {#h#} (async_wait_disconnect h w)"
| step_perform: "conn_step api w {#} (perform_front api create_qp w)"
| step_complete: "conn_step api w {#} (complete_front True w)"
| step_cancel: "conn_step api w {#} (cm_op_cancellation type key w)"
| step_rdma_cm: "conn_step api w {#} (w\<lparr>kw_cm := c\<rparr>)"

abbreviation conn_run :: "'c cm_api \<Rightarrow> 'c conn_world \<Rightarrow> nat multiset \<Rightarrow> 'c conn_world \<Rightarrow> bool" where
  "conn_run api \<equiv> labelled_run (conn_step api)"

subsection \<open>Handlers\<close>

definition op_handlers :: "cm_op list \<Rightarrow> nat multiset" where
  "op_handlers ops = mset (map cm_op_handler ops)"

definition owed :: "'c conn_world \<Rightarrow> nat multiset" where
  "owed w = op_handlers (kw_armed w) + op_handlers (kw_posted w)"

definition invoked :: "'c conn_world \<Rightarrow> nat multiset" where
  "invoked w = mset (map cu_handler (kw_upcalls w))"

lemma op_handlers_simps [simp]:
  "op_handlers [] = {#}" "op_handlers (op # ops) = add_mset (cm_op_handler op) (op_handlers ops)"
  "op_handlers (ops @ ops') = op_handlers ops + op_handlers ops'"
  by (simp_all add: op_handlers_def)

lemma cm_op_handler_set_ec [simp]: "cm_op_handler (set_ec ec op) = cm_op_handler op"
  by (cases op) simp_all

lemma op_handlers_map_set_ec [simp]: "op_handlers (map (set_ec ec) ops) = op_handlers ops"
  by (simp add: op_handlers_def comp_def)

lemma op_handlers_partition:
  "op_handlers (filter P ops) + op_handlers (filter (\<lambda>op. \<not> P op) ops) = op_handlers ops"
  by (induction ops) auto

lemma reactor_effects [simp]:
  "owed (reactor_start_op op w) = add_mset (cm_op_handler op) (owed w)"
  "invoked (reactor_start_op op w) = invoked w"
  "owed (reactor_post ec op w) = add_mset (cm_op_handler op) (owed w)"
  "invoked (reactor_post ec op w) = invoked w"
  "owed (reactor_cancel_ops w) = owed w"
  "invoked (reactor_cancel_ops w) = invoked w"
  by (simp_all add: owed_def invoked_def reactor_start_op_def reactor_post_def reactor_cancel_ops_def)

lemma frame_effects [simp]:
  "owed (w\<lparr>kw_cm := c\<rparr>) = owed w" "invoked (w\<lparr>kw_cm := c\<rparr>) = invoked w"
  "owed (w\<lparr>kw_impl := i\<rparr>) = owed w" "invoked (w\<lparr>kw_impl := i\<rparr>) = invoked w"
  "owed (w\<lparr>kw_fault := f\<rparr>) = owed w" "invoked (w\<lparr>kw_fault := f\<rparr>) = invoked w"
  by (simp_all add: owed_def invoked_def)

lemma conn_open_handlers:
  "owed (snd (conn_open api reg ds w)) = owed w" "invoked (snd (conn_open api reg ds w)) = invoked w"
  by (auto simp: conn_open_def split: prod.split)

lemma connect_op_new_handler [simp]:
  "co_handler (connect_op_new ec i ch t rq rb rc r d n m qp h) = h"
  by (simp add: connect_op_new_def)

lemma accept_op_new_handler [simp]: "ao_handler (accept_op_new ec i ch t h) = h"
  by (simp add: accept_op_new_def)

lemma wait_op_new_handler [simp]: "wo_handler (wait_op_new ec ch h) = h"
  by (simp add: wait_op_new_def)

lemma start_connect_op_handlers:
  "owed (start_connect_op api ds ep op w) = add_mset (co_handler op) (owed w)"
  "invoked (start_connect_op api ds ep op w) = invoked w"
  by (auto simp: start_connect_op_def Let_def split: prod.split)

lemma async_connect_handlers:
  "owed (async_connect api reg ds ep rq rb rc qp h w) = add_mset h (owed w)"
  "invoked (async_connect api reg ds ep rq rb rc qp h w) = invoked w"
  using conn_open_handlers [of api reg ds w]
  by (auto simp: async_connect_def Let_def start_connect_op_handlers split: prod.split)

lemma start_accept_op_handlers:
  "owed (start_accept_op api create_qp has_qp ds pd op w) = add_mset (ao_handler op) (owed w)"
  "invoked (start_accept_op api create_qp has_qp ds pd op w) = invoked w"
  by (auto simp: start_accept_op_def Let_def split: prod.split)

lemma async_accept_handlers:
  "owed (async_accept api create_qp has_qp ds pd h w) = add_mset h (owed w)"
  "invoked (async_accept api create_qp has_qp ds pd h w) = invoked w"
  "owed (async_move_accept api create_qp bind_ec ds pd h w) = add_mset h (owed w)"
  "invoked (async_move_accept api create_qp bind_ec ds pd h w) = invoked w"
  by (simp_all add: async_accept_def async_move_accept_def Let_def start_accept_op_handlers
      split: option.split)

lemma conn_disconnect_handlers:
  "owed (snd (conn_disconnect api w)) = owed w" "invoked (snd (conn_disconnect api w)) = invoked w"
  by (auto simp: conn_disconnect_def Let_def split: connect_state.split prod.split)

lemma async_wait_disconnect_handlers:
  "owed (async_wait_disconnect h w) = add_mset h (owed w)"
  "invoked (async_wait_disconnect h w) = invoked w"
  by (simp_all add: async_wait_disconnect_def Let_def)

text \<open>Performing an operation keeps its handler.\<close>

lemma fail_with_handler [simp]: "co_handler (fst (snd (fail_with e op st c))) = co_handler op"
  by (simp add: fail_with_def split: prod.split)

lemma aborted_handler [simp]: "co_handler (fst (snd (aborted_by_disconnect op st c))) = co_handler op"
  by (simp add: aborted_by_disconnect_def)

lemma connect_do_process_handler:
  "co_handler (fst (snd (connect_do_process api create_qp ev op st c))) = co_handler op"
proof -
  have "co_handler (fst (snd (do_process_addr_resolve api create_qp ev op st c))) = co_handler op"
    by (simp add: do_process_addr_resolve_def split: cm_event_type.split prod.split)
  moreover have "co_handler (fst (snd (do_process_addr_route api ev op st c))) = co_handler op"
    by (simp add: do_process_addr_route_def split: cm_event_type.split prod.split)
  moreover have "co_handler (copy_reply ev op) = co_handler op"
    by (simp add: copy_reply_def split: option.split)
  then have "co_handler (fst (snd (do_process_connect api ev op st c))) = co_handler op"
    by (simp add: do_process_connect_def split: cm_event_type.split prod.split)
  ultimately show ?thesis by (simp add: connect_do_process_def split: connect_stage.split)
qed

lemma accept_do_process_handler:
  "ao_handler (fst (snd (accept_do_process api ev op st c))) = ao_handler op"
  by (simp add: accept_do_process_def accept_fail_with_def split: cm_event_type.split prod.split)

lemma do_perform_handler:
  "co_handler (fst (snd (connect_do_perform api create_qp op st c))) = co_handler op"
  "ao_handler (fst (snd (accept_do_perform api aop st c))) = ao_handler aop"
  "wo_handler (fst (snd (wait_do_perform api wop peer c))) = wo_handler wop"
proof -
  show "co_handler (fst (snd (connect_do_perform api create_qp op st c))) = co_handler op"
    using connect_do_process_handler [of api create_qp]
    by (simp add: connect_do_perform_def case_prod_beta split: option.split)
  show "ao_handler (fst (snd (accept_do_perform api aop st c))) = ao_handler aop"
    using accept_do_process_handler [of api]
    by (simp add: accept_do_perform_def case_prod_beta split: option.split)
  show "wo_handler (fst (snd (wait_do_perform api wop peer c))) = wo_handler wop"
    by (simp add: wait_do_perform_def split: prod.split option.split cm_event_type.split)
qed

lemma perform_front_handlers:
  "owed (perform_front api create_qp w) = owed w" "invoked (perform_front api create_qp w) = invoked w"
  using do_perform_handler [of api]
  by (auto simp: perform_front_def owed_def invoked_def case_prod_beta split: list.split cm_op.split)

lemma cm_op_do_complete_upcall:
  "\<exists>u. fst (cm_op_do_complete True op st) = Some u \<and> cu_handler u = cm_op_handler op \<and>
     cu_ec u = cm_op_ec op"
  by (cases op) (simp_all add: connect_do_complete_def accept_do_complete_def wait_do_complete_def Let_def)

lemma complete_front_handlers:
  "owed (complete_front True w) + invoked (complete_front True w) = owed w + invoked w"
proof (cases "kw_posted w")
  case Nil
  then show ?thesis by (simp add: complete_front_def)
next
  case (Cons op ops)
  obtain u st where "cm_op_do_complete True op (ci_state (kw_impl w)) = (Some u, st)"
    "cu_handler u = cm_op_handler op"
    using cm_op_do_complete_upcall [of op "ci_state (kw_impl w)"] by (metis prod.collapse)
  then show ?thesis using Cons by (simp add: complete_front_def owed_def invoked_def)
qed

lemma cm_op_cancellation_handlers:
  "owed (cm_op_cancellation type key w) = owed w"
  "invoked (cm_op_cancellation type key w) = invoked w"
  using op_handlers_partition [of "\<lambda>op. cm_op_handler op = key" "kw_armed w"]
  by (auto simp: cm_op_cancellation_def owed_def invoked_def ac_simps)

lemmas call_handlers =
  conn_open_handlers async_connect_handlers async_accept_handlers conn_disconnect_handlers
  async_wait_disconnect_handlers perform_front_handlers cm_op_cancellation_handlers

lemma conn_step_handlers:
  "conn_step api w hs w' \<Longrightarrow> owed w' + invoked w' = owed w + invoked w + hs"
  by (induction rule: conn_step.induct) (simp_all add: call_handlers complete_front_handlers)

interpretation connector_ledger: handler_ledger "conn_step api" owed invoked for api
  by unfold_locales (rule conn_step_handlers)

text \<open>
  C8. For every sequence of calls on a connector, of reactor and scheduler turns and of moves of
  rdma_cm, each handler passed to \<open>async_connect\<close>, \<open>async_accept\<close> or \<open>async_wait_disconnect\<close> is held by
  exactly one armed or posted operation until it is invoked, and it is invoked at most once; when no
  operation is left, every handler was invoked exactly once.
\<close>

theorem control_handlers_exactly_once:
  assumes "conn_run api w hs w'" and "owed w = {#}" and "invoked w = {#}"
  shows "owed w' + invoked w' = hs \<and>
    (kw_armed w' = [] \<and> kw_posted w' = [] \<longrightarrow> invoked w' = hs)"
  using connector_ledger.exactly_once [OF assms] by (simp add: owed_def)

subsection \<open>The state of the connection\<close>

fun state_rank :: "connect_state \<Rightarrow> nat" where
  "state_rank cs_idle = 0"
| "state_rank cs_addr_resolve = 1"
| "state_rank cs_addr_route = 2"
| "state_rank cs_connecting = 3"
| "state_rank cs_connected = 4"
| "state_rank cs_closed = 5"

lemma state_rank_closed: "state_rank st \<le> 5"
  by (cases st) simp_all

abbreviation world_state :: "'c conn_world \<Rightarrow> connect_state" where
  "world_state w \<equiv> ci_state (kw_impl w)"

text \<open>\<open>onward w w'\<close>: an open connector stays open and its state does not go back.\<close>

definition onward :: "'c conn_world \<Rightarrow> 'c conn_world \<Rightarrow> bool" where
  "onward w w' \<longleftrightarrow> (conn_is_open (kw_impl w) \<longrightarrow>
     conn_is_open (kw_impl w') \<and> state_rank (world_state w) \<le> state_rank (world_state w'))"

lemma onward_refl [simp]: "onward w w"
  by (simp add: onward_def)

lemma onward_trans: "onward w w' \<Longrightarrow> onward w' w'' \<Longrightarrow> onward w w''"
  by (auto simp: onward_def)

lemma reactor_impl [simp]:
  "kw_impl (reactor_start_op op w) = kw_impl w" "kw_impl (reactor_post ec op w) = kw_impl w"
  "kw_impl (reactor_cancel_ops w) = kw_impl w"
  by (simp_all add: reactor_start_op_def reactor_post_def reactor_cancel_ops_def)

lemma is_open_set_state [simp]: "conn_is_open (i\<lparr>ci_state := st\<rparr>) = conn_is_open i"
  by (simp add: conn_is_open_def)

lemma fail_with_closes [simp]:
  "fst (snd (snd (fail_with e op st c))) = cs_closed"
  "fst (snd (snd (accept_fail_with e aop st c))) = cs_closed"
  by (simp_all add: fail_with_def accept_fail_with_def claim_closed_def)

lemma connect_do_process_rank:
  "state_rank st \<le> state_rank (fst (snd (snd (connect_do_process api create_qp ev op st c))))"
  by (simp add: connect_do_process_def do_process_addr_resolve_def do_process_addr_route_def
      do_process_connect_def advance_def aborted_by_disconnect_def state_rank_closed
      split: connect_stage.split cm_event_type.split prod.split)

lemma accept_do_process_rank:
  "state_rank st \<le> state_rank (fst (snd (snd (accept_do_process api ev op st c))))"
  by (simp add: accept_do_process_def state_rank_closed split: cm_event_type.split prod.split)

lemma do_perform_rank:
  "state_rank st \<le> state_rank (fst (snd (snd (connect_do_perform api create_qp op st c))))"
  "state_rank st \<le> state_rank (fst (snd (snd (accept_do_perform api aop st c))))"
  using connect_do_process_rank [of st api create_qp] accept_do_process_rank [of st api]
  by (simp_all add: connect_do_perform_def accept_do_perform_def case_prod_beta split: option.split)

lemma cm_op_do_complete_rank: "state_rank st \<le> state_rank (snd (cm_op_do_complete owner op st))"
  by (cases op) (simp_all add: connect_do_complete_def accept_do_complete_def Let_def state_rank_closed)

lemma call_onward:
  "onward w (snd (conn_open api reg ds w))"
  "onward w (start_connect_op api ds ep cop w)"
  "onward w (start_accept_op api create_qp has_qp ds pd op w)"
  "onward w (snd (conn_disconnect api w))"
  "onward w (perform_front api create_qp w)"
  "onward w (complete_front True w)"
  "onward w (cm_op_cancellation type key w)"
  "onward w (async_wait_disconnect h w)"
proof -
  show "onward w (snd (conn_open api reg ds w))" by (simp add: onward_def conn_open_def)
  show "onward w (start_connect_op api ds ep cop w)"
    by (simp add: onward_def start_connect_op_def Let_def state_rank_closed split: prod.split)
  show "onward w (start_accept_op api create_qp has_qp ds pd op w)"
    by (simp add: onward_def start_accept_op_def Let_def state_rank_closed split: prod.split)
  show "onward w (snd (conn_disconnect api w))"
    by (simp add: onward_def conn_disconnect_def Let_def state_rank_closed split: connect_state.split prod.split)
  show "onward w (perform_front api create_qp w)"
    using do_perform_rank [of "world_state w" api]
    by (simp add: onward_def perform_front_def case_prod_beta conn_is_open_def split: list.split cm_op.split)
  show "onward w (complete_front True w)"
    using cm_op_do_complete_rank [of "world_state w" True]
    by (simp add: onward_def complete_front_def conn_is_open_def case_prod_beta split: list.split)
  show "onward w (cm_op_cancellation type key w)" by (simp add: onward_def cm_op_cancellation_def)
  show "onward w (async_wait_disconnect h w)" by (simp add: onward_def async_wait_disconnect_def Let_def)
qed

lemma onward_post [simp]: "onward w (reactor_post ec op w') = onward w w'"
  by (simp add: onward_def)

lemma async_connect_onward: "onward w (async_connect api reg ds ep rq rb rc qp h w)"
proof -
  obtain ec w1 where o: "(if conn_is_open (kw_impl w) then (no_error, w) else conn_open api reg ds w) = (ec, w1)"
    by fastforce
  have "onward w w1" using o call_onward(1) [of w api reg ds] by (auto split: if_splits)
  moreover from this have "onward w (start_connect_op api ds ep op w1)" for op
    by (rule onward_trans [OF _ call_onward(2)])
  ultimately show ?thesis using o by (simp add: async_connect_def Let_def)
qed

lemma conn_step_onward: "conn_step api w hs w' \<Longrightarrow> onward w w'"
proof (induction rule: conn_step.induct)
  case (step_assign reg handle w ec handle' impl')
  then show ?case by (auto simp: onward_def conn_assign_def split: prod.splits)
next
  case (step_rdma_cm w c)
  then show ?case by (simp add: onward_def)
qed (simp_all add: call_onward async_connect_onward async_accept_def async_move_accept_def Let_def
    split: option.split)

lemma conn_run_onward: "conn_run api w hs w' \<Longrightarrow> onward w w'"
  by (induction rule: labelled_run.induct) (auto dest: conn_step_onward intro: onward_trans)

text \<open>
  The state of an open connector only moves forward along \<open>idle\<close>, \<open>addr_resolve\<close>,
  \<open>addr_route\<close>, \<open>connecting\<close>, \<open>connected\<close>, \<open>closed\<close>, whatever is called in whatever order: a connector
  that was closed stays closed, so a second connect or accept is refused for good.
\<close>

theorem connect_state_monotone:
  assumes "conn_run api w hs w'" and "conn_is_open (kw_impl w)"
  shows "conn_is_open (kw_impl w') \<and> state_rank (world_state w) \<le> state_rank (world_state w') \<and>
    (world_state w = cs_closed \<longrightarrow> world_state w' = cs_closed)"
  using conn_run_onward [OF assms(1)] assms(2) state_rank_closed
  by (cases "world_state w'") (auto simp: onward_def)

subsection \<open>Success means established\<close>

text \<open>
  The invariant behind it: at most one connect or accept operation is in the reactor's queue, its
  stage agrees with the published state, and a posted or delivered success has \<open>was\<close>, that the state
  was \<open>connected\<close> at some point.
\<close>

fun is_cm :: "cm_op \<Rightarrow> bool" where
  "is_cm (Op_wait _) = False"
| "is_cm _ = True"

fun armed_ok :: "connect_state \<Rightarrow> cm_op \<Rightarrow> bool" where
  "armed_ok st (Op_connect op) \<longleftrightarrow> stage_matches op st \<and> \<not> is_error (co_ec op)"
| "armed_ok st (Op_accept op) \<longleftrightarrow> st = cs_connecting \<or> st = cs_closed"
| "armed_ok st (Op_wait op) \<longleftrightarrow> True"

definition conn_ok :: "bool \<Rightarrow> 'c conn_world \<Rightarrow> bool" where
  "conn_ok was w \<longleftrightarrow>
     length (filter is_cm (kw_armed w)) \<le> 1 \<and>
     (\<forall>op\<in>set (kw_armed w). armed_ok (world_state w) op) \<and>
     (kw_armed w \<noteq> [] \<longrightarrow> conn_is_open (kw_impl w)) \<and>
     (\<not> was \<longrightarrow> world_state w \<noteq> cs_connected \<and> (\<forall>op\<in>set (kw_posted w). is_error (cm_op_ec op)) \<and>
        (\<forall>u\<in>set (kw_upcalls w). is_error (cu_ec u)))"

text \<open>A call that fails leaves an error number: the calls the services make themselves.\<close>

definition start_errno_law :: "'c cm_api \<Rightarrow> bool" where
  "start_errno_law api \<longleftrightarrow>
     (\<forall>c i e t. fst (cma_resolve_addr api c i e t) \<noteq> 0 \<longrightarrow> fst (snd (cma_resolve_addr api c i e t)) \<noteq> 0) \<and>
     (\<forall>c i p. fst (cma_accept api c i p) \<noteq> 0 \<longrightarrow> fst (snd (cma_accept api c i p)) \<noteq> 0)"

lemma start_errno_lawD:
  assumes "start_errno_law api"
  shows "fst (cma_resolve_addr api c i e t) \<noteq> 0 \<Longrightarrow> fst (snd (cma_resolve_addr api c i e t)) \<noteq> 0"
    and "fst (cma_accept api c i p) \<noteq> 0 \<Longrightarrow> fst (snd (cma_accept api c i p)) \<noteq> 0"
  using assms unfolding start_errno_law_def by blast+

lemma start_wrapper_error:
  assumes "start_errno_law api"
  shows "fst (resolve_addr api i e t c) \<noteq> 0 \<Longrightarrow> is_error (fst (snd (resolve_addr api i e t c)))"
    and "fst (cm_accept api i p c) \<noteq> 0 \<Longrightarrow> is_error (fst (snd (cm_accept api i p c)))"
  using start_errno_lawD [OF assms]
  by (simp_all add: resolve_addr_def cm_accept_def cm_guarded_def cm_result_def
      case_prod_beta split: if_splits)

lemma cm_op_ec_set_ec [simp]: "cm_op_ec (set_ec ec op) = ec"
  by (cases op) simp_all

lemma armed_ok_closed: "armed_ok st op \<Longrightarrow> armed_ok cs_closed op"
  by (cases op) (auto simp: stage_matches_def)

lemma armed_ok_idle: "armed_ok cs_idle op \<Longrightarrow> \<not> is_cm op"
  by (cases op) (auto simp: stage_matches_def)

lemma armed_ok_wait: "\<not> is_cm op \<Longrightarrow> armed_ok st op"
  by (cases op) simp_all

lemma conn_ok_idleD: "conn_ok was w \<Longrightarrow> world_state w = cs_idle \<Longrightarrow> \<forall>op\<in>set (kw_armed w). \<not> is_cm op"
  by (auto simp: conn_ok_def dest: armed_ok_idle)

lemma conn_ok_mono: "conn_ok was w \<Longrightarrow> (was \<Longrightarrow> was') \<Longrightarrow> conn_ok was' w"
  by (auto simp: conn_ok_def)

lemma conn_ok_post: "conn_ok was w \<Longrightarrow> is_error ec \<Longrightarrow> conn_ok was (reactor_post ec op w)"
  by (auto simp: conn_ok_def reactor_post_def)

lemma conn_ok_cm [simp]: "conn_ok was (w\<lparr>kw_cm := c\<rparr>) = conn_ok was w"
  by (simp add: conn_ok_def)

lemma conn_ok_closed: "conn_ok was w \<Longrightarrow> conn_ok was (set_state cs_closed w)"
  by (auto simp: conn_ok_def intro: armed_ok_closed)

lemma operation_aborted_error [simp]: "is_error operation_aborted"
  by simp

lemma conn_ok_cancel_ops: "conn_ok was w \<Longrightarrow> conn_ok was (reactor_cancel_ops w)"
  by (auto simp: conn_ok_def reactor_cancel_ops_def)

text \<open>From \<open>idle\<close> an operation may publish its state, and then be armed.\<close>

lemma conn_ok_publish:
  assumes "conn_ok was w" and "world_state w = cs_idle" and "st \<noteq> cs_connected"
  shows "conn_ok was (set_state st w)"
proof -
  have "\<forall>x\<in>set (kw_armed w). armed_ok st x" using conn_ok_idleD [OF assms(1,2)] by (blast intro: armed_ok_wait)
  then show ?thesis using assms by (auto simp: conn_ok_def conn_is_open_def)
qed

lemma conn_ok_start:
  assumes "conn_ok was w" and "\<forall>x\<in>set (kw_armed w). \<not> is_cm x" and "conn_is_open (kw_impl w)"
    and "armed_ok (world_state w) op"
  shows "conn_ok was (reactor_start_op op w)"
proof -
  have "filter is_cm (kw_armed w) = []" using assms(2) by auto
  then show ?thesis using assms by (auto simp: conn_ok_def reactor_start_op_def)
qed

lemma conn_open_ok: "conn_ok was w \<Longrightarrow> conn_ok was (snd (conn_open api reg ds w))"
  by (auto simp: conn_open_def conn_ok_def split: prod.split)

lemma start_connect_op_ok:
  assumes law: "start_errno_law api" and ok: "conn_ok was w"
    and op: "co_stage op = st_addr_resolve"
  shows "conn_ok was (start_connect_op api ds ep op w)"
proof -
  obtain rc ec c where r: "resolve_addr api (ci_cm_id (kw_impl w)) ep (cm_timeout ds) (kw_cm w) = (rc, ec, c)"
    by (metis prod_cases3)
  have e: "rc \<noteq> 0 \<Longrightarrow> is_error ec"
    using start_wrapper_error(1) [OF law, of "ci_cm_id (kw_impl w)" ep "cm_timeout ds" "kw_cm w"] r by simp
  have o: "rc = 0 \<Longrightarrow> conn_is_open (kw_impl w)"
    using r by (auto simp: resolve_addr_def cm_guarded_def conn_is_open_def split: if_splits)
  let ?w = "w\<lparr>kw_cm := c\<rparr>"
  have "conn_ok was (reactor_start_op (Op_connect (op\<lparr>co_ec := no_error\<rparr>)) (set_state cs_addr_resolve ?w))"
    if "rc = 0" "world_state w = cs_idle"
    using ok that o op conn_ok_idleD [OF ok]
    by (intro conn_ok_start conn_ok_publish) (simp_all add: stage_matches_def)
  moreover have "conn_ok was (reactor_post ec (Op_connect op) (set_state cs_closed ?w))" if "rc \<noteq> 0"
    using ok e that by (intro conn_ok_post conn_ok_closed) simp_all
  moreover have "conn_ok was (reactor_post operation_aborted (Op_connect op) ?w)"
    using ok by (intro conn_ok_post) simp_all
  ultimately show ?thesis using r by (simp add: start_connect_op_def Let_def)
qed

lemma async_connect_ok:
  assumes law: "start_errno_law api" and ok: "conn_ok was w"
  shows "conn_ok was (async_connect api reg ds ep rq rb rc qp h w)"
proof -
  obtain ec w1 where o: "(if conn_is_open (kw_impl w) then (no_error, w) else conn_open api reg ds w) = (ec, w1)"
    by fastforce
  have "conn_ok was w1" using o ok conn_open_ok [of was w api reg ds] by (auto split: if_splits)
  then show ?thesis
    using o law
    by (auto simp: async_connect_def Let_def connect_op_new_def
        intro!: conn_ok_post start_connect_op_ok)
qed

lemma start_accept_op_ok:
  assumes law: "start_errno_law api" and ok: "conn_ok was w"
  shows "conn_ok was (start_accept_op api create_qp has_qp ds pd op w)"
proof (cases "world_state w = cs_idle")
  case False
  then show ?thesis using ok by (simp add: start_accept_op_def conn_ok_post)
next
  case True
  let ?i = "ci_cm_id (kw_impl w)"
  obtain ec1 c1 where q: "(if has_qp then create_qp ?i (kw_cm w) else (no_error, kw_cm w)) = (ec1, c1)"
    by fastforce
  obtain rc ec c2 where r: "cm_accept api ?i (accept_param ds pd) c1 = (rc, ec, c2)"
    by (metis prod_cases3)
  have e: "rc \<noteq> 0 \<Longrightarrow> is_error ec"
    using start_wrapper_error(2) [OF law, of ?i "accept_param ds pd" c1] r by simp
  have o: "rc = 0 \<Longrightarrow> conn_is_open (kw_impl w)"
    using r by (auto simp: cm_accept_def cm_guarded_def conn_is_open_def split: if_splits)
  have closed: "conn_ok was (reactor_post x (Op_accept op) (set_state cs_closed (w\<lparr>kw_cm := c\<rparr>)))"
    if "is_error x" for x c
    using ok that by (intro conn_ok_post conn_ok_closed) simp_all
  have up: "conn_ok was (reactor_start_op (Op_accept (op\<lparr>ao_ec := no_error\<rparr>))
      (w\<lparr>kw_impl := (kw_impl w)\<lparr>ci_state := cs_connecting\<rparr>, kw_cm := c2\<rparr>))" if "rc = 0"
    using ok that True o conn_ok_idleD [OF ok] conn_ok_publish [OF ok True, of cs_connecting]
    by (intro conn_ok_start) simp_all
  show ?thesis
  proof (cases "has_qp \<and> is_error ec1")
    case True
    then show ?thesis using \<open>world_state w = cs_idle\<close> q closed [of ec1 c1] by (simp add: start_accept_op_def Let_def)
  next
    case False
    then show ?thesis
      using False True q r e up closed [of ec c2] by (cases "rc = 0"; cases has_qp; simp add: start_accept_op_def Let_def)
  qed
qed

lemma accept_guard_error: "accept_guard ds impl pd = Some ec \<Longrightarrow> is_error ec"
  by (auto simp: accept_guard_def split: if_splits)

lemma async_accept_ok:
  assumes "start_errno_law api" and "conn_ok was w"
  shows "conn_ok was (async_accept api create_qp has_qp ds pd h w)"
    and "conn_ok was (async_move_accept api create_qp bind_ec ds pd h w)"
  using assms
  by (auto simp: async_accept_def async_move_accept_def Let_def split: option.split
      intro!: conn_ok_post start_accept_op_ok dest: accept_guard_error)

lemma conn_disconnect_ok: "conn_ok was w \<Longrightarrow> conn_ok was (snd (conn_disconnect api w))"
  using conn_ok_closed [of was w] conn_ok_cancel_ops [OF conn_ok_closed [of was w]]
  by (simp add: conn_disconnect_def Let_def split: connect_state.split prod.split)

lemma async_wait_disconnect_ok: "conn_ok was w \<Longrightarrow> conn_ok was (async_wait_disconnect h w)"
  by (auto simp: async_wait_disconnect_def Let_def reactor_start_op_def conn_ok_def reactor_post_def)

lemma length_filter_conj: "length (filter (\<lambda>x. P x \<and> Q x) xs) \<le> length (filter Q xs)"
  by (induction xs) auto

lemma cm_op_cancellation_ok:
  assumes "conn_ok was w"
  shows "conn_ok was (cm_op_cancellation type key w)"
proof -
  have "length (filter (\<lambda>x. cm_op_handler x \<noteq> key \<and> is_cm x) (kw_armed w)) \<le> 1"
    using assms length_filter_conj [of "\<lambda>x. cm_op_handler x \<noteq> key" is_cm "kw_armed w"]
    by (simp add: conn_ok_def)
  then show ?thesis using assms by (auto simp: cm_op_cancellation_def conn_ok_def)
qed

text \<open>Processing an event: success only by reaching \<open>connected\<close>, else the operation stays in step.\<close>

definition flow_ok :: "bool \<times> connect_op \<times> connect_state \<times> 'c \<Rightarrow> bool" where
  "flow_ok r \<longleftrightarrow>
     (case r of (fin, op, st, c) \<Rightarrow>
        if fin then is_error (co_ec op) \<or> st = cs_connected
        else st \<noteq> cs_connected \<and> stage_matches op st \<and> \<not> is_error (co_ec op))"

lemma fail_with_flow: "is_error e \<Longrightarrow> flow_ok (fail_with e op st c)"
  by (simp add: flow_ok_def fail_with_def claim_closed_def)

lemma aborted_flow: "flow_ok (aborted_by_disconnect op st c)"
  by (simp add: flow_ok_def aborted_by_disconnect_def)

lemma wrapper_success:
  "resolve_route api i t c = (0, ec, c') \<Longrightarrow> \<not> is_error ec"
  "cm_connect api i p c = (0, ec, c') \<Longrightarrow> \<not> is_error ec"
  by (auto simp: resolve_route_def cm_connect_def cm_guarded_def cm_result_def split: prod.splits if_splits)

lemma wrapper_failure:
  assumes "cm_errno_law api"
  shows "resolve_route api i t c = (rc, ec, c') \<Longrightarrow> rc \<noteq> 0 \<Longrightarrow> is_error ec"
    and "cm_connect api i p c = (rc, ec, c') \<Longrightarrow> rc \<noteq> 0 \<Longrightarrow> is_error ec"
  using wrapper_error [OF assms] by (metis fst_conv snd_conv)+

lemma connect_do_process_flow:
  assumes law: "cm_errno_law api" and ok: "stage_matches op st" "\<not> is_error (co_ec op)"
  shows "flow_ok (connect_do_process api create_qp ev op st c)"
proof -
  note fails = fail_with_flow aborted_flow event_status_ec_error
  have 1: "flow_ok (do_process_addr_resolve api create_qp ev op st c)"
    unfolding do_process_addr_resolve_def
    by (auto simp: fails advance_def stage_matches_def flow_ok_def [of "(False, _)"] split: cm_event_type.split prod.split
        dest: wrapper_success wrapper_failure [OF law])
  have 2: "flow_ok (do_process_addr_route api ev op st c)"
    unfolding do_process_addr_route_def
    by (auto simp: fails advance_def stage_matches_def flow_ok_def [of "(False, _)"] split: cm_event_type.split prod.split
        dest: wrapper_success wrapper_failure [OF law])
  have 3: "flow_ok (do_process_connect api ev op st c)"
    unfolding do_process_connect_def
    by (auto simp: fails flow_ok_def [of "(True, _)"] split: cm_event_type.split prod.split)
  show ?thesis using 1 2 3
    by (simp add: connect_do_process_def flow_ok_def [of "(True, _)"] split: connect_stage.split)
qed

lemma get_cm_event_no_error:
  "get_cm_event api ch c = (Some ev, ec, c') \<Longrightarrow> ec = no_error"
  by (auto simp: get_cm_event_def split: prod.splits sum.splits)

lemma connect_do_perform_flow:
  assumes "cm_errno_law api" and "stage_matches op st" and "st \<noteq> cs_connected"
  shows "flow_ok (connect_do_perform api create_qp op st c)"
proof -
  obtain event ec c1 where g: "get_cm_event api (co_channel op) c = (event, ec, c1)"
    by (metis prod_cases3)
  show ?thesis
  proof (cases event)
    case None
    then show ?thesis using g assms by (simp add: connect_do_perform_def flow_ok_def stage_matches_def)
  next
    case (Some ev)
    then have "ec = no_error" using g get_cm_event_no_error by metis
    then have "flow_ok (connect_do_process api create_qp ev (op\<lparr>co_ec := ec\<rparr>) st c1)"
      using assms by (intro connect_do_process_flow) (simp_all add: stage_matches_def)
    then show ?thesis using Some g \<open>ec = no_error\<close>
      by (simp add: connect_do_perform_def flow_ok_def case_prod_beta)
  qed
qed

lemma accept_do_perform_flow:
  assumes "accept_do_perform api op st c = (fin, op', st', c')" and "st = cs_connecting \<or> st = cs_closed"
  shows "if fin then is_error (ao_ec op') \<or> st' = cs_connected else st' = st"
  using assms
  by (auto simp: accept_do_perform_def accept_do_process_def accept_fail_with_def claim_closed_def
      split: prod.splits option.splits cm_event_type.splits if_splits)

lemma wait_do_perform_flow: "fst (wait_do_perform api op peer c) \<Longrightarrow> is_error (wo_ec (fst (snd (wait_do_perform api op peer c))))"
  by (simp add: wait_do_perform_def split: prod.splits option.splits cm_event_type.splits if_splits)

lemma perform_front_ok:
  assumes law: "cm_errno_law api" and ok: "conn_ok was w"
  shows "conn_ok (was \<or> world_state (perform_front api create_qp w) = cs_connected)
    (perform_front api create_qp w)"
proof (cases "kw_armed w")
  case Nil
  then show ?thesis using ok by (auto simp: perform_front_def intro: conn_ok_mono)
next
  case (Cons front ops)
  have rest: "\<forall>x\<in>set ops. \<not> is_cm x" if "is_cm front"
    using ok Cons that by (auto simp: conn_ok_def filter_empty_conv)
  show ?thesis
  proof (cases front)
    case (Op_connect op)
    obtain fin op' st c where r: "connect_do_perform api create_qp op (world_state w) (kw_cm w) = (fin, op', st, c)"
      by (metis prod_cases4)
    have "stage_matches op (world_state w)" using ok Cons Op_connect by (simp add: conn_ok_def)
    moreover from this have "world_state w \<noteq> cs_connected" by (auto simp: stage_matches_def)
    ultimately have "flow_ok (fin, op', st, c)"
      using connect_do_perform_flow [OF law, of op "world_state w" create_qp "kw_cm w"] r by simp
    moreover have "\<forall>x\<in>set ops. armed_ok st x" using rest Op_connect by (auto intro: armed_ok_wait)
    ultimately show ?thesis
      using ok Cons Op_connect r rest
      by (cases fin) (auto simp: perform_front_def conn_ok_def flow_ok_def conn_is_open_def)
  next
    case (Op_accept op)
    obtain fin op' st c where r: "accept_do_perform api op (world_state w) (kw_cm w) = (fin, op', st, c)"
      by (metis prod_cases4)
    have "world_state w = cs_connecting \<or> world_state w = cs_closed"
      using ok Cons Op_accept by (simp add: conn_ok_def)
    then have "if fin then is_error (ao_ec op') \<or> st = cs_connected else st = world_state w"
      using accept_do_perform_flow [OF r] by simp
    moreover have "\<forall>x\<in>set ops. armed_ok st x" using rest Op_accept by (auto intro: armed_ok_wait)
    ultimately show ?thesis
      using ok Cons Op_accept r rest
      by (cases fin) (auto simp: perform_front_def conn_ok_def conn_is_open_def)
  next
    case (Op_wait op)
    obtain fin op' peer c where r: "wait_do_perform api op (ci_peer_closed (kw_impl w)) (kw_cm w) = (fin, op', peer, c)"
      by (metis prod_cases4)
    have "fin \<Longrightarrow> is_error (wo_ec op')"
      using wait_do_perform_flow [of api op "ci_peer_closed (kw_impl w)" "kw_cm w"] r by simp
    then show ?thesis
      using ok Cons Op_wait r by (cases fin) (auto simp: perform_front_def conn_ok_def conn_is_open_def)
  qed
qed

lemma cm_op_do_complete_state:
  "snd (cm_op_do_complete owner op st) = st \<or> snd (cm_op_do_complete owner op st) = cs_closed"
  by (cases op) (simp_all add: connect_do_complete_def accept_do_complete_def Let_def)

lemma complete_front_ok:
  assumes "conn_ok was w"
  shows "conn_ok was (complete_front True w)"
proof (cases "kw_posted w")
  case Nil
  then show ?thesis using assms by (simp add: complete_front_def)
next
  case (Cons op ops)
  obtain u st where r: "cm_op_do_complete True op (world_state w) = (Some u, st)" "cu_ec u = cm_op_ec op"
    using cm_op_do_complete_upcall [of op "world_state w"] by (metis prod.collapse)
  have "st = world_state w \<or> st = cs_closed"
    using cm_op_do_complete_state [of True op "world_state w"] r by simp
  then have "conn_ok was (set_state st w)" using assms conn_ok_closed by auto
  then show ?thesis using r Cons assms by (auto simp: complete_front_def conn_ok_def conn_is_open_def)
qed

lemma conn_step_ok:
  assumes "conn_step api w hs w'" and "cm_errno_law api" and "start_errno_law api" and "conn_ok was w"
  shows "conn_ok (was \<or> world_state w' = cs_connected) w'"
  using assms
proof (induction rule: conn_step.induct)
  case (step_assign reg handle w ec handle' impl')
  then show ?case by (auto simp: conn_assign_def conn_ok_def conn_is_open_def split: prod.splits if_splits)
next
  case (step_perform w create_qp)
  then show ?case by (intro perform_front_ok)
qed (auto intro: conn_ok_mono conn_open_ok async_connect_ok async_accept_ok conn_disconnect_ok
    async_wait_disconnect_ok complete_front_ok cm_op_cancellation_ok)

text \<open>The states of a run, one after the other.\<close>

abbreviation conn_path :: "'c cm_api \<Rightarrow> 'c conn_world list \<Rightarrow> bool" where
  "conn_path api \<equiv> successively (\<lambda>w w'. \<exists>hs. conn_step api w hs w')"

lemma conn_path_ok:
  assumes "ws \<noteq> []" and "conn_path api ws" and "cm_errno_law api" and "start_errno_law api" and "conn_ok False (hd ws)"
  shows "conn_ok (\<exists>w\<in>set ws. world_state w = cs_connected) (last ws)"
  using assms(1,2,5)
proof (induction ws rule: rev_nonempty_induct)
  case (single w)
  then show ?case by (auto intro: conn_ok_mono)
next
  case (snoc w ws)
  then obtain hs where step: "conn_step api (last ws) hs w" and path: "conn_path api ws"
    by (auto simp: successively_append_iff)
  have "conn_ok ((\<exists>w\<in>set ws. world_state w = cs_connected) \<or> world_state w = cs_connected) w"
    by (rule conn_step_ok [OF step assms(3,4) snoc.IH [OF path]]) (use snoc in simp)
  then show ?case by (simp add: disj_commute)
qed

lemma conn_run_path:
  assumes "conn_run api w hs w'"
  shows "\<exists>ws. ws \<noteq> [] \<and> hd ws = w \<and> last ws = w' \<and> conn_path api ws"
  using assms
proof (induction rule: labelled_run.induct)
  case (run_refl w)
  show ?case by (intro exI [of _ "[w]"]) simp
next
  case (run_step w hs w' hs' w'')
  then obtain ws where "ws \<noteq> []" "hd ws = w" "last ws = w'" "conn_path api ws" by blast
  with run_step.hyps(2) show ?case
    by (intro exI [of _ "ws @ [w'']"]) (auto simp: successively_append_iff)
qed

text \<open>
  C9. When a handler of a connect, accept or wait operation is invoked without an error, the
  connector was \<open>connected\<close> in one of the states the run went through: no path through a failed rdma_cm call, an
  unexpected event, a cancellation or a \<open>disconnect()\<close> reports success. (The connector starts with
  nothing in flight; rdma_cm sets \<open>errno\<close> when a call fails.)
\<close>

theorem success_means_established:
  assumes "ws \<noteq> []" and "conn_path api ws" and "cm_errno_law api" and "start_errno_law api"
    and "kw_armed (hd ws) = [] \<and> kw_posted (hd ws) = [] \<and> kw_upcalls (hd ws) = [] \<and> world_state (hd ws) \<noteq> cs_connected"
    and "u \<in> set (kw_upcalls (last ws))" and "\<not> is_error (cu_ec u)"
  shows "\<exists>w\<in>set ws. world_state w = cs_connected"
proof -
  have "conn_ok False (hd ws)" using assms(5) by (simp add: conn_ok_def)
  from conn_path_ok [OF assms(1-4) this] assms(6,7) show ?thesis by (auto simp: conn_ok_def)
qed

subsection \<open>A connect ends\<close>

text \<open>The operation on a sequence of events, until it is done; each event is acknowledged.\<close>

fun feed_connect ::
  "'c cm_api \<Rightarrow> 'c create_qp_cb \<Rightarrow> cm_event list \<Rightarrow> connect_op \<Rightarrow> connect_state \<Rightarrow> 'c
   \<Rightarrow> bool \<times> connect_op \<times> connect_state \<times> 'c" where
  "feed_connect api create_qp [] op st c = (False, op, st, c)"
| "feed_connect api create_qp (ev # evs) op st c =
     (case connect_do_process api create_qp ev op st c of
        (fin, op', st', c') \<Rightarrow>
          if fin then (True, op', st', cma_ack_event api c' ev)
          else feed_connect api create_qp evs op' st' (cma_ack_event api c' ev))"

definition connect_ended :: "bool \<times> connect_op \<times> connect_state \<times> 'c \<Rightarrow> bool" where
  "connect_ended r \<longleftrightarrow>
     (case r of (fin, op, st, c) \<Rightarrow> fin \<and> (st = cs_connected \<or> st = cs_closed \<and> is_error (co_ec op)))"

lemma feed_connect_ends:
  assumes "disc_law disc api" "cm_errno_law api" "qp_cb_law disc create_qp"
    and "stage_matches op st" "\<not> is_error (co_ec op)" "co_cm_id op \<noteq> nullptr"
    and "stage_rank (co_stage op) < length evs"
  shows "connect_ended (feed_connect api create_qp evs op st c)"
  using assms(4-)
proof (induction evs arbitrary: op st c)
  case (Cons ev evs)
  obtain fin op' st' c' where r: "connect_do_process api create_qp ev op st c = (fin, op', st', c')"
    by (metis prod_cases4)
  have out: "connect_outcome disc ev op st c (fin, op', st', c')"
    using connect_do_process_outcome [OF assms(1-3) Cons.prems(1-3), of ev c] r by simp
  show ?case
  proof (cases fin)
    case True
    then show ?thesis using r out by (auto simp: connect_outcome_def connect_ended_def split: if_splits)
  next
    case False
    then have "connect_ended (feed_connect api create_qp evs op' st' (cma_ack_event api c' ev))"
      using out Cons.prems by (intro Cons.IH) (auto simp: connect_outcome_def)
    then show ?thesis using r False by simp
  qed
qed simp

text \<open>
  C10. A connect operation ends after at most three events, whichever they are: processing any
  sequence of three events from the first stage finishes, with the connector \<open>connected\<close>, or \<open>closed\<close>
  and an error for the handler.
\<close>

theorem connect_ends_within_three_events:
  assumes "disc_law disc api" and "cm_errno_law api" and "qp_cb_law disc create_qp"
    and "cm_id \<noteq> nullptr" and "st = cs_addr_resolve \<or> st = cs_closed" and "length evs = 3"
  shows "connect_ended (feed_connect api create_qp evs
    (connect_op_new no_error cm_id channel timeout request reply_buf reply_cap responder depth rnr timer qp h) st c)"
  by (rule feed_connect_ends [OF assms(1-3)])
    (use assms(4-) in \<open>auto simp: connect_op_new_def stage_matches_def stage_rank_def\<close>)

subsection \<open>A disconnect settles everything\<close>

lemma complete_all_posted:
  assumes "kw_armed w = []"
  shows "kw_armed ((complete_front True ^^ length (kw_posted w)) w) = [] \<and>
    kw_posted ((complete_front True ^^ length (kw_posted w)) w) = []"
  using assms
proof (induction "length (kw_posted w)" arbitrary: w)
  case (Suc n)
  then obtain op ops where p: "kw_posted w = op # ops" "length ops = n" by (cases "kw_posted w") auto
  let ?w = "complete_front True w"
  have "kw_posted ?w = ops" "kw_armed ?w = []"
    using p Suc.prems by (simp_all add: complete_front_def split: prod.split)
  then show ?case using Suc.hyps(1) [of ?w] p by (simp add: funpow_Suc_right del: funpow.simps)
qed simp

lemma complete_all_handlers:
  "owed ((complete_front True ^^ n) w) + invoked ((complete_front True ^^ n) w) = owed w + invoked w"
  by (induction n) (simp_all add: complete_front_handlers)

text \<open>
  C11. \<open>disconnect()\<close> on a connector with a connect or accept in flight, or connected, leaves no
  operation armed; once the scheduler has run the posted completions, every handler passed in before
  was invoked, exactly once, and each operation that was armed reported \<open>operation_aborted\<close>.
\<close>

theorem disconnect_settles:
  assumes "conn_is_open (kw_impl w)" and "ci_channel (kw_impl w) \<noteq> nullptr"
    and "world_state w \<noteq> cs_idle" and "world_state w \<noteq> cs_closed"
    and "w1 = snd (conn_disconnect api w)"
    and "w2 = (complete_front True ^^ length (kw_posted w1)) w1"
  shows "kw_armed w1 = [] \<and> kw_posted w1 = kw_posted w @ map (set_ec operation_aborted) (kw_armed w) \<and>
    owed w2 = {#} \<and> invoked w2 = owed w + invoked w"
proof -
  have w1: "kw_armed w1 = []" "kw_posted w1 = kw_posted w @ map (set_ec operation_aborted) (kw_armed w)"
    using assms(1-4) unfolding assms(5)
    by (cases "world_state w"; simp add: conn_disconnect_def Let_def reactor_cancel_ops_def split: prod.split)+
  have "owed w2 = {#}"
    using complete_all_posted [OF w1(1)] assms(6) by (simp add: owed_def)
  moreover have "owed w2 + invoked w2 = owed w + invoked w"
    using complete_all_handlers [of "length (kw_posted w1)" w1] assms(5,6) conn_disconnect_handlers [of api w]
    by simp
  ultimately show ?thesis using w1 by simp
qed

subsection \<open>A run on the example\<close>

definition sim_endpoint :: endpoint where
  "sim_endpoint = (SA_in 167772161, 4791)"

definition sim_connect_run :: "cm_event_type list \<Rightarrow> nat \<Rightarrow> cm_sim conn_world" where
  "sim_connect_run ts n =
     (perform_front sim_cm_api sim_create_qp ^^ n)
       (async_connect sim_cm_api (\<lambda>ch. 0) sim_device_service sim_endpoint [1, 2, 3] True 8 True 7 (sim_world ts))"

lemma perform_run: "conn_run api w hs w' \<Longrightarrow> conn_run api w hs ((perform_front api create_qp ^^ n) w')"
proof (induction n)
  case (Suc n)
  from run_step [OF Suc.IH [OF Suc.prems] step_perform] show ?case by simp
qed simp

lemma sim_connect_run: "conn_run sim_cm_api (sim_world ts) {#7#} (sim_connect_run ts n)"
  unfolding sim_connect_run_def
  by (intro perform_run run_one step_connect)

lemma sim_start_errno_law: "start_errno_law sim_cm_api"
  by (simp add: start_errno_law_def sim_cm_api_def)

abbreviation (input) sim_steps :: "cm_event_type list" where
  "sim_steps \<equiv> [RDMA_CM_EVENT_ADDR_RESOLVED, RDMA_CM_EVENT_ROUTE_RESOLVED, RDMA_CM_EVENT_ESTABLISHED]"

lemma sim_connected:
  "world_state (sim_connect_run sim_steps 3) = cs_connected"
  "conn_is_open (kw_impl (sim_connect_run sim_steps 3))"
  "world_state (sim_connect_run sim_steps 1) = cs_addr_route"
  "conn_is_open (kw_impl (sim_connect_run sim_steps 1))"
  "ci_channel (kw_impl (sim_connect_run sim_steps 1)) \<noteq> nullptr"
  by code_simp+

lemma sim_completed_run:
  "conn_run sim_cm_api (sim_world ts) {#7#} (complete_front True (sim_connect_run ts n))"
  using run_step [OF sim_connect_run step_complete] by simp

lemma sim_completed:
  "kw_armed (complete_front True (sim_connect_run sim_steps 3)) = []"
  "kw_posted (complete_front True (sim_connect_run sim_steps 3)) = []"
  "map cu_ec (kw_upcalls (complete_front True (sim_connect_run sim_steps 3))) = [no_error]"
  by code_simp+

lemma sim_world_idle:
  "kw_armed (sim_world ts) = []" "kw_posted (sim_world ts) = []" "kw_upcalls (sim_world ts) = []"
  "world_state (sim_world ts) = cs_idle" "owed (sim_world ts) = {#}" "invoked (sim_world ts) = {#}"
  by (simp_all add: sim_world_def connector_construct_def owed_def invoked_def)

theorem control_handlers_exactly_once_witness:
  "invoked (complete_front True (sim_connect_run sim_steps 3)) = {#7#}"
  using control_handlers_exactly_once [OF sim_completed_run [of sim_steps 3]] sim_world_idle sim_completed
  by simp

theorem connect_state_monotone_witness:
  "state_rank cs_addr_route \<le>
     state_rank (world_state ((perform_front sim_cm_api sim_create_qp ^^ 2) (sim_connect_run sim_steps 1)))"
  using connect_state_monotone [OF perform_run [OF run_refl, where n = 2 and create_qp = sim_create_qp and
      api = sim_cm_api and w = "sim_connect_run sim_steps 1"]] sim_connected by simp

theorem success_means_established_witness:
  "\<exists>ws. hd ws = sim_world sim_steps \<and> last ws = complete_front True (sim_connect_run sim_steps 3) \<and>
     conn_path sim_cm_api ws \<and> (\<exists>w\<in>set ws. world_state w = cs_connected)"
proof -
  obtain u where u: "u \<in> set (kw_upcalls (complete_front True (sim_connect_run sim_steps 3)))" "cu_ec u = no_error"
    using sim_completed(3) by (cases "kw_upcalls (complete_front True (sim_connect_run sim_steps 3))") auto
  obtain ws where ws: "ws \<noteq> []" "hd ws = sim_world sim_steps"
    "last ws = complete_front True (sim_connect_run sim_steps 3)" "conn_path sim_cm_api ws"
    using conn_run_path [OF sim_completed_run [of sim_steps 3]] by blast
  have "\<exists>w\<in>set ws. world_state w = cs_connected"
    using success_means_established [OF ws(1,4) sim_cm_errno_law sim_start_errno_law, unfolded ws(2,3), OF _ u(1)]
      u(2) sim_world_idle by simp
  then show ?thesis using ws by blast
qed

theorem connect_ends_within_three_events_witness:
  "connect_ended (feed_connect sim_cm_api sim_create_qp
     (map sim_event [RDMA_CM_EVENT_ADDR_RESOLVED, RDMA_CM_EVENT_ROUTE_RESOLVED, RDMA_CM_EVENT_REJECTED])
     (connect_op_new no_error 17 16 2000 [] False 0 1 1 7 12 True 5) cs_addr_resolve (sim_start []))"
  by (rule connect_ends_within_three_events [OF sim_disc_law sim_cm_errno_law sim_qp_cb_law]) simp_all

theorem disconnect_settles_witness:
  "kw_armed (snd (conn_disconnect sim_cm_api (sim_connect_run sim_steps 1))) = []"
  by (rule disconnect_settles [OF sim_connected(4,5) _ _ refl refl, THEN conjunct1])
    (simp_all only: sim_connected(3) connect_state.distinct not_False_eq_True)

subsection \<open>A watcher in front of a connect\<close>

text \<open>
  A disconnect watcher armed before the connect sits in front of it in the reactor's queue and
  consumes its events: an \<open>ESTABLISHED\<close> event is taken from the channel, acknowledged and dropped; the
  connect operation behind it and the state of the connector do not change.
\<close>

theorem watcher_swallows_established:
  assumes "kw_armed w = Op_wait wo # Op_connect co # ops"
    and "get_cm_event api (wo_channel wo) (kw_cm w) = (Some ev, no_error, c1)"
    and "ev_type ev = RDMA_CM_EVENT_ESTABLISHED"
  shows "kw_cm (perform_front api create_qp w) = cma_ack_event api c1 ev \<and>
    kw_armed (perform_front api create_qp w) = Op_wait (wo\<lparr>wo_ec := no_error\<rparr>) # Op_connect co # ops \<and>
    kw_posted (perform_front api create_qp w) = kw_posted w \<and>
    world_state (perform_front api create_qp w) = world_state w"
  using assms by (simp add: perform_front_def wait_do_perform_def)

definition sim_watched :: "cm_sim conn_world" where
  "sim_watched =
     async_connect sim_cm_api (\<lambda>ch. 0) sim_device_service sim_endpoint [] False 0 True 8
       (async_wait_disconnect 7
         (snd (conn_open sim_cm_api (\<lambda>ch. 0) sim_device_service (sim_world [RDMA_CM_EVENT_ESTABLISHED]))))"

lemma sim_watched_armed:
  "\<exists>wo co. kw_armed sim_watched = [Op_wait wo, Op_connect co]"
proof -
  have "map is_cm (kw_armed sim_watched) = [False, True]"
    "(case kw_armed sim_watched of [_, Op_connect _] \<Rightarrow> True | _ \<Rightarrow> False)" by code_simp+
  then show ?thesis by (auto split: list.splits cm_op.splits elim!: is_cm.elims)
qed

lemma sim_watched_events: "sim_events (kw_cm sim_watched) = [sim_event RDMA_CM_EVENT_ESTABLISHED]"
  by code_simp

theorem watcher_swallows_established_witness:
  "sim_events (kw_cm (perform_front sim_cm_api sim_create_qp sim_watched)) = []"
proof -
  obtain wo co where armed: "kw_armed sim_watched = [Op_wait wo, Op_connect co]"
    using sim_watched_armed by blast
  have "get_cm_event sim_cm_api (wo_channel wo) (kw_cm sim_watched) =
      (Some (sim_event RDMA_CM_EVENT_ESTABLISHED), no_error, (kw_cm sim_watched)\<lparr>sim_events := []\<rparr>)"
    using sim_watched_events by (simp add: get_cm_event_def sim_cm_api_def sim_get_event_def)
  from watcher_swallows_established [OF armed this, of sim_create_qp] show ?thesis
    by (simp add: sim_event_def sim_cm_api_def)
qed

end
