(* ===== verification/IBV_Connector_Resources.thy ===== *)
theory IBV_Connector_Resources
  imports IBV_CM_Example
begin

text \<open>
  What a connector owns: \<open>open\<close> takes a channel and an id or nothing, \<open>close_for_destruction\<close> drains
  the channel, gives both back and leaves every armed operation to the scheduler. rdma_cm's channels
  and ids are counted by \<open>live\<close>; \<open>cm_queue\<close> is the events waiting on a channel.
\<close>

text \<open>
  Documented behaviour: creating returns a fresh object or sets \<open>errno\<close>, destroying removes it, the
  other calls create and destroy nothing.
\<close>

definition created :: "('c \<Rightarrow> ptr set) \<Rightarrow> 'c \<Rightarrow> bool \<Rightarrow> int \<Rightarrow> ptr \<Rightarrow> 'c \<Rightarrow> bool" where
  "created live c ok errno p c' \<longleftrightarrow>
     (if ok then p \<noteq> nullptr \<and> p \<notin> live c \<and> live c' = insert p (live c)
      else errno \<noteq> 0 \<and> live c' = live c)"

text \<open>What concerns event channels alone.\<close>

definition channel_law :: "('c \<Rightarrow> ptr set) \<Rightarrow> 'c cm_api \<Rightarrow> bool" where
  "channel_law live api \<longleftrightarrow>
     (\<forall>c p e c'. cma_event_channel api c = (p, e, c') \<longrightarrow> created live c (p \<noteq> nullptr) e p c') \<and>
     (\<forall>c fd rc e c'. cma_fcntl_get api c fd = (rc, e, c') \<longrightarrow> live c' = live c \<and> (rc = - 1 \<longrightarrow> e \<noteq> 0)) \<and>
     (\<forall>c fd v rc e c'. cma_fcntl_set api c fd v = (rc, e, c') \<longrightarrow> live c' = live c \<and> (rc = - 1 \<longrightarrow> e \<noteq> 0)) \<and>
     (\<forall>c p. live (cma_destroy_channel api c p) = live c - {p})"

lemma channel_lawD:
  assumes "channel_law live api"
  shows "cma_event_channel api c = (p, e, c') \<Longrightarrow> created live c (p \<noteq> nullptr) e p c'"
    and "cma_fcntl_get api c fd = (rc, e, c') \<Longrightarrow> live c' = live c \<and> (rc = - 1 \<longrightarrow> e \<noteq> 0)"
    and "cma_fcntl_set api c fd v = (rc, e, c') \<Longrightarrow> live c' = live c \<and> (rc = - 1 \<longrightarrow> e \<noteq> 0)"
    and "live (cma_destroy_channel api c p) = live c - {p}"
  using assms by (simp_all add: channel_law_def)

definition resource_law :: "('c \<Rightarrow> ptr set) \<Rightarrow> 'c cm_api \<Rightarrow> bool" where
  "resource_law live api \<longleftrightarrow>
     (\<forall>c p e c'. cma_event_channel api c = (p, e, c') \<longrightarrow> created live c (p \<noteq> nullptr) e p c') \<and>
     (\<forall>c ch rc e p c'. cma_create_id api c ch = (rc, e, p, c') \<longrightarrow> created live c (rc = 0) e p c') \<and>
     (\<forall>c fd rc e c'. cma_fcntl_get api c fd = (rc, e, c') \<longrightarrow> live c' = live c \<and> (rc = - 1 \<longrightarrow> e \<noteq> 0)) \<and>
     (\<forall>c fd v rc e c'. cma_fcntl_set api c fd v = (rc, e, c') \<longrightarrow> live c' = live c \<and> (rc = - 1 \<longrightarrow> e \<noteq> 0)) \<and>
     (\<forall>c p. live (cma_destroy_channel api c p) = live c - {p}) \<and>
     (\<forall>c p. live (cma_destroy_id api c p) = live c - {p}) \<and>
     (\<forall>c p. live (cma_destroy_qp api c p) = live c) \<and>
     (\<forall>c p. live (snd (snd (cma_disconnect api c p))) = live c) \<and>
     (\<forall>c ch. live (snd (cma_get_event api c ch)) = live c) \<and>
     (\<forall>c ev. live (cma_ack_event api c ev) = live c)"

lemmas resource_lawD =
  resource_law_def [THEN iffD1, THEN conjunct1, rule_format]
  resource_law_def [THEN iffD1, THEN conjunct2, THEN conjunct1, rule_format]
  resource_law_def [THEN iffD1, THEN conjunct2, THEN conjunct2, THEN conjunct1, rule_format]
  resource_law_def [THEN iffD1, THEN conjunct2, THEN conjunct2, THEN conjunct2, THEN conjunct1, rule_format]
  resource_law_def [THEN iffD1, THEN conjunct2, THEN conjunct2, THEN conjunct2, THEN conjunct2, THEN conjunct1, rule_format]
  resource_law_def [THEN iffD1, THEN conjunct2, THEN conjunct2, THEN conjunct2, THEN conjunct2, THEN conjunct2, THEN conjunct1, rule_format]
  resource_law_def [THEN iffD1, THEN conjunct2, THEN conjunct2, THEN conjunct2, THEN conjunct2, THEN conjunct2, THEN conjunct2, THEN conjunct1, rule_format]
  resource_law_def [THEN iffD1, THEN conjunct2, THEN conjunct2, THEN conjunct2, THEN conjunct2, THEN conjunct2, THEN conjunct2, THEN conjunct2, THEN conjunct1, rule_format]
  resource_law_def [THEN iffD1, THEN conjunct2, THEN conjunct2, THEN conjunct2, THEN conjunct2, THEN conjunct2, THEN conjunct2, THEN conjunct2, THEN conjunct2, THEN conjunct1, rule_format]
  resource_law_def [THEN iffD1, THEN conjunct2, THEN conjunct2, THEN conjunct2, THEN conjunct2, THEN conjunct2, THEN conjunct2, THEN conjunct2, THEN conjunct2, THEN conjunct2, rule_format]

subsection \<open>Opening\<close>

lemma create_event_channel_owned:
  assumes law: "channel_law live api" and r: "create_event_channel api c = (channel, ec, c')"
  shows "if is_error ec then channel = nullptr \<and> live c' = live c
    else channel \<noteq> nullptr \<and> channel \<notin> live c \<and> live c' = insert channel (live c)"
proof -
  note L = channel_lawD [OF law]
  obtain p e c1 where p: "cma_event_channel api c = (p, e, c1)" by (metis prod_cases3)
  obtain opt e1 c2 where g: "cma_fcntl_get api c1 p = (opt, e1, c2)" by (metis prod_cases3)
  obtain rc e2 c3 where s: "cma_fcntl_set api c2 p (opt OR 2048) = (rc, e2, c3)" by (metis prod_cases3)
  from L(1) [OF p] L(2) [OF g] L(3) [OF s] r show ?thesis
    by (auto simp: create_event_channel_def set_nonblocking_def p g s created_def L(4) split: if_splits)
qed

lemma resource_law_channel: "resource_law live api \<Longrightarrow> channel_law live api"
  unfolding resource_law_def channel_law_def by (elim conjE) (intro conjI)

lemmas create_event_channel_created = create_event_channel_owned [OF resource_law_channel]

definition owns :: "connector_impl \<Rightarrow> ptr \<Rightarrow> ptr \<Rightarrow> bool" where
  "owns impl channel cm_id \<longleftrightarrow> impl = \<lparr>ci_channel = channel, ci_cm_id = cm_id, ci_registered = True,
     ci_state = cs_idle, ci_peer_closed = False\<rparr> \<and> channel \<noteq> nullptr \<and> cm_id \<noteq> nullptr \<and> channel \<noteq> cm_id"

definition open_outcome :: "('c \<Rightarrow> ptr set) \<Rightarrow> 'c conn_world \<Rightarrow> error_code \<Rightarrow> 'c conn_world \<Rightarrow> bool" where
  "open_outcome live w ec w' \<longleftrightarrow>
     kw_armed w' = kw_armed w \<and> kw_posted w' = kw_posted w \<and> kw_fault w' = kw_fault w \<and>
     (if is_error ec then kw_impl w' = kw_impl w \<and> live (kw_cm w') = live (kw_cm w)
      else \<exists>channel cm_id. owns (kw_impl w') channel cm_id \<and> channel \<notin> live (kw_cm w) \<and>
        cm_id \<notin> live (kw_cm w) \<and> live (kw_cm w') = {channel, cm_id} \<union> live (kw_cm w))"

lemma conn_open_outcome:
  assumes law: "resource_law live api" and r: "conn_open api reg ds w = (ec, w')"
  shows "open_outcome live w ec w'"
proof -
  note L = resource_lawD [OF law]
  obtain ch ec1 c1 where p: "create_event_channel api (kw_cm w) = (ch, ec1, c1)" by (metis prod_cases3)
  obtain rc e i c2 where q: "cma_create_id api c1 ch = (rc, e, i, c2)" by (metis prod_cases4)
  note C = create_event_channel_created [OF law p] and D = L(2) [OF q]
  show ?thesis
  proof (cases "conn_is_open (kw_impl w) \<or> \<not> ds_registered ds \<or> is_error ec1")
    case True
    then have "is_error ec" "w' = w \<or> is_error ec1 \<and> w' = w\<lparr>kw_cm := c1\<rparr>"
      using r p by (auto simp: conn_open_def split: if_splits)
    then show ?thesis using C by (auto simp: open_outcome_def)
  next
    case False
    then have run: "conn_open api reg ds w =
        (if rc \<noteq> 0 then (last_system_error e, w\<lparr>kw_cm := cma_destroy_channel api c2 ch\<rparr>)
         else if reg ch \<noteq> 0 then (make_system_error_code (reg ch),
           w\<lparr>kw_cm := cma_destroy_channel api (cma_destroy_id api c2 i) ch\<rparr>)
         else (no_error, w\<lparr>kw_cm := c2, kw_impl := \<lparr>ci_channel = ch, ci_cm_id = i, ci_registered = True,
                     ci_state = cs_idle, ci_peer_closed = False\<rparr>\<rparr>))"
      using p q C by (simp add: conn_open_def create_cm_id_def)
    show ?thesis
      using False r C D unfolding run
      by (cases "rc = 0"; cases "reg ch = 0") (auto simp: open_outcome_def created_def owns_def L(5,6))
  qed
qed

text \<open>
  \<open>open()\<close> of a connector is all or nothing: on every failure (already open, no device,
  channel, non-blocking mode, id, registration) the connector is unchanged and no channel or id stays
  behind; on success it owns a new channel and a new id, is registered, \<open>idle\<close> and not peer-closed.
\<close>

theorem conn_open_all_or_nothing:
  assumes "resource_law live api" and "conn_open api reg ds w = (ec, w')"
  shows "open_outcome live w ec w'"
  by (rule conn_open_outcome [OF assms])

subsection \<open>Draining\<close>

text \<open>While the channel is drained no new event arrives on it.\<close>

definition event_law :: "('c \<Rightarrow> ptr \<Rightarrow> cm_event list) \<Rightarrow> 'c cm_api \<Rightarrow> bool" where
  "event_law cm_queue api \<longleftrightarrow>
     (\<forall>c ch. case cm_queue c ch of
        [] \<Rightarrow> (\<exists>e c'. cma_get_event api c ch = (Inl e, c') \<and> cm_queue c' ch = [])
      | ev # evs \<Rightarrow> (\<exists>c'. cma_get_event api c ch = (Inr ev, c') \<and> cm_queue c' ch = evs)) \<and>
     (\<forall>c ch ev. cm_queue (cma_ack_event api c ev) ch = cm_queue c ch) \<and>
     (\<forall>c ch i. cm_queue (snd (snd (cma_disconnect api c i))) ch = cm_queue c ch)"

lemma event_lawD:
  assumes "event_law cm_queue api"
  shows "cm_queue c ch = [] \<Longrightarrow> \<exists>e c'. cma_get_event api c ch = (Inl e, c') \<and> cm_queue c' ch = []"
    and "cm_queue c ch = ev # evs \<Longrightarrow> \<exists>c'. cma_get_event api c ch = (Inr ev, c') \<and> cm_queue c' ch = evs"
    and "cm_queue (cma_ack_event api c ev) ch = cm_queue c ch"
    and "cm_queue (snd (snd (cma_disconnect api c i))) ch = cm_queue c ch"
proof -
  have "case cm_queue c ch of
        [] \<Rightarrow> (\<exists>e c'. cma_get_event api c ch = (Inl e, c') \<and> cm_queue c' ch = [])
      | ev # evs \<Rightarrow> (\<exists>c'. cma_get_event api c ch = (Inr ev, c') \<and> cm_queue c' ch = evs)"
    using assms by (simp add: event_law_def)
  then show "cm_queue c ch = [] \<Longrightarrow> \<exists>e c'. cma_get_event api c ch = (Inl e, c') \<and> cm_queue c' ch = []"
    "cm_queue c ch = ev # evs \<Longrightarrow> \<exists>c'. cma_get_event api c ch = (Inr ev, c') \<and> cm_queue c' ch = evs"
    by simp_all
qed (use assms in \<open>simp_all add: event_law_def\<close>)

definition is_established :: "cm_event \<Rightarrow> bool" where
  "is_established ev \<longleftrightarrow> ev_type ev = RDMA_CM_EVENT_ESTABLISHED"

definition drained ::
  "('c \<Rightarrow> ptr set) \<Rightarrow> ('c \<Rightarrow> ptr \<Rightarrow> cm_event list) \<Rightarrow> ('c \<Rightarrow> nat) \<Rightarrow> ptr \<Rightarrow> 'c \<Rightarrow> 'c \<Rightarrow> bool" where
  "drained live cm_queue disc ch c c' \<longleftrightarrow>
     live c' = live c \<and> cm_queue c' ch = [] \<and>
     disc c' = disc c + length (filter is_established (cm_queue c ch))"

lemma drain_loop_drains:
  assumes R: "resource_law live api" and E: "event_law cm_queue api" and D: "disc_law disc api"
    and id: "cm_id \<noteq> nullptr"
  shows "\<exists>c'. drain_loop api ch cm_id c = Some c' \<and> drained live cm_queue disc ch c c'"
proof (induction "cm_queue c ch" arbitrary: c)
  case Nil
  then obtain e c' where g: "cma_get_event api c ch = (Inl e, c')" "cm_queue c' ch = []"
    using event_lawD(1) [OF E, of c ch] by auto
  have "live c' = live c" "disc c' = disc c"
    using resource_lawD(9) [OF R, of c ch] disc_lawD(5) [OF D, of c ch] g by simp_all
  then show ?case using g Nil by (subst drain_loop.simps) (simp add: get_cm_event_def drained_def)
next
  case (Cons ev evs)
  obtain c1 where g: "cma_get_event api c ch = (Inr ev, c1)" "cm_queue c1 ch = evs"
    using event_lawD(2) [OF E] Cons.hyps(2) [symmetric] by blast
  have g': "live c1 = live c" "disc c1 = disc c"
    using resource_lawD(9) [OF R, of c ch] disc_lawD(5) [OF D, of c ch] g by simp_all
  let ?c2 = "if is_established ev then snd (snd (cm_disconnect api cm_id c1)) else c1"
  let ?c3 = "cma_ack_event api ?c2 ev"
  have snd_eq: "snd (snd (cm_disconnect api cm_id c1)) = snd (snd (cma_disconnect api c1 cm_id))"
    using id by (simp add: cm_disconnect_def cm_guarded_def cm_result_def split: prod.split)
  have 3: "cm_queue ?c3 ch = evs" "live ?c3 = live c"
    "disc ?c3 = disc c + (if is_established ev then 1 else 0)"
    using g g' by (simp_all add: event_lawD(3,4) [OF E] resource_lawD(8,10) [OF R] disc_lawD(1,6) [OF D] snd_eq)
  from Cons.hyps(1) [of ?c3] 3(1) obtain c' where
    c': "drain_loop api ch cm_id ?c3 = Some c'" "drained live cm_queue disc ch ?c3 c'" by blast
  have "drain_loop api ch cm_id c = drain_loop api ch cm_id ?c3"
    using g id by (subst drain_loop.simps) (simp add: get_cm_event_def is_established_def Let_def)
  then show ?case using c' 3 Cons.hyps(2) [symmetric] by (auto simp: drained_def)
qed

subsection \<open>Closing\<close>

definition closed_outcome ::
  "('c \<Rightarrow> ptr set) \<Rightarrow> ('c \<Rightarrow> ptr \<Rightarrow> cm_event list) \<Rightarrow> ('c \<Rightarrow> nat) \<Rightarrow> 'c conn_world \<Rightarrow> 'c conn_world \<Rightarrow> bool" where
  "closed_outcome live cm_queue disc w w' \<longleftrightarrow>
     (let ch = ci_channel (kw_impl w) in
      \<not> conn_is_open (kw_impl w') \<and> ci_channel (kw_impl w') = nullptr \<and> \<not> ci_registered (kw_impl w') \<and>
      live (kw_cm w') = live (kw_cm w) - {ch, ci_cm_id (kw_impl w)} \<and>
      kw_armed w' = [] \<and>
      kw_posted w' = kw_posted w @ map (set_ec operation_aborted) (kw_armed w) \<and>
      disc (kw_cm w') = disc (kw_cm w) + length (filter is_established (cm_queue (kw_cm w) ch)))"

text \<open>Destroying the queue pair, the id and the channel makes no \<open>rdma_disconnect\<close> call.\<close>

definition destroy_disc_law :: "('c \<Rightarrow> nat) \<Rightarrow> 'c cm_api \<Rightarrow> bool" where
  "destroy_disc_law disc api \<longleftrightarrow>
     (\<forall>c p. disc (cma_destroy_qp api c p) = disc c \<and> disc (cma_destroy_id api c p) = disc c \<and>
        disc (cma_destroy_channel api c p) = disc c)"

lemma close_for_destruction_outcome:
  assumes R: "resource_law live api" and E: "event_law cm_queue api"
    and D: "disc_law disc api" "destroy_disc_law disc api"
    and w: "ci_channel (kw_impl w) \<noteq> nullptr" "ci_cm_id (kw_impl w) \<noteq> nullptr"
  shows "\<exists>w'. close_for_destruction api w = Some w' \<and> closed_outcome live cm_queue disc w w'"
proof -
  let ?ch = "ci_channel (kw_impl w)" and ?id = "ci_cm_id (kw_impl w)"
  have keep: "kw_cm (reactor_cancel_ops w) = kw_cm w"
    "kw_armed (reactor_cancel_ops w) = []"
    "kw_posted (reactor_cancel_ops w) = kw_posted w @ map (set_ec operation_aborted) (kw_armed w)"
    by (simp_all add: reactor_cancel_ops_def)
  obtain c where c: "drain_loop api ?ch ?id (kw_cm w) = Some c"
    "drained live cm_queue disc ?ch (kw_cm w) c"
    using drain_loop_drains [OF R E D(1) w(2)] by blast
  define c1 where "c1 = (if cma_id_qp api c ?id \<noteq> nullptr then cma_destroy_qp api c ?id else c)"
  have c1: "live c1 = live c" "disc c1 = disc c"
    using D(2) by (simp_all add: c1_def resource_lawD(7) [OF R] destroy_disc_law_def)
  have run: "close_for_destruction api w = Some ((reactor_cancel_ops w)\<lparr>
      kw_cm := cma_destroy_channel api (cma_destroy_id api c1 ?id) ?ch,
      kw_impl := (kw_impl w)\<lparr>ci_channel := nullptr, ci_cm_id := nullptr, ci_registered := False\<rparr>\<rparr>)"
    using w c(1) by (simp add: close_for_destruction_def drain_cm_events_def keep c1_def Let_def)
  show ?thesis unfolding run
    using c(2) c1 D(2) by (auto simp: closed_outcome_def conn_is_open_def keep drained_def Let_def
        resource_lawD(5,6) [OF R] destroy_disc_law_def)
qed

text \<open>
  C36. Destroying an open connector returns (the drain ends), releases its id and its channel and
  nothing else, leaves no operation armed (those armed are posted with \<open>operation_aborted\<close>) and calls
  \<open>rdma_disconnect\<close> once for each \<open>ESTABLISHED\<close> event it finds on the channel, so that a connection
  which came up behind a cancelled operation is torn down.
\<close>

theorem close_releases:
  assumes "resource_law live api" and "event_law cm_queue api"
    and "disc_law disc api" and "destroy_disc_law disc api"
    and "ci_channel (kw_impl w) \<noteq> nullptr" and "ci_cm_id (kw_impl w) \<noteq> nullptr"
  shows "\<exists>w'. close_for_destruction api w = Some w' \<and> closed_outcome live cm_queue disc w w'"
  by (rule close_for_destruction_outcome [OF assms])

text \<open>
  Opening a connector and destroying it again gives back exactly the channels and ids there
  were before.
\<close>

theorem open_close_roundtrip:
  assumes "resource_law live api" and "event_law cm_queue api"
    and "disc_law disc api" and "destroy_disc_law disc api"
    and "conn_open api reg ds w = (ec, w1)" and "\<not> is_error ec"
  shows "\<exists>w2. close_for_destruction api w1 = Some w2 \<and> live (kw_cm w2) = live (kw_cm w)"
proof -
  from conn_open_outcome [OF assms(1,5)] assms(6) obtain ch i where
    o: "owns (kw_impl w1) ch i" "ch \<notin> live (kw_cm w)" "i \<notin> live (kw_cm w)"
      "live (kw_cm w1) = {ch, i} \<union> live (kw_cm w)" by (auto simp: open_outcome_def)
  obtain w2 where "close_for_destruction api w1 = Some w2" "closed_outcome live cm_queue disc w1 w2"
    using close_for_destruction_outcome [OF assms(1-4), of w1] o(1) by (auto simp: owns_def)
  then show ?thesis using o by (auto simp: closed_outcome_def owns_def Let_def)
qed

subsection \<open>The example\<close>

definition sim_live_set :: "cm_sim \<Rightarrow> ptr set" where
  "sim_live_set s = set (sim_live s)"

definition sim_queue :: "cm_sim \<Rightarrow> ptr \<Rightarrow> cm_event list" where
  "sim_queue s ch = sim_events s"

lemma sim_resource_law: "resource_law sim_live_set sim_cm_api"
  by (auto simp: resource_law_def created_def sim_live_set_def sim_cm_api_def sim_alloc_def sim_free_def
      sim_get_event_def split: list.splits if_splits)

lemma sim_event_law: "event_law sim_queue sim_cm_api"
  by (auto simp: event_law_def sim_queue_def sim_cm_api_def sim_get_event_def split: list.splits)

lemma sim_destroy_disc_law: "destroy_disc_law sim_disc sim_cm_api"
  by (simp add: destroy_disc_law_def sim_cm_api_def sim_free_def)

definition sim_opened :: "cm_sim conn_world" where
  "sim_opened = snd (conn_open sim_cm_api (\<lambda>ch. 0) sim_device_service (sim_world [RDMA_CM_EVENT_ESTABLISHED]))"

lemma sim_open_run:
  "conn_open sim_cm_api (\<lambda>ch. 0) sim_device_service (sim_world [RDMA_CM_EVENT_ESTABLISHED]) =
     (no_error, sim_opened)"
proof -
  have "fst (conn_open sim_cm_api (\<lambda>ch. 0) sim_device_service (sim_world [RDMA_CM_EVENT_ESTABLISHED])) = no_error"
    by code_simp
  then show ?thesis by (simp add: sim_opened_def prod_eq_iff)
qed

lemma sim_opened_owns: "ci_channel (kw_impl sim_opened) = 16" "ci_cm_id (kw_impl sim_opened) = 17"
  by code_simp+

theorem conn_open_all_or_nothing_witness:
  "open_outcome sim_live_set (sim_world [RDMA_CM_EVENT_ESTABLISHED]) no_error sim_opened"
  by (rule conn_open_all_or_nothing [OF sim_resource_law sim_open_run])

theorem close_releases_witness:
  "\<exists>w'. close_for_destruction sim_cm_api sim_opened = Some w' \<and>
     closed_outcome sim_live_set sim_queue sim_disc sim_opened w'"
  by (rule close_releases [OF sim_resource_law sim_event_law sim_disc_law sim_destroy_disc_law])
    (simp_all add: sim_opened_owns)

theorem open_close_roundtrip_witness:
  "\<exists>w2. close_for_destruction sim_cm_api sim_opened = Some w2 \<and>
     sim_live_set (kw_cm w2) = sim_live_set (kw_cm (sim_world [RDMA_CM_EVENT_ESTABLISHED]))"
  by (rule open_close_roundtrip [OF sim_resource_law sim_event_law sim_disc_law sim_destroy_disc_law sim_open_run])
    simp

end
