(* ===== verification/IBV_Listener.thy ===== *)
theory IBV_Listener
  imports IBV_Connector_Resources Handler_Ledger
begin

text \<open>
  The listener: \<open>ibv/detail/ibv_service_listener.hpp\<close>, the operation that waits for a connection
  request (\<open>ibv/detail/ibv_op_get_connection_request.hpp\<close>) and the completion adapters of
  \<open>ibv/ibv_listener.hpp\<close> that turn its handle into a connector.

  A handle is the pair of a child's channel and id; whoever drops a handle destroys the id, then the
  channel (\<open>release_handle\<close>). \<open>go_cancel_data\<close> is what the cancellation functor of an operation keeps: the
  address of the listener whose \<open>cm_reactor_data_\<close> it points to (\<open>arm_cm_cancellation\<close>,
  \<open>ibv/detail/ibv_op_cm.hpp\<close>).
\<close>

subsection \<open>State\<close>

record listener_impl =
  li_channel :: ptr
  li_cm_id :: ptr
  li_registered :: bool
  li_bind_endpoint :: endpoint

type_synonym cm_handle = "ptr \<times> ptr"

record get_req_op =
  go_ec :: error_code
  go_channel :: ptr
  go_handle :: cm_handle
  go_private_data :: "u8 list"
  go_handler :: nat
  go_cancel_data :: "ptr option"

text \<open>What the operation's handler is invoked with.\<close>

record get_req_upcall =
  gu_handler :: nat
  gu_ec :: error_code
  gu_handle :: cm_handle
  gu_private_data :: "u8 list"

record 'c listen_world =
  lw_cm :: 'c
  lw_impl :: listener_impl
  lw_armed :: "get_req_op list"
  lw_posted :: "get_req_op list"
  lw_upcalls :: "get_req_upcall list"

text \<open>A default-constructed endpoint is IPv4 any with port 0; a port space gives its family's any.\<close>

fun any_endpoint :: "port_space \<Rightarrow> nat \<Rightarrow> endpoint" where
  "any_endpoint PS_v4 port = (SA_in 0, port)"
| "any_endpoint PS_v6 port = (SA_in6 0, port)"

definition default_endpoint :: endpoint where
  "default_endpoint = (SA_in 0, 0)"

definition listener_construct :: listener_impl where
  "listener_construct = \<lparr>li_channel = nullptr, li_cm_id = nullptr, li_registered = False,
     li_bind_endpoint = default_endpoint\<rparr>"

definition listener_is_open :: "listener_impl \<Rightarrow> bool" where
  "listener_is_open impl \<longleftrightarrow> li_cm_id impl \<noteq> nullptr"

subsection \<open>Opening, binding, listening\<close>

definition listener_open ::
  "'c cm_api \<Rightarrow> (ptr \<Rightarrow> int) \<Rightarrow> device_service \<Rightarrow> port_space \<Rightarrow> listener_impl \<Rightarrow> 'c
   \<Rightarrow> error_code \<times> listener_impl \<times> 'c" where
  "listener_open api reg ds ps impl c =
     (if listener_is_open impl then (already_open, impl, c)
      else if \<not> ds_registered ds then (make_error_code device_not_registered, impl, c)
      else case create_event_channel api c of (channel, ec, c1) \<Rightarrow>
        if is_error ec then (ec, impl, c1)
        else case create_cm_id api channel c1 of (rc, cm_id, ec, c2) \<Rightarrow>
          if rc \<noteq> 0
          then (ec, impl, if channel = nullptr then c2 else cma_destroy_channel api c2 channel)
          else if reg channel \<noteq> 0
          then (make_system_error_code (reg channel), impl,
                cma_destroy_channel api (cma_destroy_id api c2 cm_id) channel)
          else (no_error,
                \<lparr>li_channel = channel, li_cm_id = cm_id, li_registered = True,
                 li_bind_endpoint = any_endpoint ps 0\<rparr>, c2))"

definition listener_bind ::
  "'c cm_api \<Rightarrow> nat \<Rightarrow> listener_impl \<Rightarrow> 'c \<Rightarrow> error_code \<times> 'c" where
  "listener_bind api port impl c =
     (if \<not> listener_is_open impl then (make_error_code invalid_handle, c)
      else snd (cm_bind_addr api (li_cm_id impl) (fst (li_bind_endpoint impl), port) c))"

definition listener_listen ::
  "'c cm_api \<Rightarrow> i32 \<Rightarrow> listener_impl \<Rightarrow> 'c \<Rightarrow> error_code \<times> 'c" where
  "listener_listen api backlog_n impl c =
     (if \<not> listener_is_open impl then (make_error_code invalid_handle, c)
      else snd (cm_listen api (li_cm_id impl) backlog_n c))"

subsection \<open>The wait for a request\<close>

definition get_req_op_new :: "error_code \<Rightarrow> ptr \<Rightarrow> nat \<Rightarrow> get_req_op" where
  "get_req_op_new success_ec channel h =
     \<lparr>go_ec = success_ec, go_channel = channel, go_handle = (nullptr, nullptr), go_private_data = [],
      go_handler = h, go_cancel_data = None\<rparr>"

definition copy_request :: "cm_event \<Rightarrow> get_req_op \<Rightarrow> get_req_op" where
  "copy_request ev op =
     (case ev_private_data ev of
        None \<Rightarrow> op
      | Some bytes \<Rightarrow>
          if ev_private_data_len ev \<noteq> 0
          then op\<lparr>go_private_data :=
                    take (min (unat (ev_private_data_len ev)) max_private_data_size) bytes\<rparr>
          else op)"

definition get_req_do_process ::
  "'c cm_api \<Rightarrow> cm_event \<Rightarrow> get_req_op \<Rightarrow> 'c \<Rightarrow> get_req_op \<times> 'c" where
  "get_req_do_process api ev op c =
     (if ev_type ev \<noteq> RDMA_CM_EVENT_CONNECT_REQUEST then (op\<lparr>go_ec := connection_aborted\<rparr>, c)
      else
        let op1 = copy_request ev op in
        case create_event_channel api c of (child_channel, ec, c1) \<Rightarrow>
          let op2 = op1\<lparr>go_ec := ec\<rparr> in
          if is_error ec then (op2, c1)
          else
            let op3 = op2\<lparr>go_handle := (child_channel, ev_id ev)\<rparr> in
            case migrate_id api (ev_id ev) child_channel c1 of
              (rc, ec', c2) \<Rightarrow> (op3\<lparr>go_ec := ec'\<rparr>, c2))"

definition get_req_do_perform ::
  "'c cm_api \<Rightarrow> get_req_op \<Rightarrow> 'c \<Rightarrow> bool \<times> get_req_op \<times> 'c" where
  "get_req_do_perform api op c =
     (case get_cm_event api (go_channel op) c of (event, ec, c1) \<Rightarrow>
        if is_error ec then (True, op\<lparr>go_ec := ec\<rparr>, c1)
        else case event of
          None \<Rightarrow> (False, op\<lparr>go_ec := ec\<rparr>, c1)
        | Some ev \<Rightarrow>
            (case get_req_do_process api ev (op\<lparr>go_ec := ec\<rparr>) c1 of
               (op', c2) \<Rightarrow> (True, op', cma_ack_event api c2 ev)))"

definition release_handle :: "'c cm_api \<Rightarrow> cm_handle \<Rightarrow> 'c \<Rightarrow> 'c" where
  "release_handle api handle c =
     (let c1 = (if snd handle \<noteq> nullptr then cma_destroy_id api c (snd handle) else c)
      in if fst handle \<noteq> nullptr then cma_destroy_channel api c1 (fst handle) else c1)"

text \<open>Without an owner the handle goes out of scope with the operation.\<close>

definition get_req_do_complete ::
  "'c cm_api \<Rightarrow> bool \<Rightarrow> get_req_op \<Rightarrow> 'c \<Rightarrow> get_req_upcall option \<times> 'c" where
  "get_req_do_complete api owner op c =
     (if owner
      then (Some \<lparr>gu_handler = go_handler op, gu_ec = go_ec op, gu_handle = go_handle op,
              gu_private_data = go_private_data op\<rparr>, c)
      else (None, release_handle api (go_handle op) c))"

text \<open>
  An open listener at the address \<open>self\<close> arms the per-operation cancellation, then the operation waits in the
  reactor. A handler whose slot is not connected arms nothing; no signal is ever emitted for it.
\<close>

definition async_get_connection_request :: "ptr \<Rightarrow> nat \<Rightarrow> 'c listen_world \<Rightarrow> 'c listen_world" where
  "async_get_connection_request self h w =
     (let op = get_req_op_new no_error (li_channel (lw_impl w)) h in
      if \<not> listener_is_open (lw_impl w)
      then w\<lparr>lw_posted := lw_posted w @ [op\<lparr>go_ec := make_error_code invalid_handle\<rparr>]\<rparr>
      else w\<lparr>lw_armed := lw_armed w @ [op\<lparr>go_cancel_data := Some self\<rparr>]\<rparr>)"

text \<open>\<open>cancel\<close>; the per-operation cancellation; the reactor's and the scheduler's turns.\<close>

abbreviation aborted_op :: "get_req_op \<Rightarrow> get_req_op" where
  "aborted_op op \<equiv> op\<lparr>go_ec := operation_aborted\<rparr>"

definition listener_cancel :: "'c listen_world \<Rightarrow> 'c listen_world" where
  "listener_cancel w =
     (if li_channel (lw_impl w) \<noteq> nullptr
      then w\<lparr>lw_posted := lw_posted w @ map aborted_op (lw_armed w), lw_armed := []\<rparr> else w)"

text \<open>
  A signal of type \<open>type\<close> reaches the descriptor: \<open>cancel_ops_by_key\<close> takes the operations of its key out of the
  read queue. An operation is known by its handler.
\<close>

definition listener_op_cancellation :: "u32 \<Rightarrow> nat \<Rightarrow> 'c listen_world \<Rightarrow> 'c listen_world" where
  "listener_op_cancellation type key w =
     (if type AND 7 \<noteq> 0
      then w\<lparr>lw_posted := lw_posted w @ map aborted_op (filter (\<lambda>op. go_handler op = key) (lw_armed w)),
             lw_armed := filter (\<lambda>op. go_handler op \<noteq> key) (lw_armed w)\<rparr>
      else w)"

definition listener_perform :: "'c cm_api \<Rightarrow> 'c listen_world \<Rightarrow> 'c listen_world" where
  "listener_perform api w =
     (case lw_armed w of
        [] \<Rightarrow> w
      | op # ops \<Rightarrow>
          (case get_req_do_perform api op (lw_cm w) of
             (fin, op', c) \<Rightarrow>
               w\<lparr>lw_cm := c, lw_armed := (if fin then ops else op' # ops),
                 lw_posted := (if fin then lw_posted w @ [op'] else lw_posted w)\<rparr>))"

definition listener_complete :: "'c cm_api \<Rightarrow> bool \<Rightarrow> 'c listen_world \<Rightarrow> 'c listen_world" where
  "listener_complete api owner w =
     (case lw_posted w of
        [] \<Rightarrow> w
      | op # ops \<Rightarrow>
          (case get_req_do_complete api owner op (lw_cm w) of
             (u, c) \<Rightarrow>
               w\<lparr>lw_cm := c, lw_posted := ops,
                 lw_upcalls := lw_upcalls w @ (case u of None \<Rightarrow> [] | Some x \<Rightarrow> [x])\<rparr>))"

subsection \<open>Destruction and moves\<close>

definition listener_close :: "'c cm_api \<Rightarrow> 'c listen_world \<Rightarrow> 'c listen_world" where
  "listener_close api w =
     (let impl = lw_impl w;
          w1 = (if li_channel impl \<noteq> nullptr
                then w\<lparr>lw_posted := lw_posted w @ map aborted_op (lw_armed w), lw_armed := []\<rparr> else w);
          c1 = (if li_cm_id impl \<noteq> nullptr then cma_destroy_id api (lw_cm w1) (li_cm_id impl)
                else lw_cm w1);
          c2 = (if li_channel impl \<noteq> nullptr then cma_destroy_channel api c1 (li_channel impl) else c1)
      in w1\<lparr>lw_cm := c2,
            lw_impl := impl\<lparr>li_channel := nullptr, li_cm_id := nullptr, li_registered := False\<rparr>\<rparr>)"

text \<open>A move constructs the target's endpoint by default and does not touch the source's.\<close>

definition listener_move_construct :: "listener_impl \<Rightarrow> listener_impl \<times> listener_impl" where
  "listener_move_construct other =
     (\<lparr>li_channel = li_channel other, li_cm_id = li_cm_id other,
       li_registered = (li_channel other \<noteq> nullptr \<and> li_registered other),
       li_bind_endpoint = default_endpoint\<rparr>,
      other\<lparr>li_channel := nullptr, li_cm_id := nullptr, li_registered := False\<rparr>)"

definition listener_move_assign ::
  "'c cm_api \<Rightarrow> listener_impl \<Rightarrow> 'c listen_world \<Rightarrow> 'c listen_world \<times> listener_impl" where
  "listener_move_assign api other w =
     (let w1 = listener_close api w in
      (w1\<lparr>lw_impl := (lw_impl w1)\<lparr>li_channel := li_channel other, li_cm_id := li_cm_id other,
             li_registered := (li_channel other \<noteq> nullptr \<and> li_registered other)\<rparr>\<rparr>,
       other\<lparr>li_channel := nullptr, li_cm_id := nullptr, li_registered := False\<rparr>))"

subsection \<open>Completion adapters\<close>

text \<open>
  Both adapters copy the request into the caller's buffer of \<open>cap\<close> bytes and let the connector adopt
  the handle; what is left of the handle is destroyed. The result is the code, the connector, the bytes
  written and the new state of rdma_cm. The return form starts from a new connector.
\<close>

definition get_connection_fill_adapter ::
  "'c cm_api \<Rightarrow> (ptr \<Rightarrow> int) \<Rightarrow> nat \<Rightarrow> connector_impl \<Rightarrow> get_req_upcall \<Rightarrow> 'c
   \<Rightarrow> error_code \<times> connector_impl \<times> u8 list \<times> 'c" where
  "get_connection_fill_adapter api reg cap conn u c =
     (if is_error (gu_ec u) then (gu_ec u, conn, [], release_handle api (gu_handle u) c)
      else
        let written = take (min (length (gu_private_data u)) cap) (gu_private_data u) in
        case conn_assign reg (gu_handle u) conn of (aec, handle', conn') \<Rightarrow>
          (if is_error aec then aec else gu_ec u, conn', written, release_handle api handle' c))"

definition get_connection_adapter ::
  "'c cm_api \<Rightarrow> (ptr \<Rightarrow> int) \<Rightarrow> nat \<Rightarrow> get_req_upcall \<Rightarrow> 'c
   \<Rightarrow> error_code \<times> connector_impl \<times> u8 list \<times> 'c" where
  "get_connection_adapter api reg cap u c =
     get_connection_fill_adapter api reg cap connector_construct u c"

definition connect_drop_reply_adapter :: "(error_code \<Rightarrow> 'r) \<Rightarrow> error_code \<Rightarrow> nat \<Rightarrow> 'r" where
  "connect_drop_reply_adapter handler ec reply_len = handler ec"

subsection \<open>Handlers\<close>

inductive listen_step :: "'c cm_api \<Rightarrow> 'c listen_world \<Rightarrow> nat multiset \<Rightarrow> 'c listen_world \<Rightarrow> bool" for api where
  l_get: "listen_step api w {#h#} (async_get_connection_request self h w)"
| l_cancel: "listen_step api w {#} (listener_cancel w)"
| l_op_cancel: "listen_step api w {#} (listener_op_cancellation type key w)"
| l_perform: "listen_step api w {#} (listener_perform api w)"
| l_complete: "listen_step api w {#} (listener_complete api True w)"
| l_close: "listen_step api w {#} (listener_close api w)"
| l_rdma_cm: "listen_step api w {#} (w\<lparr>lw_cm := c\<rparr>)"
| l_open: "listener_open api reg ds ps (lw_impl w) (lw_cm w) = (ec, impl, c) \<Longrightarrow>
    listen_step api w {#} (w\<lparr>lw_impl := impl, lw_cm := c\<rparr>)"

definition listen_owed :: "'c listen_world \<Rightarrow> nat multiset" where
  "listen_owed w = mset (map go_handler (lw_armed w)) + mset (map go_handler (lw_posted w))"

definition listen_invoked :: "'c listen_world \<Rightarrow> nat multiset" where
  "listen_invoked w = mset (map gu_handler (lw_upcalls w))"

lemma get_req_do_perform_handler:
  "go_handler (fst (snd (get_req_do_perform api op c))) = go_handler op"
  by (simp add: get_req_do_perform_def get_req_do_process_def copy_request_def Let_def
      split: prod.split option.split)

lemma listen_step_balance:
  "listen_step api w hs w' \<Longrightarrow> listen_owed w' + listen_invoked w' = listen_owed w + listen_invoked w + hs"
proof (induction rule: listen_step.induct)
  case (l_op_cancel w type key)
  have "mset (map go_handler (filter (\<lambda>op. go_handler op = key) ops)) +
      mset (map go_handler (filter (\<lambda>op. go_handler op \<noteq> key) ops)) = mset (map go_handler ops)" for ops
    by (induction ops) auto
  from this [of "lw_armed w"] show ?case
    by (simp add: listener_op_cancellation_def listen_owed_def listen_invoked_def multiset.map_comp comp_def ac_simps)
next
  case (l_perform w)
  then show ?case
    using get_req_do_perform_handler [of api]
    by (auto simp: listener_perform_def listen_owed_def listen_invoked_def case_prod_beta split: list.split)
qed (auto simp: async_get_connection_request_def listener_cancel_def listener_complete_def
    listener_close_def get_req_do_complete_def get_req_op_new_def listen_owed_def listen_invoked_def
    Let_def multiset.map_comp comp_def split: list.split)

interpretation listener_ledger: handler_ledger "listen_step api" listen_owed listen_invoked for api
  by unfold_locales (rule listen_step_balance)

text \<open>
  For every sequence of calls on a listener (open, waits for a connection, cancel, per-operation
  cancellation, destruction) and of reactor and scheduler turns, each handler waiting for a connection request is
  held by exactly one operation until it is invoked, at most once; when no operation is left, every
  handler was invoked exactly once.
\<close>

theorem listener_handlers_exactly_once:
  assumes "labelled_run (listen_step api) w hs w'" and "listen_owed w = {#}" and "listen_invoked w = {#}"
  shows "listen_owed w' + listen_invoked w' = hs \<and> (listen_owed w' = {#} \<longrightarrow> listen_invoked w' = hs)"
  by (rule listener_ledger.exactly_once [OF assms])

subsection \<open>Private data\<close>

text \<open>
  What the fabric delivers of connection parameters: the bytes they point to, of the length they
  give, followed by the transport's padding.
\<close>

definition sent_bytes :: "conn_param \<Rightarrow> u8 list" where
  "sent_bytes p = (case cp_private_data p of None \<Rightarrow> [] | Some b \<Rightarrow> take (unat (cp_private_data_len p)) b)"

definition delivered :: "conn_param \<Rightarrow> u8 list \<Rightarrow> cm_event \<Rightarrow> bool" where
  "delivered p pad ev \<longleftrightarrow>
     (let bytes = sent_bytes p @ pad in
      length bytes \<le> 255 \<and> ev_private_data_len ev = of_nat (length bytes) \<and>
      ev_private_data ev = (if bytes = [] then None else Some bytes))"

lemma unat_u8_of_nat: "n \<le> 255 \<Longrightarrow> unat (of_nat n :: u8) = n"
  by (simp add: unat_of_nat take_bit_nat_eq_self)

lemma u8_of_nat_zero: "n \<le> 255 \<Longrightarrow> (of_nat n :: u8) = 0 \<longleftrightarrow> n = 0"
  by (subst unat_eq_0 [symmetric]) (simp only: unat_u8_of_nat)

lemma connect_param_bytes:
  assumes "length request \<le> 255"
  shows "sent_bytes (connect_param (connect_op_new ec i ch t request rb rc r d n m qp h)) = request"
  using assms by (simp add: sent_bytes_def connect_param_def connect_op_new_def unat_u8_of_nat)

lemma accept_param_bytes:
  assumes "length reply \<le> 255"
  shows "sent_bytes (accept_param ds reply) = reply"
  using assms by (simp add: sent_bytes_def accept_param_def Let_def unat_u8_of_nat)

lemma copy_request_bytes:
  assumes "delivered p pad ev" and "go_private_data op = []"
  shows "go_private_data (copy_request ev op) = sent_bytes p @ pad"
proof -
  let ?b = "sent_bytes p @ pad"
  have len: "length ?b \<le> 255" "ev_private_data_len ev = of_nat (length ?b)"
    "ev_private_data ev = (if ?b = [] then None else Some ?b)"
    using assms(1) unfolding delivered_def Let_def by blast+
  show ?thesis
  proof (cases "?b = []")
    case True
    then show ?thesis using len assms(2) by (simp add: copy_request_def)
  next
    case False
    then have "ev_private_data ev = Some ?b" "ev_private_data_len ev \<noteq> 0"
      using len u8_of_nat_zero [OF len(1)] by auto
    moreover have "min (unat (ev_private_data_len ev)) max_private_data_size = length ?b"
      using len unat_u8_of_nat [OF len(1)] by simp
    ultimately show ?thesis by (simp only: copy_request_def option.case if_True) simp
  qed
qed

lemma copy_reply_bytes:
  assumes "delivered p pad ev" and "co_reply_buf op" and "co_reply op = []"
  shows "co_reply (copy_reply ev op) = take (co_reply_cap op) (sent_bytes p @ pad)"
proof -
  let ?b = "sent_bytes p @ pad"
  have len: "length ?b \<le> 255" "ev_private_data_len ev = of_nat (length ?b)"
    "ev_private_data ev = (if ?b = [] then None else Some ?b)"
    using assms(1) unfolding delivered_def Let_def by blast+
  show ?thesis
  proof (cases "?b = [] \<or> co_reply_cap op = 0")
    case True
    then show ?thesis using len assms(2,3) by (auto simp: copy_reply_def)
  next
    case False
    then have "ev_private_data ev = Some ?b" "ev_private_data_len ev \<noteq> 0"
      using len u8_of_nat_zero [OF len(1)] by auto
    moreover have "unat (ev_private_data_len ev) = length ?b"
      using len unat_u8_of_nat [OF len(1)] by simp
    ultimately show ?thesis using assms(2) False by (simp add: copy_reply_def min_def)
  qed
qed

text \<open>
  C30. Private data makes the round trip: the request a client passes to \<open>async_connect\<close> (at most
  255 bytes, the limit the service enforces) is what the parameters of \<open>rdma_connect\<close> carry, what the
  listener's operation holds and what arrives in the buffer of \<open>async_get_connection\<close>, up to that
  buffer's size and followed by the transport's padding; likewise the reply a server passes to
  \<open>async_accept\<close> and the client's reply buffer. The 8-bit length fields never wrap.
\<close>

theorem private_data_roundtrip:
  assumes "length request \<le> 255" and "length reply \<le> 255"
    and "delivered (connect_param (connect_op_new ec i ch t request True rcap r d n m qp h)) pad ev"
    and "delivered (accept_param ds reply) pad' ev'"
    and "u = \<lparr>gu_handler = h', gu_ec = no_error, gu_handle = handle,
      gu_private_data = go_private_data (copy_request ev (get_req_op_new no_error lch h'))\<rparr>"
  shows "fst (snd (snd (get_connection_fill_adapter api reg cap conn u c))) = take cap (request @ pad) \<and>
    co_reply (copy_reply ev' (connect_op_new ec i ch t request True rcap r d n m qp h)) =
      take rcap (reply @ pad')"
proof -
  have "gu_private_data u = request @ pad"
    using copy_request_bytes [OF assms(3)] connect_param_bytes [OF assms(1)] assms(5)
    by (simp add: get_req_op_new_def)
  moreover have "gu_ec u = no_error" using assms(5) by simp
  ultimately have "fst (snd (snd (get_connection_fill_adapter api reg cap conn u c))) = take cap (request @ pad)"
    by (simp add: get_connection_fill_adapter_def Let_def min_def split: prod.split)
  then show ?thesis
    using copy_reply_bytes [OF assms(4), of "connect_op_new ec i ch t request True rcap r d n m qp h"]
      accept_param_bytes [OF assms(2)] by (simp add: connect_op_new_def)
qed

subsection \<open>Ownership of a new connection\<close>

text \<open>Migrating an id creates and destroys nothing; a failing migration sets \<open>errno\<close>.\<close>

definition migrate_law :: "('c \<Rightarrow> ptr set) \<Rightarrow> 'c cm_api \<Rightarrow> bool" where
  "migrate_law live api \<longleftrightarrow>
     (\<forall>c i ch rc e c'. cma_migrate_id api c i ch = (rc, e, c') \<longrightarrow> live c' = live c \<and> (rc \<noteq> 0 \<longrightarrow> e \<noteq> 0))"

lemma get_req_do_process_cases:
  assumes R: "resource_law live api" and M: "migrate_law live api"
    and ev: "ev_type ev = RDMA_CM_EVENT_CONNECT_REQUEST" and r: "get_req_do_process api ev op c = (op', c1)"
    and op: "go_handle op = (nullptr, nullptr)"
  obtains (no_channel) "is_error (go_ec op')" "go_handle op' = (nullptr, nullptr)" "live c1 = live c"
    | (child) ch where "go_handle op' = (ch, ev_id ev)" "ch \<noteq> nullptr" "ch \<notin> live c"
      "live c1 = insert ch (live c)"
proof -
  obtain ch ec ca where k: "create_event_channel api c = (ch, ec, ca)" by (metis prod_cases3)
  obtain rc e cb where g: "cma_migrate_id api ca (ev_id ev) ch = (rc, e, cb)" by (metis prod_cases3)
  note C = create_event_channel_created [OF R k]
  have hc: "go_handle (copy_request ev op) = (nullptr, nullptr)"
    using op by (simp add: copy_request_def split: option.split)
  have gl: "live cb = live ca" using M g by (auto simp: migrate_law_def)
  show thesis
  proof (cases "is_error ec")
    case True
    then have "op' = (copy_request ev op)\<lparr>go_ec := ec\<rparr>" "c1 = ca"
      using r ev k by (simp_all add: get_req_do_process_def Let_def)
    then show thesis using True C hc by (intro no_channel) auto
  next
    case False
    then have "go_handle op' = (ch, ev_id ev)" "c1 = cb"
      using r ev k g by (auto simp: get_req_do_process_def migrate_id_def cm_result_def Let_def)
    then show thesis using False C gl by (intro child [of ch]) auto
  qed
qed

definition handed_over ::
  "('c \<Rightarrow> ptr set) \<Rightarrow> 'c \<Rightarrow> ptr \<Rightarrow> get_req_op \<Rightarrow> connector_impl \<Rightarrow> error_code \<times> connector_impl \<times> u8 list \<times> 'c
   \<Rightarrow> bool" where
  "handed_over live c child op conn r \<longleftrightarrow>
     (case r of (ec, conn', bytes, c') \<Rightarrow>
        if \<not> is_error ec
        then \<exists>ch. ch \<notin> live c \<and> ci_channel conn' = ch \<and> ci_cm_id conn' = child \<and>
          ci_state conn' = cs_idle \<and> live c' = insert ch (live c)
        else conn' = conn \<and>
          live c' = (if go_handle op = (nullptr, nullptr) then live c else live c - {child}))"

lemma release_handle_live:
  assumes "resource_law live api" and "nullptr \<notin> live c"
  shows "live (release_handle api (ch, i) c) = live c - {ch, i}"
  using assms by (auto simp: release_handle_def Let_def resource_lawD(5,6))

text \<open>
  C31. A connection request ends in a connector that owns the child id and a fresh channel of its
  own, or in an error and an unchanged connector, with the child id and its channel destroyed, on
  every path but one: when the child's event channel cannot be created, the child id stays alive and
  nobody owns it.
\<close>

theorem get_connection_ownership:
  assumes "resource_law live api" and "migrate_law live api"
    and "ev_type ev = RDMA_CM_EVENT_CONNECT_REQUEST" and "ev_id ev \<in> live c" and "nullptr \<notin> live c"
    and "get_req_do_process api ev (get_req_op_new no_error lch h) c = (op', c1)"
    and "get_req_do_complete api True op' c1 = (Some u, c2)"
  shows "handed_over live c (ev_id ev) op' conn (get_connection_fill_adapter api reg cap conn u c2)"
proof -
  have u: "c2 = c1" "gu_ec u = go_ec op'" "gu_handle u = go_handle op'"
    using assms(7) by (auto simp: get_req_do_complete_def)
  have id: "ev_id ev \<noteq> nullptr" using assms(4,5) by metis
  have h0: "go_handle (get_req_op_new no_error lch h) = (nullptr, nullptr)" by (simp add: get_req_op_new_def)
  from assms(1,2,3,6) h0 show ?thesis
  proof (cases rule: get_req_do_process_cases)
    case no_channel
    then show ?thesis using u
      by (simp add: handed_over_def get_connection_fill_adapter_def release_handle_def)
  next
    case (child ch)
    then have rel: "live (release_handle api (ch, ev_id ev) c1) = live c - {ev_id ev}"
      using release_handle_live [OF assms(1), of c1 ch "ev_id ev"] assms(5) by auto
    show ?thesis
    proof (cases "is_error (go_ec op')")
      case True
      then show ?thesis using child u rel by (auto simp: handed_over_def get_connection_fill_adapter_def)
    next
      case ok: False
      show ?thesis
      proof (cases "conn_is_open conn \<or> reg ch \<noteq> 0")
        case True
        then have "conn_assign reg (ch, ev_id ev) conn = (already_open, (ch, ev_id ev), conn) \<or>
            conn_assign reg (ch, ev_id ev) conn = (make_system_error_code (reg ch), (ch, ev_id ev), conn) \<and>
              reg ch \<noteq> 0"
          using child id by (auto simp: conn_assign_def)
        then show ?thesis using child u rel ok
          by (auto simp: handed_over_def get_connection_fill_adapter_def Let_def)
      next
        case False
        then show ?thesis using child u ok id
          by (simp add: handed_over_def get_connection_fill_adapter_def conn_assign_def Let_def
              release_handle_def)
      qed
    qed
  qed
qed

subsection \<open>Moves\<close>

text \<open>
  A listener opened for IPv6 and then moved no longer binds to the IPv6 any-address: the move
  leaves \<open>bind_endpoint_\<close> behind, so \<open>bind\<close> on the new object asks rdma_cm for the IPv4 any-address.
\<close>

theorem moved_listener_binds_v4:
  assumes "listener_open api reg ds PS_v6 impl c = (no_error, opened, c1)" and "li_cm_id opened \<noteq> nullptr"
    and "moved = fst (listener_move_construct opened)"
  shows "listener_bind api port opened c1 =
      snd (cm_bind_addr api (li_cm_id opened) (SA_in6 0, port) c1) \<and>
    listener_bind api port moved c1 =
      snd (cm_bind_addr api (li_cm_id opened) (SA_in 0, port) c1)"
proof -
  have "\<not> listener_is_open impl"
    using assms(1) by (auto simp: listener_open_def)
  then have "li_bind_endpoint opened = (SA_in6 0, 0)"
    using assms(1,2) by (auto simp: listener_open_def listener_is_open_def split: if_splits prod.splits)
  then show ?thesis
    using assms(2,3) by (simp add: listener_bind_def listener_is_open_def listener_move_construct_def
        default_endpoint_def)
qed

subsection \<open>The example\<close>

lemma sim_migrate_law: "migrate_law sim_live_set sim_cm_api"
  by (simp add: migrate_law_def sim_cm_api_def)

definition sim_listen_world :: "cm_sim listen_world" where
  "sim_listen_world =
     \<lparr>lw_cm = sim_start [], lw_impl = listener_construct, lw_armed = [], lw_posted = [], lw_upcalls = []\<rparr>"

definition sim_request :: cm_event where
  "sim_request = \<lparr>ev_type = RDMA_CM_EVENT_CONNECT_REQUEST, ev_status = 0,
     ev_private_data = Some [1, 2, 3, 0], ev_private_data_len = 4, ev_id = 64\<rparr>"

definition sim_child :: cm_sim where
  "sim_child = (sim_start [])\<lparr>sim_live := [64]\<rparr>"

theorem listener_handlers_exactly_once_witness:
  "listen_owed (listener_complete sim_cm_api True (async_get_connection_request 64 3 sim_listen_world)) +
   listen_invoked (listener_complete sim_cm_api True (async_get_connection_request 64 3 sim_listen_world)) = {#3#}"
proof -
  have "labelled_run (listen_step sim_cm_api) sim_listen_world {#3#}
      (listener_complete sim_cm_api True (async_get_connection_request 64 3 sim_listen_world))"
  proof -
    have "labelled_run (listen_step sim_cm_api) sim_listen_world {#3#}
        (async_get_connection_request 64 3 sim_listen_world)" by (intro run_one l_get)
    from run_step [OF this l_complete] show ?thesis by simp
  qed
  from listener_handlers_exactly_once [OF this] show ?thesis
    by (simp add: sim_listen_world_def listen_owed_def listen_invoked_def)
qed

theorem private_data_roundtrip_witness:
  "fst (snd (snd (get_connection_fill_adapter sim_cm_api (\<lambda>ch. 0) 8 connector_construct
     \<lparr>gu_handler = 9, gu_ec = no_error, gu_handle = (16, 64),
      gu_private_data = go_private_data (copy_request sim_request (get_req_op_new no_error 16 9))\<rparr> sim_child))) =
   take 8 ([1, 2, 3] @ [0])"
proof (rule private_data_roundtrip [THEN conjunct1])
  show "delivered (connect_param (connect_op_new no_error 5 16 2000 [1, 2, 3] True 8 1 1 7 12 True 4)) [0] sim_request"
    by (simp add: delivered_def sim_request_def connect_param_bytes Let_def)
  show "delivered (accept_param sim_device_service []) [] (sim_event RDMA_CM_EVENT_ESTABLISHED)"
    by (simp add: delivered_def accept_param_bytes sim_event_def Let_def)
qed simp_all

theorem get_connection_ownership_witness:
  "\<exists>op' c1 u c2. get_req_do_process sim_cm_api sim_request (get_req_op_new no_error 16 9) sim_child = (op', c1) \<and>
     handed_over sim_live_set sim_child 64 op' connector_construct
       (get_connection_fill_adapter sim_cm_api (\<lambda>ch. 0) 8 connector_construct u c2)"
proof -
  obtain op' c1 where p: "get_req_do_process sim_cm_api sim_request (get_req_op_new no_error 16 9) sim_child = (op', c1)"
    by fastforce
  obtain u where d: "get_req_do_complete sim_cm_api True op' c1 = (Some u, c1)" by (simp add: get_req_do_complete_def)
  have "handed_over sim_live_set sim_child (ev_id sim_request) op' connector_construct
       (get_connection_fill_adapter sim_cm_api (\<lambda>ch. 0) 8 connector_construct u c1)"
    by (rule get_connection_ownership [OF sim_resource_law sim_migrate_law _ _ _ p d])
      (simp_all add: sim_request_def sim_live_set_def sim_child_def sim_start_def)
  then show ?thesis using p by (auto simp: sim_request_def)
qed

definition sim_v6_listener :: "listener_impl \<times> cm_sim" where
  "sim_v6_listener =
     snd (listener_open sim_cm_api (\<lambda>ch. 0) sim_device_service PS_v6 listener_construct (sim_start []))"

theorem moved_listener_binds_v4_witness:
  "listener_bind sim_cm_api 7000 (fst (listener_move_construct (fst sim_v6_listener))) (snd sim_v6_listener) =
   snd (cm_bind_addr sim_cm_api (li_cm_id (fst sim_v6_listener)) (SA_in 0, 7000) (snd sim_v6_listener))"
proof -
  have "fst (listener_open sim_cm_api (\<lambda>ch. 0) sim_device_service PS_v6 listener_construct (sim_start [])) = no_error"
    by code_simp
  then have "listener_open sim_cm_api (\<lambda>ch. 0) sim_device_service PS_v6 listener_construct (sim_start []) =
      (no_error, fst sim_v6_listener, snd sim_v6_listener)" by (simp add: sim_v6_listener_def prod_eq_iff)
  moreover have "li_cm_id (fst sim_v6_listener) \<noteq> nullptr" by code_simp
  ultimately show ?thesis by (rule moved_listener_binds_v4 [OF _ _ refl, THEN conjunct2])
qed

end
