(* ===== verification/IBV_Listener_Objects.thy ===== *)
theory IBV_Listener_Objects
  imports IBV_Listener
begin

text \<open>
  The objects of a listener over its runs: the channels and ids of rdma_cm are owned by the listener, by one
  operation waiting for a request, or by one handler that was given its connection. The one place that
  lets an id go is \<open>do_process\<close> (\<open>ibv_op_get_connection_request.hpp\<close>) when the child's event channel
  cannot be created; the steps are labelled with the ids lost there.
\<close>

subsection \<open>Documented behaviour of rdma_cm\<close>

text \<open>
  A \<open>CONNECT_REQUEST\<close> brings a new id with it (\<open>rdma_get_cm_event\<close>); the calls of the listener that
  neither create nor destroy leave the objects alone.
\<close>

definition listener_law :: "('c \<Rightarrow> ptr set) \<Rightarrow> 'c cm_api \<Rightarrow> bool" where
  "listener_law live api \<longleftrightarrow>
     channel_law live api \<and>
     (\<forall>c ch rc e p c'. cma_create_id api c ch = (rc, e, p, c') \<longrightarrow> created live c (rc = 0) e p c') \<and>
     (\<forall>c p. live (cma_destroy_id api c p) = live c - {p}) \<and>
     (\<forall>c i ch. live (snd (snd (cma_migrate_id api c i ch))) = live c) \<and>
     (\<forall>c i a. live (snd (snd (cma_bind_addr api c i a))) = live c) \<and>
     (\<forall>c i b. live (snd (snd (cma_listen api c i b))) = live c) \<and>
     (\<forall>c ev. live (cma_ack_event api c ev) = live c) \<and>
     (\<forall>c ch e c'. cma_get_event api c ch = (Inl e, c') \<longrightarrow> live c' = live c) \<and>
     (\<forall>c ch ev c'. cma_get_event api c ch = (Inr ev, c') \<longrightarrow>
        (if ev_type ev = RDMA_CM_EVENT_CONNECT_REQUEST
         then ev_id ev \<noteq> nullptr \<and> ev_id ev \<notin> live c \<and> live c' = insert (ev_id ev) (live c)
         else live c' = live c))"

lemma listener_lawD:
  assumes "listener_law live api"
  shows "channel_law live api"
    and "cma_create_id api c ch = (rc, e, p, c') \<Longrightarrow> created live c (rc = 0) e p c'"
    and "live (cma_destroy_id api c p) = live c - {p}"
    and "live (snd (snd (cma_migrate_id api c i ch))) = live c"
    and "live (snd (snd (cma_bind_addr api c i a))) = live c"
    and "live (snd (snd (cma_listen api c i b))) = live c"
    and "live (cma_ack_event api c ev) = live c"
    and "cma_get_event api c ch = (Inl e, c') \<Longrightarrow> live c' = live c"
    and "cma_get_event api c ch = (Inr ev, c') \<Longrightarrow>
        if ev_type ev = RDMA_CM_EVENT_CONNECT_REQUEST
        then ev_id ev \<noteq> nullptr \<and> ev_id ev \<notin> live c \<and> live c' = insert (ev_id ev) (live c)
        else live c' = live c"
proof -
  note L = assms [unfolded listener_law_def]
  show "channel_law live api" using L by (elim conjE)
  show "cma_create_id api c ch = (rc, e, p, c') \<Longrightarrow> created live c (rc = 0) e p c'" using L by (elim conjE) simp
  show "live (cma_destroy_id api c p) = live c - {p}" using L by (elim conjE) simp
  show "live (snd (snd (cma_migrate_id api c i ch))) = live c" using L by (elim conjE) simp
  show "live (snd (snd (cma_bind_addr api c i a))) = live c" using L by (cases a) (elim conjE, simp)
  show "live (snd (snd (cma_listen api c i b))) = live c" using L by (elim conjE) simp
  show "live (cma_ack_event api c ev) = live c" using L by (elim conjE) simp
  show "cma_get_event api c ch = (Inl e, c') \<Longrightarrow> live c' = live c" using L by (elim conjE) simp
  show "cma_get_event api c ch = (Inr ev, c') \<Longrightarrow>
      if ev_type ev = RDMA_CM_EVENT_CONNECT_REQUEST
      then ev_id ev \<noteq> nullptr \<and> ev_id ev \<notin> live c \<and> live c' = insert (ev_id ev) (live c)
      else live c' = live c"
    using L by (elim conjE) simp
qed

subsection \<open>Who owns what\<close>

abbreviation obj :: "ptr \<Rightarrow> ptr multiset" where
  "obj p \<equiv> (if p = nullptr then {#} else {#p#})"

definition cm_handle_objs :: "cm_handle \<Rightarrow> ptr multiset" where
  "cm_handle_objs x = obj (fst x) + obj (snd x)"

lemma cm_handle_objs_null [simp]: "cm_handle_objs (nullptr, nullptr) = {#}"
  by (simp add: cm_handle_objs_def)

definition listener_objs :: "listener_impl \<Rightarrow> ptr multiset" where
  "listener_objs impl = cm_handle_objs (li_channel impl, li_cm_id impl)"

definition listen_objs :: "'c listen_world \<Rightarrow> ptr multiset" where
  "listen_objs w = listener_objs (lw_impl w) +
     sum_list (map (cm_handle_objs \<circ> go_handle) (lw_armed w)) +
     sum_list (map (cm_handle_objs \<circ> go_handle) (lw_posted w)) +
     sum_list (map (cm_handle_objs \<circ> gu_handle) (lw_upcalls w))"

text \<open>A listener has a channel and an id or neither; an operation in the reactor has no connection yet.\<close>

definition listen_wf :: "'c listen_world \<Rightarrow> bool" where
  "listen_wf w \<longleftrightarrow> (li_channel (lw_impl w) = nullptr \<longleftrightarrow> li_cm_id (lw_impl w) = nullptr) \<and>
     (\<forall>op\<in>set (lw_armed w). go_handle op = (nullptr, nullptr))"

definition listen_account :: "('c \<Rightarrow> ptr set) \<Rightarrow> ptr multiset \<Rightarrow> 'c listen_world \<Rightarrow> bool" where
  "listen_account live X w \<longleftrightarrow>
     listen_wf w \<and> finite (live (lw_cm w)) \<and> mset_set (live (lw_cm w)) = X + listen_objs w"

text \<open>The id a turn of the reactor lets go.\<close>

definition request_orphans :: "'c cm_api \<Rightarrow> get_req_op \<Rightarrow> 'c \<Rightarrow> ptr multiset" where
  "request_orphans api op c =
     (case get_cm_event api (go_channel op) c of
        (Some ev, ec, c1) \<Rightarrow>
          if ev_type ev = RDMA_CM_EVENT_CONNECT_REQUEST \<and> is_error (fst (snd (create_event_channel api c1)))
          then {#ev_id ev#} else {#}
      | (None, ec, c1) \<Rightarrow> {#})"

definition listener_orphans :: "'c cm_api \<Rightarrow> 'c listen_world \<Rightarrow> ptr multiset" where
  "listener_orphans api w = (case lw_armed w of [] \<Rightarrow> {#} | op # ops \<Rightarrow> request_orphans api op (lw_cm w))"

text \<open>The steps, labelled with the ids they let go; \<open>env\<close> is what the rest of the program does to rdma_cm.\<close>

inductive listen_obj_step ::
  "'c cm_api \<Rightarrow> ('c \<Rightarrow> 'c \<Rightarrow> bool) \<Rightarrow> 'c listen_world \<Rightarrow> ptr multiset \<Rightarrow> 'c listen_world \<Rightarrow> bool"
  for api env where
  lo_open: "listener_open api reg ds ps (lw_impl w) (lw_cm w) = (ec, impl, c) \<Longrightarrow>
    listen_obj_step api env w {#} (w\<lparr>lw_impl := impl, lw_cm := c\<rparr>)"
| lo_bind: "listen_obj_step api env w {#} (w\<lparr>lw_cm := snd (listener_bind api port (lw_impl w) (lw_cm w))\<rparr>)"
| lo_listen: "listen_obj_step api env w {#} (w\<lparr>lw_cm := snd (listener_listen api n (lw_impl w) (lw_cm w))\<rparr>)"
| lo_get: "listen_obj_step api env w {#} (async_get_connection_request self h w)"
| lo_cancel: "listen_obj_step api env w {#} (listener_cancel w)"
| lo_op_cancel: "listen_obj_step api env w {#} (listener_op_cancellation type key w)"
| lo_perform: "listen_obj_step api env w (listener_orphans api w) (listener_perform api w)"
| lo_complete: "listen_obj_step api env w {#} (listener_complete api owner w)"
| lo_close: "listen_obj_step api env w {#} (listener_close api w)"
| lo_env: "env (lw_cm w) c \<Longrightarrow> listen_obj_step api env w {#} (w\<lparr>lw_cm := c\<rparr>)"

subsection \<open>One step\<close>

lemma mset_set_insert_objs:
  assumes "finite A" and "p \<notin> A" and "mset_set A = M"
  shows "mset_set (insert p A) = add_mset p M" "finite (insert p A)"
  using assms by simp_all

lemma obj_removed:
  assumes "finite A" and "mset_set A = M + obj p"
  shows "mset_set (if p = nullptr then A else A - {p}) = M" "finite (if p = nullptr then A else A - {p})"
  using assms mset_set_Diff_single [OF assms(1), of p M] by (simp_all split: if_splits)

lemma pair_freed:
  assumes fin: "finite A" and M: "mset_set A = M + cm_handle_objs (ch, i)"
    and B: "B = (if i = nullptr then A else A - {i})" and C: "C = (if ch = nullptr then B else B - {ch})"
  shows "mset_set C = M" "finite C"
proof -
  have 1: "mset_set B = M + obj ch" "finite B"
    using obj_removed [OF fin, of "M + obj ch" i] M B by (simp_all add: cm_handle_objs_def add.assoc)
  show "mset_set C = M" "finite C" using obj_removed [OF 1(2,1)] C by simp_all
qed

lemma release_handle_objs:
  assumes law: "listener_law live api" and "finite (live c)" and "mset_set (live c) = M + cm_handle_objs x"
  shows "mset_set (live (release_handle api x c)) = M" "finite (live (release_handle api x c))"
proof -
  obtain ch i where x: "x = (ch, i)" by fastforce
  have "live (release_handle api x c) = (let B = (if i = nullptr then live c else live c - {i})
      in if ch = nullptr then B else B - {ch})"
    by (simp add: x release_handle_def Let_def listener_lawD(3) [OF law] channel_lawD(4) [OF listener_lawD(1) [OF law]])
  then show "mset_set (live (release_handle api x c)) = M" "finite (live (release_handle api x c))"
    using pair_freed [OF assms(2), of M ch i] assms(3) x by (simp_all add: Let_def)
qed

lemma listener_open_account:
  assumes law: "listener_law live api" and acc: "listen_account live X w"
    and r: "listener_open api reg ds ps (lw_impl w) (lw_cm w) = (ec, impl, c)"
  shows "listen_account live X (w\<lparr>lw_impl := impl, lw_cm := c\<rparr>)"
proof (cases "listener_is_open (lw_impl w) \<or> \<not> ds_registered ds")
  case True
  then show ?thesis using r acc by (auto simp: listener_open_def split: if_splits)
next
  case False
  note D = listener_lawD [OF law] and H = channel_lawD [OF listener_lawD(1) [OF law]]
  obtain ch e1 c1 where k: "create_event_channel api (lw_cm w) = (ch, e1, c1)" by (metis prod_cases3)
  obtain rc e i c2 where q: "cma_create_id api c1 ch = (rc, e, i, c2)" by (metis prod_cases4)
  note C = create_event_channel_owned [OF D(1) k] and I = D(2) [OF q]
  have fin: "finite (live (lw_cm w))" and bal: "mset_set (live (lw_cm w)) = X + listen_objs w" and wf: "listen_wf w"
    using acc by (simp_all add: listen_account_def)
  have none: "listener_objs (lw_impl w) = {#}"
    using wf False by (simp add: listen_wf_def listener_is_open_def listener_objs_def)
  show ?thesis
  proof (cases "is_error e1")
    case True
    then have "impl = lw_impl w" "c = c1" using r False k by (simp_all add: listener_open_def)
    then show ?thesis using True C acc by (simp add: listen_account_def listen_wf_def listen_objs_def)
  next
    case ok: False
    then have C': "ch \<noteq> nullptr" "ch \<notin> live (lw_cm w)" "live c1 = insert ch (live (lw_cm w))" using C by simp_all
    have run: "listener_open api reg ds ps (lw_impl w) (lw_cm w) =
        (if rc \<noteq> 0 then (last_system_error e, lw_impl w, cma_destroy_channel api c2 ch)
         else if reg ch \<noteq> 0 then (make_system_error_code (reg ch), lw_impl w,
           cma_destroy_channel api (cma_destroy_id api c2 i) ch)
         else (no_error, \<lparr>li_channel = ch, li_cm_id = i, li_registered = True,
                 li_bind_endpoint = any_endpoint ps 0\<rparr>, c2))"
      using False k q ok C'(1) by (simp add: listener_open_def create_cm_id_def)
    consider "rc \<noteq> 0" | "rc = 0" "reg ch \<noteq> 0" | "rc = 0" "reg ch = 0" by blast
    then show ?thesis
    proof cases
      case 1
      then have "impl = lw_impl w" "live c = live (lw_cm w)"
        using r run I C' H(4) [of c2 ch] by (simp_all add: created_def)
      then show ?thesis using acc by (simp add: listen_account_def listen_wf_def listen_objs_def)
    next
      case 2
      then have "impl = lw_impl w" "live c = live (lw_cm w)"
        using r run I C' H(4) [of "cma_destroy_id api c2 i" ch] D(3) [of c2 i] by (auto simp: created_def)
      then show ?thesis using acc by (simp add: listen_account_def listen_wf_def listen_objs_def)
    next
      case 3
      then have "impl = \<lparr>li_channel = ch, li_cm_id = i, li_registered = True, li_bind_endpoint = any_endpoint ps 0\<rparr>"
        "c = c2" "i \<noteq> nullptr" "i \<notin> insert ch (live (lw_cm w))" "live c2 = insert i (insert ch (live (lw_cm w)))"
        using r run I C' by (simp_all add: created_def)
      then show ?thesis using wf fin bal none C'(1,2)
        by (simp add: listen_account_def listen_wf_def listen_objs_def listener_objs_def cm_handle_objs_def)
    qed
  qed
qed

text \<open>A turn of the waiting operation: what appears in rdma_cm is in its handle or let go.\<close>

lemma get_req_perform_objs:
  assumes law: "listener_law live api" and fin: "finite (live c)" and h: "go_handle op = (nullptr, nullptr)"
    and r: "get_req_do_perform api op c = (fin', op', c')"
  shows "mset_set (live c') = mset_set (live c) + cm_handle_objs (go_handle op') + request_orphans api op c \<and>
    finite (live c') \<and> (\<not> fin' \<longrightarrow> go_handle op' = (nullptr, nullptr))"
proof -
  note D = listener_lawD [OF law]
  obtain event ec c1 where g: "get_cm_event api (go_channel op) c = (event, ec, c1)" by (metis prod_cases3)
  show ?thesis
  proof (cases event)
    case None
    then have "live c1 = live c" using g D(8)
      by (auto simp: get_cm_event_def split: prod.splits sum.splits)
    then show ?thesis using r g None h fin
      by (auto simp: get_req_do_perform_def request_orphans_def split: if_splits)
  next
    case (Some ev)
    then have e: "ec = no_error" and a: "cma_get_event api c (go_channel op) = (Inr ev, c1)"
      using g by (auto simp: get_cm_event_def split: prod.splits sum.splits)
    note E = D(9) [OF a]
    obtain op2 c2 where p: "get_req_do_process api ev (op\<lparr>go_ec := ec\<rparr>) c1 = (op2, c2)" by fastforce
    have res: "fin'" "op' = op2" "c' = cma_ack_event api c2 ev"
      using r g Some e p by (auto simp: get_req_do_perform_def)
    have l: "live c' = live c2" by (simp add: res D(7))
    show ?thesis
    proof (cases "ev_type ev = RDMA_CM_EVENT_CONNECT_REQUEST")
      case False
      then have "op2 = op\<lparr>go_ec := connection_aborted\<rparr>" "c2 = c1" "live c1 = live c"
        using p E by (simp_all add: get_req_do_process_def)
      then show ?thesis using False res h fin l g Some by (simp add: request_orphans_def)
    next
      case req: True
      obtain ch e1 c3 where k: "create_event_channel api c1 = (ch, e1, c3)" by (metis prod_cases3)
      note C = create_event_channel_owned [OF D(1) k]
      have hc: "go_handle (copy_request ev (op\<lparr>go_ec := ec\<rparr>)) = (nullptr, nullptr)"
        using h by (simp add: copy_request_def split: option.split)
      have one: "mset_set (live c1) = add_mset (ev_id ev) (mset_set (live c))" "finite (live c1)"
        using E req fin by simp_all
      show ?thesis
      proof (cases "is_error e1")
        case True
        then have "go_handle op2 = (nullptr, nullptr)" "c2 = c3"
          using p req k hc by (auto simp: get_req_do_process_def Let_def)
        then show ?thesis using True C one l req k g Some res by (simp add: request_orphans_def)
      next
        case False
        obtain rc e2 c4 where m: "cma_migrate_id api c3 (ev_id ev) ch = (rc, e2, c4)" by (metis prod_cases3)
        have "live c4 = live c3" using D(4) [of c3 "ev_id ev" ch] m by simp
        moreover have "go_handle op2 = (ch, ev_id ev)" "c2 = c4"
          using p req k False m by (auto simp: get_req_do_process_def migrate_id_def cm_result_def Let_def)
        ultimately show ?thesis using False C E one l req k g Some res
          by (simp add: request_orphans_def cm_handle_objs_def)
      qed
    qed
  qed
qed

lemma listen_obj_step_account:
  assumes "listen_obj_step api env w lost w'" and law: "listener_law live api"
    and env: "\<And>c c'. env c c' \<Longrightarrow> live c' = live c" and "listen_account live X w"
  shows "listen_account live (X + lost) w'"
  using assms(1,4)
proof (induction rule: listen_obj_step.induct)
  case (lo_open reg ds ps w ec impl c)
  then show ?case using listener_open_account [OF law] by simp
next
  case (lo_bind w port)
  have "live (snd (listener_bind api port (lw_impl w) (lw_cm w))) = live (lw_cm w)"
    using listener_lawD(5) [OF law]
    by (simp add: listener_bind_def cm_bind_addr_def cm_guarded_def cm_result_def case_prod_beta)
  then show ?case using lo_bind by (simp add: listen_account_def listen_wf_def listen_objs_def)
next
  case (lo_listen w n)
  have "live (snd (listener_listen api n (lw_impl w) (lw_cm w))) = live (lw_cm w)"
    using listener_lawD(6) [OF law]
    by (simp add: listener_listen_def cm_listen_def cm_guarded_def cm_result_def case_prod_beta)
  then show ?case using lo_listen by (simp add: listen_account_def listen_wf_def listen_objs_def)
next
  case (lo_op_cancel w type key)
  have "sum_list (map (cm_handle_objs \<circ> go_handle) (filter (\<lambda>op. go_handler op = key) ops)) +
      sum_list (map (cm_handle_objs \<circ> go_handle) (filter (\<lambda>op. go_handler op \<noteq> key) ops)) =
      sum_list (map (cm_handle_objs \<circ> go_handle) ops)" for ops
    by (induction ops) (auto simp: ac_simps)
  from this [of "lw_armed w"] lo_op_cancel show ?case
    by (auto simp: listener_op_cancellation_def listen_account_def listen_wf_def listen_objs_def comp_def ac_simps)
next
  case (lo_perform w)
  show ?case
  proof (cases "lw_armed w")
    case Nil
    then show ?thesis using lo_perform by (simp add: listener_perform_def listener_orphans_def)
  next
    case (Cons op ops)
    obtain f op' c' where r: "get_req_do_perform api op (lw_cm w) = (f, op', c')" by (metis prod_cases3)
    have "go_handle op = (nullptr, nullptr)" "finite (live (lw_cm w))"
      using lo_perform Cons by (simp_all add: listen_account_def listen_wf_def)
    from get_req_perform_objs [OF law this(2,1) r] lo_perform Cons r \<open>go_handle op = (nullptr, nullptr)\<close>
    show ?thesis
      by (auto simp: listener_perform_def listener_orphans_def listen_account_def listen_wf_def listen_objs_def ac_simps)
  qed
next
  case (lo_complete w owner)
  show ?case
  proof (cases "lw_posted w")
    case Nil
    then show ?thesis using lo_complete by (simp add: listener_complete_def)
  next
    case (Cons op ops)
    let ?M = "X + (listener_objs (lw_impl w) + sum_list (map (cm_handle_objs \<circ> go_handle) (lw_armed w)) +
      sum_list (map (cm_handle_objs \<circ> go_handle) ops) + sum_list (map (cm_handle_objs \<circ> gu_handle) (lw_upcalls w)))"
    have "finite (live (lw_cm w))" "mset_set (live (lw_cm w)) = ?M + cm_handle_objs (go_handle op)"
      using lo_complete Cons by (simp_all add: listen_account_def listen_objs_def ac_simps)
    note R = release_handle_objs [OF law this]
    show ?thesis using lo_complete Cons R
      by (cases owner) (simp_all add: listener_complete_def get_req_do_complete_def listen_account_def listen_wf_def
          listen_objs_def ac_simps)
  qed
next
  case (lo_close w)
  let ?impl = "lw_impl w"
  let ?B = "if li_cm_id ?impl = nullptr then live (lw_cm w) else live (lw_cm w) - {li_cm_id ?impl}"
  let ?C = "if li_channel ?impl = nullptr then ?B else ?B - {li_channel ?impl}"
  let ?M = "X + (sum_list (map (cm_handle_objs \<circ> go_handle) (lw_armed w)) +
      sum_list (map (cm_handle_objs \<circ> go_handle) (lw_posted w)) +
      sum_list (map (cm_handle_objs \<circ> gu_handle) (lw_upcalls w)))"
  have l: "live (lw_cm (listener_close api w)) = ?C"
    by (simp add: listener_close_def Let_def listener_lawD(3) [OF law] channel_lawD(4) [OF listener_lawD(1) [OF law]])
  have "finite (live (lw_cm w))" "mset_set (live (lw_cm w)) = ?M + cm_handle_objs (li_channel ?impl, li_cm_id ?impl)"
    using lo_close by (simp_all add: listen_account_def listen_objs_def listener_objs_def ac_simps)
  from pair_freed [OF this refl refl] have "mset_set (live (lw_cm (listener_close api w))) = ?M"
    "finite (live (lw_cm (listener_close api w)))" unfolding l by blast+
  moreover have "listen_wf (listener_close api w)" "?M = X + listen_objs (listener_close api w)"
    using lo_close by (auto simp: listener_close_def listen_account_def listen_wf_def listen_objs_def
        listener_objs_def Let_def comp_def ac_simps)
  ultimately show ?case by (simp add: listen_account_def)
next
  case (lo_env w c)
  then show ?case using env by (auto simp: listen_account_def listen_wf_def listen_objs_def)
qed (auto simp: async_get_connection_request_def get_req_op_new_def listener_cancel_def listen_account_def
    listen_wf_def listen_objs_def comp_def ac_simps Let_def)

text \<open>
  No run of a listener loses or doubles an object of rdma_cm but the child ids of requests whose event
  channel could not be created: whatever else is alive is owned exactly once, by the rest of the program, by
  the listener, by one operation or by one handler that was given its connection. When the listener is closed
  and no operation is left, the connections handed to handlers and the ids let go are all that remains.
\<close>

theorem listener_conserves_objects:
  assumes run: "labelled_run (listen_obj_step api env) w lost w'" and "listener_law live api"
    and "\<And>c c'. env c c' \<Longrightarrow> live c' = live c" and "listen_account live X w"
  shows "listen_account live (X + lost) w' \<and>
    (\<not> listener_is_open (lw_impl w') \<and> lw_armed w' = [] \<and> lw_posted w' = [] \<longrightarrow>
      mset_set (live (lw_cm w')) = X + lost + sum_list (map (cm_handle_objs \<circ> gu_handle) (lw_upcalls w')))"
proof -
  have "listen_account live (X + lost) w'"
    using run_accumulates [OF run, of "listen_account live" X] listen_obj_step_account [OF _ assms(2,3)] assms(4) by blast
  then show ?thesis
    by (auto simp: listen_account_def listen_wf_def listen_objs_def listener_objs_def listener_is_open_def)
qed

subsection \<open>Two runs\<close>

text \<open>
  The example's rdma_cm, with an id made for every request. A listener is opened and asked for a
  connection, a request arrives, its handler is invoked, the listener is closed. The supply of addresses is
  a parameter: it may end before the child's channel.
\<close>

definition sim_next_event :: "cm_sim \<Rightarrow> ptr \<Rightarrow> (int + cm_event) \<times> cm_sim" where
  "sim_next_event s ch =
     (case sim_events s of
        [] \<Rightarrow> (Inl EAGAIN, s)
      | ev # evs \<Rightarrow>
          if ev_type ev = RDMA_CM_EVENT_CONNECT_REQUEST
          then (case sim_alloc (s\<lparr>sim_events := evs\<rparr>) of
                  (p, s') \<Rightarrow> if p = nullptr then (Inl 12, s') else (Inr (ev\<lparr>ev_id := p\<rparr>), s'))
          else (Inr ev, s\<lparr>sim_events := evs\<rparr>))"

definition sim_listen_api :: "cm_sim cm_api" where
  "sim_listen_api = sim_cm_api\<lparr>cma_get_event := sim_next_event\<rparr>"

lemma sim_alloc_created: "sim_alloc s = (p, s') \<Longrightarrow> created sim_live_set s (p \<noteq> nullptr) (if p = nullptr then 12 else 0) p s'"
  by (auto simp: sim_alloc_def created_def sim_live_set_def split: if_splits)

lemma sim_live_set_events [simp]: "sim_live_set (s\<lparr>sim_events := evs\<rparr>) = sim_live_set s"
  by (simp add: sim_live_set_def)

lemma sim_listener_law: "listener_law sim_live_set sim_listen_api"
proof -
  have ev: "if ev_type ev = RDMA_CM_EVENT_CONNECT_REQUEST
      then ev_id ev \<noteq> nullptr \<and> ev_id ev \<notin> sim_live_set s \<and> sim_live_set s' = insert (ev_id ev) (sim_live_set s)
      else sim_live_set s' = sim_live_set s" if "sim_next_event s ch = (Inr ev, s')" for s ch ev s'
    using that by (auto simp: sim_next_event_def created_def split: list.splits prod.splits if_splits dest!: sim_alloc_created)
  moreover have "sim_live_set s' = sim_live_set s" if "sim_next_event s ch = (Inl e, s')" for s ch e s'
    using that by (auto simp: sim_next_event_def created_def split: list.splits prod.splits if_splits dest!: sim_alloc_created)
  moreover have "channel_law sim_live_set sim_listen_api"
    using resource_law_channel [OF sim_resource_law] by (simp add: channel_law_def sim_listen_api_def)
  moreover have "\<forall>c ch rc e p c'. cma_create_id sim_listen_api c ch = (rc, e, p, c') \<longrightarrow> created sim_live_set c (rc = 0) e p c'"
    "\<forall>c p. sim_live_set (cma_destroy_id sim_listen_api c p) = sim_live_set c - {p}"
    using resource_lawD(2,6) [OF sim_resource_law] by (simp_all add: sim_listen_api_def)
  ultimately show ?thesis
    unfolding listener_law_def by (simp add: sim_listen_api_def) (simp add: sim_cm_api_def)
qed

definition sim_listening :: "ptr \<Rightarrow> cm_sim listen_world" where
  "sim_listening n = (let w = sim_listen_world\<lparr>lw_cm := (sim_start [RDMA_CM_EVENT_CONNECT_REQUEST])\<lparr>sim_next := n\<rparr>\<rparr> in
     case listener_open sim_listen_api (\<lambda>ch. 0) sim_device_service PS_v4 (lw_impl w) (lw_cm w) of
       (ec, impl, c) \<Rightarrow> w\<lparr>lw_impl := impl, lw_cm := c\<rparr>)"

definition sim_waiting :: "ptr \<Rightarrow> cm_sim listen_world" where
  "sim_waiting n = async_get_connection_request 64 3 (sim_listening n)"

definition sim_listen_final :: "ptr \<Rightarrow> cm_sim listen_world" where
  "sim_listen_final n = listener_close sim_listen_api
     (listener_complete sim_listen_api True (listener_perform sim_listen_api (sim_waiting n)))"

lemma sim_listen_run:
  "labelled_run (listen_obj_step sim_listen_api (\<lambda>c c'. False))
     (sim_listen_world\<lparr>lw_cm := (sim_start [RDMA_CM_EVENT_CONNECT_REQUEST])\<lparr>sim_next := n\<rparr>\<rparr>)
     (listener_orphans sim_listen_api (sim_waiting n)) (sim_listen_final n)"
proof -
  let ?step = "listen_obj_step sim_listen_api (\<lambda>c c'. False)"
  let ?w = "sim_listen_world\<lparr>lw_cm := (sim_start [RDMA_CM_EVENT_CONNECT_REQUEST])\<lparr>sim_next := n\<rparr>\<rparr>"
  obtain ec impl c where o: "listener_open sim_listen_api (\<lambda>ch. 0) sim_device_service PS_v4 (lw_impl ?w) (lw_cm ?w) =
      (ec, impl, c)" by (metis prod_cases3)
  have "?step ?w {#} (sim_listening n)"
    unfolding sim_listening_def Let_def o prod.case by (rule lo_open [OF o])
  note run_step [OF run_one [where step = ?step, OF this] lo_get [where self = 64 and h = 3]]
  note run_step [OF this [folded sim_waiting_def] lo_perform]
  note run_step [OF this lo_complete [where owner = True]]
  note run_step [OF this lo_close]
  then show ?thesis by (simp add: sim_listen_final_def)
qed

lemma sim_listen_account:
  "listen_account sim_live_set {#} (sim_listen_world\<lparr>lw_cm := (sim_start ts)\<lparr>sim_next := n\<rparr>\<rparr>)"
  by (simp add: listen_account_def listen_wf_def listen_objs_def listener_objs_def sim_listen_world_def
      listener_construct_def sim_start_def sim_live_set_def)

theorem listener_conserves_objects_witness:
  "mset_set (sim_live_set (lw_cm (sim_listen_final 16))) = {#19, 18#} \<and>
   mset_set (sim_live_set (lw_cm (sim_listen_final (- 3)))) = {#- 1#}"
proof -
  have end_state: "\<not> listener_is_open (lw_impl w) \<and> lw_armed w = [] \<and> lw_posted w = []"
    if "w = sim_listen_final n" "n = 16 \<or> n = - 3" for w n
    using that(2) unfolding that(1) by (elim disjE; hypsubst; code_simp)
  have "map gu_handle (lw_upcalls (sim_listen_final 16)) = [(19, 18)]"
    "map gu_handle (lw_upcalls (sim_listen_final (- 3))) = [(nullptr, nullptr)]" by code_simp+
  then have "sum_list (map (cm_handle_objs \<circ> gu_handle) (lw_upcalls (sim_listen_final 16))) = {#19, 18#}"
    "sum_list (map (cm_handle_objs \<circ> gu_handle) (lw_upcalls (sim_listen_final (- 3)))) = {#}"
    by (auto simp: cm_handle_objs_def map_eq_Cons_conv)
  moreover have "listener_orphans sim_listen_api (sim_waiting 16) = {#}"
    "listener_orphans sim_listen_api (sim_waiting (- 3)) = {#- 1#}" by code_simp+
  ultimately show ?thesis
    using listener_conserves_objects [OF sim_listen_run sim_listener_law _ sim_listen_account, of 16]
      listener_conserves_objects [OF sim_listen_run sim_listener_law _ sim_listen_account, of "- 3"]
      end_state [OF refl, of 16] end_state [OF refl, of "- 3"] by simp
qed

end
