(* ===== verification/Service_Base.thy ===== *)
theory Service_Base
  imports RDMA_Prelude
begin

text \<open>
  The intrusive list of live implementations that the services keep for shutdown:
  \<open>ibv/detail/ibv_service_base.hpp\<close>, \<open>ibv/detail/impl/ibv_service_base.ipp\<close> and their NetworkDirect
  counterparts \<open>nd/detail/nd_service_base.hpp\<close>, \<open>nd/detail/impl/nd_service_base.ipp\<close>.

  The nodes live at addresses; \<open>il_node\<close> is the memory that holds their links. The locale
  \<open>impl_registry\<close> is the contract of such a list towards the services; both backends' lists are
  instances.
\<close>

subsection \<open>Operations\<close>

record node =
  n_next :: ptr
  n_prev :: ptr

record impl_list =
  il_head :: ptr
  il_node :: "ptr \<Rightarrow> node"

abbreviation (input) set_next :: "ptr \<Rightarrow> ptr \<Rightarrow> impl_list \<Rightarrow> impl_list" where
  "set_next p v l \<equiv> l\<lparr>il_node := (il_node l)(p := (il_node l p)\<lparr>n_next := v\<rparr>)\<rparr>"

abbreviation (input) set_prev :: "ptr \<Rightarrow> ptr \<Rightarrow> impl_list \<Rightarrow> impl_list" where
  "set_prev p v l \<equiv> l\<lparr>il_node := (il_node l)(p := (il_node l p)\<lparr>n_prev := v\<rparr>)\<rparr>"

definition do_insert :: "ptr \<Rightarrow> impl_list \<Rightarrow> impl_list" where
  "do_insert impl l =
     (let l1 = set_next impl (il_head l) l;
          l2 = set_prev impl nullptr l1;
          l3 = (if il_head l2 \<noteq> nullptr then set_prev (il_head l2) impl l2 else l2)
      in l3\<lparr>il_head := impl\<rparr>)"

definition do_remove :: "ptr \<Rightarrow> impl_list \<Rightarrow> impl_list" where
  "do_remove impl l =
     (let l1 = (if il_head l = impl then l\<lparr>il_head := n_next (il_node l impl)\<rparr> else l);
          l2 = (if n_prev (il_node l1 impl) \<noteq> nullptr
                then set_next (n_prev (il_node l1 impl)) (n_next (il_node l1 impl)) l1 else l1);
          l3 = (if n_next (il_node l2 impl) \<noteq> nullptr
                then set_prev (n_next (il_node l2 impl)) (n_prev (il_node l2 impl)) l2 else l2);
          l4 = set_next impl nullptr l3
      in set_prev impl nullptr l4)"

definition nd_do_insert :: "ptr \<Rightarrow> impl_list \<Rightarrow> impl_list" where
  "nd_do_insert impl l =
     (let l1 = set_next impl (il_head l) l;
          l2 = set_prev impl nullptr l1;
          l3 = (if il_head l2 \<noteq> nullptr then set_prev (il_head l2) impl l2 else l2)
      in l3\<lparr>il_head := impl\<rparr>)"

definition nd_do_remove :: "ptr \<Rightarrow> impl_list \<Rightarrow> impl_list" where
  "nd_do_remove impl l =
     (let l1 = (if il_head l = impl then l\<lparr>il_head := n_next (il_node l impl)\<rparr> else l);
          l2 = (if n_prev (il_node l1 impl) \<noteq> nullptr
                then set_next (n_prev (il_node l1 impl)) (n_next (il_node l1 impl)) l1 else l1);
          l3 = (if n_next (il_node l2 impl) \<noteq> nullptr
                then set_prev (n_next (il_node l2 impl)) (n_prev (il_node l2 impl)) l2 else l2);
          l4 = set_next impl nullptr l3
      in set_prev impl nullptr l4)"

text \<open>
  \<open>base_shutdown\<close>: the destroyer is applied to each implementation, with a state of its own; it does
  not touch the links. \<open>None\<close> is a walk that never ends.
\<close>

partial_function (option) shutdown_walk :: "(ptr \<Rightarrow> 'd \<Rightarrow> 'd) \<Rightarrow> impl_list \<Rightarrow> ptr \<Rightarrow> 'd \<Rightarrow> 'd option" where
  "shutdown_walk destroyer l impl d =
     (if impl = nullptr then Some d
      else shutdown_walk destroyer l (n_next (il_node l impl)) (destroyer impl d))"

definition base_shutdown :: "(ptr \<Rightarrow> 'd \<Rightarrow> 'd) \<Rightarrow> impl_list \<Rightarrow> 'd \<Rightarrow> 'd option" where
  "base_shutdown destroyer l d = shutdown_walk destroyer l (il_head l) d"

partial_function (option) nd_shutdown_walk :: "(ptr \<Rightarrow> 'd \<Rightarrow> 'd) \<Rightarrow> impl_list \<Rightarrow> ptr \<Rightarrow> 'd \<Rightarrow> 'd option" where
  "nd_shutdown_walk destroyer l impl d =
     (if impl = nullptr then Some d
      else nd_shutdown_walk destroyer l (n_next (il_node l impl)) (destroyer impl d))"

definition nd_base_shutdown :: "(ptr \<Rightarrow> 'd \<Rightarrow> 'd) \<Rightarrow> impl_list \<Rightarrow> 'd \<Rightarrow> 'd option" where
  "nd_base_shutdown destroyer l d = nd_shutdown_walk destroyer l (il_head l) d"

subsection \<open>The list a chain of nodes represents\<close>

fun seg :: "(ptr \<Rightarrow> node) \<Rightarrow> ptr \<Rightarrow> ptr \<Rightarrow> ptr list \<Rightarrow> ptr \<Rightarrow> bool" where
  "seg f before p [] q \<longleftrightarrow> p = q"
| "seg f before p (x # xs) q \<longleftrightarrow>
     p = x \<and> x \<noteq> nullptr \<and> n_prev (f x) = before \<and> seg f x (n_next (f x)) xs q"

definition represents :: "impl_list \<Rightarrow> ptr list \<Rightarrow> bool" where
  "represents l xs \<longleftrightarrow> distinct xs \<and> seg (il_node l) nullptr (il_head l) xs nullptr"

lemma seg_nonnull: "seg f before p xs q \<Longrightarrow> nullptr \<notin> set xs"
  by (induction xs arbitrary: before p) auto

lemma seg_frame: "x \<notin> set xs \<Longrightarrow> seg (f(x := v)) before p xs q = seg f before p xs q"
  by (induction xs arbitrary: before p) auto

lemma seg_append:
  "seg f before p (xs @ ys) q \<longleftrightarrow> (\<exists>m. seg f before p xs m \<and> seg f (last (before # xs)) m ys q)"
  by (induction xs arbitrary: before p) auto

lemma seg_next_last:
  assumes "seg f before p (xs @ [y]) q" and "y \<notin> set xs"
  shows "seg (f(y := (f y)\<lparr>n_next := m\<rparr>)) before p (xs @ [y]) m"
  using assms by (auto simp: seg_append seg_frame)

lemma seg_prev_first:
  assumes "seg f before p (z # zs) q" and "z \<notin> set zs"
  shows "seg (f(z := (f z)\<lparr>n_prev := b\<rparr>)) b p (z # zs) q"
  using assms by (auto simp: seg_frame)

lemma do_insert_represents:
  assumes "represents l xs" and "p \<noteq> nullptr" and "p \<notin> set xs"
  shows "represents (do_insert p l) (p # xs)"
proof (cases xs)
  case Nil
  then show ?thesis using assms by (simp add: represents_def do_insert_def Let_def)
next
  case (Cons z zs)
  then have "il_head l = z" "z \<noteq> nullptr" "z \<notin> set zs" "z \<noteq> p" "p \<notin> set zs"
    "seg (il_node l) z (n_next (il_node l z)) zs nullptr" "distinct zs"
    using assms by (auto simp: represents_def)
  then show ?thesis
    using Cons assms(2) by (simp add: represents_def do_insert_def Let_def seg_frame)
qed

text \<open>Taking out the node between \<open>as\<close> and \<open>bs\<close>.\<close>

lemma do_remove_middle:
  assumes rep: "represents l (as @ p # bs)"
  shows "represents (do_remove p l) (as @ bs)"
proof -
  let ?f = "il_node l"
  define before where "before = last (nullptr # as)"
  define after where "after = n_next (?f p)"
  have d: "distinct as" "distinct bs" "p \<notin> set as" "p \<notin> set bs" "set as \<inter> set bs = {}"
    using rep by (auto simp: represents_def)
  have s: "seg ?f nullptr (il_head l) as p" "n_prev (?f p) = before" "p \<noteq> nullptr"
    "seg ?f p after bs nullptr"
    using rep by (auto simp: represents_def seg_append before_def after_def)
  have nn: "nullptr \<notin> set as" "nullptr \<notin> set bs" using seg_nonnull s by blast+
  have head: "il_head l = p \<longleftrightarrow> as = []" using s(1) d(3) by (cases as) auto
  have after: "after = (case bs of [] \<Rightarrow> nullptr | z # _ \<Rightarrow> z)" using s(4) by (cases bs) auto
  have bf: "before \<noteq> nullptr \<Longrightarrow> before \<in> set as" by (auto simp: before_def)
  have af: "after \<noteq> nullptr \<Longrightarrow> after \<in> set bs" using after by (cases bs) auto
  define f1 where "f1 = (if before \<noteq> nullptr then ?f(before := (?f before)\<lparr>n_next := after\<rparr>) else ?f)"
  define f2 where "f2 = (if after \<noteq> nullptr then f1(after := (f1 after)\<lparr>n_prev := before\<rparr>) else f1)"
  define f3 where "f3 = f2(p := \<lparr>n_next = nullptr, n_prev = nullptr\<rparr>)"
  have f1p: "f1 p = ?f p" using bf d(3) by (auto simp: f1_def)
  have f2p: "f2 p = ?f p" using f1p af d(4) by (auto simp: f2_def)
  have heads: "il_head (do_remove p l) = (if as = [] then after else il_head l)"
    using head by (simp add: do_remove_def Let_def after_def)
  have nodes: "il_node (do_remove p l) = f3"
    using f1p f2p s(2) by (auto simp: do_remove_def Let_def f3_def f2_def f1_def after_def fun_eq_iff)
  have "seg f3 nullptr (if as = [] then after else il_head l) as after"
  proof (cases as rule: rev_cases)
    case (snoc cs y)
    then have y: "before = y" "before \<noteq> nullptr" "y \<notin> set cs" using d(1) nn(1) by (auto simp: before_def)
    have "seg f1 nullptr (il_head l) as after"
      using seg_next_last [of ?f nullptr "il_head l" cs y p after] s(1) snoc y by (simp add: f1_def)
    moreover have "after \<notin> set as" using af d(5) nn(1) by (cases "after = nullptr") auto
    ultimately show ?thesis using snoc d(3) by (auto simp: f3_def f2_def seg_frame)
  qed simp
  moreover have "seg f3 before after bs nullptr"
  proof (cases bs)
    case Nil
    then show ?thesis using after by simp
  next
    case (Cons z zs)
    then have z: "after = z" "after \<noteq> nullptr" "z \<notin> set zs" using after d(2) nn(2) by auto
    have "before \<notin> set bs" using bf d(5) nn(2) by (cases "before = nullptr") auto
    then have "seg f1 p after bs nullptr" using s(4) by (simp add: f1_def seg_frame)
    then have "seg f2 before after bs nullptr"
      using seg_prev_first [of f1 p after z zs nullptr before] Cons z by (simp add: f2_def)
    then show ?thesis using d(4) by (simp add: f3_def seg_frame)
  qed
  ultimately show ?thesis
    using d by (auto simp: represents_def nodes heads seg_append before_def)
qed

lemma do_remove_represents:
  assumes "represents l xs" and "p \<in> set xs"
  shows "represents (do_remove p l) (remove1 p xs)"
proof -
  obtain as bs where "xs = as @ p # bs" "p \<notin> set as" using assms(2) by (meson split_list_first)
  then show ?thesis using assms(1) do_remove_middle [of l as p bs] by (simp add: remove1_append)
qed

lemma shutdown_walk_visits:
  "seg (il_node l) before p xs nullptr \<Longrightarrow> shutdown_walk destroyer l p d = Some (fold destroyer xs d)"
proof (induction xs arbitrary: before p d)
  case Nil
  then show ?case by (subst shutdown_walk.simps) simp
next
  case (Cons x xs)
  then have "shutdown_walk destroyer l (n_next (il_node l x)) (destroyer x d) =
      Some (fold destroyer xs (destroyer x d))" by (intro Cons.IH) auto
  then show ?case using Cons.prems by (subst shutdown_walk.simps) simp
qed

lemma base_shutdown_visits: "represents l xs \<Longrightarrow> base_shutdown destroyer l d = Some (fold destroyer xs d)"
  by (auto simp: base_shutdown_def represents_def intro: shutdown_walk_visits)

lemma nd_shutdown_walk_visits:
  "seg (il_node l) before p xs nullptr \<Longrightarrow> nd_shutdown_walk destroyer l p d = Some (fold destroyer xs d)"
proof (induction xs arbitrary: before p d)
  case Nil
  then show ?case by (subst nd_shutdown_walk.simps) simp
next
  case (Cons x xs)
  then have "nd_shutdown_walk destroyer l (n_next (il_node l x)) (destroyer x d) =
      Some (fold destroyer xs (destroyer x d))" by (intro Cons.IH) auto
  then show ?case using Cons.prems by (subst nd_shutdown_walk.simps) simp
qed

lemma nd_base_shutdown_visits: "represents l xs \<Longrightarrow> nd_base_shutdown destroyer l d = Some (fold destroyer xs d)"
  by (auto simp: nd_base_shutdown_def represents_def intro: nd_shutdown_walk_visits)

subsection \<open>The contract of the registry\<close>

datatype reg_op = Reg_insert ptr | Reg_remove ptr

fun reg_spec :: "reg_op \<Rightarrow> ptr list \<Rightarrow> ptr list" where
  "reg_spec (Reg_insert p) xs = p # xs"
| "reg_spec (Reg_remove p) xs = remove1 p xs"

fun reg_ok :: "reg_op \<Rightarrow> ptr list \<Rightarrow> bool" where
  "reg_ok (Reg_insert p) xs \<longleftrightarrow> p \<noteq> nullptr \<and> p \<notin> set xs"
| "reg_ok (Reg_remove p) xs \<longleftrightarrow> p \<in> set xs"

fun reg_trace_ok :: "reg_op list \<Rightarrow> ptr list \<Rightarrow> bool" where
  "reg_trace_ok [] xs \<longleftrightarrow> True"
| "reg_trace_ok (r # rs) xs \<longleftrightarrow> reg_ok r xs \<and> reg_trace_ok rs (reg_spec r xs)"

locale impl_registry =
  fixes ins :: "ptr \<Rightarrow> 's \<Rightarrow> 's" and rem :: "ptr \<Rightarrow> 's \<Rightarrow> 's"
    and visit :: "(ptr \<Rightarrow> 'd \<Rightarrow> 'd) \<Rightarrow> 's \<Rightarrow> 'd \<Rightarrow> 'd option"
    and rep :: "'s \<Rightarrow> ptr list \<Rightarrow> bool"
  assumes ins_rep: "rep s xs \<Longrightarrow> p \<noteq> nullptr \<Longrightarrow> p \<notin> set xs \<Longrightarrow> rep (ins p s) (p # xs)"
    and rem_rep: "rep s xs \<Longrightarrow> p \<in> set xs \<Longrightarrow> rep (rem p s) (remove1 p xs)"
    and visit_rep: "rep s xs \<Longrightarrow> visit destroyer s d = Some (fold destroyer xs d)"
begin

fun run :: "reg_op \<Rightarrow> 's \<Rightarrow> 's" where
  "run (Reg_insert p) s = ins p s"
| "run (Reg_remove p) s = rem p s"

lemma run_rep: "rep s xs \<Longrightarrow> reg_ok r xs \<Longrightarrow> rep (run r s) (reg_spec r xs)"
  by (cases r) (auto intro: ins_rep rem_rep)

lemma trace_rep: "rep s xs \<Longrightarrow> reg_trace_ok rs xs \<Longrightarrow> rep (fold run rs s) (fold reg_spec rs xs)"
  by (induction rs arbitrary: s xs) (auto intro: run_rep)

lemma shutdown_after_trace:
  assumes "rep s xs" and "reg_trace_ok rs xs"
  shows "visit destroyer (fold run rs s) d = Some (fold destroyer (fold reg_spec rs xs) d)"
  by (rule visit_rep [OF trace_rep [OF assms]])

end

lemma nd_do_insert_eq: "nd_do_insert = do_insert"
  by (intro ext) (simp add: nd_do_insert_def do_insert_def)

lemma nd_do_remove_eq: "nd_do_remove = do_remove"
  by (intro ext) (simp add: nd_do_remove_def do_remove_def)

interpretation ibv_base: impl_registry do_insert do_remove base_shutdown represents
  by unfold_locales (rule do_insert_represents do_remove_represents base_shutdown_visits; assumption)+

interpretation nd_base: impl_registry nd_do_insert nd_do_remove nd_base_shutdown represents
  by unfold_locales (auto simp: nd_do_insert_eq nd_do_remove_eq intro: do_insert_represents do_remove_represents
    nd_base_shutdown_visits)

text \<open>Running a construction or a destruction on the nodes.\<close>

fun base_run :: "reg_op \<Rightarrow> impl_list \<Rightarrow> impl_list" where
  "base_run (Reg_insert p) l = do_insert p l"
| "base_run (Reg_remove p) l = do_remove p l"

fun nd_base_run :: "reg_op \<Rightarrow> impl_list \<Rightarrow> impl_list" where
  "nd_base_run (Reg_insert p) l = nd_do_insert p l"
| "nd_base_run (Reg_remove p) l = nd_do_remove p l"

lemma base_run_eq: "base_run = ibv_base.run" "nd_base_run = nd_base.run"
proof -
  have "base_run r l = ibv_base.run r l" "nd_base_run r l = nd_base.run r l" for r l
    by (cases r; simp add: ibv_base.run.simps nd_base.run.simps)+
  then show "base_run = ibv_base.run" "nd_base_run = nd_base.run" by (simp_all add: fun_eq_iff)
qed

definition empty_list :: impl_list where
  "empty_list = \<lparr>il_head = nullptr, il_node = \<lambda>p. \<lparr>n_next = nullptr, n_prev = nullptr\<rparr>\<rparr>"

lemma empty_list_represents: "represents empty_list []"
  by (simp add: represents_def empty_list_def)

text \<open>
  C32. In both backends the intrusive list refines a plain list: after any sequence of constructions and
  destructions in which no implementation is registered twice and only registered ones are removed,
  shutdown ends and applies the destroyer to each registered implementation exactly once, the last
  registered first.
\<close>

theorem shutdown_visits_registered:
  assumes "reg_trace_ok rs []"
  shows "base_shutdown destroyer (fold base_run rs empty_list) d =
      Some (fold destroyer (fold reg_spec rs []) d) \<and>
    nd_base_shutdown destroyer (fold nd_base_run rs empty_list) d =
      Some (fold destroyer (fold reg_spec rs []) d)"
  unfolding base_run_eq
  by (rule conjI [OF ibv_base.shutdown_after_trace [OF empty_list_represents assms]
      nd_base.shutdown_after_trace [OF empty_list_represents assms]])

theorem shutdown_visits_registered_witness:
  "base_shutdown (\<lambda>p ps. p # ps)
     (fold base_run [Reg_insert 8, Reg_insert 16, Reg_insert 24, Reg_remove 16] empty_list) [] = Some [8, 24] \<and>
   nd_base_shutdown (\<lambda>p ps. p # ps)
     (fold nd_base_run [Reg_insert 8, Reg_insert 16, Reg_insert 24, Reg_remove 16] empty_list) [] = Some [8, 24]"
proof -
  have "fold (\<lambda>p ps. p # ps) (fold reg_spec [Reg_insert 8, Reg_insert 16, Reg_insert 24, Reg_remove 16] [])
      [] = [8, 24]" by simp
  then show ?thesis
    using shutdown_visits_registered [of "[Reg_insert 8, Reg_insert 16, Reg_insert 24, Reg_remove 16]"
        "\<lambda>p ps. p # ps" "[]"] by simp
qed

end
