(* ===== verification/IBV_Listener_Service.thy ===== *)
theory IBV_Listener_Service
  imports IBV_Listener_Objects Service_Base
begin

text \<open>
  The listener service with all its listeners: \<open>construct\<close>, \<open>destroy\<close>, the moves and \<open>shutdown\<close> of
  \<open>ibv/detail/ibv_service_listener.hpp\<close> over the intrusive list of \<open>ibv_service_base\<close>.

  A listener lives at the address of its implementation, its descriptor's queue is \<open>ls_armed\<close>; rdma_cm and
  the scheduler's queue are shared. Unlike a connector's, an operation of a listener reads nothing but
  the event channel, so it can complete after a move: the queue follows the channel to the target. Its
  cancellation functor, however, keeps the address of the listener it was started on: after a move a signal
  looks into the source, and when that listener is gone it reads memory that is gone (\<open>ls_dangling\<close>).
\<close>

subsection \<open>State\<close>

record 'c listener_service =
  ls_cm :: 'c
  ls_list :: impl_list
  ls_impl :: "ptr \<Rightarrow> listener_impl option"
  ls_armed :: "ptr \<Rightarrow> get_req_op list"
  ls_posted :: "get_req_op list"
  ls_upcalls :: "get_req_upcall list"
  ls_dangling :: bool

definition lsv_focus :: "ptr \<Rightarrow> 'c listener_service \<Rightarrow> 'c listen_world" where
  "lsv_focus p s =
     \<lparr>lw_cm = ls_cm s, lw_impl = (case ls_impl s p of None \<Rightarrow> listener_construct | Some i \<Rightarrow> i),
      lw_armed = ls_armed s p, lw_posted = ls_posted s, lw_upcalls = ls_upcalls s\<rparr>"

definition lsv_update :: "ptr \<Rightarrow> 'c listen_world \<Rightarrow> 'c listener_service \<Rightarrow> 'c listener_service" where
  "lsv_update p w s =
     s\<lparr>ls_cm := lw_cm w, ls_impl := (ls_impl s)(p \<mapsto> lw_impl w), ls_armed := (ls_armed s)(p := lw_armed w),
       ls_posted := lw_posted w, ls_upcalls := lw_upcalls w\<rparr>"

subsection \<open>Lifecycle\<close>

definition lsv_construct :: "ptr \<Rightarrow> 'c listener_service \<Rightarrow> 'c listener_service" where
  "lsv_construct p s =
     s\<lparr>ls_list := do_insert p (ls_list s), ls_impl := (ls_impl s)(p \<mapsto> listener_construct),
       ls_armed := (ls_armed s)(p := [])\<rparr>"

definition lsv_close :: "'c cm_api \<Rightarrow> ptr \<Rightarrow> 'c listener_service \<Rightarrow> 'c listener_service" where
  "lsv_close api p s = lsv_update p (listener_close api (lsv_focus p s)) s"

definition lsv_destroy :: "'c cm_api \<Rightarrow> ptr \<Rightarrow> 'c listener_service \<Rightarrow> 'c listener_service" where
  "lsv_destroy api p s =
     (let s1 = lsv_close api p s
      in s1\<lparr>ls_list := do_remove p (ls_list s1), ls_impl := (ls_impl s1)(p := None)\<rparr>)"

definition lsv_move_construct :: "ptr \<Rightarrow> ptr \<Rightarrow> 'c listener_service \<Rightarrow> 'c listener_service" where
  "lsv_move_construct p q s =
     (case listener_move_construct (lw_impl (lsv_focus q s)) of (i, j) \<Rightarrow>
        s\<lparr>ls_list := do_insert p (ls_list s), ls_impl := (ls_impl s)(p \<mapsto> i, q \<mapsto> j),
          ls_armed := (if li_channel i \<noteq> nullptr then (ls_armed s)(p := ls_armed s q, q := [])
                       else (ls_armed s)(p := []))\<rparr>)"

definition lsv_move_assign :: "'c cm_api \<Rightarrow> ptr \<Rightarrow> ptr \<Rightarrow> 'c listener_service \<Rightarrow> 'c listener_service" where
  "lsv_move_assign api p q s =
     (case listener_move_assign api (lw_impl (lsv_focus q s)) (lsv_focus p s) of (w, j) \<Rightarrow>
        (let s1 = lsv_update p w s
         in s1\<lparr>ls_impl := (ls_impl s1)(q \<mapsto> j),
              ls_armed := (if li_channel (lw_impl w) \<noteq> nullptr
                           then (ls_armed s1)(p := ls_armed s q, q := []) else ls_armed s1)\<rparr>))"

definition lsv_shutdown :: "'c cm_api \<Rightarrow> 'c listener_service \<Rightarrow> 'c listener_service option" where
  "lsv_shutdown api s = base_shutdown (lsv_close api) (ls_list s) s"

text \<open>The scheduler completes the front operation, or destroys it when there is no owner.\<close>

definition lsv_complete :: "'c cm_api \<Rightarrow> bool \<Rightarrow> 'c listener_service \<Rightarrow> 'c listener_service" where
  "lsv_complete api owner s =
     (let w = listener_complete api owner (lsv_focus nullptr s)
      in s\<lparr>ls_cm := lw_cm w, ls_posted := lw_posted w, ls_upcalls := lw_upcalls w\<rparr>)"

text \<open>
  A cancellation signal of type \<open>type\<close> for the operation \<open>op\<close> (\<open>cm_op_cancellation\<close>): it looks into the descriptor of the
  listener at the address the functor keeps, wherever the operation is queued now.
\<close>

definition lsv_op_cancel :: "u32 \<Rightarrow> get_req_op \<Rightarrow> 'c listener_service \<Rightarrow> 'c listener_service" where
  "lsv_op_cancel type op s =
     (case go_cancel_data op of
        None \<Rightarrow> s
      | Some q \<Rightarrow>
          (case ls_impl s q of
             None \<Rightarrow> s\<lparr>ls_dangling := (ls_dangling s \<or> type AND 7 \<noteq> 0)\<rparr>
           | Some i \<Rightarrow> lsv_update q (listener_op_cancellation type (go_handler op) (lsv_focus q s)) s))"

definition lsv_outstanding :: "'c listener_service \<Rightarrow> get_req_op set" where
  "lsv_outstanding s = (\<Union>p. set (ls_armed s p)) \<union> set (ls_posted s)"

text \<open>
  The calls on the listener at \<open>self\<close> and the reactor's turn on its descriptor, with the handlers they take in and the
  ids they let go.
\<close>

inductive listener_call ::
  "'c cm_api \<Rightarrow> ptr \<Rightarrow> 'c listen_world \<Rightarrow> nat multiset \<Rightarrow> ptr multiset \<Rightarrow> 'c listen_world \<Rightarrow> bool" for api self where
  ll_open: "listener_open api reg ds ps (lw_impl w) (lw_cm w) = (ec, impl, c) \<Longrightarrow>
    listener_call api self w {#} {#} (w\<lparr>lw_impl := impl, lw_cm := c\<rparr>)"
| ll_bind: "listener_call api self w {#} {#} (w\<lparr>lw_cm := snd (listener_bind api port (lw_impl w) (lw_cm w))\<rparr>)"
| ll_listen: "listener_call api self w {#} {#} (w\<lparr>lw_cm := snd (listener_listen api n (lw_impl w) (lw_cm w))\<rparr>)"
| ll_get: "listener_call api self w {#h#} {#} (async_get_connection_request self h w)"
| ll_cancel: "listener_call api self w {#} {#} (listener_cancel w)"
| ll_perform: "listener_call api self w {#} (listener_orphans api w) (listener_perform api w)"

lemma listener_call_steps:
  assumes "listener_call api self w hs lost w'"
  shows "listen_step api w hs w'" "listen_obj_step api env w lost w'"
  using assms by (induction rule: listener_call.induct) (blast intro: listen_step.intros listen_obj_step.intros)+

subsection \<open>One listener\<close>

text \<open>An operation in the reactor waits on the channel of an open listener and has no connection yet.\<close>

definition listener_ok :: "listener_impl \<Rightarrow> get_req_op list \<Rightarrow> bool" where
  "listener_ok i ops \<longleftrightarrow> (li_channel i = nullptr \<longleftrightarrow> li_cm_id i = nullptr) \<and>
     (\<forall>op\<in>set ops. li_channel i \<noteq> nullptr \<and> go_channel op = li_channel i \<and> go_handle op = (nullptr, nullptr))"

lemma listener_ok_objs:
  "listener_ok i ops \<Longrightarrow> sum_list (map (cm_handle_objs \<circ> go_handle) ops) = {#}"
  by (induction ops) (auto simp: listener_ok_def)

lemma get_req_perform_channel: "go_channel (fst (snd (get_req_do_perform api op c))) = go_channel op"
  by (simp add: get_req_do_perform_def get_req_do_process_def copy_request_def Let_def
      split: prod.split option.split)

lemma listener_call_ok:
  assumes "listener_call api self w hs lost w'" and "listener_ok (lw_impl w) (lw_armed w)" and "listen_wf w'"
  shows "listener_ok (lw_impl w') (lw_armed w')"
  using assms
proof (induction rule: listener_call.induct)
  case (ll_open reg ds ps w ec impl c)
  show ?case
  proof (cases "lw_armed w")
    case Nil
    then show ?thesis using ll_open by (simp add: listener_ok_def listen_wf_def)
  next
    case (Cons op ops)
    then have "listener_is_open (lw_impl w)" using ll_open by (auto simp: listener_ok_def listener_is_open_def)
    then show ?thesis using ll_open by (simp add: listener_open_def)
  qed
next
  case (ll_perform w)
  show ?case
  proof (cases "lw_armed w")
    case Nil
    then show ?thesis using ll_perform by (simp add: listener_perform_def)
  next
    case (Cons op ops)
    then show ?thesis using ll_perform get_req_perform_channel [of api op "lw_cm w"]
      by (auto simp: listener_perform_def listener_ok_def listen_wf_def split: prod.splits if_splits)
  qed
qed (auto simp: listener_ok_def async_get_connection_request_def listener_cancel_def get_req_op_new_def
    listener_is_open_def Let_def)

lemma listener_close_sel:
  assumes "listener_ok (lw_impl w) (lw_armed w)"
  shows "lw_armed (listener_close api w) = []" "li_channel (lw_impl (listener_close api w)) = nullptr"
    "li_cm_id (lw_impl (listener_close api w)) = nullptr" "lw_upcalls (listener_close api w) = lw_upcalls w"
    "lw_posted (listener_close api w) = lw_posted w @ map aborted_op (lw_armed w)"
  using assms by (cases "lw_armed w"; simp add: listener_close_def listener_ok_def Let_def)+

subsection \<open>The invariant\<close>

definition lsv_ok :: "'c listener_service \<Rightarrow> bool" where
  "lsv_ok s \<longleftrightarrow>
     (\<exists>ps. represents (ls_list s) ps \<and> set ps = dom (ls_impl s)) \<and>
     (\<forall>p i. ls_impl s p = Some i \<longrightarrow> listener_ok i (ls_armed s p)) \<and>
     (\<forall>p. ls_impl s p = None \<longrightarrow> ls_armed s p = [])"

text \<open>The objects of the listeners, those of connections on their way, the handlers waiting and answered.\<close>

definition lsv_objs :: "'c listener_service \<Rightarrow> ptr multiset" where
  "lsv_objs s = (\<Sum>p\<in>dom (ls_impl s). listener_objs (the (ls_impl s p)))"

definition lsv_queue_objs :: "'c listener_service \<Rightarrow> ptr multiset" where
  "lsv_queue_objs s = sum_list (map (cm_handle_objs \<circ> go_handle) (ls_posted s)) +
     sum_list (map (cm_handle_objs \<circ> gu_handle) (ls_upcalls s))"

definition lsv_waiting :: "'c listener_service \<Rightarrow> nat multiset" where
  "lsv_waiting s = (\<Sum>p\<in>dom (ls_impl s). mset (map go_handler (ls_armed s p)))"

definition lsv_answered :: "'c listener_service \<Rightarrow> nat multiset" where
  "lsv_answered s = mset (map go_handler (ls_posted s)) + mset (map gu_handler (ls_upcalls s))"

definition lsv_inv :: "('c \<Rightarrow> ptr set) \<Rightarrow> ptr multiset \<Rightarrow> nat multiset \<Rightarrow> 'c listener_service \<Rightarrow> bool" where
  "lsv_inv live X H s \<longleftrightarrow> lsv_ok s \<and> finite (live (ls_cm s)) \<and>
     mset_set (live (ls_cm s)) = X + lsv_objs s + lsv_queue_objs s \<and> H = lsv_waiting s + lsv_answered s"

lemma lsv_invD:
  assumes "lsv_inv live X H s"
  shows "lsv_ok s" "finite (live (ls_cm s))" "mset_set (live (ls_cm s)) = X + lsv_objs s + lsv_queue_objs s"
    "H = lsv_waiting s + lsv_answered s"
  using assms by (simp_all add: lsv_inv_def)

lemma lsv_okI:
  assumes "represents (ls_list s) ps" and "set ps = dom (ls_impl s)"
    and "\<And>p i. ls_impl s p = Some i \<Longrightarrow> listener_ok i (ls_armed s p)" and "\<And>p. ls_impl s p = None \<Longrightarrow> ls_armed s p = []"
  shows "lsv_ok s"
  using assms unfolding lsv_ok_def by blast

lemma lsv_okD:
  assumes "lsv_ok s"
  shows "\<exists>ps. represents (ls_list s) ps \<and> set ps = dom (ls_impl s)" "finite (dom (ls_impl s))"
    "ls_impl s p = Some i \<Longrightarrow> listener_ok i (ls_armed s p)" "ls_impl s p = None \<Longrightarrow> ls_armed s p = []"
  using assms unfolding lsv_ok_def by (blast, metis List.finite_set, blast+)

text \<open>What the other listeners contribute.\<close>

abbreviation (input) "others_objs p s \<equiv> (\<Sum>q\<in>dom (ls_impl s) - {p}. listener_objs (the (ls_impl s q)))"
abbreviation (input) "others_waiting p s \<equiv> (\<Sum>q\<in>dom (ls_impl s) - {p}. mset (map go_handler (ls_armed s q)))"

lemma lsv_split:
  assumes "finite (dom (ls_impl s))" and "ls_impl s p = Some i"
  shows "lsv_objs s = listener_objs i + others_objs p s"
    "lsv_waiting s = mset (map go_handler (ls_armed s p)) + others_waiting p s"
  using assms by (simp_all add: lsv_objs_def lsv_waiting_def sum.remove [of "dom (ls_impl s)" p] domIff)

lemma lsv_update_sel:
  assumes "ls_impl s p = Some i"
  shows "dom (ls_impl (lsv_update p w s)) = dom (ls_impl s)" "ls_impl (lsv_update p w s) p = Some (lw_impl w)"
    "others_objs p (lsv_update p w s) = others_objs p s" "others_waiting p (lsv_update p w s) = others_waiting p s"
  using assms by (auto simp: lsv_update_def intro!: sum.cong)

lemma lsv_focus_objs:
  assumes "lsv_ok s" and "ls_impl s p = Some i"
  shows "listen_objs (lsv_focus p s) = listener_objs i + lsv_queue_objs s"
    "listen_owed (lsv_focus p s) + listen_invoked (lsv_focus p s) = mset (map go_handler (ls_armed s p)) + lsv_answered s"
  using assms listener_ok_objs [OF lsv_okD(3) [OF assms]]
  by (simp_all add: lsv_focus_def listen_objs_def lsv_queue_objs_def listen_owed_def listen_invoked_def lsv_answered_def)

lemma lsv_focus_account:
  assumes inv: "lsv_inv live X H s" and i: "ls_impl s p = Some i"
  shows "listen_account live (X + others_objs p s) (lsv_focus p s)"
proof -
  note I = lsv_invD [OF inv]
  have "listen_wf (lsv_focus p s)"
    using lsv_okD(3) [OF I(1) i] i by (auto simp: listen_wf_def lsv_focus_def listener_ok_def)
  moreover have "lw_cm (lsv_focus p s) = ls_cm s" by (simp add: lsv_focus_def)
  ultimately show ?thesis
    using I(2,3) lsv_split(1) [OF lsv_okD(2) [OF I(1)] i] lsv_focus_objs(1) [OF I(1) i]
    by (simp add: listen_account_def ac_simps)
qed

lemma lsv_update_inv:
  assumes inv: "lsv_inv live X H s" and i: "ls_impl s p = Some i"
    and acc: "listen_account live (X + others_objs p s + lost) w" and ok: "listener_ok (lw_impl w) (lw_armed w)"
    and bal: "listen_owed w + listen_invoked w = listen_owed (lsv_focus p s) + listen_invoked (lsv_focus p s) + hs"
  shows "lsv_inv live (X + lost) (H + hs) (lsv_update p w s)"
proof -
  let ?s = "lsv_update p w s"
  note I = lsv_invD [OF inv] and U = lsv_update_sel [OF i, of w]
  have "insert p (dom (ls_impl s)) = dom (ls_impl s)" using i by auto
  then have o: "lsv_ok ?s"
    using I(1) ok unfolding lsv_ok_def by (auto simp: lsv_update_def)
  have f: "lsv_focus p ?s = w" by (simp add: lsv_focus_def lsv_update_def)
  note F = lsv_focus_objs [OF o U(2)] and S = lsv_split [OF lsv_okD(2) [OF o] U(2)]
  have "finite (live (ls_cm ?s))" "mset_set (live (ls_cm ?s)) = X + lost + lsv_objs ?s + lsv_queue_objs ?s"
    using acc F(1) S(1) U(3) f by (simp_all add: listen_account_def lsv_update_def ac_simps)
  moreover have "H + hs = lsv_waiting ?s + lsv_answered ?s"
    using I(4) bal F(2) S(2) U(4) f lsv_focus_objs(2) [OF I(1) i] lsv_split(2) [OF lsv_okD(2) [OF I(1)] i]
    by (simp add: ac_simps)
  ultimately show ?thesis using o by (simp add: lsv_inv_def)
qed

text \<open>A call, and closing a listener.\<close>

lemma lsv_focus_step_inv:
  assumes inv: "lsv_inv live X H s" and i: "ls_impl s p = Some i" and law: "listener_law live api"
    and step: "listen_step api (lsv_focus p s) hs w" "listen_obj_step api (\<lambda>c c'. False) (lsv_focus p s) lost w"
    and ok: "listener_ok (lw_impl (lsv_focus p s)) (lw_armed (lsv_focus p s)) \<Longrightarrow> listen_wf w \<Longrightarrow>
      listener_ok (lw_impl w) (lw_armed w)"
  shows "lsv_inv live (X + lost) (H + hs) (lsv_update p w s)"
proof (rule lsv_update_inv [OF inv i])
  show acc: "listen_account live (X + others_objs p s + lost) w"
    by (rule listen_obj_step_account [OF step(2) law _ lsv_focus_account [OF inv i]]) simp
  show "listener_ok (lw_impl w) (lw_armed w)"
    using ok lsv_okD(3) [OF lsv_invD(1) [OF inv] i] acc i by (simp add: lsv_focus_def listen_account_def)
  show "listen_owed w + listen_invoked w = listen_owed (lsv_focus p s) + listen_invoked (lsv_focus p s) + hs"
    by (rule listen_step_balance [OF step(1)])
qed

lemma lsv_call_inv:
  assumes "lsv_inv live X H s" and "ls_impl s p = Some i" and "listener_law live api"
    and call: "listener_call api p (lsv_focus p s) hs lost w"
  shows "lsv_inv live (X + lost) (H + hs) (lsv_update p w s)"
  by (rule lsv_focus_step_inv [OF assms(1-3) listener_call_steps [OF call] listener_call_ok [OF call]])

lemma lsv_close_sel:
  assumes "lsv_ok s" and i: "ls_impl s p = Some i"
  shows "ls_impl (lsv_close api p s) = (ls_impl s)(p \<mapsto> i\<lparr>li_channel := nullptr, li_cm_id := nullptr, li_registered := False\<rparr>)"
    "ls_armed (lsv_close api p s) = (ls_armed s)(p := [])" "ls_list (lsv_close api p s) = ls_list s"
    "ls_posted (lsv_close api p s) = ls_posted s @ map aborted_op (ls_armed s p)"
    "ls_upcalls (lsv_close api p s) = ls_upcalls s"
proof -
  have f: "listener_ok (lw_impl (lsv_focus p s)) (lw_armed (lsv_focus p s))" "lw_impl (lsv_focus p s) = i"
    "lw_armed (lsv_focus p s) = ls_armed s p" "lw_posted (lsv_focus p s) = ls_posted s"
    "lw_upcalls (lsv_focus p s) = ls_upcalls s"
    using lsv_okD(3) [OF assms] i by (simp_all add: lsv_focus_def)
  show "ls_impl (lsv_close api p s) = (ls_impl s)(p \<mapsto> i\<lparr>li_channel := nullptr, li_cm_id := nullptr, li_registered := False\<rparr>)"
    by (simp add: lsv_close_def lsv_update_def listener_close_def Let_def f(2))
  show "ls_armed (lsv_close api p s) = (ls_armed s)(p := [])" "ls_list (lsv_close api p s) = ls_list s"
    "ls_posted (lsv_close api p s) = ls_posted s @ map aborted_op (ls_armed s p)"
    "ls_upcalls (lsv_close api p s) = ls_upcalls s"
    using listener_close_sel [OF f(1), of api] f by (simp_all add: lsv_close_def lsv_update_def)
qed

lemma lsv_close_inv:
  assumes inv: "lsv_inv live X H s" and i: "ls_impl s p = Some i" and law: "listener_law live api"
  shows "lsv_inv live X H (lsv_close api p s)"
proof -
  have "lsv_inv live (X + {#}) (H + {#}) (lsv_close api p s)"
    unfolding lsv_close_def
  proof (rule lsv_focus_step_inv [OF inv i law l_close lo_close])
    assume "listener_ok (lw_impl (lsv_focus p s)) (lw_armed (lsv_focus p s))"
    from listener_close_sel [OF this, of api] show "listener_ok (lw_impl (listener_close api (lsv_focus p s)))
        (lw_armed (listener_close api (lsv_focus p s)))" by (simp add: listener_ok_def)
  qed
  then show ?thesis by simp
qed

subsection \<open>Lifecycle steps\<close>

lemma lsv_construct_inv:
  assumes inv: "lsv_inv live X H s" and p: "p \<noteq> nullptr" "ls_impl s p = None"
  shows "lsv_inv live X H (lsv_construct p s)"
proof -
  let ?s = "lsv_construct p s"
  note I = lsv_invD [OF inv]
  obtain ps where ps: "represents (ls_list s) ps" "set ps = dom (ls_impl s)" using lsv_okD(1) [OF I(1)] by blast
  have "represents (ls_list ?s) (p # ps)" using do_insert_represents [OF ps(1) p(1)] ps(2) p(2)
    by (auto simp: lsv_construct_def)
  moreover have "set (p # ps) = dom (ls_impl ?s)" using ps(2) by (simp add: lsv_construct_def)
  ultimately have ok: "lsv_ok ?s"
    by (rule lsv_okI) (use lsv_okD(3,4) [OF I(1)] in
      \<open>auto simp: lsv_construct_def listener_ok_def listener_construct_def split: if_splits\<close>)
  have nin: "p \<notin> dom (ls_impl s)" using p(2) by auto
  have "others_objs p ?s = lsv_objs s" "others_waiting p ?s = lsv_waiting s"
    using nin by (auto simp: lsv_objs_def lsv_waiting_def lsv_construct_def intro!: sum.cong)
  moreover have c: "ls_impl ?s p = Some listener_construct" "ls_armed ?s p = []" by (simp_all add: lsv_construct_def)
  moreover have "listener_objs listener_construct = {#}" by (simp add: listener_objs_def listener_construct_def)
  ultimately have "lsv_objs ?s = lsv_objs s" "lsv_waiting ?s = lsv_waiting s"
    using lsv_split [OF lsv_okD(2) [OF ok] c(1)] by simp_all
  moreover have "lsv_queue_objs ?s = lsv_queue_objs s" "lsv_answered ?s = lsv_answered s" "ls_cm ?s = ls_cm s"
    by (simp_all add: lsv_construct_def lsv_queue_objs_def lsv_answered_def)
  ultimately show ?thesis using ok I by (simp add: lsv_inv_def)
qed

lemma lsv_destroy_inv:
  assumes inv: "lsv_inv live X H s" and i: "ls_impl s p = Some i" and law: "listener_law live api"
  shows "lsv_inv live X H (lsv_destroy api p s)"
proof -
  let ?c = "lsv_close api p s" and ?s = "lsv_destroy api p s"
  note I = lsv_invD [OF lsv_close_inv [OF inv i law]] and C = lsv_close_sel [OF lsv_invD(1) [OF inv] i, of api]
  obtain ps where ps: "represents (ls_list ?c) ps" "set ps = dom (ls_impl ?c)" using lsv_okD(1) [OF I(1)] by blast
  have "p \<in> set ps" using ps(2) C(1) by simp
  then have "represents (ls_list ?s) (remove1 p ps)" "set (remove1 p ps) = dom (ls_impl ?s)"
    using do_remove_represents [OF ps(1)] ps by (simp_all add: lsv_destroy_def Let_def represents_def)
  moreover have e: "ls_armed ?c p = []" "ls_impl ?c p = Some (i\<lparr>li_channel := nullptr, li_cm_id := nullptr, li_registered := False\<rparr>)"
    using C(1,2) by simp_all
  ultimately have ok: "lsv_ok ?s"
    by (intro lsv_okI) (use lsv_okD(3,4) [OF I(1)] in \<open>auto simp: lsv_destroy_def Let_def split: if_splits\<close>)
  have "others_objs p ?c = lsv_objs ?s" "others_waiting p ?c = lsv_waiting ?s"
    by (auto simp: lsv_objs_def lsv_waiting_def lsv_destroy_def Let_def intro!: sum.cong)
  then have "lsv_objs ?s = lsv_objs ?c" "lsv_waiting ?s = lsv_waiting ?c"
    using lsv_split [OF lsv_okD(2) [OF I(1)] e(2)] e(1) by (simp_all add: listener_objs_def)
  moreover have "lsv_queue_objs ?s = lsv_queue_objs ?c" "lsv_answered ?s = lsv_answered ?c" "ls_cm ?s = ls_cm ?c"
    by (simp_all add: lsv_destroy_def Let_def lsv_queue_objs_def lsv_answered_def)
  ultimately show ?thesis using ok I by (simp add: lsv_inv_def)
qed

text \<open>The channel, the id and the queue of \<open>q\<close> go to \<open>p\<close>, which had none.\<close>

lemma lsv_transfer_inv:
  assumes inv: "lsv_inv live X H s" and q: "ls_impl s q = Some other" and pq: "p \<noteq> q"
    and p: "\<And>i0. ls_impl s p = Some i0 \<Longrightarrow> li_channel i0 = nullptr"
    and l: "represents l ps" "set ps = insert p (dom (ls_impl s))"
    and i: "li_channel i = li_channel other" "li_cm_id i = li_cm_id other"
    and j: "li_channel j = nullptr" "li_cm_id j = nullptr"
    and s': "s' = s\<lparr>ls_list := l, ls_impl := (ls_impl s)(p \<mapsto> i, q \<mapsto> j),
       ls_armed := (ls_armed s)(p := ls_armed s q, q := [])\<rparr>"
  shows "lsv_inv live X H s'"
proof -
  note I = lsv_invD [OF inv] and F = lsv_okD(2) [OF lsv_invD(1) [OF inv]]
  have D: "q \<in> dom (ls_impl s)" "dom (ls_impl s') = insert p (dom (ls_impl s))" using q by (auto simp: s')
  have none: "li_cm_id i0 = nullptr" "ls_armed s p = []" if "ls_impl s p = Some i0" for i0
    using lsv_okD(3) [OF I(1) that] p [OF that] by (auto simp: listener_ok_def)
  have "listener_ok i (ls_armed s q)" using lsv_okD(3) [OF I(1) q] i by (auto simp: listener_ok_def)
  moreover have "listener_ok j []" using j by (simp add: listener_ok_def)
  ultimately have ok: "lsv_ok s'"
    using I(1) l D pq unfolding lsv_ok_def by (auto simp: s')
  have "lsv_objs s' = lsv_objs s"
    unfolding lsv_objs_def D(2)
    by (rule sum_transfer [OF F D(1) pq]) (use p none(1) q i j pq in \<open>auto simp: s' listener_objs_def\<close>)
  moreover have "lsv_waiting s' = lsv_waiting s"
    unfolding lsv_waiting_def D(2)
    by (rule sum_transfer [OF F D(1) pq]) (use none(2) pq in \<open>auto simp: s'\<close>)
  moreover have "lsv_queue_objs s' = lsv_queue_objs s" "lsv_answered s' = lsv_answered s" "ls_cm s' = ls_cm s"
    by (simp_all add: s' lsv_queue_objs_def lsv_answered_def)
  ultimately show ?thesis using ok I by (simp add: lsv_inv_def)
qed

lemma lsv_move_construct_inv:
  assumes inv: "lsv_inv live X H s" and p: "p \<noteq> nullptr" "ls_impl s p = None" and q: "ls_impl s q = Some other"
  shows "lsv_inv live X H (lsv_move_construct p q s)"
proof -
  note I = lsv_invD [OF inv]
  have pq: "p \<noteq> q" using p q by auto
  obtain ps where ps: "represents (ls_list s) ps" "set ps = dom (ls_impl s)" using lsv_okD(1) [OF I(1)] by blast
  then have l: "represents (do_insert p (ls_list s)) (p # ps)" "set (p # ps) = insert p (dom (ls_impl s))"
    using do_insert_represents [OF ps(1) p(1)] p(2) by auto
  obtain i j where m: "listener_move_construct other = (i, j)" by fastforce
  have a: "li_channel other = nullptr \<Longrightarrow> ls_armed s q = []" "ls_armed s p = []"
    using lsv_okD(3) [OF I(1) q] lsv_okD(4) [OF I(1) p(2)]
    by (auto simp: listener_ok_def)
  have "lsv_move_construct p q s = s\<lparr>ls_list := do_insert p (ls_list s), ls_impl := (ls_impl s)(p \<mapsto> i, q \<mapsto> j),
       ls_armed := (ls_armed s)(p := ls_armed s q, q := [])\<rparr>"
    using m q a
    by (cases "li_channel other = nullptr")
      (auto simp: lsv_move_construct_def lsv_focus_def listener_move_construct_def fun_upd_idem)
  then show ?thesis
    using lsv_transfer_inv [OF inv q pq _ l] p m by (auto simp: listener_move_construct_def)
qed

lemma lsv_move_assign_inv:
  assumes inv: "lsv_inv live X H s" and p: "ls_impl s p = Some i0" and q: "ls_impl s q = Some other" and pq: "p \<noteq> q"
    and law: "listener_law live api"
  shows "lsv_inv live X H (lsv_move_assign api p q s)"
proof -
  let ?c = "lsv_close api p s"
  note J = lsv_close_inv [OF inv p law] and C = lsv_close_sel [OF lsv_invD(1) [OF inv] p, of api]
  have q': "ls_impl ?c q = Some other" using C(1) q pq by simp
  obtain ps where ps: "represents (ls_list ?c) ps" "set ps = dom (ls_impl ?c)"
    using lsv_okD(1) [OF lsv_invD(1) [OF J]] by blast
  have l: "set ps = insert p (dom (ls_impl ?c))" using ps(2) C(1) by auto
  obtain w j where m: "listener_move_assign api other (lsv_focus p s) = (w, j)" by fastforce
  have a: "li_channel other = nullptr \<Longrightarrow> ls_armed s q = []"
    using lsv_okD(3) [OF lsv_invD(1) [OF inv] q] by (auto simp: listener_ok_def)
  have "lsv_move_assign api p q s = ?c\<lparr>ls_list := ls_list ?c, ls_impl := (ls_impl ?c)(p \<mapsto> lw_impl w, q \<mapsto> j),
       ls_armed := (ls_armed ?c)(p := ls_armed ?c q, q := [])\<rparr>"
    using m q a pq C(2)
    by (auto simp: lsv_move_assign_def lsv_focus_def listener_move_assign_def lsv_close_def lsv_update_def Let_def fun_eq_iff)
  then show ?thesis
    using lsv_transfer_inv [OF J q' pq _ ps(1) l] m C(1) by (auto simp: listener_move_assign_def Let_def)
qed

lemma lsv_complete_inv:
  assumes "lsv_inv live X H s"
  shows "lsv_inv live X H (lsv_complete api True s)"
proof (cases "ls_posted s")
  case Nil
  then have "lsv_complete api True s = s" by (simp add: lsv_complete_def lsv_focus_def listener_complete_def)
  then show ?thesis using assms by simp
next
  case (Cons op ops)
  then show ?thesis using assms
    by (simp add: lsv_complete_def lsv_focus_def listener_complete_def get_req_do_complete_def lsv_inv_def lsv_ok_def
        lsv_objs_def lsv_waiting_def lsv_queue_objs_def lsv_answered_def Let_def ac_simps)
qed

lemma lsv_dangling_inv: "lsv_inv live X H (s\<lparr>ls_dangling := d\<rparr>) = lsv_inv live X H s"
  by (simp add: lsv_inv_def lsv_ok_def lsv_objs_def lsv_queue_objs_def lsv_waiting_def lsv_answered_def)

lemma lsv_op_cancel_inv:
  assumes inv: "lsv_inv live X H s" and law: "listener_law live api"
  shows "lsv_inv live X H (lsv_op_cancel type op s)"
proof (cases "go_cancel_data op")
  case None
  then show ?thesis using inv by (simp add: lsv_op_cancel_def)
next
  case (Some q)
  show ?thesis
  proof (cases "ls_impl s q")
    case None
    then show ?thesis using inv Some by (simp add: lsv_op_cancel_def lsv_dangling_inv)
  next
    case i: (Some i)
    have "lsv_inv live (X + {#}) (H + {#})
        (lsv_update q (listener_op_cancellation type (go_handler op) (lsv_focus q s)) s)"
      by (rule lsv_focus_step_inv [OF inv i law l_op_cancel lo_op_cancel])
        (auto simp: listener_op_cancellation_def listener_ok_def)
    then show ?thesis using Some i by (simp add: lsv_op_cancel_def)
  qed
qed

subsection \<open>Runs\<close>

text \<open>
  A run carries the ids let go so far and the handlers taken in. A listener is destroyed or moved by the
  program whatever it waits for, an address is not used twice; a cancellation is emitted for an outstanding
  operation; \<open>env\<close> is what the rest of the program does to rdma_cm. A signal that reads a listener that is gone is
  recorded; the source does not define what it does then, the model lets it find no operation.
\<close>

inductive lsv_step ::
  "'c cm_api \<Rightarrow> ('c \<Rightarrow> 'c \<Rightarrow> bool) \<Rightarrow> ptr multiset \<times> nat multiset \<times> 'c listener_service
   \<Rightarrow> ptr multiset \<times> nat multiset \<times> 'c listener_service \<Rightarrow> bool" for api env where
  lsv_constructed: "p \<noteq> nullptr \<Longrightarrow> ls_impl s p = None \<Longrightarrow> lsv_step api env (X, H, s) (X, H, lsv_construct p s)"
| lsv_destroyed: "ls_impl s p = Some i \<Longrightarrow> lsv_step api env (X, H, s) (X, H, lsv_destroy api p s)"
| lsv_move_constructed: "p \<noteq> nullptr \<Longrightarrow> ls_impl s p = None \<Longrightarrow> ls_impl s q = Some other \<Longrightarrow>
    lsv_step api env (X, H, s) (X, H, lsv_move_construct p q s)"
| lsv_move_assigned: "ls_impl s p = Some i \<Longrightarrow> ls_impl s q = Some other \<Longrightarrow> p \<noteq> q \<Longrightarrow>
    lsv_step api env (X, H, s) (X, H, lsv_move_assign api p q s)"
| lsv_called: "ls_impl s p = Some i \<Longrightarrow> listener_call api p (lsv_focus p s) hs lost w \<Longrightarrow>
    lsv_step api env (X, H, s) (X + lost, H + hs, lsv_update p w s)"
| lsv_cancelled: "op \<in> lsv_outstanding s \<Longrightarrow> lsv_step api env (X, H, s) (X, H, lsv_op_cancel type op s)"
| lsv_completed: "lsv_step api env (X, H, s) (X, H, lsv_complete api True s)"
| lsv_environment: "env (ls_cm s) c \<Longrightarrow> lsv_step api env (X, H, s) (X, H, s\<lparr>ls_cm := c\<rparr>)"

abbreviation lsv_run ::
  "'c cm_api \<Rightarrow> ('c \<Rightarrow> 'c \<Rightarrow> bool) \<Rightarrow> ptr multiset \<times> nat multiset \<times> 'c listener_service
   \<Rightarrow> ptr multiset \<times> nat multiset \<times> 'c listener_service \<Rightarrow> bool" where
  "lsv_run api env \<equiv> (lsv_step api env)\<^sup>*\<^sup>*"

text \<open>What is assumed of rdma_cm and of the rest of the program, which keeps the objects it has.\<close>

definition listener_laws :: "('c \<Rightarrow> ptr set) \<Rightarrow> 'c cm_api \<Rightarrow> ('c \<Rightarrow> 'c \<Rightarrow> bool) \<Rightarrow> bool" where
  "listener_laws live api env \<longleftrightarrow> listener_law live api \<and> (\<forall>c c'. env c c' \<longrightarrow> live c' = live c)"

definition lsv_fresh :: "'c listener_service \<Rightarrow> bool" where
  "lsv_fresh s \<longleftrightarrow> ls_list s = empty_list \<and> ls_impl s = Map.empty \<and> ls_armed s = (\<lambda>p. []) \<and> ls_posted s = [] \<and>
     ls_upcalls s = [] \<and> \<not> ls_dangling s"

lemma lsv_fresh_inv:
  assumes "lsv_fresh s" and "finite (live (ls_cm s))"
  shows "lsv_inv live (mset_set (live (ls_cm s))) {#} s"
  using assms empty_list_represents
  by (simp add: lsv_inv_def lsv_ok_def lsv_fresh_def lsv_objs_def lsv_queue_objs_def lsv_waiting_def lsv_answered_def)

lemma lsv_env_inv:
  assumes "lsv_inv live X H s" and "live c = live (ls_cm s)"
  shows "lsv_inv live X H (s\<lparr>ls_cm := c\<rparr>)"
  using assms by (simp add: lsv_inv_def lsv_ok_def lsv_objs_def lsv_queue_objs_def lsv_waiting_def lsv_answered_def)

lemma lsv_step_inv:
  assumes "lsv_step api env x y" and laws: "listener_laws live api env"
    and "lsv_inv live (R + fst x) (fst (snd x)) (snd (snd x))"
  shows "lsv_inv live (R + fst y) (fst (snd y)) (snd (snd y))"
proof -
  have law: "listener_law live api" and env: "\<And>c c'. env c c' \<Longrightarrow> live c' = live c"
    using laws by (simp_all add: listener_laws_def)
  show ?thesis
    using assms(1,3)
  proof (induction rule: lsv_step.induct)
    case (lsv_constructed p s X H)
    then show ?case using lsv_construct_inv by simp
  next
    case (lsv_destroyed s p i X H)
    then show ?case using lsv_destroy_inv [OF _ _ law] by simp
  next
    case (lsv_move_constructed p s q other X H)
    then show ?case using lsv_move_construct_inv by simp
  next
    case (lsv_move_assigned s p i q other X H)
    then show ?case using lsv_move_assign_inv [OF _ _ _ _ law] by simp
  next
    case (lsv_called s p i hs lost w X H)
    then show ?case using lsv_call_inv [OF _ _ law, of "R + X" H s p i hs lost w] by (simp add: add.assoc)
  next
    case (lsv_cancelled op s X H type)
    then show ?case using lsv_op_cancel_inv [OF _ law] by simp
  next
    case (lsv_completed X H s)
    then show ?case using lsv_complete_inv by simp
  next
    case (lsv_environment s c X H)
    then show ?case using lsv_env_inv [of live "R + X" H s c] env [of "ls_cm s" c] by simp
  qed
qed

lemma lsv_run_inv:
  assumes "lsv_run api env x y" and "listener_laws live api env"
    and "lsv_inv live (R + fst x) (fst (snd x)) (snd (snd x))"
  shows "lsv_inv live (R + fst y) (fst (snd y)) (snd (snd y))"
  using assms(1,3) by (induction rule: rtranclp_induct) (auto intro: lsv_step_inv [OF _ assms(2)])

lemma lsv_reach_inv:
  assumes "listener_laws live api env" and "lsv_fresh s0" and "finite (live (ls_cm s0))"
    and "lsv_run api env ({#}, {#}, s0) (lost, H, s)"
  shows "lsv_inv live (mset_set (live (ls_cm s0)) + lost) H s"
  using lsv_run_inv [OF assms(4,1)] lsv_fresh_inv [OF assms(2), of live] assms(3) by simp

subsection \<open>Shutdown\<close>

text \<open>Closing listeners one after the other empties them and touches no other.\<close>

definition lsv_closed :: "ptr \<Rightarrow> 'c listener_service \<Rightarrow> bool" where
  "lsv_closed p s \<longleftrightarrow> (\<exists>i. ls_impl s p = Some i \<and> listener_objs i = {#}) \<and> ls_armed s p = []"

lemma lsv_close_closed:
  assumes "lsv_ok s" and "ls_impl s p = Some i"
  shows "lsv_closed p (lsv_close api p s)" "lsv_closed q s \<Longrightarrow> lsv_closed q (lsv_close api p s)"
    "dom (ls_impl (lsv_close api p s)) = dom (ls_impl s)"
  using lsv_close_sel [OF assms, of api] assms(2) by (auto simp: lsv_closed_def listener_objs_def)

lemma lsv_close_all:
  assumes law: "listener_law live api"
  shows "lsv_inv live X H s \<Longrightarrow> set ps \<subseteq> dom (ls_impl s) \<Longrightarrow>
    lsv_inv live X H (fold (lsv_close api) ps s) \<and> dom (ls_impl (fold (lsv_close api) ps s)) = dom (ls_impl s) \<and>
    ls_upcalls (fold (lsv_close api) ps s) = ls_upcalls s \<and>
    (\<forall>p. p \<in> set ps \<or> lsv_closed p s \<longrightarrow> lsv_closed p (fold (lsv_close api) ps s))"
proof (induction ps arbitrary: s)
  case (Cons p ps)
  then obtain i where i: "ls_impl s p = Some i" by auto
  note C = lsv_close_closed [OF lsv_invD(1) [OF Cons.prems(1)] i, where api = api]
  have "lsv_inv live X H (lsv_close api p s)" "set ps \<subseteq> dom (ls_impl (lsv_close api p s))"
    using lsv_close_inv [OF Cons.prems(1) i law] Cons.prems(2) C(3) by auto
  note R = Cons.IH [OF this]
  then show ?case using C(1,3) lsv_close_sel(5) [OF lsv_invD(1) [OF Cons.prems(1)] i, of api] C(2) by auto
qed simp

text \<open>The scheduler then destroys the operations it still holds, with the connections in them.\<close>

lemma lsv_discard:
  assumes law: "listener_law live api"
  shows "finite (live (ls_cm s)) \<Longrightarrow>
    mset_set (live (ls_cm s)) = M + sum_list (map (cm_handle_objs \<circ> go_handle) (ls_posted s)) \<Longrightarrow>
    length (ls_posted s) = n \<Longrightarrow>
    mset_set (live (ls_cm ((lsv_complete api False ^^ n) s))) = M \<and>
    ls_posted ((lsv_complete api False ^^ n) s) = [] \<and> ls_upcalls ((lsv_complete api False ^^ n) s) = ls_upcalls s"
proof (induction n arbitrary: s)
  case (Suc n)
  obtain op ops where op: "ls_posted s = op # ops" using Suc.prems(3) by (cases "ls_posted s") auto
  let ?s = "lsv_complete api False s"
  have s: "ls_cm ?s = release_handle api (go_handle op) (ls_cm s)" "ls_posted ?s = ops" "ls_upcalls ?s = ls_upcalls s"
    using op by (simp_all add: lsv_complete_def lsv_focus_def listener_complete_def get_req_do_complete_def Let_def)
  have "mset_set (live (ls_cm s)) =
      M + sum_list (map (cm_handle_objs \<circ> go_handle) ops) + cm_handle_objs (go_handle op)"
    using Suc.prems(2) op by (simp add: comp_def ac_simps)
  note R = release_handle_objs [OF law Suc.prems(1) this]
  have "length ops = n" using Suc.prems(3) op by simp
  then have "mset_set (live (ls_cm ((lsv_complete api False ^^ n) ?s))) = M \<and>
      ls_posted ((lsv_complete api False ^^ n) ?s) = [] \<and> ls_upcalls ((lsv_complete api False ^^ n) ?s) = ls_upcalls s"
    using Suc.IH [of ?s, unfolded s] R by blast
  then show ?case by (simp add: funpow_swap1)
qed simp

subsection \<open>Properties\<close>

text \<open>
  C27. In every run of the listener service (listeners constructed, used, moved and destroyed, operations cancelled one
  by one, the reactor and the scheduler taking turns) an operation waiting for a connection reads the event channel of
  the open listener it is queued on, which is alive; each object of rdma_cm has exactly one owner: the rest of the
  program, a listener or a connection on its way to a handler, but for the ids of requests whose own channel
  could not be created, which nobody owns; each handler taken in waits in one operation or was invoked, once.
\<close>

theorem listener_service_conserves:
  assumes "listener_laws live api env" and "lsv_fresh s0" and "finite (live (ls_cm s0))"
    and "lsv_run api env ({#}, {#}, s0) (lost, H, s)"
  shows "(\<forall>p. \<forall>op\<in>set (ls_armed s p). \<exists>i. ls_impl s p = Some i \<and> go_channel op = li_channel i \<and>
      li_channel i \<in> live (ls_cm s)) \<and>
    mset_set (live (ls_cm s)) = mset_set (live (ls_cm s0)) + lost + lsv_objs s + lsv_queue_objs s \<and>
    H = lsv_waiting s + lsv_answered s"
proof -
  note I = lsv_invD [OF lsv_reach_inv [OF assms]]
  have "\<exists>i. ls_impl s p = Some i \<and> go_channel op = li_channel i \<and> li_channel i \<in> live (ls_cm s)"
    if op: "op \<in> set (ls_armed s p)" for p op
  proof -
    obtain i where i: "ls_impl s p = Some i" using lsv_okD(4) [OF I(1), of p] op by (cases "ls_impl s p") auto
    then have c: "go_channel op = li_channel i" "li_channel i \<noteq> nullptr"
      using lsv_okD(3) [OF I(1) i] op by (auto simp: listener_ok_def)
    then have "li_channel i \<in># lsv_objs s"
      using lsv_split(1) [OF lsv_okD(2) [OF I(1)] i] by (simp add: listener_objs_def cm_handle_objs_def)
    then have "li_channel i \<in># mset_set (live (ls_cm s))" using I(3) by simp
    then show ?thesis using i c(1) I(2) by simp
  qed
  then show ?thesis using I(3,4) by blast
qed

text \<open>
  C28. Shutting the listener service down after any run returns and leaves no operation in the reactor: every channel
  and id of a listener is released, each waiting handler is with the scheduler, and once the scheduler has destroyed
  the operations it holds, what is alive is what was alive before the service started, the connections that were
  handed to handlers and the ids the run let go, those of requests whose own channel could not be created.
\<close>

theorem listener_service_shutdown:
  assumes laws: "listener_laws live api env" and "lsv_fresh s0" and "finite (live (ls_cm s0))"
    and "lsv_run api env ({#}, {#}, s0) (lost, H, s)"
  shows "\<exists>s'. lsv_shutdown api s = Some s' \<and> (\<forall>p. ls_armed s' p = []) \<and> H = lsv_answered s' \<and>
    mset_set (live (ls_cm s')) = mset_set (live (ls_cm s0)) + lost + lsv_queue_objs s' \<and>
    mset_set (live (ls_cm ((lsv_complete api False ^^ length (ls_posted s')) s'))) =
      mset_set (live (ls_cm s0)) + lost + sum_list (map (cm_handle_objs \<circ> gu_handle) (ls_upcalls s))"
proof -
  have law: "listener_law live api" using laws by (simp add: listener_laws_def)
  let ?X = "mset_set (live (ls_cm s0)) + lost"
  note inv = lsv_reach_inv [OF assms]
  obtain ps where ps: "represents (ls_list s) ps" "set ps = dom (ls_impl s)" using lsv_okD(1) [OF lsv_invD(1) [OF inv]] by blast
  let ?s = "fold (lsv_close api) ps s"
  have R: "lsv_inv live ?X H ?s" "dom (ls_impl ?s) = dom (ls_impl s)" "ls_upcalls ?s = ls_upcalls s"
    "\<And>p. p \<in> dom (ls_impl s) \<Longrightarrow> lsv_closed p ?s" using lsv_close_all [OF law inv, of ps] ps(2) by simp_all
  note I = lsv_invD [OF R(1)]
  have armed: "ls_armed ?s p = []" for p
    using R(2) R(4) [of p] lsv_okD(4) [OF I(1), of p] by (cases "p \<in> dom (ls_impl s)") (auto simp: lsv_closed_def)
  have "lsv_objs ?s = {#}" unfolding lsv_objs_def R(2)
    by (rule sum.neutral) (use R(4) in \<open>fastforce simp: lsv_closed_def\<close>)
  then have bal: "mset_set (live (ls_cm ?s)) = ?X + lsv_queue_objs ?s" using I(3) by simp
  moreover have "H = lsv_answered ?s" using I(4) armed by (simp add: lsv_waiting_def)
  moreover have "mset_set (live (ls_cm ?s)) = ?X + sum_list (map (cm_handle_objs \<circ> gu_handle) (ls_upcalls s)) +
      sum_list (map (cm_handle_objs \<circ> go_handle) (ls_posted ?s))"
    using bal R(3) by (simp add: lsv_queue_objs_def ac_simps)
  note lsv_discard [OF law I(2) this refl]
  moreover have "lsv_shutdown api s = Some ?s" by (simp add: lsv_shutdown_def base_shutdown_visits [OF ps(1)])
  ultimately show ?thesis using armed by blast
qed

text \<open>
  C29. What a move does to a listener that is waiting. For the reactor and for \<open>cancel\<close> nothing changes: what they do
  with the operations in the queue is the same before and after the move. The cancellation of one operation is lost:
  before the move a signal aborts the operation, after it the same signal changes nothing (the operation goes
  on waiting), because the functor still points to the source; when the source is then destroyed, the signal
  reads memory that is gone.
\<close>

theorem listener_moves_while_waiting:
  assumes "ls_impl s q = Some other" and "listener_is_open other" and "li_channel other \<noteq> nullptr" and "p \<noteq> q"
    and "go_cancel_data op = Some q" and "type AND 7 \<noteq> 0"
  shows "lsv_update p (listener_perform api (lsv_focus p (lsv_move_construct p q s))) (lsv_move_construct p q s) =
      lsv_move_construct p q (lsv_update q (listener_perform api (lsv_focus q s)) s) \<and>
    lsv_update p (listener_cancel (lsv_focus p (lsv_move_construct p q s))) (lsv_move_construct p q s) =
      lsv_move_construct p q (lsv_update q (listener_cancel (lsv_focus q s)) s) \<and>
    ls_armed (lsv_op_cancel type op s) q = filter (\<lambda>op'. go_handler op' \<noteq> go_handler op) (ls_armed s q) \<and>
    ls_posted (lsv_op_cancel type op s) =
      ls_posted s @ map aborted_op (filter (\<lambda>op'. go_handler op' = go_handler op) (ls_armed s q)) \<and>
    lsv_op_cancel type op (lsv_move_construct p q s) = lsv_move_construct p q s \<and>
    ls_armed (lsv_move_construct p q s) p = ls_armed s q \<and>
    ls_dangling (lsv_op_cancel type op (lsv_destroy api q (lsv_move_construct p q s)))"
proof -
  let ?w = "lsv_focus q s" and ?i = "fst (listener_move_construct other)"
  have f: "lsv_focus p (lsv_move_construct p q s) = ?w\<lparr>lw_impl := ?i\<rparr>" "lw_impl ?w = other"
    using assms(1-4) by (simp_all add: lsv_focus_def lsv_move_construct_def listener_move_construct_def)
  have m: "lsv_update p (w\<lparr>lw_impl := ?i\<rparr>) (lsv_move_construct p q s) = lsv_move_construct p q (lsv_update q w s)"
    if "lw_impl w = other" for w
    using that assms(1-4)
    by (simp add: lsv_focus_def lsv_move_construct_def listener_move_construct_def lsv_update_def fun_upd_twist)
  have "listener_perform api (?w\<lparr>lw_impl := ?i\<rparr>) = (listener_perform api ?w)\<lparr>lw_impl := ?i\<rparr>"
    "lw_impl (listener_perform api ?w) = other"
    by (simp_all add: listener_perform_def f(2) split: list.split prod.split)
  moreover have "listener_cancel (?w\<lparr>lw_impl := ?i\<rparr>) = (listener_cancel ?w)\<lparr>lw_impl := ?i\<rparr>"
    "lw_impl (listener_cancel ?w) = other"
    using assms(1-4) by (simp_all add: listener_cancel_def f(2) listener_move_construct_def)
  moreover have "lsv_op_cancel type op (lsv_move_construct p q s) = lsv_move_construct p q s"
    "ls_armed (lsv_move_construct p q s) p = ls_armed s q"
    using assms by (simp_all add: lsv_op_cancel_def lsv_move_construct_def listener_move_construct_def lsv_focus_def
        lsv_update_def listener_op_cancellation_def fun_upd_idem)
  moreover have "ls_armed (lsv_op_cancel type op s) q = filter (\<lambda>op'. go_handler op' \<noteq> go_handler op) (ls_armed s q)"
    "ls_posted (lsv_op_cancel type op s) =
      ls_posted s @ map aborted_op (filter (\<lambda>op'. go_handler op' = go_handler op) (ls_armed s q))"
    using assms(1,5,6) by (simp_all add: lsv_op_cancel_def lsv_focus_def lsv_update_def listener_op_cancellation_def)
  moreover have "ls_dangling (lsv_op_cancel type op (lsv_destroy api q (lsv_move_construct p q s)))"
    using assms(5,6) by (simp add: lsv_op_cancel_def lsv_destroy_def Let_def)
  ultimately show ?thesis unfolding f(1) using m by simp
qed

subsection \<open>A run of the example\<close>

text \<open>
  A listener at 64 is opened and waits with handler 3; the request arrives; the listener is moved to 72 and waits
  again, with handler 4.
\<close>

definition sim_lsv :: "cm_sim listener_service" where
  "sim_lsv = \<lparr>ls_cm = sim_start [RDMA_CM_EVENT_CONNECT_REQUEST], ls_list = empty_list, ls_impl = Map.empty,
     ls_armed = (\<lambda>p. []), ls_posted = [], ls_upcalls = [],
     ls_dangling = False\<rparr>"

definition sim_lsv_open :: "cm_sim listener_service" where
  "sim_lsv_open =
     (let s = lsv_construct 64 sim_lsv; w = lsv_focus 64 s in
      case listener_open sim_listen_api (\<lambda>ch. 0) sim_device_service PS_v4 (lw_impl w) (lw_cm w) of
        (ec, impl, c) \<Rightarrow> lsv_update 64 (w\<lparr>lw_impl := impl, lw_cm := c\<rparr>) s)"

definition sim_lsv_wait :: "ptr \<Rightarrow> nat \<Rightarrow> cm_sim listener_service \<Rightarrow> cm_sim listener_service" where
  "sim_lsv_wait p h s = lsv_update p (async_get_connection_request p h (lsv_focus p s)) s"

definition sim_lsv_arrived :: "cm_sim listener_service" where
  "sim_lsv_arrived =
     (let s = sim_lsv_wait 64 3 sim_lsv_open in lsv_update 64 (listener_perform sim_listen_api (lsv_focus 64 s)) s)"

definition sim_lsv_final :: "cm_sim listener_service" where
  "sim_lsv_final = sim_lsv_wait 72 4 (lsv_move_construct 72 64 sim_lsv_arrived)"

lemma sim_lsv_laws: "listener_laws sim_live_set sim_listen_api (\<lambda>c c'. False)" "lsv_fresh sim_lsv"
  "finite (sim_live_set (ls_cm sim_lsv))" "mset_set (sim_live_set (ls_cm sim_lsv)) = {#}"
  using sim_listener_law
  by (simp_all add: listener_laws_def lsv_fresh_def sim_lsv_def sim_start_def sim_live_set_def)

lemma sim_lsv_states:
  "ls_impl sim_lsv_open 64 \<noteq> None" "ls_impl (sim_lsv_wait 64 3 sim_lsv_open) 64 \<noteq> None"
  "ls_impl sim_lsv_arrived 64 \<noteq> None" "ls_impl sim_lsv_arrived 72 = None"
  "ls_impl (lsv_move_construct 72 64 sim_lsv_arrived) 72 \<noteq> None"
  "listener_orphans sim_listen_api (lsv_focus 64 (sim_lsv_wait 64 3 sim_lsv_open)) = {#}"
  "map go_channel (ls_armed sim_lsv_final 72) = [16]" "map go_handle (ls_posted sim_lsv_final) = [(19, 18)]"
  "ls_upcalls sim_lsv_final = []"
  by code_simp+

lemma sim_lsv_run:
  "lsv_run sim_listen_api (\<lambda>c c'. False) ({#}, {#}, sim_lsv)
     ({#}, {#4, 3#}, sim_lsv_final)"
proof -
  let ?step = "lsv_step sim_listen_api (\<lambda>c c'. False)" and ?s = "lsv_construct 64 sim_lsv"
  have a: "?step ({#}, {#}, sim_lsv) ({#}, {#}, ?s)" by (rule lsv_constructed) (simp_all add: sim_lsv_def)
  obtain ec impl c where o: "listener_open sim_listen_api (\<lambda>ch. 0) sim_device_service PS_v4
      (lw_impl (lsv_focus 64 ?s)) (lw_cm (lsv_focus 64 ?s)) = (ec, impl, c)" by (metis prod_cases3)
  have "ls_impl ?s 64 = Some listener_construct" by (simp add: lsv_construct_def)
  from lsv_called [OF this ll_open [OF o], of "\<lambda>c c'. False" "{#}" "{#}"]
  have b: "?step ({#}, {#}, ?s) ({#}, {#}, sim_lsv_open)" by (simp add: sim_lsv_open_def o Let_def)
  obtain i2 where "ls_impl sim_lsv_open 64 = Some i2" using sim_lsv_states(1) by blast
  from lsv_called [OF this ll_get, of sim_listen_api "\<lambda>c c'. False" "{#}" "{#}" 3]
  have c: "?step ({#}, {#}, sim_lsv_open) ({#}, {#3#}, sim_lsv_wait 64 3 sim_lsv_open)" by (simp add: sim_lsv_wait_def)
  obtain i3 where "ls_impl (sim_lsv_wait 64 3 sim_lsv_open) 64 = Some i3" using sim_lsv_states(2) by blast
  from lsv_called [OF this ll_perform, of sim_listen_api "\<lambda>c c'. False" "{#}" "{#3#}"]
  have d: "?step ({#}, {#3#}, sim_lsv_wait 64 3 sim_lsv_open) ({#}, {#3#}, sim_lsv_arrived)"
    by (simp add: sim_lsv_arrived_def Let_def sim_lsv_states(6))
  obtain i4 where "ls_impl sim_lsv_arrived 64 = Some i4" using sim_lsv_states(3) by blast
  from lsv_move_constructed [OF _ sim_lsv_states(4) this, of sim_listen_api "\<lambda>c c'. False" "{#}" "{#3#}"]
  have e: "?step ({#}, {#3#}, sim_lsv_arrived) ({#}, {#3#}, lsv_move_construct 72 64 sim_lsv_arrived)" by simp
  obtain i5 where "ls_impl (lsv_move_construct 72 64 sim_lsv_arrived) 72 = Some i5" using sim_lsv_states(5) by blast
  from lsv_called [OF this ll_get, of sim_listen_api "\<lambda>c c'. False" "{#}" "{#3#}" 4]
  have f: "?step ({#}, {#3#}, lsv_move_construct 72 64 sim_lsv_arrived) ({#}, {#4, 3#}, sim_lsv_final)"
    by (simp add: sim_lsv_wait_def sim_lsv_final_def)
  show ?thesis
    using a b c d e f by (meson rtranclp.rtrancl_into_rtrancl rtranclp.rtrancl_refl)
qed

theorem listener_service_conserves_witness:
  "(\<exists>i. ls_impl sim_lsv_final 72 = Some i \<and> li_channel i = 16) \<and> 16 \<in> sim_live_set (ls_cm sim_lsv_final) \<and>
   lsv_waiting sim_lsv_final + lsv_answered sim_lsv_final = {#4, 3#}"
proof -
  obtain op where op: "ls_armed sim_lsv_final 72 = [op]" "go_channel op = 16"
    using sim_lsv_states(7) by auto
  note T = listener_service_conserves [OF sim_lsv_laws(1-3) sim_lsv_run]
  have "\<exists>i. ls_impl sim_lsv_final 72 = Some i \<and> go_channel op = li_channel i \<and>
      li_channel i \<in> sim_live_set (ls_cm sim_lsv_final)" using T op(1) by (metis list.set_intros(1))
  then show ?thesis using T op(2) by auto
qed

theorem listener_service_shutdown_witness:
  "\<exists>s'. lsv_shutdown sim_listen_api sim_lsv_final = Some s' \<and> lsv_answered s' = {#4, 3#} \<and>
     mset_set (sim_live_set (ls_cm ((lsv_complete sim_listen_api False ^^ length (ls_posted s')) s'))) = {#}"
  using listener_service_shutdown [OF sim_lsv_laws(1-3) sim_lsv_run] sim_lsv_laws(4) sim_lsv_states(9) by auto

theorem listener_moves_while_waiting_witness:
  "map go_handle (ls_posted (lsv_update 72 (listener_perform sim_listen_api (lsv_focus 72
     (lsv_move_construct 72 64 (sim_lsv_wait 64 3 sim_lsv_open)))) (lsv_move_construct 72 64 (sim_lsv_wait 64 3 sim_lsv_open)))) =
   [(19, 18)] \<and>
   (\<exists>op. ls_armed (sim_lsv_wait 64 3 sim_lsv_open) 64 = [op] \<and>
     ls_posted (lsv_op_cancel 1 op (sim_lsv_wait 64 3 sim_lsv_open)) = [aborted_op op] \<and>
     ls_posted (lsv_op_cancel 1 op (lsv_move_construct 72 64 (sim_lsv_wait 64 3 sim_lsv_open))) = [])"
proof -
  let ?s = "sim_lsv_wait 64 3 sim_lsv_open"
  obtain other where o: "ls_impl ?s 64 = Some other" "listener_is_open other" "li_channel other \<noteq> nullptr"
  proof -
    have "case ls_impl ?s 64 of None \<Rightarrow> False | Some i \<Rightarrow> listener_is_open i \<and> li_channel i \<noteq> nullptr" by code_simp
    then show ?thesis using that by (auto split: option.splits)
  qed
  have "map go_cancel_data (ls_armed ?s 64) = [Some 64]" by code_simp
  then obtain op where op: "ls_armed ?s 64 = [op]" "go_cancel_data op = Some 64" by auto
  have "map go_handle (ls_posted (lsv_move_construct 72 64 sim_lsv_arrived)) = [(19, 18)]"
    "map go_handle (ls_posted ?s) = []" by code_simp+
  then show ?thesis
    using listener_moves_while_waiting [OF o, of 72 op 1 sim_listen_api] op
    by (simp add: sim_lsv_arrived_def Let_def lsv_move_construct_def case_prod_beta)
qed

end
