(* ===== verification/IBV_Connector_Service.thy ===== *)
theory IBV_Connector_Service
  imports IBV_Connector_Resources IBV_Connector_Run Service_Base
begin

text \<open>
  The connector service with all its connectors: \<open>construct\<close>, \<open>destroy\<close>, the moves and \<open>shutdown\<close> of
  \<open>ibv/detail/ibv_service_connector.hpp\<close> over the intrusive list of \<open>ibv_service_base\<close>.

  A connector lives at the address of its implementation (\<open>sv_impl\<close>), its descriptor's queue is \<open>sv_armed\<close>;
  rdma_cm and the scheduler's queue \<open>sv_posted\<close> are shared. An operation keeps the address of its
  connector's \<open>connect_state_\<close>, and its cancellation functor that of the connector's \<open>cm_reactor_data_\<close>:
  \<open>sv_owner\<close> gives it by the operation's handler. \<open>sv_dangling\<close> is set when that address is used after the
  connector was destroyed.
\<close>

subsection \<open>State\<close>

record 'c conn_service =
  sv_cm :: 'c
  sv_list :: impl_list
  sv_impl :: "ptr \<Rightarrow> connector_impl option"
  sv_armed :: "ptr \<Rightarrow> cm_op list"
  sv_posted :: "cm_op list"
  sv_upcalls :: "cm_upcall list"
  sv_owner :: "nat \<Rightarrow> ptr"
  sv_fault :: bool
  sv_dangling :: bool

text \<open>One connector with the shared state, and back; a destroyed connector reads as a new one.\<close>

definition sv_focus :: "ptr \<Rightarrow> 'c conn_service \<Rightarrow> 'c conn_world" where
  "sv_focus p s =
     \<lparr>kw_cm = sv_cm s, kw_impl = (case sv_impl s p of None \<Rightarrow> connector_construct | Some i \<Rightarrow> i),
      kw_armed = sv_armed s p, kw_posted = sv_posted s, kw_upcalls = sv_upcalls s, kw_fault = sv_fault s\<rparr>"

definition sv_update :: "ptr \<Rightarrow> 'c conn_world \<Rightarrow> 'c conn_service \<Rightarrow> 'c conn_service" where
  "sv_update p w s =
     s\<lparr>sv_cm := kw_cm w, sv_impl := (sv_impl s)(p \<mapsto> kw_impl w), sv_armed := (sv_armed s)(p := kw_armed w),
       sv_posted := kw_posted w, sv_upcalls := kw_upcalls w, sv_fault := kw_fault w\<rparr>"

subsection \<open>Lifecycle\<close>

definition sv_construct :: "ptr \<Rightarrow> 'c conn_service \<Rightarrow> 'c conn_service" where
  "sv_construct p s =
     s\<lparr>sv_list := do_insert p (sv_list s), sv_impl := (sv_impl s)(p \<mapsto> connector_construct),
       sv_armed := (sv_armed s)(p := [])\<rparr>"

definition sv_close :: "'c cm_api \<Rightarrow> ptr \<Rightarrow> 'c conn_service \<Rightarrow> 'c conn_service option" where
  "sv_close api p s =
     (case close_for_destruction api (sv_focus p s) of None \<Rightarrow> None | Some w \<Rightarrow> Some (sv_update p w s))"

definition sv_destroy :: "'c cm_api \<Rightarrow> ptr \<Rightarrow> 'c conn_service \<Rightarrow> 'c conn_service option" where
  "sv_destroy api p s =
     (case sv_close api p s of
        None \<Rightarrow> None
      | Some s' \<Rightarrow> Some (s'\<lparr>sv_list := do_remove p (sv_list s'), sv_impl := (sv_impl s')(p := None)\<rparr>))"

text \<open>
  The moves take over the descriptor's queue with the channel; the operations in it keep the address of
  the state they were started with.
\<close>

definition sv_move_construct :: "ptr \<Rightarrow> ptr \<Rightarrow> 'c conn_service \<Rightarrow> 'c conn_service" where
  "sv_move_construct p q s =
     (case conn_move_construct (kw_impl (sv_focus q s)) of (i, j) \<Rightarrow>
        s\<lparr>sv_list := do_insert p (sv_list s), sv_impl := (sv_impl s)(p \<mapsto> i, q \<mapsto> j),
          sv_armed := (if ci_channel i \<noteq> nullptr then (sv_armed s)(p := sv_armed s q, q := [])
                       else (sv_armed s)(p := []))\<rparr>)"

definition sv_move_assign :: "'c cm_api \<Rightarrow> ptr \<Rightarrow> ptr \<Rightarrow> 'c conn_service \<Rightarrow> 'c conn_service option" where
  "sv_move_assign api p q s =
     (case conn_move_assign api (kw_impl (sv_focus q s)) (sv_focus p s) of
        None \<Rightarrow> None
      | Some (w, j) \<Rightarrow>
          let s1 = sv_update p w s in
          Some (s1\<lparr>sv_impl := (sv_impl s1)(q \<mapsto> j),
            sv_armed := (if ci_channel (kw_impl w) \<noteq> nullptr
                         then (sv_armed s1)(p := sv_armed s q, q := []) else sv_armed s1)\<rparr>))"

text \<open>\<open>shutdown\<close> closes every registered connector in the order of the list; none is removed from it.\<close>

definition sv_shutdown :: "'c cm_api \<Rightarrow> 'c conn_service \<Rightarrow> 'c conn_service option" where
  "sv_shutdown api s =
     (case base_shutdown (\<lambda>p r. case r of None \<Rightarrow> None | Some s' \<Rightarrow> sv_close api p s') (sv_list s) (Some s) of
        None \<Rightarrow> None
      | Some r \<Rightarrow> r)"

subsection \<open>Calls, performing and completing\<close>

text \<open>
  \<open>w\<close> is what a call on the connector at \<open>p\<close> returned; \<open>H\<close> are the handlers it took in, whose operations
  keep the address of this connector.
\<close>

definition sv_return :: "ptr \<Rightarrow> nat set \<Rightarrow> 'c conn_world \<Rightarrow> 'c conn_service \<Rightarrow> 'c conn_service" where
  "sv_return p H w s = (sv_update p w s)\<lparr>sv_owner := (\<lambda>h. if h \<in> H then p else sv_owner s h)\<rparr>"

text \<open>
  The reactor performs the front operation of a descriptor: it works on the state at the address the
  operation keeps, which is that of another connector after a move.
\<close>

definition sv_perform :: "'c cm_api \<Rightarrow> 'c create_qp_cb \<Rightarrow> ptr \<Rightarrow> 'c conn_service \<Rightarrow> 'c conn_service" where
  "sv_perform api create_qp p s =
     (case sv_armed s p of
        [] \<Rightarrow> s
      | op # _ \<Rightarrow>
          let q = sv_owner s (cm_op_handler op) in
          if q = p then sv_return p {} (perform_front api create_qp (sv_focus p s)) s
          else
            let i = kw_impl (sv_focus p s); j = kw_impl (sv_focus q s);
                w = perform_front api create_qp ((sv_focus p s)\<lparr>kw_impl :=
                  i\<lparr>ci_state := ci_state j, ci_peer_closed := ci_peer_closed j\<rparr>\<rparr>);
                s1 = sv_update p (w\<lparr>kw_impl := i\<rparr>) s
            in case sv_impl s q of
                None \<Rightarrow> s1\<lparr>sv_dangling := True\<rparr>
              | Some _ \<Rightarrow>
                  s1\<lparr>sv_impl := (sv_impl s1)(q \<mapsto> j\<lparr>ci_state := ci_state (kw_impl w),
                    ci_peer_closed := ci_peer_closed (kw_impl w)\<rparr>)\<rparr>)"

text \<open>A completion that was aborted stores \<open>closed\<close> in the state of a connect or accept operation.\<close>

definition stores_state :: "cm_op \<Rightarrow> bool" where
  "stores_state op \<longleftrightarrow> is_cm op \<and> cm_op_ec op = operation_aborted"

definition sv_complete :: "'c conn_service \<Rightarrow> 'c conn_service" where
  "sv_complete s =
     (case sv_posted s of
        [] \<Rightarrow> s
      | op # _ \<Rightarrow>
          let q = sv_owner s (cm_op_handler op); w = complete_front True (sv_focus q s) in
          case sv_impl s q of
            None \<Rightarrow> s\<lparr>sv_posted := kw_posted w, sv_upcalls := kw_upcalls w,
                       sv_dangling := (sv_dangling s \<or> stores_state op)\<rparr>
          | Some _ \<Rightarrow> sv_update q w s)"

subsection \<open>What one call does to its connector\<close>

definition impl_objs :: "connector_impl \<Rightarrow> ptr set" where
  "impl_objs i = {ci_channel i, ci_cm_id i} - {nullptr}"

definition impl_wf :: "connector_impl \<Rightarrow> bool" where
  "impl_wf i \<longleftrightarrow>
     (if conn_is_open i then ci_channel i \<noteq> nullptr \<and> ci_channel i \<noteq> ci_cm_id i
      else ci_channel i = nullptr)"

text \<open>The channel and the id an armed operation works on are those of its connector.\<close>

fun op_points :: "connector_impl \<Rightarrow> cm_op \<Rightarrow> bool" where
  "op_points i (Op_connect op) \<longleftrightarrow> co_channel op = ci_channel i \<and> co_cm_id op = ci_cm_id i"
| "op_points i (Op_accept op) \<longleftrightarrow> ao_channel op = ci_channel i \<and> ao_cm_id op = ci_cm_id i"
| "op_points i (Op_wait op) \<longleftrightarrow> wo_channel op = ci_channel i"

definition conn_wf :: "connector_impl \<Rightarrow> cm_op list \<Rightarrow> bool" where
  "conn_wf i ops \<longleftrightarrow> impl_wf i \<and> (ops \<noteq> [] \<longrightarrow> conn_is_open i) \<and> (\<forall>op\<in>set ops. op_points i op)"

definition world_wf :: "'c conn_world \<Rightarrow> bool" where
  "world_wf w \<longleftrightarrow> conn_wf (kw_impl w) (kw_armed w)"

text \<open>Documented behaviour, completing \<open>resource_law\<close>: the calls on an id create and destroy nothing.\<close>

definition id_calls_law :: "('c \<Rightarrow> ptr set) \<Rightarrow> 'c cm_api \<Rightarrow> bool" where
  "id_calls_law live api \<longleftrightarrow>
     (\<forall>c i e t. live (snd (snd (cma_resolve_addr api c i e t))) = live c) \<and>
     (\<forall>c i t. live (snd (snd (cma_resolve_route api c i t))) = live c) \<and>
     (\<forall>c i p. live (snd (snd (cma_connect api c i p))) = live c) \<and>
     (\<forall>c i p. live (snd (snd (cma_accept api c i p))) = live c) \<and>
     (\<forall>c q t. live (snd (cma_modify_qp api c q t)) = live c)"

definition keeps_live :: "('c \<Rightarrow> ptr set) \<Rightarrow> 'c create_qp_cb \<Rightarrow> bool" where
  "keeps_live live cb \<longleftrightarrow> (\<forall>i c. live (snd (cb i c)) = live c)"

lemma wrapper_live:
  assumes "resource_law live api" and "id_calls_law live api"
  shows "live (snd (snd (resolve_addr api i e t c))) = live c"
    and "live (snd (snd (resolve_route api i t c))) = live c"
    and "live (snd (snd (cm_connect api i p c))) = live c"
    and "live (snd (snd (cm_accept api i p c))) = live c"
    and "live (snd (snd (cm_disconnect api i c))) = live c"
    and "live (snd (modify_qp api q m c)) = live c"
    and "live (snd (snd (get_cm_event api ch c))) = live c"
    and "live (cma_ack_event api c ev) = live c"
  using assms(2) resource_lawD(8) [OF assms(1), of c] resource_lawD(9) [OF assms(1), of c ch]
    resource_lawD(10) [OF assms(1), of c ev]
  by (auto simp: id_calls_law_def resolve_addr_def resolve_route_def cm_connect_def cm_accept_def
      cm_disconnect_def cm_guarded_def cm_result_def modify_qp_def get_cm_event_def split_beta
      simp del: split_paired_All split: sum.split)

text \<open>
  \<open>local_step live H w w'\<close>: a call with the handlers \<open>H\<close> appends to the posted operations, moves or adds
  operations of its own, and keeps the connector's channel and id or opens it with new ones.
\<close>

definition local_step :: "('c \<Rightarrow> ptr set) \<Rightarrow> nat set \<Rightarrow> 'c conn_world \<Rightarrow> 'c conn_world \<Rightarrow> bool" where
  "local_step live H w w' \<longleftrightarrow>
     (let own = cm_op_handler ` set (kw_armed w) \<union> H in
      (\<exists>new. kw_posted w' = kw_posted w @ new \<and> cm_op_handler ` set new \<subseteq> own) \<and>
      cm_op_handler ` set (kw_armed w') \<subseteq> own \<and>
      (ci_channel (kw_impl w') = ci_channel (kw_impl w) \<and> ci_cm_id (kw_impl w') = ci_cm_id (kw_impl w) \<and>
         live (kw_cm w') = live (kw_cm w) \<or>
       \<not> conn_is_open (kw_impl w) \<and> conn_is_open (kw_impl w') \<and>
         impl_objs (kw_impl w') \<inter> live (kw_cm w) = {} \<and>
         live (kw_cm w') = impl_objs (kw_impl w') \<union> live (kw_cm w)))"

lemma local_stepI:
  assumes "kw_posted w' = kw_posted w @ new" and "cm_op_handler ` set new \<subseteq> cm_op_handler ` set (kw_armed w) \<union> H"
    and "cm_op_handler ` set (kw_armed w') \<subseteq> cm_op_handler ` set (kw_armed w) \<union> H"
    and "ci_channel (kw_impl w') = ci_channel (kw_impl w)" and "ci_cm_id (kw_impl w') = ci_cm_id (kw_impl w)"
    and "live (kw_cm w') = live (kw_cm w)"
  shows "local_step live H w w'"
  using assms unfolding local_step_def Let_def by blast

lemma conn_open_local:
  assumes "resource_law live api" and "world_wf w"
  shows "local_step live {} w (snd (conn_open api reg ds w)) \<and> world_wf (snd (conn_open api reg ds w))"
proof -
  obtain ec w' where r: "conn_open api reg ds w = (ec, w')" by fastforce
  note O = conn_open_outcome [OF assms(1) r]
  show ?thesis
  proof (cases "is_error ec")
    case True
    then show ?thesis using O r assms(2) by (auto simp: open_outcome_def world_wf_def conn_wf_def intro!: local_stepI)
  next
    case False
    then have closed: "\<not> conn_is_open (kw_impl w)" using r by (auto simp: conn_open_def is_error_def)
    then have "kw_armed w = []" using assms(2) by (auto simp: world_wf_def conn_wf_def)
    moreover obtain ch i where o: "owns (kw_impl w') ch i" and "ch \<notin> live (kw_cm w)" "i \<notin> live (kw_cm w)"
      and l: "live (kw_cm w') = {ch, i} \<union> live (kw_cm w)"
      and k: "kw_armed w' = kw_armed w" "kw_posted w' = kw_posted w"
      using False O by (auto simp: open_outcome_def)
    moreover have impl: "ci_channel (kw_impl w') = ch" "ci_cm_id (kw_impl w') = i" "ch \<noteq> nullptr" "i \<noteq> nullptr"
      "ch \<noteq> i" using o by (simp_all add: owns_def)
    moreover have "impl_objs (kw_impl w') = {ch, i}" using impl by (auto simp: impl_objs_def)
    moreover have "snd (conn_open api reg ds w) = w'" using r by simp
    ultimately show ?thesis
      using closed by (simp add: local_step_def world_wf_def conn_wf_def impl_wf_def conn_is_open_def)
  qed
qed

text \<open>\<open>framed live w w1\<close>: \<open>w1\<close> differs from \<open>w\<close> in the connector's state and in rdma_cm's events only.\<close>

definition framed :: "('c \<Rightarrow> ptr set) \<Rightarrow> 'c conn_world \<Rightarrow> 'c conn_world \<Rightarrow> bool" where
  "framed live w w1 \<longleftrightarrow>
     kw_armed w1 = kw_armed w \<and> kw_posted w1 = kw_posted w \<and>
     ci_channel (kw_impl w1) = ci_channel (kw_impl w) \<and> ci_cm_id (kw_impl w1) = ci_cm_id (kw_impl w) \<and>
     live (kw_cm w1) = live (kw_cm w)"

lemma op_points_cong:
  "ci_channel i = ci_channel j \<Longrightarrow> ci_cm_id i = ci_cm_id j \<Longrightarrow> op_points i op = op_points j op"
  by (cases op) simp_all

lemma op_points_set_ec [simp]: "op_points i (set_ec ec op) = op_points i op"
  by (cases op) simp_all

lemma world_wf_cong:
  assumes "ci_channel (kw_impl w') = ci_channel (kw_impl w)" and "ci_cm_id (kw_impl w') = ci_cm_id (kw_impl w)"
    and "\<forall>op\<in>set (kw_armed w'). conn_is_open (kw_impl w) \<and> op_points (kw_impl w) op" and "world_wf w"
  shows "world_wf w'"
  using assms op_points_cong [OF assms(1,2)]
  by (cases "kw_armed w'") (auto simp: world_wf_def conn_wf_def impl_wf_def conn_is_open_def)

definition call_ok :: "('c \<Rightarrow> ptr set) \<Rightarrow> nat set \<Rightarrow> 'c conn_world \<Rightarrow> 'c conn_world \<Rightarrow> bool" where
  "call_ok live H w w' \<longleftrightarrow> local_step live H w w' \<and> world_wf w'"

lemma framed_ok:
  assumes "framed live w w1" and "world_wf w"
  shows "call_ok live H w w1"
    and "cm_op_handler op \<in> H \<Longrightarrow> call_ok live H w (reactor_post ec op w1)"
    and "cm_op_handler op \<in> H \<Longrightarrow> conn_is_open (kw_impl w) \<Longrightarrow> op_points (kw_impl w) op \<Longrightarrow>
      call_ok live H w (reactor_start_op op w1)"
    and "call_ok live H w (reactor_cancel_ops w1)"
proof -
  have wf: "kw_armed w1 \<noteq> [] \<Longrightarrow> conn_is_open (kw_impl w)"
    "op \<in> set (kw_armed w1) \<Longrightarrow> conn_is_open (kw_impl w) \<and> op_points (kw_impl w) op" for op
    using assms by (auto simp: framed_def world_wf_def conn_wf_def)
  show "call_ok live H w w1"
    using assms wf unfolding call_ok_def framed_def
    by (auto intro!: local_stepI [where new = "[]"] world_wf_cong [of w1 w])
  show "cm_op_handler op \<in> H \<Longrightarrow> call_ok live H w (reactor_post ec op w1)"
    using assms wf unfolding call_ok_def framed_def
    by (auto simp: reactor_post_def
        intro!: local_stepI [where new = "[set_ec ec op]"] world_wf_cong [where w = w])
  show "cm_op_handler op \<in> H \<Longrightarrow> conn_is_open (kw_impl w) \<Longrightarrow> op_points (kw_impl w) op \<Longrightarrow>
      call_ok live H w (reactor_start_op op w1)"
    using assms wf unfolding call_ok_def framed_def
    by (auto simp: reactor_start_op_def intro!: local_stepI [where new = "[]"] world_wf_cong [where w = w])
  show "call_ok live H w (reactor_cancel_ops w1)"
    unfolding call_ok_def
  proof (intro conjI)
    have F: "kw_armed w1 = kw_armed w" "kw_posted w1 = kw_posted w"
      "ci_channel (kw_impl w1) = ci_channel (kw_impl w)" "ci_cm_id (kw_impl w1) = ci_cm_id (kw_impl w)"
      "live (kw_cm w1) = live (kw_cm w)" using assms(1) by (simp_all only: framed_def)
    show "local_step live H w (reactor_cancel_ops w1)"
      by (rule local_stepI [where new = "map (set_ec operation_aborted) (kw_armed w)"])
        (simp_all add: reactor_cancel_ops_def F image_image image_Un)
    show "world_wf (reactor_cancel_ops w1)"
      by (rule world_wf_cong [OF _ _ _ assms(2)]) (simp_all add: reactor_cancel_ops_def F)
  qed
qed

lemma framed_set_state [simp]: "framed live w (set_state st w1) = framed live w w1"
  by (simp add: framed_def)

lemma framed_refl [simp]: "framed live w w"
  by (simp add: framed_def)

lemma framed_cm:
  "framed live w w1 \<Longrightarrow> live c = live (kw_cm w) \<Longrightarrow> framed live w (w1\<lparr>kw_cm := c\<rparr>)"
  by (simp add: framed_def)

text \<open>Opening first, then a call on what is open now.\<close>

lemma local_step_trans:
  assumes "local_step live {} w w1" and "local_step live H w1 w2" and "kw_armed w1 = kw_armed w"
    and "kw_posted w1 = kw_posted w"
    and "conn_is_open (kw_impl w1) \<Longrightarrow> ci_channel (kw_impl w2) = ci_channel (kw_impl w1) \<and>
      ci_cm_id (kw_impl w2) = ci_cm_id (kw_impl w1) \<and> live (kw_cm w2) = live (kw_cm w1)"
  shows "local_step live H w w2"
proof (cases "conn_is_open (kw_impl w1)")
  case True
  then have "impl_objs (kw_impl w2) = impl_objs (kw_impl w1)" "conn_is_open (kw_impl w2)"
    using assms(5) by (simp_all add: impl_objs_def conn_is_open_def)
  then show ?thesis using assms True by (auto simp: local_step_def Let_def)
next
  case False
  then have "ci_channel (kw_impl w1) = ci_channel (kw_impl w)" "ci_cm_id (kw_impl w1) = ci_cm_id (kw_impl w)"
    "live (kw_cm w1) = live (kw_cm w)"
    using assms(1) by (auto simp: local_step_def Let_def)
  then show ?thesis using assms(2,3,4) by (simp add: local_step_def conn_is_open_def)
qed

text \<open>The calls one by one.\<close>

lemma start_connect_op_call:
  assumes law: "resource_law live api" "id_calls_law live api" and wf: "world_wf w"
    and op: "co_handler op \<in> H" "op_points (kw_impl w) (Op_connect op)" and o: "conn_is_open (kw_impl w)"
  shows "call_ok live H w (start_connect_op api ds ep op w)"
proof -
  obtain rc ec c where r: "resolve_addr api (ci_cm_id (kw_impl w)) ep (cm_timeout ds) (kw_cm w) = (rc, ec, c)"
    by (metis prod_cases3)
  have "live c = live (kw_cm w)" using wrapper_live(1) [OF law] r by (metis snd_conv)
  then have F: "framed live w (w\<lparr>kw_cm := c\<rparr>)" by (simp add: framed_cm)
  show ?thesis
    using framed_ok [OF F wf] framed_ok [OF framed_set_state [THEN iffD2, OF F] wf] op o
    by (simp add: start_connect_op_def r Let_def)
qed

lemma start_connect_op_impl:
  assumes "resource_law live api" and "id_calls_law live api"
  shows "ci_channel (kw_impl (start_connect_op api ds ep op w)) = ci_channel (kw_impl w) \<and>
    ci_cm_id (kw_impl (start_connect_op api ds ep op w)) = ci_cm_id (kw_impl w) \<and>
    live (kw_cm (start_connect_op api ds ep op w)) = live (kw_cm w)"
  using wrapper_live(1) [OF assms]
  by (simp add: start_connect_op_def Let_def reactor_post_def reactor_start_op_def case_prod_beta)

lemma async_connect_call:
  assumes law: "resource_law live api" "id_calls_law live api" and wf: "world_wf w"
  shows "call_ok live {h} w (async_connect api reg ds ep rq rb rc qp h w)"
proof -
  obtain ec w1 where r: "(if conn_is_open (kw_impl w) then (no_error, w) else conn_open api reg ds w) = (ec, w1)"
    by fastforce
  have L: "local_step live {} w w1" "world_wf w1" "kw_armed w1 = kw_armed w" "kw_posted w1 = kw_posted w"
    "is_error ec \<Longrightarrow> framed live w w1" "\<not> is_error ec \<Longrightarrow> conn_is_open (kw_impl w1)"
  proof -
    have "local_step live {} w w1 \<and> world_wf w1 \<and> kw_armed w1 = kw_armed w \<and> kw_posted w1 = kw_posted w \<and>
      (is_error ec \<longrightarrow> framed live w w1) \<and> (\<not> is_error ec \<longrightarrow> conn_is_open (kw_impl w1))"
    proof (cases "conn_is_open (kw_impl w)")
      case True
      then have "ec = no_error" "w1 = w" using r by simp_all
      then show ?thesis using True wf framed_ok(1) [OF framed_refl wf]
        by (simp add: call_ok_def is_error_def no_error_def)
    next
      case False
      then have o: "conn_open api reg ds w = (ec, w1)" using r by simp
      note O = conn_open_outcome [OF law(1) o]
      have "is_error ec \<Longrightarrow> framed live w w1" using O by (simp add: open_outcome_def framed_def)
      moreover have "\<not> is_error ec \<Longrightarrow> conn_is_open (kw_impl w1)"
        using O by (auto simp: open_outcome_def owns_def conn_is_open_def)
      ultimately show ?thesis
        using O conn_open_local [OF law(1) wf, of reg ds] o by (simp add: open_outcome_def)
    qed
    then show "local_step live {} w w1" "world_wf w1" "kw_armed w1 = kw_armed w" "kw_posted w1 = kw_posted w"
      "is_error ec \<Longrightarrow> framed live w w1" "\<not> is_error ec \<Longrightarrow> conn_is_open (kw_impl w1)" by simp_all
  qed
  define op where "op = connect_op_new no_error (ci_cm_id (kw_impl w1)) (ci_channel (kw_impl w1)) (cm_timeout ds)
    rq rb rc (to_u8 (inbound_read_limit (effective_config ds))) (to_u8 (outbound_read_limit (effective_config ds)))
    (rnr_retry (effective_config ds)) (min_rnr_timer (effective_config ds)) qp h"
  define w2 where "w2 = async_connect api reg ds ep rq rb rc qp h w"
  have w2: "w2 = (if is_error ec then reactor_post ec (Op_connect op) w1
     else if length rq > max_outgoing_private_data
     then reactor_post (make_error_code private_data_too_large) (Op_connect op) w1
     else if ci_state (kw_impl w1) \<noteq> cs_idle
     then reactor_post (make_error_code connector_terminal) (Op_connect op) w1
     else start_connect_op api ds ep op w1)"
    by (simp add: w2_def async_connect_def r op_def Let_def)
  have h: "co_handler op = h" by (simp add: op_def)
  show ?thesis unfolding w2_def [symmetric]
  proof (cases "is_error ec")
    case True
    then show "call_ok live {h} w w2" using framed_ok(2) [OF L(5) wf] w2 h by simp
  next
    case False
    then have o: "conn_is_open (kw_impl w1)" by (rule L(6))
    have p: "op_points (kw_impl w1) (Op_connect op)"
      using o by (simp add: op_def connect_op_new_def conn_is_open_def)
    have c: "call_ok live {h} w1 w2"
      using False framed_ok(2) [OF framed_refl L(2)] start_connect_op_call [OF law L(2) _ p o] w2 h by simp
    have i: "ci_channel (kw_impl w2) = ci_channel (kw_impl w1) \<and> ci_cm_id (kw_impl w2) = ci_cm_id (kw_impl w1) \<and>
        live (kw_cm w2) = live (kw_cm w1)"
      using False w2 start_connect_op_impl [OF law] by (simp add: reactor_post_def)
    show "call_ok live {h} w w2"
      using c local_step_trans [OF L(1) _ L(3,4)] i by (simp add: call_ok_def)
  qed
qed

lemma start_accept_op_call:
  assumes law: "resource_law live api" "id_calls_law live api" "keeps_live live cb" and wf: "world_wf w"
    and op: "ao_handler op \<in> H" "op_points (kw_impl w) (Op_accept op)" and o: "conn_is_open (kw_impl w)"
  shows "call_ok live H w (start_accept_op api cb has_qp ds pd op w)"
proof -
  let ?id = "ci_cm_id (kw_impl w)"
  obtain e1 c1 where q: "(if has_qp then cb ?id (kw_cm w) else (no_error, kw_cm w)) = (e1, c1)" by fastforce
  obtain rc e2 c2 where a: "cm_accept api ?id (accept_param ds pd) c1 = (rc, e2, c2)" by (metis prod_cases3)
  have "live (snd (cb ?id (kw_cm w))) = live (kw_cm w)" using law(3) by (simp add: keeps_live_def)
  then have l1: "live c1 = live (kw_cm w)" using q by (cases has_qp) simp_all
  have "live (snd (snd (cm_accept api ?id (accept_param ds pd) c1))) = live c1" by (rule wrapper_live(4) [OF law(1,2)])
  then have l2: "live c2 = live (kw_cm w)" using a l1 by simp
  have F: "framed live w ((set_state st w)\<lparr>kw_cm := c1\<rparr>)" "framed live w ((set_state st w)\<lparr>kw_cm := c2\<rparr>)" for st
    using l1 l2 by (simp_all add: framed_cm)
  have run: "start_accept_op api cb has_qp ds pd op w =
    (if ci_state (kw_impl w) \<noteq> cs_idle then reactor_post operation_aborted (Op_accept op) w
     else if has_qp \<and> is_error e1
     then reactor_post e1 (Op_accept op) (set_state cs_closed ((set_state cs_connecting w)\<lparr>kw_cm := c1\<rparr>))
     else if rc = 0 then reactor_start_op (Op_accept (op\<lparr>ao_ec := no_error\<rparr>)) ((set_state cs_connecting w)\<lparr>kw_cm := c2\<rparr>)
     else reactor_post e2 (Op_accept op) (set_state cs_closed ((set_state cs_connecting w)\<lparr>kw_cm := c2\<rparr>)))"
    using q a by (cases has_qp) (simp_all add: start_accept_op_def Let_def)
  show ?thesis
    unfolding run
    using framed_ok(2) [OF framed_refl wf] framed_ok(2,3) [OF F(2) wf]
      framed_ok(2) [OF framed_set_state [THEN iffD2, OF F(1)] wf]
      framed_ok(2) [OF framed_set_state [THEN iffD2, OF F(2)] wf] op o by simp
qed

lemma async_accept_call:
  assumes law: "resource_law live api" "id_calls_law live api" "keeps_live live cb" and wf: "world_wf w"
  shows "call_ok live {h} w (async_accept api cb has_qp ds pd h w)"
    and "call_ok live {h} w (async_move_accept api cb bind_ec ds pd h w)"
proof -
  have o: "accept_guard ds (kw_impl w) pd = None \<Longrightarrow> conn_is_open (kw_impl w)"
    by (simp add: accept_guard_def split: if_splits)
  have p: "conn_is_open (kw_impl w) \<Longrightarrow> op_points (kw_impl w)
      (Op_accept (accept_op_new no_error (ci_cm_id (kw_impl w)) (ci_channel (kw_impl w)) t h))" for t
    by (simp add: accept_op_new_def conn_is_open_def)
  note S = start_accept_op_call [OF law wf _ p o]
  show "call_ok live {h} w (async_accept api cb has_qp ds pd h w)"
    using framed_ok(2) [OF framed_refl wf] S o by (simp add: async_accept_def Let_def split: option.split)
  show "call_ok live {h} w (async_move_accept api cb bind_ec ds pd h w)"
    using framed_ok(2) [OF framed_refl wf] S o by (simp add: async_move_accept_def Let_def split: option.split)
qed

lemma disconnect_call:
  assumes law: "resource_law live api" and wf: "world_wf w"
  shows "call_ok live {} w (snd (conn_disconnect api w))"
proof -
  let ?w1 = "set_state cs_closed w"
  define w2 where "w2 = (if ci_channel (kw_impl w) \<noteq> nullptr then reactor_cancel_ops ?w1 else ?w1)"
  have F: "framed live w ?w1" by simp
  have C: "call_ok live {} w (w2\<lparr>kw_cm := c\<rparr>)" if "live c = live (kw_cm w)" for c
  proof -
    have "framed live w (?w1\<lparr>kw_cm := c\<rparr>)" using that by (simp add: framed_cm)
    note K = framed_ok(1,4) [OF this wf, where H = "{}"]
    have E: "(reactor_cancel_ops ?w1)\<lparr>kw_cm := c\<rparr> = reactor_cancel_ops (?w1\<lparr>kw_cm := c\<rparr>)"
      by (simp add: reactor_cancel_ops_def)
    show ?thesis using K by (simp add: E w2_def)
  qed
  have C1: "call_ok live {} w w2" using framed_ok(1,4) [OF F wf, where H = "{}"] by (simp add: w2_def)
  have cm: "kw_cm w2 = kw_cm w" by (simp add: w2_def reactor_cancel_ops_def)
  have l: "live (snd (snd (cm_disconnect api (ci_cm_id (kw_impl w)) (kw_cm w)))) = live (kw_cm w)"
    using resource_lawD(8) [OF law]
    by (simp add: cm_disconnect_def cm_guarded_def cm_result_def case_prod_beta)
  have "snd (conn_disconnect api w) =
    (if \<not> conn_is_open (kw_impl w) then w
     else case ci_state (kw_impl w) of
        cs_closed \<Rightarrow> w | cs_idle \<Rightarrow> ?w1
      | cs_connected \<Rightarrow> w2\<lparr>kw_cm := snd (snd (cm_disconnect api (ci_cm_id (kw_impl w)) (kw_cm w)))\<rparr>
      | _ \<Rightarrow> w2)"
    using cm by (cases "ci_state (kw_impl w)") (simp_all add: conn_disconnect_def Let_def case_prod_beta w2_def)
  then show ?thesis
    using framed_ok(1) [OF framed_refl wf, where H = "{}"] framed_ok(1) [OF F wf, where H = "{}"] C [OF l] C1
    by (cases "ci_state (kw_impl w)") simp_all
qed

lemma wait_call:
  assumes wf: "world_wf w"
  shows "call_ok live {h} w (async_wait_disconnect h w)"
  using framed_ok(2,3) [OF framed_refl wf, where H = "{h}"]
  by (simp add: async_wait_disconnect_def wait_op_new_def Let_def)

lemma cancellation_call:
  assumes wf: "world_wf w"
  shows "call_ok live {} w (cm_op_cancellation type key w)"
proof -
  let ?new = "map (set_ec operation_aborted) (filter (\<lambda>op. cm_op_handler op = key) (kw_armed w))"
  let ?w1 = "w\<lparr>kw_posted := kw_posted w @ ?new, kw_armed := filter (\<lambda>op. cm_op_handler op \<noteq> key) (kw_armed w)\<rparr>"
  have "local_step live {} w ?w1"
    by (rule local_stepI [where new = ?new]) auto
  moreover have "world_wf ?w1"
    by (rule world_wf_cong [OF _ _ _ wf]) (use wf in \<open>auto simp: world_wf_def conn_wf_def\<close>)
  ultimately show ?thesis
    using framed_ok(1) [OF framed_refl wf, where H = "{}"] by (simp add: cm_op_cancellation_def call_ok_def)
qed

text \<open>Performing: the operation keeps its pointers and rdma_cm its objects.\<close>

lemma fail_with_keeps [simp]:
  "co_channel (fst (snd (fail_with e op st c))) = co_channel op"
  "co_cm_id (fst (snd (fail_with e op st c))) = co_cm_id op"
  "snd (snd (snd (fail_with e op st c))) = c"
  "co_channel (fst (snd (aborted_by_disconnect op st c))) = co_channel op"
  "co_cm_id (fst (snd (aborted_by_disconnect op st c))) = co_cm_id op"
  "snd (snd (snd (aborted_by_disconnect op st c))) = c"
  by (simp_all add: fail_with_def aborted_by_disconnect_def case_prod_beta)

lemma copy_reply_keeps [simp]:
  "co_channel (copy_reply ev op) = co_channel op" "co_cm_id (copy_reply ev op) = co_cm_id op"
  by (simp_all add: copy_reply_def split: option.split)

definition performed :: "('c \<Rightarrow> ptr set) \<Rightarrow> connect_op \<Rightarrow> 'c \<Rightarrow> bool \<times> connect_op \<times> connect_state \<times> 'c \<Rightarrow> bool" where
  "performed live op c r \<longleftrightarrow>
     co_channel (fst (snd r)) = co_channel op \<and> co_cm_id (fst (snd r)) = co_cm_id op \<and>
     live (snd (snd (snd r))) = live c"

lemma connect_do_process_keeps:
  assumes law: "resource_law live api" "id_calls_law live api" "keeps_live live cb"
  shows "performed live op c (connect_do_process api cb ev op st c)"
proof -
  note W = wrapper_live [OF law(1,2)]
  have cb: "live (snd (cb i c)) = live c" for i c using law(3) by (simp add: keeps_live_def)
  show ?thesis
    using W(2,3,5,6) cb
    by (simp add: performed_def connect_do_process_def do_process_addr_resolve_def do_process_addr_route_def
        do_process_connect_def case_prod_beta split: connect_stage.split cm_event_type.split)
qed

lemma connect_do_perform_keeps:
  assumes law: "resource_law live api" "id_calls_law live api" "keeps_live live cb"
  shows "performed live op c (connect_do_perform api cb op st c)"
proof -
  note W = wrapper_live(7,8) [OF law(1,2)]
  show ?thesis
  proof (cases "get_cm_event api (co_channel op) c")
    case (fields event ec c1)
    have l: "live c1 = live c" using W(1) [of "co_channel op" c] fields by simp
    have P: "performed live (op\<lparr>co_ec := ec\<rparr>) c1 (connect_do_process api cb ev (op\<lparr>co_ec := ec\<rparr>) st c1)" for ev
      by (rule connect_do_process_keeps [OF law])
    show ?thesis
      using P W(2) l
      by (simp add: performed_def connect_do_perform_def fields case_prod_beta split: option.split)
  qed
qed

definition accept_performed ::
  "('c \<Rightarrow> ptr set) \<Rightarrow> accept_op \<Rightarrow> 'c \<Rightarrow> bool \<times> accept_op \<times> connect_state \<times> 'c \<Rightarrow> bool" where
  "accept_performed live op c r \<longleftrightarrow>
     ao_channel (fst (snd r)) = ao_channel op \<and> ao_cm_id (fst (snd r)) = ao_cm_id op \<and>
     live (snd (snd (snd r))) = live c"

lemma accept_do_process_keeps:
  assumes law: "resource_law live api" "id_calls_law live api"
  shows "accept_performed live op c (accept_do_process api ev op st c)"
  using wrapper_live(5,6) [OF law]
  by (simp add: accept_performed_def accept_do_process_def accept_fail_with_def case_prod_beta
      split: cm_event_type.split)

lemma accept_do_perform_keeps:
  assumes law: "resource_law live api" "id_calls_law live api"
  shows "accept_performed live op c (accept_do_perform api op st c)"
proof -
  note W = wrapper_live(7,8) [OF law(1,2)]
  show ?thesis
  proof (cases "get_cm_event api (ao_channel op) c")
    case (fields event ec c1)
    have l: "live c1 = live c" using W(1) [of "ao_channel op" c] fields by simp
    have P: "accept_performed live (op\<lparr>ao_ec := ec\<rparr>) c1 (accept_do_process api ev (op\<lparr>ao_ec := ec\<rparr>) st c1)" for ev
      by (rule accept_do_process_keeps [OF law])
    show ?thesis
      using P W(2) l
      by (simp add: accept_performed_def accept_do_perform_def fields case_prod_beta split: option.split)
  qed
qed

lemma wait_do_perform_keeps:
  assumes law: "resource_law live api" "id_calls_law live api"
  shows "wo_channel (fst (snd (wait_do_perform api op peer c))) = wo_channel op"
    and "live (snd (snd (snd (wait_do_perform api op peer c)))) = live c"
proof -
  note W = wrapper_live(7,8) [OF law(1,2)]
  obtain event ec c1 where g: "get_cm_event api (wo_channel op) c = (event, ec, c1)" by (metis prod_cases3)
  have l: "live c1 = live c" using W(1) [of "wo_channel op" c] g by simp
  show "wo_channel (fst (snd (wait_do_perform api op peer c))) = wo_channel op"
    by (simp add: wait_do_perform_def g split: option.split cm_event_type.split)
  show "live (snd (snd (snd (wait_do_perform api op peer c)))) = live c"
    using W(2) l by (simp add: wait_do_perform_def g split: option.split cm_event_type.split)
qed

lemma front_ok:
  assumes wf: "world_wf w" and a: "kw_armed w = op # ops" and h: "cm_op_handler op' = cm_op_handler op"
    and p: "op_points (kw_impl w) op'" and i: "ci_channel i = ci_channel (kw_impl w)" "ci_cm_id i = ci_cm_id (kw_impl w)"
    and c: "live c = live (kw_cm w)"
  shows "call_ok live {} w (w\<lparr>kw_impl := i, kw_cm := c, kw_armed := (if fin then ops else op' # ops),
    kw_posted := (if fin then kw_posted w @ [op'] else kw_posted w)\<rparr>)"
proof -
  have o: "conn_is_open (kw_impl w)" "\<forall>op\<in>set ops. op_points (kw_impl w) op"
    using wf a by (simp_all add: world_wf_def conn_wf_def)
  let ?w = "w\<lparr>kw_impl := i, kw_cm := c, kw_armed := (if fin then ops else op' # ops),
    kw_posted := (if fin then kw_posted w @ [op'] else kw_posted w)\<rparr>"
  have "local_step live {} w ?w"
    by (rule local_stepI [where new = "if fin then [op'] else []"]) (use a h i c in auto)
  moreover have "world_wf ?w"
    by (rule world_wf_cong [OF _ _ _ wf]) (use i o p in auto)
  ultimately show ?thesis by (simp add: call_ok_def)
qed

lemma perform_call:
  assumes law: "resource_law live api" "id_calls_law live api" "keeps_live live cb" and wf: "world_wf w"
  shows "call_ok live {} w (perform_front api cb w)"
proof (cases "kw_armed w")
  case Nil
  then show ?thesis using framed_ok(1) [OF framed_refl wf] by (simp add: perform_front_def)
next
  case (Cons op ops)
  have pts: "op_points (kw_impl w) op" using wf Cons by (simp add: world_wf_def conn_wf_def)
  show ?thesis
  proof (cases op)
    case (Op_connect x)
    obtain fin x' st c where r: "connect_do_perform api cb x (ci_state (kw_impl w)) (kw_cm w) = (fin, x', st, c)"
      by (metis prod_cases4)
    have "performed live x (kw_cm w) (fin, x', st, c)" using connect_do_perform_keeps [OF law] r by metis
    moreover have "co_handler x' = co_handler x"
      using do_perform_handler(1) [of api cb x "ci_state (kw_impl w)" "kw_cm w"] r by simp
    ultimately show ?thesis
      using front_ok [OF wf Cons, of "Op_connect x'" "(kw_impl w)\<lparr>ci_state := st\<rparr>" live c fin] pts
      by (simp add: perform_front_def Cons Op_connect r performed_def)
  next
    case (Op_accept x)
    obtain fin x' st c where r: "accept_do_perform api x (ci_state (kw_impl w)) (kw_cm w) = (fin, x', st, c)"
      by (metis prod_cases4)
    have "accept_performed live x (kw_cm w) (fin, x', st, c)"
      using accept_do_perform_keeps [OF law(1,2)] r by metis
    moreover have "ao_handler x' = ao_handler x"
      using do_perform_handler(2) [of api x "ci_state (kw_impl w)" "kw_cm w"] r by simp
    ultimately show ?thesis
      using front_ok [OF wf Cons, of "Op_accept x'" "(kw_impl w)\<lparr>ci_state := st\<rparr>" live c fin] pts
      by (simp add: perform_front_def Cons Op_accept r accept_performed_def)
  next
    case (Op_wait x)
    obtain fin x' pc c where r: "wait_do_perform api x (ci_peer_closed (kw_impl w)) (kw_cm w) = (fin, x', pc, c)"
      by (metis prod_cases4)
    have "wo_channel x' = wo_channel x" "live c = live (kw_cm w)"
      using wait_do_perform_keeps [OF law(1,2), of x "ci_peer_closed (kw_impl w)" "kw_cm w"] r by simp_all
    moreover have "wo_handler x' = wo_handler x"
      using do_perform_handler(3) [of api x "ci_peer_closed (kw_impl w)" "kw_cm w"] r by simp
    ultimately show ?thesis
      using front_ok [OF wf Cons, of "Op_wait x'" "(kw_impl w)\<lparr>ci_peer_closed := pc\<rparr>" live c fin] pts
      by (simp add: perform_front_def Cons Op_wait r)
  qed
qed

text \<open>
  A cancellation signal for the operation with handler \<open>h\<close>: \<open>cm_op_cancellation\<close> looks for it in the
  descriptor that the \<open>cm_reactor_data_\<close> of the connector it was started on names now. After a move that is
  not the descriptor the operation is queued on. A signal emitted for an operation whose slot was not connected
  does nothing at all; the model lets it use the address too.
\<close>

definition sv_cancel :: "u32 \<Rightarrow> nat \<Rightarrow> 'c conn_service \<Rightarrow> 'c conn_service" where
  "sv_cancel type h s =
     (let p = sv_owner s h in
      case sv_impl s p of
        None \<Rightarrow> s\<lparr>sv_dangling := (sv_dangling s \<or> type AND 7 \<noteq> 0)\<rparr>
      | Some _ \<Rightarrow> sv_update p (cm_op_cancellation type h (sv_focus p s)) s)"

text \<open>
  One call of the program on a connector, with the handlers it takes in. The
  queue pair creators of \<open>K\<close> are those the program uses.
\<close>

inductive conn_call ::
  "'c cm_api \<Rightarrow> 'c create_qp_cb set \<Rightarrow> 'c conn_world \<Rightarrow> nat set \<Rightarrow> 'c conn_world \<Rightarrow> bool" for api K where
  call_open: "conn_call api K w {} (snd (conn_open api reg ds w))"
| call_connect: "conn_call api K w {h} (async_connect api reg ds ep request reply_buf reply_cap qp h w)"
| call_accept: "cb \<in> K \<Longrightarrow> conn_call api K w {h} (async_accept api cb has_qp ds private_data h w)"
| call_move_accept: "cb \<in> K \<Longrightarrow> conn_call api K w {h} (async_move_accept api cb bind_ec ds private_data h w)"
| call_disconnect: "conn_call api K w {} (snd (conn_disconnect api w))"
| call_wait: "conn_call api K w {h} (async_wait_disconnect h w)"

lemma conn_call_ok:
  assumes law: "resource_law live api" "id_calls_law live api" "\<forall>cb\<in>K. keeps_live live cb"
    and "conn_call api K w H w'" and wf: "world_wf w"
  shows "call_ok live H w w'"
  using assms(4)
proof cases
  case call_open
  then show ?thesis using conn_open_local [OF law(1) wf] by (simp add: call_ok_def)
qed (use law(3) in \<open>simp_all add: async_connect_call [OF law(1,2) wf] async_accept_call [OF law(1,2) _ wf]
  disconnect_call [OF law(1) wf] wait_call [OF wf]\<close>)

end
