(* ===== verification/IBV_Connector_Lifecycle.thy ===== *)
theory IBV_Connector_Lifecycle
  imports IBV_Connector_Service
begin

text \<open>
  Runs of the connector service: connectors are constructed, moved, called, performed, completed and
  destroyed in any order, while the rest of the program creates and destroys rdma_cm objects of its own. \<open>F\<close>
  is the set of those others' objects. Each connector's channel and id stay alive and its own, every armed
  operation works on them, and \<open>shutdown\<close> releases exactly them.
\<close>

subsection \<open>Who owns what\<close>

definition owned :: "'x set \<Rightarrow> 'x set \<Rightarrow> (ptr \<Rightarrow> 'x set) \<Rightarrow> bool" where
  "owned L F f \<longleftrightarrow> (\<forall>p q. p \<noteq> q \<longrightarrow> f p \<inter> f q = {}) \<and> (\<forall>p. f p \<inter> F = {}) \<and> L = F \<union> (\<Union>p. f p)"

lemma owned_open:
  assumes "owned L F f" and "f p = {}" and "A \<inter> L = {}"
  shows "owned (A \<union> L) F (f(p := A))"
proof -
  have d: "A \<inter> f q = {}" "A \<inter> F = {}" for q using assms(1,3) by (auto simp: owned_def)
  have "(\<Union>q. (f(p := A)) q) = A \<union> (\<Union>q. f q)" using assms(2) by (auto split: if_splits)
  then show ?thesis using assms(1) d by (auto simp: owned_def)
qed

lemma owned_close:
  assumes "owned L F f"
  shows "owned (L - f p) F (f(p := {}))"
proof -
  have "(\<Union>q. (f(p := {})) q) = (\<Union>q. f q) - f p" using assms by (auto simp: owned_def split: if_splits)
  then show ?thesis using assms by (auto simp: owned_def)
qed

lemma owned_adopt:
  assumes "owned L F f" and "f p = {}" and "A \<subseteq> F"
  shows "owned L (F - A) (f(p := A))"
proof -
  have d: "x \<in> A \<Longrightarrow> x \<notin> f q" for x q using assms(1,3) unfolding owned_def by blast
  have "(\<Union>q. (f(p := A)) q) = A \<union> (\<Union>q. f q)" using assms(2) by (auto split: if_splits)
  then show ?thesis using assms d by (auto simp: owned_def)
qed

lemma owned_move:
  assumes "owned L F f" and "f p = {}" and "p \<noteq> q"
  shows "owned L F (f(p := f q, q := {}))"
proof -
  have "(\<Union>r. (f(p := f q, q := {})) r) = (\<Union>r. f r)" using assms(2,3) by (auto split: if_splits)
  then show ?thesis using assms by (auto simp: owned_def)
qed

lemma owned_world:
  assumes "owned L F f" and "F' \<inter> (L - F) = {}"
  shows "owned (F' \<union> (L - F)) F' f"
proof -
  have "L - F = (\<Union>p. f p)" using assms(1) by (auto simp: owned_def)
  then show ?thesis using assms by (auto simp: owned_def)
qed

subsection \<open>The invariant\<close>

text \<open>
  What a program did, kept beside the state of a run, when it matters for pointers: it moved a connector with
  operations armed, it destroyed one that an operation still works for, it emitted a cancellation for an operation
  whose connector is gone.
\<close>

datatype misuse = Moved_armed | Destroyed_in_flight | Cancelled_late

definition sv_objs :: "'c conn_service \<Rightarrow> ptr \<Rightarrow> ptr set" where
  "sv_objs s p = (case sv_impl s p of None \<Rightarrow> {} | Some i \<Rightarrow> impl_objs i)"

definition sv_conn_ok :: "'c conn_service \<Rightarrow> ptr \<Rightarrow> bool" where
  "sv_conn_ok s p \<longleftrightarrow>
     (case sv_impl s p of None \<Rightarrow> sv_armed s p = [] | Some i \<Rightarrow> conn_wf i (sv_armed s p))"

definition sv_registered :: "'c conn_service \<Rightarrow> bool" where
  "sv_registered s \<longleftrightarrow> (\<exists>ps. represents (sv_list s) ps \<and> set ps = dom (sv_impl s))"

definition sv_core :: "('c \<Rightarrow> ptr set) \<Rightarrow> ptr set \<Rightarrow> 'c conn_service \<Rightarrow> bool" where
  "sv_core live F s \<longleftrightarrow> sv_registered s \<and> (\<forall>p. sv_conn_ok s p) \<and> owned (live (sv_cm s)) F (sv_objs s)"

text \<open>
  The pointers of the operations: an operation is queued on the connector it was started on, until one is moved
  while armed; the connector of an armed operation, and of a posted connect or accept, exists, until one
  is destroyed while such an operation works for it.
\<close>

definition sv_handlers :: "'c conn_service \<Rightarrow> nat set" where
  "sv_handlers s = (\<Union>p. cm_op_handler ` set (sv_armed s p)) \<union> cm_op_handler ` set (sv_posted s)"

definition sv_at_home :: "'c conn_service \<Rightarrow> bool" where
  "sv_at_home s \<longleftrightarrow> (\<forall>p. \<forall>op\<in>set (sv_armed s p). sv_owner s (cm_op_handler op) = p)"

definition sv_owners_live :: "'c conn_service \<Rightarrow> bool" where
  "sv_owners_live s \<longleftrightarrow>
     (\<forall>p. \<forall>op\<in>set (sv_armed s p). sv_owner s (cm_op_handler op) \<in> dom (sv_impl s)) \<and>
     (\<forall>op\<in>set (sv_posted s). is_cm op \<longrightarrow> sv_owner s (cm_op_handler op) \<in> dom (sv_impl s))"

definition sv_pointers :: "misuse set \<Rightarrow> 'c conn_service \<Rightarrow> bool" where
  "sv_pointers M s \<longleftrightarrow>
     (Moved_armed \<notin> M \<longrightarrow> sv_at_home s) \<and> (Destroyed_in_flight \<notin> M \<longrightarrow> sv_owners_live s) \<and>
     (sv_dangling s \<longrightarrow> Destroyed_in_flight \<in> M \<or> Cancelled_late \<in> M)"

definition sv_inv :: "('c \<Rightarrow> ptr set) \<Rightarrow> ptr set \<Rightarrow> misuse set \<Rightarrow> 'c conn_service \<Rightarrow> bool" where
  "sv_inv live F M s \<longleftrightarrow> sv_core live F s \<and> sv_pointers M s"

lemma sv_objs_Some [simp]: "sv_impl s p = Some i \<Longrightarrow> sv_objs s p = impl_objs i"
  by (simp add: sv_objs_def)

lemma sv_objs_None [simp]: "sv_impl s p = None \<Longrightarrow> sv_objs s p = {}"
  by (simp add: sv_objs_def)

lemma sv_conn_okD:
  "sv_conn_ok s p \<Longrightarrow> sv_impl s p = Some i \<Longrightarrow> conn_wf i (sv_armed s p)"
  "sv_conn_ok s p \<Longrightarrow> sv_impl s p = None \<Longrightarrow> sv_armed s p = []"
  by (simp_all add: sv_conn_ok_def)

lemma sv_conn_ok_other:
  "sv_impl s' r = sv_impl s r \<Longrightarrow> sv_armed s' r = sv_armed s r \<Longrightarrow> sv_conn_ok s' r = sv_conn_ok s r"
  by (cases "sv_impl s r") (simp_all add: sv_conn_ok_def)

lemma sv_coreD:
  assumes "sv_core live F s"
  shows "sv_registered s" "\<And>p. sv_conn_ok s p" "owned (live (sv_cm s)) F (sv_objs s)"
  using assms by (simp_all add: sv_core_def)

lemma sv_core_wf: "sv_core live F s \<Longrightarrow> sv_impl s p = Some i \<Longrightarrow> conn_wf i (sv_armed s p)"
  using sv_conn_okD(1) [OF sv_coreD(2)] .

lemma closed_no_objs: "impl_wf i \<Longrightarrow> \<not> conn_is_open i \<Longrightarrow> impl_objs i = {}"
  by (simp add: impl_wf_def conn_is_open_def impl_objs_def)

lemma sv_focus_impl [simp]: "sv_impl s p = Some i \<Longrightarrow> kw_impl (sv_focus p s) = i"
  by (simp add: sv_focus_def)

lemma sv_focus_sel [simp]:
  "kw_cm (sv_focus p s) = sv_cm s" "kw_armed (sv_focus p s) = sv_armed s p"
  "kw_posted (sv_focus p s) = sv_posted s" "kw_upcalls (sv_focus p s) = sv_upcalls s"
  by (simp_all add: sv_focus_def)

lemma sv_update_sel [simp]:
  "sv_cm (sv_update p w s) = kw_cm w" "sv_list (sv_update p w s) = sv_list s"
  "sv_impl (sv_update p w s) = (sv_impl s)(p \<mapsto> kw_impl w)"
  "sv_armed (sv_update p w s) = (sv_armed s)(p := kw_armed w)"
  "sv_posted (sv_update p w s) = kw_posted w" "sv_owner (sv_update p w s) = sv_owner s"
  "sv_dangling (sv_update p w s) = sv_dangling s" "sv_upcalls (sv_update p w s) = kw_upcalls w"
  by (simp_all add: sv_update_def)

lemma sv_return_sel [simp]:
  "sv_cm (sv_return p H w s) = kw_cm w" "sv_list (sv_return p H w s) = sv_list s"
  "sv_impl (sv_return p H w s) = (sv_impl s)(p \<mapsto> kw_impl w)"
  "sv_armed (sv_return p H w s) = (sv_armed s)(p := kw_armed w)"
  "sv_posted (sv_return p H w s) = kw_posted w"
  "sv_owner (sv_return p H w s) = (\<lambda>h. if h \<in> H then p else sv_owner s h)"
  "sv_dangling (sv_return p H w s) = sv_dangling s"
  by (simp_all add: sv_return_def)

lemma sv_return_none: "sv_return p {} w s = sv_update p w s"
  by (simp add: sv_return_def sv_update_def)

lemma sv_focus_world_wf: "sv_core live F s \<Longrightarrow> sv_impl s p = Some i \<Longrightarrow> world_wf (sv_focus p s)"
  by (simp add: world_wf_def sv_core_wf)

text \<open>
  The pointers stay good over a step that keeps the connectors and makes operations only for a connector
  that exists, or out of those that were there.
\<close>

lemma sv_pointersI:
  assumes P: "sv_pointers M s" and M: "M \<subseteq> M'"
    and own: "\<And>h. h \<in> sv_handlers s \<Longrightarrow> sv_owner s' h = sv_owner s h"
    and dom: "dom (sv_impl s) \<subseteq> dom (sv_impl s')"
    and armed: "\<And>p op. op \<in> set (sv_armed s' p) \<Longrightarrow>
      (\<exists>r. cm_op_handler op \<in> cm_op_handler ` set (sv_armed s r) \<and> (Moved_armed \<in> M' \<or> r = p)) \<or>
      sv_owner s' (cm_op_handler op) = p \<and> p \<in> dom (sv_impl s')"
    and posted: "\<And>op. op \<in> set (sv_posted s') \<Longrightarrow> is_cm op \<Longrightarrow> op \<in> set (sv_posted s) \<or>
      (\<exists>r. cm_op_handler op \<in> cm_op_handler ` set (sv_armed s r)) \<or> sv_owner s' (cm_op_handler op) \<in> dom (sv_impl s')"
    and dang: "sv_dangling s' \<Longrightarrow> sv_dangling s \<or> Destroyed_in_flight \<in> M' \<or> Cancelled_late \<in> M'"
  shows "sv_pointers M' s'"
proof -
  have mem: "h \<in> cm_op_handler ` set (sv_armed s r) \<Longrightarrow> sv_owner s' h = sv_owner s h"
    "op \<in> set (sv_posted s) \<Longrightarrow> sv_owner s' (cm_op_handler op) = sv_owner s (cm_op_handler op)" for h r op
    by (rule own; auto simp: sv_handlers_def)+
  have "sv_at_home s'" if m: "Moved_armed \<notin> M'"
  proof -
    have home: "sv_at_home s" using P M m by (auto simp: sv_pointers_def)
    have "sv_owner s' (cm_op_handler op) = p" if "op \<in> set (sv_armed s' p)" for p op
      using armed [OF that]
    proof (elim disjE exE conjE)
      fix r assume r: "cm_op_handler op \<in> cm_op_handler ` set (sv_armed s r)" "r = p"
      then show ?thesis using home mem(1) [OF r(1)] by (auto simp: sv_at_home_def)
    qed (use m in simp_all)
    then show ?thesis by (simp add: sv_at_home_def)
  qed
  moreover have "sv_owners_live s'" if d: "Destroyed_in_flight \<notin> M'"
  proof -
    have L: "sv_owners_live s" using P M d by (auto simp: sv_pointers_def)
    have old: "sv_owner s' h \<in> dom (sv_impl s')" if "h \<in> cm_op_handler ` set (sv_armed s r)" for h r
    proof -
      have "sv_owner s h \<in> dom (sv_impl s)" using L that by (auto simp: sv_owners_live_def)
      then show ?thesis using dom mem(1) [OF that] by auto
    qed
    have post: "sv_owner s' (cm_op_handler op) \<in> dom (sv_impl s')" if "op \<in> set (sv_posted s)" "is_cm op" for op
    proof -
      have "sv_owner s (cm_op_handler op) \<in> dom (sv_impl s)" using L that by (auto simp: sv_owners_live_def)
      then show ?thesis using dom mem(2) [OF that(1)] by auto
    qed
    show ?thesis
      unfolding sv_owners_live_def
    proof (intro conjI allI ballI impI)
      fix p op assume "op \<in> set (sv_armed s' p)"
      from armed [OF this] show "sv_owner s' (cm_op_handler op) \<in> dom (sv_impl s')" using old by blast
    next
      fix op assume "op \<in> set (sv_posted s')" "is_cm op"
      from posted [OF this] show "sv_owner s' (cm_op_handler op) \<in> dom (sv_impl s')"
        using old post \<open>is_cm op\<close> by blast
    qed
  qed
  moreover have "sv_dangling s' \<longrightarrow> Destroyed_in_flight \<in> M' \<or> Cancelled_late \<in> M'"
    using P M dang by (auto simp: sv_pointers_def)
  ultimately show ?thesis by (simp add: sv_pointers_def)
qed

subsection \<open>Each step keeps the invariant\<close>

lemma local_stepD:
  assumes "local_step live H w w'"
  obtains new where "kw_posted w' = kw_posted w @ new"
    and "cm_op_handler ` set new \<subseteq> cm_op_handler ` set (kw_armed w) \<union> H"
    and "cm_op_handler ` set (kw_armed w') \<subseteq> cm_op_handler ` set (kw_armed w) \<union> H"
  using assms unfolding local_step_def Let_def by blast

lemma sv_return_core:
  assumes inv: "sv_core live F s" and i: "sv_impl s p = Some i" and ok: "call_ok live H (sv_focus p s) w"
  shows "sv_core live F (sv_return p H w s)"
proof -
  let ?s = "sv_return p H w s"
  note parts = sv_coreD [OF inv]
  have L: "local_step live H (sv_focus p s) w" "world_wf w" using ok by (simp_all add: call_ok_def)
  have "dom (sv_impl ?s) = dom (sv_impl s)" using i by auto
  then have reg: "sv_registered ?s" using parts(1) by (simp add: sv_registered_def)
  have conns: "sv_conn_ok ?s q" for q
    using parts(2) [of q] L(2) sv_conn_ok_other [of ?s q s]
    by (cases "q = p") (simp_all add: sv_conn_ok_def world_wf_def)
  have objs: "sv_objs ?s = (sv_objs s)(p := impl_objs (kw_impl w))"
    by (simp add: sv_objs_def fun_eq_iff)
  have "ci_channel (kw_impl w) = ci_channel i \<and> ci_cm_id (kw_impl w) = ci_cm_id i \<and> live (kw_cm w) = live (sv_cm s) \<or>
    \<not> conn_is_open i \<and> impl_objs (kw_impl w) \<inter> live (sv_cm s) = {} \<and>
    live (kw_cm w) = impl_objs (kw_impl w) \<union> live (sv_cm s)"
    using L(1) i unfolding local_step_def Let_def sv_focus_sel by (simp only: sv_focus_impl) blast
  then have "owned (live (kw_cm w)) F (sv_objs ?s)"
  proof (elim disjE conjE)
    assume "ci_channel (kw_impl w) = ci_channel i" "ci_cm_id (kw_impl w) = ci_cm_id i"
      "live (kw_cm w) = live (sv_cm s)"
    moreover from this have "sv_objs ?s = sv_objs s" using objs i by (simp add: impl_objs_def fun_eq_iff)
    ultimately show ?thesis using parts(3) by simp
  next
    assume o: "\<not> conn_is_open i" and n: "impl_objs (kw_impl w) \<inter> live (sv_cm s) = {}"
      and l: "live (kw_cm w) = impl_objs (kw_impl w) \<union> live (sv_cm s)"
    have "sv_objs s p = {}"
      using closed_no_objs [OF _ o] sv_core_wf [OF inv i] i by (simp add: conn_wf_def)
    then show ?thesis unfolding objs l by (rule owned_open [OF parts(3) _ n])
  qed
  then show ?thesis using reg conns by (simp add: sv_core_def)
qed

lemma sv_return_pointers:
  assumes P: "sv_pointers M s" and i: "sv_impl s p = Some i" and H: "H \<inter> sv_handlers s = {}"
    and L: "local_step live H (sv_focus p s) w"
  shows "sv_pointers M (sv_return p H w s)"
proof -
  obtain new where new: "kw_posted w = sv_posted s @ new"
    "cm_op_handler ` set new \<subseteq> cm_op_handler ` set (sv_armed s p) \<union> H"
    and armed: "cm_op_handler ` set (kw_armed w) \<subseteq> cm_op_handler ` set (sv_armed s p) \<union> H"
    using local_stepD [OF L] by (metis sv_focus_sel(2,3))
  show ?thesis
  proof (rule sv_pointersI [OF P subset_refl])
    fix q op assume op: "op \<in> set (sv_armed (sv_return p H w s) q)"
    show "(\<exists>r. cm_op_handler op \<in> cm_op_handler ` set (sv_armed s r) \<and> (Moved_armed \<in> M \<or> r = q)) \<or>
      sv_owner (sv_return p H w s) (cm_op_handler op) = q \<and> q \<in> dom (sv_impl (sv_return p H w s))"
    proof (cases "q = p")
      case True
      then have "cm_op_handler op \<in> cm_op_handler ` set (sv_armed s p) \<union> H" using op armed by auto
      then show ?thesis using True by auto
    next
      case False
      then show ?thesis using op by auto
    qed
  next
    fix op assume op: "op \<in> set (sv_posted (sv_return p H w s))"
    show "op \<in> set (sv_posted s) \<or> (\<exists>r. cm_op_handler op \<in> cm_op_handler ` set (sv_armed s r)) \<or>
      sv_owner (sv_return p H w s) (cm_op_handler op) \<in> dom (sv_impl (sv_return p H w s))"
    proof (cases "op \<in> set (sv_posted s)")
      case False
      then have "cm_op_handler op \<in> cm_op_handler ` set (sv_armed s p) \<union> H" using op new by auto
      then show ?thesis by auto
    qed simp
  qed (use H in auto)
qed

lemma sv_return_inv:
  assumes "sv_inv live F M s" and "sv_impl s p = Some i" and "H \<inter> sv_handlers s = {}"
    and "call_ok live H (sv_focus p s) w"
  shows "sv_inv live F M (sv_return p H w s)"
  using assms sv_return_core sv_return_pointers unfolding sv_inv_def call_ok_def by metis

text \<open>Changes of the connectors' states, of the posted operations and of the upcalls only.\<close>

lemma sv_core_states:
  assumes inv: "sv_core live F s"
    and eq: "sv_list s' = sv_list s" "sv_armed s' = sv_armed s" "live (sv_cm s') = live (sv_cm s)"
    and impls: "\<And>p. rel_option (\<lambda>i j. ci_channel i = ci_channel j \<and> ci_cm_id i = ci_cm_id j)
      (sv_impl s' p) (sv_impl s p)"
  shows "sv_core live F s'"
proof -
  have none: "sv_impl s' p = None \<longleftrightarrow> sv_impl s p = None" for p
    using impls [of p] by (cases "sv_impl s' p"; cases "sv_impl s p") auto
  have objs: "sv_objs s' = sv_objs s"
  proof
    fix p show "sv_objs s' p = sv_objs s p"
      using impls [of p] by (cases "sv_impl s' p"; cases "sv_impl s p") (auto simp: sv_objs_def impl_objs_def)
  qed
  have "sv_conn_ok s' p" if c: "sv_conn_ok s p" for p
  proof (cases "sv_impl s p")
    case None
    then show ?thesis using c none [of p] by (simp add: sv_conn_ok_def eq)
  next
    case (Some j)
    then obtain i where i: "sv_impl s' p = Some i" using none [of p] by auto
    then have ij: "ci_channel i = ci_channel j" "ci_cm_id i = ci_cm_id j" using impls [of p] Some by simp_all
    then have "conn_wf i ops = conn_wf j ops" for ops
      using op_points_cong [OF ij] by (simp add: conn_wf_def impl_wf_def conn_is_open_def)
    then show ?thesis using c i Some by (simp add: sv_conn_ok_def eq)
  qed
  then show ?thesis
    using inv none by (auto simp: sv_core_def sv_registered_def eq objs dom_def)
qed

lemma sv_pointers_states:
  assumes P: "sv_pointers M s" and "M \<subseteq> M'"
    and "sv_armed s' = sv_armed s" and "sv_owner s' = sv_owner s" and "dom (sv_impl s') = dom (sv_impl s)"
    and "set (sv_posted s') \<subseteq> set (sv_posted s)"
    and "sv_dangling s' \<Longrightarrow> sv_dangling s \<or> Destroyed_in_flight \<in> M' \<or> Cancelled_late \<in> M'"
  shows "sv_pointers M' s'"
  by (rule sv_pointersI [OF P assms(2)]) (use assms(3-) in auto)

text \<open>
  Performing: the operation uses its own connector, or after a move the state of the connector it was
  started on.
\<close>

lemma call_ok_impl:
  fixes w :: "'c conn_world"
  assumes ok: "call_ok live {} (w\<lparr>kw_impl := j\<rparr>) w'" and w: "kw_armed w = op # ops"
    and j: "ci_channel j = ci_channel (kw_impl w)" "ci_cm_id j = ci_cm_id (kw_impl w)" and wf: "world_wf w"
  shows "call_ok live {} w (w'\<lparr>kw_impl := kw_impl w\<rparr>)"
proof -
  have o: "conn_is_open j" using wf w j by (simp add: world_wf_def conn_wf_def conn_is_open_def)
  have L: "local_step live {} (w\<lparr>kw_impl := j\<rparr>) w'" "world_wf w'" using ok by (simp_all add: call_ok_def)
  have k: "ci_channel (kw_impl w') = ci_channel (kw_impl w) \<and> ci_cm_id (kw_impl w') = ci_cm_id (kw_impl w) \<and>
      live (kw_cm w') = live (kw_cm w)"
    using L(1) o j by (auto simp: local_step_def Let_def)
  then have "conn_wf (kw_impl w) (kw_armed w')"
    using L(2) op_points_cong [of "kw_impl w'" "kw_impl w"]
    by (auto simp: world_wf_def conn_wf_def impl_wf_def conn_is_open_def)
  then show ?thesis using L(1) k by (simp add: call_ok_def local_step_def Let_def world_wf_def)
qed

lemma sv_perform_inv:
  assumes law: "resource_law live api" "id_calls_law live api" "keeps_live live cb" and inv: "sv_inv live F M s"
  shows "sv_inv live F M (sv_perform api cb p s)"
proof (cases "sv_armed s p")
  case Nil
  then show ?thesis using inv by (simp add: sv_perform_def)
next
  case (Cons op ops)
  have C: "sv_core live F s" "sv_pointers M s" using inv by (simp_all add: sv_inv_def)
  obtain i where i: "sv_impl s p = Some i"
    using sv_conn_okD(2) [OF sv_coreD(2) [OF C(1)]] Cons by (cases "sv_impl s p") auto
  note wf = sv_focus_world_wf [OF C(1) i]
  let ?q = "sv_owner s (cm_op_handler op)"
  show ?thesis
  proof (cases "?q = p")
    case True
    then show ?thesis
      using sv_return_inv [OF inv i _ perform_call [OF law wf]] by (simp add: sv_perform_def Cons)
  next
    case False
    define j where "j = kw_impl (sv_focus ?q s)"
    define i' where "i' = i\<lparr>ci_state := ci_state j, ci_peer_closed := ci_peer_closed j\<rparr>"
    define w where "w = perform_front api cb ((sv_focus p s)\<lparr>kw_impl := i'\<rparr>)"
    define s1 where "s1 = sv_return p {} (w\<lparr>kw_impl := i\<rparr>) s"
    have k: "ci_channel i' = ci_channel i" "ci_cm_id i' = ci_cm_id i" by (simp_all add: i'_def)
    have "world_wf ((sv_focus p s)\<lparr>kw_impl := i'\<rparr>)"
      using wf i op_points_cong [OF k] k by (simp add: world_wf_def conn_wf_def impl_wf_def conn_is_open_def)
    from perform_call [OF law this] have "call_ok live {} ((sv_focus p s)\<lparr>kw_impl := i'\<rparr>) w" by (simp add: w_def)
    then have "call_ok live {} (sv_focus p s) (w\<lparr>kw_impl := i\<rparr>)"
      using call_ok_impl [of live i' "sv_focus p s" w op ops] Cons k i wf by simp
    then have inv1: "sv_inv live F M s1" unfolding s1_def by (rule sv_return_inv [OF inv i Int_empty_left])
    have run: "sv_perform api cb p s =
      (case sv_impl s ?q of None \<Rightarrow> s1\<lparr>sv_dangling := True\<rparr>
       | Some _ \<Rightarrow> s1\<lparr>sv_impl := (sv_impl s1)(?q \<mapsto> j\<lparr>ci_state := ci_state (kw_impl w),
            ci_peer_closed := ci_peer_closed (kw_impl w)\<rparr>)\<rparr>)"
      using False i by (simp add: sv_perform_def Cons Let_def s1_def sv_return_none w_def i'_def j_def split: option.split)
    show ?thesis
    proof (cases "sv_impl s ?q")
      case None
      have "op \<in> set (sv_armed s p)" "?q \<notin> dom (sv_impl s)" using None Cons by auto
      then have "\<not> sv_owners_live s" unfolding sv_owners_live_def by blast
      then have "Destroyed_in_flight \<in> M" using C(2) by (auto simp: sv_pointers_def)
      then show ?thesis
        using inv1 None run sv_core_states [of live F s1 "s1\<lparr>sv_dangling := True\<rparr>"]
          sv_pointers_states [of M s1 M "s1\<lparr>sv_dangling := True\<rparr>"]
        by (simp add: sv_inv_def option.rel_refl)
    next
      case (Some j')
      let ?s = "s1\<lparr>sv_impl := (sv_impl s1)(?q \<mapsto> j\<lparr>ci_state := ci_state (kw_impl w),
            ci_peer_closed := ci_peer_closed (kw_impl w)\<rparr>)\<rparr>"
      have j': "sv_impl s1 ?q = Some j" using Some False by (simp add: s1_def j_def)
      have "sv_core live F ?s"
        by (rule sv_core_states [of live F s1]) (use inv1 j' in \<open>simp_all add: sv_inv_def option.rel_refl\<close>)
      moreover have "sv_pointers M ?s"
        by (rule sv_pointers_states [of M s1]) (use inv1 j' in \<open>auto simp: sv_inv_def\<close>)
      ultimately show ?thesis using Some run by (simp add: sv_inv_def)
    qed
  qed
qed

lemma complete_front_sel:
  assumes "kw_posted w = op # ops"
  shows "kw_cm (complete_front True w) = kw_cm w" "kw_armed (complete_front True w) = kw_armed w"
    "kw_posted (complete_front True w) = ops"
    "ci_channel (kw_impl (complete_front True w)) = ci_channel (kw_impl w)"
    "ci_cm_id (kw_impl (complete_front True w)) = ci_cm_id (kw_impl w)"
  by (simp_all add: complete_front_def assms case_prod_beta)

lemma sv_complete_inv:
  assumes inv: "sv_inv live F M s"
  shows "sv_inv live F M (sv_complete s)"
proof (cases "sv_posted s")
  case Nil
  then show ?thesis using inv by (simp add: sv_complete_def)
next
  case (Cons op ops)
  let ?q = "sv_owner s (cm_op_handler op)"
  have I: "sv_core live F s" "sv_pointers M s" using inv by (simp_all add: sv_inv_def)
  have p: "kw_posted (sv_focus ?q s) = op # ops" using Cons by simp
  note C = complete_front_sel [OF p]
  show ?thesis
  proof (cases "sv_impl s ?q")
    case None
    then have run: "sv_complete s = s\<lparr>sv_posted := kw_posted (complete_front True (sv_focus ?q s)),
        sv_upcalls := kw_upcalls (complete_front True (sv_focus ?q s)),
        sv_dangling := (sv_dangling s \<or> stores_state op)\<rparr>"
      by (simp add: sv_complete_def Cons Let_def)
    have "Destroyed_in_flight \<in> M" if "stores_state op"
      using I(2) None Cons that by (auto simp: sv_pointers_def sv_owners_live_def stores_state_def)
    then have "sv_pointers M (sv_complete s)"
      unfolding run by (intro sv_pointers_states [OF I(2)]) (use C(3) Cons in auto)
    moreover have "sv_core live F (sv_complete s)"
      unfolding run by (rule sv_core_states [OF I(1)]) (simp_all add: option.rel_refl)
    ultimately show ?thesis by (simp add: sv_inv_def)
  next
    case (Some i)
    have run: "sv_complete s = sv_update ?q (complete_front True (sv_focus ?q s)) s"
      by (simp add: sv_complete_def Cons Some Let_def)
    have "sv_pointers M (sv_complete s)"
      unfolding run by (rule sv_pointers_states [OF I(2)]) (use C Cons Some in auto)
    moreover have "sv_core live F (sv_complete s)"
      unfolding run by (rule sv_core_states [OF I(1)]) (use C Some in \<open>simp_all add: option.rel_refl\<close>)
    ultimately show ?thesis by (simp add: sv_inv_def)
  qed
qed

text \<open>A cancellation signal for an outstanding operation.\<close>

definition late_cancel :: "nat \<Rightarrow> 'c conn_service \<Rightarrow> misuse set" where
  "late_cancel h s = (if sv_impl s (sv_owner s h) = None then {Cancelled_late} else {})"

lemma sv_cancel_inv:
  assumes inv: "sv_inv live F M s"
  shows "sv_inv live F (M \<union> late_cancel h s) (sv_cancel type h s)"
proof (cases "sv_impl s (sv_owner s h)")
  case None
  then show ?thesis
    using inv sv_core_states [of live F s "sv_cancel type h s"]
      sv_pointers_states [of M s "M \<union> late_cancel h s" "sv_cancel type h s"]
    by (simp add: sv_inv_def sv_cancel_def late_cancel_def option.rel_refl subset_insertI)
next
  case (Some i)
  have "world_wf (sv_focus (sv_owner s h) s)" using inv Some sv_focus_world_wf by (auto simp: sv_inv_def)
  from sv_return_inv [OF inv Some Int_empty_left cancellation_call [OF this]] Some show ?thesis
    by (simp add: sv_cancel_def late_cancel_def sv_return_none Let_def)
qed

lemma sv_construct_inv:
  assumes inv: "sv_inv live F M s" and p: "p \<noteq> nullptr" "sv_impl s p = None"
  shows "sv_inv live F M (sv_construct p s)"
proof -
  have I: "sv_core live F s" "sv_pointers M s" using inv by (simp_all add: sv_inv_def)
  obtain ps where ps: "represents (sv_list s) ps" "set ps = dom (sv_impl s)"
    using I(1) by (auto simp: sv_core_def sv_registered_def)
  then have "p \<notin> set ps" using p(2) by auto
  then have "represents (do_insert p (sv_list s)) (p # ps)" by (rule do_insert_represents [OF ps(1) p(1)])
  moreover have "set (p # ps) = dom (sv_impl (sv_construct p s))" using ps(2) by (simp add: sv_construct_def)
  ultimately have "sv_registered (sv_construct p s)"
    unfolding sv_registered_def by (intro exI [of _ "p # ps"]) (simp add: sv_construct_def)
  moreover have "sv_objs (sv_construct p s) = sv_objs s"
    using p(2) by (auto simp: sv_objs_def sv_construct_def connector_construct_def impl_objs_def fun_eq_iff)
  moreover have "sv_conn_ok (sv_construct p s) q" if "sv_conn_ok s q" for q
    using that by (cases "q = p"; cases "sv_impl s q") (simp_all add: sv_conn_ok_def sv_construct_def conn_wf_def
        impl_wf_def connector_construct_def conn_is_open_def)
  ultimately have "sv_core live F (sv_construct p s)"
    using I(1) by (simp add: sv_core_def) (simp add: sv_construct_def)
  moreover have "sv_pointers M (sv_construct p s)"
    by (rule sv_pointersI [OF I(2) subset_refl]) (auto simp: sv_construct_def split: if_splits)
  ultimately show ?thesis by (simp add: sv_inv_def)
qed

text \<open>
  Moving a connector from \<open>q\<close> to \<open>p\<close>, which owns nothing: the descriptor's queue goes with the channel.
\<close>

definition sv_moved :: "ptr \<Rightarrow> ptr \<Rightarrow> 'c conn_service \<Rightarrow> 'c conn_service" where
  "sv_moved p q s =
     (case conn_move_construct (kw_impl (sv_focus q s)) of (i, j) \<Rightarrow>
       s\<lparr>sv_impl := (sv_impl s)(p \<mapsto> i, q \<mapsto> j), sv_armed := (sv_armed s)(p := sv_armed s q, q := [])\<rparr>)"

definition moved_armed :: "ptr \<Rightarrow> 'c conn_service \<Rightarrow> misuse set" where
  "moved_armed q s = (if sv_armed s q = [] then {} else {Moved_armed})"

lemma sv_moved_inv:
  assumes inv: "sv_inv live F M s" and p: "sv_impl s p = Some i0" "sv_objs s p = {}" "sv_armed s p = []"
    and q: "sv_impl s q = Some j0" and pq: "p \<noteq> q"
  shows "sv_inv live F (M \<union> moved_armed q s) (sv_moved p q s)"
proof -
  have I: "sv_core live F s" "sv_pointers M s" using inv by (simp_all add: sv_inv_def)
  obtain i j where m: "conn_move_construct j0 = (i, j)" by fastforce
  let ?s = "sv_moved p q s"
  have run: "?s = s\<lparr>sv_impl := (sv_impl s)(p \<mapsto> i, q \<mapsto> j), sv_armed := (sv_armed s)(p := sv_armed s q, q := [])\<rparr>"
    using m q by (simp add: sv_moved_def)
  have mi: "ci_channel i = ci_channel j0" "ci_cm_id i = ci_cm_id j0" "ci_channel j = nullptr" "ci_cm_id j = nullptr"
    using m by (auto simp: conn_move_construct_def)
  note ok = sv_coreD(2) [OF I(1)]
  have wf: "conn_wf j0 (sv_armed s q)" by (rule sv_core_wf [OF I(1) q])
  have wfi: "conn_wf i (sv_armed s q)"
    using wf mi(1,2) op_points_cong [of i j0] by (simp add: conn_wf_def impl_wf_def conn_is_open_def)
  have "sv_objs ?s = (sv_objs s)(p := sv_objs s q, q := {})"
    using mi pq q by (auto simp: run sv_objs_def impl_objs_def fun_eq_iff)
  then have own: "owned (live (sv_cm ?s)) F (sv_objs ?s)"
    using owned_move [OF sv_coreD(3) [OF I(1)], of p q] p(2) pq run by simp
  have "sv_conn_ok ?s r" for r
  proof (cases "r = p \<or> r = q")
    case True
    then show ?thesis
      using mi wfi pq by (auto simp: sv_conn_ok_def run conn_wf_def impl_wf_def conn_is_open_def)
  next
    case False
    then show ?thesis using ok [of r] sv_conn_ok_other [of ?s r s] by (simp add: run)
  qed
  moreover have "dom (sv_impl ?s) = dom (sv_impl s)" using p q by (auto simp: run)
  then have "sv_registered ?s" using sv_coreD(1) [OF I(1)] by (simp add: sv_registered_def run)
  moreover have "sv_pointers (M \<union> moved_armed q s) ?s"
    by (rule sv_pointersI [OF I(2)]) (auto simp: run moved_armed_def split: if_splits)
  ultimately show ?thesis using own by (simp add: sv_inv_def sv_core_def)
qed

text \<open>What closing a connector changes.\<close>

definition sv_closed :: "('c \<Rightarrow> ptr set) \<Rightarrow> ptr \<Rightarrow> 'c conn_service \<Rightarrow> 'c conn_service \<Rightarrow> bool" where
  "sv_closed live p s s' \<longleftrightarrow>
     (\<exists>i. ci_channel i = nullptr \<and> ci_cm_id i = nullptr \<and> sv_impl s' = (sv_impl s)(p \<mapsto> i)) \<and>
     sv_list s' = sv_list s \<and> sv_armed s' = (sv_armed s)(p := []) \<and>
     sv_posted s' = sv_posted s @ map (set_ec operation_aborted) (sv_armed s p) \<and>
     sv_owner s' = sv_owner s \<and> sv_dangling s' = sv_dangling s \<and>
     live (sv_cm s') = live (sv_cm s) - sv_objs s p"

lemma sv_close_closed:
  assumes R: "resource_law live api" and E: "event_law cm_queue api"
    and D: "disc_law disc api" "destroy_disc_law disc api"
    and inv: "sv_core live F s" and i: "sv_impl s p = Some i"
  shows "\<exists>s'. sv_close api p s = Some s' \<and> sv_closed live p s s'"
proof -
  note wf = sv_core_wf [OF inv i]
  show ?thesis
  proof (cases "conn_is_open i")
    case True
    then have n: "ci_channel i \<noteq> nullptr" "ci_cm_id i \<noteq> nullptr"
      using wf by (simp_all add: conn_wf_def impl_wf_def conn_is_open_def)
    obtain w where w: "close_for_destruction api (sv_focus p s) = Some w"
      "closed_outcome live cm_queue disc (sv_focus p s) w"
      using close_for_destruction_outcome [OF R E D, of "sv_focus p s"] n i by auto
    have "sv_objs s p = {ci_channel i, ci_cm_id i}" using n i by (auto simp: impl_objs_def)
    then show ?thesis
      using w i by (auto simp: sv_close_def sv_closed_def closed_outcome_def conn_is_open_def Let_def)
  next
    case False
    then have n: "ci_channel i = nullptr" "ci_cm_id i = nullptr" "sv_armed s p = []" "sv_objs s p = {}"
      using wf i by (simp_all add: conn_wf_def impl_wf_def conn_is_open_def impl_objs_def)
    show ?thesis
      using n i by (simp add: sv_close_def sv_closed_def close_for_destruction_def sv_update_def Let_def)
        (rule exI [of _ "i\<lparr>ci_channel := nullptr, ci_cm_id := nullptr, ci_registered := False\<rparr>"], simp)
  qed
qed

lemma sv_closed_inv:
  assumes inv: "sv_inv live F M s" and i: "sv_impl s p = Some i0" and c: "sv_closed live p s s'"
  shows "sv_inv live F M s'"
proof -
  have I: "sv_core live F s" "sv_pointers M s" using inv by (simp_all add: sv_inv_def)
  obtain i where n: "ci_channel i = nullptr" "ci_cm_id i = nullptr" and impl: "sv_impl s' = (sv_impl s)(p \<mapsto> i)"
    using c by (auto simp: sv_closed_def)
  have eq: "sv_list s' = sv_list s" "sv_armed s' = (sv_armed s)(p := [])" "sv_owner s' = sv_owner s"
    "sv_dangling s' = sv_dangling s" "live (sv_cm s') = live (sv_cm s) - sv_objs s p"
    "sv_posted s' = sv_posted s @ map (set_ec operation_aborted) (sv_armed s p)"
    using c by (simp_all add: sv_closed_def)
  have objs: "sv_objs s' = (sv_objs s)(p := {})" using n by (auto simp: impl sv_objs_def impl_objs_def fun_eq_iff)
  have own: "owned (live (sv_cm s')) F (sv_objs s')" unfolding objs eq by (rule owned_close [OF sv_coreD(3) [OF I(1)]])
  have "sv_conn_ok s' r" for r
    using sv_coreD(2) [OF I(1), of r] n sv_conn_ok_other [of s' r s] eq
    by (cases "r = p") (simp_all add: sv_conn_ok_def impl conn_wf_def impl_wf_def conn_is_open_def)
  moreover have "dom (sv_impl s') = dom (sv_impl s)" using i by (auto simp: impl)
  then have "sv_registered s'" using sv_coreD(1) [OF I(1)] by (simp add: sv_registered_def eq)
  moreover have "sv_pointers M s'"
    by (rule sv_pointersI [OF I(2) subset_refl]) (auto simp: impl eq split: if_splits dest!: spec [of _ p])
  ultimately show ?thesis using own by (simp add: sv_inv_def sv_core_def)
qed

text \<open>
  An operation works for the connector at \<open>p\<close> past its destruction: a connect or accept started on it that is armed
  or posted, which may store into its \<open>connect_state_\<close>, or any operation that a move has queued elsewhere.
\<close>

definition sv_in_flight :: "ptr \<Rightarrow> 'c conn_service \<Rightarrow> bool" where
  "sv_in_flight p s \<longleftrightarrow>
     (\<exists>r. \<exists>op\<in>set (sv_armed s r). sv_owner s (cm_op_handler op) = p \<and> (is_cm op \<or> r \<noteq> p)) \<or>
     (\<exists>op\<in>set (sv_posted s). is_cm op \<and> sv_owner s (cm_op_handler op) = p)"

definition destroyed_in_flight :: "ptr \<Rightarrow> 'c conn_service \<Rightarrow> misuse set" where
  "destroyed_in_flight p s = (if sv_in_flight p s then {Destroyed_in_flight} else {})"

lemma is_cm_set_ec [simp]: "is_cm (set_ec ec op) = is_cm op"
  by (cases op) simp_all

lemma sv_removed_inv:
  assumes inv: "sv_inv live F M s" and i: "sv_impl s p = Some i" and none: "sv_objs s p = {}" "sv_armed s p = []"
    and M: "M \<subseteq> M'" and safe: "Destroyed_in_flight \<notin> M' \<Longrightarrow> \<not> sv_in_flight p s"
  shows "sv_inv live F M' (s\<lparr>sv_list := do_remove p (sv_list s), sv_impl := (sv_impl s)(p := None)\<rparr>)"
    (is "sv_inv live F M' ?s")
proof -
  have I: "sv_core live F s" "sv_pointers M s" using inv by (simp_all add: sv_inv_def)
  obtain ps where ps: "represents (sv_list s) ps" "set ps = dom (sv_impl s)"
    using sv_coreD(1) [OF I(1)] by (auto simp: sv_registered_def)
  then have p: "p \<in> set ps" "distinct ps" using i by (auto simp: represents_def)
  have "sv_registered ?s"
    unfolding sv_registered_def using do_remove_represents [OF ps(1) p(1)] ps(2) p(2)
    by (intro exI [of _ "remove1 p ps"]) auto
  moreover have "sv_objs ?s = sv_objs s" using none(1) by (auto simp: sv_objs_def fun_eq_iff)
  moreover have "sv_conn_ok ?s r" for r
    using sv_coreD(2) [OF I(1), of r] none(2) sv_conn_ok_other [of ?s r s] by (cases "r = p") (simp_all add: sv_conn_ok_def)
  moreover have "sv_at_home ?s = sv_at_home s" by (simp add: sv_at_home_def)
  moreover have "sv_owners_live ?s" if d: "Destroyed_in_flight \<notin> M'"
  proof -
    have "sv_owners_live s" using I(2) M d by (auto simp: sv_pointers_def)
    moreover have "sv_owner s (cm_op_handler op) \<noteq> p" if "op \<in> set (sv_armed s r)" for r op
      using safe [OF d] that none(2) by (cases "r = p") (auto simp: sv_in_flight_def)
    moreover have "sv_owner s (cm_op_handler op) \<noteq> p" if "op \<in> set (sv_posted s)" "is_cm op" for op
      using safe [OF d] that by (auto simp: sv_in_flight_def)
    ultimately show ?thesis by (auto simp: sv_owners_live_def)
  qed
  moreover have "sv_dangling ?s = sv_dangling s" by simp
  ultimately show ?thesis using I M by (auto simp: sv_inv_def sv_core_def sv_pointers_def)
qed

lemma sv_destroy_inv:
  assumes law: "resource_law live api" "event_law cm_queue api" "disc_law disc api" "destroy_disc_law disc api"
    and inv: "sv_inv live F M s" and i: "sv_impl s p = Some i"
  shows "\<exists>s'. sv_destroy api p s = Some s' \<and> sv_inv live F (M \<union> destroyed_in_flight p s) s'"
proof -
  have core: "sv_core live F s" using inv by (simp add: sv_inv_def)
  obtain s1 where s1: "sv_close api p s = Some s1" "sv_closed live p s s1"
    using sv_close_closed [OF law core i] by blast
  note inv1 = sv_closed_inv [OF inv i s1(2)]
  obtain i1 where i1: "sv_impl s1 p = Some i1" "sv_objs s1 p = {}"
    using s1(2) by (auto simp: sv_closed_def impl_objs_def)
  have a: "sv_armed s1 p = []" using s1(2) by (simp add: sv_closed_def)
  have "sv_in_flight p s" if "sv_in_flight p s1"
    using that s1(2) by (auto simp: sv_closed_def sv_in_flight_def split: if_splits)
  then have "\<not> sv_in_flight p s1" if "Destroyed_in_flight \<notin> M \<union> destroyed_in_flight p s"
    using that by (auto simp: destroyed_in_flight_def)
  from sv_removed_inv [OF inv1 i1 a Un_upper1 this] show ?thesis by (simp add: sv_destroy_def s1(1))
qed

lemma sv_move_construct_inv:
  assumes inv: "sv_inv live F M s" and p: "p \<noteq> nullptr" "sv_impl s p = None" and q: "sv_impl s q = Some j"
  shows "sv_inv live F (M \<union> moved_armed q s) (sv_move_construct p q s)"
proof -
  have pq: "p \<noteq> q" using p(2) q(1) by auto
  have core: "sv_core live F s" using inv by (simp add: sv_inv_def)
  let ?s = "sv_construct p s"
  have "sv_impl ?s p = Some connector_construct" "sv_objs ?s p = {}" "sv_armed ?s p = []" "sv_impl ?s q = Some j"
    using pq q by (simp_all add: sv_construct_def impl_objs_def connector_construct_def)
  note M = sv_moved_inv [OF sv_construct_inv [OF inv p] this pq]
  obtain i' j' where m: "conn_move_construct j = (i', j')" by fastforce
  have "sv_armed s p = []" using sv_conn_okD(2) [OF sv_coreD(2) [OF core] p(2)] .
  moreover have "sv_armed s q = []" if "ci_channel j = nullptr"
    using sv_core_wf [OF core q] that by (auto simp: conn_wf_def impl_wf_def)
  moreover have "ci_channel i' = ci_channel j" using m by (auto simp: conn_move_construct_def)
  ultimately have "sv_move_construct p q s = sv_moved p q ?s"
    using m q pq by (cases "ci_channel j = nullptr")
      (simp_all add: sv_move_construct_def sv_moved_def sv_construct_def sv_focus_def fun_upd_idem fun_upd_twist)
  moreover have "moved_armed q ?s = moved_armed q s" using pq by (simp add: moved_armed_def sv_construct_def)
  ultimately show ?thesis using M by simp
qed

lemma sv_move_assign_inv:
  assumes law: "resource_law live api" "event_law cm_queue api" "disc_law disc api" "destroy_disc_law disc api"
    and inv: "sv_inv live F M s" and p: "sv_impl s p = Some i" and q: "sv_impl s q = Some j" and pq: "p \<noteq> q"
  shows "\<exists>s'. sv_move_assign api p q s = Some s' \<and> sv_inv live F (M \<union> moved_armed q s) s'"
proof -
  have core: "sv_core live F s" using inv by (simp add: sv_inv_def)
  obtain s1 where s1: "sv_close api p s = Some s1" "sv_closed live p s s1"
    using sv_close_closed [OF law core p] by blast
  note inv1 = sv_closed_inv [OF inv p s1(2)]
  obtain w where w: "close_for_destruction api (sv_focus p s) = Some w" "s1 = sv_update p w s"
    using s1(1) by (auto simp: sv_close_def split: option.splits)
  obtain i1 where i1: "sv_impl s1 p = Some i1" "sv_objs s1 p = {}"
    using s1(2) by (auto simp: sv_closed_def impl_objs_def)
  have a: "sv_armed s1 p = []" "sv_impl s1 q = Some j" "sv_armed s1 q = sv_armed s q"
    using s1(2) q pq by (auto simp: sv_closed_def)
  note M = sv_moved_inv [OF inv1 i1 a(1,2) pq]
  obtain i' j' where m: "conn_move_construct j = (i', j')" by fastforce
  have "sv_armed s q = []" if "ci_channel j = nullptr"
    using sv_core_wf [OF core q] that by (auto simp: conn_wf_def impl_wf_def)
  then have "ci_channel j = nullptr \<Longrightarrow> sv_armed s1 = (sv_armed s1)(p := sv_armed s1 q, q := [])"
    using a by (auto simp: fun_eq_iff)
  moreover have "ci_channel i' = ci_channel j" using m by (auto simp: conn_move_construct_def)
  ultimately have "sv_move_assign api p q s = Some (sv_moved p q s1)"
    using m q pq w a
    by (simp add: sv_move_assign_def conn_move_assign_def sv_moved_def sv_update_def Let_def)
  moreover have "moved_armed q s1 = moved_armed q s" using a by (simp add: moved_armed_def)
  ultimately show ?thesis using M by simp
qed

lemma sv_adopt_inv:
  assumes inv: "sv_inv live F M s" and i: "sv_impl s p = Some i"
    and r: "conn_assign reg (ch, cid) i = (ec, rest, i')" and o: "{ch, cid} \<subseteq> F" "ch \<noteq> cid"
  shows "sv_inv live (if is_error ec then F else F - {ch, cid}) M
    (sv_return p {} ((sv_focus p s)\<lparr>kw_impl := i'\<rparr>) s)" (is "sv_inv live ?F M ?s")
proof -
  have I: "sv_core live F s" "sv_pointers M s" using inv by (simp_all add: sv_inv_def)
  have P: "sv_pointers M ?s" by (rule sv_pointers_states [OF I(2) subset_refl]) (use i in auto)
  have "sv_core live ?F ?s"
  proof (cases "is_error ec")
    case True
    then have "i' = i" using r by (auto simp: conn_assign_def is_error_def no_error_def split: if_splits)
    then show ?thesis
      using True i by (intro sv_core_states [where s = s and s' = ?s] | simp add: I option.rel_refl fun_upd_idem)+
  next
    case False
    have "ec = no_error \<and> \<not> conn_is_open i \<and> ch \<noteq> nullptr \<and> cid \<noteq> nullptr \<and> ci_channel i' = ch \<and> ci_cm_id i' = cid"
      using False r by (auto simp: conn_assign_def make_system_error_code_def is_error_def [of "make_system_error_code _"]
          split: if_splits)
    then have n: "\<not> conn_is_open i" "ch \<noteq> nullptr" "cid \<noteq> nullptr" "ci_channel i' = ch" "ci_cm_id i' = cid"
      by simp_all
    note ok = sv_coreD(2) [OF I(1)]
    have e: "sv_armed s p = []" "sv_objs s p = {}"
      using sv_core_wf [OF I(1) i] n(1) closed_no_objs i by (auto simp: conn_wf_def)
    have "sv_objs ?s = (sv_objs s)(p := {ch, cid})" using n by (auto simp: sv_objs_def impl_objs_def fun_eq_iff)
    then have own: "owned (live (sv_cm ?s)) ?F (sv_objs ?s)"
      using owned_adopt [OF sv_coreD(3) [OF I(1)] e(2) o(1)] False by simp
    have "sv_conn_ok ?s q" for q
      using ok [of q] sv_conn_ok_other [of ?s q s] n e o(2)
      by (cases "q = p") (simp_all add: sv_conn_ok_def conn_wf_def impl_wf_def conn_is_open_def)
    moreover have d: "dom (sv_impl ?s) = dom (sv_impl s)" using i by auto
    have "sv_registered ?s" using sv_coreD(1) [OF I(1)] d by (simp add: sv_registered_def)
    ultimately show ?thesis using own by (simp add: sv_core_def)
  qed
  then show ?thesis using P by (simp add: sv_inv_def)
qed

lemma sv_world_inv:
  assumes "sv_inv live F M s" and "F' \<inter> (live (sv_cm s) - F) = {}" and "live c = F' \<union> (live (sv_cm s) - F)"
  shows "sv_inv live F' M (s\<lparr>sv_cm := c\<rparr>)"
proof -
  have "sv_objs (s\<lparr>sv_cm := c\<rparr>) = sv_objs s" by (auto simp: sv_objs_def)
  moreover have "sv_conn_ok (s\<lparr>sv_cm := c\<rparr>) p = sv_conn_ok s p" for p by (rule sv_conn_ok_other) simp_all
  moreover have "sv_registered (s\<lparr>sv_cm := c\<rparr>) = sv_registered s" by (simp add: sv_registered_def)
  moreover have "sv_pointers M (s\<lparr>sv_cm := c\<rparr>) = sv_pointers M s"
    by (simp add: sv_pointers_def sv_at_home_def sv_owners_live_def)
  ultimately show ?thesis
    using assms owned_world [of "live (sv_cm s)" F "sv_objs s" F'] by (simp add: sv_inv_def sv_core_def)
qed

subsection \<open>Runs\<close>

text \<open>
  The steps are guarded only by what C++ gives: a fresh address to construct at, a fresh handler for a call,
  objects that exist, handles that are the program's own, a cancellation for an outstanding operation. Connectors are
  moved and destroyed whatever is in flight; \<open>M\<close> keeps what was done that matters for pointers. The last
  rule is the rest of the program and rdma_cm.
\<close>

inductive sv_step ::
  "'c cm_api \<Rightarrow> 'c create_qp_cb set \<Rightarrow> ('c \<Rightarrow> ptr set) \<Rightarrow> ptr set \<times> misuse set \<times> 'c conn_service
   \<Rightarrow> ptr set \<times> misuse set \<times> 'c conn_service \<Rightarrow> bool" for api K live where
  step_construct: "p \<noteq> nullptr \<Longrightarrow> sv_impl s p = None \<Longrightarrow> sv_step api K live (F, M, s) (F, M, sv_construct p s)"
| step_call: "sv_impl s p = Some i \<Longrightarrow> H \<inter> sv_handlers s = {} \<Longrightarrow> conn_call api K (sv_focus p s) H w \<Longrightarrow>
    sv_step api K live (F, M, s) (F, M, sv_return p H w s)"
| step_adopt: "sv_impl s p = Some i \<Longrightarrow> {ch, cid} \<subseteq> F \<Longrightarrow> ch \<noteq> cid \<Longrightarrow>
    conn_assign reg (ch, cid) i = (ec, rest, i') \<Longrightarrow>
    sv_step api K live (F, M, s) (if is_error ec then F else F - {ch, cid}, M,
      sv_return p {} ((sv_focus p s)\<lparr>kw_impl := i'\<rparr>) s)"
| step_cancelled: "h \<in> sv_handlers s \<Longrightarrow>
    sv_step api K live (F, M, s) (F, M \<union> late_cancel h s, sv_cancel type h s)"
| step_performed: "cb \<in> K \<Longrightarrow> sv_step api K live (F, M, s) (F, M, sv_perform api cb p s)"
| step_completed: "sv_step api K live (F, M, s) (F, M, sv_complete s)"
| step_move_construct: "p \<noteq> nullptr \<Longrightarrow> sv_impl s p = None \<Longrightarrow> sv_impl s q = Some j \<Longrightarrow>
    sv_step api K live (F, M, s) (F, M \<union> moved_armed q s, sv_move_construct p q s)"
| step_move_assign: "p \<noteq> q \<Longrightarrow> sv_impl s p = Some i \<Longrightarrow> sv_impl s q = Some j \<Longrightarrow>
    sv_move_assign api p q s = Some s' \<Longrightarrow> sv_step api K live (F, M, s) (F, M \<union> moved_armed q s, s')"
| step_destroy: "sv_impl s p = Some i \<Longrightarrow> sv_destroy api p s = Some s' \<Longrightarrow>
    sv_step api K live (F, M, s) (F, M \<union> destroyed_in_flight p s, s')"
| step_world: "F' \<inter> (live (sv_cm s) - F) = {} \<Longrightarrow> live c = F' \<union> (live (sv_cm s) - F) \<Longrightarrow>
    sv_step api K live (F, M, s) (F', M, s\<lparr>sv_cm := c\<rparr>)"

definition sv_laws ::
  "('c \<Rightarrow> ptr set) \<Rightarrow> ('c \<Rightarrow> ptr \<Rightarrow> cm_event list) \<Rightarrow> ('c \<Rightarrow> nat) \<Rightarrow> 'c create_qp_cb set \<Rightarrow> 'c cm_api \<Rightarrow> bool" where
  "sv_laws live cm_queue disc K api \<longleftrightarrow>
     resource_law live api \<and> id_calls_law live api \<and> (\<forall>cb\<in>K. keeps_live live cb) \<and>
     event_law cm_queue api \<and> disc_law disc api \<and> destroy_disc_law disc api"

lemma sv_lawsD:
  assumes "sv_laws live cm_queue disc K api"
  shows "resource_law live api" "id_calls_law live api" "\<forall>cb\<in>K. keeps_live live cb"
    "event_law cm_queue api" "disc_law disc api" "destroy_disc_law disc api"
  using assms by (simp_all add: sv_laws_def)

lemma sv_step_inv:
  assumes law: "sv_laws live cm_queue disc K api" and "sv_step api K live x y"
    and "sv_inv live (fst x) (fst (snd x)) (snd (snd x))"
  shows "sv_inv live (fst y) (fst (snd y)) (snd (snd y))"
proof -
  note L = sv_lawsD [OF law]
  note close = L(1,4,5,6)
  from assms(2,3) show ?thesis
  proof cases
    case (step_call s p i H w F M)
    then have inv: "sv_inv live F M s" using assms(3) by simp
    then have "world_wf (sv_focus p s)"
      using sv_focus_world_wf step_call(3) by (auto simp: sv_inv_def)
    then have "call_ok live H (sv_focus p s) w" by (rule conn_call_ok [OF L(1-3) step_call(5)])
    then show ?thesis using sv_return_inv [OF inv step_call(3,4)] step_call(2) by simp
  next
    case (step_move_assign p q s i j s' F M)
    then show ?thesis using sv_move_assign_inv [OF close, of F M s p i q j] assms(3) by auto
  next
    case (step_destroy s p i s' F M)
    then show ?thesis using sv_destroy_inv [OF close, of F M s p i] assms(3) by auto
  qed (use assms(3) L(3) in \<open>simp_all add: sv_construct_inv sv_adopt_inv sv_perform_inv [OF L(1,2)] sv_complete_inv
    sv_cancel_inv sv_move_construct_inv sv_world_inv\<close>)
qed

text \<open>A service before its first connector; everything alive belongs to others.\<close>

definition sv_fresh :: "'c conn_service \<Rightarrow> bool" where
  "sv_fresh s \<longleftrightarrow> sv_list s = empty_list \<and> sv_impl s = Map.empty \<and> sv_armed s = (\<lambda>p. []) \<and> sv_posted s = [] \<and>
     \<not> sv_dangling s"

lemma sv_fresh_inv: "sv_fresh s \<Longrightarrow> sv_inv live (live (sv_cm s)) {} s"
  using empty_list_represents
  by (auto simp: sv_fresh_def sv_inv_def sv_core_def sv_registered_def sv_conn_ok_def owned_def sv_objs_def
      sv_pointers_def sv_at_home_def sv_owners_live_def)

abbreviation sv_run where
  "sv_run api K live \<equiv> (sv_step api K live)\<^sup>*\<^sup>*"

lemma sv_run_inv:
  assumes "sv_laws live cm_queue disc K api" and "sv_run api K live x y"
    and "sv_inv live (fst x) (fst (snd x)) (snd (snd x))"
  shows "sv_inv live (fst y) (fst (snd y)) (snd (snd y))"
  using assms(2,3) by (induction rule: rtranclp_induct) (auto dest: sv_step_inv [OF assms(1)])

lemma sv_reach_inv:
  assumes "sv_laws live cm_queue disc K api" and "sv_fresh s0"
    and "sv_run api K live (live (sv_cm s0), {}, s0) (F, M, s)"
  shows "sv_inv live F M s"
  using sv_run_inv [OF assms(1,3)] sv_fresh_inv [OF assms(2), of live] by simp

subsection \<open>Shutdown\<close>

abbreviation (input) close_each ::
  "'c cm_api \<Rightarrow> ptr \<Rightarrow> 'c conn_service option \<Rightarrow> 'c conn_service option" where
  "close_each api \<equiv> (\<lambda>p r. case r of None \<Rightarrow> None | Some s \<Rightarrow> sv_close api p s)"

definition sv_closing :: "ptr list \<Rightarrow> 'c conn_service \<Rightarrow> 'c conn_service \<Rightarrow> bool" where
  "sv_closing ps s s' \<longleftrightarrow>
     (\<forall>p. sv_objs s p = {} \<or> p \<in> set ps \<longrightarrow> sv_objs s' p = {}) \<and>
     (\<forall>p. sv_armed s p = [] \<or> p \<in> set ps \<longrightarrow> sv_armed s' p = []) \<and>
     set (sv_posted s) \<subseteq> set (sv_posted s') \<and>
     (\<forall>p\<in>set ps. \<forall>op\<in>set (sv_armed s p). set_ec operation_aborted op \<in> set (sv_posted s'))"

lemma close_all:
  assumes law: "resource_law live api" "event_law cm_queue api" "disc_law disc api" "destroy_disc_law disc api"
  shows "sv_inv live F M s \<Longrightarrow> set ps \<subseteq> dom (sv_impl s) \<Longrightarrow>
    \<exists>s'. fold (close_each api) ps (Some s) = Some s' \<and> sv_inv live F M s' \<and> sv_closing ps s s'"
proof (induction ps arbitrary: s)
  case Nil
  then show ?case by (simp add: sv_closing_def)
next
  case (Cons p ps)
  then obtain i where i: "sv_impl s p = Some i" by auto
  obtain s1 where s1: "sv_close api p s = Some s1" and c: "sv_closed live p s s1"
    using sv_close_closed [OF law _ i] Cons.prems(1) unfolding sv_inv_def by blast
  note inv1 = sv_closed_inv [OF Cons.prems(1) i c]
  obtain i1 where n: "ci_channel i1 = nullptr" "ci_cm_id i1 = nullptr" "sv_impl s1 = (sv_impl s)(p \<mapsto> i1)"
    and eq: "sv_armed s1 = (sv_armed s)(p := [])"
      "sv_posted s1 = sv_posted s @ map (set_ec operation_aborted) (sv_armed s p)"
    using c by (auto simp: sv_closed_def)
  have objs: "sv_objs s1 = (sv_objs s)(p := {})" using n by (auto simp: sv_objs_def impl_objs_def fun_eq_iff)
  have "set ps \<subseteq> dom (sv_impl s1)" using Cons.prems(2) n(3) by auto
  from Cons.IH [OF inv1 this] obtain s2 where s2: "fold (close_each api) ps (Some s1) = Some s2"
    "sv_inv live F M s2" "sv_closing ps s1 s2" by blast
  have "sv_closing (p # ps) s s2"
    unfolding sv_closing_def
  proof (intro conjI allI ballI impI)
    fix q assume "sv_objs s q = {} \<or> q \<in> set (p # ps)"
    then show "sv_objs s2 q = {}" using s2(3) objs by (cases "q = p") (auto simp: sv_closing_def)
  next
    fix q assume "sv_armed s q = [] \<or> q \<in> set (p # ps)"
    then show "sv_armed s2 q = []" using s2(3) eq(1) by (cases "q = p") (auto simp: sv_closing_def)
  next
    show "set (sv_posted s) \<subseteq> set (sv_posted s2)" using s2(3) eq(2) by (auto simp: sv_closing_def)
  next
    fix q op assume q: "q \<in> set (p # ps)" and op: "op \<in> set (sv_armed s q)"
    show "set_ec operation_aborted op \<in> set (sv_posted s2)"
    proof (cases "q = p")
      case True
      then have "set_ec operation_aborted op \<in> set (sv_posted s1)" using op eq(2) by simp
      then show ?thesis using s2(3) by (auto simp: sv_closing_def)
    next
      case False
      then show ?thesis using q op s2(3) eq(1) by (simp add: sv_closing_def)
    qed
  qed
  then show ?case using s1 s2 by simp
qed

lemma sv_shutdown_outcome:
  assumes law: "sv_laws live cm_queue disc K api" and inv: "sv_inv live F M s"
  shows "\<exists>s'. sv_shutdown api s = Some s' \<and> live (sv_cm s') = F \<and> (\<forall>p. sv_armed s' p = []) \<and>
    (\<forall>p. \<forall>op\<in>set (sv_armed s p). set_ec operation_aborted op \<in> set (sv_posted s')) \<and> sv_pointers M s'"
proof -
  note L = sv_lawsD [OF law]
  have core: "sv_core live F s" using inv by (simp add: sv_inv_def)
  obtain ps where ps: "represents (sv_list s) ps" "set ps = dom (sv_impl s)"
    using sv_coreD(1) [OF core] by (auto simp: sv_registered_def)
  obtain s' where s': "fold (close_each api) ps (Some s) = Some s'" "sv_inv live F M s'" "sv_closing ps s s'"
    using close_all [OF L(1,4,5,6) inv] ps(2) by blast
  have out: "p \<notin> set ps \<Longrightarrow> sv_impl s p = None" for p using ps(2) by auto
  have armed: "p \<notin> set ps \<Longrightarrow> sv_armed s p = []" for p using sv_conn_okD(2) [OF sv_coreD(2) [OF core] out] .
  have "sv_objs s' p = {}" "sv_armed s' p = []" for p
    using s'(3) out [of p] armed [of p] by (cases "p \<in> set ps"; simp add: sv_closing_def)+
  moreover have "\<forall>op\<in>set (sv_armed s p). set_ec operation_aborted op \<in> set (sv_posted s')" for p
    using s'(3) armed [of p] by (cases "p \<in> set ps") (simp_all add: sv_closing_def)
  moreover have "live (sv_cm s') = F \<union> (\<Union>p. sv_objs s' p)" "sv_pointers M s'"
    using s'(2) by (simp_all add: sv_inv_def sv_core_def owned_def)
  moreover have "sv_shutdown api s = Some s'"
    using s'(1) by (simp add: sv_shutdown_def base_shutdown_visits [OF ps(1)])
  ultimately show ?thesis by simp
qed

subsection \<open>Properties\<close>

text \<open>
  C12. Type soundness of the connector service, over runs that move and destroy connectors
  whatever is in flight: an armed operation is queued on a registered open connector and works on that
  connector's channel and id, which are alive; a channel or id has one owner, a connector or the rest of the
  program. The pointers to \<open>connect_state_\<close> and \<open>cm_reactor_data_\<close> are not safe by themselves: an operation's pointer
  is to the connector it is queued on unless one was moved while armed, and a connector that is gone is used
  only if one was destroyed with an operation in flight or a cancellation was emitted after it.
\<close>

theorem service_operations_typed:
  assumes law: "sv_laws live cm_queue disc K api" and "sv_fresh s0"
    and run: "sv_run api K live (live (sv_cm s0), {}, s0) (F, M, s)"
  shows "(\<forall>p. \<forall>op\<in>set (sv_armed s p). \<exists>i. sv_impl s p = Some i \<and> conn_is_open i \<and> op_points i op \<and>
      ci_channel i \<in> live (sv_cm s) \<and> ci_cm_id i \<in> live (sv_cm s) \<and>
      (Moved_armed \<notin> M \<longrightarrow> sv_owner s (cm_op_handler op) = p)) \<and>
    owned (live (sv_cm s)) F (sv_objs s) \<and>
    (sv_dangling s \<longrightarrow> Destroyed_in_flight \<in> M \<or> Cancelled_late \<in> M)"
proof -
  have I: "sv_core live F s" "sv_pointers M s" using sv_reach_inv [OF assms] by (simp_all add: sv_inv_def)
  have "\<exists>i. sv_impl s p = Some i \<and> conn_is_open i \<and> op_points i op \<and> ci_channel i \<in> live (sv_cm s) \<and>
      ci_cm_id i \<in> live (sv_cm s) \<and> (Moved_armed \<notin> M \<longrightarrow> sv_owner s (cm_op_handler op) = p)"
    if op: "op \<in> set (sv_armed s p)" for p op
  proof -
    obtain i where i: "sv_impl s p = Some i"
      using sv_conn_okD(2) [OF sv_coreD(2) [OF I(1)]] op by (cases "sv_impl s p") auto
    have c: "conn_is_open i" "op_points i op" "ci_channel i \<noteq> nullptr" "ci_cm_id i \<noteq> nullptr"
      using sv_core_wf [OF I(1) i] op by (auto simp: conn_wf_def impl_wf_def conn_is_open_def)
    then have "ci_channel i \<in> sv_objs s p" "ci_cm_id i \<in> sv_objs s p" using i by (simp_all add: impl_objs_def)
    moreover have "sv_objs s p \<subseteq> live (sv_cm s)" using sv_coreD(3) [OF I(1)] by (auto simp: owned_def)
    moreover have "Moved_armed \<notin> M \<longrightarrow> sv_owner s (cm_op_handler op) = p"
      using I(2) op by (auto simp: sv_pointers_def sv_at_home_def)
    ultimately show ?thesis using i c by blast
  qed
  then show ?thesis using sv_coreD(3) [OF I(1)] I(2) by (simp add: sv_pointers_def)
qed

text \<open>
  C13. Shutting the service down after any run, moves and destructions in flight included, returns:
  every channel and id of every connector is released and nothing else is, no operation stays armed, and each one
  that was is posted as aborted. It uses nothing that is gone unless a connector was destroyed with an operation in
  flight or a cancellation was emitted after it.
\<close>

theorem service_shutdown_releases_all:
  assumes law: "sv_laws live cm_queue disc K api" and "sv_fresh s0"
    and run: "sv_run api K live (live (sv_cm s0), {}, s0) (F, M, s)"
  shows "\<exists>s'. sv_shutdown api s = Some s' \<and> live (sv_cm s') = F \<and> (\<forall>p. sv_armed s' p = []) \<and>
    (\<forall>p. \<forall>op\<in>set (sv_armed s p). set_ec operation_aborted op \<in> set (sv_posted s')) \<and>
    (sv_dangling s' \<longrightarrow> Destroyed_in_flight \<in> M \<or> Cancelled_late \<in> M)"
  using sv_shutdown_outcome [OF law sv_reach_inv [OF assms]] unfolding sv_pointers_def by blast

text \<open>
  Both come about. When a connector with a connect or accept in flight is destroyed,
  the operation is aborted, and its completion stores \<open>closed\<close> through the pointer to the \<open>connect_state_\<close> of the
  connector that is gone.
\<close>

theorem destroy_in_flight_dangles:
  assumes law: "sv_laws live cm_queue disc K api" and inv: "sv_inv live F M s"
    and i: "sv_impl s p = Some i" and op: "sv_armed s p = [op]" "is_cm op" and posted: "sv_posted s = []"
    and home: "Moved_armed \<notin> M"
  shows "\<exists>s'. sv_destroy api p s = Some s' \<and> sv_dangling (sv_complete s')"
proof -
  note L = sv_lawsD [OF law]
  obtain s1 where s1: "sv_close api p s = Some s1" "sv_closed live p s s1"
    using sv_close_closed [OF L(1,4,5,6) _ i] inv unfolding sv_inv_def by blast
  have o: "sv_owner s (cm_op_handler op) = p"
    using inv op(1) home by (simp add: sv_inv_def sv_pointers_def sv_at_home_def)
  let ?s = "s1\<lparr>sv_list := do_remove p (sv_list s1), sv_impl := (sv_impl s1)(p := None)\<rparr>"
  have "sv_posted ?s = [set_ec operation_aborted op]" "sv_owner ?s = sv_owner s"
    using s1(2) op(1) posted by (simp_all add: sv_closed_def)
  then have "sv_dangling (sv_complete ?s)"
    using o op(2) by (simp add: sv_complete_def stores_state_def Let_def)
  then show ?thesis by (simp add: sv_destroy_def s1(1))
qed

text \<open>
  A connector moved while it connects cannot be told to stop connecting: the cancellation functor still has
  the address of the source's \<open>cm_reactor_data_\<close>, which names no descriptor any more.
\<close>

theorem move_loses_cancellation:
  assumes "sv_impl s p = None" and "sv_impl s q = Some j" and "ci_channel j \<noteq> nullptr"
    and "\<forall>op\<in>set (sv_armed s q). sv_owner s (cm_op_handler op) = q" and "op \<in> set (sv_armed s q)"
  shows "sv_armed (sv_cancel type (cm_op_handler op) (sv_move_construct p q s)) p = sv_armed s q"
proof -
  have pq: "p \<noteq> q" using assms(1,2) by auto
  have "ci_channel (fst (conn_move_construct j)) = ci_channel j" by (simp add: conn_move_construct_def)
  then show ?thesis
    using assms(2-5) pq
    by (simp add: sv_cancel_def sv_move_construct_def case_prod_beta Let_def cm_op_cancellation_def)
qed

subsection \<open>A run\<close>

lemma sim_sv_laws: "sv_laws sim_live_set sim_queue sim_disc {sim_create_qp} sim_cm_api"
proof -
  have "id_calls_law sim_live_set sim_cm_api" by (simp add: id_calls_law_def sim_cm_api_def)
  moreover have "keeps_live sim_live_set sim_create_qp" by (simp add: keeps_live_def sim_create_qp_def)
  ultimately show ?thesis
    by (simp add: sv_laws_def sim_resource_law sim_event_law sim_disc_law sim_destroy_disc_law)
qed

definition sim_service :: "cm_sim conn_service" where
  "sim_service =
     \<lparr>sv_cm = sim_start [], sv_list = empty_list, sv_impl = Map.empty, sv_armed = (\<lambda>p. []), sv_posted = [],
      sv_upcalls = [], sv_owner = (\<lambda>h. nullptr), sv_fault = False, sv_dangling = False\<rparr>"

text \<open>The connector at 64 is constructed, and a connect with handler 7 opens it and is armed.\<close>

definition sim_in_flight :: "cm_sim conn_service" where
  "sim_in_flight =
     (let s = sv_construct 64 sim_service in
      sv_return 64 {7} (async_connect sim_cm_api (\<lambda>ch. 0) sim_device_service sim_endpoint [1, 2] True 4 True 7
        (sv_focus 64 s)) s)"

lemma sim_service_fresh: "sv_fresh sim_service"
  by (simp add: sv_fresh_def sim_service_def)

lemma sim_service_run:
  "sv_run sim_cm_api {sim_create_qp} sim_live_set (sim_live_set (sv_cm sim_service), {}, sim_service)
     ({}, {}, sim_in_flight)"
proof -
  let ?step = "sv_step sim_cm_api {sim_create_qp} sim_live_set" and ?s = "sv_construct 64 sim_service"
  have "sim_live_set (sv_cm sim_service) = {}" by (simp add: sim_service_def sim_live_set_def sim_start_def)
  moreover have "?step ({}, {}, sim_service) ({}, {}, ?s)"
    by (rule step_construct) (simp_all add: sim_service_def)
  moreover have "?step ({}, {}, ?s) ({}, {}, sim_in_flight)"
    unfolding sim_in_flight_def Let_def
    by (rule step_call [OF _ _ call_connect]) (simp_all add: sv_construct_def sv_handlers_def sim_service_def)
  ultimately show ?thesis by (simp add: converse_rtranclp_into_rtranclp)
qed

lemma sim_in_flight_armed:
  "map cm_op_handler (sv_armed sim_in_flight 64) = [7]" "sv_posted sim_in_flight = []"
  "map is_cm (sv_armed sim_in_flight 64) = [True]" "\<exists>i. sv_impl sim_in_flight 64 = Some i"
proof -
  have "sv_impl sim_in_flight 64 \<noteq> None" by code_simp
  then show "\<exists>i. sv_impl sim_in_flight 64 = Some i" by auto
qed code_simp+

theorem service_operations_typed_witness:
  "(\<exists>i. sv_impl sim_in_flight 64 = Some i \<and> ci_channel i \<in> sim_live_set (sv_cm sim_in_flight) \<and>
     ci_cm_id i \<in> sim_live_set (sv_cm sim_in_flight)) \<and> \<not> sv_dangling sim_in_flight"
proof -
  obtain op where "op \<in> set (sv_armed sim_in_flight 64)"
    using sim_in_flight_armed(1) by (cases "sv_armed sim_in_flight 64") auto
  then show ?thesis
    using service_operations_typed [OF sim_sv_laws sim_service_fresh sim_service_run] by blast
qed

theorem service_shutdown_releases_all_witness:
  "\<exists>s'. sv_shutdown sim_cm_api sim_in_flight = Some s' \<and> sim_live_set (sv_cm s') = {} \<and>
     (\<forall>p. sv_armed s' p = []) \<and> 7 \<in> cm_op_handler ` set (sv_posted s')"
proof -
  obtain op where op: "op \<in> set (sv_armed sim_in_flight 64)" "cm_op_handler op = 7"
    using sim_in_flight_armed(1) by (cases "sv_armed sim_in_flight 64") auto
  obtain s' where s': "sv_shutdown sim_cm_api sim_in_flight = Some s'" "sim_live_set (sv_cm s') = {}"
    "\<forall>p. sv_armed s' p = []" "set_ec operation_aborted op \<in> set (sv_posted s')"
    using service_shutdown_releases_all [OF sim_sv_laws sim_service_fresh sim_service_run] op(1) by blast
  then have "7 \<in> cm_op_handler ` set (sv_posted s')"
    using op(2) by (intro rev_image_eqI [of "set_ec operation_aborted op"]) simp_all
  then show ?thesis using s' by blast
qed

theorem destroy_in_flight_dangles_witness:
  "\<exists>s'. sv_destroy sim_cm_api 64 sim_in_flight = Some s' \<and> sv_dangling (sv_complete s')"
proof -
  note inv = sv_reach_inv [OF sim_sv_laws sim_service_fresh sim_service_run]
  obtain i where i: "sv_impl sim_in_flight 64 = Some i" using sim_in_flight_armed(4) by blast
  obtain op where op: "sv_armed sim_in_flight 64 = [op]" "is_cm op"
    using sim_in_flight_armed(1,3) by (cases "sv_armed sim_in_flight 64") auto
  show ?thesis by (rule destroy_in_flight_dangles [OF sim_sv_laws inv i op sim_in_flight_armed(2)]) simp
qed

theorem move_loses_cancellation_witness:
  "map cm_op_handler (sv_armed (sv_cancel 1 7 (sv_move_construct 128 64 sim_in_flight)) 128) = [7]"
proof -
  obtain op where op: "sv_armed sim_in_flight 64 = [op]" "cm_op_handler op = 7"
    using sim_in_flight_armed(1) by (cases "sv_armed sim_in_flight 64") auto
  obtain i where i: "sv_impl sim_in_flight 64 = Some i" using sim_in_flight_armed(4) by blast
  have "map_option ci_channel (sv_impl sim_in_flight 64) \<noteq> Some nullptr" by code_simp
  moreover have "sv_impl sim_in_flight 128 = None" "sv_owner sim_in_flight 7 = 64" by code_simp+
  ultimately show ?thesis
    using move_loses_cancellation [of sim_in_flight 128 64 i op 1] op i by simp
qed

end
