(* ===== verification/ND_Connector.thy ===== *)
theory ND_Connector
  imports ND_Provider Handler_Ledger
begin

text \<open>
  Connectors on NetworkDirect: the operations \<open>nd/detail/nd_op_base\<close>, \<open>nd_op_connect\<close>, \<open>nd_op_accept\<close>,
  \<open>nd_op_wait_disconnect\<close>, \<open>nd_op_disconnect\<close> and the service \<open>nd/detail/nd_service_connector.hpp\<close>.

  The I/O completion port is two queues: \<open>nw_pending\<close>, the overlapped requests in the kernel, each with
  a flag that its cancellation was requested, and \<open>nw_posted\<close>, the completions the scheduler will
  deliver.
\<close>

subsection \<open>Operations\<close>

datatype nd_connect_state = ns_idle | ns_connecting | ns_connected | ns_closed

datatype nd_stage = sg_connecting | sg_connected | sg_done | sg_error

record nd_connect_op =
  no_stage :: nd_stage
  no_connector :: ptr
  no_reply_buf :: bool
  no_reply_cap :: nat
  no_reply_len :: nat
  no_handler :: nat

definition nd_connect_op_new :: "ptr \<Rightarrow> bool \<Rightarrow> nat \<Rightarrow> nat \<Rightarrow> nd_connect_op" where
  "nd_connect_op_new connector reply_buf reply_cap h =
     \<lparr>no_stage = sg_connecting, no_connector = connector, no_reply_buf = reply_buf,
      no_reply_cap = reply_cap, no_reply_len = 0, no_handler = h\<rparr>"

definition capture_remote_pd :: "'n nd_api \<Rightarrow> 'n \<Rightarrow> nd_connect_op \<Rightarrow> nd_connect_op" where
  "capture_remote_pd api n op =
     (if \<not> no_reply_buf op \<or> no_reply_cap op = 0 then op
      else case nda_get_private_data api n (no_connector op) (no_reply_cap op) of
        (hr, bytes, pd_size) \<Rightarrow>
          if \<not> failed hr \<or> hr = ND_BUFFER_OVERFLOW
          then op\<lparr>no_reply_len := min pd_size (no_reply_cap op)\<rparr> else op)"

text \<open>\<open>mark_connected\<close>: the compare-exchange from \<open>connecting\<close>.\<close>

definition mark_connected ::
  "nd_connect_op \<Rightarrow> nd_connect_state \<Rightarrow> bool \<times> error_code \<times> nd_connect_op \<times> nd_connect_state" where
  "mark_connected op st =
     (if st = ns_connecting then (True, no_error, op, ns_connected)
      else (False, nd_operation_aborted, op\<lparr>no_stage := sg_error\<rparr>, st))"

text \<open>The result: \<open>True\<close> for a continuation, the code, the operation, the state, the provider.\<close>

type_synonym 'n nd_progress = "bool \<times> error_code \<times> nd_connect_op \<times> nd_connect_state \<times> 'n"

definition process_complete_connect ::
  "'n nd_api \<Rightarrow> nd_connect_op \<Rightarrow> nd_connect_state \<Rightarrow> 'n \<Rightarrow> 'n nd_progress" where
  "process_complete_connect api op st n =
     (let op1 = capture_remote_pd api n op in
      case nda_complete_connect api n (no_connector op1) of (hr, n1) \<Rightarrow>
        if failed hr
        then (False, make_nd_error_code hr, op1\<lparr>no_stage := sg_error\<rparr>, ns_closed, n1)
        else let op2 = op1\<lparr>no_stage := sg_connected\<rparr> in
          if hr = ND_PENDING then (True, no_error, op2, st, n1)
          else case mark_connected op2 st of
            (ok, ec, op3, st') \<Rightarrow>
              if \<not> ok then (False, ec, op3, st', n1)
              else (False, no_error, op3\<lparr>no_stage := sg_done\<rparr>, st', n1))"

definition nd_connect_do_process ::
  "'n nd_api \<Rightarrow> nd_connect_op \<Rightarrow> nd_connect_state \<Rightarrow> 'n \<Rightarrow> 'n nd_progress" where
  "nd_connect_do_process api op st n =
     (case no_stage op of
        sg_connecting \<Rightarrow> process_complete_connect api op st n
      | sg_connected \<Rightarrow>
          (case mark_connected op st of
             (ok, ec, op', st') \<Rightarrow>
               if \<not> ok then (False, ec, op', st', n)
               else (False, no_error, op'\<lparr>no_stage := sg_done\<rparr>, st', n))
      | _ \<Rightarrow> (False, make_error_code invalid_handle, op\<lparr>no_stage := sg_error\<rparr>, st, n))"

definition resume_process ::
  "'n nd_api \<Rightarrow> error_code \<Rightarrow> nd_connect_op \<Rightarrow> nd_connect_state \<Rightarrow> 'n \<Rightarrow> 'n nd_progress" where
  "resume_process api ec op st n =
     (if is_error ec then (False, ec, op, st, n) else nd_connect_do_process api op st n)"

record nd_upcall =
  nu_handler :: nat
  nu_ec :: error_code
  nu_reply_len :: nat

text \<open>\<open>do_complete\<close>: without an owner the operation is only freed.\<close>

definition nd_connect_do_complete ::
  "'n nd_api \<Rightarrow> bool \<Rightarrow> error_code \<Rightarrow> nd_connect_op \<Rightarrow> nd_connect_state \<Rightarrow> 'n
   \<Rightarrow> (nd_connect_op + nd_upcall option) \<times> nd_connect_state \<times> 'n" where
  "nd_connect_do_complete api owner result_ec op st n =
     (if \<not> owner then (Inr None, st, n)
      else case resume_process api result_ec op st n of
        (continuation, ec, op', st', n') \<Rightarrow>
          if continuation then (Inl op', st', n')
          else (Inr (Some \<lparr>nu_handler = no_handler op', nu_ec = ec, nu_reply_len = no_reply_len op'\<rparr>),
                if is_error ec then ns_closed else st', n'))"

definition nd_accept_do_complete ::
  "bool \<Rightarrow> error_code \<Rightarrow> bool \<Rightarrow> nat \<Rightarrow> nd_connect_state \<Rightarrow> nd_upcall option \<times> nd_connect_state" where
  "nd_accept_do_complete owner ec started h st =
     (if owner then Some \<lparr>nu_handler = h, nu_ec = ec, nu_reply_len = 0\<rparr> else None,
      if owner \<and> started \<and> \<not> is_error ec then ns_connected
      else if owner \<and> started \<and> is_error ec then ns_closed else st)"

definition nd_wait_do_complete ::
  "bool \<Rightarrow> error_code \<Rightarrow> nat \<Rightarrow> bool \<Rightarrow> nd_upcall option \<times> bool" where
  "nd_wait_do_complete owner result_ec h peer_closed =
     (let already_closed = peer_closed;
          (ec, peer) =
            (if \<not> is_error result_ec then (make_error_code disconnected, True)
             else if result_ec = nd_operation_aborted \<and> \<not> already_closed then (result_ec, peer_closed)
             else if result_ec = nd_operation_aborted \<and> already_closed
             then (make_error_code disconnected, True)
             else (result_ec, peer_closed))
      in (if owner then Some \<lparr>nu_handler = h, nu_ec = ec, nu_reply_len = 0\<rparr> else None, peer))"

datatype nd_op = NOp_connect nd_connect_op | NOp_accept bool nat | NOp_wait nat | NOp_disconnect

subsection \<open>The connector service\<close>

record nd_connector_impl =
  ni_connector :: ptr
  ni_handle :: ptr
  ni_adapter :: "nd_adapter option"
  ni_state :: nd_connect_state
  ni_peer_closed :: bool

record 'n nd_world =
  nw_nd :: 'n
  nw_impl :: nd_connector_impl
  nw_pending :: "(nd_op \<times> bool) list"
  nw_posted :: "(nd_op \<times> error_code) list"
  nw_upcalls :: "nd_upcall list"
  nw_fault :: bool

abbreviation nd_state :: "'n nd_world \<Rightarrow> nd_connect_state" where
  "nd_state w \<equiv> ni_state (nw_impl w)"

abbreviation nd_set_state :: "nd_connect_state \<Rightarrow> 'n nd_world \<Rightarrow> 'n nd_world" where
  "nd_set_state st w \<equiv> w\<lparr>nw_impl := (nw_impl w)\<lparr>ni_state := st\<rparr>\<rparr>"

text \<open>\<open>on_completion\<close>, \<open>on_pending\<close> and \<open>CancelIoEx\<close> on all requests of the handle.\<close>

definition on_completion :: "nd_op \<Rightarrow> error_code \<Rightarrow> 'n nd_world \<Rightarrow> 'n nd_world" where
  "on_completion op ec w = w\<lparr>nw_posted := nw_posted w @ [(op, ec)]\<rparr>"

definition on_pending :: "nd_op \<Rightarrow> 'n nd_world \<Rightarrow> 'n nd_world" where
  "on_pending op w = w\<lparr>nw_pending := nw_pending w @ [(op, False)]\<rparr>"

definition cancel_io_all :: "'n nd_world \<Rightarrow> 'n nd_world" where
  "cancel_io_all w = w\<lparr>nw_pending := map (\<lambda>(op, _). (op, True)) (nw_pending w)\<rparr>"

definition nd_construct :: nd_connector_impl where
  "nd_construct = \<lparr>ni_connector = nullptr, ni_handle = nullptr, ni_adapter = None, ni_state = ns_idle,
     ni_peer_closed = False\<rparr>"

definition nd_is_open :: "nd_connector_impl \<Rightarrow> bool" where
  "nd_is_open impl \<longleftrightarrow> ni_connector impl \<noteq> nullptr"

definition nd_destroy :: "'n nd_api \<Rightarrow> 'n nd_world \<Rightarrow> 'n nd_world" where
  "nd_destroy api w =
     w\<lparr>nw_nd := nd_drop api (ni_connector (nw_impl w)) (ni_handle (nw_impl w)) (nw_nd w),
       nw_impl := (nw_impl w)\<lparr>ni_connector := nullptr, ni_handle := nullptr, ni_adapter := None\<rparr>\<rparr>"

definition nd_move_construct :: "nd_connector_impl \<Rightarrow> nd_connector_impl \<times> nd_connector_impl" where
  "nd_move_construct other =
     (other, other\<lparr>ni_connector := nullptr, ni_handle := nullptr, ni_adapter := None\<rparr>)"

definition nd_move_assign ::
  "'n nd_api \<Rightarrow> nd_connector_impl \<Rightarrow> 'n nd_world \<Rightarrow> 'n nd_world \<times> nd_connector_impl" where
  "nd_move_assign api other w =
     (w\<lparr>nw_nd := nd_drop api (ni_connector (nw_impl w)) (ni_handle (nw_impl w)) (nw_nd w),
        nw_impl := other\<rparr>,
      other\<lparr>ni_connector := nullptr, ni_handle := nullptr, ni_adapter := None\<rparr>)"

definition nd_do_open :: "'n nd_api \<Rightarrow> nd_device_service \<Rightarrow> 'n nd_world \<Rightarrow> error_code \<times> 'n nd_world" where
  "nd_do_open api ds w =
     (if nd_is_open (nw_impl w) then (already_open, w)
      else if \<not> nds_registered ds then (make_error_code device_not_registered, w)
      else case nds_device ds of
        None \<Rightarrow> (no_error, w\<lparr>nw_fault := True\<rparr>)
      | Some adapter \<Rightarrow>
          (case create_overlapped_file api (na_adapter adapter) (nw_nd w) of
             (handle, ec, n1) \<Rightarrow>
               if is_error ec then (ec, w\<lparr>nw_nd := n1\<rparr>)
               else
                 let n1' = (if is_closable_handle (ni_handle (nw_impl w))
                            then nda_close_handle api n1 (ni_handle (nw_impl w)) else n1)
                 in case nd_create_connector api (na_adapter adapter) handle n1' of
                   (connector, ec, n2) \<Rightarrow>
                     if is_error ec
                     then (ec, w\<lparr>nw_nd := nda_close_handle api n2 handle,
                                  nw_impl := (nw_impl w)\<lparr>ni_connector := connector, ni_handle := nullptr\<rparr>\<rparr>)
                     else if is_error (nda_register_handle api handle)
                     then (nda_register_handle api handle,
                           w\<lparr>nw_nd := nd_drop api connector handle n2,
                             nw_impl := (nw_impl w)\<lparr>ni_connector := nullptr, ni_handle := nullptr\<rparr>\<rparr>)
                     else (nda_register_handle api handle,
                           w\<lparr>nw_nd := n2,
                             nw_impl := (nw_impl w)\<lparr>ni_connector := connector, ni_handle := handle,
                               ni_adapter := Some adapter\<rparr>\<rparr>)))"

record nd_handle =
  nh_connector :: ptr
  nh_handle :: ptr
  nh_adapter :: "nd_adapter option"

definition nd_handle_empty :: nd_handle where
  "nd_handle_empty = \<lparr>nh_connector = nullptr, nh_handle = nullptr, nh_adapter = None\<rparr>"

definition nd_assign ::
  "'n nd_api \<Rightarrow> nd_handle \<Rightarrow> nd_connector_impl \<Rightarrow> error_code \<times> nd_handle \<times> nd_connector_impl" where
  "nd_assign api handle impl =
     (if nd_is_open impl then (already_open, handle, impl)
      else if nh_connector handle = nullptr then (make_error_code invalid_handle, handle, impl)
      else if is_error (nda_register_handle api (nh_handle handle))
      then (nda_register_handle api (nh_handle handle), handle, impl)
      else (nda_register_handle api (nh_handle handle), nd_handle_empty,
            \<lparr>ni_connector = nh_connector handle, ni_handle = nh_handle handle,
             ni_adapter = nh_adapter handle, ni_state = ns_idle, ni_peer_closed = False\<rparr>))"

definition nd_effective_config :: "nd_device_service \<Rightarrow> rdma_config_t" where
  "nd_effective_config ds = (if nds_registered ds then nds_effective_config ds else default_config)"

abbreviation private_ptr :: "u8 list \<Rightarrow> u8 list option" where
  "private_ptr pd \<equiv> (if pd = [] then None else Some pd)"

definition nd_start_connect_op ::
  "'n nd_api \<Rightarrow> nd_device_service \<Rightarrow> ptr \<Rightarrow> nd_endpoint \<Rightarrow> u8 list \<Rightarrow> nd_connect_op \<Rightarrow> 'n nd_world
   \<Rightarrow> 'n nd_world" where
  "nd_start_connect_op api ds qp ep pd op w =
     (if nd_state w \<noteq> ns_idle then on_completion (NOp_connect op) nd_operation_aborted w
      else
        let w1 = nd_set_state ns_connecting w in
        case ni_adapter (nw_impl w) of
          None \<Rightarrow> w1\<lparr>nw_fault := True\<rparr>
        | Some adapter \<Rightarrow>
            (case (case fst ep of V4 _ \<Rightarrow> get_v4_address_nd adapter | V6 _ \<Rightarrow> get_v6_address_nd adapter) of
               Inl ec \<Rightarrow> on_completion (NOp_connect op) ec w1
             | Inr address \<Rightarrow>
                 (case nd_bind_addr api (ni_connector (nw_impl w)) (address, 0) (nw_nd w) of
                    (hr, ec, n1) \<Rightarrow>
                      if is_error ec then on_completion (NOp_connect op) ec (w1\<lparr>nw_nd := n1\<rparr>)
                      else
                        let eff = nd_effective_config ds in
                        case nd_connect api (ni_connector (nw_impl w)) qp ep (inbound_read_limit eff)
                          (outbound_read_limit eff) (private_ptr pd) (of_nat (length pd)) n1 of
                          (hr, ec, n2) \<Rightarrow>
                            let w2 = w1\<lparr>nw_nd := n2\<rparr> in
                            if is_error ec then on_completion (NOp_connect op) ec w2
                            else if hr \<noteq> ND_PENDING then on_completion (NOp_connect op) ec w2
                            else on_pending (NOp_connect op) w2)))"

definition nd_async_connect ::
  "'n nd_api \<Rightarrow> nd_device_service \<Rightarrow> ptr \<Rightarrow> nd_endpoint \<Rightarrow> u8 list \<Rightarrow> bool \<Rightarrow> nat \<Rightarrow> nat \<Rightarrow> 'n nd_world
   \<Rightarrow> 'n nd_world" where
  "nd_async_connect api ds qp ep request reply_buf reply_cap h w =
     (case (if nd_is_open (nw_impl w) then (no_error, w) else nd_do_open api ds w) of
        (open_ec, w1) \<Rightarrow>
          let op = nd_connect_op_new (ni_connector (nw_impl w1)) reply_buf reply_cap h in
          if is_error open_ec then on_completion (NOp_connect op) open_ec w1
          else if length request > 255
          then on_completion (NOp_connect op) (make_error_code private_data_too_large) w1
          else if nd_state w1 \<noteq> ns_idle
          then on_completion (NOp_connect op) (make_error_code connector_terminal) w1
          else if qp = nullptr then on_completion (NOp_connect op) (make_error_code invalid_handle) w1
          else nd_start_connect_op api ds qp ep request op w1)"

definition nd_start_accept_op ::
  "'n nd_api \<Rightarrow> nd_device_service \<Rightarrow> ptr \<Rightarrow> u8 list \<Rightarrow> nat \<Rightarrow> 'n nd_world \<Rightarrow> 'n nd_world" where
  "nd_start_accept_op api ds qp pd h w =
     (if nd_state w \<noteq> ns_idle then on_completion (NOp_accept True h) nd_operation_aborted w
      else
        let w1 = nd_set_state ns_connecting w; eff = nd_effective_config ds in
        case nd_accept api (ni_connector (nw_impl w)) qp (inbound_read_limit eff)
          (outbound_read_limit eff) (private_ptr pd) (of_nat (length pd)) (nw_nd w) of
          (hr, ec, n1) \<Rightarrow>
            let w2 = w1\<lparr>nw_nd := n1\<rparr> in
            if is_error ec then on_completion (NOp_accept True h) ec w2
            else if hr \<noteq> ND_PENDING then on_completion (NOp_accept True h) ec w2
            else on_pending (NOp_accept True h) w2)"

definition nd_accept_guard ::
  "nd_device_service \<Rightarrow> nd_connector_impl \<Rightarrow> ptr \<Rightarrow> u8 list \<Rightarrow> error_code option" where
  "nd_accept_guard ds impl qp pd =
     (if \<not> nds_registered ds then Some (make_error_code device_not_registered)
      else if \<not> nd_is_open impl then Some (make_error_code invalid_handle)
      else if length pd > 255 then Some (make_error_code private_data_too_large)
      else if ni_state impl \<noteq> ns_idle then Some (make_error_code connector_terminal)
      else if qp = nullptr then Some (make_error_code invalid_handle)
      else None)"

definition nd_async_accept ::
  "'n nd_api \<Rightarrow> nd_device_service \<Rightarrow> ptr \<Rightarrow> u8 list \<Rightarrow> nat \<Rightarrow> 'n nd_world \<Rightarrow> 'n nd_world" where
  "nd_async_accept api ds qp pd h w =
     (case nd_accept_guard ds (nw_impl w) qp pd of
        Some ec \<Rightarrow> on_completion (NOp_accept False h) ec w
      | None \<Rightarrow> nd_start_accept_op api ds qp pd h w)"

definition nd_async_move_accept ::
  "'n nd_api \<Rightarrow> nd_device_service \<Rightarrow> error_code \<Rightarrow> ptr \<Rightarrow> u8 list \<Rightarrow> nat \<Rightarrow> 'n nd_world \<Rightarrow> 'n nd_world" where
  "nd_async_move_accept api ds bind_ec qp pd h w =
     (if is_error bind_ec then on_completion (NOp_accept False h) bind_ec w
      else case nd_accept_guard ds (nw_impl w) qp pd of
        Some ec \<Rightarrow> on_completion (NOp_accept False h) ec w
      | None \<Rightarrow> nd_start_accept_op api ds qp pd h w)"

definition nd_disconnect :: "'n nd_api \<Rightarrow> 'n nd_world \<Rightarrow> error_code \<times> 'n nd_world" where
  "nd_disconnect api w =
     (if \<not> nd_is_open (nw_impl w) then (make_error_code invalid_handle, w)
      else if nd_state w = ns_closed then (no_error, w)
      else
        let w1 = w\<lparr>nw_impl := (nw_impl w)\<lparr>ni_state := ns_closed, ni_peer_closed := True\<rparr>\<rparr> in
        case nd_state w of
          ns_connecting \<Rightarrow> (no_error, cancel_io_all w1)
        | ns_connected \<Rightarrow>
            (let w2 = cancel_io_all w1 in
             case nd_disconnect_call api (ni_connector (nw_impl w)) (nw_nd w2) of
               (hr, dec, n) \<Rightarrow>
                 let w3 = w2\<lparr>nw_nd := n\<rparr> in
                 if \<not> is_error dec \<and> hr = ND_PENDING then (no_error, on_pending NOp_disconnect w3)
                 else (dec, on_completion NOp_disconnect dec w3))
        | _ \<Rightarrow> (no_error, w1))"

definition nd_async_wait_disconnect :: "'n nd_api \<Rightarrow> nat \<Rightarrow> 'n nd_world \<Rightarrow> 'n nd_world" where
  "nd_async_wait_disconnect api h w =
     (if ni_peer_closed (nw_impl w) \<or> nd_state w = ns_closed
      then on_completion (NOp_wait h) (make_error_code disconnected) w
      else if \<not> nd_is_open (nw_impl w)
      then on_completion (NOp_wait h) (make_error_code invalid_handle) w
      else case nd_notify_disconnect api (ni_connector (nw_impl w)) (nw_nd w) of
        (hr, ec, n) \<Rightarrow>
          if \<not> is_error ec \<and> hr = ND_PENDING then on_pending (NOp_wait h) (w\<lparr>nw_nd := n\<rparr>)
          else on_completion (NOp_wait h) ec (w\<lparr>nw_nd := n\<rparr>))"

text \<open>\<open>nd_cm_op_cancellation\<close>: \<open>CancelIoEx\<close> on the request of one operation.\<close>

fun nd_op_handler :: "nd_op \<Rightarrow> nat option" where
  "nd_op_handler (NOp_connect op) = Some (no_handler op)"
| "nd_op_handler (NOp_accept _ h) = Some h"
| "nd_op_handler (NOp_wait h) = Some h"
| "nd_op_handler NOp_disconnect = None"

definition nd_cm_op_cancellation :: "u32 \<Rightarrow> nat \<Rightarrow> 'n nd_world \<Rightarrow> 'n nd_world" where
  "nd_cm_op_cancellation type key w =
     (if (type AND 7) \<noteq> 0
      then w\<lparr>nw_pending := map (\<lambda>(op, c). (op, c \<or> nd_op_handler op = Some key)) (nw_pending w)\<rparr>
      else w)"

text \<open>The scheduler delivers a completion.\<close>

definition nd_complete_front :: "'n nd_api \<Rightarrow> bool \<Rightarrow> 'n nd_world \<Rightarrow> 'n nd_world" where
  "nd_complete_front api owner w =
     (case nw_posted w of
        [] \<Rightarrow> w
      | (NOp_connect op, ec) # ops \<Rightarrow>
          (case nd_connect_do_complete api owner ec op (nd_state w) (nw_nd w) of
             (r, st, n) \<Rightarrow>
               let w1 = (nd_set_state st w)\<lparr>nw_nd := n, nw_posted := ops\<rparr> in
               case r of
                 Inl op' \<Rightarrow> on_pending (NOp_connect op') w1
               | Inr u \<Rightarrow> w1\<lparr>nw_upcalls := nw_upcalls w @ (case u of None \<Rightarrow> [] | Some x \<Rightarrow> [x])\<rparr>)
      | (NOp_accept started h, ec) # ops \<Rightarrow>
          (case nd_accept_do_complete owner ec started h (nd_state w) of
             (u, st) \<Rightarrow>
               (nd_set_state st w)\<lparr>nw_posted := ops,
                 nw_upcalls := nw_upcalls w @ (case u of None \<Rightarrow> [] | Some x \<Rightarrow> [x])\<rparr>)
      | (NOp_wait h, ec) # ops \<Rightarrow>
          (case nd_wait_do_complete owner ec h (ni_peer_closed (nw_impl w)) of
             (u, peer) \<Rightarrow>
               w\<lparr>nw_impl := (nw_impl w)\<lparr>ni_peer_closed := peer\<rparr>, nw_posted := ops,
                 nw_upcalls := nw_upcalls w @ (case u of None \<Rightarrow> [] | Some x \<Rightarrow> [x])\<rparr>)
      | (NOp_disconnect, ec) # ops \<Rightarrow> w\<lparr>nw_posted := ops\<rparr>)"

end
