(* ===== verification/ND_Connector_Run.thy ===== *)
theory ND_Connector_Run
  imports ND_Connector
begin

text \<open>
  Runs of a NetworkDirect connector. A step is a call of the program (with the handler it hands in), the adoption of a
  connection the listener delivered (which brings its adapter), a
  cancellation, the kernel finishing an overlapped request, the scheduler delivering a completion, or
  the provider moving on its own. A request ends with \<open>ERROR_OPERATION_ABORTED\<close> only if its
  cancellation was asked for; a cancelled request may still end with its result.
\<close>

subsection \<open>Steps\<close>

inductive nd_step ::
  "'n nd_api \<Rightarrow> nd_device_service \<Rightarrow> 'n nd_world \<Rightarrow> nat multiset \<Rightarrow> 'n nd_world \<Rightarrow> bool" for api ds where
  n_open: "nd_step api ds w {#} (snd (nd_do_open api ds w))"
| n_assign: "nd_assign api x (nw_impl w) = (ec, rest, i') \<Longrightarrow> nh_adapter x \<noteq> None \<Longrightarrow>
    nd_step api ds w {#} (w\<lparr>nw_impl := i'\<rparr>)"
| n_connect: "nd_step api ds w {#h#} (nd_async_connect api ds qp ep request rbuf rcap h w)"
| n_accept: "nd_step api ds w {#h#} (nd_async_accept api ds qp pd h w)"
| n_move_accept: "nd_step api ds w {#h#} (nd_async_move_accept api ds bind_ec qp pd h w)"
| n_wait: "nd_step api ds w {#h#} (nd_async_wait_disconnect api h w)"
| n_disconnect: "nd_step api ds w {#} (snd (nd_disconnect api w))"
| n_cancel: "nd_step api ds w {#} (nd_cm_op_cancellation type key w)"
| n_kernel: "nw_pending w = xs @ (op, cancelled) # ys \<Longrightarrow> (ec = nd_operation_aborted \<longrightarrow> cancelled) \<Longrightarrow>
    nd_step api ds w {#} (w\<lparr>nw_pending := xs @ ys, nw_posted := nw_posted w @ [(op, ec)]\<rparr>)"
| n_deliver: "nd_step api ds w {#} (nd_complete_front api True w)"
| n_provider: "nd_step api ds w {#} (w\<lparr>nw_nd := n\<rparr>)"

abbreviation nd_run where
  "nd_run api ds \<equiv> labelled_run (nd_step api ds)"

subsection \<open>Handlers\<close>

definition nd_op_handlers :: "nd_op \<Rightarrow> nat list" where
  "nd_op_handlers op = (case nd_op_handler op of None \<Rightarrow> [] | Some h \<Rightarrow> [h])"

definition nd_owed :: "'n nd_world \<Rightarrow> nat multiset" where
  "nd_owed w = mset (concat (map (nd_op_handlers \<circ> fst) (nw_pending w))) +
     mset (concat (map (nd_op_handlers \<circ> fst) (nw_posted w)))"

definition nd_invoked :: "'n nd_world \<Rightarrow> nat multiset" where
  "nd_invoked w = mset (map nu_handler (nw_upcalls w))"

definition nd_books :: "'n nd_world \<Rightarrow> nat multiset" where
  "nd_books w = nd_owed w + nd_invoked w"

text \<open>
  An open connector knows its adapter, and a registered device service has a device; nothing was
  dereferenced that is null.
\<close>

definition nd_wf :: "'n nd_world \<Rightarrow> bool" where
  "nd_wf w \<longleftrightarrow> (nd_is_open (nw_impl w) \<longrightarrow> ni_adapter (nw_impl w) \<noteq> None) \<and> \<not> nw_fault w"

definition nd_device_wf :: "nd_device_service \<Rightarrow> bool" where
  "nd_device_wf ds \<longleftrightarrow> (nds_registered ds \<longrightarrow> nds_device ds \<noteq> None)"

text \<open>A \<open>CreateConnector\<close> that does not succeed returns no connector.\<close>

definition nd_create_law :: "'n nd_api \<Rightarrow> bool" where
  "nd_create_law api \<longleftrightarrow>
     (\<forall>n a h hr c n'. nda_create_connector api n a h = (hr, c, n') \<longrightarrow> hr \<noteq> ND_SUCCESS \<longrightarrow> c = nullptr)"

lemma nd_op_handlers_simps [simp]:
  "nd_op_handlers (NOp_connect op) = [no_handler op]" "nd_op_handlers (NOp_accept b h) = [h]"
  "nd_op_handlers (NOp_wait h) = [h]" "nd_op_handlers NOp_disconnect = []"
  by (simp_all add: nd_op_handlers_def)

lemma books_post [simp]:
  "nd_books (on_completion op ec w) = nd_books w + mset (nd_op_handlers op)"
  "nd_books (on_pending op w) = nd_books w + mset (nd_op_handlers op)"
  by (simp_all add: nd_books_def nd_owed_def nd_invoked_def on_completion_def on_pending_def ac_simps)

lemma books_cong:
  assumes "map fst (nw_pending w) = map fst (nw_pending w')" and "nw_posted w = nw_posted w'"
    and "nw_upcalls w = nw_upcalls w'"
  shows "nd_books w = nd_books w'"
proof -
  have "map (nd_op_handlers \<circ> fst) (nw_pending w) = map (nd_op_handlers \<circ> fst) (nw_pending w')"
    using arg_cong [OF assms(1), of "map nd_op_handlers"] by simp
  then show ?thesis using assms(2,3) by (simp add: nd_books_def nd_owed_def nd_invoked_def)
qed

lemma books_update [simp]:
  "nd_books (w\<lparr>nw_nd := n\<rparr>) = nd_books w" "nd_books (w\<lparr>nw_impl := impl\<rparr>) = nd_books w"
  "nd_books (w\<lparr>nw_fault := f\<rparr>) = nd_books w" "nd_books (cancel_io_all w) = nd_books w"
  "nd_books (nd_cm_op_cancellation type key w) = nd_books w"
  by (rule books_cong; simp add: cancel_io_all_def nd_cm_op_cancellation_def case_prod_beta comp_def)+

lemma wf_update [simp]:
  "nd_wf (on_completion op ec w) = nd_wf w" "nd_wf (on_pending op w) = nd_wf w"
  "nd_wf (cancel_io_all w) = nd_wf w" "nd_wf (nd_cm_op_cancellation type key w) = nd_wf w"
  "nd_wf (w\<lparr>nw_nd := n\<rparr>) = nd_wf w" "nd_wf (w\<lparr>nw_pending := p\<rparr>) = nd_wf w"
  "nd_wf (w\<lparr>nw_posted := q\<rparr>) = nd_wf w" "nd_wf (w\<lparr>nw_upcalls := u\<rparr>) = nd_wf w"
  "nd_wf (nd_set_state st w) = nd_wf w"
  "nd_wf (w\<lparr>nw_impl := (nw_impl w)\<lparr>ni_peer_closed := b\<rparr>\<rparr>) = nd_wf w"
  "nd_wf (w\<lparr>nw_impl := (nw_impl w)\<lparr>ni_state := st, ni_peer_closed := b\<rparr>\<rparr>) = nd_wf w"
  by (simp_all add: nd_wf_def nd_is_open_def on_completion_def on_pending_def cancel_io_all_def
      nd_cm_op_cancellation_def)

lemma on_pending_impl [simp]:
  "nw_impl (on_pending op w) = nw_impl w" "nw_impl (on_completion op ec w) = nw_impl w"
  "nw_impl (cancel_io_all w) = nw_impl w"
  by (simp_all add: on_pending_def on_completion_def cancel_io_all_def)

lemma nd_do_open_keeps:
  assumes "nd_device_wf ds" and "nd_create_law api" and "nd_wf w"
  shows "nd_books (snd (nd_do_open api ds w)) = nd_books w" "nd_wf (snd (nd_do_open api ds w))"
proof -
  show "nd_books (snd (nd_do_open api ds w)) = nd_books w"
    by (simp add: nd_do_open_def Let_def split: prod.split option.split)
  show "nd_wf (snd (nd_do_open api ds w))"
    using assms
    by (auto simp: nd_do_open_def Let_def nd_device_wf_def nd_wf_def nd_is_open_def nd_create_law_def
        nd_create_connector_def make_nd_error_code_def split: prod.split option.split)
qed


lemma nd_start_connect_op_keeps:
  assumes "nd_wf w" and "ni_adapter (nw_impl w) \<noteq> None"
  shows "nd_books (nd_start_connect_op api ds qp ep pd op w) = nd_books w + {#no_handler op#}"
    "nd_wf (nd_start_connect_op api ds qp ep pd op w)"
proof -
  obtain a where a: "ni_adapter (nw_impl w) = Some a" using assms(2) by auto
  show "nd_books (nd_start_connect_op api ds qp ep pd op w) = nd_books w + {#no_handler op#}"
    by (simp add: nd_start_connect_op_def a Let_def split: prod.split sum.split)
  show "nd_wf (nd_start_connect_op api ds qp ep pd op w)"
    using assms by (simp add: nd_start_connect_op_def a Let_def split: prod.split sum.split)
qed

lemma nd_do_open_adapter:
  assumes "nd_do_open api ds w = (ec, w')" and "\<not> is_error ec" and "nd_wf w'"
  shows "ni_adapter (nw_impl w') \<noteq> None"
  using assms
  by (auto simp: nd_do_open_def nd_wf_def Let_def split: prod.splits option.splits if_splits)

lemma nd_async_connect_keeps:
  assumes "nd_device_wf ds" and "nd_create_law api" and "nd_wf w"
  shows "nd_books (nd_async_connect api ds qp ep request rbuf rcap h w) = nd_books w + {#h#}"
    "nd_wf (nd_async_connect api ds qp ep request rbuf rcap h w)"
proof -
  obtain ec w1 where r: "(if nd_is_open (nw_impl w) then (no_error, w) else nd_do_open api ds w) = (ec, w1)"
    by fastforce
  have k: "nd_books w1 = nd_books w" "nd_wf w1" "\<not> is_error ec \<Longrightarrow> ni_adapter (nw_impl w1) \<noteq> None"
    using r nd_do_open_keeps [OF assms] assms(3) nd_do_open_adapter [of api ds w ec w1]
    by (auto simp: nd_wf_def split: if_splits)
  show "nd_books (nd_async_connect api ds qp ep request rbuf rcap h w) = nd_books w + {#h#}"
    using k by (simp add: nd_async_connect_def r nd_start_connect_op_keeps Let_def nd_connect_op_new_def)
  show "nd_wf (nd_async_connect api ds qp ep request rbuf rcap h w)"
    using k by (simp add: nd_async_connect_def r nd_start_connect_op_keeps Let_def)
qed

lemma nd_start_accept_op_keeps:
  "nd_books (nd_start_accept_op api ds qp pd h w) = nd_books w + {#h#}"
  "nd_wf w \<Longrightarrow> nd_wf (nd_start_accept_op api ds qp pd h w)"
  by (simp_all add: nd_start_accept_op_def Let_def split: prod.split)

lemma nd_accepts_keep:
  "nd_books (nd_async_accept api ds qp pd h w) = nd_books w + {#h#}"
  "nd_books (nd_async_move_accept api ds bind_ec qp pd h w) = nd_books w + {#h#}"
  "nd_wf w \<Longrightarrow> nd_wf (nd_async_accept api ds qp pd h w)"
  "nd_wf w \<Longrightarrow> nd_wf (nd_async_move_accept api ds bind_ec qp pd h w)"
  by (simp_all add: nd_async_accept_def nd_async_move_accept_def nd_start_accept_op_keeps
      split: option.split)

lemma nd_async_wait_disconnect_keeps:
  "nd_books (nd_async_wait_disconnect api h w) = nd_books w + {#h#}"
  "nd_wf w \<Longrightarrow> nd_wf (nd_async_wait_disconnect api h w)"
  by (simp_all add: nd_async_wait_disconnect_def split: prod.split)

lemma nd_disconnect_keeps:
  "nd_books (snd (nd_disconnect api w)) = nd_books w"
  "nd_wf w \<Longrightarrow> nd_wf (snd (nd_disconnect api w))"
  by (simp_all add: nd_disconnect_def Let_def split: prod.split nd_connect_state.split)

text \<open>A continuation is the same operation: its handler does not change.\<close>

lemma resume_process_handler:
  "resume_process api ec op st n = (cont, ec', op', st', n') \<Longrightarrow> no_handler op' = no_handler op"
  by (auto simp: resume_process_def nd_connect_do_process_def process_complete_connect_def
      capture_remote_pd_def mark_connected_def Let_def split: if_splits prod.splits nd_stage.splits)

lemma nd_connect_do_complete_handler:
  assumes "nd_connect_do_complete api True ec op st n = (r, st', n')"
  shows "(\<exists>op'. r = Inl op' \<and> no_handler op' = no_handler op) \<or>
    (\<exists>u. r = Inr (Some u) \<and> nu_handler u = no_handler op)"
  using assms resume_process_handler [of api ec op st n]
  by (auto simp: nd_connect_do_complete_def split: prod.splits if_splits)

lemma nd_complete_front_keeps:
  "nd_books (nd_complete_front api True w) = nd_books w"
  "nd_wf w \<Longrightarrow> nd_wf (nd_complete_front api True w)"
proof -
  have "nd_books (nd_complete_front api True w) = nd_books w \<and>
    (nd_wf w \<longrightarrow> nd_wf (nd_complete_front api True w))"
  proof (cases "nw_posted w")
    case Nil
    then show ?thesis by (simp add: nd_complete_front_def)
  next
    case (Cons x ops)
    obtain op ec where x: "x = (op, ec)" by fastforce
    show ?thesis
    proof (cases op)
      case (NOp_connect co)
      obtain r st n where c: "nd_connect_do_complete api True ec co (nd_state w) (nw_nd w) = (r, st, n)"
        by (metis prod_cases3)
      show ?thesis
        using Cons x NOp_connect c nd_connect_do_complete_handler [OF c]
        by (auto simp: nd_complete_front_def nd_books_def nd_owed_def nd_invoked_def nd_wf_def
            nd_is_open_def on_pending_def)
    qed (use Cons x in \<open>auto simp: nd_complete_front_def nd_books_def nd_owed_def nd_invoked_def nd_wf_def
            nd_is_open_def nd_accept_do_complete_def nd_wait_do_complete_def Let_def split: prod.split\<close>)
  qed
  then show "nd_books (nd_complete_front api True w) = nd_books w"
    "nd_wf w \<Longrightarrow> nd_wf (nd_complete_front api True w)" by blast+
qed

lemma nd_step_keeps:
  assumes "nd_device_wf ds" and "nd_create_law api" and "nd_step api ds w hs w'" and "nd_wf w"
  shows "nd_books w' = nd_books w + hs \<and> nd_wf w'"
  using assms(3,4)
proof (cases rule: nd_step.cases)
  case (n_kernel xs op cancelled ys ec)
  then show ?thesis using assms(4) by (simp add: nd_books_def nd_owed_def nd_invoked_def nd_wf_def ac_simps)
next
  case (n_assign x ec rest i')
  then show ?thesis using assms(4) by (auto simp: nd_assign_def nd_wf_def split: if_splits)
qed (simp_all add: nd_do_open_keeps [OF assms(1,2)] nd_async_connect_keeps [OF assms(1,2)] nd_accepts_keep
    nd_async_wait_disconnect_keeps nd_disconnect_keeps nd_complete_front_keeps)

text \<open>The contract of the ledger, for the provider and the device service of the laws.\<close>

definition nd_lawful_step ::
  "'n nd_api \<Rightarrow> nd_device_service \<Rightarrow> 'n nd_world \<Rightarrow> nat multiset \<Rightarrow> 'n nd_world \<Rightarrow> bool" where
  "nd_lawful_step api ds w hs w' \<longleftrightarrow>
     nd_device_wf ds \<and> nd_create_law api \<and> nd_wf w \<and> nd_step api ds w hs w'"

interpretation nd_ledger: handler_ledger "nd_lawful_step api ds" nd_owed nd_invoked for api ds
  by unfold_locales (use nd_step_keeps in \<open>fastforce simp: nd_lawful_step_def nd_books_def ac_simps\<close>)

lemma nd_run_lawful:
  assumes "nd_device_wf ds" and "nd_create_law api" and "nd_wf w" and "nd_run api ds w hs w'"
  shows "labelled_run (nd_lawful_step api ds) w hs w' \<and> nd_wf w'"
proof -
  have "nd_lawful_step api ds = (\<lambda>w hs w'. nd_wf w \<and> nd_step api ds w hs w')"
    using assms(1,2) by (simp add: nd_lawful_step_def fun_eq_iff)
  with run_invariant [OF assms(4), of nd_wf] nd_step_keeps [OF assms(1,2)] assms(3) show ?thesis by auto
qed

text \<open>
  C17. On NetworkDirect, for every sequence of calls on a connector, cancellations, completions of
  overlapped requests in any order and turns of the scheduler, each handler passed to \<open>async_connect\<close>,
  \<open>async_accept\<close> or \<open>async_wait_disconnect\<close> is held by exactly one operation, pending in the kernel or
  posted, until it is invoked, and it is invoked once; no null device or adapter is dereferenced.
\<close>

theorem nd_control_handlers_exactly_once:
  assumes "nd_run api ds w hs w'" and "nd_device_wf ds" and "nd_create_law api" and "nd_wf w"
    and "nd_owed w = {#}" and "nd_invoked w = {#}"
  shows "nd_owed w' + nd_invoked w' = hs \<and>
    (nw_pending w' = [] \<and> nw_posted w' = [] \<longrightarrow> nd_invoked w' = hs) \<and> \<not> nw_fault w'"
  using nd_ledger.exactly_once [OF _ assms(5,6)] nd_run_lawful [OF assms(2,3,4,1)]
  by (auto simp: nd_owed_def nd_wf_def)


subsection \<open>Teardown\<close>

definition connect_refusal :: "u8 list \<Rightarrow> error_code" where
  "connect_refusal request =
     make_error_code (if length request > 255 then private_data_too_large else connector_terminal)"

lemma nd_connect_refused:
  assumes "nd_is_open (nw_impl w)" and "nd_state w \<noteq> ns_idle"
  shows "nd_async_connect api ds qp ep request rbuf rcap h w =
    on_completion (NOp_connect (nd_connect_op_new (ni_connector (nw_impl w)) rbuf rcap h))
      (connect_refusal request) w"
  using assms by (simp add: nd_async_connect_def connect_refusal_def Let_def)

lemma connect_refusal_is_error [simp]: "is_error (connect_refusal request)"
  by (simp add: connect_refusal_def)


text \<open>
  An \<open>async_connect\<close> that is refused closes the connector: on an established connection the
  refusal goes through the operation's completion, which stores \<open>closed\<close> for any error. The provider
  is not told, and the \<open>disconnect()\<close> that follows finds the connector closed and does nothing, so the
  connection is never torn down by Disconnect.
\<close>

theorem nd_refused_connect_strands_connection:
  assumes "nd_is_open (nw_impl w)" and "nd_state w = ns_connected" and "nw_posted w = []"
    and "w1 = nd_complete_front api True (nd_async_connect api ds qp ep request rbuf rcap h w)"
  shows "nd_state w1 = ns_closed \<and> nw_nd w1 = nw_nd w \<and> nd_disconnect api w1 = (no_error, w1) \<and>
    (\<exists>u. nw_upcalls w1 = nw_upcalls w @ [u] \<and> nu_handler u = h \<and> is_error (nu_ec u))"
  using assms(1,2,3,4) nd_connect_refused [OF assms(1), of api ds qp ep request rbuf rcap h]
  by (simp add: nd_complete_front_def on_completion_def nd_connect_do_complete_def
      resume_process_def nd_disconnect_def nd_is_open_def nd_connect_op_new_def)

text \<open>
  An accept that the peer completes while \<open>disconnect()\<close> is cancelling it comes back as a
  connection: \<open>disconnect()\<close> closes the connector and calls no Disconnect, the request still ends with
  success, and the operation's completion stores \<open>connected\<close> over \<open>closed\<close> and reports success. A connect
  in the same position loses its compare-exchange, reports the abort and leaves the connection that
  \<open>CompleteConnect\<close> made without a Disconnect.
\<close>

theorem nd_disconnect_overtaken:
  assumes "nd_is_open (nw_impl w)" and "nd_state w = ns_connecting" and "nw_posted w = []"
    and "nw_pending w = [(op, False)]" and "w1 = snd (nd_disconnect api w)"
    and "w2 = w1\<lparr>nw_pending := [], nw_posted := [(op, no_error)]\<rparr>"
    and "op = NOp_accept True h \<or> (\<exists>co. op = NOp_connect co \<and> no_stage co = sg_connected)"
  shows "nd_state w1 = ns_closed \<and> nd_step api ds w1 {#} w2 \<and> nw_nd (nd_complete_front api True w2) = nw_nd w \<and>
    nd_state (nd_complete_front api True w2) = (if op = NOp_accept True h then ns_connected else ns_closed) \<and>
    (\<exists>u. nw_upcalls (nd_complete_front api True w2) = nw_upcalls w @ [u] \<and>
      nu_ec u = (if op = NOp_accept True h then no_error else nd_operation_aborted))"
proof -
  have w1: "w1 = w\<lparr>nw_impl := (nw_impl w)\<lparr>ni_state := ns_closed, ni_peer_closed := True\<rparr>,
      nw_pending := [(op, True)]\<rparr>"
    using assms(1,2,4,5) by (simp add: nd_disconnect_def cancel_io_all_def Let_def)
  have st: "nd_step api ds w1 {#} w2"
    using n_kernel [of w1 "[]" op True "[]" no_error api ds] w1 assms(3,6) by simp
  from assms(7) show ?thesis
  proof
    assume "op = NOp_accept True h"
    then show ?thesis using st w1 assms(6)
      by (simp add: nd_complete_front_def nd_accept_do_complete_def)
  next
    assume "\<exists>co. op = NOp_connect co \<and> no_stage co = sg_connected"
    then show ?thesis using st w1 assms(6)
      by (auto simp: nd_complete_front_def nd_connect_do_complete_def resume_process_def
          nd_connect_do_process_def mark_connected_def)
  qed
qed


fun started_accept :: "nd_op \<Rightarrow> bool" where
  "started_accept (NOp_accept started h) = started"
| "started_accept _ = False"

definition nd_closed_for_good :: "'n nd_world \<Rightarrow> bool" where
  "nd_closed_for_good w \<longleftrightarrow> nd_state w = ns_closed \<and>
     (\<forall>op \<in> fst ` set (nw_pending w) \<union> fst ` set (nw_posted w). \<not> started_accept op)"

lemma closed_for_good_update [simp]:
  "nd_closed_for_good (on_completion op ec w) \<longleftrightarrow> nd_closed_for_good w \<and> \<not> started_accept op"
  "nd_closed_for_good (on_pending op w) \<longleftrightarrow> nd_closed_for_good w \<and> \<not> started_accept op"
  "nd_closed_for_good (w\<lparr>nw_nd := n\<rparr>) \<longleftrightarrow> nd_closed_for_good w"
  "nd_closed_for_good (nd_cm_op_cancellation type key w) \<longleftrightarrow> nd_closed_for_good w"
  by (force simp: nd_closed_for_good_def on_completion_def on_pending_def nd_cm_op_cancellation_def)+

lemma nd_do_open_closed: "nd_closed_for_good w \<Longrightarrow> nd_closed_for_good (snd (nd_do_open api ds w))"
  by (simp add: nd_do_open_def nd_closed_for_good_def Let_def split: prod.split option.split)

lemma nd_connect_do_complete_closed:
  "nd_connect_do_complete api True ec op ns_closed n = (r, st, n') \<Longrightarrow> st = ns_closed"
  by (auto simp: nd_connect_do_complete_def resume_process_def nd_connect_do_process_def
      process_complete_connect_def mark_connected_def Let_def
      split: if_splits prod.splits nd_stage.splits)

lemma nd_complete_front_closed:
  assumes "nd_closed_for_good w"
  shows "nd_closed_for_good (nd_complete_front api True w)"
proof (cases "nw_posted w")
  case Nil
  then show ?thesis using assms by (simp add: nd_complete_front_def)
next
  case (Cons x ops)
  obtain op ec where x: "x = (op, ec)" by fastforce
  have st: "nd_state w = ns_closed" using assms by (simp add: nd_closed_for_good_def)
  show ?thesis
  proof (cases op)
    case (NOp_connect co)
    obtain r s n where c: "nd_connect_do_complete api True ec co ns_closed (nw_nd w) = (r, s, n)"
      by (metis prod_cases3)
    with nd_connect_do_complete_closed [OF c] show ?thesis
      using assms st Cons x NOp_connect
      by (auto simp: nd_complete_front_def nd_closed_for_good_def on_pending_def Let_def split: sum.split)
  qed (use assms st Cons x in \<open>auto simp: nd_complete_front_def nd_closed_for_good_def
        nd_accept_do_complete_def nd_wait_do_complete_def Let_def split: prod.split\<close>)
qed

lemma nd_accept_guard_idle: "nd_accept_guard ds impl qp pd = None \<Longrightarrow> ni_state impl = ns_idle"
  by (auto simp: nd_accept_guard_def split: if_splits)

text \<open>The adoption of a connection by a connector that is not open.\<close>

definition nd_adopts :: "'n nd_api \<Rightarrow> 'n nd_world \<Rightarrow> 'n nd_world \<Rightarrow> bool" where
  "nd_adopts api w w' \<longleftrightarrow> \<not> nd_is_open (nw_impl w) \<and>
     (\<exists>x ec rest i'. nd_assign api x (nw_impl w) = (ec, rest, i') \<and> \<not> is_error ec \<and> w' = w\<lparr>nw_impl := i'\<rparr>)"

lemma nd_step_closed:
  assumes "nd_step api ds w hs w'" and "nd_closed_for_good w"
  shows "nd_closed_for_good w' \<or> nd_adopts api w w'"
  using assms
proof (cases rule: nd_step.cases)
  case (n_assign x ec rest i')
  then show ?thesis
    using assms(2) by (auto simp: nd_adopts_def nd_assign_def split: if_splits)
next
  case (n_connect h qp ep request rbuf rcap)
  obtain ec w1 where r: "(if nd_is_open (nw_impl w) then (no_error, w) else nd_do_open api ds w) = (ec, w1)"
    by fastforce
  have "nd_closed_for_good w1" using r nd_do_open_closed [OF assms(2)] assms(2)
    by (metis (full_types) snd_conv)
  moreover from this have "nd_state w1 \<noteq> ns_idle" by (simp add: nd_closed_for_good_def)
  ultimately show ?thesis using n_connect r by (simp add: nd_async_connect_def Let_def)
next
  case n_disconnect
  then show ?thesis using assms(2) by (simp add: nd_disconnect_def nd_closed_for_good_def)
next
  case (n_kernel xs op cancelled ys ec)
  then show ?thesis using assms(2) by (auto simp: nd_closed_for_good_def)
next
  case (n_accept h qp pd)
  then show ?thesis using assms(2)
    by (auto simp: nd_async_accept_def nd_closed_for_good_def on_completion_def
        dest: nd_accept_guard_idle split: option.split)
next
  case (n_move_accept h bind_ec qp pd)
  then show ?thesis using assms(2)
    by (auto simp: nd_async_move_accept_def nd_closed_for_good_def on_completion_def
        dest: nd_accept_guard_idle split: option.split)
qed (simp_all add: nd_do_open_closed nd_async_wait_disconnect_def nd_complete_front_closed
    split: prod.split)

lemma nd_complete_front_connector: "ni_connector (nw_impl (nd_complete_front api True w)) = ni_connector (nw_impl w)"
  by (simp add: nd_complete_front_def Let_def on_pending_def split: list.split nd_op.split prod.split sum.split)

lemma nd_start_connect_op_connector:
  "ni_connector (nw_impl (nd_start_connect_op api ds qp ep pd op w)) = ni_connector (nw_impl w)"
  by (simp add: nd_start_connect_op_def Let_def split: prod.split sum.split option.split)

lemma nd_step_stays_open:
  assumes "nd_step api ds w hs w'" and "nd_is_open (nw_impl w)"
  shows "nd_is_open (nw_impl w')"
  using assms
proof (cases rule: nd_step.cases)
  case (n_connect h qp ep request rbuf rcap)
  then show ?thesis
    using assms(2) nd_start_connect_op_connector [of api ds qp ep request _ w]
    by (simp add: nd_async_connect_def Let_def nd_is_open_def)
next
  case n_deliver
  then show ?thesis using assms(2) nd_complete_front_connector [of api w] by (simp add: nd_is_open_def)
qed (auto simp: nd_do_open_def nd_assign_def nd_async_accept_def nd_async_move_accept_def nd_start_accept_op_def
    nd_async_wait_disconnect_def nd_disconnect_def nd_cm_op_cancellation_def nd_is_open_def Let_def
    split: prod.splits option.splits if_splits nd_connect_state.splits)

text \<open>
  C19. A closed connector that is open, with no accept in flight, is closed for good: no sequence of calls,
  adoptions, completions and cancellations makes it idle or connected again, whatever error or success they
  carry. One that is not open (its \<open>async_connect\<close> failed to open it) stays closed until it adopts a
  connection with \<open>assign\<close>, which makes it idle. (With an accept in flight this fails.)
\<close>

theorem nd_closed_is_final:
  assumes "nd_run api ds w hs w'" and "nd_closed_for_good w"
  shows "(nd_is_open (nw_impl w) \<longrightarrow> nd_closed_for_good w' \<and> nd_is_open (nw_impl w')) \<and>
    (nd_closed_for_good w' \<or>
     (\<exists>w1 w2 hs1 h hs2. nd_run api ds w hs1 w1 \<and> nd_closed_for_good w1 \<and> nd_step api ds w1 h w2 \<and>
        nd_adopts api w1 w2 \<and> nd_run api ds w2 hs2 w' \<and> hs = hs1 + h + hs2))"
  using assms
proof (induction rule: labelled_run.induct)
  case (run_refl w)
  then show ?case by simp
next
  case (run_step w hs w' hs' w'')
  have "nd_closed_for_good w'' \<and> nd_is_open (nw_impl w'')" if o: "nd_is_open (nw_impl w)"
  proof -
    have "nd_closed_for_good w'" "nd_is_open (nw_impl w')" using run_step.IH [OF run_step.prems] o by blast+
    then show ?thesis
      using nd_step_closed [OF run_step.hyps(2)] nd_step_stays_open [OF run_step.hyps(2)] by (auto simp: nd_adopts_def)
  qed
  moreover consider "nd_closed_for_good w''" | "nd_closed_for_good w'" "nd_adopts api w' w''"
    | w1 w2 hs1 h hs2 where "nd_run api ds w hs1 w1" "nd_closed_for_good w1" "nd_step api ds w1 h w2"
        "nd_adopts api w1 w2" "nd_run api ds w2 hs2 w'" "hs = hs1 + h + hs2"
    using run_step.IH [OF run_step.prems] nd_step_closed [OF run_step.hyps(2)] by blast
  then have "nd_closed_for_good w'' \<or>
     (\<exists>w1 w2 hs1 h hs2. nd_run api ds w hs1 w1 \<and> nd_closed_for_good w1 \<and> nd_step api ds w1 h w2 \<and>
        nd_adopts api w1 w2 \<and> nd_run api ds w2 hs2 w'' \<and> hs + hs' = hs1 + h + hs2)"
  proof cases
    case 2
    have "hs + hs' = hs + hs' + {#}" by simp
    then show ?thesis using run_step.hyps 2 labelled_run.run_refl [of "nd_step api ds" w''] by blast
  next
    case (3 w1 w2 hs1 h hs2)
    have "hs + hs' = hs1 + h + (hs2 + hs')" using 3(6) by (simp add: add.assoc)
    then show ?thesis using labelled_run.run_step [OF 3(5) run_step.hyps(2)] 3(1-4) by blast
  qed simp
  ultimately show ?case by blast
qed


subsection \<open>Handles and connectors\<close>

text \<open>Opening a closed connector is the common opening of the provider's objects.\<close>

lemma nd_do_open_pair:
  assumes "nds_registered ds" and "nds_device ds = Some a" and "\<not> nd_is_open (nw_impl w)"
    and "ni_handle (nw_impl w) = nullptr"
  shows "nd_do_open api ds w =
    (case nd_open_pair api (nd_create_connector api (na_adapter a)) (na_adapter a) (nw_nd w) of
       (e, c, h, n) \<Rightarrow>
         if is_error e
         then (e, w\<lparr>nw_nd := n, nw_impl := (nw_impl w)\<lparr>ni_connector := c, ni_handle := nullptr\<rparr>\<rparr>)
         else (e, w\<lparr>nw_nd := n,
           nw_impl := (nw_impl w)\<lparr>ni_connector := c, ni_handle := h, ni_adapter := Some a\<rparr>\<rparr>))"
proof -
  have keep: "(nw_impl w)\<lparr>ni_connector := nullptr, ni_handle := nullptr\<rparr> = nw_impl w"
    using assms(3,4) by (simp add: nd_is_open_def)
  show ?thesis
    using assms keep
    by (auto simp: nd_do_open_def nd_open_pair_def is_closable_handle_def split: prod.split)
qed

text \<open>\<open>CreateConnector\<close> behaves as a factory: it returns something new, or fails and creates nothing.\<close>

definition nd_resource_law :: "('n \<Rightarrow> ptr set) \<Rightarrow> 'n nd_api \<Rightarrow> bool" where
  "nd_resource_law live api \<longleftrightarrow>
     nd_handle_law live api \<and> (\<forall>a. nd_factory_law live (nd_create_connector api a))"

text \<open>
  C20. Opening a NetworkDirect connector is all or nothing: on an error the connector stays closed
  with no handle, and exactly the handles and connectors there were are alive; otherwise it holds a new
  connector and a new overlapped handle, and destroying it gives back exactly what there was.
\<close>

theorem nd_open_all_or_nothing:
  assumes "nd_resource_law live api" and "nd_device_wf ds" and "\<not> nd_is_open (nw_impl w)"
    and "ni_handle (nw_impl w) = nullptr" and "nd_do_open api ds w = (ec, w')"
  shows "if is_error ec
    then nw_impl w' = nw_impl w \<and> live (nw_nd w') = live (nw_nd w)
    else nd_is_open (nw_impl w') \<and> is_closable_handle (ni_handle (nw_impl w')) \<and>
      ni_connector (nw_impl w') \<noteq> ni_handle (nw_impl w') \<and>
      live (nw_nd w') = live (nw_nd w) \<union> {ni_connector (nw_impl w'), ni_handle (nw_impl w')} \<and>
      live (nw_nd (nd_destroy api w')) = live (nw_nd w)"
proof (cases "nds_registered ds")
  case False
  then show ?thesis using assms(3,5) by (auto simp: nd_do_open_def)
next
  case True
  then obtain a where a: "nds_device ds = Some a" using assms(2) by (auto simp: nd_device_wf_def)
  obtain e c h n where p: "nd_open_pair api (nd_create_connector api (na_adapter a)) (na_adapter a) (nw_nd w) = (e, c, h, n)"
    by (metis prod_cases4)
  have law: "nd_handle_law live api" "nd_factory_law live (nd_create_connector api (na_adapter a))"
    using assms(1) by (simp_all add: nd_resource_law_def)
  note P = nd_open_pair_live [OF law p]
  have d: "(ec, w') = (if is_error e
      then (e, w\<lparr>nw_nd := n, nw_impl := (nw_impl w)\<lparr>ni_connector := c, ni_handle := nullptr\<rparr>\<rparr>)
      else (e, w\<lparr>nw_nd := n,
        nw_impl := (nw_impl w)\<lparr>ni_connector := c, ni_handle := h, ni_adapter := Some a\<rparr>\<rparr>))"
    using nd_do_open_pair [OF True a assms(3,4)] assms(5) p by simp
  show ?thesis
  proof (cases "is_error e")
    case True
    then show ?thesis using d P assms(3,4) by (simp add: nd_is_open_def)
  next
    case False
    then have "live (nd_drop api c h n) = live (nw_nd w)"
      using P by (auto simp: nd_drop_live [OF law(1)])
    then show ?thesis using False d P by (simp add: nd_is_open_def nd_destroy_def)
  qed
qed

subsection \<open>An example provider\<close>

text \<open>
  A provider that satisfies the laws: addresses from a counter, the objects alive, and the number of
  Disconnect calls. Overlapped calls are pending, except that \<open>CompleteConnect\<close> succeeds at once.
\<close>

record nd_sim =
  ns_next :: ptr
  ns_live :: "ptr list"
  ns_disc :: nat

definition nd_sim_alloc :: "nd_sim \<Rightarrow> int \<times> ptr \<times> nd_sim" where
  "nd_sim_alloc s =
     (if is_closable_handle (ns_next s) \<and> ns_next s \<notin> set (ns_live s)
      then (ND_SUCCESS, ns_next s, s\<lparr>ns_next := ns_next s + 1, ns_live := ns_next s # ns_live s\<rparr>)
      else (- 1, nullptr, s))"

definition nd_sim_free :: "nd_sim \<Rightarrow> ptr \<Rightarrow> nd_sim" where
  "nd_sim_free s p = s\<lparr>ns_live := filter (\<lambda>x. x \<noteq> p) (ns_live s)\<rparr>"

definition nd_sim_api :: "nd_sim nd_api" where
  "nd_sim_api =
     \<lparr>nda_overlapped_file = \<lambda>s a. nd_sim_alloc s, nda_close_handle = nd_sim_free,
      nda_create_connector = \<lambda>s a h. nd_sim_alloc s, nda_create_listener = \<lambda>s a h. nd_sim_alloc s,
      nda_release = nd_sim_free, nda_bind = \<lambda>s c e. (ND_SUCCESS, s), nda_listen = \<lambda>s l b. (ND_SUCCESS, s),
      nda_connect = \<lambda>s c q e i z pd len. (ND_PENDING, s), nda_accept = \<lambda>s c q i z pd len. (ND_PENDING, s),
      nda_complete_connect = \<lambda>s c. (ND_SUCCESS, s),
      nda_disconnect = \<lambda>s c. (ND_PENDING, s\<lparr>ns_disc := Suc (ns_disc s)\<rparr>),
      nda_notify_disconnect = \<lambda>s c. (ND_PENDING, s),
      nda_get_private_data = \<lambda>s c cap. (ND_SUCCESS, [], 0),
      nda_get_connection_request = \<lambda>s l c. (ND_PENDING, s), nda_register_handle = \<lambda>h. no_error\<rparr>"

definition nd_sim_device :: nd_device_service where
  "nd_sim_device = \<lparr>nds_device = Some nd_example_adapter,
     nds_effective_config = default_config, nds_registered = True\<rparr>"

definition nd_sim_world :: "nd_sim nd_world" where
  "nd_sim_world =
     \<lparr>nw_nd = \<lparr>ns_next = 16, ns_live = [], ns_disc = 0\<rparr>, nw_impl = nd_construct, nw_pending = [],
      nw_posted = [], nw_upcalls = [], nw_fault = False\<rparr>"

definition nd_sim_live :: "nd_sim \<Rightarrow> ptr set" where
  "nd_sim_live s = set (ns_live s)"

lemma nd_sim_laws:
  "nd_create_law nd_sim_api" "nd_device_wf nd_sim_device" "nd_wf nd_sim_world"
  "nd_resource_law nd_sim_live nd_sim_api"
proof -
  show "nd_create_law nd_sim_api" "nd_device_wf nd_sim_device" "nd_wf nd_sim_world"
    by (auto simp: nd_create_law_def nd_sim_api_def nd_sim_alloc_def nd_device_wf_def nd_sim_device_def
        nd_wf_def nd_sim_world_def nd_construct_def nd_is_open_def)
  show "nd_resource_law nd_sim_live nd_sim_api"
    by (auto simp: nd_resource_law_def nd_handle_law_def nd_factory_law_def nd_create_connector_def
        nd_sim_api_def nd_sim_alloc_def nd_sim_free_def nd_sim_live_def failed_def is_closable_handle_def)
qed

text \<open>A client connects: the request is pending, ends, and its completion is delivered.\<close>

definition nd_sim_requested :: "nd_sim nd_world" where
  "nd_sim_requested =
     nd_async_connect nd_sim_api nd_sim_device 99 (V4 2, 7000) [1, 2] False 0 7 nd_sim_world"

definition kernel_finishes :: "error_code \<Rightarrow> 'n nd_world \<Rightarrow> 'n nd_world" where
  "kernel_finishes ec w =
     (case nw_pending w of [] \<Rightarrow> w
      | (op, c) # ops \<Rightarrow> w\<lparr>nw_pending := ops, nw_posted := nw_posted w @ [(op, ec)]\<rparr>)"

definition nd_sim_connected :: "nd_sim nd_world" where
  "nd_sim_connected = nd_complete_front nd_sim_api True (kernel_finishes no_error nd_sim_requested)"

definition nd_sim_accepting :: "nd_sim nd_world" where
  "nd_sim_accepting =
     nd_async_accept nd_sim_api nd_sim_device 99 [] 5 (snd (nd_do_open nd_sim_api nd_sim_device nd_sim_world))"

lemma kernel_finishes_run:
  assumes "nd_run api ds w hs w'" and "ec \<noteq> nd_operation_aborted"
  shows "nd_run api ds w hs (kernel_finishes ec w')"
proof (cases "nw_pending w'")
  case Nil
  then show ?thesis using assms by (simp add: kernel_finishes_def)
next
  case (Cons x ops)
  then have "nd_step api ds w' {#} (kernel_finishes ec w')"
    using n_kernel [of w' "[]" "fst x" "snd x" ops ec api ds] assms(2)
    by (simp add: kernel_finishes_def case_prod_beta)
  from run_step [OF assms(1) this] show ?thesis by simp
qed

lemma nd_sim_connected_run: "nd_run nd_sim_api nd_sim_device nd_sim_world {#7#} nd_sim_connected"
proof -
  have "nd_run nd_sim_api nd_sim_device nd_sim_world {#7#} nd_sim_requested"
    unfolding nd_sim_requested_def by (intro run_one n_connect)
  then have "nd_run nd_sim_api nd_sim_device nd_sim_world {#7#} (kernel_finishes no_error nd_sim_requested)"
    by (rule kernel_finishes_run) (simp add: no_error_def)
  from run_step [OF this n_deliver] show ?thesis by (simp add: nd_sim_connected_def)
qed

lemma nd_sim_connected_state:
  "nd_state nd_sim_connected = ns_connected \<and> nd_is_open (nw_impl nd_sim_connected) \<and>
   nw_posted nd_sim_connected = [] \<and> nw_pending nd_sim_connected = []"
  by code_simp

lemma nd_sim_accepting_state:
  "nd_state nd_sim_accepting = ns_connecting \<and> nd_is_open (nw_impl nd_sim_accepting) \<and>
   nw_posted nd_sim_accepting = [] \<and> nw_pending nd_sim_accepting = [(NOp_accept True 5, False)]"
  by code_simp

theorem nd_control_handlers_exactly_once_witness: "nd_invoked nd_sim_connected = {#7#}"
  using nd_control_handlers_exactly_once [OF nd_sim_connected_run nd_sim_laws(2,1,3)] nd_sim_connected_state
  by (simp add: nd_sim_world_def nd_owed_def nd_invoked_def)


theorem nd_refused_connect_strands_connection_witness:
  "nd_disconnect nd_sim_api (nd_complete_front nd_sim_api True
     (nd_async_connect nd_sim_api nd_sim_device 99 (V4 3, 7000) [] False 0 8 nd_sim_connected)) =
   (no_error, nd_complete_front nd_sim_api True
     (nd_async_connect nd_sim_api nd_sim_device 99 (V4 3, 7000) [] False 0 8 nd_sim_connected))"
  using nd_refused_connect_strands_connection [of nd_sim_connected, OF _ _ _ refl] nd_sim_connected_state
  by blast

theorem nd_disconnect_overtaken_witness:
  "nd_state (nd_complete_front nd_sim_api True
     ((snd (nd_disconnect nd_sim_api nd_sim_accepting))
        \<lparr>nw_pending := [], nw_posted := [(NOp_accept True 5, no_error)]\<rparr>)) = ns_connected"
  using nd_disconnect_overtaken [of nd_sim_accepting "NOp_accept True 5", OF _ _ _ _ refl refl, where h = 5]
    nd_sim_accepting_state by simp

theorem nd_closed_is_final_witness:
  "nd_closed_for_good (nd_complete_front nd_sim_api True
     (nd_async_connect nd_sim_api nd_sim_device 99 (V4 3, 7000) [] False 0 8
       (snd (nd_disconnect nd_sim_api nd_sim_connected))))"
proof -
  let ?w = "snd (nd_disconnect nd_sim_api nd_sim_connected)"
  have "nd_run nd_sim_api nd_sim_device ?w {#8#}
      (nd_async_connect nd_sim_api nd_sim_device 99 (V4 3, 7000) [] False 0 8 ?w)"
    by (intro run_one n_connect)
  from run_step [OF this n_deliver]
  have run: "nd_run nd_sim_api nd_sim_device ?w {#8#} (nd_complete_front nd_sim_api True
      (nd_async_connect nd_sim_api nd_sim_device 99 (V4 3, 7000) [] False 0 8 ?w))" by simp
  have "nd_closed_for_good ?w" "nd_is_open (nw_impl ?w)" by code_simp+
  then show ?thesis using nd_closed_is_final [OF run] by blast
qed

theorem nd_open_all_or_nothing_witness:
  "nd_sim_live (nw_nd (nd_destroy nd_sim_api (snd (nd_do_open nd_sim_api nd_sim_device nd_sim_world)))) = {}"
proof -
  have o: "\<not> is_error (fst (nd_do_open nd_sim_api nd_sim_device nd_sim_world))" by code_simp
  show ?thesis
    using nd_open_all_or_nothing [OF nd_sim_laws(4,2), of nd_sim_world, OF _ _ surjective_pairing] o
    by (simp add: nd_sim_world_def nd_construct_def nd_is_open_def nd_sim_live_def)
qed

end
