(* ===== verification/ND_Connector_Service.thy ===== *)
theory ND_Connector_Service
  imports ND_Connector_Run Service_Base
begin

text \<open>
  All connectors of a context on NetworkDirect (\<open>nd/detail/nd_service_connector.hpp\<close>): their implementations at
  addresses, the intrusive list, and the requests of all of them in one completion port. A request keeps the
  address of the implementation whose \<open>connect_state_\<close> or \<open>peer_closed_\<close> it refers to and the overlapped
  handle it was issued on; \<open>nd_connect_op\<close> keeps the raw \<open>IND2Connector\<close> as well. A move hands the handle and
  the connector to another implementation and leaves the requests as they are.

  A call on one connector is the function of \<open>ND_Connector\<close>, run on what that connector sees of the service
  (\<open>nsv_focus\<close>) and put back (\<open>nsv_return\<close>).
\<close>

subsection \<open>State\<close>

record nd_flight =
  fl_impl :: ptr
  fl_handle :: ptr
  fl_op :: nd_op

record 'n nd_conn_service =
  nsv_nd :: 'n
  nsv_list :: impl_list
  nsv_impl :: "ptr \<Rightarrow> nd_connector_impl option"
  nsv_pending :: "(nd_flight \<times> bool) list"
  nsv_posted :: "(nd_flight \<times> error_code) list"
  nsv_upcalls :: "nd_upcall list"
  nsv_fault :: bool
  nsv_dangling :: bool

definition nsv_on :: "ptr \<Rightarrow> 'n nd_conn_service \<Rightarrow> (nd_flight \<times> bool) list" where
  "nsv_on h s = filter (\<lambda>(f, c). fl_handle f = h) (nsv_pending s)"

definition nsv_focus :: "nd_connector_impl \<Rightarrow> 'n nd_conn_service \<Rightarrow> 'n nd_world" where
  "nsv_focus i s =
     \<lparr>nw_nd = nsv_nd s, nw_impl = i, nw_pending = map (\<lambda>(f, c). (fl_op f, c)) (nsv_on (ni_handle i) s),
      nw_posted = [], nw_upcalls = nsv_upcalls s, nw_fault = nsv_fault s\<rparr>"

definition nsv_return ::
  "ptr \<Rightarrow> nd_connector_impl \<Rightarrow> 'n nd_world \<Rightarrow> 'n nd_conn_service \<Rightarrow> 'n nd_conn_service" where
  "nsv_return p i w s =
     (let old = nsv_on (ni_handle i) s;
          fl = (\<lambda>op. \<lparr>fl_impl = p, fl_handle = ni_handle (nw_impl w), fl_op = op\<rparr>)
      in s\<lparr>nsv_nd := nw_nd w, nsv_impl := (nsv_impl s)(p \<mapsto> nw_impl w),
           nsv_pending := filter (\<lambda>(f, c). fl_handle f \<noteq> ni_handle i) (nsv_pending s) @
             zip (map fst old) (map snd (take (length old) (nw_pending w))) @
             map (\<lambda>(op, c). (fl op, c)) (drop (length old) (nw_pending w)),
           nsv_posted := nsv_posted s @ map (\<lambda>(op, ec). (fl op, ec)) (nw_posted w),
           nsv_upcalls := nw_upcalls w, nsv_fault := nw_fault w\<rparr>)"

subsection \<open>The scheduler\<close>

text \<open>
  Which completions use the implementation they point to. \<open>nd_connect_op\<close> and \<open>nd_accept_op\<close> check for an owner
  first; \<open>nd_wait_disconnect_op::do_complete\<close> loads \<open>peer_closed_\<close> before it does.
\<close>

fun nd_touches :: "bool \<Rightarrow> nd_op \<Rightarrow> bool" where
  "nd_touches owner (NOp_connect op) = owner"
| "nd_touches owner (NOp_accept started h) = (owner \<and> started)"
| "nd_touches owner (NOp_wait h) = True"
| "nd_touches owner NOp_disconnect = False"

text \<open>A completion is delivered, or the operation destroyed when there is no owner.\<close>

definition nsv_complete :: "'n nd_api \<Rightarrow> bool \<Rightarrow> 'n nd_conn_service \<Rightarrow> 'n nd_conn_service" where
  "nsv_complete api owner s =
     (case nsv_posted s of
        [] \<Rightarrow> s
      | (f, ec) # rest \<Rightarrow>
          (let i = (case nsv_impl s (fl_impl f) of Some i \<Rightarrow> i | None \<Rightarrow> nd_construct);
               w = nd_complete_front api owner
                 \<lparr>nw_nd = nsv_nd s, nw_impl = i, nw_pending = [], nw_posted = [(fl_op f, ec)],
                  nw_upcalls = nsv_upcalls s, nw_fault = nsv_fault s\<rparr>
           in s\<lparr>nsv_nd := nw_nd w,
                nsv_impl := (case nsv_impl s (fl_impl f) of
                    None \<Rightarrow> nsv_impl s | Some _ \<Rightarrow> (nsv_impl s)(fl_impl f \<mapsto> nw_impl w)),
                nsv_pending := nsv_pending s @ map (\<lambda>(op, c). (f\<lparr>fl_op := op\<rparr>, c)) (nw_pending w),
                nsv_posted := rest, nsv_upcalls := nw_upcalls w, nsv_fault := nw_fault w,
                nsv_dangling := (nsv_dangling s \<or>
                  nd_touches owner (fl_op f) \<and> nsv_impl s (fl_impl f) = None)\<rparr>))"

subsection \<open>Lifecycle\<close>

text \<open>Closing a file cancels the requests on it.\<close>

definition cancel_on :: "ptr \<Rightarrow> (nd_flight \<times> bool) list \<Rightarrow> (nd_flight \<times> bool) list" where
  "cancel_on h = map (\<lambda>(f, c). (f, c \<or> fl_handle f = h))"

definition nsv_reset :: "'n nd_api \<Rightarrow> ptr \<Rightarrow> 'n nd_conn_service \<Rightarrow> 'n nd_conn_service" where
  "nsv_reset api p s =
     (case nsv_impl s p of
        None \<Rightarrow> s
      | Some i \<Rightarrow>
          (let w = nd_destroy api (nsv_focus i s)
           in s\<lparr>nsv_nd := nw_nd w, nsv_impl := (nsv_impl s)(p \<mapsto> nw_impl w),
                nsv_pending := (if is_closable_handle (ni_handle i) then cancel_on (ni_handle i) (nsv_pending s)
                  else nsv_pending s)\<rparr>))"

definition nsv_construct :: "ptr \<Rightarrow> 'n nd_conn_service \<Rightarrow> 'n nd_conn_service" where
  "nsv_construct p s =
     s\<lparr>nsv_list := nd_do_insert p (nsv_list s), nsv_impl := (nsv_impl s)(p \<mapsto> nd_construct)\<rparr>"

definition nsv_destroy :: "'n nd_api \<Rightarrow> ptr \<Rightarrow> 'n nd_conn_service \<Rightarrow> 'n nd_conn_service" where
  "nsv_destroy api p s =
     (let s1 = nsv_reset api p s
      in s1\<lparr>nsv_list := nd_do_remove p (nsv_list s1), nsv_impl := (nsv_impl s1)(p := None)\<rparr>)"

definition nsv_move_construct :: "ptr \<Rightarrow> ptr \<Rightarrow> 'n nd_conn_service \<Rightarrow> 'n nd_conn_service" where
  "nsv_move_construct p q s =
     (case nsv_impl s q of
        None \<Rightarrow> s
      | Some other \<Rightarrow>
          (case nd_move_construct other of
             (i, j) \<Rightarrow> s\<lparr>nsv_list := nd_do_insert p (nsv_list s), nsv_impl := (nsv_impl s)(p \<mapsto> i, q \<mapsto> j)\<rparr>))"

definition nsv_move_assign :: "'n nd_api \<Rightarrow> ptr \<Rightarrow> ptr \<Rightarrow> 'n nd_conn_service \<Rightarrow> 'n nd_conn_service" where
  "nsv_move_assign api p q s =
     (case (nsv_impl s p, nsv_impl s q) of
        (Some i, Some other) \<Rightarrow>
          (case nd_move_assign api other (nsv_focus i s) of
             (w, j) \<Rightarrow>
               (nsv_reset api p s)\<lparr>nsv_list := nd_do_insert p (nd_do_remove p (nsv_list s)),
                 nsv_nd := nw_nd w, nsv_impl := (nsv_impl s)(p \<mapsto> nw_impl w, q \<mapsto> j)\<rparr>)
      | _ \<Rightarrow> s)"

definition nsv_shutdown :: "'n nd_api \<Rightarrow> 'n nd_conn_service \<Rightarrow> 'n nd_conn_service option" where
  "nsv_shutdown api s = nd_base_shutdown (nsv_reset api) (nsv_list s) s"

text \<open>The calls on one connector, with the handlers they take in; the rest is up to the kernel and the scheduler.\<close>

inductive nd_conn_call ::
  "'n nd_api \<Rightarrow> nd_device_service \<Rightarrow> 'n nd_world \<Rightarrow> 'n nd_world \<Rightarrow> bool" for api ds where
  nc_open: "nd_conn_call api ds w (snd (nd_do_open api ds w))"
| nc_connect: "nd_conn_call api ds w (nd_async_connect api ds qp ep request rbuf rcap h w)"
| nc_accept: "nd_conn_call api ds w (nd_async_accept api ds qp pd h w)"
| nc_move_accept: "nd_conn_call api ds w (nd_async_move_accept api ds bind_ec qp pd h w)"
| nc_wait: "nd_conn_call api ds w (nd_async_wait_disconnect api h w)"
| nc_disconnect: "nd_conn_call api ds w (snd (nd_disconnect api w))"
| nc_cancel: "nd_conn_call api ds w (nd_cm_op_cancellation type key w)"

lemma nd_conn_call_step: "nd_conn_call api ds w w' \<Longrightarrow> \<exists>hs. nd_step api ds w hs w'"
  by (induction rule: nd_conn_call.induct) (blast intro: nd_step.intros)+

subsection \<open>What a call does\<close>

text \<open>The calls that create and destroy nothing, beside the laws on handles and connectors.\<close>

definition nd_service_law :: "('n \<Rightarrow> ptr set) \<Rightarrow> 'n nd_api \<Rightarrow> bool" where
  "nd_service_law live api \<longleftrightarrow>
     nd_resource_law live api \<and>
     (\<forall>n c e. live (snd (nda_bind api n c e)) = live n) \<and>
     (\<forall>n c q e i r pd len. live (snd (nda_connect api n c q e i r pd len)) = live n) \<and>
     (\<forall>n c q i r pd len. live (snd (nda_accept api n c q i r pd len)) = live n) \<and>
     (\<forall>n c. live (snd (nda_complete_connect api n c)) = live n) \<and>
     (\<forall>n c. live (snd (nda_disconnect api n c)) = live n) \<and>
     (\<forall>n c. live (snd (nda_notify_disconnect api n c)) = live n)"

lemma nd_service_lawD:
  assumes "nd_service_law live api"
  shows "nd_resource_law live api" "live (snd (nda_bind api n c e)) = live n"
    "live (snd (nda_connect api n c q e i r pd len)) = live n" "live (snd (nda_accept api n c q i r pd len)) = live n"
    "live (snd (nda_complete_connect api n c)) = live n" "live (snd (nda_disconnect api n c)) = live n"
    "live (snd (nda_notify_disconnect api n c)) = live n"
proof -
  note L = assms [unfolded nd_service_law_def]
  show "nd_resource_law live api" using L by (elim conjE)
  show "live (snd (nda_bind api n c e)) = live n" using L by (cases e) (elim conjE, simp)
  show "live (snd (nda_connect api n c q e i r pd len)) = live n" using L by (cases e) (elim conjE, simp)
  show "live (snd (nda_accept api n c q i r pd len)) = live n" using L by (elim conjE) simp
  show "live (snd (nda_complete_connect api n c)) = live n" using L by (elim conjE) simp
  show "live (snd (nda_disconnect api n c)) = live n" using L by (elim conjE) simp
  show "live (snd (nda_notify_disconnect api n c)) = live n" using L by (elim conjE) simp
qed

lemma nd_overlapped_live: "live (snd (snd (nd_overlapped r))) = live (snd r)"
  by (simp add: nd_overlapped_def split: prod.split)

lemma nd_calls_live:
  assumes "nd_service_law live api"
  shows "nd_bind_addr api c e n = (hr, ec, n') \<Longrightarrow> live n' = live n"
    "nd_connect api c q e i r pd len n = (hr, ec, n') \<Longrightarrow> live n' = live n"
    "nd_accept api c q i r pd len n = (hr, ec, n') \<Longrightarrow> live n' = live n"
    "nd_disconnect_call api c n = (hr, ec, n') \<Longrightarrow> live n' = live n"
    "nd_notify_disconnect api c n = (hr, ec, n') \<Longrightarrow> live n' = live n"
proof -
  note L = nd_service_lawD [OF assms]
  show "nd_bind_addr api c e n = (hr, ec, n') \<Longrightarrow> live n' = live n"
    using L(2) [of n c e] by (auto simp: nd_bind_addr_def split: prod.splits)
  show "nd_connect api c q e i r pd len n = (hr, ec, n') \<Longrightarrow> live n' = live n"
    using L(3) [of n c q e i r pd len] nd_overlapped_live [of live "nda_connect api n c q e i r pd len"]
    by (simp add: nd_connect_def)
  show "nd_accept api c q i r pd len n = (hr, ec, n') \<Longrightarrow> live n' = live n"
    using L(4) [of n c q i r pd len] nd_overlapped_live [of live "nda_accept api n c q i r pd len"]
    by (simp add: nd_accept_def)
  show "nd_disconnect_call api c n = (hr, ec, n') \<Longrightarrow> live n' = live n"
    using L(6) [of n c] nd_overlapped_live [of live "nda_disconnect api n c"] by (simp add: nd_disconnect_call_def)
  show "nd_notify_disconnect api c n = (hr, ec, n') \<Longrightarrow> live n' = live n"
    using L(7) [of n c] nd_overlapped_live [of live "nda_notify_disconnect api n c"]
    by (simp add: nd_notify_disconnect_def)
qed

definition nd_impl_objs :: "nd_connector_impl \<Rightarrow> ptr multiset" where
  "nd_impl_objs i = pair_objs (ni_connector i) (ni_handle i)"

text \<open>
  What the requests a call adds are like: a connect that may go on works on the connector of the implementation.
\<close>

definition nd_flies :: "nd_connector_impl \<Rightarrow> nd_op \<Rightarrow> bool" where
  "nd_flies i op \<longleftrightarrow>
     (case op of NOp_connect o' \<Rightarrow> no_connector o' = ni_connector i \<and> nd_is_open i | _ \<Rightarrow> True)"

definition nd_grows :: "'n nd_world \<Rightarrow> 'n nd_world \<Rightarrow> bool" where
  "nd_grows w w' \<longleftrightarrow>
     (\<exists>new posts. map fst (nw_pending w') = map fst (nw_pending w) @ new \<and> nw_posted w' = nw_posted w @ posts \<and>
        (\<forall>op\<in>set new. nd_flies (nw_impl w') op) \<and>
        (\<forall>(op, ec)\<in>set posts. is_error ec \<or> nd_flies (nw_impl w') op)) \<and>
     (nd_is_open (nw_impl w) \<longrightarrow> ni_connector (nw_impl w') = ni_connector (nw_impl w))"

definition nd_balanced :: "('n \<Rightarrow> ptr set) \<Rightarrow> 'n nd_world \<Rightarrow> 'n nd_world \<Rightarrow> bool" where
  "nd_balanced live w w' \<longleftrightarrow>
     (finite (live (nw_nd w)) \<longrightarrow> finite (live (nw_nd w')) \<and>
        mset_set (live (nw_nd w')) + nd_impl_objs (nw_impl w) =
        mset_set (live (nw_nd w)) + nd_impl_objs (nw_impl w')) \<and>
     (\<not> nd_is_open (nw_impl w') \<longrightarrow> ni_handle (nw_impl w') = nullptr)"

text \<open>The same connector and handle.\<close>

definition nd_same_ids :: "nd_connector_impl \<Rightarrow> nd_connector_impl \<Rightarrow> bool" where
  "nd_same_ids i j \<longleftrightarrow> ni_connector i = ni_connector j \<and> ni_handle i = ni_handle j"

lemma nd_same_ids_simps [simp]:
  "nd_same_ids i i" "nd_same_ids (i\<lparr>ni_state := st\<rparr>) i" "nd_same_ids (i\<lparr>ni_peer_closed := b\<rparr>) i"
  "nd_same_ids (i\<lparr>ni_state := st, ni_peer_closed := b\<rparr>) i"
  by (simp_all add: nd_same_ids_def)

lemma nd_same_idsD:
  "nd_same_ids i j \<Longrightarrow> nd_impl_objs i = nd_impl_objs j"
  "nd_same_ids i j \<Longrightarrow> nd_flies i op = nd_flies j op"
  "nd_same_ids i j \<Longrightarrow> nd_is_open i = nd_is_open j"
  by (simp_all add: nd_same_ids_def nd_impl_objs_def nd_flies_def nd_is_open_def split: nd_op.split)

lemma nd_balanced_same:
  assumes "nd_same_ids (nw_impl w') (nw_impl w)" and "live (nw_nd w') = live (nw_nd w)"
    and "\<not> nd_is_open (nw_impl w) \<longrightarrow> ni_handle (nw_impl w) = nullptr"
  shows "nd_balanced live w w'"
  using assms nd_same_idsD(1,3) [OF assms(1)] by (auto simp: nd_balanced_def nd_same_ids_def)

lemma nd_balanced_trans:
  assumes "nd_balanced live w w1" and "nd_balanced live w1 w2"
  shows "nd_balanced live w w2"
proof -
  have "mset_set (live (nw_nd w2)) + nd_impl_objs (nw_impl w) = mset_set (live (nw_nd w)) + nd_impl_objs (nw_impl w2)"
    if "finite (live (nw_nd w))"
  proof -
    have 1: "finite (live (nw_nd w1))" "mset_set (live (nw_nd w1)) + nd_impl_objs (nw_impl w) =
        mset_set (live (nw_nd w)) + nd_impl_objs (nw_impl w1)"
      using assms(1) that by (simp_all add: nd_balanced_def)
    then have 2: "mset_set (live (nw_nd w2)) + nd_impl_objs (nw_impl w1) =
        mset_set (live (nw_nd w1)) + nd_impl_objs (nw_impl w2)"
      using assms(2) by (simp add: nd_balanced_def)
    have "mset_set (live (nw_nd w2)) + nd_impl_objs (nw_impl w) + nd_impl_objs (nw_impl w1) =
        mset_set (live (nw_nd w)) + nd_impl_objs (nw_impl w2) + nd_impl_objs (nw_impl w1)"
      using arg_cong [OF 1(2), of "\<lambda>x. x + nd_impl_objs (nw_impl w2)"]
        arg_cong [OF 2, of "\<lambda>x. x + nd_impl_objs (nw_impl w)"] by (simp add: ac_simps)
    then show ?thesis by simp
  qed
  then show ?thesis using assms by (auto simp: nd_balanced_def)
qed

lemma nd_grows_refl [simp]: "nd_grows w w"
  by (simp add: nd_grows_def)

lemma nd_grows_trans:
  assumes "nd_grows w w1" and "nd_grows w1 w2"
  shows "nd_grows w w2"
proof -
  obtain n1 p1 where 1: "map fst (nw_pending w1) = map fst (nw_pending w) @ n1" "nw_posted w1 = nw_posted w @ p1"
    "\<forall>op\<in>set n1. nd_flies (nw_impl w1) op" "\<forall>(op, ec)\<in>set p1. is_error ec \<or> nd_flies (nw_impl w1) op"
    "nd_is_open (nw_impl w) \<longrightarrow> ni_connector (nw_impl w1) = ni_connector (nw_impl w)"
    using assms(1) unfolding nd_grows_def by blast
  obtain n2 p2 where 2: "map fst (nw_pending w2) = map fst (nw_pending w1) @ n2" "nw_posted w2 = nw_posted w1 @ p2"
    "\<forall>op\<in>set n2. nd_flies (nw_impl w2) op" "\<forall>(op, ec)\<in>set p2. is_error ec \<or> nd_flies (nw_impl w2) op"
    "nd_is_open (nw_impl w1) \<longrightarrow> ni_connector (nw_impl w2) = ni_connector (nw_impl w1)"
    using assms(2) unfolding nd_grows_def by blast
  have keep: "nd_flies (nw_impl w1) op \<Longrightarrow> nd_flies (nw_impl w2) op" for op
    using 2(5) by (auto simp: nd_flies_def nd_is_open_def split: nd_op.split)
  have "nd_is_open (nw_impl w) \<longrightarrow> ni_connector (nw_impl w2) = ni_connector (nw_impl w)"
    using 1(5) 2(5) by (auto simp: nd_is_open_def)
  moreover have "\<forall>op\<in>set (n1 @ n2). nd_flies (nw_impl w2) op"
    "\<forall>(op, ec)\<in>set (p1 @ p2). is_error ec \<or> nd_flies (nw_impl w2) op"
    using 1(3,4) 2(3,4) keep by auto
  ultimately show ?thesis
    unfolding nd_grows_def
    by (intro conjI exI [of _ "n1 @ n2"] exI [of _ "p1 @ p2"]) (use 1(1,2) 2(1,2) in simp_all)
qed

text \<open>The ways a call ends: nothing added, one completion posted, one request left pending.\<close>

definition nd_like :: "'n nd_world \<Rightarrow> 'n nd_world \<Rightarrow> bool" where
  "nd_like w w1 \<longleftrightarrow> map fst (nw_pending w1) = map fst (nw_pending w) \<and> nw_posted w1 = nw_posted w \<and>
     nd_same_ids (nw_impl w1) (nw_impl w)"

lemma nd_grows_like:
  assumes "nd_like w w1"
  shows "nd_grows w w1" "is_error ec \<or> nd_flies (nw_impl w) op \<Longrightarrow> nd_grows w (on_completion op ec w1)"
    "nd_flies (nw_impl w) op \<Longrightarrow> nd_grows w (on_pending op w1)"
proof -
  have s: "nd_same_ids (nw_impl w1) (nw_impl w)" and e: "map fst (nw_pending w1) = map fst (nw_pending w)"
    "nw_posted w1 = nw_posted w" using assms by (simp_all add: nd_like_def)
  have c: "ni_connector (nw_impl w1) = ni_connector (nw_impl w)" using s by (simp add: nd_same_ids_def)
  show "nd_grows w w1" using c e by (simp add: nd_grows_def)
  show "nd_grows w (on_completion op ec w1)" if "is_error ec \<or> nd_flies (nw_impl w) op"
    using c e that nd_same_idsD(2) [OF s] by (simp add: nd_grows_def on_completion_def)
  show "nd_grows w (on_pending op w1)" if "nd_flies (nw_impl w) op"
    using c e that nd_same_idsD(2) [OF s] by (simp add: nd_grows_def on_pending_def)
qed

lemma nd_like_simps [simp]:
  "nd_like w w" "nd_like w (w\<lparr>nw_nd := n\<rparr>)" "nd_like w (nd_set_state st w)" "nd_like w ((nd_set_state st w)\<lparr>nw_nd := n\<rparr>)"
  "nd_like w (cancel_io_all w)" "nd_like w (nd_cm_op_cancellation type key w)"
  by (simp_all add: nd_like_def cancel_io_all_def nd_cm_op_cancellation_def comp_def case_prod_beta)

lemma nd_post_sel [simp]:
  "nw_nd (on_completion op ec w) = nw_nd w" "nw_nd (on_pending op w) = nw_nd w"
  "nw_nd (cancel_io_all w) = nw_nd w" "nw_nd (nd_cm_op_cancellation type key w) = nw_nd w"
  "nw_impl (nd_cm_op_cancellation type key w) = nw_impl w"
  "nw_upcalls (on_completion op ec w) = nw_upcalls w" "nw_upcalls (on_pending op w) = nw_upcalls w"
  "nw_upcalls (cancel_io_all w) = nw_upcalls w" "nw_upcalls (nd_cm_op_cancellation type key w) = nw_upcalls w"
  by (simp_all add: on_completion_def on_pending_def cancel_io_all_def nd_cm_op_cancellation_def)

lemma nd_flies_simps [simp]:
  "nd_flies i (NOp_accept b h)" "nd_flies i (NOp_wait h)" "nd_flies i NOp_disconnect"
  "nd_flies i (NOp_connect op) \<longleftrightarrow> no_connector op = ni_connector i \<and> nd_is_open i"
  by (simp_all add: nd_flies_def)

lemma nd_is_open_update [simp]:
  "nd_is_open (i\<lparr>ni_state := st\<rparr>) = nd_is_open i" "nd_is_open (i\<lparr>ni_peer_closed := b\<rparr>) = nd_is_open i"
  "nd_is_open (i\<lparr>ni_state := st, ni_peer_closed := b\<rparr>) = nd_is_open i"
  by (simp_all add: nd_is_open_def)

abbreviation nd_closed_handle :: "'n nd_world \<Rightarrow> bool" where
  "nd_closed_handle w \<equiv> \<not> nd_is_open (nw_impl w) \<longrightarrow> ni_handle (nw_impl w) = nullptr"

lemma nd_do_open_call:
  assumes law: "nd_service_law live api" and ds: "nd_device_wf ds" and h: "nd_closed_handle w"
    and r: "nd_do_open api ds w = (ec, w')"
  shows "nd_grows w w' \<and> nd_balanced live w w' \<and> nw_upcalls w' = nw_upcalls w \<and>
    (\<not> is_error ec \<longrightarrow> nd_is_open (nw_impl w'))"
proof (cases "nd_is_open (nw_impl w) \<or> \<not> nds_registered ds")
  case True
  then have "w' = w" "is_error ec" using r by (auto simp: nd_do_open_def split: if_splits)
  then show ?thesis using h nd_balanced_same [of w w live] by simp
next
  case False
  then obtain a where a: "nds_device ds = Some a" using ds by (auto simp: nd_device_wf_def)
  have o: "\<not> nd_is_open (nw_impl w)" "nds_registered ds" "ni_handle (nw_impl w) = nullptr" using False h by simp_all
  obtain e c hd n where p: "nd_open_pair api (nd_create_connector api (na_adapter a)) (na_adapter a) (nw_nd w) = (e, c, hd, n)"
    by (metis prod_cases4)
  have R: "nd_handle_law live api" "nd_factory_law live (nd_create_connector api (na_adapter a))"
    using nd_service_lawD(1) [OF law] by (simp_all add: nd_resource_law_def)
  note P = nd_open_pair_objs [OF R p]
  have d: "(ec, w') = (if is_error e
      then (e, w\<lparr>nw_nd := n, nw_impl := (nw_impl w)\<lparr>ni_connector := c, ni_handle := nullptr\<rparr>\<rparr>)
      else (e, w\<lparr>nw_nd := n,
        nw_impl := (nw_impl w)\<lparr>ni_connector := c, ni_handle := hd, ni_adapter := Some a\<rparr>\<rparr>))"
    using nd_do_open_pair [OF o(2) a o(1,3)] r p by simp
  have z: "nd_impl_objs (nw_impl w) = {#}" using o by (simp add: nd_impl_objs_def nd_is_open_def)
  have g: "nd_grows w w'" using d o(1) by (auto simp: nd_grows_def split: if_splits)
  note V = nd_open_pair_live [OF R p]
  show ?thesis
  proof (cases "is_error e")
    case True
    then have "c = nullptr" "live n = live (nw_nd w)" using V by simp_all
    moreover from this(1) have "w' = w\<lparr>nw_nd := n, nw_impl := (nw_impl w)\<lparr>ni_connector := nullptr, ni_handle := nullptr\<rparr>\<rparr>"
      "ec = e" using d True by simp_all
    ultimately show ?thesis using g True z by (simp add: nd_balanced_def nd_impl_objs_def nd_is_open_def)
  next
    case False
    then have "w' = w\<lparr>nw_nd := n, nw_impl := (nw_impl w)\<lparr>ni_connector := c, ni_handle := hd, ni_adapter := Some a\<rparr>\<rparr>"
      "ec = e" using d by simp_all
    moreover have "c \<noteq> nullptr" using V False by simp
    ultimately show ?thesis using g z P by (simp add: nd_balanced_def nd_impl_objs_def nd_is_open_def)
  qed
qed

lemma nd_start_connect_op_call:
  assumes law: "nd_service_law live api" and o: "nd_is_open (nw_impl w)"
    and op: "no_connector op = ni_connector (nw_impl w)" and a: "ni_adapter (nw_impl w) = Some a"
    and r: "w' = nd_start_connect_op api ds qp ep pd op w"
  shows "nd_grows w w' \<and> nd_balanced live w w' \<and> nw_upcalls w' = nw_upcalls w"
proof -
  have f: "nd_flies (nw_impl w) (NOp_connect op)" using o op by simp
  note L = nd_grows_like [OF nd_like_simps(4)] and B = nd_calls_live(1,2) [OF law]
  show ?thesis
  proof (cases "nd_state w \<noteq> ns_idle")
    case True
    then have "w' = on_completion (NOp_connect op) nd_operation_aborted w"
      by (simp add: r nd_start_connect_op_def)
    moreover have "nd_grows w (on_completion (NOp_connect op) nd_operation_aborted w)"
      by (rule nd_grows_like(2) [OF nd_like_simps(1)]) simp
    ultimately show ?thesis using o by (simp add: nd_balanced_same)
  next
    case idle: False
    let ?w = "nd_set_state ns_connecting w"
    show ?thesis
    proof (cases "case fst ep of V4 _ \<Rightarrow> get_v4_address_nd a | V6 _ \<Rightarrow> get_v6_address_nd a")
      case (Inl ec)
      then have "w' = on_completion (NOp_connect op) ec ?w"
        using idle a by (simp add: r nd_start_connect_op_def)
      then show ?thesis
        using o f by (simp add: nd_balanced_same nd_grows_like(2) [OF nd_like_simps(3)])
    next
      case (Inr addr)
      obtain hr1 e1 n1 where b: "nd_bind_addr api (ni_connector (nw_impl w)) (addr, 0) (nw_nd w) = (hr1, e1, n1)"
        by (metis prod_cases3)
      obtain hr2 e2 n2 where c: "nd_connect api (ni_connector (nw_impl w)) qp ep (inbound_read_limit (nd_effective_config ds))
          (outbound_read_limit (nd_effective_config ds)) (private_ptr pd) (of_nat (length pd)) n1 = (hr2, e2, n2)"
        by (metis prod_cases3)
      have l: "live n1 = live (nw_nd w)" "live n2 = live n1" by (rule B(1) [OF b], rule B(2) [OF c])
      have "w' = (if is_error e1 then on_completion (NOp_connect op) e1 (?w\<lparr>nw_nd := n1\<rparr>)
          else if is_error e2 \<or> hr2 \<noteq> ND_PENDING then on_completion (NOp_connect op) e2 (?w\<lparr>nw_nd := n2\<rparr>)
          else on_pending (NOp_connect op) (?w\<lparr>nw_nd := n2\<rparr>))"
        using idle a Inr b c by (simp add: r nd_start_connect_op_def Let_def)
      then show ?thesis
        using o f l by (simp add: nd_balanced_same L)
    qed
  qed
qed

lemma nd_async_connect_call:
  assumes law: "nd_service_law live api" and ds: "nd_device_wf ds" and h: "nd_closed_handle w"
    and wf: "nd_wf w" "nd_create_law api" and r: "w' = nd_async_connect api ds qp ep request rbuf rcap k w"
  shows "nd_grows w w' \<and> nd_balanced live w w' \<and> nw_upcalls w' = nw_upcalls w"
proof -
  obtain e w1 where o: "(if nd_is_open (nw_impl w) then (no_error, w) else nd_do_open api ds w) = (e, w1)" by fastforce
  have 1: "nd_grows w w1 \<and> nd_balanced live w w1 \<and> nw_upcalls w1 = nw_upcalls w \<and>
      (\<not> is_error e \<longrightarrow> nd_is_open (nw_impl w1))"
  proof (cases "nd_is_open (nw_impl w)")
    case True
    then show ?thesis using o h nd_balanced_same [of w w live] by simp
  next
    case False
    then show ?thesis using o nd_do_open_call [OF law ds h] by simp
  qed
  have wf1: "nd_wf w1" "\<not> is_error e \<Longrightarrow> ni_adapter (nw_impl w1) \<noteq> None"
    using o wf nd_do_open_keeps(2) [OF ds wf(2,1)] 1 by (auto simp: nd_wf_def split: if_splits)
  let ?op = "nd_connect_op_new (ni_connector (nw_impl w1)) rbuf rcap k"
  have "nd_grows w1 w' \<and> nd_balanced live w1 w' \<and> nw_upcalls w' = nw_upcalls w1"
  proof (cases "is_error e \<or> length request > 255 \<or> nd_state w1 \<noteq> ns_idle \<or> qp = nullptr")
    case True
    then obtain e' where e: "w' = on_completion (NOp_connect ?op) e' w1" "is_error e'"
      using o r that by (simp add: nd_async_connect_def Let_def split: if_splits)
    have c1: "nd_closed_handle w1" using 1 by (simp add: nd_balanced_def)
    show ?thesis
      unfolding e(1) using nd_grows_like(2) [OF nd_like_simps(1), of e' w1 "NOp_connect ?op"] e(2) c1
      by (simp add: nd_balanced_same)
  next
    case False
    then have run: "w' = nd_start_connect_op api ds qp ep request ?op w1"
      using o r by (simp add: nd_async_connect_def Let_def)
    obtain a where "ni_adapter (nw_impl w1) = Some a" using wf1(2) False by auto
    then show ?thesis
      using nd_start_connect_op_call [OF law _ _ _ run] 1 False by (simp add: nd_connect_op_new_def)
  qed
  then show ?thesis using 1 nd_grows_trans nd_balanced_trans by (metis (no_types))
qed

lemma nd_accept_call:
  assumes law: "nd_service_law live api" and h: "nd_closed_handle w"
  shows "nd_grows w (nd_start_accept_op api ds qp pd k w) \<and>
      nd_balanced live w (nd_start_accept_op api ds qp pd k w) \<and>
      nw_upcalls (nd_start_accept_op api ds qp pd k w) = nw_upcalls w"
    (is "?P (nd_start_accept_op api ds qp pd k w)")
proof (cases "nd_state w \<noteq> ns_idle")
  case True
  then show ?thesis
    using h by (simp add: nd_start_accept_op_def nd_balanced_same nd_grows_like(2) [OF nd_like_simps(1)])
next
  case False
  let ?w = "nd_set_state ns_connecting w"
  obtain hr e n where c: "nd_accept api (ni_connector (nw_impl w)) qp (inbound_read_limit (nd_effective_config ds))
      (outbound_read_limit (nd_effective_config ds)) (private_ptr pd) (of_nat (length pd)) (nw_nd w) = (hr, e, n)"
    by (metis prod_cases3)
  have l: "live n = live (nw_nd w)" by (rule nd_calls_live(3) [OF law c])
  have "nd_start_accept_op api ds qp pd k w =
      (if is_error e \<or> hr \<noteq> ND_PENDING then on_completion (NOp_accept True k) e (?w\<lparr>nw_nd := n\<rparr>)
       else on_pending (NOp_accept True k) (?w\<lparr>nw_nd := n\<rparr>))"
    using False c by (simp add: nd_start_accept_op_def Let_def)
  then show ?thesis
    using h l by (simp add: nd_balanced_same nd_grows_like [OF nd_like_simps(4)])
qed

lemma nd_post_call:
  assumes "nd_closed_handle w" and "is_error ec \<or> nd_flies (nw_impl w) op"
  shows "nd_grows w (on_completion op ec w) \<and> nd_balanced live w (on_completion op ec w) \<and>
    nw_upcalls (on_completion op ec w) = nw_upcalls w"
  using assms nd_grows_like(2) [OF nd_like_simps(1) assms(2)] by (simp add: nd_balanced_same)

lemma nd_wait_call:
  assumes law: "nd_service_law live api" and h: "nd_closed_handle w"
    and r: "w' = nd_async_wait_disconnect api k w"
  shows "nd_grows w w' \<and> nd_balanced live w w' \<and> nw_upcalls w' = nw_upcalls w"
proof (cases "ni_peer_closed (nw_impl w) \<or> nd_state w = ns_closed \<or> \<not> nd_is_open (nw_impl w)")
  case True
  then obtain e where "w' = on_completion (NOp_wait k) e w"
    using r that by (simp add: nd_async_wait_disconnect_def split: if_splits)
  then show ?thesis using nd_post_call [OF h] by simp
next
  case False
  obtain hr e n where c: "nd_notify_disconnect api (ni_connector (nw_impl w)) (nw_nd w) = (hr, e, n)" by (metis prod_cases3)
  have l: "live n = live (nw_nd w)" by (rule nd_calls_live(5) [OF law c])
  have "w' = (if \<not> is_error e \<and> hr = ND_PENDING then on_pending (NOp_wait k) (w\<lparr>nw_nd := n\<rparr>)
      else on_completion (NOp_wait k) e (w\<lparr>nw_nd := n\<rparr>))"
    using False c r by (simp add: nd_async_wait_disconnect_def)
  then show ?thesis using h l by (simp add: nd_balanced_same nd_grows_like [OF nd_like_simps(2)])
qed

lemma nd_disconnect_service_call:
  assumes law: "nd_service_law live api" and h: "nd_closed_handle w" and r: "w' = snd (nd_disconnect api w)"
  shows "nd_grows w w' \<and> nd_balanced live w w' \<and> nw_upcalls w' = nw_upcalls w"
proof (cases "\<not> nd_is_open (nw_impl w) \<or> nd_state w = ns_closed")
  case True
  then have "w' = w" using r by (auto simp: nd_disconnect_def)
  then show ?thesis using h nd_balanced_same [of w w live] by simp
next
  case False
  let ?w = "w\<lparr>nw_impl := (nw_impl w)\<lparr>ni_state := ns_closed, ni_peer_closed := True\<rparr>\<rparr>"
  obtain hr e n where c: "nd_disconnect_call api (ni_connector (nw_impl w)) (nw_nd w) = (hr, e, n)" by (metis prod_cases3)
  have l: "live n = live (nw_nd w)" by (rule nd_calls_live(4) [OF law c])
  have like: "nd_like w ?w" "nd_like w (cancel_io_all ?w)" "nd_like w ((cancel_io_all ?w)\<lparr>nw_nd := n\<rparr>)"
    by (simp_all add: nd_like_def cancel_io_all_def comp_def case_prod_beta)
  have "w' = (case nd_state w of
      ns_connecting \<Rightarrow> cancel_io_all ?w
    | ns_connected \<Rightarrow> if \<not> is_error e \<and> hr = ND_PENDING then on_pending NOp_disconnect ((cancel_io_all ?w)\<lparr>nw_nd := n\<rparr>)
        else on_completion NOp_disconnect e ((cancel_io_all ?w)\<lparr>nw_nd := n\<rparr>)
    | _ \<Rightarrow> ?w)"
    using False r c by (simp add: nd_disconnect_def Let_def split: nd_connect_state.split)
  moreover have "nd_balanced live w ?w" "nd_balanced live w (cancel_io_all ?w)"
    "nd_balanced live w (on_pending NOp_disconnect ((cancel_io_all ?w)\<lparr>nw_nd := n\<rparr>))"
    "nd_balanced live w (on_completion NOp_disconnect e ((cancel_io_all ?w)\<lparr>nw_nd := n\<rparr>))"
    using False l by (simp_all add: nd_balanced_same)
  ultimately show ?thesis
    by (simp add: nd_grows_like(1) [OF like(1)] nd_grows_like(1) [OF like(2)] nd_grows_like(2,3) [OF like(3)]
        split: nd_connect_state.split)
qed

text \<open>Every call.\<close>

lemma nd_conn_call_effect:
  assumes law: "nd_service_law live api" and ds: "nd_device_wf ds" and h: "nd_closed_handle w"
    and wf: "nd_wf w" "nd_create_law api" and r: "nd_conn_call api ds w w'"
  shows "nd_grows w w' \<and> nd_balanced live w w' \<and> nw_upcalls w' = nw_upcalls w \<and> nd_wf w'"
proof -
  have "nd_wf w'" using nd_conn_call_step [OF r] nd_step_keeps [OF ds wf(2) _ wf(1)] by blast
  moreover have "nd_grows w w' \<and> nd_balanced live w w' \<and> nw_upcalls w' = nw_upcalls w"
    using r h wf(1)
  proof (induction rule: nd_conn_call.induct)
    case (nc_open w)
    then show ?case using nd_do_open_call [OF law ds nc_open(1) prod.collapse [symmetric]] by blast
  next
    case (nc_connect w qp ep request rbuf rcap k)
    then show ?case using nd_async_connect_call [OF law ds nc_connect(1,2) wf(2) refl] by blast
  next
    case (nc_accept w qp pd k)
    then show ?case
      by (simp add: nd_async_accept_def nd_accept_call [OF law] nd_post_call split: option.split)
  next
    case (nc_move_accept w bind_ec qp pd k)
    then show ?case
      by (simp add: nd_async_move_accept_def nd_accept_call [OF law] nd_post_call split: option.split)
  next
    case (nc_wait w k)
    then show ?case using nd_wait_call [OF law nc_wait(1) refl] by blast
  next
    case (nc_disconnect w)
    then show ?case using nd_disconnect_service_call [OF law nc_disconnect(1) refl] by blast
  next
    case (nc_cancel w type key)
    then show ?case by (simp add: nd_balanced_same nd_grows_like(1) [OF nd_like_simps(6)])
  qed
  ultimately show ?thesis by blast
qed

text \<open>A completion changes no connector or handle; a connect that goes on keeps its connector.\<close>

lemma nd_complete_front_effect:
  assumes law: "nd_service_law live api" and w: "nw_pending w = []" "nw_posted w = [(op, ec)]"
    and r: "w' = nd_complete_front api owner w"
  shows "live (nw_nd w') = live (nw_nd w) \<and> nd_same_ids (nw_impl w') (nw_impl w) \<and>
    ni_adapter (nw_impl w') = ni_adapter (nw_impl w) \<and> nw_fault w' = nw_fault w \<and>
    (nw_pending w' = [] \<or>
     (\<exists>a b. op = NOp_connect a \<and> \<not> is_error ec \<and> nw_pending w' = [(NOp_connect b, False)] \<and>
        no_connector b = no_connector a))"
proof (cases op)
  case (NOp_connect a)
  obtain res st n where c: "nd_connect_do_complete api owner ec a (nd_state w) (nw_nd w) = (res, st, n)" by (metis prod_cases3)
  have cc: "live n' = live n0" if "nda_complete_connect api n0 x = (hr, n')" for n0 x hr n'
    using nd_service_lawD(5) [OF law, of n0 x] that by simp
  have cap: "no_connector (capture_remote_pd api m o') = no_connector o'" for m o'
    by (simp add: capture_remote_pd_def split: prod.split)
  have "live n = live (nw_nd w) \<and> (\<forall>b. res = Inl b \<longrightarrow> no_connector b = no_connector a \<and> \<not> is_error ec)"
    using c cc cap
    by (auto simp: nd_connect_do_complete_def resume_process_def nd_connect_do_process_def
        process_complete_connect_def mark_connected_def Let_def
        split: if_splits prod.splits nd_stage.splits)
  then show ?thesis
    using c w NOp_connect by (cases res) (simp_all add: r nd_complete_front_def Let_def on_pending_def)
qed (use w in \<open>simp_all add: r nd_complete_front_def case_prod_beta\<close>)

end
