(* ===== verification/ND_Connector_Lifecycle.thy ===== *)
theory ND_Connector_Lifecycle
  imports ND_Connector_Service
begin

text \<open>
  Runs of the NetworkDirect connector service: connectors are constructed, called, moved (with requests in
  flight or not) and destroyed, the kernel finishes requests, the scheduler delivers or destroys them, and the rest of the
  program uses the provider as well. \<open>X\<close> are the objects of that rest.
\<close>

subsection \<open>Who owns what\<close>

definition impl_sum :: "(ptr \<Rightarrow> nd_connector_impl option) \<Rightarrow> ptr multiset" where
  "impl_sum m = (\<Sum>p\<in>dom m. nd_impl_objs (the (m p)))"

lemma impl_sum_update:
  assumes "finite (dom m)"
  shows "impl_sum (m(p \<mapsto> i)) + (case m p of None \<Rightarrow> {#} | Some j \<Rightarrow> nd_impl_objs j) = impl_sum m + nd_impl_objs i"
proof -
  have rest: "(\<Sum>q\<in>dom m - {p}. nd_impl_objs (the ((m(p \<mapsto> i)) q))) = (\<Sum>q\<in>dom m - {p}. nd_impl_objs (the (m q)))"
    by (rule sum.cong) simp_all
  have "impl_sum (m(p \<mapsto> i)) = nd_impl_objs i + (\<Sum>q\<in>dom m - {p}. nd_impl_objs (the (m q)))"
    using assms rest by (simp add: impl_sum_def sum.insert_remove)
  moreover have "impl_sum m = (case m p of None \<Rightarrow> {#} | Some j \<Rightarrow> nd_impl_objs j) +
      (\<Sum>q\<in>dom m - {p}. nd_impl_objs (the (m q)))"
    using assms by (cases "m p") (auto simp: impl_sum_def sum.remove [of "dom m" p] domIff)
  ultimately show ?thesis by (simp add: ac_simps)
qed

lemma impl_sum_remove:
  assumes "finite (dom m)" and "m p = Some j"
  shows "impl_sum (m(p := None)) + nd_impl_objs j = impl_sum m"
proof -
  have "(\<Sum>q\<in>dom m - {p}. nd_impl_objs (the ((m(p := None)) q))) = (\<Sum>q\<in>dom m - {p}. nd_impl_objs (the (m q)))"
    by (rule sum.cong) simp_all
  then show ?thesis using assms by (simp add: impl_sum_def sum.remove [of "dom m" p] domIff ac_simps)
qed

subsection \<open>The invariant\<close>

definition nsv_held :: "(ptr \<Rightarrow> nd_connector_impl option) \<Rightarrow> ptr \<Rightarrow> bool" where
  "nsv_held m c \<longleftrightarrow> (\<exists>q i. m q = Some i \<and> nd_is_open i \<and> ni_connector i = c)"

text \<open>
  What a program did, kept beside the state of a run, when it matters for the pointers in requests: it destroyed an
  implementation that a request in flight may store into, it released a connector, by destroying it or by moving another
  over it, while a connect may still go on with it.
\<close>

datatype nd_misuse = ND_destroyed_in_flight | ND_released_connecting

text \<open>Until then what a request refers to exists: the implementation it may store into, the connector it may go on with.\<close>

definition flight_ok :: "nd_misuse set \<Rightarrow> (ptr \<Rightarrow> nd_connector_impl option) \<Rightarrow> nd_flight \<Rightarrow> bool" where
  "flight_ok M m f \<longleftrightarrow> ND_destroyed_in_flight \<in> M \<or> (nd_touches True (fl_op f) \<longrightarrow> m (fl_impl f) \<noteq> None)"

definition flight_on :: "nd_misuse set \<Rightarrow> (ptr \<Rightarrow> nd_connector_impl option) \<Rightarrow> nd_flight \<Rightarrow> bool" where
  "flight_on M m f \<longleftrightarrow>
     ND_released_connecting \<in> M \<or> (\<forall>a. fl_op f = NOp_connect a \<longrightarrow> nsv_held m (no_connector a))"

definition flights_ok :: "nd_misuse set \<Rightarrow> (ptr \<Rightarrow> nd_connector_impl option) \<Rightarrow> 'n nd_conn_service \<Rightarrow> bool" where
  "flights_ok M m s \<longleftrightarrow>
     (\<forall>(f, c)\<in>set (nsv_pending s). flight_ok M m f) \<and> (\<forall>(f, ec)\<in>set (nsv_posted s). flight_ok M m f)"

definition flights_on :: "nd_misuse set \<Rightarrow> (ptr \<Rightarrow> nd_connector_impl option) \<Rightarrow> 'n nd_conn_service \<Rightarrow> bool" where
  "flights_on M m s \<longleftrightarrow>
     (\<forall>(f, c)\<in>set (nsv_pending s). flight_on M m f) \<and>
     (\<forall>(f, ec)\<in>set (nsv_posted s). is_error ec \<or> flight_on M m f)"

definition nd_impl_ok :: "nd_connector_impl \<Rightarrow> bool" where
  "nd_impl_ok i \<longleftrightarrow> (nd_is_open i \<longrightarrow> ni_adapter i \<noteq> None) \<and> (\<not> nd_is_open i \<longrightarrow> ni_handle i = nullptr)"

text \<open>\<open>nsv_core\<close> is what even a shutdown keeps.\<close>

definition nsv_core :: "('n \<Rightarrow> ptr set) \<Rightarrow> ptr multiset \<Rightarrow> nd_misuse set \<Rightarrow> 'n nd_conn_service \<Rightarrow> bool" where
  "nsv_core live X M s \<longleftrightarrow>
     (\<exists>ps. represents (nsv_list s) ps \<and> set ps = dom (nsv_impl s)) \<and>
     finite (live (nsv_nd s)) \<and> mset_set (live (nsv_nd s)) = X + impl_sum (nsv_impl s) \<and>
     (\<forall>p i. nsv_impl s p = Some i \<longrightarrow> nd_impl_ok i) \<and> flights_ok M (nsv_impl s) s \<and>
     \<not> nsv_fault s \<and> (nsv_dangling s \<longrightarrow> ND_destroyed_in_flight \<in> M)"

definition nsv_inv :: "('n \<Rightarrow> ptr set) \<Rightarrow> ptr multiset \<Rightarrow> nd_misuse set \<Rightarrow> 'n nd_conn_service \<Rightarrow> bool" where
  "nsv_inv live X M s \<longleftrightarrow> nsv_core live X M s \<and> flights_on M (nsv_impl s) s"

lemma nsv_coreD:
  assumes "nsv_core live X M s"
  shows "\<exists>ps. represents (nsv_list s) ps \<and> set ps = dom (nsv_impl s)" "finite (live (nsv_nd s))"
    "mset_set (live (nsv_nd s)) = X + impl_sum (nsv_impl s)" "nsv_impl s p = Some i \<Longrightarrow> nd_impl_ok i"
    "flights_ok M (nsv_impl s) s" "\<not> nsv_fault s"
    "nsv_dangling s \<longrightarrow> ND_destroyed_in_flight \<in> M" "finite (dom (nsv_impl s))"
proof -
  show e: "\<exists>ps. represents (nsv_list s) ps \<and> set ps = dom (nsv_impl s)" using assms by (simp add: nsv_core_def)
  then show "finite (dom (nsv_impl s))" by (metis List.finite_set)
qed (use assms in \<open>simp_all add: nsv_core_def\<close>)

lemma nsv_invD:
  assumes "nsv_inv live X M s"
  shows "nsv_core live X M s" "flights_on M (nsv_impl s) s"
  using assms by (simp_all add: nsv_inv_def)

lemma flights_okI:
  assumes "\<And>f c. (f, c) \<in> set (nsv_pending s) \<Longrightarrow> flight_ok M m f \<and> flight_on M m f"
    and "\<And>f ec. (f, ec) \<in> set (nsv_posted s) \<Longrightarrow> flight_ok M m f \<and> (is_error ec \<or> flight_on M m f)"
  shows "flights_ok M m s \<and> flights_on M m s"
  using assms by (auto simp: flights_ok_def flights_on_def)

lemma flights_okD:
  assumes "flights_ok M m s" and "flights_on M m s"
  shows "(f, c) \<in> set (nsv_pending s) \<Longrightarrow> flight_ok M m f \<and> flight_on M m f"
    "(f, ec) \<in> set (nsv_posted s) \<Longrightarrow> flight_ok M m f \<and> (is_error ec \<or> flight_on M m f)"
  using assms by (auto simp: flights_ok_def flights_on_def)

lemma flights_mono:
  assumes "M \<subseteq> M'"
  shows "flights_ok M m s \<Longrightarrow> flights_ok M' m s" "flights_on M m s \<Longrightarrow> flights_on M' m s"
  using assms unfolding flights_ok_def flights_on_def flight_ok_def flight_on_def by blast+

lemma nsv_inv_mono: "M \<subseteq> M' \<Longrightarrow> nsv_inv live X M s \<Longrightarrow> nsv_inv live X M' s"
  using flights_mono [of M M' "nsv_impl s" s] by (auto simp: nsv_inv_def nsv_core_def)

text \<open>The implementations stay where they are and hold what they held.\<close>

definition keeps_impls :: "(ptr \<Rightarrow> nd_connector_impl option) \<Rightarrow> (ptr \<Rightarrow> nd_connector_impl option) \<Rightarrow> bool" where
  "keeps_impls m m' \<longleftrightarrow> dom m \<subseteq> dom m' \<and> (\<forall>c. nsv_held m c \<longrightarrow> nsv_held m' c)"

lemma keeps_impls_flights:
  "keeps_impls m m' \<Longrightarrow> flights_ok M m s \<Longrightarrow> flights_ok M m' s"
  "keeps_impls m m' \<Longrightarrow> flights_on M m s \<Longrightarrow> flights_on M m' s"
  unfolding keeps_impls_def flights_ok_def flights_on_def flight_ok_def flight_on_def by blast+

lemma keeps_impls_update:
  assumes "m p = Some i" and "nd_is_open i \<longrightarrow> ni_connector i' = ni_connector i"
  shows "keeps_impls m (m(p \<mapsto> i'))"
proof -
  have "nsv_held (m(p \<mapsto> i')) c" if h: "nsv_held m c" for c
  proof -
    obtain q j where j: "m q = Some j" "nd_is_open j" "ni_connector j = c" using h by (auto simp: nsv_held_def)
    show ?thesis
    proof (cases "q = p")
      case True
      then have "nd_is_open i'" "ni_connector i' = c" using j assms by (simp_all add: nd_is_open_def)
      then show ?thesis unfolding nsv_held_def by (intro exI [of _ p] exI [of _ i']) simp
    next
      case False
      then show ?thesis using j unfolding nsv_held_def by (intro exI [of _ q] exI [of _ j]) simp
    qed
  qed
  then show ?thesis using assms(1) by (auto simp: keeps_impls_def)
qed

lemma keeps_impls_new: "m p = None \<Longrightarrow> keeps_impls m (m(p \<mapsto> i))"
  unfolding keeps_impls_def nsv_held_def by (auto, metis option.distinct(1))

subsection \<open>Calls and completions\<close>

lemma nsv_return_inv:
  assumes inv: "nsv_inv live X M s" and i: "nsv_impl s p = Some i"
    and g: "nd_grows (nsv_focus i s) w" and b: "nd_balanced live (nsv_focus i s) w" and wf: "nd_wf w"
  shows "nsv_inv live X M (nsv_return p i w s)"
proof -
  let ?s = "nsv_return p i w s" and ?m = "(nsv_impl s)(p \<mapsto> nw_impl w)"
  let ?fl = "\<lambda>op. \<lparr>fl_impl = p, fl_handle = ni_handle (nw_impl w), fl_op = op\<rparr>" and ?old = "nsv_on (ni_handle i) s"
  note C = nsv_invD [OF inv]
  note I = nsv_coreD [OF C(1)]
  have sel: "nsv_impl ?s = ?m" "nsv_nd ?s = nw_nd w" "nsv_list ?s = nsv_list s" "nsv_fault ?s = nw_fault w"
    "nsv_dangling ?s = nsv_dangling s" "nsv_posted ?s = nsv_posted s @ map (\<lambda>(op, ec). (?fl op, ec)) (nw_posted w)"
    by (simp_all add: nsv_return_def Let_def)
  obtain new posts where new: "map fst (nw_pending w) = map fst (nw_pending (nsv_focus i s)) @ new"
    "nw_posted w = posts" "\<forall>op\<in>set new. nd_flies (nw_impl w) op"
    "\<forall>(op, ec)\<in>set posts. is_error ec \<or> nd_flies (nw_impl w) op"
    and keep: "nd_is_open i \<longrightarrow> ni_connector (nw_impl w) = ni_connector i"
    using g by (auto simp: nd_grows_def nsv_focus_def)
  have k: "keeps_impls (nsv_impl s) ?m" by (rule keeps_impls_update) (rule i, rule keep)
  note F = flights_okD [OF keeps_impls_flights(1) [OF k I(5)] keeps_impls_flights(2) [OF k C(2)]]
  have ok: "flight_ok M ?m (?fl op) \<and> flight_on M ?m (?fl op)" if "nd_flies (nw_impl w) op" for op
    using that by (auto simp: flight_ok_def flight_on_def nsv_held_def)
  have ok': "flight_ok M ?m (?fl op)" for op by (simp add: flight_ok_def)
  have drop: "map fst (drop (length ?old) (nw_pending w)) = new"
    using arg_cong [OF new(1), of "drop (length ?old)"] by (simp add: drop_map nsv_focus_def)
  have fl: "flights_ok M ?m ?s \<and> flights_on M ?m ?s"
  proof (rule flights_okI)
    fix f c assume "(f, c) \<in> set (nsv_pending ?s)"
    then consider "(f, c) \<in> set (nsv_pending s)"
      | "f \<in> set (map fst ?old)"
      | op where "(op, c) \<in> set (drop (length ?old) (nw_pending w))" "f = ?fl op"
      by (auto simp: nsv_return_def Let_def dest: set_zip_leftD)
    then show "flight_ok M ?m f \<and> flight_on M ?m f"
    proof cases
      case 1
      then show ?thesis by (rule F(1))
    next
      case 2
      then obtain c' where "(f, c') \<in> set (nsv_pending s)" by (auto simp: nsv_on_def)
      then show ?thesis by (rule F(1))
    next
      case (3 op)
      then have "op \<in> set new" unfolding drop [symmetric] by force
      then show ?thesis using new(3) ok 3(2) by blast
    qed
  next
    fix f ec assume "(f, ec) \<in> set (nsv_posted ?s)"
    then consider "(f, ec) \<in> set (nsv_posted s)" | op where "(op, ec) \<in> set posts" "f = ?fl op"
      using new(2) by (auto simp: sel)
    then show "flight_ok M ?m f \<and> (is_error ec \<or> flight_on M ?m f)"
    proof cases
      case 1
      then show ?thesis by (rule F(2))
    next
      case (2 op)
      then have "is_error ec \<or> nd_flies (nw_impl w) op" using new(4) by blast
      then show ?thesis using 2(2) ok ok' by blast
    qed
  qed
  have "finite (live (nw_nd w))" and bal: "mset_set (live (nw_nd w)) + nd_impl_objs i =
      mset_set (live (nsv_nd s)) + nd_impl_objs (nw_impl w)"
    and h: "\<not> nd_is_open (nw_impl w) \<longrightarrow> ni_handle (nw_impl w) = nullptr"
    using b I(2) by (simp_all add: nd_balanced_def nsv_focus_def)
  moreover have "mset_set (live (nw_nd w)) = X + impl_sum ?m"
  proof -
    have "impl_sum ?m + nd_impl_objs i = impl_sum (nsv_impl s) + nd_impl_objs (nw_impl w)"
      using impl_sum_update [OF I(8), of p "nw_impl w"] i by simp
    then have "mset_set (live (nw_nd w)) + nd_impl_objs i = X + impl_sum ?m + nd_impl_objs i"
      using bal I(3) by (simp add: ac_simps)
    then show ?thesis by simp
  qed
  moreover have "nd_impl_ok (nw_impl w)" using wf h by (simp add: nd_impl_ok_def nd_wf_def)
  moreover have "dom ?m = dom (nsv_impl s)" using i by auto
  ultimately show ?thesis
    using I(1,4,6,7) wf fl by (auto simp: nsv_inv_def nsv_core_def sel nd_wf_def)
qed

lemma nsv_call_inv:
  assumes law: "nd_service_law live api" "nd_create_law api" and ds: "nd_device_wf ds"
    and inv: "nsv_inv live X M s" and i: "nsv_impl s p = Some i" and c: "nd_conn_call api ds (nsv_focus i s) w"
  shows "nsv_inv live X M (nsv_return p i w s)"
proof -
  have "nd_wf (nsv_focus i s)" "\<not> nd_is_open (nw_impl (nsv_focus i s)) \<longrightarrow> ni_handle (nw_impl (nsv_focus i s)) = nullptr"
    using nsv_coreD(4) [OF nsv_invD(1) [OF inv] i] nsv_coreD(6) [OF nsv_invD(1) [OF inv]] by (simp_all add: nd_wf_def nd_impl_ok_def nsv_focus_def)
  then show ?thesis
    using nsv_return_inv [OF inv i] nd_conn_call_effect [OF law(1) ds _ _ law(2) c] by blast
qed

lemma nd_touches_owner: "nd_touches owner op \<Longrightarrow> nd_touches True op"
  by (cases op) simp_all

lemma impl_sum_same:
  assumes "finite (dom m)" and "m p = Some i" and "nd_impl_objs j = nd_impl_objs i"
  shows "impl_sum (m(p \<mapsto> j)) = impl_sum m"
  using impl_sum_update [OF assms(1), of p j] assms(2,3) by simp

lemma nsv_complete_core:
  assumes law: "nd_service_law live api" and inv: "nsv_core live X M s"
  shows "nsv_core live X M (nsv_complete api owner s) \<and>
    (flights_on M (nsv_impl s) s \<longrightarrow> flights_on M (nsv_impl (nsv_complete api owner s)) (nsv_complete api owner s))"
proof (cases "nsv_posted s")
  case Nil
  then show ?thesis using inv by (simp add: nsv_complete_def)
next
  case (Cons x rest)
  obtain f ec where x: "x = (f, ec)" by fastforce
  let ?p = "fl_impl f" and ?s = "nsv_complete api owner s"
  note I = nsv_coreD [OF inv]
  define i where "i = (case nsv_impl s ?p of Some i \<Rightarrow> i | None \<Rightarrow> nd_construct)"
  define w0 where "w0 = \<lparr>nw_nd = nsv_nd s, nw_impl = i, nw_pending = [], nw_posted = [(fl_op f, ec)],
      nw_upcalls = nsv_upcalls s, nw_fault = nsv_fault s\<rparr>"
  define w where "w = nd_complete_front api owner w0"
  define m where "m = (case nsv_impl s ?p of None \<Rightarrow> nsv_impl s | Some _ \<Rightarrow> (nsv_impl s)(?p \<mapsto> nw_impl w))"
  define more where "more = map (\<lambda>(op, c). (f\<lparr>fl_op := op\<rparr>, c)) (nw_pending w)"
  have w0: "nw_pending w0 = []" "nw_posted w0 = [(fl_op f, ec)]" "nw_nd w0 = nsv_nd s" "nw_impl w0 = i"
    "nw_fault w0 = nsv_fault s" by (simp_all add: w0_def)
  have sel: "nsv_impl ?s = m" "nsv_nd ?s = nw_nd w" "nsv_list ?s = nsv_list s" "nsv_fault ?s = nw_fault w"
    "nsv_dangling ?s = (nsv_dangling s \<or> nd_touches owner (fl_op f) \<and> nsv_impl s ?p = None)"
    "nsv_posted ?s = rest" "nsv_pending ?s = nsv_pending s @ more"
    by (simp_all add: nsv_complete_def Cons x w_def w0_def i_def m_def more_def Let_def cong: option.case_cong)
  note E = nd_complete_front_effect [OF law w0(1,2) w_def]
  have touch: "nd_touches True (fl_op f) \<longrightarrow> ND_destroyed_in_flight \<in> M \<or> nsv_impl s ?p \<noteq> None"
    using I(5) Cons x by (auto simp: flights_ok_def flight_ok_def)
  have ids: "nd_same_ids (nw_impl w) i" "ni_adapter (nw_impl w) = ni_adapter i" using E w0 by simp_all
  have k: "keeps_impls (nsv_impl s) m"
  proof (cases "nsv_impl s ?p")
    case (Some j)
    then show ?thesis
      using keeps_impls_update [of "nsv_impl s" ?p j "nw_impl w"] ids by (simp add: i_def m_def nd_same_ids_def)
  qed (simp add: keeps_impls_def m_def)
  have dom: "dom m = dom (nsv_impl s)" by (auto simp: m_def split: option.split)
  have adds: "flight_ok M m g \<and> (flights_on M (nsv_impl s) s \<longrightarrow> flight_on M m g)" if g: "(g, c) \<in> set more" for g c
  proof -
    obtain a b where ab: "fl_op f = NOp_connect a" "\<not> is_error ec" "nw_pending w = [(NOp_connect b, False)]"
      "no_connector b = no_connector a" using E g by (auto simp: more_def)
    have "g = f\<lparr>fl_op := NOp_connect b\<rparr>" using g ab(3) by (simp add: more_def)
    moreover have "m ?p \<noteq> None" if "ND_destroyed_in_flight \<notin> M"
      using touch that ab(1) by (auto simp: m_def split: option.split)
    moreover have "flights_on M (nsv_impl s) s \<longrightarrow> ND_released_connecting \<in> M \<or> nsv_held m (no_connector b)"
      using Cons x ab k by (auto simp: flights_on_def flight_on_def keeps_impls_def)
    ultimately show ?thesis by (auto simp: flight_ok_def flight_on_def)
  qed
  have ok: "flights_ok M m ?s"
    using keeps_impls_flights(1) [OF k I(5)] adds Cons x by (auto simp: flights_ok_def sel)
  have on': "flights_on M (nsv_impl s) s \<longrightarrow> flights_on M m ?s"
  proof
    assume a: "flights_on M (nsv_impl s) s"
    have "flights_on M m s" by (rule keeps_impls_flights(2) [OF k a])
    moreover have "flight_on M m g" if "(g, c) \<in> set more" for g c using adds [OF that] a by blast
    ultimately show "flights_on M m ?s" using Cons x by (auto simp: flights_on_def sel)
  qed
  have sum: "impl_sum m = impl_sum (nsv_impl s)"
  proof (cases "nsv_impl s ?p")
    case (Some j)
    then show ?thesis using impl_sum_same [OF I(8) Some] nd_same_idsD(1) [OF ids(1)] by (simp add: i_def m_def)
  qed (simp add: m_def)
  have impls: "nd_impl_ok j" if "m q = Some j" for q j
  proof (cases "q = ?p \<and> nsv_impl s ?p \<noteq> None")
    case True
    then have "j = nw_impl w" "nd_impl_ok i" using that I(4) by (auto simp: i_def m_def)
    then show ?thesis using ids nd_same_idsD(3) [OF ids(1)] by (simp add: nd_impl_ok_def nd_same_ids_def)
  next
    case False
    then show ?thesis using that I(4) by (auto simp: m_def split: option.splits if_splits)
  qed
  have "nsv_dangling ?s \<longrightarrow> ND_destroyed_in_flight \<in> M" using I(7) touch nd_touches_owner by (auto simp: sel)
  moreover have "\<not> nsv_fault ?s" using E I(6) w0 by (simp add: sel)
  moreover have "live (nsv_nd ?s) = live (nsv_nd s)" using E w0 by (simp add: sel)
  ultimately show ?thesis
    using I(1-3) ok on' sum impls dom by (simp add: nsv_core_def sel)
qed

subsection \<open>Construction, moves, destruction\<close>

text \<open>Dropping a connector: \<open>reset_impl\<close> is what is left of its implementation.\<close>

abbreviation reset_impl :: "nd_connector_impl \<Rightarrow> nd_connector_impl" where
  "reset_impl i \<equiv> i\<lparr>ni_connector := nullptr, ni_handle := nullptr, ni_adapter := None\<rparr>"

lemma reset_impl_facts [simp]:
  "nd_impl_objs (reset_impl i) = {#}" "nd_impl_ok (reset_impl i)" "\<not> nd_is_open (reset_impl i)"
  by (simp_all add: nd_impl_objs_def nd_impl_ok_def nd_is_open_def)

lemma nd_construct_facts [simp]:
  "nd_impl_objs nd_construct = {#}" "nd_impl_ok nd_construct" "\<not> nd_is_open nd_construct"
  by (simp_all add: nd_construct_def nd_impl_objs_def nd_impl_ok_def nd_is_open_def)

lemma nsv_reset_sel:
  assumes "nsv_impl s p = Some i"
  shows "nsv_impl (nsv_reset api p s) = (nsv_impl s)(p \<mapsto> reset_impl i)"
    "nsv_nd (nsv_reset api p s) = nd_drop api (ni_connector i) (ni_handle i) (nsv_nd s)"
    "nsv_list (nsv_reset api p s) = nsv_list s" "nsv_posted (nsv_reset api p s) = nsv_posted s"
    "fst ` set (nsv_pending (nsv_reset api p s)) = fst ` set (nsv_pending s)"
    "nsv_fault (nsv_reset api p s) = nsv_fault s" "nsv_dangling (nsv_reset api p s) = nsv_dangling s"
  using assms
  by (simp_all add: nsv_reset_def nd_destroy_def nsv_focus_def Let_def cancel_on_def image_image case_prod_beta)

lemma nsv_drop_objs:
  assumes law: "nd_service_law live api" and inv: "nsv_core live X M s" and i: "nsv_impl s p = Some i"
  shows "mset_set (live (nd_drop api (ni_connector i) (ni_handle i) (nsv_nd s))) =
      X + impl_sum ((nsv_impl s)(p \<mapsto> reset_impl i)) \<and>
    finite (live (nd_drop api (ni_connector i) (ni_handle i) (nsv_nd s)))"
proof -
  note I = nsv_coreD [OF inv]
  have "impl_sum ((nsv_impl s)(p \<mapsto> reset_impl i)) + nd_impl_objs i = impl_sum (nsv_impl s)"
    using impl_sum_update [OF I(8), of p "reset_impl i"] i by simp
  then have "mset_set (live (nsv_nd s)) = X + impl_sum ((nsv_impl s)(p \<mapsto> reset_impl i)) +
      pair_objs (ni_connector i) (ni_handle i)"
    using I(3) by (simp add: nd_impl_objs_def add.assoc)
  moreover have "nd_handle_law live api" using nd_service_lawD(1) [OF law] by (simp add: nd_resource_law_def)
  ultimately show ?thesis by (intro nd_drop_objs I(2))
qed

lemma flights_ok_cong:
  assumes "dom m \<subseteq> dom m'" and "fst ` set (nsv_pending s') = fst ` set (nsv_pending s)"
    and "nsv_posted s' = nsv_posted s" and "flights_ok M m s"
  shows "flights_ok M m' s'"
proof -
  have "flight_ok M m' f" if "flight_ok M m f" for f using that assms(1) by (auto simp: flight_ok_def)
  moreover have "\<forall>f\<in>fst ` set (nsv_pending s'). flight_ok M m f" using assms(2,4) by (auto simp: flights_ok_def)
  ultimately show ?thesis using assms(3,4) unfolding flights_ok_def by fastforce
qed

lemma nsv_reset_core:
  assumes law: "nd_service_law live api" and inv: "nsv_core live X M s" and i: "nsv_impl s p = Some i"
  shows "nsv_core live X M (nsv_reset api p s)"
proof -
  note I = nsv_coreD [OF inv] and S = nsv_reset_sel [OF i, of api] and D = nsv_drop_objs [OF law inv i]
  have d: "dom ((nsv_impl s)(p \<mapsto> reset_impl i)) = dom (nsv_impl s)" using i by auto
  have "flights_ok M ((nsv_impl s)(p \<mapsto> reset_impl i)) (nsv_reset api p s)"
    by (rule flights_ok_cong [OF _ S(5,4) I(5)]) auto
  then show ?thesis using I(1,4,6,7) D d by (auto simp: nsv_core_def S)
qed

text \<open>No connect in flight may still go on with the connector \<open>c\<close>.\<close>

definition no_connect_on :: "ptr \<Rightarrow> 'n nd_conn_service \<Rightarrow> bool" where
  "no_connect_on c s \<longleftrightarrow>
     (\<forall>(f, x)\<in>set (nsv_pending s). \<forall>a. fl_op f = NOp_connect a \<longrightarrow> no_connector a \<noteq> c) \<and>
     (\<forall>(f, ec)\<in>set (nsv_posted s). \<forall>a. fl_op f = NOp_connect a \<and> \<not> is_error ec \<longrightarrow> no_connector a \<noteq> c)"

lemma flights_on_lose:
  assumes on: "flights_on M m s" and no: "ND_released_connecting \<in> M \<or> no_connect_on c s"
    and keep: "\<And>x. nsv_held m x \<Longrightarrow> x \<noteq> c \<Longrightarrow> nsv_held m' x"
    and s': "fst ` set (nsv_pending s') = fst ` set (nsv_pending s)" "nsv_posted s' = nsv_posted s"
  shows "flights_on M m' s'"
proof -
  have "flight_on M m' f" if f: "f \<in> fst ` set (nsv_pending s')" for f
  proof -
    have "f \<in> fst ` set (nsv_pending s)" using f s'(1) by simp
    then have "flight_on M m f" "ND_released_connecting \<in> M \<or> (\<forall>a. fl_op f = NOp_connect a \<longrightarrow> no_connector a \<noteq> c)"
      using on no by (auto simp: flights_on_def no_connect_on_def)
    then show ?thesis using keep by (auto simp: flight_on_def)
  qed
  moreover have "is_error ec \<or> flight_on M m' f" if f: "(f, ec) \<in> set (nsv_posted s')" for f ec
  proof -
    have "is_error ec \<or> flight_on M m f"
      "is_error ec \<or> ND_released_connecting \<in> M \<or> (\<forall>a. fl_op f = NOp_connect a \<longrightarrow> no_connector a \<noteq> c)"
      using f s'(2) on no by (auto simp: flights_on_def no_connect_on_def)
    then show ?thesis using keep by (auto simp: flight_on_def)
  qed
  ultimately show ?thesis unfolding flights_on_def by fastforce
qed

lemma nsv_held_reset:
  assumes "m p = Some i" and "nsv_held m c" and "c \<noteq> ni_connector i"
  shows "nsv_held (m(p \<mapsto> reset_impl i)) c"
proof -
  obtain q j where j: "m q = Some j" "nd_is_open j" "ni_connector j = c" using assms(2) by (auto simp: nsv_held_def)
  then have "q \<noteq> p" using assms(1,3) by auto
  then show ?thesis using j unfolding nsv_held_def by (intro exI [of _ q] exI [of _ j]) simp
qed

lemma nsv_reset_inv:
  assumes law: "nd_service_law live api" and inv: "nsv_inv live X M s" and i: "nsv_impl s p = Some i"
    and no: "ND_released_connecting \<in> M \<or> no_connect_on (ni_connector i) s"
  shows "nsv_inv live X M (nsv_reset api p s)"
proof -
  note C = nsv_invD [OF inv] and S = nsv_reset_sel [OF i, of api]
  have "flights_on M ((nsv_impl s)(p \<mapsto> reset_impl i)) (nsv_reset api p s)"
    by (rule flights_on_lose [OF C(2) no _ S(5,4)]) (rule nsv_held_reset, rule i)
  then show ?thesis using nsv_reset_core [OF law C(1) i] by (simp add: nsv_inv_def S)
qed

text \<open>A change of the implementations and of the list alone.\<close>

lemma nsv_impls_inv:
  assumes inv: "nsv_inv live X M s" and l: "\<exists>ps. represents l ps \<and> set ps = dom m"
    and sum: "impl_sum m = impl_sum (nsv_impl s)" and ok: "\<And>p i. m p = Some i \<Longrightarrow> nd_impl_ok i"
    and k: "keeps_impls (nsv_impl s) m"
  shows "nsv_inv live X M (s\<lparr>nsv_list := l, nsv_impl := m\<rparr>)"
proof -
  note C = nsv_invD [OF inv]
  note I = nsv_coreD [OF C(1)]
  have "flights_ok M m s" "flights_on M m s" using keeps_impls_flights [OF k] I(5) C(2) by blast+
  then have "flights_ok M m (s\<lparr>nsv_list := l, nsv_impl := m\<rparr>) \<and> flights_on M m (s\<lparr>nsv_list := l, nsv_impl := m\<rparr>)"
    by (simp add: flights_ok_def flights_on_def)
  then show ?thesis using I(2,3,6,7) l sum ok by (simp add: nsv_inv_def nsv_core_def)
qed

lemma registered_insert:
  assumes "\<exists>ps. represents l ps \<and> set ps = dom m" and "p \<noteq> nullptr" and "m p = None"
  shows "\<exists>ps. represents (nd_do_insert p l) ps \<and> set ps = insert p (dom m)"
proof -
  obtain ps where ps: "represents l ps" "set ps = dom m" using assms(1) by blast
  then have "p \<notin> set ps" using assms(3) by auto
  then have "represents (nd_do_insert p l) (p # ps)"
    unfolding nd_do_insert_eq by (rule do_insert_represents [OF ps(1) assms(2)])
  then show ?thesis using ps(2) by (intro exI [of _ "p # ps"]) simp
qed

lemma registered_remove:
  assumes "\<exists>ps. represents l ps \<and> set ps = dom m" and "m p = Some i"
  shows "\<exists>ps. represents (nd_do_remove p l) ps \<and> set ps = dom m - {p}"
proof -
  obtain ps where ps: "represents l ps" "set ps = dom m" using assms(1) by blast
  then have "p \<in> set ps" "distinct ps" using assms(2) by (auto simp: represents_def)
  then show ?thesis
    unfolding nd_do_remove_eq using do_remove_represents [OF ps(1)] ps(2) by (intro exI [of _ "remove1 p ps"]) simp
qed

lemma nsv_construct_inv:
  assumes inv: "nsv_inv live X M s" and p: "p \<noteq> nullptr" "nsv_impl s p = None"
  shows "nsv_inv live X M (nsv_construct p s)"
proof -
  note I = nsv_coreD [OF nsv_invD(1) [OF inv]]
  have "impl_sum ((nsv_impl s)(p \<mapsto> nd_construct)) = impl_sum (nsv_impl s)"
    using impl_sum_update [OF I(8), of p nd_construct] p(2) by simp
  moreover have "\<And>q i. ((nsv_impl s)(p \<mapsto> nd_construct)) q = Some i \<Longrightarrow> nd_impl_ok i"
    using I(4) by (auto split: if_splits)
  moreover have "\<exists>ps. represents (nd_do_insert p (nsv_list s)) ps \<and> set ps = dom ((nsv_impl s)(p \<mapsto> nd_construct))"
    using registered_insert [OF I(1) p] by simp
  ultimately show ?thesis
    unfolding nsv_construct_def by (intro nsv_impls_inv [OF inv] keeps_impls_new p(2)) simp_all
qed

lemma keeps_impls_move:
  assumes "p \<noteq> q" and "m q = Some other" and "\<And>i. m p = Some i \<Longrightarrow> \<not> nd_is_open i"
  shows "keeps_impls m (m(p \<mapsto> other, q \<mapsto> reset_impl other))"
proof -
  let ?m = "m(p \<mapsto> other, q \<mapsto> reset_impl other)"
  have "nsv_held ?m c" if h: "nsv_held m c" for c
  proof -
    obtain r j where j: "m r = Some j" "nd_is_open j" "ni_connector j = c" using h by (auto simp: nsv_held_def)
    show ?thesis
    proof (cases "r = q")
      case True
      then have "?m p = Some j" using j assms(1,2) by simp
      then show ?thesis using j unfolding nsv_held_def by blast
    next
      case False
      then have "?m r = Some j" using j assms(3) by (cases "r = p") auto
      then show ?thesis using j unfolding nsv_held_def by blast
    qed
  qed
  then show ?thesis using assms(2) by (auto simp: keeps_impls_def)
qed

lemma impl_sum_move:
  assumes "finite (dom m)" and "p \<noteq> q" and "m q = Some other" and "\<And>i. m p = Some i \<Longrightarrow> nd_impl_objs i = {#}"
  shows "impl_sum (m(p \<mapsto> other, q \<mapsto> reset_impl other)) = impl_sum m"
proof -
  have "impl_sum (m(p \<mapsto> other)) = impl_sum m + nd_impl_objs other"
    using impl_sum_update [OF assms(1), of p other] assms(4) by (cases "m p") simp_all
  moreover have "impl_sum (m(p \<mapsto> other, q \<mapsto> reset_impl other)) + nd_impl_objs other = impl_sum (m(p \<mapsto> other))"
    using impl_sum_update [of "m(p \<mapsto> other)" q "reset_impl other"] assms(1-3) by simp
  ultimately show ?thesis by simp
qed

lemma closed_impl_objs: "nd_impl_ok i \<Longrightarrow> \<not> nd_is_open i \<Longrightarrow> nd_impl_objs i = {#}"
  by (simp add: nd_impl_ok_def nd_impl_objs_def nd_is_open_def)

text \<open>The move itself, into an implementation that holds nothing.\<close>

lemma nsv_moved_inv:
  assumes inv: "nsv_inv live X M s" and pq: "p \<noteq> q" and q: "nsv_impl s q = Some other"
    and p: "\<And>i. nsv_impl s p = Some i \<Longrightarrow> \<not> nd_is_open i"
    and l: "\<exists>ps. represents l ps \<and> set ps = insert p (dom (nsv_impl s))"
  shows "nsv_inv live X M (s\<lparr>nsv_list := l, nsv_impl := (nsv_impl s)(p \<mapsto> other, q \<mapsto> reset_impl other)\<rparr>)"
proof (rule nsv_impls_inv [OF inv])
  note I = nsv_coreD [OF nsv_invD(1) [OF inv]]
  have d: "dom ((nsv_impl s)(p \<mapsto> other, q \<mapsto> reset_impl other)) = insert p (dom (nsv_impl s))" using q by auto
  show "\<exists>ps. represents l ps \<and> set ps = dom ((nsv_impl s)(p \<mapsto> other, q \<mapsto> reset_impl other))"
    unfolding d by (rule l)
  show "impl_sum ((nsv_impl s)(p \<mapsto> other, q \<mapsto> reset_impl other)) = impl_sum (nsv_impl s)"
    by (rule impl_sum_move [OF I(8) pq]) (rule q, rule closed_impl_objs, rule I(4), assumption, rule p, assumption)
  show "keeps_impls (nsv_impl s) ((nsv_impl s)(p \<mapsto> other, q \<mapsto> reset_impl other))"
    by (rule keeps_impls_move [OF pq]) (rule q, rule p, assumption)
  show "nd_impl_ok i" if "((nsv_impl s)(p \<mapsto> other, q \<mapsto> reset_impl other)) r = Some i" for r i
    using that I(4) q by (auto split: if_splits)
qed

lemma nsv_move_construct_inv:
  assumes inv: "nsv_inv live X M s" and p: "p \<noteq> nullptr" "nsv_impl s p = None" and q: "nsv_impl s q = Some other"
  shows "nsv_inv live X M (nsv_move_construct p q s)"
proof -
  have "p \<noteq> q" using p q by auto
  moreover have "nsv_move_construct p q s = s\<lparr>nsv_list := nd_do_insert p (nsv_list s),
      nsv_impl := (nsv_impl s)(p \<mapsto> other, q \<mapsto> reset_impl other)\<rparr>"
    using q by (simp add: nsv_move_construct_def nd_move_construct_def)
  moreover have "\<exists>ps. represents (nd_do_insert p (nsv_list s)) ps \<and> set ps = insert p (dom (nsv_impl s))"
    by (rule registered_insert [OF nsv_coreD(1) [OF nsv_invD(1) [OF inv]] p])
  ultimately show ?thesis using nsv_moved_inv [OF inv _ q, of p] p(2) by (metis option.distinct(1))
qed

lemma nsv_move_assign_inv:
  assumes law: "nd_service_law live api" and inv: "nsv_inv live X M s" and pq: "p \<noteq> q"
    and p: "nsv_impl s p = Some i" and q: "nsv_impl s q = Some other" and no: "ND_released_connecting \<in> M \<or> no_connect_on (ni_connector i) s"
  shows "nsv_inv live X M (nsv_move_assign api p q s)"
proof -
  let ?s = "nsv_reset api p s"
  note S = nsv_reset_sel [OF p, of api] and R = nsv_reset_inv [OF law inv p no]
  note I = nsv_coreD [OF nsv_invD(1) [OF inv]]
  have null: "p \<noteq> nullptr" using I(1) p by (auto simp: represents_def dest: seg_nonnull)
  have "nsv_move_assign api p q s = ?s\<lparr>nsv_list := nd_do_insert p (nd_do_remove p (nsv_list s)),
      nsv_impl := (nsv_impl ?s)(p \<mapsto> other, q \<mapsto> reset_impl other)\<rparr>"
    using p q S by (simp add: nsv_move_assign_def nd_move_assign_def nsv_focus_def)
  moreover have "\<exists>ps. represents (nd_do_insert p (nd_do_remove p (nsv_list s))) ps \<and> set ps = insert p (dom (nsv_impl ?s))"
  proof -
    have "\<exists>ps. represents (nd_do_remove p (nsv_list s)) ps \<and> set ps = dom ((nsv_impl s)(p := None))"
      using registered_remove [OF I(1) p] by simp
    from registered_insert [OF this null] show ?thesis using S(1) by simp
  qed
  ultimately show ?thesis using nsv_moved_inv [OF R pq] S(1) pq q by simp
qed

definition nsv_quiet :: "ptr \<Rightarrow> 'n nd_conn_service \<Rightarrow> bool" where
  "nsv_quiet p s \<longleftrightarrow>
     (\<forall>f\<in>fst ` set (nsv_pending s) \<union> fst ` set (nsv_posted s). nd_touches True (fl_op f) \<longrightarrow> fl_impl f \<noteq> p)"

lemma nsv_destroy_inv:
  assumes law: "nd_service_law live api" and inv: "nsv_inv live X M s" and p: "nsv_impl s p = Some i"
    and no: "ND_released_connecting \<in> M \<or> no_connect_on (ni_connector i) s" and quiet: "ND_destroyed_in_flight \<in> M \<or> nsv_quiet p s"
  shows "nsv_inv live X M (nsv_destroy api p s)"
proof -
  let ?s = "nsv_reset api p s"
  let ?m = "(nsv_impl ?s)(p := None)"
  note S = nsv_reset_sel [OF p, of api] and R = nsv_reset_inv [OF law inv p no]
  note C = nsv_invD [OF R]
  note I = nsv_coreD [OF C(1)]
  have q: "ND_destroyed_in_flight \<in> M \<or> (nd_touches True (fl_op f) \<longrightarrow> fl_impl f \<noteq> p)"
    if "f \<in> fst ` set (nsv_pending ?s) \<union> fst ` set (nsv_posted ?s)" for f
    using quiet that S(4,5) by (auto simp: nsv_quiet_def)
  have ok: "flights_ok M ?m (nsv_destroy api p s)"
    using I(5) q unfolding flights_ok_def flight_ok_def nsv_destroy_def Let_def by fastforce
  have "nsv_held ?m c" if "nsv_held (nsv_impl ?s) c" for c
    using that by (auto simp: nsv_held_def S(1) split: if_splits)
  then have on: "flights_on M ?m (nsv_destroy api p s)"
    using C(2) unfolding flights_on_def flight_on_def nsv_destroy_def Let_def by fastforce
  have "impl_sum ?m = impl_sum (nsv_impl ?s)"
    using impl_sum_remove [OF I(8), of p "reset_impl i"] S(1) by simp
  moreover have "\<exists>ps. represents (nd_do_remove p (nsv_list ?s)) ps \<and> set ps = dom ?m"
    using registered_remove [OF I(1), of p "reset_impl i"] S(1) by simp
  moreover have "\<And>r j. ?m r = Some j \<Longrightarrow> nd_impl_ok j" using I(4) by (auto split: if_splits)
  ultimately show ?thesis
    using I(2,3,6,7) ok on by (simp add: nsv_inv_def nsv_core_def nsv_destroy_def Let_def)
qed

text \<open>A connector that adopts the connection of a request, taken from the rest of the program.\<close>

abbreviation request_objs :: "nd_handle \<Rightarrow> ptr multiset" where
  "request_objs x \<equiv> pair_objs (nh_connector x) (nh_handle x)"

lemma nsv_adopt_inv:
  assumes inv: "nsv_inv live (X + request_objs x) M s" and i: "nsv_impl s p = Some i"
    and a: "nh_adapter x \<noteq> None" and r: "nd_assign api x i = (ec, rest, i')"
  shows "nsv_inv live (X + request_objs rest) M (s\<lparr>nsv_impl := (nsv_impl s)(p \<mapsto> i')\<rparr>)"
proof (cases "is_error ec")
  case True
  then have "i' = i" "rest = x" using r by (auto simp: nd_assign_def split: if_splits)
  then show ?thesis using inv i by (simp add: fun_upd_idem)
next
  case False
  then have n: "\<not> nd_is_open i" "rest = nd_handle_empty" "nh_connector x \<noteq> nullptr"
    "i' = \<lparr>ni_connector = nh_connector x, ni_handle = nh_handle x, ni_adapter = nh_adapter x, ni_state = ns_idle,
       ni_peer_closed = False\<rparr>"
    using r by (auto simp: nd_assign_def split: if_splits)
  let ?m = "(nsv_impl s)(p \<mapsto> i')"
  note C = nsv_invD [OF inv]
  note I = nsv_coreD [OF C(1)]
  have k: "keeps_impls (nsv_impl s) ?m" by (rule keeps_impls_update) (rule i, simp add: n(1))
  have "impl_sum ?m = impl_sum (nsv_impl s) + request_objs x"
    using impl_sum_update [OF I(8), of p i'] i closed_impl_objs [OF I(4) [OF i] n(1)] n(4) by (simp add: nd_impl_objs_def)
  moreover have "nd_impl_ok i'" using n(3) a by (simp add: n(4) nd_impl_ok_def nd_is_open_def)
  moreover have "flights_ok M ?m (s\<lparr>nsv_impl := ?m\<rparr>)" "flights_on M ?m (s\<lparr>nsv_impl := ?m\<rparr>)"
    using keeps_impls_flights(1) [OF k I(5)] keeps_impls_flights(2) [OF k C(2)] by (simp_all add: flights_ok_def flights_on_def)
  moreover have "dom ?m = dom (nsv_impl s)" using i by auto
  moreover have "request_objs rest = {#}" by (simp add: n(2) nd_handle_empty_def)
  ultimately show ?thesis
    using I(1-4,6,7) by (auto simp: nsv_inv_def nsv_core_def ac_simps)
qed

lemma nsv_kernel_inv:
  assumes "nsv_inv live X M s" and "nsv_pending s = xs @ (f, c) # ys"
  shows "nsv_inv live X M (s\<lparr>nsv_pending := xs @ ys, nsv_posted := nsv_posted s @ [(f, ec)]\<rparr>)"
  using assms by (auto simp: nsv_inv_def nsv_core_def flights_ok_def flights_on_def)

lemma nsv_world_inv:
  assumes inv: "nsv_inv live X M s" and "finite (live n)"
    and eq: "mset_set (live n) + X = mset_set (live (nsv_nd s)) + X'"
  shows "nsv_inv live X' M (s\<lparr>nsv_nd := n\<rparr>)"
proof -
  note I = nsv_coreD [OF nsv_invD(1) [OF inv]]
  have "mset_set (live n) + X = X' + impl_sum (nsv_impl s) + X" using eq I(3) by (simp add: ac_simps)
  then have "mset_set (live n) = X' + impl_sum (nsv_impl s)" by simp
  then show ?thesis using inv assms(2) by (simp add: nsv_inv_def nsv_core_def flights_ok_def flights_on_def)
qed

subsection \<open>Runs\<close>

text \<open>
  The steps are guarded only by what C++ gives: a fresh address to construct at, implementations that exist. Connectors
  are moved and destroyed whatever is in flight; \<open>M\<close> keeps what was done that matters for pointers. The
  completions are delivered, or destroyed once the scheduler is shut down.
\<close>

definition nd_released :: "ptr \<Rightarrow> 'n nd_conn_service \<Rightarrow> nd_misuse set" where
  "nd_released c s = (if no_connect_on c s then {} else {ND_released_connecting})"

definition nd_destroyed :: "ptr \<Rightarrow> 'n nd_conn_service \<Rightarrow> nd_misuse set" where
  "nd_destroyed p s = (if nsv_quiet p s then {} else {ND_destroyed_in_flight})"

inductive nsv_step ::
  "'n nd_api \<Rightarrow> nd_device_service \<Rightarrow> ('n \<Rightarrow> ptr set) \<Rightarrow> ptr multiset \<times> nd_misuse set \<times> 'n nd_conn_service
   \<Rightarrow> ptr multiset \<times> nd_misuse set \<times> 'n nd_conn_service \<Rightarrow> bool" for api ds live where
  nsv_constructed: "p \<noteq> nullptr \<Longrightarrow> nsv_impl s p = None \<Longrightarrow>
    nsv_step api ds live (X, M, s) (X, M, nsv_construct p s)"
| nsv_called: "nsv_impl s p = Some i \<Longrightarrow> nd_conn_call api ds (nsv_focus i s) w \<Longrightarrow>
    nsv_step api ds live (X, M, s) (X, M, nsv_return p i w s)"
| nsv_adopted: "nsv_impl s p = Some i \<Longrightarrow> nh_adapter x \<noteq> None \<Longrightarrow> nd_assign api x i = (ec, rest, i') \<Longrightarrow>
    nsv_step api ds live (X + request_objs x, M, s)
      (X + request_objs rest, M, s\<lparr>nsv_impl := (nsv_impl s)(p \<mapsto> i')\<rparr>)"
| nsv_finished: "nsv_pending s = xs @ (f, c) # ys \<Longrightarrow> (ec = nd_operation_aborted \<longrightarrow> c) \<Longrightarrow>
    nsv_step api ds live (X, M, s) (X, M, s\<lparr>nsv_pending := xs @ ys, nsv_posted := nsv_posted s @ [(f, ec)]\<rparr>)"
| nsv_completed: "nsv_step api ds live (X, M, s) (X, M, nsv_complete api owner s)"
| nsv_move_constructed: "p \<noteq> nullptr \<Longrightarrow> nsv_impl s p = None \<Longrightarrow> nsv_impl s q = Some other \<Longrightarrow>
    nsv_step api ds live (X, M, s) (X, M, nsv_move_construct p q s)"
| nsv_move_assigned: "p \<noteq> q \<Longrightarrow> nsv_impl s p = Some i \<Longrightarrow> nsv_impl s q = Some other \<Longrightarrow>
    nsv_step api ds live (X, M, s) (X, M \<union> nd_released (ni_connector i) s, nsv_move_assign api p q s)"
| nsv_destroyed: "nsv_impl s p = Some i \<Longrightarrow>
    nsv_step api ds live (X, M, s)
      (X, M \<union> nd_released (ni_connector i) s \<union> nd_destroyed p s, nsv_destroy api p s)"
| nsv_world: "finite (live n) \<Longrightarrow> mset_set (live n) + X = mset_set (live (nsv_nd s)) + X' \<Longrightarrow>
    nsv_step api ds live (X, M, s) (X', M, s\<lparr>nsv_nd := n\<rparr>)"

definition nsv_laws :: "('n \<Rightarrow> ptr set) \<Rightarrow> nd_device_service \<Rightarrow> 'n nd_api \<Rightarrow> bool" where
  "nsv_laws live ds api \<longleftrightarrow> nd_service_law live api \<and> nd_create_law api \<and> nd_device_wf ds"

lemma nsv_step_inv:
  assumes law: "nsv_laws live ds api" and step: "nsv_step api ds live x y" and inv: "nsv_inv live (fst x) (fst (snd x)) (snd (snd x))"
  shows "nsv_inv live (fst y) (fst (snd y)) (snd (snd y))"
proof -
  have L: "nd_service_law live api" "nd_create_law api" "nd_device_wf ds" using law by (simp_all add: nsv_laws_def)
  from step inv show ?thesis
  proof (induction rule: nsv_step.induct)
    case (nsv_called s p i w X M)
    then show ?case using nsv_call_inv [OF L _ nsv_called(1,2)] by simp
  next
    case (nsv_adopted s p i x ec rest i' X M)
    then show ?case using nsv_adopt_inv [OF _ nsv_adopted(1-3)] by simp
  next
    case (nsv_finished s xs f c ys ec X M)
    then show ?case using nsv_kernel_inv [OF _ nsv_finished(1)] by simp
  next
    case (nsv_completed X M s owner)
    then show ?case using nsv_complete_core [OF L(1), of X M s owner] by (simp add: nsv_inv_def)
  next
    case (nsv_move_constructed p s q other X M)
    then show ?case using nsv_move_construct_inv [OF _ nsv_move_constructed(1-3)] by simp
  next
    case (nsv_move_assigned p q s i other X M)
    let ?M = "M \<union> nd_released (ni_connector i) s"
    have "nsv_inv live X ?M s" using nsv_inv_mono [OF Un_upper1] nsv_move_assigned(4) by simp
    moreover have "ND_released_connecting \<in> ?M \<or> no_connect_on (ni_connector i) s" by (simp add: nd_released_def)
    ultimately show ?case using nsv_move_assign_inv [OF L(1) _ nsv_move_assigned(1-3)] by simp
  next
    case (nsv_destroyed s p i X M)
    let ?M = "M \<union> nd_released (ni_connector i) s \<union> nd_destroyed p s"
    have "M \<subseteq> ?M" by blast
    from nsv_inv_mono [OF this] have "nsv_inv live X ?M s" using nsv_destroyed(2) by simp
    moreover have "ND_released_connecting \<in> ?M \<or> no_connect_on (ni_connector i) s"
      "ND_destroyed_in_flight \<in> ?M \<or> nsv_quiet p s" by (simp_all add: nd_released_def nd_destroyed_def)
    ultimately show ?case using nsv_destroy_inv [OF L(1) _ nsv_destroyed(1)] by simp
  next
    case (nsv_world n X s X' M)
    then show ?case using nsv_world_inv [OF _ nsv_world(1,2)] by simp
  qed (simp add: nsv_construct_inv)
qed

definition nsv_fresh :: "'n nd_conn_service \<Rightarrow> bool" where
  "nsv_fresh s \<longleftrightarrow> nsv_list s = empty_list \<and> nsv_impl s = Map.empty \<and> nsv_pending s = [] \<and> nsv_posted s = [] \<and>
     \<not> nsv_fault s \<and> \<not> nsv_dangling s"

lemma nsv_fresh_inv: "nsv_fresh s \<Longrightarrow> finite (live (nsv_nd s)) \<Longrightarrow> nsv_inv live (mset_set (live (nsv_nd s))) {} s"
  using empty_list_represents
  by (auto simp: nsv_fresh_def nsv_inv_def nsv_core_def impl_sum_def flights_ok_def flights_on_def)

abbreviation nsv_run where
  "nsv_run api ds live \<equiv> (nsv_step api ds live)\<^sup>*\<^sup>*"

lemma nsv_run_inv:
  assumes "nsv_laws live ds api" and "nsv_run api ds live x y" and "nsv_inv live (fst x) (fst (snd x)) (snd (snd x))"
  shows "nsv_inv live (fst y) (fst (snd y)) (snd (snd y))"
  using assms(2,3) by (induction rule: rtranclp_induct) (auto dest: nsv_step_inv [OF assms(1)])

lemma nsv_reach_inv:
  assumes "nsv_laws live ds api" and "nsv_fresh s0" and "finite (live (nsv_nd s0))"
    and "nsv_run api ds live (mset_set (live (nsv_nd s0)), {}, s0) (X, M, s)"
  shows "nsv_inv live X M s"
  using nsv_run_inv [OF assms(1,4)] nsv_fresh_inv [OF assms(2), of live] assms(3) by simp

lemma impl_objs_subset:
  assumes "finite (dom m)" and "m p = Some i"
  shows "nd_impl_objs i \<subseteq># impl_sum m"
proof -
  have "impl_sum m = nd_impl_objs i + (\<Sum>q\<in>dom m - {p}. nd_impl_objs (the (m q)))"
    using assms by (simp add: impl_sum_def sum.remove [of "dom m" p] domIff)
  then show ?thesis by simp
qed

lemma nsv_held_live:
  assumes inv: "nsv_core live X M s" and h: "nsv_held (nsv_impl s) c"
  shows "c \<in> live (nsv_nd s)"
proof -
  note I = nsv_coreD [OF inv]
  obtain p i where i: "nsv_impl s p = Some i" "nd_is_open i" "ni_connector i = c" using h by (auto simp: nsv_held_def)
  then have "c \<in># nd_impl_objs i" by (auto simp: nd_impl_objs_def pair_objs_def nd_is_open_def)
  then have "c \<in># mset_set (live (nsv_nd s))"
    using impl_objs_subset [OF I(8) i(1)] I(3) by (auto dest: mset_subset_eqD)
  then show ?thesis using I(2) by simp
qed

subsection \<open>Shutdown\<close>

definition nsv_resets :: "ptr list \<Rightarrow> 'n nd_conn_service \<Rightarrow> 'n nd_conn_service \<Rightarrow> bool" where
  "nsv_resets ps s s' \<longleftrightarrow>
     dom (nsv_impl s') = dom (nsv_impl s) \<and> nsv_posted s' = nsv_posted s \<and>
     (\<forall>p i. nsv_impl s' p = Some i \<longrightarrow> p \<in> set ps \<longrightarrow> \<not> nd_is_open i) \<and>
     (\<forall>p i. nsv_impl s p = Some i \<longrightarrow> \<not> nd_is_open i \<longrightarrow> (\<exists>j. nsv_impl s' p = Some j \<and> \<not> nd_is_open j)) \<and>
     (\<forall>f c. (f, c) \<in> set (nsv_pending s') \<longrightarrow> (\<exists>c0. (f, c0) \<in> set (nsv_pending s) \<and> (c0 \<longrightarrow> c))) \<and>
     (\<forall>p i f c. p \<in> set ps \<longrightarrow> nsv_impl s p = Some i \<longrightarrow> is_closable_handle (ni_handle i) \<longrightarrow>
        (f, c) \<in> set (nsv_pending s') \<longrightarrow> fl_handle f = ni_handle i \<longrightarrow> c)"

lemma nsv_reset_one:
  assumes "nsv_impl s p = Some i"
  shows "nsv_resets [p] s (nsv_reset api p s)"
proof -
  note S = nsv_reset_sel [OF assms, of api]
  have "(f, c) \<in> set (nsv_pending (nsv_reset api p s)) \<Longrightarrow>
      (\<exists>c0. (f, c0) \<in> set (nsv_pending s) \<and> (c0 \<longrightarrow> c)) \<and>
      (is_closable_handle (ni_handle i) \<longrightarrow> fl_handle f = ni_handle i \<longrightarrow> c)" for f c
    using assms by (auto simp: nsv_reset_def Let_def cancel_on_def split: if_splits)
  then show ?thesis using assms by (auto simp: nsv_resets_def S(1,4) split: if_splits)
qed

lemma nsv_resets_cons:
  assumes 1: "nsv_resets [p] s s1" and 2: "nsv_resets ps s1 s2" and other: "\<And>q. q \<noteq> p \<Longrightarrow> nsv_impl s1 q = nsv_impl s q"
  shows "nsv_resets (p # ps) s s2"
proof -
  have d: "dom (nsv_impl s2) = dom (nsv_impl s1)" "dom (nsv_impl s1) = dom (nsv_impl s)"
    "nsv_posted s2 = nsv_posted s" using 1 2 by (simp_all add: nsv_resets_def)
  have c1: "\<not> nd_is_open j" if "nsv_impl s1 p = Some j" for j using 1 that by (simp add: nsv_resets_def)
  have c2: "\<exists>j. nsv_impl s2 q = Some j \<and> \<not> nd_is_open j" if "nsv_impl s1 q = Some i" "\<not> nd_is_open i" for q i
    using 2 that unfolding nsv_resets_def by blast
  have c3: "\<not> nd_is_open i" if "nsv_impl s2 q = Some i" "q \<in> set ps" for q i
    using 2 that unfolding nsv_resets_def by blast
  have c4: "\<exists>j. nsv_impl s1 q = Some j \<and> \<not> nd_is_open j" if "nsv_impl s q = Some i" "\<not> nd_is_open i" for q i
    using 1 that unfolding nsv_resets_def by blast
  have q2: "\<exists>c1. (f, c1) \<in> set (nsv_pending s1) \<and> (c1 \<longrightarrow> c)" if "(f, c) \<in> set (nsv_pending s2)" for f c
    using 2 that unfolding nsv_resets_def by blast
  have q1: "\<exists>c0. (f, c0) \<in> set (nsv_pending s) \<and> (c0 \<longrightarrow> c)" if "(f, c) \<in> set (nsv_pending s1)" for f c
    using 1 that unfolding nsv_resets_def by blast
  have k1: "c" if "nsv_impl s p = Some i" "is_closable_handle (ni_handle i)" "(f, c) \<in> set (nsv_pending s1)"
    "fl_handle f = ni_handle i" for i f c using 1 that unfolding nsv_resets_def by auto
  have k2: "c" if "q \<in> set ps" "nsv_impl s1 q = Some i" "is_closable_handle (ni_handle i)" "(f, c) \<in> set (nsv_pending s2)"
    "fl_handle f = ni_handle i" for q i f c using 2 that unfolding nsv_resets_def by blast
  have opened: "\<not> nd_is_open i" if i: "nsv_impl s2 q = Some i" "q \<in> set (p # ps)" for q i
  proof (cases "q = p")
    case True
    then obtain j where "nsv_impl s1 p = Some j" using i(1) d(1) by (metis domD domI)
    then show ?thesis using c1 c2 [of p j] i(1) True by auto
  qed (use c3 i in auto)
  have cancelled: "c" if i: "q \<in> set (p # ps)" "nsv_impl s q = Some i" "is_closable_handle (ni_handle i)"
    "(f, c) \<in> set (nsv_pending s2)" "fl_handle f = ni_handle i" for q i f c
  proof (cases "q = p")
    case True
    then show ?thesis using q2 [OF i(4)] k1 i(2,3,5) by blast
  next
    case False
    then show ?thesis using k2 [of q i f c] i other by simp
  qed
  have requests: "\<exists>c0. (f, c0) \<in> set (nsv_pending s) \<and> (c0 \<longrightarrow> c)" if "(f, c) \<in> set (nsv_pending s2)" for f c
    using q2 [OF that] q1 by blast
  have still: "\<exists>j. nsv_impl s2 q = Some j \<and> \<not> nd_is_open j" if "nsv_impl s q = Some i" "\<not> nd_is_open i" for q i
    using c4 [OF that] c2 by blast
  show ?thesis
    unfolding nsv_resets_def
    by (intro conjI allI impI)
      (use d in simp, use d in simp, erule (1) opened, erule (1) still, erule requests, erule (4) cancelled)
qed

lemma nsv_reset_all:
  assumes law: "nd_service_law live api"
  shows "nsv_core live X M s \<Longrightarrow> set ps \<subseteq> dom (nsv_impl s) \<Longrightarrow>
    nsv_core live X M (fold (nsv_reset api) ps s) \<and> nsv_resets ps s (fold (nsv_reset api) ps s)"
proof (induction ps arbitrary: s)
  case Nil
  then show ?case by (auto simp: nsv_resets_def)
next
  case (Cons p ps)
  then obtain i where i: "nsv_impl s p = Some i" by auto
  have d: "set ps \<subseteq> dom (nsv_impl (nsv_reset api p s))"
    using Cons.prems(2) i by (auto simp: nsv_reset_sel(1) [OF i])
  have o: "nsv_impl (nsv_reset api p s) q = nsv_impl s q" if "q \<noteq> p" for q using that by (simp add: nsv_reset_sel(1) [OF i])
  have rest: "nsv_core live X M (fold (nsv_reset api) ps (nsv_reset api p s))"
    "nsv_resets ps (nsv_reset api p s) (fold (nsv_reset api) ps (nsv_reset api p s))"
    using Cons.IH [OF nsv_reset_core [OF law Cons.prems(1) i] d] by simp_all
  have "nsv_resets (p # ps) s (fold (nsv_reset api) ps (nsv_reset api p s))"
    by (rule nsv_resets_cons [OF nsv_reset_one [OF i] rest(2) o])
  then show ?case using rest(1) by simp
qed

lemma impl_sum_closed:
  assumes "\<And>p i. m p = Some i \<Longrightarrow> nd_impl_objs i = {#}"
  shows "impl_sum m = {#}"
  using assms by (auto simp: impl_sum_def domIff intro!: sum.neutral)

lemma nsv_drain_core:
  assumes "nd_service_law live api" and "nsv_core live X M s"
  shows "nsv_core live X M ((nsv_complete api False ^^ n) s)"
  by (induction n) (simp_all add: assms(2) nsv_complete_core [OF assms(1)])

text \<open>
  C14. Type soundness of the NetworkDirect connector service, over runs that move and destroy connectors
  whatever is in flight: every object of the provider is owned exactly once; until an implementation is destroyed
  with a request in flight, a request that may store into one refers to one that is registered, and no completion
  touches one that is gone; until a connector is released while it connects, a connect that may go on has a
  connector that is open and alive.
\<close>

theorem nd_service_operations_typed:
  assumes law: "nsv_laws live ds api" and "nsv_fresh s0" and "finite (live (nsv_nd s0))"
    and run: "nsv_run api ds live (mset_set (live (nsv_nd s0)), {}, s0) (X, M, s)"
  shows "(ND_destroyed_in_flight \<notin> M \<longrightarrow>
      (\<forall>f\<in>fst ` set (nsv_pending s) \<union> fst ` set (nsv_posted s).
         nd_touches True (fl_op f) \<longrightarrow> nsv_impl s (fl_impl f) \<noteq> None) \<and> \<not> nsv_dangling s) \<and>
    (ND_released_connecting \<notin> M \<longrightarrow>
      (\<forall>(f, c)\<in>set (nsv_pending s). \<forall>a. fl_op f = NOp_connect a \<longrightarrow>
         (\<exists>p i. nsv_impl s p = Some i \<and> ni_connector i = no_connector a) \<and> no_connector a \<in> live (nsv_nd s))) \<and>
    mset_set (live (nsv_nd s)) = X + impl_sum (nsv_impl s) \<and> \<not> nsv_fault s"
proof -
  note inv = nsv_reach_inv [OF assms]
  note C = nsv_invD [OF inv]
  note I = nsv_coreD [OF C(1)]
  have "(\<exists>p i. nsv_impl s p = Some i \<and> ni_connector i = no_connector a) \<and> no_connector a \<in> live (nsv_nd s)"
    if "(f, c) \<in> set (nsv_pending s)" "fl_op f = NOp_connect a" "ND_released_connecting \<notin> M" for f c a
  proof -
    have "nsv_held (nsv_impl s) (no_connector a)" using C(2) that by (auto simp: flights_on_def flight_on_def)
    then show ?thesis using nsv_held_live [OF C(1)] by (auto simp: nsv_held_def)
  qed
  moreover have "nsv_impl s (fl_impl f) \<noteq> None"
    if "f \<in> fst ` set (nsv_pending s) \<union> fst ` set (nsv_posted s)" "nd_touches True (fl_op f)"
      "ND_destroyed_in_flight \<notin> M" for f
    using I(5) that unfolding flights_ok_def flight_ok_def by fastforce
  ultimately show ?thesis using I(3,6,7) by blast
qed

text \<open>
  C15. Shutting the NetworkDirect connector service down returns after any run, destructions and moves in flight
  included; every connector and handle is released and nothing else is, and every request on them is cancelled. However
  many operations the scheduler then destroys, none touches an implementation that is gone, unless one was
  destroyed during the run with a request in flight that refers to it.
\<close>

theorem nd_service_shutdown_releases_all:
  assumes law: "nsv_laws live ds api" and "nsv_fresh s0" and "finite (live (nsv_nd s0))"
    and run: "nsv_run api ds live (mset_set (live (nsv_nd s0)), {}, s0) (X, M, s)"
  shows "\<exists>s'. nsv_shutdown api s = Some s' \<and> mset_set (live (nsv_nd s')) = X \<and>
    (\<forall>p i f c. nsv_impl s p = Some i \<and> is_closable_handle (ni_handle i) \<and> (f, c) \<in> set (nsv_pending s') \<and>
       fl_handle f = ni_handle i \<longrightarrow> c) \<and>
    (\<forall>n. nsv_dangling ((nsv_complete api False ^^ n) s') \<longrightarrow> ND_destroyed_in_flight \<in> M)"
proof -
  have L: "nd_service_law live api" using law by (simp add: nsv_laws_def)
  note inv = nsv_reach_inv [OF assms]
  note C = nsv_invD [OF inv]
  note I = nsv_coreD [OF C(1)]
  obtain ps where ps: "represents (nsv_list s) ps" "set ps = dom (nsv_impl s)" using I(1) by blast
  let ?s = "fold (nsv_reset api) ps s"
  have r: "nsv_core live X M ?s" "nsv_resets ps s ?s" using nsv_reset_all [OF L C(1)] ps(2) by simp_all
  have "nd_impl_objs i = {#}" if "nsv_impl ?s p = Some i" for p i
  proof (rule closed_impl_objs)
    show "nd_impl_ok i" by (rule nsv_coreD(4) [OF r(1) that])
    have "p \<in> dom (nsv_impl ?s)" "dom (nsv_impl ?s) = dom (nsv_impl s)"
      "\<forall>p i. nsv_impl ?s p = Some i \<longrightarrow> p \<in> set ps \<longrightarrow> \<not> nd_is_open i"
      using that r(2) by (auto simp: nsv_resets_def)
    then show "\<not> nd_is_open i" using that ps(2) by blast
  qed
  then have "mset_set (live (nsv_nd ?s)) = X" using nsv_coreD(3) [OF r(1)] impl_sum_closed by simp
  moreover have "c" if "nsv_impl s p = Some i" "is_closable_handle (ni_handle i)" "(f, c) \<in> set (nsv_pending ?s)"
    "fl_handle f = ni_handle i" for p i f c
  proof -
    have "p \<in> set ps" using that(1) ps(2) by auto
    then show ?thesis using r(2) that unfolding nsv_resets_def by blast
  qed
  moreover have "nsv_dangling ((nsv_complete api False ^^ n) ?s) \<longrightarrow> ND_destroyed_in_flight \<in> M" for n
    by (rule nsv_coreD(7) [OF nsv_drain_core [OF L r(1)]])
  moreover have "nsv_shutdown api s = Some ?s" by (simp add: nsv_shutdown_def nd_base_shutdown_visits [OF ps(1)])
  ultimately show ?thesis by blast
qed

text \<open>
  This comes about. A watcher armed with \<open>async_wait_disconnect\<close> on a connector that is then
  destroyed reads, and may write, the \<open>peer_closed_\<close> of a connector that is gone, when its
  completion is delivered and even when the scheduler only destroys it: unlike the connect and accept operations, it
  looks at the connector before it looks at its owner.
\<close>

theorem nd_wait_outlives_connector:
  assumes i: "nsv_impl s p = Some i" "is_closable_handle (ni_handle i)" and w: "nsv_pending s = [(f, False)]"
    "fl_op f = NOp_wait h" "fl_impl f = p" "fl_handle f = ni_handle i"
  shows "nsv_pending (nsv_destroy api p s) = [(f, True)] \<and>
    nsv_dangling (nsv_complete api owner ((nsv_destroy api p s)\<lparr>nsv_pending := [], nsv_posted := [(f, nd_operation_aborted)]\<rparr>))"
proof -
  have "nsv_pending (nsv_destroy api p s) = [(f, True)]" "nsv_impl (nsv_destroy api p s) p = None"
    using i w by (simp_all add: nsv_destroy_def nsv_reset_def cancel_on_def Let_def)
  then show ?thesis using w by (simp add: nsv_complete_def Let_def)
qed

text \<open>
  Moving a connector while its connect is in flight strands the connection: the handler is told of success, but the state of
  the connector that was moved from becomes \<open>connected\<close>, and the one that holds the connection stays
  \<open>connecting\<close>, so its \<open>disconnect()\<close> never asks the provider to disconnect.
\<close>

theorem nd_move_strands_connection:
  assumes q: "nsv_impl s q = Some other" "ni_state other = ns_connecting" "nd_is_open other" and p: "nsv_impl s p = None"
    and w: "nsv_posted s = [(f, no_error)]" "fl_op f = NOp_connect a" "fl_impl f = q"
    and ok: "nd_connect_do_complete api True no_error a ns_connecting (nsv_nd s) = (Inr (Some u), ns_connected, n)"
    and s1: "s1 = nsv_complete api True (nsv_move_construct p q s)"
  shows "nsv_upcalls s1 = nsv_upcalls s @ [u] \<and>
    (\<exists>j. nsv_impl s1 q = Some j \<and> ni_state j = ns_connected \<and> \<not> nd_is_open j) \<and>
    nsv_impl s1 p = Some other \<and> nw_nd (snd (nd_disconnect api (nsv_focus other s1))) = nsv_nd s1"
proof -
  have pq: "p \<noteq> q" using p q by auto
  have m: "nsv_move_construct p q s = s\<lparr>nsv_list := nd_do_insert p (nsv_list s),
      nsv_impl := (nsv_impl s)(p \<mapsto> other, q \<mapsto> reset_impl other)\<rparr>"
    using q by (simp add: nsv_move_construct_def nd_move_construct_def)
  have "nsv_upcalls s1 = nsv_upcalls s @ [u]" "nsv_impl s1 p = Some other"
    "nsv_impl s1 q = Some ((reset_impl other)\<lparr>ni_state := ns_connected\<rparr>)"
    using pq w q(2) ok by (simp_all add: s1 m nsv_complete_def nd_complete_front_def Let_def)
  moreover have "nw_nd (snd (nd_disconnect api (nsv_focus other s1))) = nsv_nd s1"
    using q(2,3) by (simp add: nd_disconnect_def nsv_focus_def Let_def)
  ultimately show ?thesis by (simp add: nd_is_open_def)
qed

subsection \<open>Runs of the example\<close>

definition nd_sim_service :: "nd_sim nd_conn_service" where
  "nd_sim_service =
     \<lparr>nsv_nd = \<lparr>ns_next = 16, ns_live = [], ns_disc = 0\<rparr>, nsv_list = empty_list, nsv_impl = Map.empty,
      nsv_pending = [], nsv_posted = [], nsv_upcalls = [], nsv_fault = False, nsv_dangling = False\<rparr>"

text \<open>The connector at 64 is constructed and connects with handler 7; it is moved to 72, which arms a watcher, 9.\<close>

definition nd_sim_connecting :: "nd_sim nd_conn_service" where
  "nd_sim_connecting =
     (let s = nsv_construct 64 nd_sim_service in
      nsv_return 64 nd_construct (nd_async_connect nd_sim_api nd_sim_device 99 (V4 2, 7000) [1, 2] False 0 7
        (nsv_focus nd_construct s)) s)"

text \<open>Its state, evaluated once.\<close>

definition nd_sim_impl :: "nd_connect_state \<Rightarrow> nd_connector_impl" where
  "nd_sim_impl st = \<lparr>ni_connector = 17, ni_handle = 16, ni_adapter = Some nd_example_adapter, ni_state = st,
     ni_peer_closed = False\<rparr>"

definition nd_sim_flight :: "ptr \<Rightarrow> nd_op \<Rightarrow> nd_flight" where
  "nd_sim_flight p op = \<lparr>fl_impl = p, fl_handle = 16, fl_op = op\<rparr>"

abbreviation nd_sim_op :: nd_connect_op where
  "nd_sim_op \<equiv> nd_connect_op_new 17 False 0 7"

lemma nd_sim_connecting_state:
  "nsv_pending nd_sim_connecting = [(nd_sim_flight 64 (NOp_connect nd_sim_op), False)]"
  "nsv_impl nd_sim_connecting 64 = Some (nd_sim_impl ns_connecting)" "nsv_impl nd_sim_connecting 72 = None"
  "nsv_nd nd_sim_connecting = \<lparr>ns_next = 18, ns_live = [17, 16], ns_disc = 0\<rparr>"
  "nsv_upcalls nd_sim_connecting = []"
  by code_simp+

definition nd_sim_moved :: "nd_sim nd_conn_service" where
  "nd_sim_moved = nsv_move_construct 72 64 nd_sim_connecting"

definition nd_sim_watched :: "nd_sim nd_conn_service" where
  "nd_sim_watched =
     nsv_return 72 (nd_sim_impl ns_connecting) (nd_async_wait_disconnect nd_sim_api 9
       (nsv_focus (nd_sim_impl ns_connecting) nd_sim_moved)) nd_sim_moved"

lemma nd_sim_moved_state:
  "nsv_impl nd_sim_moved 72 = Some (nd_sim_impl ns_connecting)"
  "nsv_pending nd_sim_moved = [(nd_sim_flight 64 (NOp_connect nd_sim_op), False)]"
  by (simp_all add: nd_sim_moved_def nsv_move_construct_def nd_move_construct_def nd_sim_connecting_state)

lemma nd_sim_service_laws: "nsv_laws nd_sim_live nd_sim_device nd_sim_api" "nsv_fresh nd_sim_service"
  "finite (nd_sim_live (nsv_nd nd_sim_service))" "mset_set (nd_sim_live (nsv_nd nd_sim_service)) = {#}"
proof -
  have "nd_service_law nd_sim_live nd_sim_api"
    unfolding nd_service_law_def using nd_sim_laws(4) by (simp add: nd_sim_api_def nd_sim_live_def)
  then show "nsv_laws nd_sim_live nd_sim_device nd_sim_api" using nd_sim_laws(1,2) by (simp add: nsv_laws_def)
qed (simp_all add: nsv_fresh_def nd_sim_service_def nd_sim_live_def)

lemma nd_sim_service_run:
  "nsv_run nd_sim_api nd_sim_device nd_sim_live (mset_set (nd_sim_live (nsv_nd nd_sim_service)), {}, nd_sim_service)
     ({#}, {}, nd_sim_watched)"
proof -
  let ?step = "nsv_step nd_sim_api nd_sim_device nd_sim_live" and ?s = "nsv_construct 64 nd_sim_service"
  have a: "?step ({#}, {}, nd_sim_service) ({#}, {}, ?s)" by (rule nsv_constructed) (simp_all add: nd_sim_service_def)
  have b: "?step ({#}, {}, ?s) ({#}, {}, nd_sim_connecting)"
    unfolding nd_sim_connecting_def Let_def
    by (rule nsv_called [OF _ nc_connect]) (simp add: nsv_construct_def)
  have c: "?step ({#}, {}, nd_sim_connecting) ({#}, {}, nd_sim_moved)"
    unfolding nd_sim_moved_def by (rule nsv_move_constructed) (simp_all add: nd_sim_connecting_state)
  have d: "?step ({#}, {}, nd_sim_moved) ({#}, {}, nd_sim_watched)"
    unfolding nd_sim_watched_def by (rule nsv_called [OF _ nc_wait]) (rule nd_sim_moved_state)
  from a have "?step\<^sup>*\<^sup>* ({#}, {}, nd_sim_service) ({#}, {}, ?s)" by (rule r_into_rtranclp)
  from this b have "?step\<^sup>*\<^sup>* ({#}, {}, nd_sim_service) ({#}, {}, nd_sim_connecting)" by (rule rtranclp.rtrancl_into_rtrancl)
  from this c have "?step\<^sup>*\<^sup>* ({#}, {}, nd_sim_service) ({#}, {}, nd_sim_moved)" by (rule rtranclp.rtrancl_into_rtrancl)
  from this d show ?thesis unfolding nd_sim_service_laws(4) by (rule rtranclp.rtrancl_into_rtrancl)
qed

lemma nd_sim_watched_state:
  "nsv_pending nd_sim_watched =
     [(nd_sim_flight 64 (NOp_connect nd_sim_op), False), (nd_sim_flight 72 (NOp_wait 9), False)]"
  "nsv_impl nd_sim_watched 72 = Some (nd_sim_impl ns_connecting)"
  by (simp_all add: nd_sim_watched_def nsv_return_def nd_async_wait_disconnect_def nsv_focus_def nsv_on_def
      nd_sim_moved_state nd_sim_impl_def nd_sim_flight_def nd_is_open_def nd_notify_disconnect_def nd_overlapped_def
      nd_sim_api_def on_pending_def Let_def)

theorem nd_service_operations_typed_witness:
  "nsv_impl nd_sim_watched 64 \<noteq> None \<and> mset_set (nd_sim_live (nsv_nd nd_sim_watched)) = impl_sum (nsv_impl nd_sim_watched)"
proof -
  note T = nd_service_operations_typed [OF nd_sim_service_laws(1-3) nd_sim_service_run]
  show ?thesis using T by (simp add: nd_sim_watched_state nd_sim_flight_def)
qed

theorem nd_service_shutdown_releases_all_witness:
  "\<exists>s'. nsv_shutdown nd_sim_api nd_sim_watched = Some s' \<and> mset_set (nd_sim_live (nsv_nd s')) = {#} \<and>
     (\<forall>f c. (f, c) \<in> set (nsv_pending s') \<and> fl_handle f = 16 \<longrightarrow> c) \<and>
     \<not> nsv_dangling ((nsv_complete nd_sim_api False ^^ 2) s')"
proof -
  let ?i = "nd_sim_impl ns_connecting"
  have i: "nsv_impl nd_sim_watched 72 = Some ?i" "ni_handle ?i = 16"
    by (simp_all add: nd_sim_watched_state nd_sim_impl_def)
  have "is_closable_handle (ni_handle ?i)" by (simp add: i(2) is_closable_handle_def)
  moreover obtain s' where "nsv_shutdown nd_sim_api nd_sim_watched = Some s'" "mset_set (nd_sim_live (nsv_nd s')) = {#}"
    "\<forall>p i f c. nsv_impl nd_sim_watched p = Some i \<and> is_closable_handle (ni_handle i) \<and>
       (f, c) \<in> set (nsv_pending s') \<and> fl_handle f = ni_handle i \<longrightarrow> c"
    "\<forall>n. nsv_dangling ((nsv_complete nd_sim_api False ^^ n) s') \<longrightarrow> ND_destroyed_in_flight \<in> ({} :: nd_misuse set)"
    using nd_service_shutdown_releases_all [OF nd_sim_service_laws(1-3) nd_sim_service_run] by blast
  ultimately show ?thesis using i by (metis empty_iff)
qed

definition nd_sim_armed :: "nd_sim nd_conn_service" where
  "nd_sim_armed =
     (let s = nsv_construct 64 nd_sim_service;
          s1 = nsv_return 64 nd_construct (snd (nd_do_open nd_sim_api nd_sim_device (nsv_focus nd_construct s))) s;
          i = the (nsv_impl s1 64)
      in nsv_return 64 i (nd_async_wait_disconnect nd_sim_api 9 (nsv_focus i s1)) s1)"

lemma nd_sim_armed_state:
  "nsv_impl nd_sim_armed 64 = Some (nd_sim_impl ns_idle)"
  "nsv_pending nd_sim_armed = [(nd_sim_flight 64 (NOp_wait 9), False)]"
  by code_simp+

theorem nd_wait_outlives_connector_witness:
  "nsv_dangling (nsv_complete nd_sim_api False ((nsv_destroy nd_sim_api 64 nd_sim_armed)\<lparr>nsv_pending := [],
     nsv_posted := [(nd_sim_flight 64 (NOp_wait 9), nd_operation_aborted)]\<rparr>))"
  by (rule nd_wait_outlives_connector [OF nd_sim_armed_state(1) _ nd_sim_armed_state(2), THEN conjunct2])
    (simp_all add: nd_sim_impl_def nd_sim_flight_def is_closable_handle_def)

theorem nd_move_strands_connection_witness:
  "\<exists>s1 other. s1 = nsv_complete nd_sim_api True (nsv_move_construct 72 64 (nd_sim_connecting\<lparr>nsv_pending := [],
      nsv_posted := [(nd_sim_flight 64 (NOp_connect nd_sim_op), no_error)]\<rparr>)) \<and>
    map nu_ec (nsv_upcalls s1) = [no_error] \<and> nsv_impl s1 72 = Some other \<and>
    ns_disc (nw_nd (snd (nd_disconnect nd_sim_api (nsv_focus other s1)))) = ns_disc (nsv_nd s1)"
proof -
  let ?s = "nd_sim_connecting\<lparr>nsv_pending := [], nsv_posted := [(nd_sim_flight 64 (NOp_connect nd_sim_op), no_error)]\<rparr>"
  have res: "nd_connect_do_complete nd_sim_api True no_error nd_sim_op ns_connecting (nsv_nd ?s) =
      (Inr (Some \<lparr>nu_handler = 7, nu_ec = no_error, nu_reply_len = 0\<rparr>), ns_connected, nsv_nd ?s)"
    by (simp add: nd_connect_do_complete_def resume_process_def nd_connect_do_process_def nd_connect_op_new_def
        process_complete_connect_def capture_remote_pd_def mark_connected_def nd_sim_api_def failed_def)
  have "nsv_impl ?s 64 = Some (nd_sim_impl ns_connecting)" "nsv_impl ?s 72 = None" "nsv_upcalls ?s = []"
    by (simp_all add: nd_sim_connecting_state)
  moreover have "ni_state (nd_sim_impl ns_connecting) = ns_connecting" "nd_is_open (nd_sim_impl ns_connecting)"
    "fl_op (nd_sim_flight 64 (NOp_connect nd_sim_op)) = NOp_connect nd_sim_op"
    "fl_impl (nd_sim_flight 64 (NOp_connect nd_sim_op)) = 64"
    by (simp_all add: nd_sim_impl_def nd_is_open_def nd_sim_flight_def)
  ultimately show ?thesis
    using nd_move_strands_connection [of ?s 64 "nd_sim_impl ns_connecting" 72, OF _ _ _ _ _ _ _ res refl] by simp
qed

end
