(* ===== verification/ND_Listener.thy ===== *)
theory ND_Listener
  imports ND_Connector_Run ND_Completion_Queue
begin

text \<open>
  Listeners on NetworkDirect: \<open>nd/detail/nd_service_listener.hpp\<close>, the operation that waits for a
  connection request (\<open>nd/detail/nd_op_get_connection_request.hpp\<close>) and the completion adapters of
  \<open>nd/nd_listener.hpp\<close>.

  A connector object and its overlapped handle are created before the request is issued; the operation
  owns the pair until it hands it to its handler. The lemmas: every handler is invoked exactly once, and
  in every run each object that was created is owned by exactly one party until it is released, once.
\<close>

subsection \<open>State\<close>

record nd_listener_impl =
  nli_listener :: ptr
  nli_handle :: ptr
  nli_adapter :: "nd_adapter option"
  nli_bind_endpoint :: nd_endpoint

record nd_request_op =
  nr_handle :: nd_handle
  nr_handler :: nat

record nd_request_upcall =
  nru_handler :: nat
  nru_ec :: error_code
  nru_handle :: nd_handle
  nru_private_data :: "u8 list"

record 'n nl_world =
  nlw_nd :: 'n
  nlw_impl :: nd_listener_impl
  nlw_pending :: "(nd_request_op \<times> bool) list"
  nlw_posted :: "(nd_request_op \<times> error_code) list"
  nlw_upcalls :: "nd_request_upcall list"
  nlw_fault :: bool

fun nd_any_endpoint :: "port_space \<Rightarrow> nat \<Rightarrow> nd_endpoint" where
  "nd_any_endpoint PS_v4 port = (V4 0, port)"
| "nd_any_endpoint PS_v6 port = (V6 0, port)"

definition nd_listener_construct :: nd_listener_impl where
  "nd_listener_construct =
     \<lparr>nli_listener = nullptr, nli_handle = nullptr, nli_adapter = None, nli_bind_endpoint = (V4 0, 0)\<rparr>"

definition nd_listener_is_open :: "nd_listener_impl \<Rightarrow> bool" where
  "nd_listener_is_open impl \<longleftrightarrow> nli_listener impl \<noteq> nullptr"

text \<open>\<open>destroy\<close>; \<open>shutdown\<close> does the same to every implementation.\<close>

definition nd_listener_destroy :: "'n nd_api \<Rightarrow> 'n nl_world \<Rightarrow> 'n nl_world" where
  "nd_listener_destroy api w =
     w\<lparr>nlw_nd := nd_drop api (nli_listener (nlw_impl w)) (nli_handle (nlw_impl w)) (nlw_nd w),
       nlw_impl := (nlw_impl w)\<lparr>nli_listener := nullptr, nli_handle := nullptr, nli_adapter := None\<rparr>\<rparr>"

definition nd_listener_move_construct :: "nd_listener_impl \<Rightarrow> nd_listener_impl \<times> nd_listener_impl" where
  "nd_listener_move_construct other =
     (other, other\<lparr>nli_listener := nullptr, nli_handle := nullptr, nli_adapter := None\<rparr>)"

definition nd_listener_move_assign ::
  "'n nd_api \<Rightarrow> nd_listener_impl \<Rightarrow> 'n nl_world \<Rightarrow> 'n nl_world \<times> nd_listener_impl" where
  "nd_listener_move_assign api other w =
     (w\<lparr>nlw_nd := nd_drop api (nli_listener (nlw_impl w)) (nli_handle (nlw_impl w)) (nlw_nd w),
        nlw_impl := other\<rparr>,
      other\<lparr>nli_listener := nullptr, nli_handle := nullptr, nli_adapter := None\<rparr>)"

subsection \<open>Opening, binding, listening\<close>

definition nd_listener_open ::
  "'n nd_api \<Rightarrow> nd_device_service \<Rightarrow> port_space \<Rightarrow> 'n nl_world \<Rightarrow> error_code \<times> 'n nl_world" where
  "nd_listener_open api ds ps w =
     (let impl = nlw_impl w in
      if nd_listener_is_open impl then (already_open, w)
      else if \<not> nds_registered ds then (make_error_code device_not_registered, w)
      else case nds_device ds of
        None \<Rightarrow> (no_error, w\<lparr>nlw_fault := True\<rparr>)
      | Some adapter \<Rightarrow>
          (case create_overlapped_file api (na_adapter adapter) (nlw_nd w) of
             (handle, ec, n1) \<Rightarrow>
               if is_error ec then (ec, w\<lparr>nlw_nd := n1\<rparr>)
               else
                 let n2 = (if is_closable_handle (nli_handle impl)
                           then nda_close_handle api n1 (nli_handle impl) else n1)
                 in case nd_create_listener api (na_adapter adapter) handle n2 of
                   (listener, ec, n3) \<Rightarrow>
                     if is_error ec
                     then (ec, w\<lparr>nlw_nd := nda_close_handle api n3 handle,
                                  nlw_impl := impl\<lparr>nli_listener := listener, nli_handle := nullptr\<rparr>\<rparr>)
                     else if is_error (nda_register_handle api handle)
                     then (nda_register_handle api handle,
                           w\<lparr>nlw_nd := nd_drop api listener handle n3,
                             nlw_impl := impl\<lparr>nli_listener := nullptr, nli_handle := nullptr\<rparr>\<rparr>)
                     else (nda_register_handle api handle,
                           w\<lparr>nlw_nd := n3,
                             nlw_impl := \<lparr>nli_listener = listener, nli_handle = handle,
                               nli_adapter = Some adapter, nli_bind_endpoint = nd_any_endpoint ps 0\<rparr>\<rparr>)))"

text \<open>\<open>bind\<close>: the address of the device in the family of the port space.\<close>

definition nd_listener_bind :: "'n nd_api \<Rightarrow> nat \<Rightarrow> 'n nl_world \<Rightarrow> error_code \<times> 'n nl_world" where
  "nd_listener_bind api port w =
     (let impl = nlw_impl w in
      if \<not> nd_listener_is_open impl then (make_error_code invalid_handle, w)
      else case nli_adapter impl of
        None \<Rightarrow> (no_error, w\<lparr>nlw_fault := True\<rparr>)
      | Some adapter \<Rightarrow>
          (case (case fst (nli_bind_endpoint impl) of
                   V4 _ \<Rightarrow> get_v4_address_nd adapter | V6 _ \<Rightarrow> get_v6_address_nd adapter) of
             Inl ec \<Rightarrow> (ec, w)
           | Inr address \<Rightarrow>
               (case nd_bind_addr api (nli_listener impl) (address, port) (nlw_nd w) of
                  (hr, ec, n) \<Rightarrow> (ec, w\<lparr>nlw_nd := n\<rparr>))))"

definition nd_listener_listen :: "'n nd_api \<Rightarrow> i32 \<Rightarrow> 'n nl_world \<Rightarrow> error_code \<times> 'n nl_world" where
  "nd_listener_listen api backlog_n w =
     (if \<not> nd_listener_is_open (nlw_impl w) then (make_error_code invalid_handle, w)
      else case nd_listen_call api (nli_listener (nlw_impl w)) backlog_n (nlw_nd w) of
        (ec, n) \<Rightarrow> (ec, w\<lparr>nlw_nd := n\<rparr>))"

definition nd_listener_cancel :: "'n nl_world \<Rightarrow> 'n nl_world" where
  "nd_listener_cancel w =
     (if is_closable_handle (nli_handle (nlw_impl w))
      then w\<lparr>nlw_pending := map (\<lambda>(op, _). (op, True)) (nlw_pending w)\<rparr> else w)"

subsection \<open>The wait for a request\<close>

definition nl_on_completion :: "nd_request_op \<Rightarrow> error_code \<Rightarrow> 'n nl_world \<Rightarrow> 'n nl_world" where
  "nl_on_completion op ec w = w\<lparr>nlw_posted := nlw_posted w @ [(op, ec)]\<rparr>"

definition nd_async_get_connection_request :: "'n nd_api \<Rightarrow> nat \<Rightarrow> 'n nl_world \<Rightarrow> 'n nl_world" where
  "nd_async_get_connection_request api h w =
     (let impl = nlw_impl w in
      if \<not> nd_listener_is_open impl \<or> nli_adapter impl = None
      then nl_on_completion \<lparr>nr_handle = nd_handle_empty, nr_handler = h\<rparr> (make_error_code invalid_handle) w
      else
        let adapter = the (nli_adapter impl) in
        case create_overlapped_file api (na_adapter adapter) (nlw_nd w) of
          (handle, ec, n1) \<Rightarrow>
            if is_error ec
            then nl_on_completion \<lparr>nr_handle = nd_handle_empty\<lparr>nh_adapter := Some adapter\<rparr>, nr_handler = h\<rparr> ec
              (w\<lparr>nlw_nd := n1\<rparr>)
            else case nd_create_connector api (na_adapter adapter) handle n1 of
              (connector, ec, n2) \<Rightarrow>
                let op = \<lparr>nr_handle = \<lparr>nh_connector = connector, nh_handle = handle,
                      nh_adapter = Some adapter\<rparr>, nr_handler = h\<rparr> in
                if is_error ec then nl_on_completion op ec (w\<lparr>nlw_nd := n2\<rparr>)
                else case nd_get_connection_request api (nli_listener impl) connector n2 of
                  (hr, ec, n3) \<Rightarrow>
                    if is_error ec then nl_on_completion op ec (w\<lparr>nlw_nd := n3\<rparr>)
                    else if hr = ND_PENDING
                    then w\<lparr>nlw_nd := n3, nlw_pending := nlw_pending w @ [(op, False)]\<rparr>
                    else nl_on_completion op ec (w\<lparr>nlw_nd := n3\<rparr>))"

definition nd_request_cancellation :: "u32 \<Rightarrow> nat \<Rightarrow> 'n nl_world \<Rightarrow> 'n nl_world" where
  "nd_request_cancellation type key w =
     (if (type AND 7) \<noteq> 0
      then w\<lparr>nlw_pending := map (\<lambda>(op, c). (op, c \<or> nr_handler op = key)) (nlw_pending w)\<rparr>
      else w)"

text \<open>The handle's members are destroyed in reverse order: the overlapped handle, then the connector.\<close>

definition nd_handle_drop :: "'n nd_api \<Rightarrow> nd_handle \<Rightarrow> 'n \<Rightarrow> 'n" where
  "nd_handle_drop api handle n =
     (let n1 = (if is_closable_handle (nh_handle handle) then nda_close_handle api n (nh_handle handle) else n)
      in if nh_connector handle \<noteq> nullptr then nda_release api n1 (nh_connector handle) else n1)"

text \<open>
  The private data of a request: the provider writes into a zeroed buffer of \<open>max_private_data_size\<close>
  bytes and reports the size, which may exceed the buffer.
\<close>

abbreviation nd_max_private_data_size :: nat where "nd_max_private_data_size \<equiv> 256"

definition nd_request_private_data :: "'n nd_api \<Rightarrow> error_code \<Rightarrow> ptr \<Rightarrow> 'n \<Rightarrow> u8 list" where
  "nd_request_private_data api ec connector n =
     (if \<not> is_error ec \<and> connector \<noteq> nullptr
      then case nda_get_private_data api n connector nd_max_private_data_size of
        (hr, bytes, pd_size) \<Rightarrow>
          if \<not> failed hr \<or> hr = ND_BUFFER_OVERFLOW
          then take (min pd_size nd_max_private_data_size)
                 (take nd_max_private_data_size (bytes @ replicate nd_max_private_data_size 0))
          else []
      else [])"

definition nd_request_do_complete ::
  "'n nd_api \<Rightarrow> bool \<Rightarrow> error_code \<Rightarrow> nd_request_op \<Rightarrow> 'n \<Rightarrow> nd_request_upcall option \<times> 'n" where
  "nd_request_do_complete api owner ec op n =
     (let pd = nd_request_private_data api ec (nh_connector (nr_handle op)) n in
      if owner
      then (Some \<lparr>nru_handler = nr_handler op, nru_ec = ec, nru_handle = nr_handle op,
              nru_private_data = pd\<rparr>, n)
      else (None, nd_handle_drop api (nr_handle op) n))"

definition nd_request_front :: "'n nd_api \<Rightarrow> bool \<Rightarrow> 'n nl_world \<Rightarrow> 'n nl_world" where
  "nd_request_front api owner w =
     (case nlw_posted w of
        [] \<Rightarrow> w
      | (op, ec) # ops \<Rightarrow>
          (case nd_request_do_complete api owner ec op (nlw_nd w) of
             (u, n) \<Rightarrow>
               w\<lparr>nlw_nd := n, nlw_posted := ops,
                 nlw_upcalls := nlw_upcalls w @ (case u of None \<Rightarrow> [] | Some x \<Rightarrow> [x])\<rparr>))"

subsection \<open>Completion adapters\<close>

text \<open>
  The request is copied into the caller's buffer of \<open>cap\<close> bytes, the connector adopts the handle, and
  what is left of the handle is destroyed. The return form starts from a new connector.
\<close>

definition nd_get_connection_fill_adapter ::
  "'n nd_api \<Rightarrow> nat \<Rightarrow> nd_connector_impl \<Rightarrow> nd_request_upcall \<Rightarrow> 'n
   \<Rightarrow> error_code \<times> nd_connector_impl \<times> u8 list \<times> 'n" where
  "nd_get_connection_fill_adapter api cap conn u n =
     (if is_error (nru_ec u) then (nru_ec u, conn, [], nd_handle_drop api (nru_handle u) n)
      else
        let written = take (min (length (nru_private_data u)) cap) (nru_private_data u) in
        case nd_assign api (nru_handle u) conn of (aec, handle, conn') \<Rightarrow>
          (if is_error aec then aec else nru_ec u, conn', written, nd_handle_drop api handle n))"

definition nd_get_connection_adapter ::
  "'n nd_api \<Rightarrow> nat \<Rightarrow> nd_request_upcall \<Rightarrow> 'n \<Rightarrow> error_code \<times> nd_connector_impl \<times> u8 list \<times> 'n" where
  "nd_get_connection_adapter api cap u n = nd_get_connection_fill_adapter api cap nd_construct u n"

subsection \<open>Steps\<close>

text \<open>
  \<open>env\<close> is what the provider may do on its own. A request ends with \<open>ERROR_OPERATION_ABORTED\<close> only if
  it was cancelled or the listener's handle was closed.
\<close>

inductive nl_step ::
  "'n nd_api \<Rightarrow> nd_device_service \<Rightarrow> ('n \<Rightarrow> 'n \<Rightarrow> bool) \<Rightarrow> 'n nl_world \<Rightarrow> nat multiset \<Rightarrow> 'n nl_world \<Rightarrow> bool"
  for api ds env where
  nl_open: "nl_step api ds env w {#} (snd (nd_listener_open api ds ps w))"
| nl_bind: "nl_step api ds env w {#} (snd (nd_listener_bind api port w))"
| nl_listen: "nl_step api ds env w {#} (snd (nd_listener_listen api backlog_n w))"
| nl_get: "nl_step api ds env w {#h#} (nd_async_get_connection_request api h w)"
| nl_cancel: "nl_step api ds env w {#} (nd_listener_cancel w)"
| nl_cancel_op: "nl_step api ds env w {#} (nd_request_cancellation type key w)"
| nl_destroy: "nl_step api ds env w {#} (nd_listener_destroy api w)"
| nl_kernel: "nlw_pending w = xs @ (op, cancelled) # ys \<Longrightarrow>
    (ec = nd_operation_aborted \<longrightarrow> cancelled \<or> \<not> nd_listener_is_open (nlw_impl w)) \<Longrightarrow>
    nl_step api ds env w {#} (w\<lparr>nlw_pending := xs @ ys, nlw_posted := nlw_posted w @ [(op, ec)]\<rparr>)"
| nl_deliver: "nl_step api ds env w {#} (nd_request_front api True w)"
| nl_provider: "env (nlw_nd w) n \<Longrightarrow> nl_step api ds env w {#} (w\<lparr>nlw_nd := n\<rparr>)"

subsection \<open>Handlers\<close>

definition nl_owed :: "'n nl_world \<Rightarrow> nat multiset" where
  "nl_owed w = mset (map (nr_handler \<circ> fst) (nlw_pending w)) + mset (map (nr_handler \<circ> fst) (nlw_posted w))"

definition nl_invoked :: "'n nl_world \<Rightarrow> nat multiset" where
  "nl_invoked w = mset (map nru_handler (nlw_upcalls w))"

lemma nl_open_books [simp]:
  "nl_owed (snd (nd_listener_open api ds ps w)) = nl_owed w"
  "nl_invoked (snd (nd_listener_open api ds ps w)) = nl_invoked w"
  "nl_owed (snd (nd_listener_bind api port w)) = nl_owed w"
  "nl_invoked (snd (nd_listener_bind api port w)) = nl_invoked w"
  by (simp_all add: nd_listener_open_def nd_listener_bind_def nl_owed_def nl_invoked_def Let_def
      split: prod.split option.split sum.split)

lemma nl_get_books:
  "nl_owed (nd_async_get_connection_request api h w) = add_mset h (nl_owed w)"
  "nl_invoked (nd_async_get_connection_request api h w) = nl_invoked w"
  by (simp_all add: nd_async_get_connection_request_def nl_on_completion_def nl_owed_def nl_invoked_def Let_def
      split: prod.split)

lemma nl_step_balance:
  "nl_step api ds env w hs w' \<Longrightarrow> nl_owed w' + nl_invoked w' = nl_owed w + nl_invoked w + hs"
proof (induction rule: nl_step.induct)
  case (nl_deliver w)
  then show ?case
    by (auto simp: nd_request_front_def nd_request_do_complete_def nl_owed_def nl_invoked_def Let_def split: list.split)
next
  case (nl_get w h)
  then show ?case by (simp add: nl_get_books)
next
  case (nl_open w ps)
  then show ?case by simp
next
  case (nl_bind w port)
  then show ?case by simp
qed (auto simp: nd_listener_listen_def nd_listener_cancel_def nd_request_cancellation_def
    nd_listener_destroy_def nl_owed_def nl_invoked_def case_prod_beta multiset.map_comp comp_def)

interpretation nl_ledger: handler_ledger "nl_step api ds env" nl_owed nl_invoked for api ds env
  by unfold_locales (rule nl_step_balance)

text \<open>
  For every sequence of calls on a NetworkDirect listener (open, bind, listen, waits for a connection,
  cancellations, destruction), of requests the kernel finishes and of completions the scheduler delivers,
  each handler waiting for a connection request is held by exactly one operation until it is invoked, at
  most once; when no operation is left, every handler was invoked exactly once.
\<close>

theorem nd_listener_handlers_exactly_once:
  assumes "labelled_run (nl_step api ds env) w hs w'" and "nl_owed w = {#}" and "nl_invoked w = {#}"
  shows "nl_owed w' + nl_invoked w' = hs \<and> (nl_owed w' = {#} \<longrightarrow> nl_invoked w' = hs)"
  by (rule nl_ledger.exactly_once [OF assms])

subsection \<open>Objects\<close>

abbreviation handle_objs :: "nd_handle \<Rightarrow> ptr multiset" where
  "handle_objs x \<equiv> pair_objs (nh_connector x) (nh_handle x)"

definition nl_objs :: "'n nl_world \<Rightarrow> ptr multiset" where
  "nl_objs w = pair_objs (nli_listener (nlw_impl w)) (nli_handle (nlw_impl w)) +
     sum_list (map (handle_objs \<circ> nr_handle \<circ> fst) (nlw_pending w)) +
     sum_list (map (handle_objs \<circ> nr_handle \<circ> fst) (nlw_posted w)) +
     sum_list (map (handle_objs \<circ> nru_handle) (nlw_upcalls w))"

text \<open>The calls that create and destroy nothing, beside the laws on handles and factories.\<close>

definition nd_listener_law :: "('n \<Rightarrow> ptr set) \<Rightarrow> 'n nd_api \<Rightarrow> bool" where
  "nd_listener_law live api \<longleftrightarrow>
     nd_handle_law live api \<and>
     (\<forall>a. nd_factory_law live (nd_create_connector api a) \<and> nd_factory_law live (nd_create_listener api a)) \<and>
     (\<forall>n l e. live (snd (nda_bind api n l e)) = live n) \<and>
     (\<forall>n l b. live (snd (nda_listen api n l b)) = live n) \<and>
     (\<forall>n l c. live (snd (nda_get_connection_request api n l c)) = live n)"

definition nl_wf :: "'n nl_world \<Rightarrow> bool" where
  "nl_wf w \<longleftrightarrow> \<not> nlw_fault w \<and>
     (if nd_listener_is_open (nlw_impl w) then nli_adapter (nlw_impl w) \<noteq> None
      else \<not> is_closable_handle (nli_handle (nlw_impl w)))"

text \<open>Everything alive is owned once: by \<open>X\<close>, the rest of the program, or within the listener.\<close>

definition nl_account :: "('n \<Rightarrow> ptr set) \<Rightarrow> ptr multiset \<Rightarrow> 'n nl_world \<Rightarrow> bool" where
  "nl_account live X w \<longleftrightarrow>
     nl_wf w \<and> finite (live (nlw_nd w)) \<and> mset_set (live (nlw_nd w)) = X + nl_objs w"

lemma nd_listener_lawD:
  assumes "nd_listener_law live api"
  shows "nd_handle_law live api" "nd_factory_law live (nd_create_connector api a)"
    "nd_factory_law live (nd_create_listener api a)" "live (snd (nda_bind api n l e)) = live n"
    "live (snd (nda_listen api n l b)) = live n" "live (snd (nda_get_connection_request api n l c)) = live n"
  using assms unfolding nd_listener_law_def by blast+

lemma nd_handle_drop_objs:
  assumes "nd_handle_law live api" and "finite (live n)" and "mset_set (live n) = X + handle_objs x"
  shows "mset_set (live (nd_handle_drop api x n)) = X \<and> finite (live (nd_handle_drop api x n))"
proof -
  have "live (nd_handle_drop api x n) = live n - (if nh_connector x \<noteq> nullptr then {nh_connector x} else {}) -
      (if is_closable_handle (nh_handle x) then {nh_handle x} else {})"
    by (auto simp: nd_handle_drop_def Let_def nd_handle_lawD(2,3) [OF assms(1)])
  then show ?thesis using pair_removed [OF assms(2,3)] assms(2) by simp
qed

lemma nd_listener_open_cases:
  assumes "nd_listener_law live api" and "nl_wf w" and "nd_device_wf ds"
    and r: "nd_listener_open api ds ps w = (ec, w')"
  obtains "w' = w"
  | a c h n' hd where "\<not> nd_listener_is_open (nlw_impl w)"
      "nd_open_pair api (nd_create_listener api a) a (nlw_nd w) = (ec, c, h, n')" "is_error ec"
      "\<not> is_closable_handle hd"
      "w' = w\<lparr>nlw_nd := n', nlw_impl := (nlw_impl w)\<lparr>nli_listener := nullptr, nli_handle := hd\<rparr>\<rparr>"
  | a d c h n' where "\<not> nd_listener_is_open (nlw_impl w)"
      "nd_open_pair api (nd_create_listener api a) a (nlw_nd w) = (ec, c, h, n')" "\<not> is_error ec"
      "w' = w\<lparr>nlw_nd := n', nlw_impl := \<lparr>nli_listener = c, nli_handle = h, nli_adapter = Some d,
         nli_bind_endpoint = nd_any_endpoint ps 0\<rparr>\<rparr>"
proof (cases "nd_listener_is_open (nlw_impl w) \<or> \<not> nds_registered ds")
  case True
  then show thesis using that(1) r by (auto simp: nd_listener_open_def Let_def split: if_splits)
next
  case False
  then obtain d where d: "nds_device ds = Some d" using assms(3) by (auto simp: nd_device_wf_def)
  have hd: "\<not> is_closable_handle (nli_handle (nlw_impl w))" "nli_listener (nlw_impl w) = nullptr"
    using False assms(2) by (simp_all add: nl_wf_def nd_listener_is_open_def)
  have nh: "\<not> is_closable_handle nullptr" by (simp add: is_closable_handle_def)
  obtain h' e1 n1 where f: "create_overlapped_file api (na_adapter d) (nlw_nd w) = (h', e1, n1)" by (metis prod_cases3)
  obtain c' e2 n2 where k: "nd_create_listener api (na_adapter d) h' n1 = (c', e2, n2)" by (metis prod_cases3)
  have c0: "is_error e2 \<Longrightarrow> c' = nullptr"
    using nd_factory_lawD [OF nd_listener_lawD(3) [OF assms(1)] k] by simp
  consider "is_error e1" | "\<not> is_error e1" "is_error e2" |
    "\<not> is_error e1" "\<not> is_error e2" "is_error (nda_register_handle api h')" |
    "\<not> is_error e1" "\<not> is_error e2" "\<not> is_error (nda_register_handle api h')" by blast
  then show thesis
  proof cases
    case 1
    then have "nd_open_pair api (nd_create_listener api (na_adapter d)) (na_adapter d) (nlw_nd w) =
        (ec, nullptr, nullptr, n1)" "w' = w\<lparr>nlw_nd := n1\<rparr>" "is_error ec"
      using r False d f hd by (auto simp: nd_listener_open_def nd_open_pair_def Let_def)
    then show thesis using False hd that(2) [of "na_adapter d" nullptr nullptr n1 "nli_handle (nlw_impl w)"] by simp
  next
    case 2
    then show thesis using r False d f k hd c0 nh
        that(2) [of "na_adapter d" nullptr nullptr "nda_close_handle api n2 h'" nullptr]
      by (simp add: nd_listener_open_def nd_open_pair_def Let_def)
  next
    case 3
    then show thesis using r False d f k hd nh
        that(2) [of "na_adapter d" nullptr nullptr "nd_drop api c' h' n2" nullptr]
      by (simp add: nd_listener_open_def nd_open_pair_def Let_def)
  next
    case 4
    then show thesis using r False d f k hd that(3) [of "na_adapter d" c' h' n2 d]
      by (simp add: nd_listener_open_def nd_open_pair_def Let_def)
  qed
qed

lemma nl_open_account:
  assumes "nd_listener_law live api" and "nd_device_wf ds" and "nl_account live X w"
  shows "nl_account live X (snd (nd_listener_open api ds ps w))"
proof -
  obtain ec w' where r: "nd_listener_open api ds ps w = (ec, w')" by fastforce
  have wf: "nl_wf w" and fin: "finite (live (nlw_nd w))" and bal: "mset_set (live (nlw_nd w)) = X + nl_objs w"
    using assms(3) by (simp_all add: nl_account_def)
  note O = nd_open_pair_objs [OF nd_listener_lawD(1) [OF assms(1)] nd_listener_lawD(3) [OF assms(1)] _ fin]
  from assms(1) wf assms(2) r show ?thesis
  proof (cases rule: nd_listener_open_cases)
    case 1
    then show ?thesis using r assms(3) by simp
  next
    case (2 a c h n' hd)
    have "mset_set (live n') = mset_set (live (nlw_nd w)) + pair_objs c h" "finite (live n')"
      "c = nullptr" "\<not> is_closable_handle h" using O [OF 2(2)] 2(3) by simp_all
    then show ?thesis using 2 r wf bal
      by (simp add: nl_account_def nl_wf_def nd_listener_is_open_def nl_objs_def pair_objs_def)
  next
    case (3 a d c h n')
    have "mset_set (live n') = mset_set (live (nlw_nd w)) + pair_objs c h" "finite (live n')"
      "c \<noteq> nullptr" using O [OF 3(2)] 3(3) by simp_all
    moreover have "pair_objs (nli_listener (nlw_impl w)) (nli_handle (nlw_impl w)) = {#}"
      using wf 3(1) by (simp add: nl_wf_def nd_listener_is_open_def pair_objs_def)
    ultimately show ?thesis using 3 r wf bal
      by (simp add: nl_account_def nl_wf_def nd_listener_is_open_def nl_objs_def ac_simps)
  qed
qed

lemma nl_get_account:
  assumes "nd_listener_law live api" and "nl_account live X w"
  shows "nl_account live X (nd_async_get_connection_request api h w)"
proof (cases "\<not> nd_listener_is_open (nlw_impl w) \<or> nli_adapter (nlw_impl w) = None")
  case True
  then show ?thesis using assms(2)
    by (simp add: nd_async_get_connection_request_def nl_on_completion_def nl_account_def nl_wf_def nl_objs_def
        nd_handle_empty_def)
next
  case False
  then obtain d where d: "nli_adapter (nlw_impl w) = Some d" "nd_listener_is_open (nlw_impl w)" by auto
  have fin: "finite (live (nlw_nd w))" using assms(2) by (simp add: nl_account_def)
  obtain h' e1 n1 where f: "create_overlapped_file api (na_adapter d) (nlw_nd w) = (h', e1, n1)" by (metis prod_cases3)
  obtain c e2 n2 where k: "nd_create_connector api (na_adapter d) h' n1 = (c, e2, n2)" by (metis prod_cases3)
  obtain hr e3 n3 where g: "nd_get_connection_request api (nli_listener (nlw_impl w)) c n2 = (hr, e3, n3)"
    by (metis prod_cases3)
  note F = create_overlapped_file_live [OF nd_listener_lawD(1) [OF assms(1)] f]
  note K = nd_factory_lawD [OF nd_listener_lawD(2) [OF assms(1)] k]
  have G: "live n3 = live n2"
    using g nd_listener_lawD(6) [OF assms(1), of n2 "nli_listener (nlw_impl w)" c]
    by (auto simp: nd_get_connection_request_def nd_overlapped_def split: prod.splits)
  note run = nd_async_get_connection_request_def nl_on_completion_def nl_account_def nl_wf_def nl_objs_def
    nd_handle_empty_def Let_def
  show ?thesis
  proof (cases "is_error e1")
    case True
    then show ?thesis using assms(2) d f F by (simp add: run)
  next
    case ok: False
    have "mset_set (live n2) = mset_set (live (nlw_nd w)) + pair_objs c h' \<and> finite (live n2)"
      using ok F K fin by (cases "is_error e2") (simp_all add: pair_objs_def)
    then show ?thesis using assms(2) d f k g G ok by (auto simp: run)
  qed
qed

lemma nl_step_account:
  assumes "nl_step api ds env w hs w'" and "nd_listener_law live api" and "nd_device_wf ds"
    and "\<And>n n'. env n n' \<Longrightarrow> live n' = live n" and "nl_account live X w"
  shows "nl_account live X w'"
  using assms(1,5)
proof (induction rule: nl_step.induct)
  case (nl_open w ps)
  then show ?case using nl_open_account assms(2,3) by blast
next
  case (nl_bind w port)
  then show ?case using nd_listener_lawD(4) [OF assms(2)]
    by (auto simp: nd_listener_bind_def nd_bind_addr_def nl_account_def nl_wf_def nl_objs_def Let_def case_prod_beta
        split: option.split sum.split)
next
  case (nl_listen w backlog_n)
  then show ?case using nd_listener_lawD(5) [OF assms(2)]
    by (auto simp: nd_listener_listen_def nd_listen_call_def nl_account_def nl_wf_def nl_objs_def case_prod_beta)
next
  case (nl_get w h)
  then show ?case using nl_get_account assms(2) by blast
next
  case (nl_destroy w)
  then have "mset_set (live (nlw_nd w)) = (X +
      sum_list (map (handle_objs \<circ> nr_handle \<circ> fst) (nlw_pending w)) +
      sum_list (map (handle_objs \<circ> nr_handle \<circ> fst) (nlw_posted w)) +
      sum_list (map (handle_objs \<circ> nru_handle) (nlw_upcalls w))) +
      pair_objs (nli_listener (nlw_impl w)) (nli_handle (nlw_impl w))"
    by (simp add: nl_account_def nl_objs_def ac_simps)
  from nd_drop_objs [OF nd_listener_lawD(1) [OF assms(2)] _ this] nl_destroy show ?case
    by (simp add: nd_listener_destroy_def nl_account_def nl_wf_def nl_objs_def nd_listener_is_open_def
        is_closable_handle_def ac_simps)
next
  case (nl_deliver w)
  then show ?case
    by (auto simp: nd_request_front_def nd_request_do_complete_def nl_account_def nl_wf_def nl_objs_def Let_def
        ac_simps split: list.split)
qed (auto simp: nd_listener_cancel_def nd_request_cancellation_def nl_account_def nl_wf_def nl_objs_def
    case_prod_beta comp_def ac_simps assms(4) split: if_splits)

text \<open>
  No run of a NetworkDirect listener loses or doubles an object of the provider: whatever is alive is
  owned exactly once, by the rest of the program, by the listener, by one operation waiting for a
  connection or by one handler that was given its connection, and no null adapter is dereferenced. When
  the listener is destroyed and no operation is left, exactly the connections handed to handlers remain.
\<close>

theorem nd_listener_conserves_objects:
  assumes "labelled_run (nl_step api ds env) w hs w'" and "nd_listener_law live api" and "nd_device_wf ds"
    and "\<And>n n'. env n n' \<Longrightarrow> live n' = live n" and "nl_account live X w"
  shows "nl_account live X w' \<and>
    (\<not> nd_listener_is_open (nlw_impl w') \<and> nlw_pending w' = [] \<and> nlw_posted w' = [] \<longrightarrow>
      mset_set (live (nlw_nd w')) = X + sum_list (map (handle_objs \<circ> nru_handle) (nlw_upcalls w')))"
proof -
  have "nl_account live X w'"
    using run_invariant [OF assms(1), of "nl_account live X"] nl_step_account [OF _ assms(2-4)] assms(5) by blast
  then show ?thesis
    by (auto simp: nl_account_def nl_objs_def nl_wf_def nd_listener_is_open_def pair_objs_def)
qed

text \<open>
  C23. Handing a connection request to a connector moves the ownership: on success the connector, which
  was not open, owns exactly the connector object and the handle of the request, is idle, and the caller's
  buffer holds the private data up to its size; on every error the connector is what it was and the objects
  of the request are released. No object is lost or released twice.
\<close>

theorem nd_get_connection_ownership:
  assumes "nd_handle_law live api" and "finite (live n)"
    and "mset_set (live n) = X + handle_objs (nru_handle u) + pair_objs (ni_connector conn) (ni_handle conn)"
    and "\<not> nd_is_open conn \<longrightarrow> \<not> is_closable_handle (ni_handle conn)"
    and "nd_get_connection_fill_adapter api cap conn u n = (ec, conn', bytes, n')"
  shows "mset_set (live n') = X + pair_objs (ni_connector conn') (ni_handle conn') \<and> length bytes \<le> cap \<and>
    (if is_error ec then conn' = conn
     else \<not> nd_is_open conn \<and> ni_connector conn' = nh_connector (nru_handle u) \<and>
       ni_handle conn' = nh_handle (nru_handle u) \<and> nd_is_open conn' \<and> ni_state conn' = ns_idle \<and>
       bytes = take cap (nru_private_data u))"
proof -
  obtain aec x k where a: "nd_assign api (nru_handle u) conn = (aec, x, k)" by (metis prod_cases3)
  have drop: "mset_set (live (nd_handle_drop api (nru_handle u) n)) = X + pair_objs (ni_connector conn) (ni_handle conn)"
    using nd_handle_drop_objs [OF assms(1,2), of "X + pair_objs (ni_connector conn) (ni_handle conn)"] assms(3)
    by (simp add: ac_simps)
  consider (refused) "is_error (nru_ec u)" | (kept) "\<not> is_error (nru_ec u)" "is_error aec" "x = nru_handle u" "k = conn"
    | (adopted) "\<not> is_error (nru_ec u)" "\<not> is_error aec" "x = nd_handle_empty" "\<not> nd_is_open conn"
      "nh_connector (nru_handle u) \<noteq> nullptr"
      "k = \<lparr>ni_connector = nh_connector (nru_handle u), ni_handle = nh_handle (nru_handle u),
             ni_adapter = nh_adapter (nru_handle u), ni_state = ns_idle, ni_peer_closed = False\<rparr>"
    using a by (cases "is_error (nru_ec u)") (auto simp: nd_assign_def split: if_splits)
  then show ?thesis
  proof cases
    case refused
    then show ?thesis using assms(5) drop by (auto simp: nd_get_connection_fill_adapter_def)
  next
    case kept
    then show ?thesis using assms(5) a drop by (auto simp: nd_get_connection_fill_adapter_def Let_def)
  next
    case adopted
    have "nd_handle_drop api nd_handle_empty n = n"
      by (simp add: nd_handle_drop_def nd_handle_empty_def is_closable_handle_def)
    then have "(ec, conn', bytes, n') = (nru_ec u, k, take (min (length (nru_private_data u)) cap) (nru_private_data u), n)"
      using assms(5) [symmetric] a adopted(1-3) by (simp add: nd_get_connection_fill_adapter_def Let_def)
    moreover have "pair_objs (ni_connector conn) (ni_handle conn) = {#}"
      using adopted(4) assms(4) by (simp add: pair_objs_def nd_is_open_def)
    ultimately show ?thesis using adopted assms(3) by (simp add: nd_is_open_def min_def)
  qed
qed

lemma nd_request_private_data_bytes:
  assumes "\<not> is_error ec" and "c \<noteq> nullptr" and "\<not> failed hr"
    and "nda_get_private_data api n c nd_max_private_data_size = (hr, bytes, length bytes)" and "length bytes \<le> 256"
  shows "nd_request_private_data api ec c n = bytes"
  using assms by (simp add: nd_request_private_data_def)

subsection \<open>A concrete run\<close>

lemma nd_fifo_listener_law: "nd_listener_law nd_fifo_live nd_fifo_api"
proof -
  have "nd_factory_law nd_fifo_live (nd_create_connector nd_fifo_api a)"
    "nd_factory_law nd_fifo_live (nd_create_listener nd_fifo_api a)" for a
    by (auto simp: nd_factory_law_def nd_create_connector_def nd_create_listener_def nd_fifo_api_def
        nd_fifo_alloc_def nd_fifo_live_def is_closable_handle_def)
  then show ?thesis
    using nd_fifo_resource_laws(1) by (simp add: nd_listener_law_def nd_fifo_api_def)
qed

definition nd_example_service :: nd_device_service where
  "nd_example_service = nd_register_device (Some nd_example_adapter) default_config nd_device_service_new"

lemma nd_example_service_wf: "nd_device_wf nd_example_service"
  by (simp add: nd_example_service_def nd_register_device_def nd_device_wf_def)

definition nl_example_world :: "nd_fifo nl_world" where
  "nl_example_world =
     \<lparr>nlw_nd = \<lparr>nf_requests = [], nf_next = 16, nf_live = []\<rparr>, nlw_impl = nd_listener_construct,
      nlw_pending = [], nlw_posted = [], nlw_upcalls = [], nlw_fault = False\<rparr>"

text \<open>The listener opens, waits for a connection, the request arrives, the listener is destroyed.\<close>

definition nl_example_opened :: "nd_fifo nl_world" where
  "nl_example_opened = nd_async_get_connection_request nd_fifo_api 3
     (snd (nd_listener_open nd_fifo_api nd_example_service PS_v4 nl_example_world))"

definition nl_example_arrived :: "nd_fifo nl_world" where
  "nl_example_arrived = nl_example_opened\<lparr>nlw_pending := [],
     nlw_posted := nlw_posted nl_example_opened @ [(fst (hd (nlw_pending nl_example_opened)), no_error)]\<rparr>"

definition nl_example_final :: "nd_fifo nl_world" where
  "nl_example_final = nd_listener_destroy nd_fifo_api (nd_request_front nd_fifo_api True nl_example_arrived)"

abbreviation nl_example_run :: "nat multiset \<Rightarrow> nd_fifo nl_world \<Rightarrow> bool" where
  "nl_example_run \<equiv> labelled_run (nl_step nd_fifo_api nd_example_service (=)) nl_example_world"

lemma nl_example_final_run: "nl_example_run {#3#} nl_example_final"
proof -
  have "nl_example_run {#} (snd (nd_listener_open nd_fifo_api nd_example_service PS_v4 nl_example_world))"
    by (intro run_one nl_open)
  from run_step [OF this nl_get] have o: "nl_example_run {#3#} nl_example_opened"
    by (simp add: nl_example_opened_def)
  have "map snd (nlw_pending nl_example_opened) = [False]" by code_simp
  then have "nlw_pending nl_example_opened = [] @ (fst (hd (nlw_pending nl_example_opened)), False) # []"
    by (cases "nlw_pending nl_example_opened") auto
  from run_step [OF o nl_kernel [OF this, of no_error]] have "nl_example_run {#3#} nl_example_arrived"
    by (simp add: nl_example_arrived_def)
  from run_step [OF run_step [OF this nl_deliver] nl_destroy] show ?thesis by (simp add: nl_example_final_def)
qed

theorem nd_listener_handlers_exactly_once_witness:
  "nl_owed nl_example_final + nl_invoked nl_example_final = {#3#} \<and> nl_invoked nl_example_final = {#3#}"
proof -
  have "nlw_pending nl_example_final = []" "nlw_posted nl_example_final = []" by code_simp+
  then have "nl_owed nl_example_final = {#}" by (simp add: nl_owed_def)
  then show ?thesis
    using nd_listener_handlers_exactly_once [OF nl_example_final_run]
    by (simp add: nl_owed_def nl_invoked_def nl_example_world_def)
qed

lemma nl_example_account: "nl_account nd_fifo_live {#} nl_example_world"
  by (simp add: nl_account_def nl_wf_def nl_objs_def nl_example_world_def nd_listener_construct_def
      nd_listener_is_open_def nd_fifo_live_def is_closable_handle_def)

lemma nl_example_handed:
  obtains u where "nlw_upcalls nl_example_final = [u]" "\<not> is_error (nru_ec u)"
    "nh_connector (nru_handle u) = 19" "nh_handle (nru_handle u) = 18" "nru_private_data u = []"
proof -
  have "map (\<lambda>u. (is_error (nru_ec u), nh_connector (nru_handle u), nh_handle (nru_handle u), nru_private_data u))
      (nlw_upcalls nl_example_final) = [(False, 19, 18, [])]" by code_simp
  then show thesis using that by (auto simp: map_eq_Cons_conv)
qed

theorem nd_listener_conserves_objects_witness:
  "mset_set (nd_fifo_live (nlw_nd nl_example_final)) = {#19, 18#}"
proof -
  obtain u where u: "nlw_upcalls nl_example_final = [u]" "nh_connector (nru_handle u) = 19"
    "nh_handle (nru_handle u) = 18" using nl_example_handed by blast
  have "nlw_pending nl_example_final = [] \<and> nlw_posted nl_example_final = [] \<and>
      \<not> nd_listener_is_open (nlw_impl nl_example_final)" by code_simp
  then show ?thesis
    using nd_listener_conserves_objects [OF nl_example_final_run nd_fifo_listener_law nd_example_service_wf _
        nl_example_account] u by (simp add: pair_objs_def is_closable_handle_def)
qed

theorem nd_get_connection_ownership_witness:
  "\<exists>ec conn' bytes n'. nd_get_connection_adapter nd_fifo_api 8 (hd (nlw_upcalls nl_example_final))
      (nlw_nd nl_example_final) = (ec, conn', bytes, n') \<and> \<not> is_error ec \<and> nd_is_open conn' \<and>
     mset_set (nd_fifo_live n') = pair_objs (ni_connector conn') (ni_handle conn')"
proof -
  obtain u where u: "nlw_upcalls nl_example_final = [u]" "\<not> is_error (nru_ec u)"
    "nh_connector (nru_handle u) = 19" "nh_handle (nru_handle u) = 18" using nl_example_handed by blast
  have live: "mset_set (nd_fifo_live (nlw_nd nl_example_final)) = {#} + handle_objs (nru_handle u) +
      pair_objs (ni_connector nd_construct) (ni_handle nd_construct)"
  proof -
    have "nf_live (nlw_nd nl_example_final) = [19, 18]" by code_simp
    then show ?thesis using u by (simp add: nd_fifo_live_def pair_objs_def is_closable_handle_def nd_construct_def)
  qed
  obtain ec conn' bytes n' where r: "nd_get_connection_fill_adapter nd_fifo_api 8 nd_construct u
      (nlw_nd nl_example_final) = (ec, conn', bytes, n')" by (metis prod_cases4)
  have "\<not> is_error (fst (nd_get_connection_adapter nd_fifo_api 8 (hd (nlw_upcalls nl_example_final))
      (nlw_nd nl_example_final)))" by code_simp
  then have "\<not> is_error ec" using r u(1) by (simp add: nd_get_connection_adapter_def)
  moreover have "finite (nd_fifo_live (nlw_nd nl_example_final))" by (simp add: nd_fifo_live_def)
  ultimately show ?thesis
    using nd_get_connection_ownership [OF nd_fifo_resource_laws(1) _ live _ r] r u(1)
    by (simp add: nd_get_connection_adapter_def nd_construct_def is_closable_handle_def)
qed

end
