(* ===== verification/ND_Listener_Service.thy ===== *)
theory ND_Listener_Service
  imports ND_Listener Service_Base
begin

text \<open>
  All listeners of a context on NetworkDirect: the lifecycle of \<open>nd/detail/nd_service_listener.hpp\<close> over the
  intrusive list. The requests of all listeners are in one completion port; one is identified by the overlapped
  handle of the listener it was issued on, which a move hands on. A request works on the connector object it owns and
  never on its listener, so nothing but its cancellation depends on the listener's life.
\<close>

subsection \<open>State\<close>

record 'n nd_listener_service =
  nls_nd :: 'n
  nls_list :: impl_list
  nls_impl :: "ptr \<Rightarrow> nd_listener_impl option"
  nls_pending :: "(ptr \<times> nd_request_op \<times> bool) list"
  nls_posted :: "(nd_request_op \<times> error_code) list"
  nls_upcalls :: "nd_request_upcall list"
  nls_fault :: bool

definition nls_focus :: "nd_listener_impl \<Rightarrow> 'n nd_listener_service \<Rightarrow> 'n nl_world" where
  "nls_focus i s =
     \<lparr>nlw_nd = nls_nd s, nlw_impl = i,
      nlw_pending = map snd (filter (\<lambda>f. fst f = nli_handle i) (nls_pending s)),
      nlw_posted = nls_posted s, nlw_upcalls = nls_upcalls s, nlw_fault = nls_fault s\<rparr>"

text \<open>No call both opens a listener and issues a request, so what is pending is pending on the handle it had.\<close>

definition nls_return ::
  "ptr \<Rightarrow> nd_listener_impl \<Rightarrow> 'n nl_world \<Rightarrow> 'n nd_listener_service \<Rightarrow> 'n nd_listener_service" where
  "nls_return p i w s =
     s\<lparr>nls_nd := nlw_nd w, nls_impl := (nls_impl s)(p \<mapsto> nlw_impl w),
       nls_pending := filter (\<lambda>f. fst f \<noteq> nli_handle i) (nls_pending s) @ map (Pair (nli_handle i)) (nlw_pending w),
       nls_posted := nlw_posted w, nls_upcalls := nlw_upcalls w, nls_fault := nlw_fault w\<rparr>"

subsection \<open>Lifecycle\<close>

text \<open>Closing a file cancels the requests on it.\<close>

definition nls_cancel_on :: "ptr \<Rightarrow> (ptr \<times> nd_request_op \<times> bool) list \<Rightarrow> (ptr \<times> nd_request_op \<times> bool) list" where
  "nls_cancel_on h = map (\<lambda>(k, op, c). (k, op, c \<or> is_closable_handle h \<and> k = h))"

definition nls_reset :: "'n nd_api \<Rightarrow> ptr \<Rightarrow> 'n nd_listener_service \<Rightarrow> 'n nd_listener_service" where
  "nls_reset api p s =
     (case nls_impl s p of
        None \<Rightarrow> s
      | Some i \<Rightarrow>
          (let w = nd_listener_destroy api (nls_focus i s)
           in s\<lparr>nls_nd := nlw_nd w, nls_impl := (nls_impl s)(p \<mapsto> nlw_impl w),
                nls_pending := nls_cancel_on (nli_handle i) (nls_pending s)\<rparr>))"

definition nls_construct :: "ptr \<Rightarrow> 'n nd_listener_service \<Rightarrow> 'n nd_listener_service" where
  "nls_construct p s =
     s\<lparr>nls_list := nd_do_insert p (nls_list s), nls_impl := (nls_impl s)(p \<mapsto> nd_listener_construct)\<rparr>"

definition nls_destroy :: "'n nd_api \<Rightarrow> ptr \<Rightarrow> 'n nd_listener_service \<Rightarrow> 'n nd_listener_service" where
  "nls_destroy api p s =
     (let s1 = nls_reset api p s
      in s1\<lparr>nls_list := nd_do_remove p (nls_list s1), nls_impl := (nls_impl s1)(p := None)\<rparr>)"

definition nls_move_construct :: "ptr \<Rightarrow> ptr \<Rightarrow> 'n nd_listener_service \<Rightarrow> 'n nd_listener_service" where
  "nls_move_construct p q s =
     (case nls_impl s q of
        None \<Rightarrow> s
      | Some other \<Rightarrow>
          (case nd_listener_move_construct other of
             (i, j) \<Rightarrow> s\<lparr>nls_list := nd_do_insert p (nls_list s), nls_impl := (nls_impl s)(p \<mapsto> i, q \<mapsto> j)\<rparr>))"

definition nls_move_assign :: "'n nd_api \<Rightarrow> ptr \<Rightarrow> ptr \<Rightarrow> 'n nd_listener_service \<Rightarrow> 'n nd_listener_service" where
  "nls_move_assign api p q s =
     (case (nls_impl s p, nls_impl s q) of
        (Some i, Some other) \<Rightarrow>
          (case nd_listener_move_assign api other (nls_focus i s) of
             (w, j) \<Rightarrow>
               s\<lparr>nls_list := nd_do_insert p (nd_do_remove p (nls_list s)), nls_nd := nlw_nd w,
                 nls_impl := (nls_impl s)(p \<mapsto> nlw_impl w, q \<mapsto> j),
                 nls_pending := nls_cancel_on (nli_handle i) (nls_pending s)\<rparr>)
      | _ \<Rightarrow> s)"

definition nls_shutdown :: "'n nd_api \<Rightarrow> 'n nd_listener_service \<Rightarrow> 'n nd_listener_service option" where
  "nls_shutdown api s = nd_base_shutdown (nls_reset api) (nls_list s) s"

text \<open>A completion is delivered, or the operation destroyed when there is no owner.\<close>

definition nls_complete :: "'n nd_api \<Rightarrow> bool \<Rightarrow> 'n nd_listener_service \<Rightarrow> 'n nd_listener_service" where
  "nls_complete api owner s =
     (let w = nd_request_front api owner (nls_focus nd_listener_construct s)
      in s\<lparr>nls_nd := nlw_nd w, nls_posted := nlw_posted w, nls_upcalls := nlw_upcalls w\<rparr>)"

text \<open>The calls on one listener, with the handlers they take in.\<close>

inductive nd_listener_call ::
  "'n nd_api \<Rightarrow> nd_device_service \<Rightarrow> 'n nl_world \<Rightarrow> nat multiset \<Rightarrow> 'n nl_world \<Rightarrow> bool" for api ds where
  nlc_open: "nd_listener_call api ds w {#} (snd (nd_listener_open api ds ps w))"
| nlc_bind: "nd_listener_call api ds w {#} (snd (nd_listener_bind api port w))"
| nlc_listen: "nd_listener_call api ds w {#} (snd (nd_listener_listen api backlog_n w))"
| nlc_get: "nd_listener_call api ds w {#h#} (nd_async_get_connection_request api h w)"
| nlc_cancel: "nd_listener_call api ds w {#} (nd_listener_cancel w)"
| nlc_cancel_op: "nd_listener_call api ds w {#} (nd_request_cancellation type key w)"

lemma nd_listener_call_step: "nd_listener_call api ds w hs w' \<Longrightarrow> nl_step api ds env w hs w'"
  by (induction rule: nd_listener_call.induct) (blast intro: nl_step.intros)+

subsection \<open>One listener\<close>

text \<open>
  An open listener has a handle. A request a call adds is pending on an open listener; a call keeps the identity of an
  open listener and takes no cancellation back.
\<close>

definition nl_handle_ok :: "nd_listener_impl \<Rightarrow> bool" where
  "nl_handle_ok i \<longleftrightarrow> (nd_listener_is_open i \<longleftrightarrow> is_closable_handle (nli_handle i))"

definition nl_keeps :: "'n nl_world \<Rightarrow> 'n nl_world \<Rightarrow> bool" where
  "nl_keeps w w' \<longleftrightarrow>
     (nd_listener_is_open (nlw_impl w) \<longrightarrow> nd_listener_is_open (nlw_impl w') \<and>
        nli_handle (nlw_impl w') = nli_handle (nlw_impl w)) \<and>
     (\<forall>op. (op, False) \<in> set (nlw_pending w') \<longrightarrow>
        (op, False) \<in> set (nlw_pending w) \<or> nd_listener_is_open (nlw_impl w))"

lemma nd_listener_call_keeps: "nd_listener_call api ds w hs w' \<Longrightarrow> nl_keeps w w'"
proof (induction rule: nd_listener_call.induct)
  case (nlc_open w ps)
  then show ?case
    by (simp add: nd_listener_open_def nl_keeps_def Let_def split: prod.split option.split)
next
  case (nlc_bind w port)
  then show ?case
    by (simp add: nd_listener_bind_def nl_keeps_def Let_def split: prod.split option.split sum.split)
next
  case (nlc_listen w n)
  then show ?case by (simp add: nd_listener_listen_def nl_keeps_def split: prod.split)
next
  case (nlc_get w h)
  then show ?case
    by (simp add: nd_async_get_connection_request_def nl_on_completion_def nl_keeps_def Let_def split: prod.split)
qed (auto simp: nd_listener_cancel_def nd_request_cancellation_def nl_keeps_def, metis (full_types))

lemma nd_listener_call_handle:
  assumes "nd_listener_call api ds w hs w'" and "nd_listener_law live api" and "nl_wf w" and "nd_device_wf ds"
    and "finite (live (nlw_nd w))" and "nl_handle_ok (nlw_impl w)"
  shows "nl_handle_ok (nlw_impl w')"
  using assms(1,3,5,6)
proof (induction rule: nd_listener_call.induct)
  case (nlc_open w ps)
  obtain ec w' where r: "nd_listener_open api ds ps w = (ec, w')" by fastforce
  note O = nd_open_pair_objs [OF nd_listener_lawD(1) [OF assms(2)] nd_listener_lawD(3) [OF assms(2)] _ nlc_open(2)]
  from assms(2) nlc_open(1) assms(4) r show ?case
  proof (cases rule: nd_listener_open_cases)
    case 1
    then show ?thesis using r nlc_open by simp
  next
    case (2 a c h n' hd)
    then show ?thesis using r by (simp add: nl_handle_ok_def nd_listener_is_open_def)
  next
    case (3 a d c h n')
    then show ?thesis using r O [OF 3(2)] by (auto simp: nl_handle_ok_def nd_listener_is_open_def)
  qed
next
  case (nlc_bind w port)
  then show ?case by (simp add: nd_listener_bind_def Let_def split: prod.split option.split sum.split)
next
  case (nlc_listen w n)
  then show ?case by (simp add: nd_listener_listen_def split: prod.split)
next
  case (nlc_get w h)
  then show ?case by (simp add: nd_async_get_connection_request_def nl_on_completion_def Let_def split: prod.split)
qed (simp_all add: nd_listener_cancel_def nd_request_cancellation_def)

subsection \<open>The invariant\<close>

definition nls_ok :: "'n nd_listener_service \<Rightarrow> bool" where
  "nls_ok s \<longleftrightarrow> \<not> nls_fault s \<and>
     (\<exists>ps. represents (nls_list s) ps \<and> set ps = dom (nls_impl s)) \<and>
     (\<forall>p i. nls_impl s p = Some i \<longrightarrow> nl_handle_ok i \<and> (nd_listener_is_open i \<longrightarrow> nli_adapter i \<noteq> None)) \<and>
     (\<forall>h op. (h, op, False) \<in> set (nls_pending s) \<longrightarrow>
        (\<exists>p i. nls_impl s p = Some i \<and> nd_listener_is_open i \<and> nli_handle i = h))"

text \<open>Objects of the listeners and of connections on their way; handlers waiting and invoked.\<close>

definition nl_impl_objs :: "nd_listener_impl \<Rightarrow> ptr multiset" where
  "nl_impl_objs i = pair_objs (nli_listener i) (nli_handle i)"

definition nls_objs :: "'n nd_listener_service \<Rightarrow> ptr multiset" where
  "nls_objs s = (\<Sum>p\<in>dom (nls_impl s). nl_impl_objs (the (nls_impl s p)))"

definition nls_request_objs :: "'n nd_listener_service \<Rightarrow> ptr multiset" where
  "nls_request_objs s = sum_list (map (handle_objs \<circ> nr_handle \<circ> fst \<circ> snd) (nls_pending s)) +
     sum_list (map (handle_objs \<circ> nr_handle \<circ> fst) (nls_posted s))"

definition nls_handed_objs :: "'n nd_listener_service \<Rightarrow> ptr multiset" where
  "nls_handed_objs s = sum_list (map (handle_objs \<circ> nru_handle) (nls_upcalls s))"

definition nls_handlers :: "'n nd_listener_service \<Rightarrow> nat multiset" where
  "nls_handlers s = mset (map (nr_handler \<circ> fst \<circ> snd) (nls_pending s)) +
     mset (map (nr_handler \<circ> fst) (nls_posted s)) + mset (map nru_handler (nls_upcalls s))"

definition nls_inv :: "('n \<Rightarrow> ptr set) \<Rightarrow> ptr multiset \<Rightarrow> nat multiset \<Rightarrow> 'n nd_listener_service \<Rightarrow> bool" where
  "nls_inv live X H s \<longleftrightarrow> nls_ok s \<and> finite (live (nls_nd s)) \<and>
     mset_set (live (nls_nd s)) = X + nls_objs s + nls_request_objs s + nls_handed_objs s \<and> H = nls_handlers s"

lemma nls_invD:
  assumes "nls_inv live X H s"
  shows "nls_ok s" "finite (live (nls_nd s))"
    "mset_set (live (nls_nd s)) = X + nls_objs s + nls_request_objs s + nls_handed_objs s" "H = nls_handlers s"
  using assms by (simp_all add: nls_inv_def)

lemma nls_okI:
  assumes "\<not> nls_fault s" and "represents (nls_list s) ps" and "set ps = dom (nls_impl s)"
    and "\<And>p i. nls_impl s p = Some i \<Longrightarrow> nl_handle_ok i \<and> (nd_listener_is_open i \<longrightarrow> nli_adapter i \<noteq> None)"
    and "\<And>h op. (h, op, False) \<in> set (nls_pending s) \<Longrightarrow>
        \<exists>p i. nls_impl s p = Some i \<and> nd_listener_is_open i \<and> nli_handle i = h"
  shows "nls_ok s"
  using assms unfolding nls_ok_def by blast

lemma nls_okD:
  assumes "nls_ok s"
  shows "\<not> nls_fault s" "\<exists>ps. represents (nls_list s) ps \<and> set ps = dom (nls_impl s)" "finite (dom (nls_impl s))"
    "nls_impl s p = Some i \<Longrightarrow> nl_handle_ok i" "nls_impl s p = Some i \<Longrightarrow> nd_listener_is_open i \<Longrightarrow> nli_adapter i \<noteq> None"
    "(h, op, False) \<in> set (nls_pending s) \<Longrightarrow> \<exists>p i. nls_impl s p = Some i \<and> nd_listener_is_open i \<and> nli_handle i = h"
  using assms unfolding nls_ok_def by (blast, blast, metis List.finite_set, blast+)

abbreviation (input) "nls_others p s \<equiv> (\<Sum>q\<in>dom (nls_impl s) - {p}. nl_impl_objs (the (nls_impl s q)))"
abbreviation (input) "nls_elsewhere i s \<equiv> filter (\<lambda>f. fst f \<noteq> nli_handle i) (nls_pending s)"

lemma nls_split:
  assumes "finite (dom (nls_impl s))" and "nls_impl s p = Some i"
  shows "nls_objs s = nl_impl_objs i + nls_others p s"
  using assms by (simp add: nls_objs_def sum.remove [of "dom (nls_impl s)" p] domIff)

text \<open>Splitting the requests by their handle.\<close>

lemma sum_list_filter_split:
  fixes f :: "'x \<Rightarrow> 'm::comm_monoid_add"
  shows "sum_list (map f xs) = sum_list (map f (filter P xs)) + sum_list (map f (filter (\<lambda>x. \<not> P x) xs))"
  by (induction xs) (simp_all add: ac_simps)

lemma mset_map_filter_split:
  "mset (map f xs) = mset (map f (filter P xs)) + mset (map f (filter (\<lambda>x. \<not> P x) xs))"
  by (induction xs) simp_all

lemma nls_focus_pending:
  "(op, c) \<in> set (nlw_pending (nls_focus i s)) \<longleftrightarrow> (nli_handle i, op, c) \<in> set (nls_pending s)"
  by (force simp: nls_focus_def)

lemma nls_focus_books:
  "nls_request_objs s + nls_handed_objs s + nl_impl_objs i =
     nl_objs (nls_focus i s) + sum_list (map (handle_objs \<circ> nr_handle \<circ> fst \<circ> snd) (nls_elsewhere i s))"
  "nls_handlers s = nl_owed (nls_focus i s) + nl_invoked (nls_focus i s) +
     mset (map (nr_handler \<circ> fst \<circ> snd) (nls_elsewhere i s))"
proof -
  have "sum_list (map (handle_objs \<circ> nr_handle \<circ> fst \<circ> snd) (nls_pending s)) =
      sum_list (map (handle_objs \<circ> nr_handle \<circ> fst \<circ> snd) (filter (\<lambda>f. fst f = nli_handle i) (nls_pending s))) +
      sum_list (map (handle_objs \<circ> nr_handle \<circ> fst \<circ> snd) (nls_elsewhere i s))"
    by (rule sum_list_filter_split)
  then show "nls_request_objs s + nls_handed_objs s + nl_impl_objs i =
     nl_objs (nls_focus i s) + sum_list (map (handle_objs \<circ> nr_handle \<circ> fst \<circ> snd) (nls_elsewhere i s))"
    by (simp add: nls_request_objs_def nls_handed_objs_def nl_objs_def nls_focus_def nl_impl_objs_def comp_def ac_simps)
  have "mset (map (nr_handler \<circ> fst \<circ> snd) (nls_pending s)) =
      mset (map (nr_handler \<circ> fst \<circ> snd) (filter (\<lambda>f. fst f = nli_handle i) (nls_pending s))) +
      mset (map (nr_handler \<circ> fst \<circ> snd) (nls_elsewhere i s))"
    by (rule mset_map_filter_split)
  then show "nls_handlers s = nl_owed (nls_focus i s) + nl_invoked (nls_focus i s) +
     mset (map (nr_handler \<circ> fst \<circ> snd) (nls_elsewhere i s))"
    by (simp add: nls_handlers_def nl_owed_def nl_invoked_def nls_focus_def comp_def)
qed

text \<open>What is put back.\<close>

lemma nls_return_books:
  assumes "nls_impl s p = Some i" and "finite (dom (nls_impl s))"
  shows "nls_objs (nls_return p i w s) + nls_request_objs (nls_return p i w s) + nls_handed_objs (nls_return p i w s) =
      nl_objs w + nls_others p s + sum_list (map (handle_objs \<circ> nr_handle \<circ> fst \<circ> snd) (nls_elsewhere i s))"
    "nls_handlers (nls_return p i w s) = nl_owed w + nl_invoked w +
      mset (map (nr_handler \<circ> fst \<circ> snd) (nls_elsewhere i s))"
    "dom (nls_impl (nls_return p i w s)) = dom (nls_impl s)"
proof -
  let ?s = "nls_return p i w s"
  show d: "dom (nls_impl ?s) = dom (nls_impl s)" using assms(1) by (auto simp: nls_return_def)
  have "nls_others p ?s = nls_others p s" unfolding d by (rule sum.cong) (auto simp: nls_return_def)
  then have "nls_objs ?s = nl_impl_objs (nlw_impl w) + nls_others p s"
    using nls_split [of ?s p "nlw_impl w"] assms(2) d by (simp add: nls_return_def)
  then show "nls_objs ?s + nls_request_objs ?s + nls_handed_objs ?s =
      nl_objs w + nls_others p s + sum_list (map (handle_objs \<circ> nr_handle \<circ> fst \<circ> snd) (nls_elsewhere i s))"
    by (simp add: nls_return_def nls_request_objs_def nls_handed_objs_def nl_objs_def nl_impl_objs_def comp_def ac_simps)
  show "nls_handlers ?s = nl_owed w + nl_invoked w + mset (map (nr_handler \<circ> fst \<circ> snd) (nls_elsewhere i s))"
    by (simp add: nls_return_def nls_handlers_def nl_owed_def nl_invoked_def comp_def)
qed

subsection \<open>Calls\<close>

lemma nls_focus_account:
  assumes inv: "nls_inv live X H s" and i: "nls_impl s p = Some i"
  shows "nl_account live (X + nls_others p s +
    sum_list (map (handle_objs \<circ> nr_handle \<circ> fst \<circ> snd) (nls_elsewhere i s))) (nls_focus i s)"
proof -
  note I = nls_invD [OF inv]
  have "nl_wf (nls_focus i s)"
    using nls_okD(1,4,5) [OF I(1)] i by (auto simp: nl_wf_def nls_focus_def nl_handle_ok_def)
  moreover have "nlw_nd (nls_focus i s) = nls_nd s" by (simp add: nls_focus_def)
  moreover have "mset_set (live (nls_nd s)) = X + nls_others p s + (nls_request_objs s + nls_handed_objs s + nl_impl_objs i)"
    using I(3) nls_split [OF nls_okD(3) [OF I(1)] i] by (simp add: ac_simps)
  ultimately show ?thesis unfolding nls_focus_books(1) using I(2) by (simp add: nl_account_def ac_simps)
qed

lemma nls_call_ok:
  assumes inv: "nls_inv live X H s" and i: "nls_impl s p = Some i" and law: "nd_listener_law live api"
    and ds: "nd_device_wf ds" and call: "nd_listener_call api ds (nls_focus i s) hs w" and wf: "nl_wf w"
  shows "nls_ok (nls_return p i w s)"
proof -
  let ?s = "nls_return p i w s"
  note I = nls_invD [OF inv] and K = nls_okD [OF nls_invD(1) [OF inv]]
  have f: "nlw_impl (nls_focus i s) = i" "nlw_nd (nls_focus i s) = nls_nd s" by (simp_all add: nls_focus_def)
  have h: "nl_handle_ok (nlw_impl w)"
    using nd_listener_call_handle [OF call law _ ds] nls_focus_account [OF inv i] I(2) K(4) [OF i] f
    by (simp add: nl_account_def)
  have k: "nl_keeps (nls_focus i s) w" by (rule nd_listener_call_keeps [OF call])
  obtain ps where ps: "represents (nls_list s) ps" "set ps = dom (nls_impl s)" using K(2) by blast
  show ?thesis
  proof (rule nls_okI)
    show "\<not> nls_fault ?s" using wf by (simp add: nls_return_def nl_wf_def)
    show "represents (nls_list ?s) ps" using ps by (simp add: nls_return_def)
    show "set ps = dom (nls_impl ?s)" using ps(2) nls_return_books(3) [OF i K(3)] by simp
    show "nl_handle_ok j \<and> (nd_listener_is_open j \<longrightarrow> nli_adapter j \<noteq> None)" if "nls_impl ?s q = Some j" for q j
      using that h wf K(4,5) by (auto simp: nls_return_def nl_wf_def split: if_splits)
    show "\<exists>q j. nls_impl ?s q = Some j \<and> nd_listener_is_open j \<and> nli_handle j = h"
      if pend: "(h, op, False) \<in> set (nls_pending ?s)" for h op
    proof -
      consider "h \<noteq> nli_handle i" "(h, op, False) \<in> set (nls_pending s)"
        | "h = nli_handle i" "(h, op, False) \<in> set (nls_pending s)" | "h = nli_handle i" "nd_listener_is_open i"
        using pend k f(1) by (auto simp: nls_return_def nl_keeps_def nls_focus_pending)
      then show ?thesis
      proof cases
        case 1
        then obtain q j where "nls_impl s q = Some j" "nd_listener_is_open j" "nli_handle j = h" using K(6) by blast
        moreover from this have "q \<noteq> p" using 1(1) i by auto
        ultimately show ?thesis by (auto simp: nls_return_def)
      next
        case 2
        then obtain q j where j: "nls_impl s q = Some j" "nd_listener_is_open j" "nli_handle j = h" using K(6) by blast
        show ?thesis
        proof (cases "q = p")
          case True
          then have "nd_listener_is_open (nlw_impl w) \<and> nli_handle (nlw_impl w) = h"
            using j i k f(1) 2(1) by (auto simp: nl_keeps_def)
          then show ?thesis by (intro exI [of _ p] exI [of _ "nlw_impl w"]) (simp add: nls_return_def)
        next
          case False
          then show ?thesis using j by (auto simp: nls_return_def)
        qed
      next
        case 3
        then have "nd_listener_is_open (nlw_impl w) \<and> nli_handle (nlw_impl w) = h" using k f(1) by (auto simp: nl_keeps_def)
        then show ?thesis by (intro exI [of _ p] exI [of _ "nlw_impl w"]) (simp add: nls_return_def)
      qed
    qed
  qed
qed

lemma nls_call_inv:
  assumes inv: "nls_inv live X H s" and i: "nls_impl s p = Some i" and law: "nd_listener_law live api"
    and ds: "nd_device_wf ds" and call: "nd_listener_call api ds (nls_focus i s) hs w"
  shows "nls_inv live X (H + hs) (nls_return p i w s)"
proof -
  let ?s = "nls_return p i w s"
  note I = nls_invD [OF inv]
  have step: "nl_step api ds (=) (nls_focus i s) hs w" by (rule nd_listener_call_step [OF call])
  have acc: "nl_account live (X + nls_others p s +
      sum_list (map (handle_objs \<circ> nr_handle \<circ> fst \<circ> snd) (nls_elsewhere i s))) w"
    by (rule nl_step_account [OF step law ds _ nls_focus_account [OF inv i]]) simp
  note B = nls_return_books [OF i nls_okD(3) [OF I(1)], of w]
  have "mset_set (live (nls_nd ?s)) = X + (nls_objs ?s + nls_request_objs ?s + nls_handed_objs ?s)"
    unfolding B(1) using acc by (simp add: nl_account_def nls_return_def ac_simps)
  moreover have "finite (live (nls_nd ?s))" using acc by (simp add: nl_account_def nls_return_def)
  moreover have "nls_handlers ?s = H + hs"
    unfolding B(2) nl_step_balance [OF step] using I(4) by (simp add: nls_focus_books(2) [of s i] ac_simps)
  moreover have "nls_ok ?s" using nls_call_ok [OF inv i law ds call] acc by (simp add: nl_account_def)
  ultimately show ?thesis by (simp add: nls_inv_def add.assoc)
qed

subsection \<open>Lifecycle steps\<close>

abbreviation nl_closed :: "nd_listener_impl \<Rightarrow> nd_listener_impl" where
  "nl_closed i \<equiv> i\<lparr>nli_listener := nullptr, nli_handle := nullptr, nli_adapter := None\<rparr>"

lemma nl_closed_simps [simp]:
  "\<not> nd_listener_is_open (nl_closed i)" "nl_handle_ok (nl_closed i)" "nl_impl_objs (nl_closed i) = {#}"
  by (simp_all add: nd_listener_is_open_def nl_handle_ok_def nl_impl_objs_def pair_objs_def is_closable_handle_def)

lemma nls_reset_eq:
  "nls_impl s p = Some i \<Longrightarrow> nls_reset api p s =
     s\<lparr>nls_nd := nd_drop api (nli_listener i) (nli_handle i) (nls_nd s), nls_impl := (nls_impl s)(p \<mapsto> nl_closed i),
       nls_pending := nls_cancel_on (nli_handle i) (nls_pending s)\<rparr>"
  by (simp add: nls_reset_def nd_listener_destroy_def nls_focus_def Let_def)

lemma nls_cancel_on_books:
  "map (handle_objs \<circ> nr_handle \<circ> fst \<circ> snd) (nls_cancel_on h fs) = map (handle_objs \<circ> nr_handle \<circ> fst \<circ> snd) fs"
  "map (nr_handler \<circ> fst \<circ> snd) (nls_cancel_on h fs) = map (nr_handler \<circ> fst \<circ> snd) fs"
  "(k, op, False) \<in> set (nls_cancel_on h fs) \<longleftrightarrow> (k, op, False) \<in> set fs \<and> \<not> (is_closable_handle h \<and> k = h)"
  by (auto simp: nls_cancel_on_def image_iff split: prod.splits)

lemma nls_reset_inv:
  assumes inv: "nls_inv live X H s" and i: "nls_impl s p = Some i" and law: "nd_listener_law live api"
  shows "nls_inv live X H (nls_reset api p s)"
proof -
  let ?s = "nls_reset api p s"
  note I = nls_invD [OF inv] and K = nls_okD [OF nls_invD(1) [OF inv]] and E = nls_reset_eq [OF i, of api]
  obtain ps where ps: "represents (nls_list s) ps" "set ps = dom (nls_impl s)" using K(2) by blast
  have d: "dom (nls_impl ?s) = dom (nls_impl s)" using i by (auto simp: E)
  have ok: "nls_ok ?s"
  proof (rule nls_okI)
    show "\<not> nls_fault ?s" "represents (nls_list ?s) ps" using K(1) ps(1) by (simp_all add: E)
    show "set ps = dom (nls_impl ?s)" using ps(2) d by simp
    show "nl_handle_ok j \<and> (nd_listener_is_open j \<longrightarrow> nli_adapter j \<noteq> None)" if "nls_impl ?s q = Some j" for q j
      using that K(4,5) by (auto simp: E split: if_splits)
    show "\<exists>q j. nls_impl ?s q = Some j \<and> nd_listener_is_open j \<and> nli_handle j = h"
      if "(h, op, False) \<in> set (nls_pending ?s)" for h op
    proof -
      have o: "(h, op, False) \<in> set (nls_pending s)" "\<not> (is_closable_handle (nli_handle i) \<and> h = nli_handle i)"
        using that by (simp_all add: E nls_cancel_on_books(3))
      then obtain q j where j: "nls_impl s q = Some j" "nd_listener_is_open j" "nli_handle j = h" using K(6) by blast
      then have "q \<noteq> p" using o(2) i K(4) [OF i] by (auto simp: nl_handle_ok_def)
      then show ?thesis using j by (auto simp: E)
    qed
  qed
  have "nls_others p ?s = nls_others p s" unfolding d by (rule sum.cong) (auto simp: E)
  then have o: "nls_objs ?s = nls_others p s"
    using nls_split [of ?s p "nl_closed i"] K(3) d by (simp add: E)
  have q: "nls_request_objs ?s = nls_request_objs s" "nls_handed_objs ?s = nls_handed_objs s" "nls_handlers ?s = nls_handlers s"
    by (simp_all add: E nls_request_objs_def nls_handed_objs_def nls_handlers_def nls_cancel_on_books del: map_map)
  have "mset_set (live (nls_nd s)) =
      X + nls_others p s + nls_request_objs s + nls_handed_objs s + pair_objs (nli_listener i) (nli_handle i)"
    using I(3) nls_split [OF K(3) i] by (simp add: nl_impl_objs_def ac_simps)
  from nd_drop_objs [OF nd_listener_lawD(1) [OF law] I(2) this]
  have "mset_set (live (nls_nd ?s)) = X + nls_others p s + nls_request_objs s + nls_handed_objs s"
    "finite (live (nls_nd ?s))" by (simp_all add: E)
  then show ?thesis using ok o q I(4) by (simp add: nls_inv_def)
qed

lemma nls_construct_inv:
  assumes inv: "nls_inv live X H s" and p: "p \<noteq> nullptr" "nls_impl s p = None"
  shows "nls_inv live X H (nls_construct p s)"
proof -
  let ?s = "nls_construct p s"
  note I = nls_invD [OF inv] and K = nls_okD [OF nls_invD(1) [OF inv]]
  obtain ps where ps: "represents (nls_list s) ps" "set ps = dom (nls_impl s)" using K(2) by blast
  have l: "represents (nls_list ?s) (p # ps)" "set (p # ps) = dom (nls_impl ?s)"
    using nd_base.ins_rep [OF ps(1) p(1)] ps(2) p(2) by (auto simp: nls_construct_def)
  have new: "nl_handle_ok nd_listener_construct" "\<not> nd_listener_is_open nd_listener_construct"
    "nl_impl_objs nd_listener_construct = {#}"
    by (simp_all add: nd_listener_construct_def nd_listener_is_open_def nl_handle_ok_def nl_impl_objs_def pair_objs_def
        is_closable_handle_def)
  have ok: "nls_ok ?s"
  proof (rule nls_okI [OF _ l])
    show "\<not> nls_fault ?s" using K(1) by (simp add: nls_construct_def)
    show "nl_handle_ok j \<and> (nd_listener_is_open j \<longrightarrow> nli_adapter j \<noteq> None)" if "nls_impl ?s q = Some j" for q j
      using that K(4,5) new by (auto simp: nls_construct_def split: if_splits)
    show "\<exists>q j. nls_impl ?s q = Some j \<and> nd_listener_is_open j \<and> nli_handle j = h"
      if "(h, op, False) \<in> set (nls_pending ?s)" for h op
    proof -
      obtain q j where "nls_impl s q = Some j" "nd_listener_is_open j" "nli_handle j = h"
        using K(6) [of h op] \<open>(h, op, False) \<in> set (nls_pending ?s)\<close> by (auto simp: nls_construct_def)
      moreover from this have "q \<noteq> p" using p(2) by auto
      ultimately show ?thesis by (auto simp: nls_construct_def)
    qed
  qed
  have "nls_others p ?s = nls_objs s" using p(2) unfolding nls_objs_def
    by (intro sum.cong) (auto simp: nls_construct_def)
  then have "nls_objs ?s = nls_objs s" using nls_split [OF nls_okD(3) [OF ok], of p nd_listener_construct] new(3)
    by (simp add: nls_construct_def)
  then show ?thesis using ok I
    by (simp add: nls_inv_def nls_construct_def nls_request_objs_def nls_handed_objs_def nls_handlers_def)
qed

lemma nls_destroy_inv:
  assumes inv: "nls_inv live X H s" and i: "nls_impl s p = Some i" and law: "nd_listener_law live api"
  shows "nls_inv live X H (nls_destroy api p s)"
proof -
  let ?c = "nls_reset api p s" and ?s = "nls_destroy api p s"
  note I = nls_invD [OF nls_reset_inv [OF inv i law]]
  note K = nls_okD [OF I(1)]
  have e: "nls_impl ?c p = Some (nl_closed i)" by (simp add: nls_reset_eq [OF i])
  obtain ps where ps: "represents (nls_list ?c) ps" "set ps = dom (nls_impl ?c)" using K(2) by blast
  have "p \<in> set ps" using ps(2) e by auto
  then have l: "represents (nls_list ?s) (remove1 p ps)" "set (remove1 p ps) = dom (nls_impl ?s)"
    using nd_base.rem_rep [OF ps(1)] ps by (simp_all add: nls_destroy_def Let_def represents_def)
  have ok: "nls_ok ?s"
  proof (rule nls_okI [OF _ l])
    show "\<not> nls_fault ?s" using K(1) by (simp add: nls_destroy_def Let_def)
    show "nl_handle_ok j \<and> (nd_listener_is_open j \<longrightarrow> nli_adapter j \<noteq> None)" if "nls_impl ?s q = Some j" for q j
      using that K(4,5) by (auto simp: nls_destroy_def Let_def split: if_splits)
    show "\<exists>q j. nls_impl ?s q = Some j \<and> nd_listener_is_open j \<and> nli_handle j = h"
      if pend: "(h, op, False) \<in> set (nls_pending ?s)" for h op
    proof -
      obtain q j where "nls_impl ?c q = Some j" "nd_listener_is_open j" "nli_handle j = h"
        using K(6) [of h op] pend by (auto simp: nls_destroy_def Let_def)
      moreover from this have "q \<noteq> p" using e by auto
      ultimately show ?thesis by (auto simp: nls_destroy_def Let_def)
    qed
  qed
  have "nls_others p ?c = nls_objs ?s" unfolding nls_objs_def by (rule sum.cong) (auto simp: nls_destroy_def Let_def)
  then have "nls_objs ?s = nls_objs ?c" using nls_split [OF K(3) e] by simp
  then show ?thesis using ok I
    by (simp add: nls_inv_def nls_destroy_def nls_request_objs_def nls_handed_objs_def nls_handlers_def Let_def)
qed

text \<open>The listener and the handle of \<open>q\<close>, with the requests on it, go to \<open>p\<close>, which had none.\<close>

lemma nls_transfer_inv:
  assumes inv: "nls_inv live X H s" and q: "nls_impl s q = Some other" and pq: "p \<noteq> q"
    and p: "\<And>i0. nls_impl s p = Some i0 \<Longrightarrow> \<not> nd_listener_is_open i0 \<and> nl_impl_objs i0 = {#}"
    and l: "represents l ps" "set ps = insert p (dom (nls_impl s))"
    and s': "s' = s\<lparr>nls_list := l, nls_impl := (nls_impl s)(p \<mapsto> other, q \<mapsto> nl_closed other)\<rparr>"
  shows "nls_inv live X H s'"
proof -
  note I = nls_invD [OF inv] and K = nls_okD [OF nls_invD(1) [OF inv]]
  have D: "q \<in> dom (nls_impl s)" "dom (nls_impl s') = insert p (dom (nls_impl s))" using q by (auto simp: s')
  have ok: "nls_ok s'"
  proof (rule nls_okI)
    show "\<not> nls_fault s'" "represents (nls_list s') ps" "set ps = dom (nls_impl s')" using K(1) l D by (simp_all add: s')
    show "nl_handle_ok j \<and> (nd_listener_is_open j \<longrightarrow> nli_adapter j \<noteq> None)" if "nls_impl s' r = Some j" for r j
      using that K(4,5) q by (auto simp: s' split: if_splits)
    show "\<exists>r j. nls_impl s' r = Some j \<and> nd_listener_is_open j \<and> nli_handle j = h"
      if pend: "(h, op, False) \<in> set (nls_pending s')" for h op
    proof -
      obtain r j where r: "nls_impl s r = Some j" "nd_listener_is_open j" "nli_handle j = h"
        using K(6) [of h op] pend by (auto simp: s')
      moreover have "r \<noteq> p" using r p by auto
      ultimately show ?thesis using q pq by (cases "r = q") (auto simp: s')
    qed
  qed
  have "nls_objs s' = nls_objs s" unfolding nls_objs_def D(2)
    by (rule sum_transfer [OF K(3) D(1) pq]) (use p q pq in \<open>auto simp: s'\<close>)
  then show ?thesis using ok I by (simp add: nls_inv_def s' nls_request_objs_def nls_handed_objs_def nls_handlers_def)
qed

lemma nls_move_construct_inv:
  assumes inv: "nls_inv live X H s" and p: "p \<noteq> nullptr" "nls_impl s p = None" and q: "nls_impl s q = Some other"
  shows "nls_inv live X H (nls_move_construct p q s)"
proof -
  obtain ps where ps: "represents (nls_list s) ps" "set ps = dom (nls_impl s)"
    using nls_okD(2) [OF nls_invD(1) [OF inv]] by blast
  then have l: "represents (nd_do_insert p (nls_list s)) (p # ps)" "set (p # ps) = insert p (dom (nls_impl s))"
    using nd_base.ins_rep [OF ps(1) p(1)] p(2) by auto
  have "p \<noteq> q" using p q by auto
  from nls_transfer_inv [OF inv q this _ l refl] show ?thesis
    using p q by (simp add: nls_move_construct_def nd_listener_move_construct_def)
qed

lemma nls_move_assign_inv:
  assumes inv: "nls_inv live X H s" and p: "nls_impl s p = Some i" and q: "nls_impl s q = Some other" and pq: "p \<noteq> q"
    and law: "nd_listener_law live api"
  shows "nls_inv live X H (nls_move_assign api p q s)"
proof -
  let ?c = "nls_reset api p s"
  note E = nls_reset_eq [OF p, of api] and J = nls_reset_inv [OF inv p law]
  have q': "nls_impl ?c q = Some other" using q pq by (simp add: E)
  obtain ps where ps: "represents (nls_list ?c) ps" "set ps = dom (nls_impl ?c)"
    using nls_okD(2) [OF nls_invD(1) [OF J]] by blast
  have in_ps: "p \<in> set ps" "distinct ps" using ps p by (auto simp: E represents_def)
  then have r: "represents (nd_do_remove p (nls_list ?c)) (remove1 p ps)" "p \<notin> set (remove1 p ps)"
    using nd_base.rem_rep [OF ps(1)] by auto
  have "p \<noteq> nullptr" using ps(1) in_ps(1) seg_nonnull by (auto simp: represents_def)
  then have l: "represents (nd_do_insert p (nd_do_remove p (nls_list ?c))) (p # remove1 p ps)"
    "set (p # remove1 p ps) = insert p (dom (nls_impl ?c))"
    using nd_base.ins_rep [OF r(1) _ r(2)] in_ps ps(2) by auto
  have "nls_move_assign api p q s =
      ?c\<lparr>nls_list := nd_do_insert p (nd_do_remove p (nls_list ?c)), nls_impl := (nls_impl ?c)(p \<mapsto> other, q \<mapsto> nl_closed other)\<rparr>"
    using p q by (simp add: nls_move_assign_def nd_listener_move_assign_def nls_focus_def E)
  from nls_transfer_inv [OF J q' pq _ l this] show ?thesis by (simp add: E)
qed

subsection \<open>Completions\<close>

lemma nls_complete_inv:
  assumes "nls_inv live X H s"
  shows "nls_inv live X H (nls_complete api True s)"
proof (cases "nls_posted s")
  case Nil
  then have "nls_complete api True s = s" by (simp add: nls_complete_def nls_focus_def nd_request_front_def)
  then show ?thesis using assms by simp
next
  case (Cons a ops)
  obtain op ec where a: "a = (op, ec)" by fastforce
  show ?thesis using assms Cons a
    by (simp add: nls_complete_def nls_focus_def nd_request_front_def nd_request_do_complete_def nls_inv_def nls_ok_def
        nls_objs_def nls_request_objs_def nls_handed_objs_def nls_handlers_def Let_def ac_simps)
qed

text \<open>The kernel ends a request: with \<open>ERROR_OPERATION_ABORTED\<close> only if it was cancelled.\<close>

lemma nls_kernel_inv:
  assumes inv: "nls_inv live X H s" and pend: "nls_pending s = xs @ (h, op, c) # ys"
  shows "nls_inv live X H (s\<lparr>nls_pending := xs @ ys, nls_posted := nls_posted s @ [(op, ec)]\<rparr>)"
  using assms
  by (simp add: nls_inv_def nls_ok_def nls_objs_def nls_request_objs_def nls_handed_objs_def nls_handlers_def comp_def ac_simps)

subsection \<open>Runs\<close>

inductive nls_step ::
  "'n nd_api \<Rightarrow> nd_device_service \<Rightarrow> ('n \<Rightarrow> 'n \<Rightarrow> bool) \<Rightarrow> 'n nd_listener_service \<Rightarrow> nat multiset
   \<Rightarrow> 'n nd_listener_service \<Rightarrow> bool" for api ds env where
  nls_constructed: "p \<noteq> nullptr \<Longrightarrow> nls_impl s p = None \<Longrightarrow> nls_step api ds env s {#} (nls_construct p s)"
| nls_destroyed: "nls_impl s p = Some i \<Longrightarrow> nls_step api ds env s {#} (nls_destroy api p s)"
| nls_move_constructed: "p \<noteq> nullptr \<Longrightarrow> nls_impl s p = None \<Longrightarrow> nls_impl s q = Some other \<Longrightarrow>
    nls_step api ds env s {#} (nls_move_construct p q s)"
| nls_move_assigned: "nls_impl s p = Some i \<Longrightarrow> nls_impl s q = Some other \<Longrightarrow> p \<noteq> q \<Longrightarrow>
    nls_step api ds env s {#} (nls_move_assign api p q s)"
| nls_called: "nls_impl s p = Some i \<Longrightarrow> nd_listener_call api ds (nls_focus i s) hs w \<Longrightarrow>
    nls_step api ds env s hs (nls_return p i w s)"
| nls_kernel: "nls_pending s = xs @ (h, op, c) # ys \<Longrightarrow> (ec = nd_operation_aborted \<longrightarrow> c) \<Longrightarrow>
    nls_step api ds env s {#} (s\<lparr>nls_pending := xs @ ys, nls_posted := nls_posted s @ [(op, ec)]\<rparr>)"
| nls_delivered: "nls_step api ds env s {#} (nls_complete api True s)"
| nls_provider: "env (nls_nd s) n \<Longrightarrow> nls_step api ds env s {#} (s\<lparr>nls_nd := n\<rparr>)"

definition nd_listener_laws ::
  "('n \<Rightarrow> ptr set) \<Rightarrow> 'n nd_api \<Rightarrow> nd_device_service \<Rightarrow> ('n \<Rightarrow> 'n \<Rightarrow> bool) \<Rightarrow> bool" where
  "nd_listener_laws live api ds env \<longleftrightarrow>
     nd_listener_law live api \<and> nd_device_wf ds \<and> (\<forall>n n'. env n n' \<longrightarrow> live n' = live n)"

definition nls_fresh :: "'n nd_listener_service \<Rightarrow> bool" where
  "nls_fresh s \<longleftrightarrow> nls_list s = empty_list \<and> nls_impl s = Map.empty \<and> nls_pending s = [] \<and> nls_posted s = [] \<and>
     nls_upcalls s = [] \<and> \<not> nls_fault s"

lemma nls_fresh_inv:
  assumes "nls_fresh s" and "finite (live (nls_nd s))"
  shows "nls_inv live (mset_set (live (nls_nd s))) {#} s"
  using assms empty_list_represents
  by (simp add: nls_inv_def nls_ok_def nls_fresh_def nls_objs_def nls_request_objs_def nls_handed_objs_def nls_handlers_def)

lemma nls_provider_inv:
  assumes "nls_inv live X H s" and "live n = live (nls_nd s)"
  shows "nls_inv live X H (s\<lparr>nls_nd := n\<rparr>)"
  using assms by (simp add: nls_inv_def nls_ok_def nls_objs_def nls_request_objs_def nls_handed_objs_def nls_handlers_def)

lemma nls_step_inv:
  assumes "nls_step api ds env s hs s'" and laws: "nd_listener_laws live api ds env" and "nls_inv live X H s"
  shows "nls_inv live X (H + hs) s'"
proof -
  have law: "nd_listener_law live api" and ds: "nd_device_wf ds" and env: "\<And>n n'. env n n' \<Longrightarrow> live n' = live n"
    using laws by (simp_all add: nd_listener_laws_def)
  show ?thesis
    using assms(1,3)
  proof (induction rule: nls_step.induct)
    case (nls_constructed p s)
    then show ?case using nls_construct_inv by simp
  next
    case (nls_destroyed s p i)
    then show ?case using nls_destroy_inv [OF _ _ law] by simp
  next
    case (nls_move_constructed p s q other)
    then show ?case using nls_move_construct_inv by simp
  next
    case (nls_move_assigned s p i q other)
    then show ?case using nls_move_assign_inv [OF _ _ _ _ law] by simp
  next
    case (nls_called s p i hs w)
    then show ?case using nls_call_inv [OF _ _ law ds] by simp
  next
    case (nls_kernel s xs h op c ys ec)
    then show ?case using nls_kernel_inv by simp
  next
    case (nls_delivered s)
    then show ?case using nls_complete_inv by simp
  next
    case (nls_provider s n)
    then show ?case using nls_provider_inv [of live X H s n] env [of "nls_nd s" n] by simp
  qed
qed

text \<open>The handlers of a run as a ledger.\<close>

lemma nls_reach_inv:
  assumes laws: "nd_listener_laws live api ds env" and "nls_fresh s0" and "finite (live (nls_nd s0))"
    and run: "labelled_run (nls_step api ds env) s0 hs s"
  shows "nls_inv live (mset_set (live (nls_nd s0))) hs s"
  using run_accumulates [OF run, of "nls_inv live (mset_set (live (nls_nd s0)))" "{#}"]
    nls_step_inv [OF _ laws] nls_fresh_inv [OF assms(2), of live] assms(3) by simp

subsection \<open>Shutdown\<close>

definition nls_shut :: "ptr \<Rightarrow> 'n nd_listener_service \<Rightarrow> bool" where
  "nls_shut p s \<longleftrightarrow> (\<exists>i. nls_impl s p = Some i \<and> \<not> nd_listener_is_open i \<and> nl_impl_objs i = {#})"

lemma nls_reset_all:
  assumes law: "nd_listener_law live api"
  shows "nls_inv live X H s \<Longrightarrow> set ps \<subseteq> dom (nls_impl s) \<Longrightarrow>
    nls_inv live X H (fold (nls_reset api) ps s) \<and> dom (nls_impl (fold (nls_reset api) ps s)) = dom (nls_impl s) \<and>
    nls_upcalls (fold (nls_reset api) ps s) = nls_upcalls s \<and>
    (\<forall>p. p \<in> set ps \<or> nls_shut p s \<longrightarrow> nls_shut p (fold (nls_reset api) ps s))"
proof (induction ps arbitrary: s)
  case (Cons p ps)
  then obtain i where i: "nls_impl s p = Some i" by auto
  note E = nls_reset_eq [OF i, of api]
  have d: "dom (nls_impl (nls_reset api p s)) = dom (nls_impl s)" "nls_upcalls (nls_reset api p s) = nls_upcalls s"
    using i by (auto simp: E)
  have c: "nls_shut p (nls_reset api p s)" "nls_shut q s \<Longrightarrow> nls_shut q (nls_reset api p s)" for q
    by (auto simp: nls_shut_def E)
  have "nls_inv live X H (nls_reset api p s)" "set ps \<subseteq> dom (nls_impl (nls_reset api p s))"
    using nls_reset_inv [OF Cons.prems(1) i law] Cons.prems(2) d(1) by auto
  from Cons.IH [OF this] show ?case using d c by auto
qed simp

text \<open>The scheduler takes back the cancelled requests and destroys the operations, with the connections in them.\<close>

definition nls_abandon :: "'n nd_listener_service \<Rightarrow> 'n nd_listener_service" where
  "nls_abandon s =
     s\<lparr>nls_pending := [], nls_posted := nls_posted s @ map (\<lambda>f. (fst (snd f), nd_operation_aborted)) (nls_pending s)\<rparr>"

lemma nls_discard:
  assumes law: "nd_listener_law live api"
  shows "finite (live (nls_nd s)) \<Longrightarrow>
    mset_set (live (nls_nd s)) = M + sum_list (map (handle_objs \<circ> nr_handle \<circ> fst) (nls_posted s)) \<Longrightarrow>
    length (nls_posted s) = n \<Longrightarrow>
    mset_set (live (nls_nd ((nls_complete api False ^^ n) s))) = M"
proof (induction n arbitrary: s)
  case (Suc n)
  obtain op ec ops where op: "nls_posted s = (op, ec) # ops" using Suc.prems(3) by (cases "nls_posted s") auto
  let ?s = "nls_complete api False s"
  have s: "nls_nd ?s = nd_handle_drop api (nr_handle op) (nls_nd s)" "nls_posted ?s = ops"
    using op by (simp_all add: nls_complete_def nls_focus_def nd_request_front_def nd_request_do_complete_def Let_def)
  have "mset_set (live (nls_nd s)) =
      M + sum_list (map (handle_objs \<circ> nr_handle \<circ> fst) ops) + handle_objs (nr_handle op)"
    using Suc.prems(2) op by (simp add: comp_def ac_simps)
  note R = nd_handle_drop_objs [OF nd_listener_lawD(1) [OF law] Suc.prems(1) this]
  have "length ops = n" using Suc.prems(3) op by simp
  then have "mset_set (live (nls_nd ((nls_complete api False ^^ n) ?s))) = M"
    using Suc.IH [of ?s, unfolded s] R by blast
  then show ?case by (simp add: funpow_swap1)
qed simp

subsection \<open>Properties\<close>

text \<open>
  C21. In every run of the NetworkDirect listener service (listeners constructed, used, moved and destroyed, requests
  ended by the kernel and delivered by the scheduler) a request that was not cancelled waits on the handle of a listener
  that exists, is open and alive; each object of the provider has exactly one owner, each handler taken in is held by
  one request until it is invoked, once, and no null adapter is dereferenced.
\<close>

theorem nd_listener_service_conserves:
  assumes "nd_listener_laws live api ds env" and "nls_fresh s0" and "finite (live (nls_nd s0))"
    and "labelled_run (nls_step api ds env) s0 hs s"
  shows "(\<forall>h op. (h, op, False) \<in> set (nls_pending s) \<longrightarrow>
      (\<exists>p i. nls_impl s p = Some i \<and> nd_listener_is_open i \<and> nli_handle i = h) \<and> h \<in> live (nls_nd s)) \<and>
    mset_set (live (nls_nd s)) = mset_set (live (nls_nd s0)) + nls_objs s + nls_request_objs s + nls_handed_objs s \<and>
    hs = nls_handlers s \<and> \<not> nls_fault s"
proof -
  note I = nls_invD [OF nls_reach_inv [OF assms]]
  have "(\<exists>p i. nls_impl s p = Some i \<and> nd_listener_is_open i \<and> nli_handle i = h) \<and> h \<in> live (nls_nd s)"
    if pend: "(h, op, False) \<in> set (nls_pending s)" for h op
  proof -
    obtain p i where i: "nls_impl s p = Some i" "nd_listener_is_open i" "nli_handle i = h"
      using nls_okD(6) [OF I(1) pend] by blast
    then have "h \<in># nl_impl_objs i" using nls_okD(4) [OF I(1) i(1)] by (auto simp: nl_handle_ok_def nl_impl_objs_def pair_objs_def)
    then have "h \<in># nls_objs s" using nls_split [OF nls_okD(3) [OF I(1)] i(1)] by simp
    then have "h \<in># mset_set (live (nls_nd s))" using I(3) by simp
    then show ?thesis using i I(2) by auto
  qed
  then show ?thesis using I nls_okD(1) [OF I(1)] by blast
qed

text \<open>
  C22. Shutting the NetworkDirect listener service down after any run returns, releases every listener and handle and
  cancels every request; when the scheduler has then destroyed all operations, no object is left but the
  connections that were handed to handlers.
\<close>

theorem nd_listener_service_shutdown:
  assumes laws: "nd_listener_laws live api ds env" and "nls_fresh s0" and "finite (live (nls_nd s0))"
    and "labelled_run (nls_step api ds env) s0 hs s"
  shows "\<exists>s'. nls_shutdown api s = Some s' \<and> (\<forall>(h, op, c)\<in>set (nls_pending s'). c) \<and> hs = nls_handlers s' \<and>
    mset_set (live (nls_nd s')) = mset_set (live (nls_nd s0)) + nls_request_objs s' + nls_handed_objs s' \<and>
    mset_set (live (nls_nd ((nls_complete api False ^^ length (nls_posted (nls_abandon s'))) (nls_abandon s')))) =
      mset_set (live (nls_nd s0)) + nls_handed_objs s"
proof -
  have law: "nd_listener_law live api" using laws by (simp add: nd_listener_laws_def)
  note inv = nls_reach_inv [OF assms]
  let ?X = "mset_set (live (nls_nd s0))"
  obtain ps where ps: "represents (nls_list s) ps" "set ps = dom (nls_impl s)" using nls_okD(2) [OF nls_invD(1) [OF inv]] by blast
  let ?s = "fold (nls_reset api) ps s"
  have R: "nls_inv live ?X hs ?s" "dom (nls_impl ?s) = dom (nls_impl s)" "nls_upcalls ?s = nls_upcalls s"
    "\<And>p. p \<in> dom (nls_impl s) \<Longrightarrow> nls_shut p ?s" using nls_reset_all [OF law inv, of ps] ps(2) by simp_all
  note I = nls_invD [OF R(1)]
  have shut: "\<not> nd_listener_is_open i" if "nls_impl ?s p = Some i" for p i
    using R(2) R(4) [of p] that by (auto simp: nls_shut_def dom_def)
  have "c" if "(h, op, c) \<in> set (nls_pending ?s)" for h op c
    using nls_okD(6) [OF I(1), of h op] that shut by (cases c) auto
  then have cancelled: "\<forall>(h, op, c)\<in>set (nls_pending ?s). c" by blast
  have "nls_objs ?s = {#}" unfolding nls_objs_def R(2)
    by (rule sum.neutral) (use R(4) in \<open>fastforce simp: nls_shut_def\<close>)
  then have bal: "mset_set (live (nls_nd ?s)) = ?X + nls_request_objs ?s + nls_handed_objs ?s" using I(3) by simp
  have "nls_handed_objs ?s = nls_handed_objs s" by (simp add: nls_handed_objs_def R(3))
  then have "mset_set (live (nls_nd (nls_abandon ?s))) = ?X + nls_handed_objs s +
      sum_list (map (handle_objs \<circ> nr_handle \<circ> fst) (nls_posted (nls_abandon ?s)))"
    using bal by (simp add: nls_abandon_def nls_request_objs_def comp_def ac_simps)
  moreover have "finite (live (nls_nd (nls_abandon ?s)))" using I(2) by (simp add: nls_abandon_def)
  ultimately have "mset_set (live (nls_nd ((nls_complete api False ^^ length (nls_posted (nls_abandon ?s))) (nls_abandon ?s)))) =
      ?X + nls_handed_objs s" using nls_discard [OF law _ _ refl] by blast
  moreover have "nls_shutdown api s = Some ?s" by (simp add: nls_shutdown_def nd_base_shutdown_visits [OF ps(1)])
  ultimately show ?thesis using cancelled bal I(4) by blast
qed

subsection \<open>A run of the example\<close>

text \<open>
  A listener at 64 is opened and waits with handler 3; the request arrives; the listener is moved to 72 and waits
  again, with handler 4.
\<close>

definition nls_example :: "nd_fifo nd_listener_service" where
  "nls_example = \<lparr>nls_nd = \<lparr>nf_requests = [], nf_next = 16, nf_live = []\<rparr>, nls_list = empty_list,
     nls_impl = Map.empty, nls_pending = [], nls_posted = [], nls_upcalls = [], nls_fault = False\<rparr>"

definition nls_call_at ::
  "ptr \<Rightarrow> ('n nl_world \<Rightarrow> 'n nl_world) \<Rightarrow> 'n nd_listener_service \<Rightarrow> 'n nd_listener_service" where
  "nls_call_at p f s = (case nls_impl s p of None \<Rightarrow> s | Some i \<Rightarrow> nls_return p i (f (nls_focus i s)) s)"

definition nls_example_waiting :: "nd_fifo nd_listener_service" where
  "nls_example_waiting = nls_call_at 64 (nd_async_get_connection_request nd_fifo_api 3)
     (nls_call_at 64 (\<lambda>w. snd (nd_listener_open nd_fifo_api nd_example_service PS_v4 w)) (nls_construct 64 nls_example))"

definition nls_example_arrived :: "nd_fifo nd_listener_service" where
  "nls_example_arrived =
     nls_example_waiting\<lparr>nls_pending := [], nls_posted := nls_posted nls_example_waiting @
       [(fst (snd (hd (nls_pending nls_example_waiting))), no_error)]\<rparr>"

definition nls_example_final :: "nd_fifo nd_listener_service" where
  "nls_example_final =
     nls_call_at 72 (nd_async_get_connection_request nd_fifo_api 4) (nls_move_construct 72 64 nls_example_arrived)"

lemma nls_example_laws: "nd_listener_laws nd_fifo_live nd_fifo_api nd_example_service (=)" "nls_fresh nls_example"
  "finite (nd_fifo_live (nls_nd nls_example))" "mset_set (nd_fifo_live (nls_nd nls_example)) = {#}"
  using nd_fifo_listener_law nd_example_service_wf
  by (simp_all add: nd_listener_laws_def nls_fresh_def nls_example_def nd_fifo_live_def)

lemma nls_example_states:
  "map (\<lambda>f. (fst f, snd (snd f))) (nls_pending nls_example_waiting) = [(16, False)]"
  "nls_impl nls_example_arrived 64 \<noteq> None" "nls_impl nls_example_arrived 72 = None"
  "map (\<lambda>f. (fst f, snd (snd f))) (nls_pending nls_example_final) = [(16, False)]"
  "nls_upcalls nls_example_final = []"
  by code_simp+

lemma nls_call_at_step:
  assumes "\<And>w. nd_listener_call api ds w hs (f w)" and "nls_impl s p \<noteq> None"
  shows "nls_step api ds env s hs (nls_call_at p f s)"
  using nls_called [of s p, OF _ assms(1)] assms(2) by (auto simp: nls_call_at_def)

lemma nls_example_run:
  "labelled_run (nls_step nd_fifo_api nd_example_service (=)) nls_example {#4, 3#} nls_example_final"
proof -
  let ?step = "nls_step nd_fifo_api nd_example_service (=)" and ?s = "nls_construct 64 nls_example"
  let ?o = "nls_call_at 64 (\<lambda>w. snd (nd_listener_open nd_fifo_api nd_example_service PS_v4 w)) ?s"
  have "?step nls_example {#} ?s" by (rule nls_constructed) (simp_all add: nls_example_def)
  note r = run_one [where step = ?step, OF this]
  have "nls_impl ?s 64 \<noteq> None" by (simp add: nls_construct_def)
  then have "?step ?s {#} ?o" by (intro nls_call_at_step nlc_open)
  note r = run_step [OF r this]
  have "nls_impl ?o 64 \<noteq> None" by (simp add: nls_construct_def nls_call_at_def nls_return_def)
  then have "?step ?o {#3#} nls_example_waiting"
    unfolding nls_example_waiting_def by (intro nls_call_at_step nlc_get)
  note r = run_step [OF r this]
  obtain op where "nls_pending nls_example_waiting = [] @ (16, op, False) # []"
    using nls_example_states(1) by auto
  from nls_kernel [OF this, of no_error] this have "?step nls_example_waiting {#} nls_example_arrived"
    by (simp add: nls_example_arrived_def)
  note r = run_step [OF r this]
  obtain i where "nls_impl nls_example_arrived 64 = Some i" using nls_example_states(2) by blast
  from nls_move_constructed [OF _ nls_example_states(3) this]
  have "?step nls_example_arrived {#} (nls_move_construct 72 64 nls_example_arrived)" by simp
  note r = run_step [OF r this]
  have "nls_impl (nls_move_construct 72 64 nls_example_arrived) 72 \<noteq> None" using nls_example_states(2)
    by (auto simp: nls_move_construct_def nd_listener_move_construct_def)
  then have "?step (nls_move_construct 72 64 nls_example_arrived) {#4#} nls_example_final"
    unfolding nls_example_final_def by (intro nls_call_at_step nlc_get)
  note run_step [OF r this]
  then show ?thesis by simp
qed

theorem nd_listener_service_conserves_witness:
  "(\<exists>p i. nls_impl nls_example_final p = Some i \<and> nli_handle i = 16) \<and> 16 \<in> nd_fifo_live (nls_nd nls_example_final) \<and>
   nls_handlers nls_example_final = {#4, 3#}"
proof -
  obtain op where "nls_pending nls_example_final = [(16, op, False)]" using nls_example_states(4) by auto
  then have "(16, op, False) \<in> set (nls_pending nls_example_final)" by simp
  moreover note T = nd_listener_service_conserves [OF nls_example_laws(1-3) nls_example_run]
  ultimately have "\<exists>p i. nls_impl nls_example_final p = Some i \<and> nli_handle i = 16"
    "16 \<in> nd_fifo_live (nls_nd nls_example_final)" by blast+
  then show ?thesis using T by simp
qed

theorem nd_listener_service_shutdown_witness:
  "\<exists>s'. nls_shutdown nd_fifo_api nls_example_final = Some s' \<and> nls_handlers s' = {#4, 3#} \<and>
     mset_set (nd_fifo_live (nls_nd
       ((nls_complete nd_fifo_api False ^^ length (nls_posted (nls_abandon s'))) (nls_abandon s')))) = {#}"
  using nd_listener_service_shutdown [OF nls_example_laws(1-3) nls_example_run]
  by (auto simp: nls_handed_objs_def nls_example_states(5) nls_example_laws(4))

end
