(* ===== verification/IBV_Public.thy ===== *)
theory IBV_Public
  imports IBV_Listener IBV_Connector_Run
begin

text \<open>
  The public connector and listener of libibverbs: \<open>ibv/ibv_connector.hpp\<close> and the calls of
  \<open>ibv/ibv_listener.hpp\<close>. They add to the services the throwing overloads, the opening constructor and
  the forms of \<open>async_connect\<close> and \<open>async_accept\<close> that bring a queue pair along.

  A queue pair creates its native queue pair in a closure that the service runs with the connector's id;
  \<open>create_qp_closure\<close> is that closure on a \<open>rdma_create_qp\<close> that changes rdma_cm's state. The forms of
  \<open>async_accept\<close> that make the queue pair themselves keep it in the operation's handler and give it to
  the user when the operation completes (\<open>move_accept_result\<close>). \<open>ds\<close> is the device service of the
  connector's context, which need not be the one the queue pair is bound to.
\<close>

subsection \<open>Throwing overloads and the opening constructor\<close>

text \<open>
  The constructor's exception destroys the half-built connector. \<open>None\<close>: the destructor's drain did not
  end.
\<close>

definition ibv_connector_ctor ::
  "'c cm_api \<Rightarrow> (ptr \<Rightarrow> int) \<Rightarrow> device_service \<Rightarrow> 'c conn_world \<Rightarrow> ((error_code + unit) \<times> 'c conn_world) option"
  where
  "ibv_connector_ctor api reg ds w =
     (case conn_open api reg ds (w\<lparr>kw_impl := connector_construct\<rparr>) of (ec, w1) \<Rightarrow>
        if is_error ec
        then (case close_for_destruction api w1 of None \<Rightarrow> None | Some w2 \<Rightarrow> Some (throw_error ec, w2))
        else Some (throw_error ec, w1))"

definition ibv_connector_open ::
  "'c cm_api \<Rightarrow> (ptr \<Rightarrow> int) \<Rightarrow> device_service \<Rightarrow> 'c conn_world \<Rightarrow> (error_code + unit) \<times> 'c conn_world" where
  "ibv_connector_open api reg ds w = (case conn_open api reg ds w of (ec, w') \<Rightarrow> (throw_error ec, w'))"

definition ibv_connector_assign ::
  "(ptr \<Rightarrow> int) \<Rightarrow> ptr \<times> ptr \<Rightarrow> connector_impl \<Rightarrow> (error_code + unit) \<times> (ptr \<times> ptr) \<times> connector_impl" where
  "ibv_connector_assign reg handle impl =
     (case conn_assign reg handle impl of (ec, handle', impl') \<Rightarrow> (throw_error ec, handle', impl'))"

definition ibv_connector_disconnect :: "'c cm_api \<Rightarrow> 'c conn_world \<Rightarrow> (error_code + unit) \<times> 'c conn_world" where
  "ibv_connector_disconnect api w = (case conn_disconnect api w of (ec, w') \<Rightarrow> (throw_error ec, w'))"

definition ibv_listener_open ::
  "'c cm_api \<Rightarrow> (ptr \<Rightarrow> int) \<Rightarrow> device_service \<Rightarrow> port_space \<Rightarrow> listener_impl \<Rightarrow> 'c
   \<Rightarrow> (error_code + unit) \<times> listener_impl \<times> 'c" where
  "ibv_listener_open api reg ds ps impl c =
     (case listener_open api reg ds ps impl c of (ec, impl', c') \<Rightarrow> (throw_error ec, impl', c'))"

definition ibv_listener_bind ::
  "'c cm_api \<Rightarrow> nat \<Rightarrow> listener_impl \<Rightarrow> 'c \<Rightarrow> (error_code + unit) \<times> 'c" where
  "ibv_listener_bind api port impl c =
     (case listener_bind api port impl c of (ec, c') \<Rightarrow> (throw_error ec, c'))"

text \<open>The backlog is 128 unless the caller gives one.\<close>

definition ibv_listener_listen ::
  "'c cm_api \<Rightarrow> i32 option \<Rightarrow> listener_impl \<Rightarrow> 'c \<Rightarrow> (error_code + unit) \<times> 'c" where
  "ibv_listener_listen api bl impl c =
     (case listener_listen api (case bl of None \<Rightarrow> 128 | Some n \<Rightarrow> n) impl c of
        (ec, c') \<Rightarrow> (throw_error ec, c'))"

text \<open>Binding and the binding constructors of a queue pair; an exception leaves no queue pair behind.\<close>

definition ibv_queue_pair_bind_io ::
  "'h notify_api \<Rightarrow> ptr \<Rightarrow> ptr \<Rightarrow> io_ctx \<Rightarrow> ibv_queue_pair \<Rightarrow> 'h vworld
   \<Rightarrow> (error_code + unit) \<times> io_ctx \<times> ibv_queue_pair \<times> 'h vworld" where
  "ibv_queue_pair_bind_io nf ctxp svcp ctx qp w =
     (case bind_io nf ctxp svcp ctx qp w of (ec, ctx', qp', w') \<Rightarrow> (throw_error ec, ctx', qp', w'))"

definition ibv_queue_pair_bind_cq ::
  "ptr \<Rightarrow> ibv_completion_queue \<Rightarrow> ibv_queue_pair \<Rightarrow> (error_code + unit) \<times> ibv_queue_pair" where
  "ibv_queue_pair_bind_cq cqp cq qp = (case bind_cq cqp cq qp of (ec, qp') \<Rightarrow> (throw_error ec, qp'))"

definition ibv_queue_pair_ctor_io ::
  "'h notify_api \<Rightarrow> ptr \<Rightarrow> ptr \<Rightarrow> io_ctx \<Rightarrow> 'h vworld \<Rightarrow> (error_code + ibv_queue_pair) \<times> io_ctx \<times> 'h vworld" where
  "ibv_queue_pair_ctor_io nf ctxp svcp ctx w =
     (case bind_io nf ctxp svcp ctx queue_pair_new w of
        (ec, ctx', qp, w') \<Rightarrow> (if is_error ec then Inl ec else Inr qp, ctx', w'))"

definition ibv_queue_pair_ctor_cq :: "ptr \<Rightarrow> ibv_completion_queue \<Rightarrow> error_code + ibv_queue_pair" where
  "ibv_queue_pair_ctor_cq cqp cq =
     (case bind_cq cqp cq queue_pair_new of (ec, qp) \<Rightarrow> if is_error ec then Inl ec else Inr qp)"

subsection \<open>Connecting\<close>

definition ibv_connector_connect ::
  "'c cm_api \<Rightarrow> (ptr \<Rightarrow> int) \<Rightarrow> device_service \<Rightarrow> endpoint \<Rightarrow> u8 list \<Rightarrow> nat \<Rightarrow> nat \<Rightarrow> 'c conn_world
   \<Rightarrow> 'c conn_world" where
  "ibv_connector_connect api reg ds ep request reply_cap h w =
     async_connect api reg ds ep request True reply_cap True h w"

text \<open>Without a reply buffer; the adapter drops the length of the reply from the handler's arguments.\<close>

definition ibv_connector_connect_no_reply ::
  "'c cm_api \<Rightarrow> (ptr \<Rightarrow> int) \<Rightarrow> device_service \<Rightarrow> endpoint \<Rightarrow> u8 list \<Rightarrow> nat \<Rightarrow> 'c conn_world \<Rightarrow> 'c conn_world"
  where
  "ibv_connector_connect_no_reply api reg ds ep request h w =
     async_connect api reg ds ep request False 0 True h w"

definition connect_no_reply_upcall :: "cm_upcall \<Rightarrow> nat \<times> error_code" where
  "connect_no_reply_upcall u =
     (cu_handler u, connect_drop_reply_adapter id (cu_ec u) (cu_reply_len u))"

subsection \<open>Accepting\<close>

type_synonym 'c rdma_create_qp_fn = "ptr \<Rightarrow> ptr \<Rightarrow> qp_init_attr \<Rightarrow> 'c \<Rightarrow> int \<times> int \<times> ptr \<times> 'c"

definition create_qp_closure ::
  "'c rdma_create_qp_fn \<Rightarrow> ibv_queue_pair \<Rightarrow> ptr \<Rightarrow> 'c \<Rightarrow> error_code \<times> ibv_queue_pair \<times> 'c" where
  "create_qp_closure call qp cm_id c =
     (case make_create_qp_fn (\<lambda>i pd attr. case call i pd attr c of (rc, errno, q, c') \<Rightarrow> (rc, errno, q)) cm_id qp of
        (ec, qp') \<Rightarrow>
          (ec, qp',
           case vi_device (qp_impl qp) of
             None \<Rightarrow> c
           | Some d \<Rightarrow>
               if dev_pd d = nullptr \<or> vi_cq (qp_impl qp) = nullptr then c
               else case call cm_id (dev_pd d) (qp_attr_of (qp_impl qp)) c of (rc, errno, q, c') \<Rightarrow> c'))"

text \<open>The closure as the service sees it, and the queue pair after the service ran it.\<close>

definition closure_cb :: "'c rdma_create_qp_fn \<Rightarrow> ibv_queue_pair \<Rightarrow> 'c create_qp_cb" where
  "closure_cb call qp cm_id c = (case create_qp_closure call qp cm_id c of (ec, qp', c') \<Rightarrow> (ec, c'))"

definition closure_qp :: "'c rdma_create_qp_fn \<Rightarrow> ibv_queue_pair \<Rightarrow> 'c conn_world \<Rightarrow> ibv_queue_pair" where
  "closure_qp call qp w =
     (case create_qp_closure call qp (ci_cm_id (kw_impl w)) (kw_cm w) of (ec, qp', c') \<Rightarrow> qp')"

definition ibv_connector_accept ::
  "'c cm_api \<Rightarrow> 'c rdma_create_qp_fn \<Rightarrow> device_service \<Rightarrow> ibv_queue_pair \<Rightarrow> u8 list \<Rightarrow> nat \<Rightarrow> 'c conn_world
   \<Rightarrow> 'c conn_world \<times> ibv_queue_pair" where
  "ibv_connector_accept api call ds qp private_data h w =
     (async_accept api (closure_cb call qp) True ds private_data h w,
      if accept_guard ds (kw_impl w) private_data = None then closure_qp call qp w else qp)"

text \<open>
  The forms that make the queue pair, bound to a context or to a completion queue. The last components
  are the queue pair in the operation's handler and what binding did to the context.
\<close>

definition ibv_move_accept ::
  "'c cm_api \<Rightarrow> 'c rdma_create_qp_fn \<Rightarrow> device_service \<Rightarrow> error_code \<Rightarrow> ibv_queue_pair \<Rightarrow> u8 list \<Rightarrow> nat
   \<Rightarrow> 'c conn_world \<Rightarrow> 'c conn_world \<times> ibv_queue_pair" where
  "ibv_move_accept api call ds bind_ec qp private_data h w =
     (async_move_accept api (closure_cb call qp) bind_ec ds private_data h w,
      if \<not> is_error bind_ec \<and> accept_guard ds (kw_impl w) private_data = None
      then closure_qp call qp w else qp)"

definition ibv_connector_accept_io ::
  "'c cm_api \<Rightarrow> 'c rdma_create_qp_fn \<Rightarrow> 'h notify_api \<Rightarrow> ptr \<Rightarrow> ptr \<Rightarrow> io_ctx \<Rightarrow> device_service \<Rightarrow> u8 list \<Rightarrow> nat
   \<Rightarrow> 'h vworld \<Rightarrow> 'c conn_world \<Rightarrow> 'c conn_world \<times> ibv_queue_pair \<times> io_ctx \<times> 'h vworld" where
  "ibv_connector_accept_io api call nf ctxp svcp ctx ds private_data h v w =
     (case bind_io nf ctxp svcp ctx queue_pair_new v of (bind_ec, ctx', qp, v') \<Rightarrow>
        case ibv_move_accept api call ds bind_ec (fst (queue_pair_move qp)) private_data h w of
          (w', qp') \<Rightarrow> (w', qp', ctx', v'))"

definition ibv_connector_accept_cq ::
  "'c cm_api \<Rightarrow> 'c rdma_create_qp_fn \<Rightarrow> ptr \<Rightarrow> ibv_completion_queue \<Rightarrow> device_service \<Rightarrow> u8 list \<Rightarrow> nat
   \<Rightarrow> 'c conn_world \<Rightarrow> 'c conn_world \<times> ibv_queue_pair" where
  "ibv_connector_accept_cq api call cqp cq ds private_data h w =
     (case bind_cq cqp cq queue_pair_new of (bind_ec, qp) \<Rightarrow>
        ibv_move_accept api call ds bind_ec (fst (queue_pair_move qp)) private_data h w)"

subsection \<open>Accepting with a new queue pair\<close>

text \<open>\<open>rdma_create_qp\<close> gives a queue pair when it succeeds and leaves an error number when it fails.\<close>

definition rdma_create_qp_law :: "'c rdma_create_qp_fn \<Rightarrow> bool" where
  "rdma_create_qp_law call \<longleftrightarrow>
     (\<forall>i pd attr c rc errno q c'. call i pd attr c = (rc, errno, q, c') \<longrightarrow>
        (if rc = 0 then q \<noteq> nullptr else errno \<noteq> 0))"

lemma create_qp_closure_cases:
  assumes "rdma_create_qp_law call" and "create_qp_closure call qp i c = (ec, qp', c')"
  shows "if is_error ec then qp' = qp
    else \<exists>q. q \<noteq> nullptr \<and> qp' = qp\<lparr>qp_impl := (qp_impl qp)\<lparr>vi_qp := q\<rparr>\<rparr>"
proof (cases "vi_device (qp_impl qp)")
  case None
  then show ?thesis
    using assms(2) by (auto simp: create_qp_closure_def make_create_qp_fn_def verbs_create_qp_def)
next
  case (Some d)
  obtain rc errno q c1 where r: "call i (dev_pd d) (qp_attr_of (qp_impl qp)) c = (rc, errno, q, c1)"
    by (metis prod_cases4)
  have L: "if rc = 0 then q \<noteq> nullptr else errno \<noteq> 0"
    using assms(1) r unfolding rdma_create_qp_law_def by blast
  show ?thesis
    using assms(2) L
    by (cases "rc = 0") (auto simp: create_qp_closure_def make_create_qp_fn_def verbs_create_qp_def Some r
        make_error_code_def is_error_def last_system_error_def make_system_error_code_def no_error_def
        split: if_splits)
qed

text \<open>
  What a move accept has done when it returns: it is armed with a bound queue pair that has its native
  queue pair, or posted with an error; \<open>made qp\<close> says how the queue pair was bound.
\<close>

definition move_accept_outcome ::
  "nat \<Rightarrow> completion_mode \<Rightarrow> 'c conn_world \<Rightarrow> 'c conn_world \<Rightarrow> ibv_queue_pair \<Rightarrow> bool" where
  "move_accept_outcome h mode w w' qp \<longleftrightarrow>
     (\<exists>op. cm_op_handler op = h \<and>
        (if is_error (cm_op_ec op)
         then kw_armed w' = kw_armed w \<and> kw_posted w' = kw_posted w @ [op] \<and>
           move_accept_result (cm_op_ec op) qp = queue_pair_new
         else kw_armed w' = kw_armed w @ [op] \<and> kw_posted w' = kw_posted w \<and>
           ci_state (kw_impl w') = cs_connecting \<and> bound_type qp = mode \<and> qp_ok qp \<and>
           vi_qp (qp_impl qp) \<noteq> nullptr \<and> move_accept_result (cm_op_ec op) qp = qp))"

lemma move_accept_result_cases [simp]:
  "is_error ec \<Longrightarrow> move_accept_result ec qp = queue_pair_new"
  "\<not> is_error ec \<Longrightarrow> move_accept_result ec qp = qp"
  by (simp_all add: move_accept_result_def queue_pair_move_def queue_pair_new_def)

lemma move_result_same [simp]: "fst (queue_pair_move qp) = qp"
  by (simp add: queue_pair_move_def)

lemma bound_backfill [simp]:
  "bound_type (qp\<lparr>qp_impl := (qp_impl qp)\<lparr>vi_qp := q\<rparr>\<rparr>) = bound_type qp"
  "qp_ok (qp\<lparr>qp_impl := (qp_impl qp)\<lparr>vi_qp := q\<rparr>\<rparr>) = qp_ok qp"
  by (simp_all add: bound_type_def verbs_is_bound_def qp_ok_def)

lemma move_accept_posted:
  "cm_op_handler op = h \<Longrightarrow> is_error ec \<Longrightarrow> kw_armed w1 = kw_armed w \<Longrightarrow> kw_posted w1 = kw_posted w \<Longrightarrow>
   move_accept_outcome h mode w (reactor_post ec op w1) qp"
  unfolding move_accept_outcome_def by (intro exI [of _ "set_ec ec op"]) (simp add: reactor_post_def)

lemma ibv_move_accept_outcome:
  assumes law: "rdma_create_qp_law call" "start_errno_law api"
    and bound: "\<not> is_error bind_ec \<Longrightarrow> bound_type qp = mode \<and> qp_ok qp"
    and r: "ibv_move_accept api call ds bind_ec qp pd h w = (w', qp')"
  shows "move_accept_outcome h mode w w' qp'"
proof (cases "is_error bind_ec \<or> accept_guard ds (kw_impl w) pd \<noteq> None")
  case True
  then show ?thesis
    using r accept_guard_error [of ds "kw_impl w" pd]
    by (auto simp: ibv_move_accept_def async_move_accept_def Let_def accept_op_new_def split: if_splits
        intro!: move_accept_posted)
next
  case False
  let ?op = "accept_op_new no_error (ci_cm_id (kw_impl w)) (ci_channel (kw_impl w))
    (min_rnr_timer (effective_config ds)) h"
  let ?w1 = "set_state cs_connecting w"
  have idle: "ci_state (kw_impl w) = cs_idle"
    using False by (auto simp: accept_guard_def split: if_splits)
  obtain ec q c1 where q: "create_qp_closure call qp (ci_cm_id (kw_impl w)) (kw_cm w) = (ec, q, c1)"
    by (metis prod_cases3)
  obtain rc e c2 where a: "cm_accept api (ci_cm_id (kw_impl w)) (accept_param ds pd) c1 = (rc, e, c2)"
    by (metis prod_cases3)
  have e: "rc \<noteq> 0 \<Longrightarrow> is_error e" using start_wrapper_error(2) [OF law(2)] a by (metis fst_conv snd_conv)
  note Q = create_qp_closure_cases [OF law(1) q]
  have run: "(w', qp') =
     (if is_error ec then reactor_post ec (Op_accept ?op) (set_state cs_closed (?w1\<lparr>kw_cm := c1\<rparr>))
      else if rc = 0 then reactor_start_op (Op_accept (?op\<lparr>ao_ec := no_error\<rparr>)) (?w1\<lparr>kw_cm := c2\<rparr>)
      else reactor_post e (Op_accept ?op) (set_state cs_closed (?w1\<lparr>kw_cm := c2\<rparr>)), q)"
    using False idle q a r [symmetric]
    by (simp add: ibv_move_accept_def async_move_accept_def start_accept_op_def closure_cb_def closure_qp_def
        Let_def)
  consider "is_error ec" | "\<not> is_error ec" "rc \<noteq> 0" | "\<not> is_error ec" "rc = 0" by blast
  then show ?thesis
  proof cases
    case 3
    then have "bound_type q = mode" "qp_ok q" "vi_qp (qp_impl q) \<noteq> nullptr"
      using Q bound False by auto
    then show ?thesis
      using 3 run unfolding move_accept_outcome_def
      by (intro exI [of _ "Op_accept (?op\<lparr>ao_ec := no_error\<rparr>)"])
        (simp add: reactor_start_op_def accept_op_new_def is_error_def no_error_def)
  qed (use run e in \<open>auto intro!: move_accept_posted simp: accept_op_new_def\<close>)
qed

text \<open>
  \<open>async_accept\<close> on a context makes a queue pair of its own. When it returns, either the accept is
  armed, the connector is connecting and the queue pair in the handler is bound in event mode to a
  native queue pair, or the operation is posted with an error and the handler will receive an empty queue
  pair. On a context without a device nothing else changes; otherwise the context's poller runs.
\<close>

theorem ibv_accept_io_outcome:
  assumes "ctx_ok ctx" and "ctxp \<noteq> nullptr" and "rdma_create_qp_law call" and "start_errno_law api"
    and r: "ibv_connector_accept_io api call nf ctxp svcp ctx ds pd h v w = (w', qp, ctx', v')"
  shows "move_accept_outcome h mode_event w w' qp \<and>
    (if ds_registered (ctx_dev ctx) then io_poller_started (ctx_io ctx')
     else ctx' = ctx \<and> v' = v \<and> kw_cm w' = kw_cm w \<and> kw_impl w' = kw_impl w)"
proof -
  obtain bind_ec ctx1 qp1 v1 where b: "bind_io nf ctxp svcp ctx queue_pair_new v = (bind_ec, ctx1, qp1, v1)"
    by (metis prod_cases4)
  have r': "ibv_move_accept api call ds bind_ec qp1 pd h w = (w', qp)" "ctx' = ctx1" "v' = v1"
    using r b by (auto simp: ibv_connector_accept_io_def split: prod.splits)
  have new: "\<not> verbs_is_bound (qp_impl queue_pair_new)"
    by (simp add: queue_pair_new_def verbs_impl_new_def verbs_is_bound_def)
  have "\<not> is_error bind_ec \<Longrightarrow> bound_type qp1 = mode_event \<and> qp_ok qp1"
    using bind_io_outcome [OF assms(1,2) b] by simp
  from ibv_move_accept_outcome [OF assms(3,4) this r'(1)]
  have o: "move_accept_outcome h mode_event w w' qp" by simp
  show ?thesis
  proof (cases "ds_registered (ctx_dev ctx)")
    case True
    then have "io_poller_started (ctx_io ctx1)"
      using b new by (auto simp: bind_io_def ensure_poller_started_def arm_poller_def Let_def
          split: prod.splits if_splits)
    then show ?thesis using o r' True by simp
  next
    case False
    then have "is_error bind_ec" "ctx1 = ctx" "v1 = v"
      using b new by (auto simp: bind_io_def)
    then show ?thesis using False o r'
      by (auto simp: ibv_move_accept_def async_move_accept_def reactor_post_def)
  qed
qed

lemma ibv_accept_cq_outcome:
  assumes "cq_handle cq \<noteq> nullptr" and "cqp \<noteq> nullptr" and "rdma_create_qp_law call" and "start_errno_law api"
    and r: "ibv_connector_accept_cq api call cqp cq ds pd h w = (w', qp)"
  shows "move_accept_outcome h mode_poll w w' qp"
proof -
  obtain bind_ec qp1 where b: "bind_cq cqp cq queue_pair_new = (bind_ec, qp1)" by fastforce
  have "\<not> is_error bind_ec \<Longrightarrow> bound_type qp1 = mode_poll \<and> qp_ok qp1"
    using bind_cq_outcome [OF assms(1,2) b] by simp
  from ibv_move_accept_outcome [OF assms(3,4) this] show ?thesis
    using r b by (simp add: ibv_connector_accept_cq_def)
qed

text \<open>
  The opening constructor returns an open connector that owns a new channel and id, or throws and leaves
  no channel and no id behind.
\<close>

theorem ibv_connector_ctor_outcome:
  assumes "resource_law live api"
  shows "\<exists>res w'. ibv_connector_ctor api reg ds w = Some (res, w') \<and>
    (case res of
       Inl ec \<Rightarrow> is_error ec \<and> live (kw_cm w') = live (kw_cm w) \<and> \<not> conn_is_open (kw_impl w')
     | Inr u \<Rightarrow> \<exists>channel cm_id. owns (kw_impl w') channel cm_id \<and>
         live (kw_cm w') = {channel, cm_id} \<union> live (kw_cm w))"
proof -
  obtain ec w1 where r: "conn_open api reg ds (w\<lparr>kw_impl := connector_construct\<rparr>) = (ec, w1)" by fastforce
  note O = conn_open_outcome [OF assms r]
  show ?thesis
  proof (cases "is_error ec")
    case True
    then have "kw_impl w1 = connector_construct" "live (kw_cm w1) = live (kw_cm w)"
      using O by (simp_all add: open_outcome_def)
    then show ?thesis
      using True r by (auto simp: ibv_connector_ctor_def throw_error_def close_for_destruction_def
          connector_construct_def conn_is_open_def)
  next
    case False
    then show ?thesis using O r by (auto simp: ibv_connector_ctor_def throw_error_def open_outcome_def)
  qed
qed

subsection \<open>Concrete runs\<close>

definition public_caps :: native_device_attr_t where
  "public_caps = \<lparr>max_cqe = 64, max_qp_wr = 32, max_sge = 2, max_qp_rd_atom = 16,
     max_qp_init_rd_atom = 16\<rparr>"

definition public_ctx :: io_ctx where
  "public_ctx =
     \<lparr>ctx_dev = register_device (Some \<lparr>dev_context = 2, dev_pd = 3, dev_attr = public_caps,
        dev_name = ''rxe0'', dev_v4_address = None, dev_v6_address = None\<rparr>)
        (ibv_derive_effective_config default_config public_caps) device_service_new,
      ctx_io = io_service_new\<lparr>io_cq := 5, io_comp_channel := 6, io_registered := True\<rparr>\<rparr>"

lemma public_ctx_ok: "ctx_ok public_ctx"
proof -
  have "ibv_is_config_compatible (ibv_derive_effective_config default_config public_caps) public_caps"
    by code_simp
  then show ?thesis
    by (simp add: ctx_ok_def public_ctx_def register_device_def is_valid_device_def io_service_new_def)
qed

lemma sim_rdma_create_qp_law:
  "rdma_create_qp_law (\<lambda>i pd attr s. (0, 0, 4096, s))"
  by (simp add: rdma_create_qp_law_def)

theorem ibv_accept_io_outcome_witness:
  "\<exists>w' qp ctx' v'. ibv_connector_accept_io sim_cm_api (\<lambda>i pd attr s. (0, 0, 4096, s)) hca_api 7 8 public_ctx
      sim_device_service [1, 2] 9 quiet_world sim_opened = (w', qp, ctx', v') \<and>
    kw_posted w' = [] \<and> vi_qp (qp_impl qp) = 4096 \<and> move_accept_outcome 9 mode_event sim_opened w' qp \<and>
    io_poller_started (ctx_io ctx')"
proof -
  let ?run = "ibv_connector_accept_io sim_cm_api (\<lambda>i pd attr s. (0, 0, 4096, s)) hca_api 7 8 public_ctx
      sim_device_service [1, 2] 9 quiet_world sim_opened"
  obtain w' qp ctx' v' where r: "?run = (w', qp, ctx', v')" by (metis prod_cases4)
  have "kw_posted (fst ?run) = [] \<and> vi_qp (qp_impl (fst (snd ?run))) = 4096" by code_simp
  moreover have "ds_registered (ctx_dev public_ctx)" by code_simp
  ultimately show ?thesis
    using ibv_accept_io_outcome [OF public_ctx_ok _ sim_rdma_create_qp_law sim_start_errno_law r] r by simp
qed

theorem ibv_connector_ctor_outcome_witness:
  "\<exists>res w'. ibv_connector_ctor sim_cm_api (\<lambda>ch. 0) sim_device_service sim_opened = Some (res, w') \<and>
    (case res of
       Inl ec \<Rightarrow> is_error ec \<and> sim_live_set (kw_cm w') = sim_live_set (kw_cm sim_opened) \<and>
         \<not> conn_is_open (kw_impl w')
     | Inr u \<Rightarrow> \<exists>channel cm_id. owns (kw_impl w') channel cm_id \<and>
         sim_live_set (kw_cm w') = {channel, cm_id} \<union> sim_live_set (kw_cm sim_opened))"
  by (rule ibv_connector_ctor_outcome [OF sim_resource_law])

end
