(* ===== verification/ND_Queue_Pair.thy ===== *)
theory ND_Queue_Pair
  imports ND_Completion_Queue
begin

text \<open>
  Installing a NetworkDirect device on an \<open>io_context\<close> and binding queue pairs:
  \<open>nd/impl/nd_use_device.ipp\<close> and \<open>nd/nd_queue_pair.hpp\<close>. Unlike on libibverbs the native queue pair is
  created when a queue pair is bound.

  The lemmas: \<open>use_device\<close> registers exactly on success; a successful bind gives a native queue pair, the
  requested mode and, in event mode, a running poller; initiating through it keeps the accounting.
\<close>

subsection \<open>\<open>use_device\<close>\<close>

record nd_io_ctx =
  nctx_dev :: nd_device_service
  nctx_io :: nd_io_service

definition nd_is_valid_adapter :: "nd_adapter option \<Rightarrow> bool" where
  "nd_is_valid_adapter device =
     (case device of None \<Rightarrow> False | Some d \<Rightarrow> na_adapter d \<noteq> nullptr)"

definition nd_use_device ::
  "'h nd_api \<Rightarrow> 'h nd_cq_api \<Rightarrow> nd_adapter option \<Rightarrow> rdma_config_t \<Rightarrow> nd_io_ctx \<Rightarrow> 'h
   \<Rightarrow> error_code \<times> nd_io_ctx \<times> 'h" where
  "nd_use_device api cqa device config ctx h =
     (if nds_registered (nctx_dev ctx) then (make_error_code already_registered, ctx, h)
      else if \<not> nd_is_valid_adapter device then (make_error_code invalid_device, ctx, h)
      else if \<not> nd_is_config_compatible config (na_info (the device))
      then (make_error_code invalid_config, ctx, h)
      else let effective = nd_derive_effective_config config (na_info (the device)) in
        case nd_io_initialize api cqa device (cqe effective) (cq_poll_batch effective) (nctx_io ctx) h of
          (ec, io, h') \<Rightarrow>
            if is_error ec then (ec, ctx\<lparr>nctx_io := io\<rparr>, h')
            else (ec, ctx\<lparr>nctx_io := io,
                    nctx_dev := nd_register_device device effective (nctx_dev ctx)\<rparr>, h'))"

definition nd_use_device_throwing ::
  "'h nd_api \<Rightarrow> 'h nd_cq_api \<Rightarrow> nd_adapter option \<Rightarrow> rdma_config_t \<Rightarrow> nd_io_ctx \<Rightarrow> 'h
   \<Rightarrow> (error_code + unit) \<times> nd_io_ctx \<times> 'h" where
  "nd_use_device_throwing api cqa device config ctx h =
     (case nd_use_device api cqa device config ctx h of
        (ec, ctx', h') \<Rightarrow> (if is_error ec then Inl ec else Inr (), ctx', h'))"

subsection \<open>Queue pairs\<close>

record nd_queue_pair =
  nqp_impl :: nd_verbs_impl
  nqp_io_ctx :: ptr
  nqp_verbs_svc :: ptr

definition nd_queue_pair_new :: nd_queue_pair where
  "nd_queue_pair_new = \<lparr>nqp_impl = nd_verbs_impl_new, nqp_io_ctx = nullptr, nqp_verbs_svc = nullptr\<rparr>"

text \<open>Moving leaves a default-constructed source; assigning drops the queue pair the target owned.\<close>

definition nd_queue_pair_move :: "nd_queue_pair \<Rightarrow> nd_queue_pair \<times> nd_queue_pair" where
  "nd_queue_pair_move other =
     (\<lparr>nqp_impl = nqp_impl other, nqp_io_ctx = nqp_io_ctx other, nqp_verbs_svc = nqp_verbs_svc other\<rparr>,
      other\<lparr>nqp_impl := nd_verbs_impl_new, nqp_io_ctx := nullptr, nqp_verbs_svc := nullptr\<rparr>)"

definition nd_queue_pair_assign ::
  "'h nd_api \<Rightarrow> nd_queue_pair \<Rightarrow> nd_queue_pair \<Rightarrow> 'h \<Rightarrow> nd_queue_pair \<times> nd_queue_pair \<times> 'h" where
  "nd_queue_pair_assign api target other h =
     (case nd_queue_pair_move other of (target', other') \<Rightarrow>
        (target', other',
         if nvi_qp (nqp_impl target) \<noteq> nullptr then nda_release api h (nvi_qp (nqp_impl target)) else h))"

definition nd_bound_type :: "nd_queue_pair \<Rightarrow> completion_mode" where
  "nd_bound_type qp =
     (if \<not> nd_is_bound (nqp_impl qp) then mode_none
      else if nqp_io_ctx qp \<noteq> nullptr then mode_event else mode_poll)"

text \<open>\<open>bind(io_context)\<close>; \<open>ctxp\<close> and \<open>svcp\<close> are the addresses of the context and its verbs service.\<close>

definition nd_bind_io ::
  "'h nd_create_qp_fn \<Rightarrow> 'h nd_cq_api \<Rightarrow> ptr \<Rightarrow> ptr \<Rightarrow> nd_io_ctx \<Rightarrow> nd_queue_pair \<Rightarrow> 'h vworld
   \<Rightarrow> error_code \<times> nd_io_ctx \<times> nd_queue_pair \<times> 'h vworld" where
  "nd_bind_io create cqa ctxp svcp ctx qp w =
     (if nd_is_bound (nqp_impl qp) then (already_open, ctx, qp, w)
      else if \<not> nds_registered (nctx_dev ctx)
      then (make_error_code device_not_registered, ctx, qp, w)
      else
        let impl = (nqp_impl qp)\<lparr>nvi_device := nds_device (nctx_dev ctx), nvi_cq := nio_cq (nctx_io ctx),
              nvi_config := nds_effective_config (nctx_dev ctx), nvi_poll_cq := nullptr\<rparr>
        in case nd_create_qp create impl (hw w) of (ec, impl', h') \<Rightarrow>
          let qp' = qp\<lparr>nqp_io_ctx := ctxp, nqp_impl := impl', nqp_verbs_svc := svcp\<rparr>;
              w1 = w\<lparr>hw := h'\<rparr>
          in if is_error ec then (ec, ctx, qp', w1)
             else case nd_ensure_poller_started cqa (nctx_io ctx) w1 of
               (io, w2) \<Rightarrow> (ec, ctx\<lparr>nctx_io := io\<rparr>, qp', w2))"

text \<open>\<open>bind(completion_queue)\<close>; \<open>cqp\<close> is the address of the completion queue object.\<close>

definition nd_bind_cq ::
  "'h nd_create_qp_fn \<Rightarrow> ptr \<Rightarrow> nd_completion_queue \<Rightarrow> nd_queue_pair \<Rightarrow> 'h \<Rightarrow> error_code \<times> nd_queue_pair \<times> 'h"
  where
  "nd_bind_cq create cqp cq qp h =
     (if nd_is_bound (nqp_impl qp) then (already_open, qp, h)
      else
        let impl = (nqp_impl qp)\<lparr>nvi_device := Some (ncq_device cq), nvi_cq := ncq_handle cq,
              nvi_config := ncq_effective_config cq, nvi_poll_cq := cqp\<rparr>
        in case nd_create_qp create impl h of (ec, impl', h') \<Rightarrow>
          (ec, qp\<lparr>nqp_io_ctx := nullptr, nqp_verbs_svc := nullptr, nqp_impl := impl'\<rparr>, h'))"

definition nd_qp_async_send ::
  "'h nd_post_api \<Rightarrow> nd_queue_pair \<Rightarrow> buffer_seq \<Rightarrow> nat \<Rightarrow> ptr \<Rightarrow> 'h vworld \<Rightarrow> 'h vworld" where
  "nd_qp_async_send api qp bufs h p w =
     (if nqp_io_ctx qp \<noteq> nullptr then nd_async_send api (nqp_impl qp) bufs h p w
      else nd_async_send_static api (nqp_impl qp) bufs h p w)"

definition nd_qp_async_recv ::
  "'h nd_post_api \<Rightarrow> nd_queue_pair \<Rightarrow> buffer_seq \<Rightarrow> nat \<Rightarrow> ptr \<Rightarrow> 'h vworld \<Rightarrow> 'h vworld" where
  "nd_qp_async_recv api qp bufs h p w =
     (if nqp_io_ctx qp \<noteq> nullptr then nd_async_recv api (nqp_impl qp) bufs h p w
      else nd_async_recv_static api (nqp_impl qp) bufs h p w)"

definition nd_qp_async_write ::
  "'h nd_post_api \<Rightarrow> nd_queue_pair \<Rightarrow> buffer_seq \<Rightarrow> rdma_remote_addr_t \<Rightarrow> nat \<Rightarrow> ptr \<Rightarrow> 'h vworld \<Rightarrow> 'h vworld"
  where
  "nd_qp_async_write api qp bufs r h p w =
     (if nqp_io_ctx qp \<noteq> nullptr then nd_async_write api (nqp_impl qp) bufs r h p w
      else nd_async_write_static api (nqp_impl qp) bufs r h p w)"

definition nd_qp_async_read ::
  "'h nd_post_api \<Rightarrow> nd_queue_pair \<Rightarrow> buffer_seq \<Rightarrow> rdma_remote_addr_t \<Rightarrow> nat \<Rightarrow> ptr \<Rightarrow> 'h vworld \<Rightarrow> 'h vworld"
  where
  "nd_qp_async_read api qp bufs r h p w =
     (if nqp_io_ctx qp \<noteq> nullptr then nd_async_read api (nqp_impl qp) bufs r h p w
      else nd_async_read_static api (nqp_impl qp) bufs r h p w)"

subsection \<open>Lemmas\<close>

text \<open>The context's invariant: registered exactly when the completion service is set up.\<close>

definition nd_ctx_ok :: "nd_io_ctx \<Rightarrow> bool" where
  "nd_ctx_ok ctx \<longleftrightarrow>
     (if nds_registered (nctx_dev ctx)
      then nd_is_valid_adapter (nds_device (nctx_dev ctx)) \<and> nio_cq (nctx_io ctx) \<noteq> nullptr \<and>
        is_closable_handle (nio_handle (nctx_io ctx)) \<and> 0 < nio_wc_size (nctx_io ctx) \<and>
        nd_is_config_compatible (nds_effective_config (nctx_dev ctx)) (na_info (the (nds_device (nctx_dev ctx))))
      else nio_cq (nctx_io ctx) = nullptr \<and> nio_handle (nctx_io ctx) = nullptr)"

lemma nd_use_device_outcome:
  assumes law: "nd_handle_law live api" "\<And>a k. nd_factory_law live (nd_create_cq cqa a k)"
    and ok: "nd_ctx_ok ctx" and r: "nd_use_device api cqa device config ctx h = (ec, ctx', h')"
  shows "nd_ctx_ok ctx' \<and>
    (if is_error ec then ctx' = ctx \<and> live h' = live h
     else nds_registered (nctx_dev ctx') \<and> \<not> nds_registered (nctx_dev ctx) \<and>
       nds_device (nctx_dev ctx') = device \<and>
       nds_effective_config (nctx_dev ctx') = nd_derive_effective_config config (na_info (the device)))"
proof (cases "nds_registered (nctx_dev ctx) \<or> \<not> nd_is_valid_adapter device \<or>
    \<not> nd_is_config_compatible config (na_info (the device))")
  case True
  then have "is_error ec" "ctx' = ctx" "h' = h" using r by (auto simp: nd_use_device_def split: if_splits)
  with ok show ?thesis by simp
next
  case False
  then obtain d where d: "device = Some d" "na_adapter d \<noteq> nullptr"
    by (auto simp: nd_is_valid_adapter_def split: option.splits)
  let ?eff = "nd_derive_effective_config config (na_info d)"
  obtain e io h1 where ini: "nd_io_initialize api cqa (Some d) (cqe ?eff) (cq_poll_batch ?eff) (nctx_io ctx) h = (e, io, h1)"
    by (metis prod_cases3)
  have un: "nio_cq (nctx_io ctx) = nullptr" "nio_handle (nctx_io ctx) = nullptr"
    using ok False by (simp_all add: nd_ctx_ok_def)
  obtain a c f h2 where p: "nd_open_pair api (nd_create_cq cqa (na_adapter d) (cqe ?eff)) (na_adapter d) h = (a, c, f, h2)"
    by (metis prod_cases4)
  note P = nd_open_pair_live [OF law(1) law(2) p]
  note I = nd_io_initialize_pair [OF un d(2), of api cqa "cqe ?eff" "cq_poll_batch ?eff" h]
  have c: "nd_is_config_compatible ?eff (na_info d)"
    using nd_config.derived_compat False d by simp
  have batch: "0 < (if cq_poll_batch ?eff \<noteq> 0 then unat (cq_poll_batch ?eff) else 16)" by (simp add: unat_gt_0)
  have io: "(e, io, h1) = (if is_error a then (a, (nctx_io ctx)\<lparr>nio_cq := c, nio_handle := nullptr\<rparr>, h2)
      else (a, (nctx_io ctx)\<lparr>nio_cq := c, nio_handle := f,
        nio_wc_size := (if cq_poll_batch ?eff \<noteq> 0 then unat (cq_poll_batch ?eff) else 16)\<rparr>, h2))"
    unfolding ini [symmetric] I p by simp
  have keep: "(nctx_io ctx)\<lparr>nio_cq := nullptr, nio_handle := nullptr\<rparr> = nctx_io ctx" using un by simp
  have run: "(ec, ctx', h') = (if is_error e then (e, ctx\<lparr>nctx_io := io\<rparr>, h1)
      else (e, ctx\<lparr>nctx_io := io, nctx_dev := nd_register_device (Some d) ?eff (nctx_dev ctx)\<rparr>, h1))"
    using r [symmetric] False d ini by (simp add: nd_use_device_def)
  show ?thesis
  proof (cases "is_error a")
    case True
    then have "(ec, ctx', h') = (a, ctx, h2)" using io run P keep by simp
    then show ?thesis using True P ok by simp
  next
    case ok': False
    then show ?thesis
      using io run P False d c batch
      by (simp add: nd_ctx_ok_def nd_register_device_def nd_is_valid_adapter_def)
  qed
qed

text \<open>\<open>CreateQueuePair\<close> returns a queue pair exactly when it succeeds, and no request with it.\<close>

definition nd_create_qp_law :: "('h \<Rightarrow> ptr multiset) \<Rightarrow> 'h nd_create_qp_fn \<Rightarrow> bool" where
  "nd_create_qp_law outs create \<longleftrightarrow>
     (\<forall>h pd attr hr qp h'. create h pd attr = (hr, qp, h') \<longrightarrow>
        outs h' = outs h \<and> (hr = ND_SUCCESS \<longleftrightarrow> qp \<noteq> nullptr))"

definition nd_qp_ok :: "nd_queue_pair \<Rightarrow> bool" where
  "nd_qp_ok qp \<longleftrightarrow> nvi_qp (nqp_impl qp) \<noteq> nullptr \<and>
     (nqp_io_ctx qp \<noteq> nullptr \<or> nvi_poll_cq (nqp_impl qp) \<noteq> nullptr)"

lemma nd_create_qp_cases:
  assumes "nd_create_qp_law outs create" and "nd_create_qp create impl h = (ec, impl', h')"
    and "nvi_qp impl = nullptr"
  shows "outs h' = outs h \<and> (is_error ec \<longleftrightarrow> nvi_qp impl' = nullptr) \<and>
    impl' = impl\<lparr>nvi_qp := nvi_qp impl'\<rparr>"
  using assms
  by (auto simp: nd_create_qp_def nd_create_qp_law_def split: option.splits if_splits prod.splits)

lemma nd_ensure_poller_inv:
  assumes "vw_inv outs [] held w" and "nd_cq_law outs api"
    and "nd_ensure_poller_started api s w = (s', w')"
  shows "vw_inv outs [] held w'" "handled w' = handled w" "nio_started s'"
    "\<not> nio_started s \<Longrightarrow> nio_phase s' \<noteq> NPoller_idle"
proof -
  have started: "nd_arm_poller api s1 w = (s', w') \<Longrightarrow> nio_started s' = nio_started s1" for s1
    by (auto simp: nd_arm_poller_def split: prod.splits)
  show "vw_inv outs [] held w'" "handled w' = handled w" "nio_started s'"
    "\<not> nio_started s \<Longrightarrow> nio_phase s' \<noteq> NPoller_idle"
    using assms(3) nd_arm_poller_inv [OF assms(1,2)] assms(1) started
    by (auto simp: nd_ensure_poller_started_def split: if_splits)
qed

text \<open>The four operations of a queue pair, by kind.\<close>

fun nd_qp_initiate ::
  "'h nd_post_api \<Rightarrow> verbs_op_type \<Rightarrow> nd_queue_pair \<Rightarrow> buffer_seq \<Rightarrow> rdma_remote_addr_t \<Rightarrow> nat \<Rightarrow> ptr
   \<Rightarrow> 'h vworld \<Rightarrow> 'h vworld" where
  "nd_qp_initiate api post_send qp b r h p w = nd_qp_async_send api qp b h p w"
| "nd_qp_initiate api post_recv qp b r h p w = nd_qp_async_recv api qp b h p w"
| "nd_qp_initiate api remote_read qp b r h p w = nd_qp_async_read api qp b r h p w"
| "nd_qp_initiate api remote_write qp b r h p w = nd_qp_async_write api qp b r h p w"

lemma nd_qp_initiate_eq:
  "nd_qp_initiate api kind qp b r h p w = nd_initiate api (nqp_io_ctx qp \<noteq> nullptr) kind (nqp_impl qp) b r h p w"
  by (cases "nqp_io_ctx qp = nullptr"; cases kind)
    (simp_all add: nd_qp_async_send_def nd_qp_async_recv_def nd_qp_async_read_def nd_qp_async_write_def)

lemma nd_qp_initiate_inv:
  assumes "vw_inv outs batch held w" and "fresh_op p w" and "nd_post_law outs api" and "nd_qp_ok qp"
  shows "vw_inv outs batch held (nd_qp_initiate api kind qp b r h p w)"
  unfolding nd_qp_initiate_eq
  using nd_initiate_inv [OF assms(1-3)] assms(4) by (simp add: nd_qp_ok_def)

lemma nd_bind_io_unfold:
  assumes "nd_ctx_ok ctx" and "nd_create_qp_law outs create" and "nvi_qp (nqp_impl qp) = nullptr"
    and "nd_bind_io create cqa ctxp svcp ctx qp w = (ec, ctx', qp', w')"
    and "nds_registered (nctx_dev ctx)" and "\<not> nd_is_bound (nqp_impl qp)"
  obtains n h' where "outs h' = outs (hw w)" and "is_error ec \<longleftrightarrow> n = nullptr"
    and "qp' = qp\<lparr>nqp_io_ctx := ctxp, nqp_verbs_svc := svcp,
      nqp_impl := \<lparr>nvi_qp = n, nvi_cq = nio_cq (nctx_io ctx), nvi_device = nds_device (nctx_dev ctx),
        nvi_config = nds_effective_config (nctx_dev ctx), nvi_poll_cq = nullptr\<rparr>\<rparr>"
    and "if is_error ec then ctx' = ctx \<and> w' = w\<lparr>hw := h'\<rparr>
      else \<exists>io. nd_ensure_poller_started cqa (nctx_io ctx) (w\<lparr>hw := h'\<rparr>) = (io, w') \<and> ctx' = ctx\<lparr>nctx_io := io\<rparr>"
proof -
  let ?impl = "(nqp_impl qp)\<lparr>nvi_device := nds_device (nctx_dev ctx), nvi_cq := nio_cq (nctx_io ctx),
              nvi_config := nds_effective_config (nctx_dev ctx), nvi_poll_cq := nullptr\<rparr>"
  obtain e i h' where c: "nd_create_qp create ?impl (hw w) = (e, i, h')" by (metis prod_cases3)
  have f: "outs h' = outs (hw w)" "is_error e \<longleftrightarrow> nvi_qp i = nullptr" "i = ?impl\<lparr>nvi_qp := nvi_qp i\<rparr>"
    using nd_create_qp_cases [OF assms(2) c] assms(3) by simp_all
  show thesis
  proof (rule that [of h' "nvi_qp i"])
    show "outs h' = outs (hw w)" by (rule f(1))
    have e: "e = ec" using assms(4-6) c by (auto simp: nd_bind_io_def Let_def split: if_splits prod.splits)
    then show "is_error ec \<longleftrightarrow> nvi_qp i = nullptr" using f(2) by simp
    have q: "qp' = qp\<lparr>nqp_io_ctx := ctxp, nqp_impl := i, nqp_verbs_svc := svcp\<rparr>"
      using assms(4-6) c by (auto simp: nd_bind_io_def Let_def split: if_splits prod.splits)
    show "qp' = qp\<lparr>nqp_io_ctx := ctxp, nqp_verbs_svc := svcp,
      nqp_impl := \<lparr>nvi_qp = nvi_qp i, nvi_cq = nio_cq (nctx_io ctx), nvi_device = nds_device (nctx_dev ctx),
        nvi_config = nds_effective_config (nctx_dev ctx), nvi_poll_cq = nullptr\<rparr>\<rparr>"
      unfolding q by (subst f(3)) simp
    show "if is_error ec then ctx' = ctx \<and> w' = w\<lparr>hw := h'\<rparr>
      else \<exists>io. nd_ensure_poller_started cqa (nctx_io ctx) (w\<lparr>hw := h'\<rparr>) = (io, w') \<and> ctx' = ctx\<lparr>nctx_io := io\<rparr>"
      using assms(4-6) c e by (auto simp: nd_bind_io_def Let_def split: if_splits prod.splits)
  qed
qed

subsection \<open>Binding\<close>

text \<open>
  C26. A queue pair bound to an io_context on which a device is installed has a native queue pair, is in
  event mode with the device's effective configuration, and the context's poller is running; binding loses
  no operation, and from then on each of the four operations takes its handler into the accounting
  exactly once and keeps it.
\<close>

theorem nd_bind_io_usable:
  assumes "nd_ctx_ok ctx" and "nd_create_qp_law outs create" and "nd_cq_law outs cqa"
    and "nd_post_law outs api" and "vw_inv outs [] held w" and "ctxp \<noteq> nullptr"
    and "nvi_qp (nqp_impl qp) = nullptr"
    and "nd_bind_io create cqa ctxp svcp ctx qp w = (ec, ctx', qp', w')" and "\<not> is_error ec"
  shows "nvi_qp (nqp_impl qp') \<noteq> nullptr \<and> nd_bound_type qp' = mode_event \<and>
    nvi_config (nqp_impl qp') = nds_effective_config (nctx_dev ctx) \<and>
    nio_started (nctx_io ctx') \<and> (\<not> nio_started (nctx_io ctx) \<longrightarrow> nio_phase (nctx_io ctx') \<noteq> NPoller_idle) \<and>
    vw_inv outs [] held w' \<and> handled w' = handled w \<and>
    (\<forall>kind b r h p. fresh_op p w' \<longrightarrow>
       vw_inv outs [] held (nd_qp_initiate api kind qp' b r h p w') \<and>
       handled (nd_qp_initiate api kind qp' b r h p w') = add_mset h (handled w'))"
proof -
  have reg: "nds_registered (nctx_dev ctx)" "\<not> nd_is_bound (nqp_impl qp)"
    using assms(8,9) by (auto simp: nd_bind_io_def split: if_splits)
  obtain n h' where b: "outs h' = outs (hw w)" "is_error ec \<longleftrightarrow> n = nullptr"
    and q: "qp' = qp\<lparr>nqp_io_ctx := ctxp, nqp_verbs_svc := svcp,
      nqp_impl := \<lparr>nvi_qp = n, nvi_cq = nio_cq (nctx_io ctx), nvi_device = nds_device (nctx_dev ctx),
        nvi_config = nds_effective_config (nctx_dev ctx), nvi_poll_cq = nullptr\<rparr>\<rparr>"
    and "if is_error ec then ctx' = ctx \<and> w' = w\<lparr>hw := h'\<rparr>
      else \<exists>io. nd_ensure_poller_started cqa (nctx_io ctx) (w\<lparr>hw := h'\<rparr>) = (io, w') \<and> ctx' = ctx\<lparr>nctx_io := io\<rparr>"
    using nd_bind_io_unfold [OF assms(1,2,7,8) reg] by metis
  then obtain io where io: "nd_ensure_poller_started cqa (nctx_io ctx) (w\<lparr>hw := h'\<rparr>) = (io, w')"
      "ctx' = ctx\<lparr>nctx_io := io\<rparr>" using assms(9) by auto
  have inv: "vw_inv outs [] held (w\<lparr>hw := h'\<rparr>)" using vw_inv_hw [OF assms(5), of "[]" h'] b(1) by simp
  note E = nd_ensure_poller_inv [OF inv assms(3) io(1)]
  have ok: "nd_qp_ok qp'" using q b(2) assms(6,9) by (simp add: nd_qp_ok_def)
  have fin: "finite (dom (live_ops w'))" using E(1) by (simp add: vw_inv_def)
  show ?thesis
    using E io(2) q b(2) assms(1,6,9) reg(1) nd_qp_initiate_inv [OF E(1) _ assms(4) ok]
      nd_initiate_handled [OF fin, of _ api]
    by (simp add: nd_bound_type_def nd_is_bound_def nd_ctx_ok_def nd_qp_initiate_eq)
qed

text \<open>
  When creating the native queue pair fails, binding a fresh queue pair to an io_context leaves it
  without a native queue pair but bound: it reports event mode, and every later bind, to an io_context or
  to a completion queue, is refused as already open and changes nothing.
\<close>

theorem nd_failed_bind_stays_bound:
  assumes "nd_ctx_ok ctx" and "nds_registered (nctx_dev ctx)" and "nd_create_qp_law outs create"
    and "ctxp \<noteq> nullptr"
    and "nd_bind_io create cqa ctxp svcp ctx nd_queue_pair_new (w :: 'h vworld) = (ec, ctx', qp, w')" and "is_error ec"
  shows "nvi_qp (nqp_impl qp) = nullptr \<and> nd_bound_type qp = mode_event \<and>
    (\<forall>create2 ctxp2 svcp2 ctx2 w2.
       nd_bind_io create2 cqa ctxp2 svcp2 ctx2 qp w2 = (already_open, ctx2, qp, w2)) \<and>
    (\<forall>create2 cqp cq (h2 :: 'h). nd_bind_cq create2 cqp cq qp h2 = (already_open, qp, h2))"
proof -
  have "nvi_qp (nqp_impl nd_queue_pair_new) = nullptr" "\<not> nd_is_bound (nqp_impl nd_queue_pair_new)"
    by (simp_all add: nd_queue_pair_new_def nd_verbs_impl_new_def nd_is_bound_def)
  then obtain n where "is_error ec \<longleftrightarrow> n = nullptr"
    and "qp = nd_queue_pair_new\<lparr>nqp_io_ctx := ctxp, nqp_verbs_svc := svcp,
      nqp_impl := \<lparr>nvi_qp = n, nvi_cq = nio_cq (nctx_io ctx), nvi_device = nds_device (nctx_dev ctx),
        nvi_config = nds_effective_config (nctx_dev ctx), nvi_poll_cq = nullptr\<rparr>\<rparr>"
    using nd_bind_io_unfold [OF assms(1,3) _ assms(5,2)] by metis
  then show ?thesis
    using assms(1,2,4,6) by (simp add: nd_bound_type_def nd_is_bound_def nd_ctx_ok_def nd_bind_io_def nd_bind_cq_def)
qed

subsection \<open>Concrete runs\<close>

definition nd_example_ctx :: nd_io_ctx where
  "nd_example_ctx =
     \<lparr>nctx_dev = nd_register_device (Some nd_example_adapter)
        (nd_derive_effective_config default_config (na_info nd_example_adapter)) nd_device_service_new,
      nctx_io = nd_io_service_new\<lparr>nio_cq := 3, nio_handle := 4, nio_wc_size := 16\<rparr>\<rparr>"

lemma nd_example_ctx_ok: "nd_ctx_ok nd_example_ctx" by code_simp

lemma nd_fifo_create_law: "nd_create_qp_law nd_fifo_outs (\<lambda>h pd attr. nd_fifo_alloc h)"
  by (auto simp: nd_create_qp_law_def nd_fifo_alloc_def nd_fifo_outs_def is_closable_handle_def split: if_splits)

theorem nd_bind_io_usable_witness:
  "\<exists>ec ctx' qp' w'. nd_bind_io (\<lambda>h pd attr. nd_fifo_alloc h) nd_fifo_cq_api 5 6 nd_example_ctx
      nd_queue_pair_new nd_example_world = (ec, ctx', qp', w') \<and> nd_bound_type qp' = mode_event \<and>
     nio_phase (nctx_io ctx') \<noteq> NPoller_idle \<and> vw_inv nd_fifo_outs [] [] w' \<and>
     handled (nd_qp_initiate nd_fifo_post_api post_send qp' (Buffer_sequence []) no_remote 3 12288 w') =
       add_mset 3 (handled nd_example_world)"
proof -
  let ?run = "nd_bind_io (\<lambda>h pd attr. nd_fifo_alloc h) nd_fifo_cq_api 5 6 nd_example_ctx
      nd_queue_pair_new nd_example_world"
  obtain ec ctx' qp' w' where r: "?run = (ec, ctx', qp', w')" by (metis prod_cases4)
  have "\<not> is_error (fst ?run) \<and> live_ops (snd (snd (snd ?run))) 12288 = None" by code_simp
  then have ok: "\<not> is_error ec" "fresh_op 12288 w'" using r by (auto simp: fresh_op_def)
  have new: "nvi_qp (nqp_impl nd_queue_pair_new) = nullptr" "\<not> nio_started (nctx_io nd_example_ctx)"
    by code_simp+
  show ?thesis
    using nd_bind_io_usable [OF nd_example_ctx_ok nd_fifo_create_law nd_fifo_laws nd_example_world_inv _ new(1) r ok(1)]
      ok(2) new(2) r by (simp del: nd_qp_initiate.simps)
qed

theorem nd_failed_bind_stays_bound_witness:
  "\<exists>ec ctx' qp w'. nd_bind_io (\<lambda>h pd attr. (- 1, nullptr, h)) nd_fifo_cq_api 5 6 nd_example_ctx
      nd_queue_pair_new nd_example_world = (ec, ctx', qp, w') \<and> is_error ec \<and> nd_bound_type qp = mode_event \<and>
     nd_bind_cq (\<lambda>h pd attr. nd_fifo_alloc h) 7 nd_example_cq qp (hw w') = (already_open, qp, hw w')"
proof -
  let ?run = "nd_bind_io (\<lambda>h pd attr. (- 1, nullptr, h)) nd_fifo_cq_api 5 6 nd_example_ctx
      nd_queue_pair_new nd_example_world"
  obtain ec ctx' qp w' where r: "?run = (ec, ctx', qp, w')" by (metis prod_cases4)
  have "is_error (fst ?run)" by code_simp
  then have e: "is_error ec" using r by simp
  have reg: "nds_registered (nctx_dev nd_example_ctx)" by code_simp
  have law: "nd_create_qp_law nd_fifo_outs (\<lambda>h pd attr. (- 1, nullptr, h))"
    by (simp add: nd_create_qp_law_def)
  show ?thesis
    using nd_failed_bind_stays_bound [OF nd_example_ctx_ok reg law _ r e] e r by simp
qed

end
