(* ===== verification/ND_Public.thy ===== *)
theory ND_Public
  imports ND_Listener ND_Queue_Pair
begin

text \<open>
  The public connector, listener and queue pair of NetworkDirect: \<open>nd/nd_connector.hpp\<close>, the calls of
  \<open>nd/nd_listener.hpp\<close> and the throwing overloads of \<open>nd/nd_queue_pair.hpp\<close>.

  A move accept binds a queue pair of its own, which creates the native queue pair at once; the
  operation's handler owns it until the accept completes (\<open>nd_move_accept_handler\<close>). The lemmas follow the
  native queue pair: it is given to the user with a successful accept and released with a failed one. The
  provider's state is shared by the connector and the data plane, so it is handed from one to the other.
\<close>

subsection \<open>Throwing overloads and the opening constructor\<close>

definition nd_connector_ctor ::
  "'n nd_api \<Rightarrow> nd_device_service \<Rightarrow> 'n nd_world \<Rightarrow> (error_code + unit) \<times> 'n nd_world" where
  "nd_connector_ctor api ds w =
     (case nd_do_open api ds (w\<lparr>nw_impl := nd_construct\<rparr>) of (ec, w1) \<Rightarrow>
        (throw_error ec, if is_error ec then nd_destroy api w1 else w1))"

definition nd_connector_open ::
  "'n nd_api \<Rightarrow> nd_device_service \<Rightarrow> 'n nd_world \<Rightarrow> (error_code + unit) \<times> 'n nd_world" where
  "nd_connector_open api ds w = (case nd_do_open api ds w of (ec, w') \<Rightarrow> (throw_error ec, w'))"

definition nd_connector_assign ::
  "'n nd_api \<Rightarrow> nd_handle \<Rightarrow> nd_connector_impl \<Rightarrow> (error_code + unit) \<times> nd_handle \<times> nd_connector_impl" where
  "nd_connector_assign api handle impl =
     (case nd_assign api handle impl of (ec, handle', impl') \<Rightarrow> (throw_error ec, handle', impl'))"

definition nd_connector_disconnect :: "'n nd_api \<Rightarrow> 'n nd_world \<Rightarrow> (error_code + unit) \<times> 'n nd_world" where
  "nd_connector_disconnect api w = (case nd_disconnect api w of (ec, w') \<Rightarrow> (throw_error ec, w'))"

definition nd_listener_open_throwing ::
  "'n nd_api \<Rightarrow> nd_device_service \<Rightarrow> port_space \<Rightarrow> 'n nl_world \<Rightarrow> (error_code + unit) \<times> 'n nl_world" where
  "nd_listener_open_throwing api ds ps w =
     (case nd_listener_open api ds ps w of (ec, w') \<Rightarrow> (throw_error ec, w'))"

definition nd_listener_bind_throwing ::
  "'n nd_api \<Rightarrow> nat \<Rightarrow> 'n nl_world \<Rightarrow> (error_code + unit) \<times> 'n nl_world" where
  "nd_listener_bind_throwing api port w =
     (case nd_listener_bind api port w of (ec, w') \<Rightarrow> (throw_error ec, w'))"

definition nd_listener_listen_throwing ::
  "'n nd_api \<Rightarrow> i32 option \<Rightarrow> 'n nl_world \<Rightarrow> (error_code + unit) \<times> 'n nl_world" where
  "nd_listener_listen_throwing api bl w =
     (case nd_listener_listen api (case bl of None \<Rightarrow> 128 | Some n \<Rightarrow> n) w of
        (ec, w') \<Rightarrow> (throw_error ec, w'))"

text \<open>Binding and the binding constructors of a queue pair; an exception in a constructor drops the queue pair.\<close>

definition nd_queue_pair_drop :: "'h nd_api \<Rightarrow> nd_queue_pair \<Rightarrow> 'h \<Rightarrow> 'h" where
  "nd_queue_pair_drop api qp h =
     (if nvi_qp (nqp_impl qp) \<noteq> nullptr then nda_release api h (nvi_qp (nqp_impl qp)) else h)"

definition nd_queue_pair_bind_io ::
  "'h nd_create_qp_fn \<Rightarrow> 'h nd_cq_api \<Rightarrow> ptr \<Rightarrow> ptr \<Rightarrow> nd_io_ctx \<Rightarrow> nd_queue_pair \<Rightarrow> 'h vworld
   \<Rightarrow> (error_code + unit) \<times> nd_io_ctx \<times> nd_queue_pair \<times> 'h vworld" where
  "nd_queue_pair_bind_io create cqa ctxp svcp ctx qp w =
     (case nd_bind_io create cqa ctxp svcp ctx qp w of (ec, ctx', qp', w') \<Rightarrow> (throw_error ec, ctx', qp', w'))"

definition nd_queue_pair_bind_cq ::
  "'h nd_create_qp_fn \<Rightarrow> ptr \<Rightarrow> nd_completion_queue \<Rightarrow> nd_queue_pair \<Rightarrow> 'h
   \<Rightarrow> (error_code + unit) \<times> nd_queue_pair \<times> 'h" where
  "nd_queue_pair_bind_cq create cqp cq qp h =
     (case nd_bind_cq create cqp cq qp h of (ec, qp', h') \<Rightarrow> (throw_error ec, qp', h'))"

definition nd_queue_pair_ctor_io ::
  "'h nd_api \<Rightarrow> 'h nd_create_qp_fn \<Rightarrow> 'h nd_cq_api \<Rightarrow> ptr \<Rightarrow> ptr \<Rightarrow> nd_io_ctx \<Rightarrow> 'h vworld
   \<Rightarrow> (error_code + nd_queue_pair) \<times> nd_io_ctx \<times> 'h vworld" where
  "nd_queue_pair_ctor_io api create cqa ctxp svcp ctx w =
     (case nd_bind_io create cqa ctxp svcp ctx nd_queue_pair_new w of (ec, ctx', qp, w') \<Rightarrow>
        if is_error ec then (Inl ec, ctx', w'\<lparr>hw := nd_queue_pair_drop api qp (hw w')\<rparr>)
        else (Inr qp, ctx', w'))"

definition nd_queue_pair_ctor_cq ::
  "'h nd_api \<Rightarrow> 'h nd_create_qp_fn \<Rightarrow> ptr \<Rightarrow> nd_completion_queue \<Rightarrow> 'h \<Rightarrow> (error_code + nd_queue_pair) \<times> 'h" where
  "nd_queue_pair_ctor_cq api create cqp cq h =
     (case nd_bind_cq create cqp cq nd_queue_pair_new h of (ec, qp, h') \<Rightarrow>
        if is_error ec then (Inl ec, nd_queue_pair_drop api qp h') else (Inr qp, h'))"

subsection \<open>Connecting\<close>

definition nd_connector_connect ::
  "'n nd_api \<Rightarrow> nd_device_service \<Rightarrow> nd_queue_pair \<Rightarrow> nd_endpoint \<Rightarrow> u8 list \<Rightarrow> nat \<Rightarrow> nat \<Rightarrow> 'n nd_world
   \<Rightarrow> 'n nd_world" where
  "nd_connector_connect api ds qp ep request reply_cap h w =
     nd_async_connect api ds (nvi_qp (nqp_impl qp)) ep request True reply_cap h w"

definition nd_connector_connect_no_reply ::
  "'n nd_api \<Rightarrow> nd_device_service \<Rightarrow> nd_queue_pair \<Rightarrow> nd_endpoint \<Rightarrow> u8 list \<Rightarrow> nat \<Rightarrow> 'n nd_world \<Rightarrow> 'n nd_world"
  where
  "nd_connector_connect_no_reply api ds qp ep request h w =
     nd_async_connect api ds (nvi_qp (nqp_impl qp)) ep request False 0 h w"

text \<open>\<open>nd_connect_drop_reply_adapter\<close>: the handler gets the code only.\<close>

definition nd_connect_no_reply_upcall :: "nd_upcall \<Rightarrow> nat \<times> error_code" where
  "nd_connect_no_reply_upcall u = (nu_handler u, nu_ec u)"

subsection \<open>Accepting\<close>

definition nd_connector_accept ::
  "'n nd_api \<Rightarrow> nd_device_service \<Rightarrow> nd_queue_pair \<Rightarrow> u8 list \<Rightarrow> nat \<Rightarrow> 'n nd_world \<Rightarrow> 'n nd_world" where
  "nd_connector_accept api ds qp pd h w = nd_async_accept api ds (nvi_qp (nqp_impl qp)) pd h w"

text \<open>The accept of a queue pair bound for it: the queue pair is moved into the operation's handler.\<close>

definition nd_move_accept ::
  "'n nd_api \<Rightarrow> nd_device_service \<Rightarrow> error_code \<Rightarrow> nd_queue_pair \<Rightarrow> u8 list \<Rightarrow> nat \<Rightarrow> 'n nd_world
   \<Rightarrow> 'n nd_world \<times> nd_queue_pair" where
  "nd_move_accept api ds bind_ec qp pd h w =
     (let held = fst (nd_queue_pair_move qp)
      in (nd_async_move_accept api ds bind_ec (nvi_qp (nqp_impl held)) pd h w, held))"

definition nd_connector_accept_io ::
  "'n nd_api \<Rightarrow> 'n nd_create_qp_fn \<Rightarrow> 'n nd_cq_api \<Rightarrow> ptr \<Rightarrow> ptr \<Rightarrow> nd_io_ctx \<Rightarrow> nd_device_service \<Rightarrow> u8 list
   \<Rightarrow> nat \<Rightarrow> 'n vworld \<Rightarrow> 'n nd_world \<Rightarrow> 'n nd_world \<times> nd_queue_pair \<times> nd_io_ctx \<times> 'n vworld" where
  "nd_connector_accept_io api create cqa ctxp svcp ctx ds pd h v w =
     (case nd_bind_io create cqa ctxp svcp ctx nd_queue_pair_new (v\<lparr>hw := nw_nd w\<rparr>) of
        (bind_ec, ctx', qp, v1) \<Rightarrow>
          case nd_move_accept api ds bind_ec qp pd h (w\<lparr>nw_nd := hw v1\<rparr>) of
            (w', held) \<Rightarrow> (w', held, ctx', v1\<lparr>hw := nw_nd w'\<rparr>))"

definition nd_connector_accept_cq ::
  "'n nd_api \<Rightarrow> 'n nd_create_qp_fn \<Rightarrow> ptr \<Rightarrow> nd_completion_queue \<Rightarrow> nd_device_service \<Rightarrow> u8 list \<Rightarrow> nat
   \<Rightarrow> 'n nd_world \<Rightarrow> 'n nd_world \<times> nd_queue_pair" where
  "nd_connector_accept_cq api create cqp cq ds pd h w =
     (case nd_bind_cq create cqp cq nd_queue_pair_new (nw_nd w) of (bind_ec, qp, n) \<Rightarrow>
        nd_move_accept api ds bind_ec qp pd h (w\<lparr>nw_nd := n\<rparr>))"

text \<open>
  \<open>move_accept_handler::operator()\<close>: a failed accept assigns an empty queue pair, which drops the native
  one; then the queue pair is moved to the user's handler.
\<close>

definition nd_move_accept_handler ::
  "'n nd_api \<Rightarrow> error_code \<Rightarrow> nd_queue_pair \<Rightarrow> 'n \<Rightarrow> nd_queue_pair \<times> 'n" where
  "nd_move_accept_handler api ec qp n =
     (case (if is_error ec
            then (case nd_queue_pair_assign api qp nd_queue_pair_new n of (target, other, n') \<Rightarrow> (target, n'))
            else (qp, n)) of
        (target, n') \<Rightarrow> (fst (nd_queue_pair_move target), n'))"

subsection \<open>The queue pair of a move accept\<close>

text \<open>
  Documented behaviour: \<open>CreateQueuePair\<close> returns a new queue pair or none, releasing the last reference
  removes it, notifications and accepts create and remove none. \<open>qps\<close> are the native queue pairs alive.
\<close>

definition nd_queue_pair_law ::
  "('n \<Rightarrow> ptr set) \<Rightarrow> 'n nd_create_qp_fn \<Rightarrow> 'n nd_cq_api \<Rightarrow> 'n nd_api \<Rightarrow> bool" where
  "nd_queue_pair_law qps create cqa api \<longleftrightarrow>
     (\<forall>n pd attr hr q n'. create n pd attr = (hr, q, n') \<longrightarrow>
        (if hr = ND_SUCCESS then q \<noteq> nullptr \<and> q \<notin> qps n \<and> qps n' = insert q (qps n)
         else q = nullptr \<and> qps n' = qps n)) \<and>
     (\<forall>n cq. qps (snd (ncq_notify cqa n cq)) = qps n) \<and>
     (\<forall>n c q i z pd len. qps (snd (nda_accept api n c q i z pd len)) = qps n) \<and>
     (\<forall>n q. qps (nda_release api n q) = qps n - {q})"

lemmas nd_queue_pair_lawD =
  nd_queue_pair_law_def [THEN iffD1, THEN conjunct1, rule_format]
  nd_queue_pair_law_def [THEN iffD1, THEN conjunct2, THEN conjunct1, rule_format]
  nd_queue_pair_law_def [THEN iffD1, THEN conjunct2, THEN conjunct2, THEN conjunct1, rule_format]
  nd_queue_pair_law_def [THEN iffD1, THEN conjunct2, THEN conjunct2, THEN conjunct2, rule_format]

abbreviation native_qp :: "nd_queue_pair \<Rightarrow> ptr" where
  "native_qp qp \<equiv> nvi_qp (nqp_impl qp)"

text \<open>From \<open>n\<close> to \<open>n'\<close> the queue pair's native one came into being, if it has one.\<close>

definition qp_born :: "('n \<Rightarrow> ptr set) \<Rightarrow> 'n \<Rightarrow> 'n \<Rightarrow> nd_queue_pair \<Rightarrow> bool" where
  "qp_born qps n n' qp \<longleftrightarrow>
     (if native_qp qp = nullptr then qps n' = qps n
      else native_qp qp \<notin> qps n \<and> qps n' = insert (native_qp qp) (qps n))"

lemma nd_create_qp_born:
  assumes "nd_queue_pair_law qps create cqa api" and "nvi_qp impl = nullptr"
    and "nd_create_qp create impl n = (ec, impl', n')"
  shows "qp_born qps n n' (qp\<lparr>nqp_impl := impl'\<rparr>) \<and> (is_error ec \<longleftrightarrow> nvi_qp impl' = nullptr) \<and>
    impl' = impl\<lparr>nvi_qp := nvi_qp impl'\<rparr>"
proof (cases "nvi_device impl")
  case None
  then show ?thesis using assms(2,3) by (auto simp: nd_create_qp_def qp_born_def)
next
  case (Some d)
  obtain hr q n1 where r: "create n (na_pd d) (nd_qp_attr_of impl) = (hr, q, n1)" by (metis prod_cases3)
  have L: "if hr = ND_SUCCESS then q \<noteq> nullptr \<and> q \<notin> qps n \<and> qps n1 = insert q (qps n)
      else q = nullptr \<and> qps n1 = qps n"
    by (rule nd_queue_pair_lawD(1) [OF assms(1) r])
  have run: "(ec, impl', n') = (if na_pd d = nullptr \<or> nvi_cq impl = nullptr
      then (make_error_code invalid_device, impl, n) else (make_nd_error_code hr, impl\<lparr>nvi_qp := q\<rparr>, n1))"
    unfolding assms(3) [symmetric] by (simp add: nd_create_qp_def Some r assms(2))
  show ?thesis
  proof (cases "na_pd d = nullptr \<or> nvi_cq impl = nullptr")
    case True
    then have "ec = make_error_code invalid_device" "impl' = impl" "n' = n" using run by simp_all
    then show ?thesis using assms(2) by (simp add: qp_born_def)
  next
    case False
    then have e: "ec = make_nd_error_code hr" "impl' = impl\<lparr>nvi_qp := q\<rparr>" "n' = n1" using run by simp_all
    show ?thesis
      unfolding e using L by (cases "hr = ND_SUCCESS") (simp_all add: qp_born_def is_error_def make_nd_error_code_def)
  qed
qed

lemma nd_ensure_poller_qps:
  assumes "nd_queue_pair_law qps create cqa api" and "nd_ensure_poller_started cqa s w = (s', w')"
  shows "qps (hw w') = qps (hw w)"
proof -
  obtain hr n where n: "ncq_notify cqa (hw w) (nio_cq s) = (hr, n)" by fastforce
  have "qps n = qps (hw w)" using nd_queue_pair_lawD(2) [OF assms(1), of "hw w" "nio_cq s"] n by simp
  then have "qps (hw (snd (nd_ensure_poller_started cqa s w))) = qps (hw w)"
    by (simp add: nd_ensure_poller_started_def nd_arm_poller_def nd_notify_cq_def nd_overlapped_def n)
  then show ?thesis unfolding assms(2) by simp
qed

lemma nd_new_unbound [simp]: "native_qp nd_queue_pair_new = nullptr" "\<not> nd_is_bound (nqp_impl nd_queue_pair_new)"
  by (simp_all add: nd_queue_pair_new_def nd_verbs_impl_new_def nd_is_bound_def)

lemma nd_bind_io_born:
  assumes law: "nd_queue_pair_law qps create cqa api" and ok: "nd_ctx_ok ctx" "ctxp \<noteq> nullptr"
    and r: "nd_bind_io create cqa ctxp svcp ctx nd_queue_pair_new w = (ec, ctx', qp, w')"
  shows "qp_born qps (hw w) (hw w') qp \<and>
    (\<not> is_error ec \<longrightarrow> native_qp qp \<noteq> nullptr \<and> nd_bound_type qp = mode_event)"
proof (cases "nds_registered (nctx_dev ctx)")
  case False
  then show ?thesis using r by (auto simp: nd_bind_io_def qp_born_def)
next
  case True
  let ?impl = "(nqp_impl nd_queue_pair_new)\<lparr>nvi_device := nds_device (nctx_dev ctx),
    nvi_cq := nio_cq (nctx_io ctx), nvi_config := nds_effective_config (nctx_dev ctx), nvi_poll_cq := nullptr\<rparr>"
  obtain e impl' n where c: "nd_create_qp create ?impl (hw w) = (e, impl', n)" by (metis prod_cases3)
  let ?qp = "nd_queue_pair_new\<lparr>nqp_io_ctx := ctxp, nqp_impl := impl', nqp_verbs_svc := svcp\<rparr>"
  have C: "qp_born qps (hw w) n (qp0\<lparr>nqp_impl := impl'\<rparr>)" "is_error e \<longleftrightarrow> nvi_qp impl' = nullptr"
    "impl' = ?impl\<lparr>nvi_qp := nvi_qp impl'\<rparr>" for qp0
  proof -
    have z: "nvi_qp ?impl = nullptr" by simp
    note B = nd_create_qp_born [OF law z c]
    show "qp_born qps (hw w) n (qp0\<lparr>nqp_impl := impl'\<rparr>)" by (rule B [THEN conjunct1])
    show "is_error e \<longleftrightarrow> nvi_qp impl' = nullptr" by (rule B [THEN conjunct2, THEN conjunct1])
    show "impl' = ?impl\<lparr>nvi_qp := nvi_qp impl'\<rparr>" by (rule B [THEN conjunct2, THEN conjunct2])
  qed
  have b: "nvi_cq impl' = nio_cq (nctx_io ctx)" using arg_cong [OF C(3), of nvi_cq] by simp
  obtain io w2 where p: "nd_ensure_poller_started cqa (nctx_io ctx) (w\<lparr>hw := n\<rparr>) = (io, w2)" by fastforce
  have "nd_bind_io create cqa ctxp svcp ctx nd_queue_pair_new w =
      (if is_error e then (e, ctx, ?qp, w\<lparr>hw := n\<rparr>) else (e, ctx\<lparr>nctx_io := io\<rparr>, ?qp, w2))"
    using True c p unfolding nd_bind_io_def by (simp only: nd_new_unbound Let_def if_False if_True not_True_eq_False not_False_eq_True prod.case)
  then have run: "ec = e" "qp = ?qp" "hw w' = n \<or> hw w' = hw w2"
    using r by (simp_all split: if_splits)
  have "qps (hw w2) = qps n" using nd_ensure_poller_qps [OF law p] by simp
  with run(3) have "qps (hw w') = qps n" by (elim disjE) (simp_all only:)
  then have "qp_born qps (hw w) (hw w') ?qp" using C(1) [of ?qp] by (simp add: qp_born_def split: if_splits)
  moreover have "nd_bound_type ?qp = mode_event"
    using b ok True by (simp add: nd_bound_type_def nd_is_bound_def nd_ctx_ok_def)
  ultimately show ?thesis using run(1,2) C(2) by simp
qed

text \<open>
  What a move accept has done when it returns: its operation is with the kernel, or posted; without an
  error only with a native queue pair bound in mode \<open>mode\<close>.
\<close>

definition nd_move_accept_outcome ::
  "('n \<Rightarrow> ptr set) \<Rightarrow> nat \<Rightarrow> completion_mode \<Rightarrow> 'n nd_world \<Rightarrow> 'n nd_world \<Rightarrow> nd_queue_pair \<Rightarrow> bool" where
  "nd_move_accept_outcome qps h mode w w' held \<longleftrightarrow>
     qp_born qps (nw_nd w) (nw_nd w') held \<and>
     (let usable = (native_qp held \<noteq> nullptr \<and> nd_bound_type held = mode) in
      nw_pending w' = nw_pending w @ [(NOp_accept True h, False)] \<and> nw_posted w' = nw_posted w \<and>
        nd_state w' = ns_connecting \<and> usable \<or>
      (\<exists>started ec. nw_pending w' = nw_pending w \<and> nw_posted w' = nw_posted w @ [(NOp_accept started h, ec)] \<and>
        (is_error ec \<or> usable)))"

lemma nd_move_same [simp]: "fst (nd_queue_pair_move qp) = qp"
  by (simp add: nd_queue_pair_move_def)

lemma nd_move_accept_issued:
  assumes law: "nd_queue_pair_law qps create cqa api"
    and "qp_born qps (nw_nd w) n qp" and "\<not> is_error bind_ec \<longrightarrow> native_qp qp \<noteq> nullptr \<and> nd_bound_type qp = mode"
    and "nd_move_accept api ds bind_ec qp pd h (w\<lparr>nw_nd := n\<rparr>) = (w', held)"
  shows "held = qp \<and> nd_move_accept_outcome qps h mode w w' qp"
proof -
  have h: "held = qp" using assms(4) by (simp add: nd_move_accept_def)
  have w': "w' = nd_async_move_accept api ds bind_ec (native_qp qp) pd h (w\<lparr>nw_nd := n\<rparr>)"
    using assms(4) by (auto simp: nd_move_accept_def)
  have keep: "qps (snd (snd (nd_accept api c q i z p len n))) = qps n" for c q i z p len
    using nd_queue_pair_lawD(3) [OF law] by (simp add: nd_accept_def nd_overlapped_def case_prod_beta)
  have guard: "nd_accept_guard ds impl q pd = Some ec \<Longrightarrow> is_error ec" for impl q ec
    by (auto simp: nd_accept_guard_def make_error_code_def is_error_def split: if_splits)
  have "nd_move_accept_outcome qps h mode w w' qp"
  proof (cases "is_error bind_ec \<or> nd_accept_guard ds (nw_impl w) (native_qp qp) pd \<noteq> None")
    case True
    then show ?thesis
      using guard assms(2)
      by (auto simp: w' nd_async_move_accept_def on_completion_def nd_move_accept_outcome_def Let_def)
  next
    case False
    then have u: "native_qp qp \<noteq> nullptr \<and> nd_bound_type qp = mode" using assms(3) by blast
    have idle: "nd_state w = ns_idle" using False by (auto simp: nd_accept_guard_def split: if_splits)
    show ?thesis
      using False assms(2) u keep idle
      by (auto simp: w' nd_async_move_accept_def nd_start_accept_op_def on_completion_def on_pending_def
          nd_move_accept_outcome_def qp_born_def case_prod_beta Let_def)
  qed
  with h show ?thesis by simp
qed

text \<open>
  C16. On NetworkDirect, \<open>async_accept\<close> on a context makes a queue pair of its own. The native queue pair it
  creates (if it creates one) belongs to the operation; the accept can only succeed with a queue pair bound
  in event mode. When the operation completes, a failed accept hands the user an empty queue pair and
  releases exactly that native queue pair, a successful one hands over the queue pair and releases nothing.
\<close>

theorem nd_accept_io_ownership:
  assumes "nd_queue_pair_law qps create cqa api" and "nd_ctx_ok ctx" and "ctxp \<noteq> nullptr"
    and r: "nd_connector_accept_io api create cqa ctxp svcp ctx ds pd h v w = (w', held, ctx', v')"
  shows "nd_move_accept_outcome qps h mode_event w w' held \<and> hw v' = nw_nd w' \<and>
    (\<forall>ec n. case nd_move_accept_handler api ec held n of (user, n') \<Rightarrow>
       if is_error ec
       then user = nd_queue_pair_new \<and>
         qps n' = (if native_qp held = nullptr then qps n else qps n - {native_qp held})
       else user = held \<and> n' = n)"
proof -
  obtain bind_ec ctx1 qp v1 where
    b: "nd_bind_io create cqa ctxp svcp ctx nd_queue_pair_new (v\<lparr>hw := nw_nd w\<rparr>) = (bind_ec, ctx1, qp, v1)"
    by (metis prod_cases4)
  have a: "nd_move_accept api ds bind_ec qp pd h (w\<lparr>nw_nd := hw v1\<rparr>) = (w', held)" "hw v' = nw_nd w'"
    using r b by (auto simp: nd_connector_accept_io_def split: prod.splits)
  have B: "qp_born qps (nw_nd w) (hw v1) qp"
    "\<not> is_error bind_ec \<longrightarrow> native_qp qp \<noteq> nullptr \<and> nd_bound_type qp = mode_event"
    using nd_bind_io_born [OF assms(1-3) b] by simp_all
  show ?thesis
    using nd_move_accept_issued [OF assms(1) B a(1)] a(2) nd_queue_pair_lawD(4) [OF assms(1)]
    by (auto simp: nd_move_accept_handler_def nd_queue_pair_assign_def nd_queue_pair_move_def
        nd_queue_pair_new_def)
qed

text \<open>The binding constructor creates a native queue pair or throws and leaves none.\<close>

theorem nd_queue_pair_ctor_all_or_nothing:
  assumes "nd_queue_pair_law qps create cqa api" and "nd_ctx_ok ctx" and "ctxp \<noteq> nullptr"
    and "nd_queue_pair_ctor_io api create cqa ctxp svcp ctx w = (res, ctx', w')"
  shows "case res of
      Inl ec \<Rightarrow> is_error ec \<and> qps (hw w') = qps (hw w)
    | Inr qp \<Rightarrow> qp_born qps (hw w) (hw w') qp \<and> native_qp qp \<noteq> nullptr \<and> nd_bound_type qp = mode_event"
proof -
  obtain ec ctx1 qp w1 where
    b: "nd_bind_io create cqa ctxp svcp ctx nd_queue_pair_new w = (ec, ctx1, qp, w1)" by (metis prod_cases4)
  note B = nd_bind_io_born [OF assms(1-3) b]
  show ?thesis
    using assms(4) b B nd_queue_pair_lawD(4) [OF assms(1)]
    by (cases "is_error ec") (auto simp: nd_queue_pair_ctor_io_def nd_queue_pair_drop_def qp_born_def split: if_splits)
qed

subsection \<open>Concrete runs\<close>

lemma nd_fifo_queue_pair_law:
  "nd_queue_pair_law nd_fifo_live (\<lambda>h pd attr. nd_fifo_alloc h) nd_fifo_cq_api nd_fifo_api"
  by (auto simp: nd_queue_pair_law_def nd_fifo_alloc_def nd_fifo_live_def nd_fifo_cq_api_def nd_fifo_api_def
      is_closable_handle_def split: if_splits)

definition nd_public_opened :: "nd_fifo nd_world" where
  "nd_public_opened = snd (nd_do_open nd_fifo_api nd_example_service
     \<lparr>nw_nd = hw nd_example_world, nw_impl = nd_construct, nw_pending = [], nw_posted = [], nw_upcalls = [],
      nw_fault = False\<rparr>)"

text \<open>The accept is pending with queue pair 18; cancelled, it releases that and nothing else.\<close>

theorem nd_accept_io_ownership_witness:
  "\<exists>w' held ctx' v'. nd_connector_accept_io nd_fifo_api (\<lambda>h pd attr. nd_fifo_alloc h) nd_fifo_cq_api 5 6
      nd_example_ctx nd_example_service [1] 7 nd_example_world nd_public_opened = (w', held, ctx', v') \<and>
    nd_move_accept_outcome nd_fifo_live 7 mode_event nd_public_opened w' held \<and>
    native_qp held = 18 \<and> nw_pending w' = [(NOp_accept True 7, False)] \<and>
    nd_fifo_live (snd (nd_move_accept_handler nd_fifo_api nd_operation_aborted held (nw_nd w'))) =
      nd_fifo_live (nw_nd w') - {18} \<and>
    fst (nd_move_accept_handler nd_fifo_api no_error held (nw_nd w')) = held"
proof -
  let ?run = "nd_connector_accept_io nd_fifo_api (\<lambda>h pd attr. nd_fifo_alloc h) nd_fifo_cq_api 5 6
      nd_example_ctx nd_example_service [1] 7 nd_example_world nd_public_opened"
  obtain w' held ctx' v' where r: "?run = (w', held, ctx', v')" by (metis prod_cases4)
  have "native_qp (fst (snd ?run)) = 18 \<and> nw_pending (fst ?run) = [(NOp_accept True 7, False)]" by code_simp
  then have c: "native_qp held = 18" "nw_pending w' = [(NOp_accept True 7, False)]" using r by simp_all
  have e: "is_error nd_operation_aborted" "\<not> is_error no_error" by code_simp+
  note T = nd_accept_io_ownership [OF nd_fifo_queue_pair_law nd_example_ctx_ok _ r]
  have H: "case nd_move_accept_handler nd_fifo_api ec held n of (user, n') \<Rightarrow>
       if is_error ec
       then user = nd_queue_pair_new \<and>
         nd_fifo_live n' = (if native_qp held = nullptr then nd_fifo_live n else nd_fifo_live n - {native_qp held})
       else user = held \<and> n' = n" for ec n using T by simp
  show ?thesis
    using T r c H [of nd_operation_aborted "nw_nd w'"] H [of no_error "nw_nd w'"] e
    by (simp add: case_prod_beta)
qed

theorem nd_queue_pair_ctor_all_or_nothing_witness:
  "\<exists>res ctx' w'. nd_queue_pair_ctor_io nd_fifo_api (\<lambda>h pd attr. (- 1, nullptr, h)) nd_fifo_cq_api 5 6
      nd_example_ctx nd_example_world = (res, ctx', w') \<and>
    nd_fifo_live (hw w') = nd_fifo_live (hw nd_example_world)"
proof -
  let ?run = "nd_queue_pair_ctor_io nd_fifo_api (\<lambda>h pd attr. (- 1, nullptr, h)) nd_fifo_cq_api 5 6
      nd_example_ctx nd_example_world"
  obtain res ctx' w' where r: "?run = (res, ctx', w')" by (metis prod_cases3)
  have law: "nd_queue_pair_law nd_fifo_live (\<lambda>h pd attr. (- 1, nullptr, h)) nd_fifo_cq_api nd_fifo_api"
    using nd_fifo_queue_pair_law by (simp add: nd_queue_pair_law_def)
  have "case fst ?run of Inl e \<Rightarrow> True | Inr q \<Rightarrow> False" by code_simp
  then obtain e where "res = Inl e" using r by (cases res) auto
  then show ?thesis
    using nd_queue_pair_ctor_all_or_nothing [OF law nd_example_ctx_ok _ r] r by simp
qed

end
