(* ===== verification/ND_Error.thy ===== *)
theory ND_Error
  imports ND_Provider
begin

text \<open>
  The error category of NetworkDirect (\<open>nd/nd_error.hpp\<close>, \<open>nd/impl/nd_error.ipp\<close>) and the start-up object
  \<open>nd_global_t\<close> (\<open>nd/detail/impl/nd_asio_manual_init.ipp\<close>).

  The values of the status codes come from a header of the NetworkDirect kit; they are the argument
  \<open>status_of\<close>. The sources use them as labels of one \<open>switch\<close>, so they are different
  (\<open>nd_status_law\<close>).
\<close>

subsection \<open>Error codes and their messages\<close>

datatype nd_errc =
    nd_success
  | nd_timeout
  | nd_buffer_overflow
  | nd_device_busy
  | nd_no_more_entries
  | nd_unsuccessful
  | nd_access_violation
  | nd_invalid_handle
  | nd_invalid_device_request
  | nd_invalid_parameter
  | nd_no_memory
  | nd_invalid_parameter_mix
  | nd_data_overrun
  | nd_sharing_violation
  | nd_insufficient_resources
  | nd_device_not_ready
  | nd_io_timeout
  | nd_not_supported
  | nd_internal_error
  | nd_invalid_parameter_1
  | nd_invalid_parameter_2
  | nd_invalid_parameter_3
  | nd_invalid_parameter_4
  | nd_invalid_parameter_5
  | nd_invalid_parameter_6
  | nd_invalid_parameter_7
  | nd_invalid_parameter_8
  | nd_invalid_parameter_9
  | nd_invalid_parameter_10
  | nd_canceled
  | nd_remote_error
  | nd_invalid_address
  | nd_invalid_device_state
  | nd_invalid_buffer_size
  | nd_too_many_addresses
  | nd_address_already_exists
  | nd_connection_refused
  | nd_connection_invalid
  | nd_connection_active
  | nd_network_unreachable
  | nd_host_unreachable
  | nd_connection_aborted
  | nd_device_removed

fun nd_errc_name :: "nd_errc \<Rightarrow> string" where
  "nd_errc_name nd_success = ''ND_SUCCESS''"
| "nd_errc_name nd_timeout = ''ND_TIMEOUT''"
| "nd_errc_name nd_buffer_overflow = ''ND_BUFFER_OVERFLOW''"
| "nd_errc_name nd_device_busy = ''ND_DEVICE_BUSY''"
| "nd_errc_name nd_no_more_entries = ''ND_NO_MORE_ENTRIES''"
| "nd_errc_name nd_unsuccessful = ''ND_UNSUCCESSFUL''"
| "nd_errc_name nd_access_violation = ''ND_ACCESS_VIOLATION''"
| "nd_errc_name nd_invalid_handle = ''ND_INVALID_HANDLE''"
| "nd_errc_name nd_invalid_device_request = ''ND_INVALID_DEVICE_REQUEST''"
| "nd_errc_name nd_invalid_parameter = ''ND_INVALID_PARAMETER''"
| "nd_errc_name nd_no_memory = ''ND_NO_MEMORY''"
| "nd_errc_name nd_invalid_parameter_mix = ''ND_INVALID_PARAMETER_MIX''"
| "nd_errc_name nd_data_overrun = ''ND_DATA_OVERRUN''"
| "nd_errc_name nd_sharing_violation = ''ND_SHARING_VIOLATION''"
| "nd_errc_name nd_insufficient_resources = ''ND_INSUFFICIENT_RESOURCES''"
| "nd_errc_name nd_device_not_ready = ''ND_DEVICE_NOT_READY''"
| "nd_errc_name nd_io_timeout = ''ND_IO_TIMEOUT''"
| "nd_errc_name nd_not_supported = ''ND_NOT_SUPPORTED''"
| "nd_errc_name nd_internal_error = ''ND_INTERNAL_ERROR''"
| "nd_errc_name nd_invalid_parameter_1 = ''ND_INVALID_PARAMETER_1''"
| "nd_errc_name nd_invalid_parameter_2 = ''ND_INVALID_PARAMETER_2''"
| "nd_errc_name nd_invalid_parameter_3 = ''ND_INVALID_PARAMETER_3''"
| "nd_errc_name nd_invalid_parameter_4 = ''ND_INVALID_PARAMETER_4''"
| "nd_errc_name nd_invalid_parameter_5 = ''ND_INVALID_PARAMETER_5''"
| "nd_errc_name nd_invalid_parameter_6 = ''ND_INVALID_PARAMETER_6''"
| "nd_errc_name nd_invalid_parameter_7 = ''ND_INVALID_PARAMETER_7''"
| "nd_errc_name nd_invalid_parameter_8 = ''ND_INVALID_PARAMETER_8''"
| "nd_errc_name nd_invalid_parameter_9 = ''ND_INVALID_PARAMETER_9''"
| "nd_errc_name nd_invalid_parameter_10 = ''ND_INVALID_PARAMETER_10''"
| "nd_errc_name nd_canceled = ''ND_CANCELED''"
| "nd_errc_name nd_remote_error = ''ND_REMOTE_ERROR''"
| "nd_errc_name nd_invalid_address = ''ND_INVALID_ADDRESS''"
| "nd_errc_name nd_invalid_device_state = ''ND_INVALID_DEVICE_STATE''"
| "nd_errc_name nd_invalid_buffer_size = ''ND_INVALID_BUFFER_SIZE''"
| "nd_errc_name nd_too_many_addresses = ''ND_TOO_MANY_ADDRESSES''"
| "nd_errc_name nd_address_already_exists = ''ND_ADDRESS_ALREADY_EXISTS''"
| "nd_errc_name nd_connection_refused = ''ND_CONNECTION_REFUSED''"
| "nd_errc_name nd_connection_invalid = ''ND_CONNECTION_INVALID''"
| "nd_errc_name nd_connection_active = ''ND_CONNECTION_ACTIVE''"
| "nd_errc_name nd_network_unreachable = ''ND_NETWORK_UNREACHABLE''"
| "nd_errc_name nd_host_unreachable = ''ND_HOST_UNREACHABLE''"
| "nd_errc_name nd_connection_aborted = ''ND_CONNECTION_ABORTED''"
| "nd_errc_name nd_device_removed = ''ND_DEVICE_REMOVED''"

definition nd_errcs :: "nd_errc list" where
  "nd_errcs =
     [nd_success, nd_timeout, nd_buffer_overflow, nd_device_busy,
      nd_no_more_entries, nd_unsuccessful, nd_access_violation, nd_invalid_handle,
      nd_invalid_device_request, nd_invalid_parameter, nd_no_memory, nd_invalid_parameter_mix,
      nd_data_overrun, nd_sharing_violation, nd_insufficient_resources, nd_device_not_ready,
      nd_io_timeout, nd_not_supported, nd_internal_error, nd_invalid_parameter_1,
      nd_invalid_parameter_2, nd_invalid_parameter_3, nd_invalid_parameter_4, nd_invalid_parameter_5,
      nd_invalid_parameter_6, nd_invalid_parameter_7, nd_invalid_parameter_8, nd_invalid_parameter_9,
      nd_invalid_parameter_10, nd_canceled, nd_remote_error, nd_invalid_address,
      nd_invalid_device_state, nd_invalid_buffer_size, nd_too_many_addresses, nd_address_already_exists,
      nd_connection_refused, nd_connection_invalid, nd_connection_active, nd_network_unreachable,
      nd_host_unreachable, nd_connection_aborted, nd_device_removed]"

text \<open>\<open>nd_error_category::name\<close> and \<open>message\<close>: the labels are tried in the order of the cases.\<close>

definition nd_category_name :: string where
  "nd_category_name = ''nd_error_code''"

definition nd_message :: "(nd_errc \<Rightarrow> int) \<Rightarrow> int \<Rightarrow> string" where
  "nd_message status_of status =
     (case find (\<lambda>e. status_of e = status) nd_errcs of
        None \<Rightarrow> ''UNKNOWN_ND_ERROR''
      | Some e \<Rightarrow> nd_errc_name e)"

text \<open>\<open>make_error_code(nd_errc)\<close>\<close>

definition make_nd_errc_code :: "(nd_errc \<Rightarrow> int) \<Rightarrow> nd_errc \<Rightarrow> error_code" where
  "make_nd_errc_code status_of e = make_nd_error_code (status_of e)"

definition nd_status_law :: "(nd_errc \<Rightarrow> int) \<Rightarrow> bool" where
  "nd_status_law status_of \<longleftrightarrow>
     inj status_of \<and> status_of nd_success = ND_SUCCESS \<and> status_of nd_canceled = ND_CANCELED"

lemma nd_errcs_complete: "e \<in> set nd_errcs"
  by (cases e) (simp_all add: nd_errcs_def)

lemma nd_message_of:
  assumes "inj status_of"
  shows "nd_message status_of (status_of e) = nd_errc_name e"
proof -
  have "\<exists>x\<in>set nd_errcs. status_of x = status_of e" using nd_errcs_complete by blast
  then obtain x where "find (\<lambda>x. status_of x = status_of e) nd_errcs = Some x"
    by (metis (mono_tags, lifting) find_None_iff option.exhaust)
  then have "find (\<lambda>x. status_of x = status_of e) nd_errcs = Some e"
    using assms by (auto simp: find_Some_iff dest: injD)
  then show ?thesis by (simp add: nd_message_def)
qed

text \<open>Reading a name back.\<close>

definition nd_errc_of_name :: "string \<Rightarrow> nd_errc option" where
  "nd_errc_of_name s = find (\<lambda>e. nd_errc_name e = s) nd_errcs"

lemma nd_errc_of_name: "nd_errc_of_name (nd_errc_name e) = Some e"
  by (cases e) (simp_all add: nd_errc_of_name_def nd_errcs_def)

lemma nd_errc_of_unknown: "nd_errc_of_name ''UNKNOWN_ND_ERROR'' = None"
  by (simp add: nd_errc_of_name_def nd_errcs_def)

text \<open>
  \<open>error_code::message()\<close> asks the category of the code. The messages of the standard library's categories are
  not under the sources: they are the argument \<open>std_message\<close>.
\<close>

definition error_code_message :: "(nd_errc \<Rightarrow> int) \<Rightarrow> (error_code \<Rightarrow> string) \<Rightarrow> error_code \<Rightarrow> string" where
  "error_code_message status_of std_message ec =
     (if ec_category ec = nd_category then nd_message status_of (ec_value ec) else std_message ec)"

text \<open>
  C25. The error code a completion status of the provider becomes, its value and its category, and the message
  the user reads from that code: no error exactly for success; the system's aborted code exactly for a cancelled
  request, whose message is the standard library's; and otherwise an error of the NetworkDirect category with
  the status as its value, whose message names the status, so that it can be read back, and is the one of
  an unknown error for a status that is no enumerator.
\<close>

theorem completion_status_readable:
  assumes "nd_status_law status_of" and "completion_status_to_error st = ec"
  shows "(is_error ec \<longleftrightarrow> st \<noteq> status_of nd_success) \<and> (ec = no_error \<longleftrightarrow> st = status_of nd_success) \<and>
    (ec = nd_operation_aborted \<longleftrightarrow> st = status_of nd_canceled) \<and>
    (st = status_of nd_canceled \<longrightarrow> error_code_message status_of std_message ec = std_message nd_operation_aborted) \<and>
    (st \<noteq> status_of nd_success \<and> st \<noteq> status_of nd_canceled \<longrightarrow>
       ec = EC st nd_category \<and>
       nd_errc_of_name (error_code_message status_of std_message ec) = find (\<lambda>e. status_of e = st) nd_errcs \<and>
       (find (\<lambda>e. status_of e = st) nd_errcs = None \<longrightarrow>
          error_code_message status_of std_message ec = ''UNKNOWN_ND_ERROR''))"
proof -
  have law: "inj status_of" "status_of nd_success = 0" "status_of nd_canceled = ND_CANCELED"
    using assms(1) by (simp_all add: nd_status_law_def)
  have msg: "nd_errc_of_name (nd_message status_of st) = find (\<lambda>e. status_of e = st) nd_errcs \<and>
    (find (\<lambda>e. status_of e = st) nd_errcs = None \<longrightarrow> nd_message status_of st = ''UNKNOWN_ND_ERROR'')"
  proof (cases "find (\<lambda>e. status_of e = st) nd_errcs")
    case None
    then show ?thesis using nd_errc_of_unknown by (simp add: nd_message_def)
  next
    case (Some e)
    then have "st = status_of e" by (auto simp: find_Some_iff)
    then show ?thesis using Some nd_message_of [OF law(1), of e] nd_errc_of_name [of e] by simp
  qed
  consider "st = 0" | "st = ND_CANCELED" | "st \<noteq> 0" "st \<noteq> ND_CANCELED" by blast
  then show ?thesis
  proof cases
    case 3
    then have "ec = EC st nd_category" using assms(2) by (auto simp: completion_status_to_error_def make_nd_error_code_def)
    then show ?thesis
      using 3 law msg by (simp add: error_code_message_def is_error_def no_error_def)
  qed (use assms(2) law in \<open>auto simp: completion_status_to_error_def error_code_message_def is_error_def no_error_def\<close>)
qed

text \<open>A numbering that satisfies the law: the two values the library relies on, the others by position.\<close>

definition nd_example_status :: "nd_errc \<Rightarrow> int" where
  "nd_example_status e =
     (if e = nd_success then ND_SUCCESS else if e = nd_canceled then ND_CANCELED
      else int (length (takeWhile (\<lambda>x. x \<noteq> e) nd_errcs)))"

lemma nd_example_status_law: "nd_status_law nd_example_status"
proof -
  have "distinct (map nd_example_status nd_errcs)" by code_simp
  then have "inj_on nd_example_status (set nd_errcs)" by (simp add: distinct_map)
  moreover have "set nd_errcs = UNIV" using nd_errcs_complete by auto
  ultimately show ?thesis by (simp add: nd_status_law_def nd_example_status_def)
qed

theorem completion_status_readable_witness:
  "completion_status_to_error (nd_example_status nd_connection_refused) =
     EC (nd_example_status nd_connection_refused) nd_category \<and>
   nd_errc_of_name (error_code_message nd_example_status (\<lambda>ec. [])
     (completion_status_to_error (nd_example_status nd_connection_refused))) = Some nd_connection_refused"
proof -
  have "find (\<lambda>e. nd_example_status e = nd_example_status nd_connection_refused) nd_errcs =
      Some nd_connection_refused" by code_simp
  moreover have "nd_example_status nd_connection_refused \<noteq> nd_example_status nd_success"
    "nd_example_status nd_connection_refused \<noteq> nd_example_status nd_canceled" by code_simp+
  ultimately show ?thesis
    using completion_status_readable [OF nd_example_status_law refl, of "nd_example_status nd_connection_refused" "\<lambda>ec. []"]
    by metis
qed

subsection \<open>Start-up and clean-up\<close>

text \<open>
  The four calls of Winsock and NetworkDirect, over the state \<open>'s\<close> of the process: an error number, an
  \<open>HRESULT\<close>, or nothing.
\<close>

record 's startup_api =
  su_wsa_startup :: "'s \<Rightarrow> int \<times> 's"
  su_wsa_cleanup :: "'s \<Rightarrow> 's"
  su_nd_startup :: "'s \<Rightarrow> int \<times> 's"
  su_nd_cleanup :: "'s \<Rightarrow> int \<times> 's"

record nd_global =
  wsa_init :: int

text \<open>The constructor: \<open>Inl\<close> is the exception's code.\<close>

definition nd_global_ctor :: "'s startup_api \<Rightarrow> 's \<Rightarrow> (error_code + nd_global) \<times> 's" where
  "nd_global_ctor api s =
     (case su_wsa_startup api s of (ret, s1) \<Rightarrow>
        if ret \<noteq> 0 then (Inl (EC ret system_category), s1)
        else case su_nd_startup api s1 of (hr, s2) \<Rightarrow>
          if failed hr then (Inl (EC hr system_category), su_wsa_cleanup api s2)
          else (Inr \<lparr>wsa_init = 1\<rparr>, s2))"

text \<open>The destructor; the first component is whether it reports a failure of \<open>NdCleanup\<close>.\<close>

definition nd_global_dtor :: "'s startup_api \<Rightarrow> nd_global \<Rightarrow> 's \<Rightarrow> bool \<times> nd_global \<times> 's" where
  "nd_global_dtor api g s =
     (case su_nd_cleanup api s of (hr, s1) \<Rightarrow>
        if wsa_init g \<noteq> 0 then (failed hr, g\<lparr>wsa_init := 0\<rparr>, su_wsa_cleanup api s1)
        else (failed hr, g, s1))"

text \<open>
  Documented behaviour, over the numbers of start-ups not yet cleaned up: a start-up that succeeds adds
  one, a clean-up that succeeds takes one away, a call that fails changes nothing.
\<close>

definition startup_law :: "('s \<Rightarrow> int) \<Rightarrow> ('s \<Rightarrow> int) \<Rightarrow> 's startup_api \<Rightarrow> bool" where
  "startup_law wsa nd api \<longleftrightarrow>
     (\<forall>s r s'. su_wsa_startup api s = (r, s') \<longrightarrow> wsa s' = wsa s + (if r = 0 then 1 else 0) \<and> nd s' = nd s) \<and>
     (\<forall>s r s'. su_nd_startup api s = (r, s') \<longrightarrow> nd s' = nd s + (if failed r then 0 else 1) \<and> wsa s' = wsa s) \<and>
     (\<forall>s r s'. su_nd_cleanup api s = (r, s') \<longrightarrow> nd s' = nd s - (if failed r then 0 else 1) \<and> wsa s' = wsa s) \<and>
     (\<forall>s. wsa (su_wsa_cleanup api s) = wsa s - 1 \<and> nd (su_wsa_cleanup api s) = nd s)"

text \<open>
  Constructing the global object starts Winsock and NetworkDirect once each, or throws and leaves both as
  they were; destroying it balances the start-up, up to an \<open>NdCleanup\<close> that fails, which is reported.
\<close>

theorem nd_global_balanced:
  assumes "startup_law wsa nd api" and "nd_global_ctor api s = (res, s')"
  shows "case res of
      Inl ec \<Rightarrow> is_error ec \<and> wsa s' = wsa s \<and> nd s' = nd s
    | Inr g \<Rightarrow> wsa s' = wsa s + 1 \<and> nd s' = nd s + 1 \<and>
        (\<forall>s1. case nd_global_dtor api g s1 of (reported, g', s2) \<Rightarrow>
           wsa s2 = wsa s1 - 1 \<and> nd s2 = nd s1 - (if reported then 0 else 1) \<and> wsa_init g' = 0)"
proof -
  obtain ret s1 where a: "su_wsa_startup api s = (ret, s1)" by fastforce
  obtain hr s2 where b: "su_nd_startup api s1 = (hr, s2)" by fastforce
  have A: "wsa s1 = wsa s + (if ret = 0 then 1 else 0)" "nd s1 = nd s"
    using assms(1) a unfolding startup_law_def by simp_all
  have B: "nd s2 = nd s1 + (if failed hr then 0 else 1)" "wsa s2 = wsa s1"
    using assms(1) b unfolding startup_law_def by simp_all
  have C: "wsa (su_wsa_cleanup api x) = wsa x - 1" "nd (su_wsa_cleanup api x) = nd x" for x
    using assms(1) unfolding startup_law_def by simp_all
  have D: "nd (snd (su_nd_cleanup api x)) = nd x - (if failed (fst (su_nd_cleanup api x)) then 0 else 1)"
    "wsa (snd (su_nd_cleanup api x)) = wsa x" for x
    using assms(1) unfolding startup_law_def by (metis prod.collapse)+
  show ?thesis
    using assms(2) a b A B C D
    by (auto simp: nd_global_ctor_def nd_global_dtor_def is_error_def failed_def case_prod_beta split: if_splits)
qed

definition startup_sim :: "(int \<times> int) startup_api" where
  "startup_sim = \<lparr>su_wsa_startup = \<lambda>(w, n). (0, (w + 1, n)), su_wsa_cleanup = \<lambda>(w, n). (w - 1, n),
     su_nd_startup = \<lambda>(w, n). (- 1, (w, n)), su_nd_cleanup = \<lambda>(w, n). (0, (w, n - 1))\<rparr>"

theorem nd_global_balanced_witness:
  "\<exists>ec s'. nd_global_ctor startup_sim (0, 0) = (Inl ec, s') \<and> is_error ec \<and> fst s' = 0"
proof -
  have law: "startup_law fst snd startup_sim"
    by (auto simp: startup_law_def startup_sim_def failed_def)
  obtain res s' where r: "nd_global_ctor startup_sim (0, 0) = (res, s')" by (metis surj_pair)
  have "res = Inl (EC (- 1) system_category)"
    using r by (simp add: nd_global_ctor_def startup_sim_def failed_def)
  then show ?thesis using nd_global_balanced [OF law r] r by simp
qed

end
