(* ===== verification/ND_Device.thy ===== *)
theory ND_Device
  imports ND_Provider "HOL-Library.Sublist"
begin

unbundle bit_operations_syntax

text \<open>
  Discovery of the NetworkDirect devices: \<open>nd/detail/nd_device_impl.hpp\<close>,
  \<open>nd/detail/impl/nd_device_impl.ipp\<close> and the manager of \<open>nd/nd_device.hpp\<close>.

  The Windows calls are the fields of \<open>ndd_api\<close>; those that open or load something take and return the
  state \<open>'n\<close> of the provider. \<open>std::ranges::sort\<close> may order equal keys in any way, so it is a parameter
  that permutes and sorts. A filter over a transformed range evaluates the transformation for its test
  and, when the test passes, again for the element (\<open>view_collect\<close>).
\<close>

subsection \<open>Range actions\<close>

fun filter_map_action :: "('a \<Rightarrow> 'b option) \<Rightarrow> 'a list \<Rightarrow> 'b list" where
  "filter_map_action fn [] = []"
| "filter_map_action fn (item # items) =
     (case fn item of None \<Rightarrow> filter_map_action fn items | Some v \<Rightarrow> v # filter_map_action fn items)"

definition sort_by_action :: "(('a \<Rightarrow> 'k) \<Rightarrow> 'a list \<Rightarrow> 'a list) \<Rightarrow> ('a \<Rightarrow> 'k) \<Rightarrow> 'a list \<Rightarrow> 'a list" where
  "sort_by_action srt key_fn items = srt key_fn items"

text \<open>The loop over the rest, with the chunks so far, the current one and the previous element.\<close>

fun chunk_loop :: "('a \<Rightarrow> 'a \<Rightarrow> bool) \<Rightarrow> 'a list list \<Rightarrow> 'a list \<Rightarrow> 'a \<Rightarrow> 'a list \<Rightarrow> 'a list list" where
  "chunk_loop pred chunks current previous [] = chunks @ [current]"
| "chunk_loop pred chunks current previous (it # rest) =
     (if pred previous it then chunk_loop pred chunks (current @ [it]) it rest
      else chunk_loop pred (chunks @ [current]) [it] it rest)"

definition chunk_by_action :: "('a \<Rightarrow> 'a \<Rightarrow> bool) \<Rightarrow> 'a list \<Rightarrow> 'a list list" where
  "chunk_by_action pred items =
     (case items of [] \<Rightarrow> [] | it # rest \<Rightarrow> chunk_loop pred [] [it] it rest)"

text \<open>
  \<open>range | transform(f) | filter(test) | to<vector>()\<close>: the result of \<open>f\<close> that was tested is dropped,
  then \<open>f\<close> runs again for the element that is copied.
\<close>

fun view_collect ::
  "('a \<Rightarrow> 'n \<Rightarrow> 'b \<times> 'n) \<Rightarrow> ('b \<Rightarrow> bool) \<Rightarrow> ('b \<Rightarrow> 'n \<Rightarrow> 'n) \<Rightarrow> 'a list \<Rightarrow> 'n \<Rightarrow> 'b list \<times> 'n" where
  "view_collect f test drp [] n = ([], n)"
| "view_collect f test drp (x # xs) n =
     (case f x n of (tested, n1) \<Rightarrow>
        let n2 = drp tested n1 in
        if test tested
        then case f x n2 of (y, n3) \<Rightarrow>
          (case view_collect f test drp xs n3 of (ys, n4) \<Rightarrow> (y # ys, n4))
        else view_collect f test drp xs n2)"

subsection \<open>Addresses\<close>

record nd2_sockaddr =
  nsa_addr :: sockaddr
  nsa_size :: nat

text \<open>
  The address of which only the first \<open>len\<close> bytes were copied over zeroes: the family is the first
  byte, the IPv4 address bytes 4 to 7, the IPv6 address bytes 8 to 23.
\<close>

fun sockaddr_prefix :: "nat \<Rightarrow> sockaddr \<Rightarrow> sockaddr" where
  "sockaddr_prefix len (SA_in a) = SA_in (a AND NOT (mask (8 * (4 - min 4 (len - 4)))))"
| "sockaddr_prefix len (SA_in6 a) = SA_in6 (a AND NOT (mask (8 * (16 - min 16 (len - 8)))))"
| "sockaddr_prefix len (SA_other f) = SA_other f"

fun is_supported_addr_family :: "nd2_sockaddr \<Rightarrow> bool" where
  "is_supported_addr_family addr =
     (case nsa_addr addr of SA_in _ \<Rightarrow> True | SA_in6 _ \<Rightarrow> True | SA_other _ \<Rightarrow> False)"

text \<open>The capacity of a TCP endpoint is that of \<open>sockaddr_in6\<close>, 28 bytes.\<close>

definition nd_to_ip_address :: "nd2_sockaddr \<Rightarrow> ip_address option" where
  "nd_to_ip_address addr =
     (if \<not> is_supported_addr_family addr then None
      else if nsa_size addr > 28 then None
      else case nsa_addr addr of SA_in a \<Rightarrow> Some (V4 a) | SA_in6 a \<Rightarrow> Some (V6 a) | SA_other _ \<Rightarrow> None)"

text \<open>\<open>SOCKET_ADDRESS_LIST\<close>: addresses with their lengths as signed integers; \<open>sockaddr_storage\<close> has 128 bytes.\<close>

type_synonym socket_address = "sockaddr \<times> int"

definition copy_socket_address_list :: "socket_address list \<Rightarrow> nd2_sockaddr list" where
  "copy_socket_address_list addr_list =
     filter (\<lambda>addr. nsa_size addr \<noteq> 0)
       (map (\<lambda>(sa, len). if unat (of_int len :: u64) > 128 then \<lparr>nsa_addr = SA_other 0, nsa_size = 0\<rparr>
                         else \<lparr>nsa_addr = sockaddr_prefix (nat len) sa, nsa_size = nat len\<rparr>) addr_list)"

subsection \<open>The Windows calls\<close>

record wsa_protocol_info =
  dwServiceFlags1 :: u32
  iAddressFamily :: int
  iSocketType :: int
  iProtocol :: int
  iProtocolMaxOffset :: int
  iVersion :: int
  ProviderId :: nat

definition wsa_protocol_zero :: wsa_protocol_info where
  "wsa_protocol_zero =
     \<lparr>dwServiceFlags1 = 0, iAddressFamily = 0, iSocketType = 0, iProtocol = 0, iProtocolMaxOffset = 0,
      iVersion = 0, ProviderId = 0\<rparr>"

record 'n ndd_api =
  ndd_ndver :: int
  ndd_proto_info_size :: nat
  ndd_enum_protocols_len :: "int \<times> nat \<times> int"
  ndd_enum_protocols :: "nat \<Rightarrow> int \<times> wsa_protocol_info list \<times> int"
  ndd_provider_path_len :: "nat \<Rightarrow> int \<times> nat \<times> int"
  ndd_provider_path :: "nat \<Rightarrow> nat \<Rightarrow> int \<times> string \<times> int"
  ndd_expand_len :: "string \<Rightarrow> nat \<times> int"
  ndd_expand :: "string \<Rightarrow> nat \<Rightarrow> nat \<times> string \<times> int"
  ndd_load_library :: "'n \<Rightarrow> string \<Rightarrow> ptr \<times> int \<times> 'n"
  ndd_free_library :: "'n \<Rightarrow> ptr \<Rightarrow> 'n"
  ndd_get_proc_address :: "ptr \<Rightarrow> string \<Rightarrow> ptr \<times> int"
  ndd_class_object :: "'n \<Rightarrow> ptr \<Rightarrow> nat \<Rightarrow> int \<times> ptr \<times> 'n"
  ndd_create_instance :: "'n \<Rightarrow> ptr \<Rightarrow> int \<times> ptr \<times> 'n"
  ndd_provider_addr_size :: "ptr \<Rightarrow> nat"
  ndd_provider_addrs :: "ptr \<Rightarrow> int \<times> socket_address list"
  ndd_malloc :: "nat \<Rightarrow> bool"
  ndd_resolve_address :: "ptr \<Rightarrow> nd2_sockaddr \<Rightarrow> int \<times> u64"
  ndd_open_adapter :: "'n \<Rightarrow> ptr \<Rightarrow> u64 \<Rightarrow> int \<times> ptr \<times> 'n"
  ndd_query :: "ptr \<Rightarrow> int \<times> native_context_config_t"
  ndd_adapter_addr_size :: "ptr \<Rightarrow> nat"
  ndd_adapter_addrs :: "ptr \<Rightarrow> int \<times> socket_address list"
  ndd_address_string_len :: "nd2_sockaddr \<Rightarrow> int \<times> nat \<times> int"
  ndd_address_string :: "nd2_sockaddr \<Rightarrow> nat \<Rightarrow> int \<times> string \<times> int"
  ndd_multi_byte_len :: "string \<Rightarrow> int \<times> int"
  ndd_multi_byte :: "string \<Rightarrow> int \<Rightarrow> int \<times> string \<times> int"
  ndd_make_pd :: "'n \<Rightarrow> ptr \<times> 'n"

abbreviation (input) SOCKET_ERROR :: int where "SOCKET_ERROR \<equiv> - 1"
abbreviation (input) WSAEFAULT :: int where "WSAEFAULT \<equiv> 10014"
abbreviation (input) WSAEINVAL :: int where "WSAEINVAL \<equiv> 10022"
abbreviation (input) WSAENOBUFS :: int where "WSAENOBUFS \<equiv> 10055"

abbreviation (input) errc_not_enough_memory :: error_code where "errc_not_enough_memory \<equiv> EC 12 generic_category"
abbreviation (input) errc_invalid_argument :: error_code where "errc_invalid_argument \<equiv> EC 22 generic_category"
abbreviation (input) errc_address_not_available :: error_code where
  "errc_address_not_available \<equiv> EC 101 generic_category"

subsection \<open>Providers\<close>

text \<open>
  \<open>XP1_GUARANTEED_DELIVERY\<close> (2), \<open>XP1_GUARANTEED_ORDER\<close> (4), \<open>XP1_MESSAGE_ORIENTED\<close> (8) and
  \<open>XP1_CONNECT_DATA\<close> (128); \<open>AF_INET\<close> is 2 and \<open>AF_INET6\<close> 23.
\<close>

definition fi_nd_proto_flag :: u32 where
  "fi_nd_proto_flag = 2 OR 4 OR 8 OR 128"

definition is_valid_proto :: "int \<Rightarrow> wsa_protocol_info \<Rightarrow> bool" where
  "is_valid_proto ndver proto =
     (if (dwServiceFlags1 proto AND fi_nd_proto_flag) \<noteq> fi_nd_proto_flag then False
      else if \<not> (iAddressFamily proto = 2 \<or> iAddressFamily proto = 23) then False
      else if iSocketType proto \<noteq> - 1 then False
      else if iProtocol proto \<noteq> 0 \<or> iProtocolMaxOffset proto \<noteq> 0 then False
      else iVersion proto = ndver)"

text \<open>The array is sized by the first call; what the second call leaves unwritten is zero.\<close>

definition enumerate_protos :: "'n ndd_api \<Rightarrow> error_code + wsa_protocol_info list" where
  "enumerate_protos api =
     (case ndd_enum_protocols_len api of (number_info, proto_len, err) \<Rightarrow>
        if number_info = SOCKET_ERROR \<and> err \<noteq> WSAENOBUFS then Inl (make_system_error_code err)
        else
          let array_size = proto_len div ndd_proto_info_size api in
          case ndd_enum_protocols api array_size of (number_info, protos, err) \<Rightarrow>
            if number_info = SOCKET_ERROR then Inl (make_system_error_code err)
            else Inr (filter (is_valid_proto (ndd_ndver api))
              (take array_size (protos @ replicate array_size wsa_protocol_zero))))"

definition get_provider_path :: "'n ndd_api \<Rightarrow> wsa_protocol_info \<Rightarrow> string \<times> error_code" where
  "get_provider_path api proto =
     (case ndd_provider_path_len api (ProviderId proto) of (res, len, err) \<Rightarrow>
        if res \<noteq> SOCKET_ERROR \<or> err \<noteq> WSAEFAULT then ([], make_system_error_code err)
        else case ndd_provider_path api (ProviderId proto) len of (res, temp, err) \<Rightarrow>
          if res = SOCKET_ERROR
          then ([], if err = WSAEINVAL then errc_invalid_argument else make_system_error_code err)
          else case ndd_expand_len api temp of (len, gle) \<Rightarrow>
            if len = 0 then ([], make_system_error_code gle)
            else case ndd_expand api temp len of (len, result, gle) \<Rightarrow>
              if len = 0 then ([], make_system_error_code gle) else (result, no_error))"

record nd_provider_factory =
  npf_proto :: wsa_protocol_info
  npf_module_name :: string
  npf_module :: ptr
  npf_unload :: ptr
  npf_factory :: ptr

definition create_provider_factory ::
  "'n nd_api \<Rightarrow> 'n ndd_api \<Rightarrow> string \<Rightarrow> wsa_protocol_info \<Rightarrow> 'n
   \<Rightarrow> nd_provider_factory option \<times> error_code \<times> 'n" where
  "create_provider_factory api dapi path proto n =
     (case ndd_load_library dapi n path of (module, gle, n1) \<Rightarrow>
        if module = nullptr then (None, make_system_error_code gle, n1)
        else case ndd_get_proc_address dapi module ''DllCanUnloadNow'' of (unload, gle) \<Rightarrow>
          if unload = nullptr then (None, make_system_error_code gle, ndd_free_library dapi n1 module)
          else case ndd_get_proc_address dapi module ''DllGetClassObject'' of (getclassobj, gle) \<Rightarrow>
            if getclassobj = nullptr
            then (None, make_system_error_code gle, ndd_free_library dapi n1 module)
            else case ndd_class_object dapi n1 getclassobj (ProviderId proto) of (hr, factory, n2) \<Rightarrow>
              if hr \<noteq> 0
              then (None, make_system_error_code hr, ndd_free_library dapi
                     (if factory \<noteq> nullptr then nda_release api n2 factory else n2) module)
              else (Some \<lparr>npf_proto = proto, npf_module_name = path, npf_module = module,
                      npf_unload = unload, npf_factory = factory\<rparr>, no_error, n2))"

definition create_provider ::
  "'n nd_api \<Rightarrow> 'n ndd_api \<Rightarrow> nd_provider_factory \<Rightarrow> 'n \<Rightarrow> ptr \<times> error_code \<times> 'n" where
  "create_provider api dapi factory n =
     (case ndd_create_instance dapi n (npf_factory factory) of (hr, provider, n1) \<Rightarrow>
        if hr \<noteq> 0
        then (nullptr, make_system_error_code hr, if provider \<noteq> nullptr then nda_release api n1 provider else n1)
        else (provider, no_error, n1))"

text \<open>A provider with its devices; a null pointer is a device that could not be opened.\<close>

record nd_provider =
  np_factory :: "nd_provider_factory option"
  np_provider :: ptr
  np_devices :: "nd_adapter option list"

definition nd_provider_empty :: nd_provider where
  "nd_provider_empty = \<lparr>np_factory = None, np_provider = nullptr, np_devices = []\<rparr>"

definition drop_factory :: "'n nd_api \<Rightarrow> 'n ndd_api \<Rightarrow> nd_provider_factory \<Rightarrow> 'n \<Rightarrow> 'n" where
  "drop_factory api dapi f n =
     ndd_free_library dapi (if npf_factory f \<noteq> nullptr then nda_release api n (npf_factory f) else n) (npf_module f)"

text \<open>A call that fails leaves a last error other than 0, so without an error there is a factory.\<close>

definition open_provider ::
  "'n nd_api \<Rightarrow> 'n ndd_api \<Rightarrow> wsa_protocol_info \<Rightarrow> 'n \<Rightarrow> nd_provider \<times> 'n" where
  "open_provider api dapi proto n =
     (case get_provider_path dapi proto of (path, ec) \<Rightarrow>
        if is_error ec then (nd_provider_empty, n)
        else case create_provider_factory api dapi path proto n of (factory, ec, n1) \<Rightarrow>
          if is_error ec then (nd_provider_empty, n1)
          else case factory of
            None \<Rightarrow> (nd_provider_empty, n1)
          | Some f \<Rightarrow>
              (case create_provider api dapi f n1 of (provider, ec, n2) \<Rightarrow>
                 if is_error ec then (nd_provider_empty, drop_factory api dapi f n2)
                 else (\<lparr>np_factory = Some f, np_provider = provider, np_devices = []\<rparr>, n2)))"

text \<open>What a provider that is not kept releases: its members in reverse order.\<close>

definition drop_provider :: "'n nd_api \<Rightarrow> 'n ndd_api \<Rightarrow> nd_provider \<Rightarrow> 'n \<Rightarrow> 'n" where
  "drop_provider api dapi p n =
     (let n1 = (if np_provider p \<noteq> nullptr then nda_release api n (np_provider p) else n)
      in case np_factory p of None \<Rightarrow> n1 | Some f \<Rightarrow> drop_factory api dapi f n1)"

definition get_providers ::
  "'n nd_api \<Rightarrow> 'n ndd_api \<Rightarrow> 'n \<Rightarrow> error_code \<times> nd_provider list \<times> 'n" where
  "get_providers api dapi n =
     (case enumerate_protos dapi of
        Inl ec \<Rightarrow> (ec, [], n)
      | Inr protos \<Rightarrow>
          (case view_collect (open_provider api dapi) (\<lambda>p. np_provider p \<noteq> nullptr) (drop_provider api dapi)
                  protos n of
             (result, n') \<Rightarrow>
               (if result = [] then make_error_code no_available_device else no_error, result, n')))"

subsection \<open>Devices\<close>

text \<open>Both address queries: a size, a buffer, the list.\<close>

definition read_addr_list ::
  "'n ndd_api \<Rightarrow> nat \<Rightarrow> int \<times> socket_address list \<Rightarrow> error_code + nd2_sockaddr list" where
  "read_addr_list dapi buffer_size r =
     (if buffer_size = 0 then Inl errc_address_not_available
      else if \<not> ndd_malloc dapi buffer_size then Inl errc_not_enough_memory
      else case r of (hr, addrs) \<Rightarrow>
        if hr \<noteq> ND_SUCCESS then Inl (make_nd_error_code hr)
        else if addrs = [] then Inl errc_address_not_available
        else Inr (copy_socket_address_list addrs))"

definition enumerate_addr_list :: "'n ndd_api \<Rightarrow> ptr \<Rightarrow> error_code + nd2_sockaddr list" where
  "enumerate_addr_list dapi provider =
     read_addr_list dapi (ndd_provider_addr_size dapi provider) (ndd_provider_addrs dapi provider)"

definition query_adapter_addr_list :: "'n ndd_api \<Rightarrow> ptr \<Rightarrow> error_code + nd2_sockaddr list" where
  "query_adapter_addr_list dapi adapter =
     read_addr_list dapi (ndd_adapter_addr_size dapi adapter) (ndd_adapter_addrs dapi adapter)"

definition resolve_adapter_id :: "'n ndd_api \<Rightarrow> ptr \<Rightarrow> nd2_sockaddr \<Rightarrow> error_code + u64" where
  "resolve_adapter_id dapi provider addr =
     (case ndd_resolve_address dapi provider addr of (hr, adapter_id) \<Rightarrow>
        if hr \<noteq> ND_SUCCESS then Inl (make_nd_error_code hr) else Inr adapter_id)"

definition query_adapter_info :: "'n ndd_api \<Rightarrow> ptr \<Rightarrow> error_code \<times> native_context_config_t" where
  "query_adapter_info dapi adapter =
     (case ndd_query dapi adapter of (hr, info) \<Rightarrow>
        (if hr \<noteq> ND_SUCCESS then make_nd_error_code hr else no_error, info))"

text \<open>The wide-character branch (\<open>_MSC_VER >= 1800\<close>).\<close>

definition query_adapter_name :: "'n ndd_api \<Rightarrow> nd2_sockaddr \<Rightarrow> string \<times> error_code" where
  "query_adapter_name dapi addr =
     (case ndd_address_string_len dapi addr of (res, addrlen, gle) \<Rightarrow>
        let ec = (if res \<noteq> 0 then make_system_error_code gle else no_error) in
        if res = SOCKET_ERROR \<and> ec_value ec = WSAEFAULT \<and> addrlen \<noteq> 0
        then case ndd_address_string dapi addr addrlen of (res, wide, gle) \<Rightarrow>
          let ec = (if res \<noteq> 0 then make_system_error_code gle else no_error) in
          if is_error ec then ([], ec)
          else case ndd_multi_byte_len dapi wide of (res, gle) \<Rightarrow>
            if res = 0 then ([], make_system_error_code gle)
            else case ndd_multi_byte dapi wide res of (res', result, gle) \<Rightarrow>
              (result, if res' = 0 then make_system_error_code gle else ec)
        else ([], ec))"

text \<open>
  The memory of the protection domain is allocated before its synchronous handle; it is not an object of
  the provider. On failure the adapter is released.
\<close>

definition nd_create_device ::
  "'n nd_api \<Rightarrow> 'n ndd_api \<Rightarrow> ptr \<Rightarrow> nd2_sockaddr \<Rightarrow> u64 \<Rightarrow> 'n \<Rightarrow> nd_adapter option \<times> error_code \<times> 'n" where
  "nd_create_device api dapi provider addr adapter_id n =
     (case ndd_open_adapter dapi n provider adapter_id of (hr, adapter, n1) \<Rightarrow>
        if hr \<noteq> ND_SUCCESS
        then (None, make_nd_error_code hr, if adapter \<noteq> nullptr then nda_release api n1 adapter else n1)
        else case query_adapter_info dapi adapter of (ec, info) \<Rightarrow>
          if is_error ec then (None, ec, nda_release api n1 adapter)
          else case query_adapter_name dapi addr of (name, ec) \<Rightarrow>
            if is_error ec then (None, ec, nda_release api n1 adapter)
            else case ndd_make_pd dapi n1 of (pd, n2) \<Rightarrow>
              case create_overlapped_file api adapter n2 of (sync_handle, ec, n3) \<Rightarrow>
                if is_error ec then (None, ec, nda_release api n3 adapter)
                else (Some \<lparr>na_adapter = adapter, na_pd = pd, na_info = info, na_v4 = None, na_v6 = None,
                        na_adapter_id = adapter_id, na_name = name, na_sync = sync_handle\<rparr>, ec, n3))"

definition attach_address :: "nd2_sockaddr \<Rightarrow> nd_adapter \<Rightarrow> nd_adapter" where
  "attach_address addr d =
     (case nd_to_ip_address addr of
        None \<Rightarrow> d
      | Some (V4 a) \<Rightarrow> if na_v4 d = None then d\<lparr>na_v4 := Some (V4 a)\<rparr> else d
      | Some (V6 a) \<Rightarrow> if na_v6 d = None then d\<lparr>na_v6 := Some (V6 a)\<rparr> else d)"

definition attach_device_addresses :: "nd2_sockaddr list \<Rightarrow> nd_adapter \<Rightarrow> nd_adapter" where
  "attach_device_addresses addresses d = fold attach_address (filter is_supported_addr_family addresses) d"

text \<open>A device that is not kept closes the handle of its protection domain and releases the adapter.\<close>

definition drop_device :: "'n nd_api \<Rightarrow> nd_adapter option \<Rightarrow> 'n \<Rightarrow> 'n" where
  "drop_device api device n =
     (case device of
        None \<Rightarrow> n
      | Some d \<Rightarrow>
          let n1 = (if is_closable_handle (na_sync d) then nda_close_handle api n (na_sync d) else n)
          in if na_adapter d \<noteq> nullptr then nda_release api n1 (na_adapter d) else n1)"

definition open_device ::
  "'n nd_api \<Rightarrow> 'n ndd_api \<Rightarrow> ptr \<Rightarrow> u64 \<Rightarrow> nd2_sockaddr list \<Rightarrow> 'n \<Rightarrow> nd_adapter option \<times> error_code \<times> 'n" where
  "open_device api dapi provider adapter_id provider_addresses n =
     (case provider_addresses of
        [] \<Rightarrow> (None, errc_invalid_argument, n)
      | front # _ \<Rightarrow>
          (case nd_create_device api dapi provider front adapter_id n of (device, ec, n1) \<Rightarrow>
             if is_error ec then (None, ec, drop_device api device n1)
             else case device of
               None \<Rightarrow> (None, ec, n1)
             | Some d \<Rightarrow>
                 let d' = (case query_adapter_addr_list dapi (na_adapter d) of
                             Inr adapter_addresses \<Rightarrow>
                               attach_device_addresses
                                 (if adapter_addresses \<noteq> [] then adapter_addresses else provider_addresses) d
                           | Inl _ \<Rightarrow> attach_device_addresses provider_addresses d)
                 in if na_v4 d' = None \<and> na_v6 d' = None
                    then (None, errc_address_not_available, drop_device api (Some d') n1)
                    else (Some d', no_error, n1)))"

record resolved_nd_address =
  rna_adapter_id :: u64
  rna_address :: nd2_sockaddr

type_synonym nd_sort = "(resolved_nd_address \<Rightarrow> u64) \<Rightarrow> resolved_nd_address list \<Rightarrow> resolved_nd_address list"

definition resolve_addresses :: "'n ndd_api \<Rightarrow> ptr \<Rightarrow> nd2_sockaddr list \<Rightarrow> resolved_nd_address list" where
  "resolve_addresses dapi provider addr_list =
     filter_map_action (\<lambda>addr. case resolve_adapter_id dapi provider addr of
         Inl _ \<Rightarrow> None
       | Inr i \<Rightarrow> Some \<lparr>rna_adapter_id = i, rna_address = addr\<rparr>)
       (filter is_supported_addr_family addr_list)"

definition adapter_groups :: "nd_sort \<Rightarrow> resolved_nd_address list \<Rightarrow> resolved_nd_address list list" where
  "adapter_groups srt resolved =
     chunk_by_action (\<lambda>a b. rna_adapter_id a = rna_adapter_id b) (sort_by_action srt rna_adapter_id resolved)"

definition open_group ::
  "'n nd_api \<Rightarrow> 'n ndd_api \<Rightarrow> ptr \<Rightarrow> resolved_nd_address list \<Rightarrow> 'n \<Rightarrow> nd_adapter option \<times> 'n" where
  "open_group api dapi provider chunk n =
     (case open_device api dapi provider (rna_adapter_id (hd chunk)) (map rna_address chunk) n of
        (device, _, n') \<Rightarrow> (device, n'))"

definition discover_provider_devices ::
  "'n nd_api \<Rightarrow> 'n ndd_api \<Rightarrow> nd_sort \<Rightarrow> ptr \<Rightarrow> 'n \<Rightarrow> nd_adapter option list \<times> 'n" where
  "discover_provider_devices api dapi srt provider n =
     (case enumerate_addr_list dapi provider of
        Inl _ \<Rightarrow> ([], n)
      | Inr addr_list \<Rightarrow>
          view_collect (open_group api dapi provider) (\<lambda>device. device \<noteq> None) (drop_device api)
            (adapter_groups srt (resolve_addresses dapi provider addr_list)) n)"

fun open_adapters :: "'n nd_api \<Rightarrow> 'n ndd_api \<Rightarrow> nd_sort \<Rightarrow> nd_provider list \<Rightarrow> 'n \<Rightarrow> nd_provider list \<times> 'n" where
  "open_adapters api dapi srt [] n = ([], n)"
| "open_adapters api dapi srt (p # ps) n =
     (case discover_provider_devices api dapi srt (np_provider p) n of (devices, n1) \<Rightarrow>
        case open_adapters api dapi srt ps n1 of (ps', n2) \<Rightarrow> (p\<lparr>np_devices := devices\<rparr> # ps', n2))"

subsection \<open>Selection\<close>

definition exceeds_cap :: "'w::len word \<Rightarrow> 'w word \<Rightarrow> bool" where
  "exceeds_cap wanted cap \<longleftrightarrow> wanted \<noteq> 0 \<and> wanted > cap"

definition is_valid_adapter_info :: "nd_adapter option \<Rightarrow> native_context_config_t \<Rightarrow> bool" where
  "is_valid_adapter_info adapter config =
     (case adapter of
        None \<Rightarrow> False
      | Some a \<Rightarrow>
          let caps = na_info a in
          if exceeds_cap (MaxRegistrationSize config) (MaxRegistrationSize caps) then False
          else if exceeds_cap (MaxWindowSize config) (MaxWindowSize caps) then False
          else if exceeds_cap (MaxInitiatorSge config) (MaxInitiatorSge caps) then False
          else if exceeds_cap (MaxReceiveSge config) (MaxReceiveSge caps) then False
          else if exceeds_cap (MaxReadSge config) (MaxReadSge caps) then False
          else if exceeds_cap (MaxTransferLength config) (MaxTransferLength caps) then False
          else if exceeds_cap (MaxInlineDataSize config) (MaxInlineDataSize caps) then False
          else if exceeds_cap (MaxInboundReadLimit config) (MaxInboundReadLimit caps) then False
          else if exceeds_cap (MaxOutboundReadLimit config) (MaxOutboundReadLimit caps) then False
          else if exceeds_cap (MaxReceiveQueueDepth config) (MaxReceiveQueueDepth caps) then False
          else if exceeds_cap (MaxInitiatorQueueDepth config) (MaxInitiatorQueueDepth caps) then False
          else if exceeds_cap (MaxSharedReceiveQueueDepth config) (MaxSharedReceiveQueueDepth caps) then False
          else if exceeds_cap (MaxCompletionQueueDepth config) (MaxCompletionQueueDepth caps) then False
          else if exceeds_cap (InlineRequestThreshold config) (InlineRequestThreshold caps) then False
          else if exceeds_cap (LargeRequestThreshold config) (LargeRequestThreshold caps) then False
          else if exceeds_cap (MaxCallerData config) (MaxCallerData caps) then False
          else if exceeds_cap (MaxCalleeData config) (MaxCalleeData caps) then False
          else if AdapterFlags config \<noteq> 0 \<and> (AdapterFlags config AND AdapterFlags caps) \<noteq> AdapterFlags config
          then False
          else True)"

definition is_valid_adapter_config :: "nd_adapter option \<Rightarrow> rdma_config_t \<Rightarrow> bool" where
  "is_valid_adapter_config adapter config =
     (case adapter of
        None \<Rightarrow> False
      | Some a \<Rightarrow>
          let caps = na_info a in
          if cqe config > MaxCompletionQueueDepth caps then False
          else if max_send_wr config > MaxInitiatorQueueDepth caps then False
          else if max_recv_wr config > MaxReceiveQueueDepth caps then False
          else if max_send_sge config > MaxInitiatorSge caps then False
          else if max_recv_sge config > MaxReceiveSge caps then False
          else if max_inline_data config > MaxInlineDataSize caps then False
          else if inbound_read_limit config > MaxInboundReadLimit caps then False
          else if outbound_read_limit config > MaxOutboundReadLimit caps then False
          else True)"

text \<open>The manager: the first device of the first provider that fits, and a visit of all devices.\<close>

fun nd_first_device :: "nd_adapter option list \<Rightarrow> rdma_config_t \<Rightarrow> nd_adapter option" where
  "nd_first_device [] config = None"
| "nd_first_device (d # ds) config =
     (if is_valid_adapter_config d config then d else nd_first_device ds config)"

fun nd_get_first_available_device :: "nd_provider list \<Rightarrow> rdma_config_t \<Rightarrow> nd_adapter option" where
  "nd_get_first_available_device [] config = None"
| "nd_get_first_available_device (p # ps) config =
     (case nd_first_device (np_devices p) config of
        Some d \<Rightarrow> Some d | None \<Rightarrow> nd_get_first_available_device ps config)"

fun nd_visit_devices ::
  "(nd_adapter option \<Rightarrow> 's \<Rightarrow> bool \<times> 's) \<Rightarrow> nd_adapter option list \<Rightarrow> 's \<Rightarrow> bool \<times> 's" where
  "nd_visit_devices func [] s = (True, s)"
| "nd_visit_devices func (d # ds) s =
     (case func d s of (go_on, s') \<Rightarrow> if go_on then nd_visit_devices func ds s' else (False, s'))"

fun nd_for_each_device :: "(nd_adapter option \<Rightarrow> 's \<Rightarrow> bool \<times> 's) \<Rightarrow> nd_provider list \<Rightarrow> 's \<Rightarrow> 's" where
  "nd_for_each_device func [] s = s"
| "nd_for_each_device func (p # ps) s =
     (case nd_visit_devices func (np_devices p) s of
        (go_on, s') \<Rightarrow> if go_on then nd_for_each_device func ps s' else s')"

text \<open>The constructor of \<open>nd_device_manager_t\<close> throws when there is no provider.\<close>

definition nd_device_manager ::
  "'n nd_api \<Rightarrow> 'n ndd_api \<Rightarrow> nd_sort \<Rightarrow> 'n \<Rightarrow> (error_code + nd_provider list) \<times> 'n" where
  "nd_device_manager api dapi srt n =
     (case get_providers api dapi n of (ec, providers, n1) \<Rightarrow>
        if is_error ec then (Inl ec, n1)
        else case open_adapters api dapi srt providers n1 of (providers', n2) \<Rightarrow> (Inr providers', n2))"

subsection \<open>Grouping\<close>

lemma filter_map_action_mem: "y \<in> set (filter_map_action f xs) \<longleftrightarrow> (\<exists>x \<in> set xs. f x = Some y)"
  by (induction xs) (auto split: option.split)

lemma chunk_loop_concat: "concat (chunk_loop R cs cur p xs) = concat cs @ cur @ xs"
  by (induction xs arbitrary: cs cur p) simp_all

lemma chunk_by_concat: "concat (chunk_by_action R xs) = xs"
  by (cases xs) (simp_all add: chunk_by_action_def chunk_loop_concat)

text \<open>The keys of a chunk agree, and over a sorted input each chunk's key is greater than the last one's.\<close>

definition chunk_keys :: "('a \<Rightarrow> 'k) \<Rightarrow> 'a list list \<Rightarrow> 'k list" where
  "chunk_keys key cs = map (key \<circ> hd) cs"

definition uniform_chunk :: "('a \<Rightarrow> 'k) \<Rightarrow> 'a list \<Rightarrow> bool" where
  "uniform_chunk key c \<longleftrightarrow> c \<noteq> [] \<and> (\<forall>x \<in> set c. key x = key (hd c))"

lemma uniform_chunkI:
  assumes "c \<noteq> []" and "\<forall>x \<in> set c. key x = k"
  shows "uniform_chunk key c" "key (hd c) = k"
proof -
  have k: "key (hd c) = k" using assms by simp
  then show "key (hd c) = k" .
  show "uniform_chunk key c" unfolding uniform_chunk_def k using assms by blast
qed

lemma chunk_loop_uniform:
  fixes key :: "'a \<Rightarrow> 'k::linorder"
  assumes "\<forall>c \<in> set cs. uniform_chunk key c" and "cur \<noteq> []"
    and "\<forall>x \<in> set cur. key x = key p" and "sorted_wrt (<) (chunk_keys key cs @ [key p])"
    and "sorted (map key (p # xs))"
  shows "(\<forall>c \<in> set (chunk_loop (\<lambda>a b. key a = key b) cs cur p xs). uniform_chunk key c) \<and>
    sorted_wrt (<) (chunk_keys key (chunk_loop (\<lambda>a b. key a = key b) cs cur p xs))"
    (is "?P (chunk_loop ?R cs cur p xs)")
  using assms
proof (induction xs arbitrary: cs cur p)
  case Nil
  note u = uniform_chunkI [OF Nil(2,3)]
  show ?case using Nil(1,4) u by (simp add: chunk_keys_def)
next
  case (Cons x xs)
  note u = uniform_chunkI [OF Cons.prems(2,3)]
  have le: "key p \<le> key x" and srt: "sorted (map key (x # xs))" using Cons.prems(5) by simp_all
  show ?case
  proof (cases "key p = key x")
    case True
    then have a: "\<forall>y \<in> set (cur @ [x]). key y = key x" using Cons.prems(3) by auto
    have b: "sorted_wrt (<) (chunk_keys key cs @ [key x])" using Cons.prems(4) True by metis
    have "?P (chunk_loop ?R cs (cur @ [x]) x xs)"
      by (rule Cons.IH [OF Cons.prems(1) _ a b srt]) simp
    then show ?thesis using True by simp
  next
    case False
    then have a: "sorted_wrt (<) (chunk_keys key (cs @ [cur]) @ [key x])"
      using Cons.prems(4) u(2) le by (auto simp: chunk_keys_def sorted_wrt_append)
    have b: "\<forall>c \<in> set (cs @ [cur]). uniform_chunk key c" using Cons.prems(1) u(1) by simp
    have "?P (chunk_loop ?R (cs @ [cur]) [x] x xs)"
      by (rule Cons.IH [OF b _ _ a srt]) simp_all
    then show ?thesis using False by simp
  qed
qed

lemma chunk_by_uniform:
  fixes key :: "'a \<Rightarrow> 'k::linorder"
  assumes "sorted (map key xs)"
  shows "(\<forall>c \<in> set (chunk_by_action (\<lambda>a b. key a = key b) xs). uniform_chunk key c) \<and>
    sorted_wrt (<) (chunk_keys key (chunk_by_action (\<lambda>a b. key a = key b) xs))"
proof (cases xs)
  case Nil
  then show ?thesis by (simp add: chunk_by_action_def chunk_keys_def)
next
  case (Cons x rest)
  then show ?thesis
    using chunk_loop_uniform [of "[]" key "[x]" x rest] assms by (simp add: chunk_by_action_def chunk_keys_def)
qed

definition sort_law :: "nd_sort \<Rightarrow> bool" where
  "sort_law srt \<longleftrightarrow> (\<forall>key xs. mset (srt key xs) = mset xs \<and> sorted (map key (srt key xs)))"

lemma adapter_groups_facts:
  assumes "sort_law srt"
  shows "\<forall>c \<in> set (adapter_groups srt rs). uniform_chunk rna_adapter_id c"
    "sorted_wrt (<) (chunk_keys rna_adapter_id (adapter_groups srt rs))"
    "mset (concat (adapter_groups srt rs)) = mset rs"
proof -
  have "sorted (map rna_adapter_id (srt rna_adapter_id rs))" "mset (srt rna_adapter_id rs) = mset rs"
    using assms by (simp_all add: sort_law_def)
  then show "\<forall>c \<in> set (adapter_groups srt rs). uniform_chunk rna_adapter_id c"
    "sorted_wrt (<) (chunk_keys rna_adapter_id (adapter_groups srt rs))"
    "mset (concat (adapter_groups srt rs)) = mset rs"
    using chunk_by_uniform [of rna_adapter_id "srt rna_adapter_id rs"]
    by (simp_all add: adapter_groups_def sort_by_action_def chunk_by_concat)
qed

lemma resolve_addresses_mem:
  "r \<in> set (resolve_addresses dapi p as) \<longleftrightarrow>
     rna_address r \<in> set as \<and> is_supported_addr_family (rna_address r) \<and>
     resolve_adapter_id dapi p (rna_address r) = Inr (rna_adapter_id r)"
proof -
  have "(case resolve_adapter_id dapi p a of Inl _ \<Rightarrow> None
      | Inr i \<Rightarrow> Some \<lparr>rna_adapter_id = i, rna_address = a\<rparr>) = Some r \<longleftrightarrow>
      a = rna_address r \<and> resolve_adapter_id dapi p a = Inr (rna_adapter_id r)" for a
    by (cases r) (auto split: sum.split)
  then show ?thesis
    unfolding resolve_addresses_def filter_map_action_mem by (simp del: is_supported_addr_family.simps)
qed

subsection \<open>Opening devices\<close>

text \<open>\<open>OpenAdapter\<close> returns a new adapter exactly when it succeeds; allocating memory opens nothing.\<close>

definition ndd_law :: "('n \<Rightarrow> ptr set) \<Rightarrow> 'n nd_api \<Rightarrow> 'n ndd_api \<Rightarrow> bool" where
  "ndd_law live api dapi \<longleftrightarrow>
     nd_handle_law live api \<and>
     (\<forall>n p i hr a n'. ndd_open_adapter dapi n p i = (hr, a, n') \<longrightarrow>
        (if hr = ND_SUCCESS then a \<noteq> nullptr \<and> a \<notin> live n \<and> live n' = insert a (live n)
         else a = nullptr \<and> live n' = live n)) \<and>
     (\<forall>n pd n'. ndd_make_pd dapi n = (pd, n') \<longrightarrow> pd \<noteq> nullptr \<and> live n' = live n)"

lemmas ndd_lawD =
  ndd_law_def [THEN iffD1, THEN conjunct1]
  ndd_law_def [THEN iffD1, THEN conjunct2, THEN conjunct1, rule_format]
  ndd_law_def [THEN iffD1, THEN conjunct2, THEN conjunct2, rule_format]

definition device_objs :: "nd_adapter option \<Rightarrow> ptr multiset" where
  "device_objs device = (case device of None \<Rightarrow> {#} | Some d \<Rightarrow> pair_objs (na_adapter d) (na_sync d))"

definition device_usable :: "nd_adapter \<Rightarrow> bool" where
  "device_usable d \<longleftrightarrow> na_adapter d \<noteq> nullptr \<and> na_pd d \<noteq> nullptr \<and> is_closable_handle (na_sync d)"

text \<open>The state \<open>n'\<close> holds what \<open>n\<close> held and \<open>extra\<close>.\<close>

definition adds_objs :: "('n \<Rightarrow> ptr set) \<Rightarrow> ptr multiset \<Rightarrow> 'n \<Rightarrow> 'n \<Rightarrow> bool" where
  "adds_objs live extra n n' \<longleftrightarrow>
     (finite (live n) \<longrightarrow> finite (live n') \<and> mset_set (live n') = mset_set (live n) + extra)"

lemma adds_objs_trans:
  "adds_objs live a n n' \<Longrightarrow> adds_objs live b n' n'' \<Longrightarrow> adds_objs live (a + b) n n''"
  by (auto simp: adds_objs_def ac_simps)

lemma adds_objs_drop:
  assumes "nd_handle_law live api" and "adds_objs live (device_objs d) n n'"
  shows "adds_objs live {#} n (drop_device api d n')"
proof (cases d)
  case None
  then show ?thesis using assms(2) by (simp add: drop_device_def device_objs_def)
next
  case (Some a)
  have "live (drop_device api d n') = live n' - (if na_adapter a \<noteq> nullptr then {na_adapter a} else {}) -
      (if is_closable_handle (na_sync a) then {na_sync a} else {})"
    by (auto simp: Some drop_device_def Let_def nd_handle_lawD(2,3) [OF assms(1)])
  then show ?thesis
    using pair_removed [of "live n'" "mset_set (live n)" "na_adapter a" "na_sync a"] assms(2)
    by (auto simp: adds_objs_def Some device_objs_def)
qed

lemma nd_create_device_outcome:
  assumes law: "ndd_law live api dapi" and r: "nd_create_device api dapi p addr i n = (device, ec, n')"
  shows "adds_objs live (device_objs device) n n' \<and> (is_error ec \<longleftrightarrow> device = None) \<and>
    (\<forall>d. device = Some d \<longrightarrow> device_usable d \<and> na_adapter_id d = i \<and> na_v4 d = None \<and> na_v6 d = None)"
proof -
  note H = ndd_lawD(1) [OF law]
  obtain hr a n1 where o: "ndd_open_adapter dapi n p i = (hr, a, n1)" by (metis prod_cases3)
  obtain qe info where q: "query_adapter_info dapi a = (qe, info)" by fastforce
  obtain name me where m: "query_adapter_name dapi addr = (name, me)" by fastforce
  obtain pd n2 where pd: "ndd_make_pd dapi n1 = (pd, n2)" by fastforce
  obtain h fe n3 where f: "create_overlapped_file api a n2 = (h, fe, n3)" by (metis prod_cases3)
  note O = ndd_lawD(2) [OF law o] and P = ndd_lawD(3) [OF law pd]
    and F = create_overlapped_file_live [OF H f] and R = nd_handle_lawD(3) [OF H]
  consider "hr \<noteq> ND_SUCCESS" | "hr = ND_SUCCESS" "is_error qe \<or> is_error me" |
    "hr = ND_SUCCESS" "\<not> is_error qe" "\<not> is_error me" "is_error fe" |
    "hr = ND_SUCCESS" "\<not> is_error qe" "\<not> is_error me" "\<not> is_error fe" by blast
  then show ?thesis
  proof cases
    case 1
    then show ?thesis using r o O by (auto simp: nd_create_device_def adds_objs_def device_objs_def)
  next
    case 2
    then have "device = None" "is_error ec" "n' = nda_release api n1 a"
      using r o q m by (auto simp: nd_create_device_def split: if_splits)
    then show ?thesis using 2 O by (simp add: adds_objs_def device_objs_def R)
  next
    case 3
    then have "device = None" "is_error ec" "n' = nda_release api n3 a"
      using r o q m pd f by (auto simp: nd_create_device_def)
    then show ?thesis using 3 O P F by (simp add: adds_objs_def device_objs_def R)
  next
    case 4
    then have "(device, ec, n') = (Some \<lparr>na_adapter = a, na_pd = pd, na_info = info, na_v4 = None, na_v6 = None,
        na_adapter_id = i, na_name = name, na_sync = h\<rparr>, fe, n3)"
      using r o q m pd f by (simp add: nd_create_device_def)
    then show ?thesis using 4 O P F
      by (auto simp: adds_objs_def device_objs_def pair_objs_def device_usable_def)
  qed
qed

text \<open>The addresses a device gets: of each family the first of the list.\<close>

definition first_v4 :: "nd2_sockaddr list \<Rightarrow> ip_address option" where
  "first_v4 as = find (\<lambda>x. case x of V4 _ \<Rightarrow> True | V6 _ \<Rightarrow> False) (filter_map_action nd_to_ip_address as)"

definition first_v6 :: "nd2_sockaddr list \<Rightarrow> ip_address option" where
  "first_v6 as = find (\<lambda>x. case x of V4 _ \<Rightarrow> False | V6 _ \<Rightarrow> True) (filter_map_action nd_to_ip_address as)"

definition device_addresses :: "'n ndd_api \<Rightarrow> ptr \<Rightarrow> nd2_sockaddr list \<Rightarrow> nd2_sockaddr list" where
  "device_addresses dapi adapter seeds =
     (case query_adapter_addr_list dapi adapter of Inr as \<Rightarrow> (if as \<noteq> [] then as else seeds) | Inl _ \<Rightarrow> seeds)"

lemma attach_addresses_eq:
  "fold attach_address (filter is_supported_addr_family as) d =
     d\<lparr>na_v4 := (case na_v4 d of None \<Rightarrow> first_v4 as | Some x \<Rightarrow> Some x),
       na_v6 := (case na_v6 d of None \<Rightarrow> first_v6 as | Some x \<Rightarrow> Some x)\<rparr>"
proof (induction as arbitrary: d)
  case Nil
  then show ?case by (simp add: first_v4_def first_v6_def option.case_eq_if)
next
  case (Cons a as)
  show ?case
  proof (cases "nd_to_ip_address a")
    case None
    then have "attach_address a d = d" for d by (simp add: attach_address_def)
    moreover have "first_v4 (a # as) = first_v4 as" "first_v6 (a # as) = first_v6 as"
      using None by (simp_all add: first_v4_def first_v6_def)
    ultimately show ?thesis using Cons [of d] by (simp only: filter.simps fold_simps if_cancel split: if_split) simp
  next
    case (Some x)
    then have "is_supported_addr_family a" by (auto simp: nd_to_ip_address_def split: if_splits)
    then show ?thesis using Cons Some
      by (cases x; cases "na_v4 d"; cases "na_v6 d")
        (simp_all add: first_v4_def first_v6_def attach_address_def del: is_supported_addr_family.simps)
  qed
qed

lemma attach_device_addresses_eq:
  assumes "na_v4 d = None" and "na_v6 d = None"
  shows "attach_device_addresses as d = d\<lparr>na_v4 := first_v4 as, na_v6 := first_v6 as\<rparr>"
  using assms by (simp add: attach_device_addresses_def attach_addresses_eq)

definition group_device :: "'n ndd_api \<Rightarrow> u64 \<Rightarrow> nd2_sockaddr list \<Rightarrow> nd_adapter \<Rightarrow> bool" where
  "group_device dapi i seeds d \<longleftrightarrow>
     device_usable d \<and> na_adapter_id d = i \<and> (na_v4 d \<noteq> None \<or> na_v6 d \<noteq> None) \<and>
     na_v4 d = first_v4 (device_addresses dapi (na_adapter d) seeds) \<and>
     na_v6 d = first_v6 (device_addresses dapi (na_adapter d) seeds)"

lemma open_device_outcome:
  assumes law: "ndd_law live api dapi" and r: "open_device api dapi p i seeds n = (device, ec, n')"
  shows "adds_objs live (device_objs device) n n' \<and> (\<forall>d. device = Some d \<longrightarrow> group_device dapi i seeds d)"
proof (cases seeds)
  case Nil
  then show ?thesis using r by (simp add: open_device_def adds_objs_def device_objs_def)
next
  case (Cons front rest)
  obtain dev e n1 where c: "nd_create_device api dapi p front i n = (dev, e, n1)" by (metis prod_cases3)
  note C = nd_create_device_outcome [OF law c]
  show ?thesis
  proof (cases dev)
    case None
    then show ?thesis using r c C Cons by (simp add: open_device_def drop_device_def)
  next
    case (Some d)
    let ?as = "device_addresses dapi (na_adapter d) seeds"
    let ?d = "d\<lparr>na_v4 := first_v4 ?as, na_v6 := first_v6 ?as\<rparr>"
    have d: "device_usable d" "na_adapter_id d = i" "na_v4 d = None" "na_v6 d = None" "\<not> is_error e"
      using C Some by auto
    have E: "(case query_adapter_addr_list dapi (na_adapter d) of
        Inr as \<Rightarrow> attach_device_addresses (if as \<noteq> [] then as else seeds) d
      | Inl _ \<Rightarrow> attach_device_addresses seeds d) = ?d"
      by (simp add: device_addresses_def attach_device_addresses_eq d(3,4) split: sum.split)
    have run: "(device, ec, n') = (if na_v4 ?d = None \<and> na_v6 ?d = None
        then (None, errc_address_not_available, drop_device api (Some ?d) n1) else (Some ?d, no_error, n1))"
      using r [symmetric] c Some d(5) by (simp add: open_device_def Cons E [unfolded Cons] Let_def)
    have objs: "device_objs (Some ?d) = device_objs dev" by (simp add: Some device_objs_def)
    show ?thesis
    proof (cases "na_v4 ?d = None \<and> na_v6 ?d = None")
      case True
      then show ?thesis
        using run adds_objs_drop [OF ndd_lawD(1) [OF law], of "Some ?d" n n1] C objs by (simp add: device_objs_def)
    next
      case False
      then have "(device, ec, n') = (Some ?d, no_error, n1)" unfolding run by (simp only: if_False)
      then show ?thesis using False C objs d by (simp add: group_device_def device_usable_def)
    qed
  qed
qed

subsection \<open>Collecting from a view\<close>

lemma view_collect_objs:
  assumes "\<And>x n y n'. f x n = (y, n') \<Longrightarrow> adds_objs live (objs y) n n'"
    and "\<And>y n n'. adds_objs live (objs y) n n' \<Longrightarrow> adds_objs live {#} n (drp y n')"
    and "view_collect f test drp xs n = (ys, n')"
  shows "adds_objs live (sum_list (map objs ys)) n n'"
  using assms(3)
proof (induction xs arbitrary: n ys n')
  case Nil
  then show ?case by (simp add: adds_objs_def)
next
  case (Cons x xs)
  obtain t n1 where t: "f x n = (t, n1)" by fastforce
  obtain y n3 where y: "f x (drp t n1) = (y, n3)" by fastforce
  obtain zs n4 where z: "view_collect f test drp xs n3 = (zs, n4)" by fastforce
  have d: "adds_objs live {#} n (drp t n1)" using assms(1,2) t by blast
  show ?case
  proof (cases "test t")
    case True
    then have "ys = y # zs" "n' = n4" using Cons.prems t y z by (simp_all add: Let_def)
    then show ?thesis
      using adds_objs_trans [OF adds_objs_trans [OF d assms(1) [OF y]] Cons.IH [OF z]] by simp
  next
    case False
    then show ?thesis using adds_objs_trans [OF d Cons.IH] Cons.prems t by (simp add: Let_def)
  qed
qed

text \<open>What is collected are results of \<open>f\<close> on a subsequence of the input.\<close>

lemma view_collect_results:
  "view_collect f test drp xs n = (ys, n') \<Longrightarrow>
     \<exists>xs'. subseq xs' xs \<and> list_all2 (\<lambda>x y. \<exists>m m'. f x m = (y, m')) xs' ys"
proof (induction xs arbitrary: n ys n')
  case (Cons x xs)
  obtain t n1 where t: "f x n = (t, n1)" by fastforce
  obtain y n3 where y: "f x (drp t n1) = (y, n3)" by fastforce
  obtain zs n4 where z: "view_collect f test drp xs n3 = (zs, n4)" by fastforce
  show ?case
  proof (cases "test t")
    case True
    then have "ys = y # zs" using Cons.prems t y z by (simp add: Let_def)
    moreover obtain xs' where "subseq xs' xs" "list_all2 (\<lambda>x y. \<exists>m m'. f x m = (y, m')) xs' zs"
      using Cons.IH [OF z] by blast
    ultimately have "subseq (x # xs') (x # xs) \<and> list_all2 (\<lambda>x y. \<exists>m m'. f x m = (y, m')) (x # xs') ys"
      using y by auto
    then show ?thesis by blast
  next
    case False
    then have "view_collect f test drp xs (drp t n1) = (ys, n')" using Cons.prems t by (simp add: Let_def)
    from Cons.IH [OF this] show ?thesis by blast
  qed
qed simp

text \<open>Each element is produced once for the test, and once more if it is kept.\<close>

lemma view_collect_calls:
  assumes "\<And>x n y n'. x \<in> set xs \<Longrightarrow> f x n = (y, n') \<Longrightarrow> calls n' = Suc (calls n)"
    and "\<And>y n. calls (drp y n) = calls n" and "view_collect f test drp xs n = (ys, n')"
  shows "calls n' = calls n + length xs + length ys"
  using assms(1,3)
proof (induction xs arbitrary: n ys n')
  case (Cons x xs)
  obtain t n1 where t: "f x n = (t, n1)" by fastforce
  obtain y n3 where y: "f x (drp t n1) = (y, n3)" by fastforce
  obtain zs n4 where z: "view_collect f test drp xs n3 = (zs, n4)" by fastforce
  note c = Cons.prems(1) [OF _ t] Cons.prems(1) [OF _ y] assms(2)
  show ?case
  proof (cases "test t")
    case True
    moreover have "calls n4 = calls n3 + length xs + length zs"
      by (rule Cons.IH [OF _ z]) (rule Cons.prems(1), simp_all)
    ultimately show ?thesis using Cons.prems(2) t y z c by (auto simp: Let_def)
  next
    case False
    then have "view_collect f test drp xs (drp t n1) = (ys, n')" using Cons.prems(2) t by (simp add: Let_def)
    then have "calls n' = calls (drp t n1) + length xs + length ys"
      by (rule Cons.IH [rotated]) (rule Cons.prems(1), simp_all)
    then show ?thesis using c by simp
  qed
qed simp

subsection \<open>Discovery\<close>

definition present_devices :: "nd_adapter option list \<Rightarrow> nd_adapter list" where
  "present_devices ds = filter_map_action (\<lambda>d. d) ds"

lemma present_devices_simps [simp]:
  "present_devices [] = []" "present_devices (None # ds) = present_devices ds"
  "present_devices (Some d # ds) = d # present_devices ds"
  by (simp_all add: present_devices_def)

lemma collected_keys:
  assumes "list_all2 P xs ys" and "\<And>x d. P x (Some d) \<Longrightarrow> na_adapter_id d = key x"
  shows "subseq (map na_adapter_id (present_devices ys)) (map key xs)"
  using assms(1)
proof (induction rule: list_all2_induct)
  case (Cons x xs y ys)
  then show ?case using assms(2) by (cases y) auto
qed simp

lemma subseq_mem: "subseq xs ys \<Longrightarrow> x \<in> set xs \<Longrightarrow> x \<in> set ys"
  by (erule list_emb_set) auto

lemma sorted_wrt_subseq: "subseq xs ys \<Longrightarrow> sorted_wrt R ys \<Longrightarrow> sorted_wrt R xs"
proof (induction rule: list_emb.induct)
  case (list_emb_Cons2 x y xs ys)
  have "\<And>z. z \<in> set xs \<Longrightarrow> R y z"
    using subseq_mem [OF list_emb_Cons2.hyps(2)] list_emb_Cons2.prems by simp
  then show ?case using list_emb_Cons2 by simp
qed simp_all

lemma open_group_outcome:
  assumes "ndd_law live api dapi" and "open_group api dapi p c n = (device, n')"
  shows "adds_objs live (device_objs device) n n'"
    "device = Some d \<Longrightarrow> group_device dapi (rna_adapter_id (hd c)) (map rna_address c) d"
proof -
  obtain ec where "open_device api dapi p (rna_adapter_id (hd c)) (map rna_address c) n = (device, ec, n')"
    using assms(2) by (auto simp: open_group_def split: prod.splits)
  from open_device_outcome [OF assms(1) this]
  show "adds_objs live (device_objs device) n n'"
    "device = Some d \<Longrightarrow> group_device dapi (rna_adapter_id (hd c)) (map rna_address c) d" by simp_all
qed

text \<open>What is collected, element by element: the result that was tested, and the one that was kept if the test passed.\<close>

lemma view_collect_tries:
  "view_collect f test drp xs n = (ys, n') \<Longrightarrow>
     \<exists>ts. list_all2 (\<lambda>x (t, r). (\<exists>m. t = fst (f x m)) \<and> (\<exists>m. r = fst (f x m))) xs ts \<and>
       ys = map snd (filter (\<lambda>tr. test (fst tr)) ts)"
proof (induction xs arbitrary: n ys n')
  case (Cons x xs)
  obtain t n1 where t: "f x n = (t, n1)" by fastforce
  obtain y n3 where y: "f x (drp t n1) = (y, n3)" by fastforce
  obtain zs n4 where z: "view_collect f test drp xs n3 = (zs, n4)" by fastforce
  have m: "t = fst (f x n)" "y = fst (f x (drp t n1))" using t y by simp_all
  show ?case
  proof (cases "test t")
    case True
    then have ys: "ys = y # zs" using Cons.prems t y z by (simp add: Let_def)
    obtain ts where "list_all2 (\<lambda>x (t, r). (\<exists>m. t = fst (f x m)) \<and> (\<exists>m. r = fst (f x m))) xs ts"
      "zs = map snd (filter (\<lambda>tr. test (fst tr)) ts)" using Cons.IH [OF z] by blast
    then show ?thesis using True m ys by (intro exI [of _ "(t, y) # ts"]) auto
  next
    case False
    then have "view_collect f test drp xs (drp t n1) = (ys, n')" using Cons.prems t by (simp add: Let_def)
    from Cons.IH [OF this] obtain ts where
      "list_all2 (\<lambda>x (t, r). (\<exists>m. t = fst (f x m)) \<and> (\<exists>m. r = fst (f x m))) xs ts"
      "ys = map snd (filter (\<lambda>tr. test (fst tr)) ts)" by blast
    then show ?thesis using False m(1) by (intro exI [of _ "(t, t) # ts"]) auto
  qed
qed simp

text \<open>The addresses of a provider that resolve to an adapter, and the ids of the adapters.\<close>

definition adapter_addresses :: "'n ndd_api \<Rightarrow> ptr \<Rightarrow> nd2_sockaddr list \<Rightarrow> u64 \<Rightarrow> nd2_sockaddr set" where
  "adapter_addresses dapi provider addrs i =
     {a \<in> set addrs. is_supported_addr_family a \<and> resolve_adapter_id dapi provider a = Inr i}"

definition adapter_ids :: "'n ndd_api \<Rightarrow> ptr \<Rightarrow> nd2_sockaddr list \<Rightarrow> u64 set" where
  "adapter_ids dapi provider addrs = {i. adapter_addresses dapi provider addrs i \<noteq> {}}"

lemma adapter_groups_complete:
  assumes "sort_law srt"
  shows "map (rna_adapter_id \<circ> hd) (adapter_groups srt (resolve_addresses dapi provider addrs)) =
      sorted_list_of_set (adapter_ids dapi provider addrs)"
    "c \<in> set (adapter_groups srt (resolve_addresses dapi provider addrs)) \<Longrightarrow>
      set (map rna_address c) = adapter_addresses dapi provider addrs (rna_adapter_id (hd c))"
proof -
  let ?rs = "resolve_addresses dapi provider addrs"
  let ?groups = "adapter_groups srt ?rs" and ?key = "rna_adapter_id \<circ> hd"
  note G = adapter_groups_facts [OF assms, of ?rs]
  have all: "set (concat ?groups) = set ?rs" using G(3) by (rule mset_eq_setD)
  have srt: "sorted_wrt (<) (map ?key ?groups)" using G(2) by (simp add: chunk_keys_def)
  then have inj: "inj_on ?key (set ?groups)" by (simp add: strict_sorted_iff distinct_map)
  have key: "rna_adapter_id r = ?key c" if "c \<in> set ?groups" "r \<in> set c" for c r
  proof -
    have "uniform_chunk rna_adapter_id c" using G(1) that(1) by blast
    then show ?thesis using that(2) unfolding uniform_chunk_def comp_def by blast
  qed
  have mem: "r \<in> set ?rs \<longleftrightarrow> rna_address r \<in> adapter_addresses dapi provider addrs (rna_adapter_id r)" for r
    unfolding resolve_addresses_mem adapter_addresses_def by blast
  have group: "set (map rna_address c) = adapter_addresses dapi provider addrs (?key c)" if c: "c \<in> set ?groups" for c
  proof (rule Set.set_eqI, rule iffI)
    fix a assume "a \<in> set (map rna_address c)"
    then obtain r where r: "r \<in> set c" "a = rna_address r" by auto
    then have "r \<in> set ?rs" using c all by auto
    then show "a \<in> adapter_addresses dapi provider addrs (?key c)" using mem [of r] key [OF c r(1)] r(2) by simp
  next
    fix a assume a: "a \<in> adapter_addresses dapi provider addrs (?key c)"
    let ?r = "\<lparr>rna_adapter_id = ?key c, rna_address = a\<rparr>"
    have "?r \<in> set (concat ?groups)" using mem [of ?r] a all by simp
    then obtain c' where c': "c' \<in> set ?groups" "?r \<in> set c'" by auto
    have "?key c = ?key c'" using key [OF c'] by simp
    then have "c = c'" by (rule inj_onD [OF inj _ c c'(1)])
    then show "a \<in> set (map rna_address c)" using c'(2) by force
  qed
  have "set (map ?key ?groups) = adapter_ids dapi provider addrs"
  proof (rule Set.set_eqI, rule iffI)
    fix i assume "i \<in> set (map ?key ?groups)"
    then obtain c where c: "c \<in> set ?groups" "i = ?key c" by auto
    then have "c \<noteq> []" using G(1) unfolding uniform_chunk_def by blast
    then show "i \<in> adapter_ids dapi provider addrs" using group [OF c(1)] c(2) by (auto simp: adapter_ids_def)
  next
    fix i assume "i \<in> adapter_ids dapi provider addrs"
    then obtain a where a: "a \<in> adapter_addresses dapi provider addrs i" by (auto simp: adapter_ids_def)
    let ?r = "\<lparr>rna_adapter_id = i, rna_address = a\<rparr>"
    have "?r \<in> set (concat ?groups)" using mem [of ?r] a all by simp
    then obtain c where c: "c \<in> set ?groups" "?r \<in> set c" by auto
    then show "i \<in> set (map ?key ?groups)" using key [OF c] by auto
  qed
  then show "map ?key ?groups = sorted_list_of_set (adapter_ids dapi provider addrs)"
    using srt by (metis sorted_list_of_set.idem_if_sorted_distinct strict_sorted_iff)
  show "c \<in> set ?groups \<Longrightarrow> set (map rna_address c) = adapter_addresses dapi provider addrs (rna_adapter_id (hd c))"
    using group by simp
qed

lemma kept_of_tries:
  assumes "length cs = length ts"
  shows "map snd (filter (\<lambda>tr. fst tr \<noteq> None) ts) = map (\<lambda>(i, seeds, tested, kept). kept)
    (filter (\<lambda>(i, seeds, tested, kept). tested \<noteq> None) (map2 (\<lambda>c tr. (f c, g c, tr)) cs ts))"
  using assms by (induction cs ts rule: list_induct2) auto

text \<open>
  C24. Discovery makes one device per physical adapter, whatever order the sort leaves equal keys in. It tries
  every adapter id that a supported local address resolved to, in increasing order and each once, with all the
  addresses of that id: the adapter is opened, and if that succeeds it is opened again and the list of
  devices gets the result, which is a null pointer if only the second opening failed. No other device is
  listed, and none twice. A device that is present has an adapter, a protection domain, an overlapped handle and
  at least one address, of each family the first of its list. Every object that was opened belongs
  to one of these devices, or was released.
\<close>

theorem nd_discovery_one_device_per_adapter:
  assumes "ndd_law live api dapi" and "sort_law srt" and "finite (live n)"
    and "discover_provider_devices api dapi srt provider n = (devices, n')"
  shows "(\<forall>addrs. enumerate_addr_list dapi provider = Inr addrs \<longrightarrow>
      (\<exists>tries. map fst tries = sorted_list_of_set (adapter_ids dapi provider addrs) \<and>
         devices = map (\<lambda>(i, seeds, tested, kept). kept) (filter (\<lambda>(i, seeds, tested, kept). tested \<noteq> None) tries) \<and>
         (\<forall>(i, seeds, tested, kept) \<in> set tries.
            set seeds = adapter_addresses dapi provider addrs i \<and>
            (\<exists>m. tested = fst (open_device api dapi provider i seeds m)) \<and>
            (\<exists>m. kept = fst (open_device api dapi provider i seeds m)) \<and>
            (\<forall>d. kept = Some d \<longrightarrow> group_device dapi i seeds d)))) \<and>
    (\<forall>ec. enumerate_addr_list dapi provider = Inl ec \<longrightarrow> devices = [] \<and> n' = n) \<and>
    sorted_wrt (<) (map na_adapter_id (present_devices devices)) \<and>
    mset_set (live n') = mset_set (live n) + sum_list (map device_objs devices)"
proof (cases "enumerate_addr_list dapi provider")
  case (Inl ec)
  then show ?thesis using assms(4) by (simp add: discover_provider_devices_def)
next
  case (Inr addrs)
  let ?rs = "resolve_addresses dapi provider addrs"
  let ?f = "open_group api dapi provider" and ?groups = "adapter_groups srt ?rs"
  note G = adapter_groups_facts [OF assms(2), of ?rs]
  have run: "view_collect ?f (\<lambda>device. device \<noteq> None) (drop_device api) ?groups n = (devices, n')"
    using assms(4) Inr by (simp add: discover_provider_devices_def)
  obtain cs where cs: "subseq cs ?groups" "list_all2 (\<lambda>c y. \<exists>m m'. ?f c m = (y, m')) cs devices"
    using view_collect_results [OF run] by blast
  have dev: "group_device dapi (rna_adapter_id (hd c)) (map rna_address c) d"
    if "\<exists>m m'. ?f c m = (Some d, m')" for c d using that open_group_outcome(2) [OF assms(1)] by blast
  have "subseq (map na_adapter_id (present_devices devices)) (map (rna_adapter_id \<circ> hd) cs)"
    by (rule collected_keys [OF cs(2)]) (drule dev, simp add: group_device_def)
  then have "subseq (map na_adapter_id (present_devices devices)) (chunk_keys rna_adapter_id ?groups)"
    unfolding chunk_keys_def using subseq_map [OF cs(1)] by (rule subseq_order.order_trans)
  moreover obtain ts where ts: "list_all2 (\<lambda>c (t, r). (\<exists>m. t = fst (?f c m)) \<and> (\<exists>m. r = fst (?f c m))) ?groups ts"
    and kept: "devices = map snd (filter (\<lambda>tr. fst tr \<noteq> None) ts)"
    using view_collect_tries [OF run] by blast
  let ?tries = "map2 (\<lambda>c tr. (rna_adapter_id (hd c), map rna_address c, tr)) ?groups ts"
  have len: "length ?groups = length ts" using ts by (rule list_all2_lengthD)
  have "map fst ?tries = map (rna_adapter_id \<circ> hd) (map fst (zip ?groups ts))" by auto
  then have "map fst ?tries = sorted_list_of_set (adapter_ids dapi provider addrs)"
    using adapter_groups_complete(1) [OF assms(2)] len by (simp add: map_fst_zip)
  moreover have "devices = map (\<lambda>(i, seeds, tested, kept). kept)
      (filter (\<lambda>(i, seeds, tested, kept). tested \<noteq> None) ?tries)"
    unfolding kept by (rule kept_of_tries [OF len])
  moreover have "set seeds = adapter_addresses dapi provider addrs i \<and>
      (\<exists>m. tested = fst (open_device api dapi provider i seeds m)) \<and>
      (\<exists>m. kept = fst (open_device api dapi provider i seeds m)) \<and>
      (\<forall>d. kept = Some d \<longrightarrow> group_device dapi i seeds d)"
    if t: "(i, seeds, tested, kept) \<in> set ?tries" for i seeds tested kept
  proof -
    obtain c where c: "(c, tested, kept) \<in> set (zip ?groups ts)" "i = rna_adapter_id (hd c)" "seeds = map rna_address c"
      using t by auto
    have f: "fst (?f c m) = fst (open_device api dapi provider i seeds m)" for m
      by (simp add: open_group_def c(2,3) case_prod_beta)
    have "c \<in> set ?groups" using c(1) by (rule set_zip_leftD)
    moreover have r: "(\<exists>m. tested = fst (?f c m)) \<and> (\<exists>m. kept = fst (?f c m))"
      using ts c(1) by (auto simp: list_all2_iff)
    moreover have "group_device dapi i seeds d" if "kept = Some d" for d
      using r that dev [of c d] c(2,3) by (metis prod.collapse)
    ultimately show ?thesis
      using adapter_groups_complete(2) [OF assms(2), of c dapi provider addrs] f c(2,3) by auto
  qed
  ultimately have tries: "\<exists>tries. map fst tries = sorted_list_of_set (adapter_ids dapi provider addrs) \<and>
      devices = map (\<lambda>(i, seeds, tested, kept). kept) (filter (\<lambda>(i, seeds, tested, kept). tested \<noteq> None) tries) \<and>
      (\<forall>(i, seeds, tested, kept) \<in> set tries. set seeds = adapter_addresses dapi provider addrs i \<and>
         (\<exists>m. tested = fst (open_device api dapi provider i seeds m)) \<and>
         (\<exists>m. kept = fst (open_device api dapi provider i seeds m)) \<and>
         (\<forall>d. kept = Some d \<longrightarrow> group_device dapi i seeds d))"
    and keys: "subseq (map na_adapter_id (present_devices devices)) (chunk_keys rna_adapter_id ?groups)"
    by blast+
  have "adds_objs live (sum_list (map device_objs devices)) n n'"
    using view_collect_objs [OF _ _ run, of live device_objs] open_group_outcome(1) [OF assms(1)]
      adds_objs_drop [OF ndd_lawD(1) [OF assms(1)]] by blast
  then show ?thesis
    using sorted_wrt_subseq [OF keys G(2)] Inr assms(3) tries by (auto simp: adds_objs_def)
qed

text \<open>A count of the calls of \<open>OpenAdapter\<close>.\<close>

definition open_count_law :: "('n \<Rightarrow> nat) \<Rightarrow> 'n nd_api \<Rightarrow> 'n ndd_api \<Rightarrow> bool" where
  "open_count_law opens api dapi \<longleftrightarrow>
     (\<forall>n p i. opens (snd (snd (ndd_open_adapter dapi n p i))) = Suc (opens n)) \<and>
     (\<forall>n. opens (snd (ndd_make_pd dapi n)) = opens n) \<and>
     (\<forall>n a. opens (snd (snd (nda_overlapped_file api n a))) = opens n) \<and>
     (\<forall>n h. opens (nda_close_handle api n h) = opens n) \<and> (\<forall>n c. opens (nda_release api n c) = opens n)"

lemma open_count_calls:
  assumes "open_count_law opens api dapi"
  shows "opens (drop_device api d n) = opens n"
    "seeds \<noteq> [] \<Longrightarrow> open_device api dapi p i seeds n = (device, ec, n') \<Longrightarrow> opens n' = Suc (opens n)"
proof -
  have L: "opens (snd (snd (ndd_open_adapter dapi n p i))) = Suc (opens n)" "opens (snd (ndd_make_pd dapi n)) = opens n"
    "opens (snd (snd (nda_overlapped_file api n a))) = opens n" "opens (nda_close_handle api n h) = opens n"
    "opens (nda_release api n a) = opens n" for n p i a h
    using assms by (simp_all add: open_count_law_def)
  show drp: "opens (drop_device api d n) = opens n" for d n
    by (simp add: drop_device_def Let_def L split: option.split)
  have filec: "opens (snd (snd (create_overlapped_file api a n))) = opens n" for a n
    using L(3) [of n a] by (auto simp: create_overlapped_file_def split: prod.split)
  have create: "opens (snd (snd (nd_create_device api dapi p addr i n))) = Suc (opens n)" for addr n
  proof -
    obtain hr a n1 where o: "ndd_open_adapter dapi n p i = (hr, a, n1)" by (metis prod_cases3)
    have "opens n1 = Suc (opens n)" using L(1) [of n p i] o by simp
    then show ?thesis using L(2,5) filec
      by (simp add: nd_create_device_def o case_prod_beta Let_def)
  qed
  show "seeds \<noteq> [] \<Longrightarrow> open_device api dapi p i seeds n = (device, ec, n') \<Longrightarrow> opens n' = Suc (opens n)"
  proof (cases seeds)
    case (Cons front rest)
    obtain dev e n1 where c: "nd_create_device api dapi p front i n = (dev, e, n1)" by (metis prod_cases3)
    have "opens n1 = Suc (opens n)" using create [of front n] c by simp
    moreover assume "open_device api dapi p i seeds n = (device, ec, n')"
    ultimately show ?thesis using c drp
      by (auto simp: open_device_def Cons Let_def split: if_splits option.splits)
  qed simp
qed

text \<open>
  Discovery opens every adapter it keeps twice: the adapter ids of a provider are opened once each
  for the test of the filter, and the devices that pass are opened again to be stored, so the number of
  calls of OpenAdapter is the number of adapters plus the number of devices.
\<close>

theorem nd_discovery_opens_twice:
  assumes "open_count_law opens api dapi" and "sort_law srt"
    and "enumerate_addr_list dapi provider = Inr addrs"
    and "discover_provider_devices api dapi srt provider n = (devices, n')"
  shows "opens n' = opens n + length (adapter_groups srt (resolve_addresses dapi provider addrs)) + length devices"
proof -
  let ?groups = "adapter_groups srt (resolve_addresses dapi provider addrs)"
  have run: "view_collect (open_group api dapi provider) (\<lambda>device. device \<noteq> None) (drop_device api) ?groups n = (devices, n')"
    using assms(3,4) by (simp add: discover_provider_devices_def)
  show ?thesis
  proof (rule view_collect_calls [OF _ _ run])
    fix c m y m' assume "c \<in> set ?groups" and r: "open_group api dapi provider c m = (y, m')"
    then have "map rna_address c \<noteq> []" using adapter_groups_facts(1) [OF assms(2)] by (auto simp: uniform_chunk_def)
    from open_count_calls(2) [OF assms(1) this] r show "opens m' = Suc (opens m)"
      by (auto simp: open_group_def split: prod.splits)
  qed (rule open_count_calls(1) [OF assms(1)])
qed

subsection \<open>Selection\<close>

text \<open>A constraint of 0 never rejects, so the comparison is the compatibility of the configuration.\<close>

lemma is_valid_adapter_config_iff:
  "is_valid_adapter_config (Some d) config \<longleftrightarrow> nd_is_config_compatible config (na_info d)"
proof -
  have z: "\<not> x > y \<longleftrightarrow> x = 0 \<or> x \<le> y" for x y :: u32 by (auto simp: not_less)
  show ?thesis
    unfolding is_valid_adapter_config_def nd_is_config_compatible_def Let_def option.case
    by (simp only: z [symmetric] if_bool_eq_conj) blast
qed

lemma nd_first_device_find:
  "nd_first_device ds config = find (\<lambda>d. nd_is_config_compatible config (na_info d)) (present_devices ds)"
proof (induction ds)
  case (Cons d ds)
  then show ?case
    by (cases d) (simp add: is_valid_adapter_config_def, simp add: is_valid_adapter_config_iff)
qed simp

lemma nd_get_first_available_device_find:
  "nd_get_first_available_device ps config =
     find (\<lambda>d. nd_is_config_compatible config (na_info d)) (concat (map (present_devices \<circ> np_devices) ps))"
proof (induction ps)
  case (Cons p ps)
  have app: "find P (xs @ ys) = (case find P xs of None \<Rightarrow> find P ys | Some x \<Rightarrow> Some x)" for P :: "nd_adapter \<Rightarrow> bool" and xs ys
    by (induction xs) simp_all
  show ?case using Cons by (simp add: nd_first_device_find app split: option.split)
qed simp

subsection \<open>An example provider\<close>

text \<open>
  A host with one provider and three addresses on two adapters, the IPv4 and the second IPv6 address on
  adapter 7. The state is a counter of objects, the objects alive and the number of opened adapters;
  \<open>OpenAdapter\<close> fails after \<open>limit\<close> calls.
\<close>

record nd_host =
  nho_next :: ptr
  nho_live :: "ptr list"
  nho_opens :: nat

definition nd_host_alloc :: "nd_host \<Rightarrow> int \<times> ptr \<times> nd_host" where
  "nd_host_alloc h =
     (if is_closable_handle (nho_next h) \<and> nho_next h \<notin> set (nho_live h)
      then (ND_SUCCESS, nho_next h, h\<lparr>nho_next := nho_next h + 1, nho_live := nho_next h # nho_live h\<rparr>)
      else (- 1, nullptr, h))"

definition nd_host_free :: "nd_host \<Rightarrow> ptr \<Rightarrow> nd_host" where
  "nd_host_free h x = h\<lparr>nho_live := filter (\<lambda>y. y \<noteq> x) (nho_live h)\<rparr>"

definition nd_host_api :: "nd_host nd_api" where
  "nd_host_api =
     \<lparr>nda_overlapped_file = \<lambda>h a. nd_host_alloc h, nda_close_handle = nd_host_free,
      nda_create_connector = \<lambda>h a f. nd_host_alloc h, nda_create_listener = \<lambda>h a f. nd_host_alloc h,
      nda_release = nd_host_free, nda_bind = \<lambda>h c e. (ND_SUCCESS, h), nda_listen = \<lambda>h l b. (ND_SUCCESS, h),
      nda_connect = \<lambda>h c q e i z pd len. (ND_PENDING, h), nda_accept = \<lambda>h c q i z pd len. (ND_PENDING, h),
      nda_complete_connect = \<lambda>h c. (ND_SUCCESS, h), nda_disconnect = \<lambda>h c. (ND_PENDING, h),
      nda_notify_disconnect = \<lambda>h c. (ND_PENDING, h), nda_get_private_data = \<lambda>h c cap. (ND_SUCCESS, [], 0),
      nda_get_connection_request = \<lambda>h l c. (ND_PENDING, h), nda_register_handle = \<lambda>h. no_error\<rparr>"

definition nd_host_addrs :: "socket_address list" where
  "nd_host_addrs = [(SA_in 1, 16), (SA_in6 5, 28), (SA_other 9, 16), (SA_in6 6, 28)]"

definition nd_host_dapi :: "nat \<Rightarrow> nd_host ndd_api" where
  "nd_host_dapi limit =
     \<lparr>ndd_ndver = 2, ndd_proto_info_size = 628, ndd_enum_protocols_len = (- 1, 628, 10055),
      ndd_enum_protocols = \<lambda>k. (1, [\<lparr>dwServiceFlags1 = 142, iAddressFamily = 2, iSocketType = - 1,
        iProtocol = 0, iProtocolMaxOffset = 0, iVersion = 2, ProviderId = 4\<rparr>], 0),
      ndd_provider_path_len = \<lambda>g. (- 1, 3, 10014), ndd_provider_path = \<lambda>g k. (0, ''nd.dll'', 0),
      ndd_expand_len = \<lambda>p. (7, 0), ndd_expand = \<lambda>p k. (7, ''nd.dll'', 0),
      ndd_load_library = \<lambda>h p. (2, 0, h), ndd_free_library = \<lambda>h m. h,
      ndd_get_proc_address = \<lambda>m f. (3, 0), ndd_class_object = \<lambda>h f g. (0, 4, h),
      ndd_create_instance = \<lambda>h f. (0, 5, h), ndd_provider_addr_size = \<lambda>p. 128,
      ndd_provider_addrs = \<lambda>p. (ND_SUCCESS, nd_host_addrs), ndd_malloc = \<lambda>k. True,
      ndd_resolve_address = \<lambda>p a. (ND_SUCCESS, if nsa_addr a = SA_in6 5 then 3 else 7),
      ndd_open_adapter = \<lambda>h p i.
        (let h' = h\<lparr>nho_opens := Suc (nho_opens h)\<rparr>
         in if nho_opens h < limit then nd_host_alloc h' else (- 1, nullptr, h')),
      ndd_query = \<lambda>a. (ND_SUCCESS, nd_example_caps), ndd_adapter_addr_size = \<lambda>a. 0,
      ndd_adapter_addrs = \<lambda>a. (ND_SUCCESS, []), ndd_address_string_len = \<lambda>a. (0, 0, 0),
      ndd_address_string = \<lambda>a k. (0, [], 0), ndd_multi_byte_len = \<lambda>s. (0, 0),
      ndd_multi_byte = \<lambda>s k. (0, [], 0), ndd_make_pd = \<lambda>h. (11, h)\<rparr>"

definition nd_host_start :: nd_host where
  "nd_host_start = \<lparr>nho_next = 16, nho_live = [], nho_opens = 0\<rparr>"

definition nd_host_live :: "nd_host \<Rightarrow> ptr set" where
  "nd_host_live h = set (nho_live h)"

definition nd_host_sort :: nd_sort where
  "nd_host_sort key xs = sort_key key xs"

lemma nd_host_laws:
  "ndd_law nd_host_live nd_host_api (nd_host_dapi limit)" "sort_law nd_host_sort"
  "open_count_law nho_opens nd_host_api (nd_host_dapi limit)"
proof -
  show "ndd_law nd_host_live nd_host_api (nd_host_dapi limit)"
    by (auto simp: ndd_law_def nd_handle_law_def nd_host_api_def nd_host_dapi_def nd_host_alloc_def nd_host_free_def
        nd_host_live_def failed_def is_closable_handle_def Let_def split: if_splits)
  show "sort_law nd_host_sort" by (simp add: sort_law_def nd_host_sort_def)
  show "open_count_law nho_opens nd_host_api (nd_host_dapi limit)"
    by (simp add: open_count_law_def nd_host_api_def nd_host_dapi_def nd_host_alloc_def nd_host_free_def Let_def)
qed

abbreviation nd_host_devices :: "nat \<Rightarrow> nd_adapter option list \<times> nd_host" where
  "nd_host_devices limit \<equiv>
     discover_provider_devices nd_host_api (nd_host_dapi limit) nd_host_sort 5 nd_host_start"

text \<open>Two devices, the second with an address of each family.\<close>

lemma nd_host_discovery:
  "map (map_option (\<lambda>d. (na_adapter_id d, na_v4 d, na_v6 d))) (fst (nd_host_devices 9)) =
     [Some (3, None, Some (V6 5)), Some (7, Some (V4 1), Some (V6 6))]"
  by code_simp

text \<open>When the second open of an adapter fails, the list of devices holds a null pointer.\<close>

lemma nd_discovery_null_device: "map (map_option na_adapter_id) (fst (nd_host_devices 3)) = [Some 3, None]"
  by code_simp

theorem nd_discovery_one_device_per_adapter_witness:
  "sorted_wrt (<) (map na_adapter_id (present_devices (fst (nd_host_devices 9)))) \<and>
   mset_set (nd_host_live (snd (nd_host_devices 9))) = sum_list (map device_objs (fst (nd_host_devices 9)))"
proof -
  have "finite (nd_host_live nd_host_start)" "mset_set (nd_host_live nd_host_start) = {#}"
    by (simp_all add: nd_host_live_def nd_host_start_def)
  then show ?thesis
    using nd_discovery_one_device_per_adapter [OF nd_host_laws(1,2), of nd_host_start 9 5
        "fst (nd_host_devices 9)" "snd (nd_host_devices 9)"] by simp
qed

theorem nd_discovery_opens_twice_witness: "nho_opens (snd (nd_host_devices 9)) = 4"
proof -
  let ?addrs = "copy_socket_address_list nd_host_addrs"
  have e: "enumerate_addr_list (nd_host_dapi 9) 5 = Inr ?addrs"
    by (simp add: enumerate_addr_list_def read_addr_list_def nd_host_dapi_def nd_host_addrs_def)
  have "length (adapter_groups nd_host_sort (resolve_addresses (nd_host_dapi 9) 5 ?addrs)) = 2"
    "length (fst (nd_host_devices 9)) = 2" "nho_opens nd_host_start = 0" by code_simp+
  then show ?thesis
    using nd_discovery_opens_twice [OF nd_host_laws(3,2) e, of nd_host_start "fst (nd_host_devices 9)"
        "snd (nd_host_devices 9)"] by simp
qed

lemma nd_host_manager:
  "fst (get_providers nd_host_api (nd_host_dapi 9) nd_host_start) = no_error \<and>
   map np_provider (fst (snd (get_providers nd_host_api (nd_host_dapi 9) nd_host_start))) = [5]"
  by code_simp

end
