(* ===== verification/ND_Memory.thy ===== *)
theory ND_Memory
  imports ND_Provider RDMA_Buffer
begin

unbundle bit_operations_syntax

text \<open>
  The lifetime of a NetworkDirect memory region: \<open>allocate_pd\<close>, \<open>to_native_access_flag\<close>, \<open>reg_mr\<close> and
  \<open>dereg_mr\<close> of \<open>nd/detail/impl/nd_ops_verbs.ipp\<close> and the constructor, destructor and moves of
  \<open>nd_memory_region\<close> (\<open>nd/nd_mr.hpp\<close>, \<open>nd/impl/nd_mr.ipp\<close>).

  The provider's calls are the fields of \<open>nd_mr_api\<close>. A region is a COM object with a count of
  references; a \<open>ComPtr\<close> built from a raw pointer takes a reference of its own, moving one transfers it,
  assigning or destroying one releases what it held.
\<close>

record 'h nd_mr_api =
  nmr_create :: "'h \<Rightarrow> ptr \<Rightarrow> int \<times> ptr \<times> 'h"
  nmr_register :: "'h \<Rightarrow> ptr \<Rightarrow> ptr \<Rightarrow> size_t \<Rightarrow> u32 \<Rightarrow> int \<times> 'h"
  nmr_deregister :: "'h \<Rightarrow> ptr \<Rightarrow> int \<times> 'h"
  nmr_overlapped_result :: "'h \<Rightarrow> ptr \<Rightarrow> int \<times> 'h"
  nmr_add_ref :: "'h \<Rightarrow> ptr \<Rightarrow> 'h"
  nmr_release :: "'h \<Rightarrow> ptr \<Rightarrow> 'h"
  nmr_local_token :: "'h \<Rightarrow> ptr \<Rightarrow> u32"
  nmr_remote_token :: "'h \<Rightarrow> ptr \<Rightarrow> u32"

text \<open>\<open>allocate_pd\<close>: a null context returns no protection domain and no error.\<close>

definition allocate_pd :: "'n nd_api \<Rightarrow> ptr \<Rightarrow> 'n \<Rightarrow> (ptr \<times> ptr) option \<times> error_code \<times> 'n" where
  "allocate_pd api context n =
     (if context = nullptr then (None, no_error, n)
      else case create_overlapped_file api context n of (handle, ec, n1) \<Rightarrow>
        if is_error ec then (None, ec, n1) else (Some (context, handle), ec, n1))"

text \<open>The flags of \<open>ndspi.h\<close> are arguments (\<open>LW\<close> local write, \<open>RW\<close> remote write, \<open>RR\<close> remote read).\<close>

definition to_native_access_flag :: "u32 \<Rightarrow> u32 \<Rightarrow> u32 \<Rightarrow> mr_access_flag_t \<Rightarrow> u32 \<Rightarrow> u32" where
  "to_native_access_flag LW RW RR flag extra_flag =
     (case flag of
        mr_access_local_write \<Rightarrow> LW OR extra_flag
      | mr_access_remote_read \<Rightarrow> LW OR RR OR extra_flag
      | mr_access_remote_write \<Rightarrow> LW OR RW OR RR OR extra_flag)"

definition nd_reg_mr ::
  "'h nd_mr_api \<Rightarrow> u32 \<Rightarrow> u32 \<Rightarrow> u32 \<Rightarrow> ptr \<Rightarrow> ptr \<Rightarrow> size_t \<Rightarrow> mr_access_flag_t \<Rightarrow> u32 \<Rightarrow> 'h
   \<Rightarrow> ptr \<times> error_code \<times> 'h" where
  "nd_reg_mr api LW RW RR pd addr len flag extra_flag h =
     (case nmr_create api h pd of (hr, mr, h1) \<Rightarrow>
        if hr \<noteq> ND_SUCCESS
        then (nullptr, make_nd_error_code hr, if mr \<noteq> nullptr then nmr_release api h1 mr else h1)
        else case nmr_register api h1 mr addr len (to_native_access_flag LW RW RR flag extra_flag) of
          (hr, h2) \<Rightarrow>
            case (if hr = ND_PENDING then nmr_overlapped_result api h2 mr else (hr, h2)) of
              (hr, h3) \<Rightarrow>
                if hr \<noteq> ND_SUCCESS then (nullptr, make_nd_error_code hr, nmr_release api h3 mr)
                else (mr, no_error, h3))"

text \<open>The code passed in is kept when the call succeeds.\<close>

definition nd_dereg_mr :: "'h nd_mr_api \<Rightarrow> ptr \<Rightarrow> error_code \<Rightarrow> 'h \<Rightarrow> int \<times> error_code \<times> 'h" where
  "nd_dereg_mr api mr ec h =
     (case nmr_deregister api h mr of (hr, h1) \<Rightarrow>
        if hr = ND_SUCCESS then (hr, ec, h1)
        else case (if hr = ND_PENDING then nmr_overlapped_result api h1 mr else (hr, h1)) of
          (hr, h2) \<Rightarrow> (hr, make_nd_error_code hr, h2))"

subsection \<open>The region object\<close>

record nd_region_object =
  nro_mr :: ptr
  nro_addr :: ptr
  nro_length :: size_t
  nro_flag :: mr_access_flag_t
  nro_extra_flag :: u32

text \<open>\<open>throw_reg_mr\<close>: the pointer the registration detached is wrapped, which takes a second reference.\<close>

definition nd_throw_reg_mr ::
  "'h nd_mr_api \<Rightarrow> u32 \<Rightarrow> u32 \<Rightarrow> u32 \<Rightarrow> nd_adapter option \<Rightarrow> ptr \<Rightarrow> size_t \<Rightarrow> mr_access_flag_t \<Rightarrow> u32 \<Rightarrow> 'h
   \<Rightarrow> (error_code + ptr) \<times> 'h" where
  "nd_throw_reg_mr api LW RW RR device addr len flag extra_flag h =
     (case device of
        None \<Rightarrow> (Inl (make_error_code invalid_device), h)
      | Some d \<Rightarrow>
          (case nd_reg_mr api LW RW RR (na_pd d) addr len flag extra_flag h of (mr, ec, h1) \<Rightarrow>
             let h2 = (if mr \<noteq> nullptr then nmr_add_ref api h1 mr else h1) in
             if is_error ec then (Inl ec, if mr \<noteq> nullptr then nmr_release api h2 mr else h2)
             else (Inr mr, h2)))"

definition nd_memory_region_ctor ::
  "'h nd_mr_api \<Rightarrow> u32 \<Rightarrow> u32 \<Rightarrow> u32 \<Rightarrow> nd_adapter option \<Rightarrow> ptr \<Rightarrow> size_t \<Rightarrow> mr_access_flag_t \<Rightarrow> u32 \<Rightarrow> 'h
   \<Rightarrow> (error_code + nd_region_object) \<times> 'h" where
  "nd_memory_region_ctor api LW RW RR device addr len flag extra_flag h =
     (case nd_throw_reg_mr api LW RW RR device addr len flag extra_flag h of
        (Inl ec, h1) \<Rightarrow> (Inl ec, h1)
      | (Inr mr, h1) \<Rightarrow>
          (Inr \<lparr>nro_mr = mr, nro_addr = addr, nro_length = len, nro_flag = flag, nro_extra_flag = extra_flag\<rparr>, h1))"

text \<open>The destructor deregisters, then the member releases its reference; a failure is only reported.\<close>

definition nd_memory_region_dtor :: "'h nd_mr_api \<Rightarrow> nd_region_object \<Rightarrow> 'h \<Rightarrow> 'h" where
  "nd_memory_region_dtor api r h =
     (if nro_mr r = nullptr then h
      else case nd_dereg_mr api (nro_mr r) no_error h of (hr, ec, h1) \<Rightarrow> nmr_release api h1 (nro_mr r))"

definition nd_memory_region_move :: "nd_region_object \<Rightarrow> nd_region_object \<times> nd_region_object" where
  "nd_memory_region_move other = (other, other\<lparr>nro_mr := nullptr\<rparr>)"

text \<open>The defaulted assignment: the pointer the target held is released, nothing is deregistered.\<close>

definition nd_memory_region_assign ::
  "'h nd_mr_api \<Rightarrow> nd_region_object \<Rightarrow> nd_region_object \<Rightarrow> 'h \<Rightarrow> nd_region_object \<times> nd_region_object \<times> 'h" where
  "nd_memory_region_assign api target other h =
     (other, other\<lparr>nro_mr := nullptr\<rparr>,
      if nro_mr target \<noteq> nullptr then nmr_release api h (nro_mr target) else h)"

text \<open>The region of the buffer model: the keys are read from the object.\<close>

definition nd_region_view :: "'h nd_mr_api \<Rightarrow> 'h \<Rightarrow> nd_region_object \<Rightarrow> nd_memory_region" where
  "nd_region_view api h r =
     \<lparr>nd_mr = (if nro_mr r = nullptr then None
               else Some \<lparr>lkey = nmr_local_token api h (nro_mr r), rkey = nmr_remote_token api h (nro_mr r)\<rparr>),
      nd_mr_addr = nro_addr r, nd_mr_length = nro_length r, nd_mr_flag = nro_flag r,
      nd_mr_extra_flag = nro_extra_flag r\<rparr>"

subsection \<open>References and registrations\<close>

text \<open>
  A new region has one reference and is not registered. \<open>AddRef\<close> and \<open>Release\<close> count; \<open>Register\<close> and
  \<open>Deregister\<close> change the registration when they succeed, at once or when the pending call ends:
  \<open>reg\<close> is the registration once pending calls have ended.
\<close>

definition nd_mr_law :: "('h \<Rightarrow> ptr \<Rightarrow> nat) \<Rightarrow> ('h \<Rightarrow> ptr \<Rightarrow> bool) \<Rightarrow> 'h nd_mr_api \<Rightarrow> bool" where
  "nd_mr_law refs reg api \<longleftrightarrow>
     (\<forall>h pd hr mr h'. nmr_create api h pd = (hr, mr, h') \<longrightarrow>
        (if hr = ND_SUCCESS then mr \<noteq> nullptr \<and> refs h mr = 0 \<and> refs h' = (refs h)(mr := 1) \<and> reg h' = (reg h)(mr := False)
         else mr = nullptr \<and> refs h' = refs h \<and> reg h' = reg h)) \<and>
     (\<forall>h mr a n f hr h'. nmr_register api h mr a n f = (hr, h') \<longrightarrow>
        refs h' = refs h \<and> (hr \<noteq> ND_PENDING \<longrightarrow> reg h' = (if hr = ND_SUCCESS then (reg h)(mr := True) else reg h)) \<and>
        (hr = ND_PENDING \<longrightarrow> (\<forall>hr' h''. nmr_overlapped_result api h' mr = (hr', h'') \<longrightarrow>
           refs h'' = refs h \<and> reg h'' = (if hr' = ND_SUCCESS then (reg h)(mr := True) else reg h)))) \<and>
     (\<forall>h mr hr h'. nmr_deregister api h mr = (hr, h') \<longrightarrow>
        refs h' = refs h \<and> (hr \<noteq> ND_PENDING \<longrightarrow> reg h' = (if hr = ND_SUCCESS then (reg h)(mr := False) else reg h)) \<and>
        (hr = ND_PENDING \<longrightarrow> (\<forall>hr' h''. nmr_overlapped_result api h' mr = (hr', h'') \<longrightarrow>
           refs h'' = refs h \<and> reg h'' = (if hr' = ND_SUCCESS then (reg h)(mr := False) else reg h)))) \<and>
     (\<forall>h mr. refs (nmr_add_ref api h mr) = (refs h)(mr := refs h mr + 1) \<and> reg (nmr_add_ref api h mr) = reg h) \<and>
     (\<forall>h mr. refs (nmr_release api h mr) = (refs h)(mr := refs h mr - 1) \<and> reg (nmr_release api h mr) = reg h)"

lemmas nd_mr_lawD =
  nd_mr_law_def [THEN iffD1, THEN conjunct1, rule_format]
  nd_mr_law_def [THEN iffD1, THEN conjunct2, THEN conjunct1, rule_format]
  nd_mr_law_def [THEN iffD1, THEN conjunct2, THEN conjunct2, THEN conjunct1, rule_format]
  nd_mr_law_def [THEN iffD1, THEN conjunct2, THEN conjunct2, THEN conjunct2, THEN conjunct1, rule_format]
  nd_mr_law_def [THEN iffD1, THEN conjunct2, THEN conjunct2, THEN conjunct2, THEN conjunct2, rule_format]

lemma to_native_access_flag_extra:
  "to_native_access_flag LW RW RR flag extra AND (LW OR extra) = LW OR extra"
  by (cases flag) (auto simp: to_native_access_flag_def bit_eq_iff bit_simps)

lemma nd_reg_mr_outcome:
  assumes law: "nd_mr_law refs reg api" and r: "nd_reg_mr api LW RW RR pd addr len flag extra h = (mr, ec, h')"
  shows "if is_error ec then mr = nullptr \<and> refs h' = refs h \<and> (\<forall>p. refs h p \<noteq> 0 \<longrightarrow> reg h' p = reg h p)
    else mr \<noteq> nullptr \<and> refs h mr = 0 \<and> refs h' = (refs h)(mr := 1) \<and> reg h' = (reg h)(mr := True)"
proof -
  obtain hr0 m h1 where c: "nmr_create api h pd = (hr0, m, h1)" by (metis prod_cases3)
  obtain hr1 h2 where g: "nmr_register api h1 m addr len (to_native_access_flag LW RW RR flag extra) = (hr1, h2)"
    by fastforce
  obtain hr2 h3 where w: "(if hr1 = ND_PENDING then nmr_overlapped_result api h2 m else (hr1, h2)) = (hr2, h3)"
    by fastforce
  note C = nd_mr_lawD(1) [OF law c] and G = nd_mr_lawD(2) [OF law g] and R = nd_mr_lawD(5) [OF law]
  have W: "refs h3 = refs h1 \<and> reg h3 = (if hr2 = ND_SUCCESS then (reg h1)(m := True) else reg h1)"
    using G w by (cases "hr1 = ND_PENDING") auto
  show ?thesis
  proof (cases "hr0 = ND_SUCCESS")
    case False
    then show ?thesis using r c C by (auto simp: nd_reg_mr_def)
  next
    case True
    show ?thesis
    proof (cases "hr2 = ND_SUCCESS")
      case True
      then have "(mr, ec, h') = (m, no_error, h3)" using r c g w \<open>hr0 = ND_SUCCESS\<close> by (simp add: nd_reg_mr_def)
      then show ?thesis using True C W \<open>hr0 = ND_SUCCESS\<close> by simp
    next
      case False
      then have "(mr, ec, h') = (nullptr, make_nd_error_code hr2, nmr_release api h3 m)"
        using r c g w \<open>hr0 = ND_SUCCESS\<close> by (simp add: nd_reg_mr_def)
      moreover have "refs (nmr_release api h3 m) = refs h" using C W R \<open>hr0 = ND_SUCCESS\<close> by (auto simp: fun_eq_iff)
      ultimately show ?thesis using False C W R \<open>hr0 = ND_SUCCESS\<close> by auto
    qed
  qed
qed

lemma nd_memory_region_ctor_outcome:
  assumes law: "nd_mr_law refs reg api"
    and r: "nd_memory_region_ctor api LW RW RR device addr len flag extra h = (res, h')"
  shows "case res of
      Inl ec \<Rightarrow> refs h' = refs h \<and> (\<forall>p. refs h p \<noteq> 0 \<longrightarrow> reg h' p = reg h p)
    | Inr x \<Rightarrow> nro_mr x \<noteq> nullptr \<and> nro_addr x = addr \<and> nro_length x = len \<and> refs h (nro_mr x) = 0 \<and>
        refs h' = (refs h)(nro_mr x := 2) \<and> reg h' = (reg h)(nro_mr x := True)"
proof (cases device)
  case None
  then show ?thesis using r by (auto simp: nd_memory_region_ctor_def nd_throw_reg_mr_def)
next
  case (Some d)
  obtain mr ec h1 where g: "nd_reg_mr api LW RW RR (na_pd d) addr len flag extra h = (mr, ec, h1)"
    by (metis prod_cases3)
  note G = nd_reg_mr_outcome [OF law g] and A = nd_mr_lawD(4) [OF law]
  show ?thesis
  proof (cases "is_error ec")
    case True
    then have "(res, h') = (Inl ec, h1)"
      using r g G Some by (auto simp: nd_memory_region_ctor_def nd_throw_reg_mr_def Let_def)
    then show ?thesis using True G by simp
  next
    case False
    then have "(res, h') = (Inr \<lparr>nro_mr = mr, nro_addr = addr, nro_length = len, nro_flag = flag,
        nro_extra_flag = extra\<rparr>, nmr_add_ref api h1 mr)"
      using r g G Some by (auto simp: nd_memory_region_ctor_def nd_throw_reg_mr_def Let_def)
    then show ?thesis using False G A by (simp add: numeral_2_eq_2)
  qed
qed

lemma nd_memory_region_dtor_outcome:
  assumes law: "nd_mr_law refs reg api"
  shows "refs (nd_memory_region_dtor api x h) =
      (if nro_mr x = nullptr then refs h else (refs h)(nro_mr x := refs h (nro_mr x) - 1))"
    "p \<noteq> nro_mr x \<Longrightarrow> reg (nd_memory_region_dtor api x h) p = reg h p"
    "nro_mr x \<noteq> nullptr \<Longrightarrow> fst (nd_dereg_mr api (nro_mr x) no_error h) = ND_SUCCESS \<Longrightarrow>
       \<not> reg (nd_memory_region_dtor api x h) (nro_mr x)"
proof -
  obtain hr h1 where d: "nmr_deregister api h (nro_mr x) = (hr, h1)" by fastforce
  obtain hr' h2 where w: "(if hr = ND_PENDING then nmr_overlapped_result api h1 (nro_mr x) else (hr, h1)) = (hr', h2)"
    by fastforce
  note D = nd_mr_lawD(3) [OF law d] and R = nd_mr_lawD(5) [OF law]
  have W: "refs h2 = refs h \<and> reg h2 = (if hr' = ND_SUCCESS then (reg h)(nro_mr x := False) else reg h)"
    using D w by (cases "hr = ND_PENDING") auto
  have run: "fst (nd_dereg_mr api (nro_mr x) no_error h) = hr'" "snd (snd (nd_dereg_mr api (nro_mr x) no_error h)) = h2"
    using d w by (auto simp: nd_dereg_mr_def split: if_splits prod.splits)
  have dtor: "nd_memory_region_dtor api x h = (if nro_mr x = nullptr then h else nmr_release api h2 (nro_mr x))"
    using run by (simp add: nd_memory_region_dtor_def case_prod_beta)
  show "refs (nd_memory_region_dtor api x h) =
      (if nro_mr x = nullptr then refs h else (refs h)(nro_mr x := refs h (nro_mr x) - 1))"
    using dtor W R by simp
  show "p \<noteq> nro_mr x \<Longrightarrow> reg (nd_memory_region_dtor api x h) p = reg h p" using dtor W R by auto
  show "nro_mr x \<noteq> nullptr \<Longrightarrow> fst (nd_dereg_mr api (nro_mr x) no_error h) = ND_SUCCESS \<Longrightarrow>
       \<not> reg (nd_memory_region_dtor api x h) (nro_mr x)"
    using dtor W R run(1) by auto
qed

text \<open>
  Constructing a NetworkDirect memory region registers exactly one new region, and destroying it
  deregisters exactly that one; but the pointer the registration hands over is wrapped with a reference
  of its own, so the region starts with two references and one is left after its owner is gone: the
  object is never freed.
\<close>

theorem nd_region_leaks_reference:
  assumes "nd_mr_law refs reg api"
    and "nd_memory_region_ctor api LW RW RR device addr len flag extra h = (Inr x, h1)"
    and "fst (nd_dereg_mr api (nro_mr x) no_error h1) = ND_SUCCESS"
  shows "reg h1 = (reg h)(nro_mr x := True) \<and> refs h (nro_mr x) = 0 \<and> refs h1 (nro_mr x) = 2 \<and>
    reg (nd_memory_region_dtor api x h1) = (reg h)(nro_mr x := False) \<and>
    refs (nd_memory_region_dtor api x h1) = (refs h)(nro_mr x := 1)"
  using nd_memory_region_ctor_outcome [OF assms(1,2)] nd_memory_region_dtor_outcome(1,3) [OF assms(1), of x h1]
    nd_memory_region_dtor_outcome(2) [OF assms(1), of _ x h1] assms(3)
  by (auto simp: fun_eq_iff)

text \<open>
  Assigning a NetworkDirect memory region over another one drops the target's registration without
  deregistering it: the region the target held stays registered, also after both objects are destroyed.
\<close>

theorem nd_region_assign_keeps_registration:
  assumes "nd_mr_law refs reg api" and "reg h (nro_mr target)" and "nro_mr target \<noteq> nullptr"
    and "nro_mr target \<noteq> nro_mr other"
    and "nd_memory_region_assign api target other h = (target', other', h1)"
  shows "nro_mr target' = nro_mr other \<and> nro_mr other' = nullptr \<and> reg h1 (nro_mr target) \<and>
    reg (nd_memory_region_dtor api other' (nd_memory_region_dtor api target' h1)) (nro_mr target)"
proof -
  have a: "target' = other" "other' = other\<lparr>nro_mr := nullptr\<rparr>" "h1 = nmr_release api h (nro_mr target)"
    using assms(3,5) by (auto simp: nd_memory_region_assign_def)
  have "reg h1 (nro_mr target)" using a(3) assms(2) nd_mr_lawD(5) [OF assms(1)] by simp
  moreover have "nd_memory_region_dtor api other' h2 = h2" for h2 using a(2) by (simp add: nd_memory_region_dtor_def)
  ultimately show ?thesis
    using a(1,2) assms(4) nd_memory_region_dtor_outcome(2) [OF assms(1), of "nro_mr target" other h1] by simp
qed

subsection \<open>An example\<close>

text \<open>Regions are numbers; the state counts the next one, the references and the registrations.\<close>

record nd_mr_sim =
  nms_next :: ptr
  nms_refs :: "ptr \<Rightarrow> nat"
  nms_reg :: "ptr \<Rightarrow> bool"

definition nd_mr_sim_api :: "nd_mr_sim nd_mr_api" where
  "nd_mr_sim_api =
     \<lparr>nmr_create = \<lambda>h pd.
        (if nms_next h \<noteq> 0 \<and> nms_refs h (nms_next h) = 0
         then (ND_SUCCESS, nms_next h, h\<lparr>nms_next := nms_next h + 1, nms_refs := (nms_refs h)(nms_next h := 1),
                nms_reg := (nms_reg h)(nms_next h := False)\<rparr>)
         else (- 1, 0, h)),
      nmr_register = \<lambda>h mr a n f. (ND_SUCCESS, h\<lparr>nms_reg := (nms_reg h)(mr := True)\<rparr>),
      nmr_deregister = \<lambda>h mr. (ND_SUCCESS, h\<lparr>nms_reg := (nms_reg h)(mr := False)\<rparr>),
      nmr_overlapped_result = \<lambda>h mr. (ND_SUCCESS, h),
      nmr_add_ref = \<lambda>h mr. h\<lparr>nms_refs := (nms_refs h)(mr := nms_refs h mr + 1)\<rparr>,
      nmr_release = \<lambda>h mr. h\<lparr>nms_refs := (nms_refs h)(mr := nms_refs h mr - 1)\<rparr>,
      nmr_local_token = \<lambda>h mr. 1, nmr_remote_token = \<lambda>h mr. 2\<rparr>"

lemma nd_mr_sim_law: "nd_mr_law nms_refs nms_reg nd_mr_sim_api"
  by (simp add: nd_mr_law_def nd_mr_sim_api_def)

definition nd_mr_sim_start :: nd_mr_sim where
  "nd_mr_sim_start = \<lparr>nms_next = 1, nms_refs = (\<lambda>_. 0), nms_reg = (\<lambda>_. False)\<rparr>"

abbreviation nd_mr_sim_ctor :: "(error_code + nd_region_object) \<times> nd_mr_sim" where
  "nd_mr_sim_ctor \<equiv>
     nd_memory_region_ctor nd_mr_sim_api 1 5 2 (Some nd_example_adapter) 4096 64 mr_access_remote_write 0 nd_mr_sim_start"

abbreviation nd_mr_sim_region :: "ptr \<Rightarrow> nd_region_object" where
  "nd_mr_sim_region mr \<equiv> \<lparr>nro_mr = mr, nro_addr = 4096, nro_length = 64, nro_flag = mr_access_remote_write,
     nro_extra_flag = 0\<rparr>"

theorem nd_region_leaks_reference_witness:
  "\<exists>h1. nd_mr_sim_ctor = (Inr (nd_mr_sim_region 1), h1) \<and>
     nms_refs (nd_memory_region_dtor nd_mr_sim_api (nd_mr_sim_region 1) h1) 1 = 1"
proof -
  have "fst nd_mr_sim_ctor = Inr (nd_mr_sim_region 1)" by code_simp
  then obtain h1 where r: "nd_mr_sim_ctor = (Inr (nd_mr_sim_region 1), h1)" by (cases nd_mr_sim_ctor) simp
  have "fst (nd_dereg_mr nd_mr_sim_api 1 no_error h1) = ND_SUCCESS" by (simp add: nd_dereg_mr_def nd_mr_sim_api_def)
  then show ?thesis using nd_region_leaks_reference [OF nd_mr_sim_law r] r by simp
qed

theorem nd_region_assign_keeps_registration_witness:
  "nms_reg (nd_memory_region_dtor nd_mr_sim_api (nd_mr_sim_region 2)
     (nmr_release nd_mr_sim_api (nd_mr_sim_start\<lparr>nms_refs := (\<lambda>p. if p = 1 \<or> p = 2 then 2 else 0),
        nms_reg := (\<lambda>p. p = 1 \<or> p = 2)\<rparr>) 1)) 1"
proof -
  let ?h = "nd_mr_sim_start\<lparr>nms_refs := (\<lambda>p. if p = 1 \<or> p = 2 then 2 else 0), nms_reg := (\<lambda>p. p = 1 \<or> p = 2)\<rparr>"
  have "nd_memory_region_assign nd_mr_sim_api (nd_mr_sim_region 1) (nd_mr_sim_region 2) ?h =
      (nd_mr_sim_region 2, nd_mr_sim_region 0, nmr_release nd_mr_sim_api ?h 1)"
    by (simp add: nd_memory_region_assign_def)
  from nd_region_assign_keeps_registration [OF nd_mr_sim_law _ _ _ this] show ?thesis
    by (simp add: nd_memory_region_dtor_def)
qed

end
