(* ===== verification/IBV_Memory.thy ===== *)
theory IBV_Memory
  imports IBV_Device RDMA_Buffer
begin

text \<open>
  The lifetime of libibverbs memory regions: \<open>ibv_mr_deleter\<close>, \<open>throw_reg_mr\<close>, the constructor, the
  destructor and the defaulted moves of \<open>ibv_memory_region\<close> (\<open>ibv/ibv_mr.hpp\<close>) over \<open>reg_mr\<close>
  (\<open>ibv/detail/impl/ibv_ops_verbs.ipp\<close>), with the registrations of the adapter as state. In every run of a
  program that constructs, moves, assigns and destroys regions a registration belongs to one region.
\<close>

record 'h ibv_mr_api =
  ima_reg :: "'h \<Rightarrow> ptr \<Rightarrow> ptr \<Rightarrow> size_t \<Rightarrow> i32 \<Rightarrow> ptr \<times> int \<times> 'h"
  ima_dereg :: "'h \<Rightarrow> ptr \<Rightarrow> int \<times> 'h"
  ima_lkey :: "'h \<Rightarrow> ptr \<Rightarrow> u32"
  ima_rkey :: "'h \<Rightarrow> ptr \<Rightarrow> u32"

record ibv_region_object =
  iro_mr :: ptr
  iro_addr :: ptr
  iro_length :: size_t
  iro_flag :: mr_access_flag_t
  iro_extra_flag :: i32

definition ibv_reg_mr_call ::
  "'h ibv_mr_api \<Rightarrow> i32 \<Rightarrow> i32 \<Rightarrow> i32 \<Rightarrow> ptr \<Rightarrow> ptr \<Rightarrow> size_t \<Rightarrow> mr_access_flag_t \<Rightarrow> i32 \<Rightarrow> 'h
   \<Rightarrow> ptr \<times> error_code \<times> 'h" where
  "ibv_reg_mr_call api LW RW RR pd addr len flag extra_flag h =
     (case ima_reg api h pd addr len (reg_mr_access LW RW RR flag extra_flag) of
        (mr, errno, h1) \<Rightarrow>
          if mr = nullptr then (nullptr, last_system_error errno, h1) else (mr, no_error, h1))"

text \<open>The deleter ignores the result.\<close>

definition ibv_mr_deleter :: "'h ibv_mr_api \<Rightarrow> ptr \<Rightarrow> 'h \<Rightarrow> 'h" where
  "ibv_mr_deleter api mr h = (if mr \<noteq> nullptr then snd (ima_dereg api h mr) else h)"

text \<open>\<open>throw_reg_mr\<close>: the result is wrapped before the code is looked at, so it is deleted when it throws.\<close>

definition ibv_throw_reg_mr ::
  "'h ibv_mr_api \<Rightarrow> i32 \<Rightarrow> i32 \<Rightarrow> i32 \<Rightarrow> ibv_device_t option \<Rightarrow> ptr \<Rightarrow> size_t \<Rightarrow> mr_access_flag_t \<Rightarrow> i32 \<Rightarrow> 'h
   \<Rightarrow> (error_code + ptr) \<times> 'h" where
  "ibv_throw_reg_mr api LW RW RR device addr len flag extra_flag h =
     (case device of
        None \<Rightarrow> (Inl (make_error_code invalid_device), h)
      | Some d \<Rightarrow>
          if dev_pd d = nullptr then (Inl (make_error_code invalid_device), h)
          else case ibv_reg_mr_call api LW RW RR (dev_pd d) addr len flag extra_flag h of (mr, ec, h1) \<Rightarrow>
            if is_error ec then (Inl ec, ibv_mr_deleter api mr h1) else (Inr mr, h1))"

definition ibv_region_ctor ::
  "'h ibv_mr_api \<Rightarrow> i32 \<Rightarrow> i32 \<Rightarrow> i32 \<Rightarrow> ibv_device_t option \<Rightarrow> ptr \<Rightarrow> size_t \<Rightarrow> mr_access_flag_t \<Rightarrow> i32 \<Rightarrow> 'h
   \<Rightarrow> (error_code + ibv_region_object) \<times> 'h" where
  "ibv_region_ctor api LW RW RR device addr len flag extra_flag h =
     (case ibv_throw_reg_mr api LW RW RR device addr len flag extra_flag h of
        (Inl ec, h1) \<Rightarrow> (Inl ec, h1)
      | (Inr mr, h1) \<Rightarrow>
          (Inr \<lparr>iro_mr = mr, iro_addr = addr, iro_length = len, iro_flag = flag, iro_extra_flag = extra_flag\<rparr>, h1))"

definition ibv_region_dtor :: "'h ibv_mr_api \<Rightarrow> ibv_region_object \<Rightarrow> 'h \<Rightarrow> 'h" where
  "ibv_region_dtor api r h = ibv_mr_deleter api (iro_mr r) h"

definition ibv_region_move :: "ibv_region_object \<Rightarrow> ibv_region_object \<times> ibv_region_object" where
  "ibv_region_move other = (other, other\<lparr>iro_mr := nullptr\<rparr>)"

text \<open>The assignment of a \<open>unique_ptr\<close> takes the source's pointer and deletes the target's.\<close>

definition ibv_region_assign ::
  "'h ibv_mr_api \<Rightarrow> ibv_region_object \<Rightarrow> ibv_region_object \<Rightarrow> 'h
   \<Rightarrow> ibv_region_object \<times> ibv_region_object \<times> 'h" where
  "ibv_region_assign api target other h =
     (other, other\<lparr>iro_mr := nullptr\<rparr>, ibv_mr_deleter api (iro_mr target) h)"

text \<open>The region of the buffer model: the keys are those of the registration.\<close>

definition ibv_region_view :: "'h ibv_mr_api \<Rightarrow> 'h \<Rightarrow> ibv_region_object \<Rightarrow> ibv_memory_region" where
  "ibv_region_view api h r =
     \<lparr>ibv_mr = (if iro_mr r = nullptr then None
                else Some \<lparr>lkey = ima_lkey api h (iro_mr r), rkey = ima_rkey api h (iro_mr r)\<rparr>),
      ibv_mr_addr = iro_addr r, ibv_mr_length = iro_length r, ibv_mr_flag = iro_flag r,
      ibv_mr_extra_flag = iro_extra_flag r\<rparr>"

subsection \<open>Registrations\<close>

text \<open>
  Documented behaviour: \<open>ibv_reg_mr\<close> returns a new region, or null with \<open>errno\<close> set and nothing registered;
  \<open>ibv_dereg_mr\<close> releases the region (it fails only with memory windows, which the library does not use).
\<close>

definition ibv_mr_law :: "('h \<Rightarrow> ptr set) \<Rightarrow> 'h ibv_mr_api \<Rightarrow> bool" where
  "ibv_mr_law reg api \<longleftrightarrow>
     (\<forall>h pd a n acc mr errno h'. ima_reg api h pd a n acc = (mr, errno, h') \<longrightarrow>
        (if mr = nullptr then errno \<noteq> 0 \<and> reg h' = reg h else mr \<notin> reg h \<and> reg h' = insert mr (reg h))) \<and>
     (\<forall>h mr. reg (snd (ima_dereg api h mr)) = reg h - {mr})"

lemma ibv_mr_lawD:
  assumes "ibv_mr_law reg api"
  shows "ima_reg api h pd a n acc = (mr, errno, h') \<Longrightarrow>
      if mr = nullptr then errno \<noteq> 0 \<and> reg h' = reg h else mr \<notin> reg h \<and> reg h' = insert mr (reg h)"
    "reg (snd (ima_dereg api h mr)) = reg h - {mr}"
  using assms unfolding ibv_mr_law_def by blast+

definition region_objs :: "ibv_region_object \<Rightarrow> ptr multiset" where
  "region_objs r = (if iro_mr r = nullptr then {#} else {#iro_mr r#})"

lemma region_objs_moved [simp]: "region_objs (r\<lparr>iro_mr := nullptr\<rparr>) = {#}"
  by (simp add: region_objs_def)

lemma ibv_region_ctor_outcome:
  assumes law: "ibv_mr_law reg api" and "finite (reg h)"
    and r: "ibv_region_ctor api LW RW RR device a n flag extra h = (res, h')"
  shows "finite (reg h')"
    "mset_set (reg h') = mset_set (reg h) + (case res of Inl ec \<Rightarrow> {#} | Inr x \<Rightarrow> region_objs x)"
    "res = Inr x \<Longrightarrow> iro_mr x \<noteq> nullptr \<and> iro_addr x = a \<and> iro_length x = n"
proof -
  have "finite (reg h') \<and>
      mset_set (reg h') = mset_set (reg h) + (case res of Inl ec \<Rightarrow> {#} | Inr x \<Rightarrow> region_objs x) \<and>
      (\<forall>x. res = Inr x \<longrightarrow> iro_mr x \<noteq> nullptr \<and> iro_addr x = a \<and> iro_length x = n)"
  proof (cases "\<exists>d. device = Some d \<and> dev_pd d \<noteq> nullptr")
    case False
    then show ?thesis using r assms(2)
      by (cases device) (auto simp: ibv_region_ctor_def ibv_throw_reg_mr_def)
  next
    case True
    then obtain d where d: "device = Some d" "dev_pd d \<noteq> nullptr" by blast
    obtain mr errno h1 where c: "ima_reg api h (dev_pd d) a n (reg_mr_access LW RW RR flag extra) = (mr, errno, h1)"
      by (metis prod_cases3)
    note C = ibv_mr_lawD(1) [OF law c]
    show ?thesis
    proof (cases "mr = nullptr")
      case True
      then have "(res, h') = (Inl (last_system_error errno), h1)" using r c d C
        by (simp add: ibv_region_ctor_def ibv_throw_reg_mr_def ibv_reg_mr_call_def ibv_mr_deleter_def)
      then show ?thesis using True C assms(2) by simp
    next
      case False
      then have "(res, h') = (Inr \<lparr>iro_mr = mr, iro_addr = a, iro_length = n, iro_flag = flag, iro_extra_flag = extra\<rparr>, h1)"
        using r c d by (simp add: ibv_region_ctor_def ibv_throw_reg_mr_def ibv_reg_mr_call_def)
      then show ?thesis using False C assms(2) by (simp add: region_objs_def)
    qed
  qed
  then show "finite (reg h')"
    "mset_set (reg h') = mset_set (reg h) + (case res of Inl ec \<Rightarrow> {#} | Inr x \<Rightarrow> region_objs x)"
    "res = Inr x \<Longrightarrow> iro_mr x \<noteq> nullptr \<and> iro_addr x = a \<and> iro_length x = n" by blast+
qed

lemma ibv_mr_deleter_outcome:
  assumes "ibv_mr_law reg api" and "finite (reg h)" and "mset_set (reg h) = M + region_objs r"
  shows "mset_set (reg (ibv_mr_deleter api (iro_mr r) h)) = M" "finite (reg (ibv_mr_deleter api (iro_mr r) h))"
proof -
  have "mset_set (reg h - {iro_mr r}) = mset_set (reg h) - {#iro_mr r#}" if "iro_mr r \<noteq> nullptr"
  proof -
    have "iro_mr r \<in># mset_set (reg h)" using assms(3) that by (simp add: region_objs_def)
    then show ?thesis using assms(2) by (simp add: mset_set_Diff)
  qed
  then show "mset_set (reg (ibv_mr_deleter api (iro_mr r) h)) = M" "finite (reg (ibv_mr_deleter api (iro_mr r) h))"
    using assms ibv_mr_lawD(2) [OF assms(1)] by (simp_all add: ibv_mr_deleter_def region_objs_def)
qed

subsection \<open>Runs\<close>

text \<open>The regions of a program at their addresses.\<close>

record 'h mr_world =
  mrw_h :: 'h
  mrw_region :: "ptr \<Rightarrow> ibv_region_object option"

inductive mr_step :: "'h ibv_mr_api \<Rightarrow> 'h mr_world \<Rightarrow> 'h mr_world \<Rightarrow> bool" for api where
  mr_constructed: "mrw_region w p = None \<Longrightarrow>
    ibv_region_ctor api LW RW RR device a n flag extra (mrw_h w) = (Inr r, h) \<Longrightarrow>
    mr_step api w (w\<lparr>mrw_h := h, mrw_region := (mrw_region w)(p \<mapsto> r)\<rparr>)"
| mr_refused: "ibv_region_ctor api LW RW RR device a n flag extra (mrw_h w) = (Inl ec, h) \<Longrightarrow>
    mr_step api w (w\<lparr>mrw_h := h\<rparr>)"
| mr_destroyed: "mrw_region w p = Some r \<Longrightarrow>
    mr_step api w (w\<lparr>mrw_h := ibv_region_dtor api r (mrw_h w), mrw_region := (mrw_region w)(p := None)\<rparr>)"
| mr_moved: "mrw_region w p = None \<Longrightarrow> mrw_region w q = Some other \<Longrightarrow> ibv_region_move other = (r, other') \<Longrightarrow>
    mr_step api w (w\<lparr>mrw_region := (mrw_region w)(p \<mapsto> r, q \<mapsto> other')\<rparr>)"
| mr_assigned: "mrw_region w p = Some target \<Longrightarrow> mrw_region w q = Some other \<Longrightarrow> p \<noteq> q \<Longrightarrow>
    ibv_region_assign api target other (mrw_h w) = (r, other', h) \<Longrightarrow>
    mr_step api w (w\<lparr>mrw_h := h, mrw_region := (mrw_region w)(p \<mapsto> r, q \<mapsto> other')\<rparr>)"

definition regions_objs :: "(ptr \<Rightarrow> ibv_region_object option) \<Rightarrow> ptr multiset" where
  "regions_objs m = (\<Sum>p\<in>dom m. region_objs (the (m p)))"

definition mr_account :: "('h \<Rightarrow> ptr set) \<Rightarrow> ptr multiset \<Rightarrow> 'h mr_world \<Rightarrow> bool" where
  "mr_account reg X w \<longleftrightarrow> finite (dom (mrw_region w)) \<and> finite (reg (mrw_h w)) \<and>
     mset_set (reg (mrw_h w)) = X + regions_objs (mrw_region w)"

lemma regions_split:
  assumes "finite (dom m)" and "m p = Some r"
  shows "regions_objs m = region_objs r + regions_objs (m(p := None))"
proof -
  have "regions_objs (m(p := None)) = (\<Sum>q\<in>dom m - {p}. region_objs (the (m q)))"
    unfolding regions_objs_def by (rule sum.cong) auto
  then show ?thesis using assms by (simp add: regions_objs_def sum.remove [of "dom m" p] domIff)
qed

lemma regions_transfer:
  assumes "finite (dom m)" and "m q = Some other" and "p \<noteq> q" and "\<And>r. m p = Some r \<Longrightarrow> region_objs r = {#}"
  shows "regions_objs (m(p \<mapsto> other, q \<mapsto> other\<lparr>iro_mr := nullptr\<rparr>)) = regions_objs m"
proof -
  have "dom (m(p \<mapsto> other, q \<mapsto> other\<lparr>iro_mr := nullptr\<rparr>)) = insert p (dom m)" using assms(2) by auto
  then show ?thesis unfolding regions_objs_def
    by simp (rule sum_transfer [OF assms(1) _ assms(3)], use assms in auto)
qed

lemma mr_step_account:
  assumes "mr_step api w w'" and law: "ibv_mr_law reg api" and "mr_account reg X w"
  shows "mr_account reg X w'"
  using assms(1,3)
proof (induction rule: mr_step.induct)
  case (mr_constructed w p LW RW RR device a n flag extra r h)
  note C = ibv_region_ctor_outcome [OF law _ mr_constructed(2)]
  have m: "finite (dom (mrw_region w))" "finite (reg (mrw_h w))" using mr_constructed(3) by (simp_all add: mr_account_def)
  have "(mrw_region w)(p := None) = mrw_region w" using mr_constructed(1) by (simp add: fun_upd_idem)
  then show ?case using C m mr_constructed(3) regions_split [of "(mrw_region w)(p \<mapsto> r)" p r]
    by (simp add: mr_account_def ac_simps)
next
  case (mr_refused LW RW RR device a n flag extra w ec h)
  then show ?case using ibv_region_ctor_outcome [OF law _ mr_refused(1)] by (simp add: mr_account_def)
next
  case (mr_destroyed w p r)
  then have "finite (dom (mrw_region w))" "finite (reg (mrw_h w))"
    "mset_set (reg (mrw_h w)) = X + regions_objs ((mrw_region w)(p := None)) + region_objs r"
    using regions_split [of "mrw_region w" p r] by (simp_all add: mr_account_def ac_simps)
  then show ?case using ibv_mr_deleter_outcome [OF law] by (simp add: mr_account_def ibv_region_dtor_def)
next
  case (mr_moved w p q other r other')
  then have "p \<noteq> q" by auto
  then show ?case using mr_moved regions_transfer [of "mrw_region w" q other p]
    by (auto simp: mr_account_def ibv_region_move_def)
next
  case (mr_assigned w p target q other r other' h)
  let ?m = "(mrw_region w)(p \<mapsto> target\<lparr>iro_mr := nullptr\<rparr>)"
  have fin: "finite (dom (mrw_region w))" "finite (reg (mrw_h w))" using mr_assigned by (simp_all add: mr_account_def)
  have "mset_set (reg (mrw_h w)) = X + regions_objs ((mrw_region w)(p := None)) + region_objs target"
    using regions_split [of "mrw_region w" p target] fin(1) mr_assigned(1,5) by (simp add: mr_account_def ac_simps)
  from ibv_mr_deleter_outcome [OF law fin(2) this]
  have d: "mset_set (reg h) = X + regions_objs ((mrw_region w)(p := None))" "finite (reg h)"
    using mr_assigned(4) by (auto simp: ibv_region_assign_def)
  have "regions_objs ?m = regions_objs ((mrw_region w)(p := None))"
    using regions_split [of ?m p "target\<lparr>iro_mr := nullptr\<rparr>"] fin(1) by simp
  moreover have "regions_objs (?m(p \<mapsto> other, q \<mapsto> other\<lparr>iro_mr := nullptr\<rparr>)) = regions_objs ?m"
    by (rule regions_transfer) (use fin mr_assigned in auto)
  ultimately show ?case using d fin mr_assigned(4) by (auto simp: mr_account_def ibv_region_assign_def)
qed

text \<open>
  C37. In every run of a program that constructs libibverbs memory regions, moves, assigns and destroys them, each
  registration belongs to exactly one region object or to the rest of the program, and a region that was not moved
  from is registered; when all regions are destroyed, what was registered before is registered, and nothing else.
\<close>

theorem ibv_regions_balanced:
  assumes "ibv_mr_law reg api" and run: "(mr_step api)\<^sup>*\<^sup>* w w'" and "mrw_region w = Map.empty" and "finite (reg (mrw_h w))"
  shows "mset_set (reg (mrw_h w')) = mset_set (reg (mrw_h w)) + regions_objs (mrw_region w') \<and>
    (\<forall>p r. mrw_region w' p = Some r \<longrightarrow> iro_mr r = nullptr \<or> iro_mr r \<in> reg (mrw_h w')) \<and>
    (mrw_region w' = Map.empty \<longrightarrow> reg (mrw_h w') = reg (mrw_h w))"
proof -
  have "mr_account reg (mset_set (reg (mrw_h w))) w" using assms(3,4) by (simp add: mr_account_def regions_objs_def)
  with run have acc: "mr_account reg (mset_set (reg (mrw_h w))) w'"
    by (induction rule: rtranclp_induct) (auto intro: mr_step_account [OF _ assms(1)])
  have "iro_mr r \<in> reg (mrw_h w')" if "mrw_region w' p = Some r" "iro_mr r \<noteq> nullptr" for p r
  proof -
    have "iro_mr r \<in># mset_set (reg (mrw_h w'))"
      using acc that regions_split [of "mrw_region w'" p r] by (simp add: mr_account_def region_objs_def)
    then show ?thesis using acc by (simp add: mr_account_def)
  qed
  moreover have "reg (mrw_h w') = reg (mrw_h w)" if "mrw_region w' = Map.empty"
  proof -
    have "mset_set (reg (mrw_h w')) = mset_set (reg (mrw_h w))"
      using acc that by (simp add: mr_account_def regions_objs_def)
    then show ?thesis using acc assms(4) by (metis mr_account_def finite_set_mset_mset_set)
  qed
  ultimately show ?thesis using acc by (auto simp: mr_account_def)
qed

subsection \<open>An example\<close>

text \<open>Two regions are constructed, the second is assigned over the first, then both are destroyed.\<close>

record mr_sim =
  mrs_next :: ptr
  mrs_reg :: "ptr list"

definition mr_sim_api :: "mr_sim ibv_mr_api" where
  "mr_sim_api =
     \<lparr>ima_reg = \<lambda>h pd a n acc.
        (if mrs_next h = 0 \<or> mrs_next h \<in> set (mrs_reg h) then (0, 12, h)
         else (mrs_next h, 0, h\<lparr>mrs_next := mrs_next h + 1, mrs_reg := mrs_next h # mrs_reg h\<rparr>)),
      ima_dereg = \<lambda>h mr. (0, h\<lparr>mrs_reg := filter (\<lambda>x. x \<noteq> mr) (mrs_reg h)\<rparr>),
      ima_lkey = \<lambda>h mr. 1, ima_rkey = \<lambda>h mr. 2\<rparr>"

lemma mr_sim_law: "ibv_mr_law (\<lambda>h. set (mrs_reg h)) mr_sim_api"
  by (auto simp: ibv_mr_law_def mr_sim_api_def split: if_splits)

definition mr_sim_device :: ibv_device_t where
  "mr_sim_device = \<lparr>dev_context = 16, dev_pd = 48, dev_attr = \<lparr>max_cqe = 64, max_qp_wr = 32, max_sge = 2,
     max_qp_rd_atom = 16, max_qp_init_rd_atom = 16\<rparr>, dev_name = ''rxe0'', dev_v4_address = None, dev_v6_address = None\<rparr>"

definition mr_sim_region :: "ptr \<Rightarrow> ibv_region_object" where
  "mr_sim_region mr = \<lparr>iro_mr = mr, iro_addr = 4096, iro_length = 64, iro_flag = mr_access_remote_write,
     iro_extra_flag = 0\<rparr>"

definition mr_sim_world :: "ptr \<Rightarrow> ptr list \<Rightarrow> (ptr \<Rightarrow> ibv_region_object option) \<Rightarrow> mr_sim mr_world" where
  "mr_sim_world n rs m = \<lparr>mrw_h = \<lparr>mrs_next = n, mrs_reg = rs\<rparr>, mrw_region = m\<rparr>"

lemma mr_sim_ctor:
  "n \<noteq> 0 \<Longrightarrow> n \<notin> set rs \<Longrightarrow>
     ibv_region_ctor mr_sim_api 1 2 4 (Some mr_sim_device) 4096 64 mr_access_remote_write 0
       \<lparr>mrs_next = n, mrs_reg = rs\<rparr> = (Inr (mr_sim_region n), \<lparr>mrs_next = n + 1, mrs_reg = n # rs\<rparr>)"
  by (simp add: ibv_region_ctor_def ibv_throw_reg_mr_def ibv_reg_mr_call_def mr_sim_device_def mr_sim_api_def
      mr_sim_region_def)

lemma mr_sim_run:
  "(mr_step mr_sim_api)\<^sup>*\<^sup>* (mr_sim_world 3 [2] Map.empty) (mr_sim_world 5 [4, 2] [64 \<mapsto> mr_sim_region 4, 72 \<mapsto> mr_sim_region 0])"
  "(mr_step mr_sim_api)\<^sup>*\<^sup>* (mr_sim_world 3 [2] Map.empty) (mr_sim_world 5 [2] Map.empty)"
proof -
  let ?step = "mr_step mr_sim_api" and ?w = mr_sim_world
  have "?step (?w 3 [2] Map.empty) (?w 4 [3, 2] [64 \<mapsto> mr_sim_region 3])"
    using mr_constructed [of "?w 3 [2] Map.empty" 64 mr_sim_api] mr_sim_ctor [of 3 "[2]"] by (simp add: mr_sim_world_def)
  moreover have "?step (?w 4 [3, 2] [64 \<mapsto> mr_sim_region 3])
      (?w 5 [4, 3, 2] [64 \<mapsto> mr_sim_region 3, 72 \<mapsto> mr_sim_region 4])"
    using mr_constructed [of "?w 4 [3, 2] [64 \<mapsto> mr_sim_region 3]" 72 mr_sim_api] mr_sim_ctor [of 4 "[3, 2]"]
    by (simp add: mr_sim_world_def)
  moreover have "?step (?w 5 [4, 3, 2] [64 \<mapsto> mr_sim_region 3, 72 \<mapsto> mr_sim_region 4])
      (?w 5 [4, 2] [64 \<mapsto> mr_sim_region 4, 72 \<mapsto> mr_sim_region 0])"
    using mr_assigned [of "?w 5 [4, 3, 2] [64 \<mapsto> mr_sim_region 3, 72 \<mapsto> mr_sim_region 4]" 64 "mr_sim_region 3" 72
        "mr_sim_region 4" mr_sim_api]
    by (simp add: mr_sim_world_def ibv_region_assign_def ibv_mr_deleter_def mr_sim_api_def mr_sim_region_def)
  ultimately show r: "?step\<^sup>*\<^sup>* (?w 3 [2] Map.empty) (?w 5 [4, 2] [64 \<mapsto> mr_sim_region 4, 72 \<mapsto> mr_sim_region 0])"
    by (meson rtranclp.rtrancl_into_rtrancl rtranclp.rtrancl_refl)
  have "?step (?w 5 [4, 2] [64 \<mapsto> mr_sim_region 4, 72 \<mapsto> mr_sim_region 0]) (?w 5 [4, 2] [64 \<mapsto> mr_sim_region 4])"
    using mr_destroyed [of "?w 5 [4, 2] [64 \<mapsto> mr_sim_region 4, 72 \<mapsto> mr_sim_region 0]" 72 "mr_sim_region 0" mr_sim_api]
    by (simp add: mr_sim_world_def ibv_region_dtor_def ibv_mr_deleter_def mr_sim_region_def fun_upd_idem)
  moreover have "?step (?w 5 [4, 2] [64 \<mapsto> mr_sim_region 4]) (?w 5 [2] Map.empty)"
    using mr_destroyed [of "?w 5 [4, 2] [64 \<mapsto> mr_sim_region 4]" 64 "mr_sim_region 4" mr_sim_api]
    by (simp add: mr_sim_world_def ibv_region_dtor_def ibv_mr_deleter_def mr_sim_region_def mr_sim_api_def)
  ultimately show "?step\<^sup>*\<^sup>* (?w 3 [2] Map.empty) (?w 5 [2] Map.empty)"
    using r by (meson rtranclp.rtrancl_into_rtrancl)
qed

theorem ibv_regions_balanced_witness:
  "regions_objs [64 \<mapsto> mr_sim_region 4, 72 \<mapsto> mr_sim_region 0] = {#4#} \<and>
   set (mrs_reg (mrw_h (mr_sim_world 5 [2] Map.empty))) = {2}"
proof -
  have w: "mrw_region (mr_sim_world 3 [2] Map.empty) = Map.empty" "finite (set (mrs_reg (mrw_h (mr_sim_world 3 [2] Map.empty))))"
    by (simp_all add: mr_sim_world_def)
  note T = ibv_regions_balanced [OF mr_sim_law mr_sim_run(1) w]
  have "mset_set {4, 2} = {#2#} + regions_objs [64 \<mapsto> mr_sim_region 4, 72 \<mapsto> mr_sim_region 0]"
    using T by (simp add: mr_sim_world_def)
  moreover have "mset_set {4, 2 :: ptr} = {#2#} + {#4#}" by simp
  ultimately have "regions_objs [64 \<mapsto> mr_sim_region 4, 72 \<mapsto> mr_sim_region 0] = {#4#}" by (metis add_left_cancel)
  then show ?thesis using ibv_regions_balanced [OF mr_sim_law mr_sim_run(2) w] by (simp add: mr_sim_world_def)
qed

end
