(* ===== verification/Spec2Isabelle.thy ===== *)
theory Spec2Isabelle
  imports Data_Plane_Run IBV_Arbitration IBV_Connector_Run IBV_Connector_Resources IBV_Listener_Service
    IBV_Connector_Lifecycle ND_Connector_Lifecycle ND_Listener_Service IBV_Public ND_Public ND_Error ND_Device ND_Memory IBV_Memory
begin

text \<open>
  \<^bold>\<open>A verification library for \<open>rdma_on_asio\<close>\<close>, the C++ library under \<open>src/include/rdma/\<close> that gives
  RDMA to asio programs, on Linux over libibverbs and rdma_cm (\<open>ibv/\<close>) and on Windows over
  NetworkDirect (\<open>nd/\<close>). File names below are relative to \<open>src/include/rdma/\<close>.

  \<^bold>\<open>The program.\<close> A program discovers a \<^emph>\<open>device\<close> and installs it on an \<open>io_context\<close> with \<open>use_device\<close>,
  which derives an effective configuration and sets up the event completion service: one completion
  queue shared by all queue pairs of the context, drained by a self-arming \<open>poller\<close>. A \<^emph>\<open>connector\<close>
  connects to, or is made from a request that a \<^emph>\<open>listener\<close> takes in; a \<^emph>\<open>queue pair\<close> is bound to the
  context's completion queue (event mode) or to a standalone \<open>completion_queue\<close> that the program polls
  (poll mode). Data moves through \<open>async_send\<close>, \<open>async_recv\<close>, \<open>async_read\<close> and \<open>async_write\<close>: the verbs
  service builds a scatter/gather list from buffers inside registered memory regions, allocates an
  operation, posts a work request whose \<open>wr_id\<close> is the operation's address and gives the operation away
  to the adapter; the work completion brings it back. The two backends are separate sources with the
  same shape, and are modelled separately.

  \<^bold>\<open>Modelling conventions.\<close> A class is a record, a function is a HOL function of the same name (prefix
  \<open>nd_\<close> or \<open>ibv_\<close> where both backends have it) that passes its state explicitly; \<open>error_code\<close> is the pair of
  value and category it is in C++, 0 meaning success. Machine integers are words of their width.
  Heap objects whose lifetime matters (operations, list nodes, COM objects) have addresses and an explicit
  store. Threads appear where the sources use atomics (\<open>IBV_Arbitration\<close>); elsewhere a model runs one
  function at a time and a run is any sequence of such functions.

  Code outside the sources is never given a meaning of its own: libibverbs, rdma_cm, the NetworkDirect
  provider, Winsock and the standard library's unstable sort are fields of an \<open>_api\<close> record or arguments, and
  what a theorem needs of them is a hypothesis named for it (\<open>post_send_law\<close>, \<open>poll_cq_law\<close>,
  \<open>event_law\<close>, \<open>nd_cq_law\<close>, \<open>wakeup_law\<close>, ...), read off their documentation; calls may fail. The witness of such a
  theorem runs on a concrete instance. asio's scheduler, reactor and completion port are the queues an operation can be in; a step relation lets them
  deliver in any order.

  \<^bold>\<open>Theories, bottom up.\<close>
  \<^item> \<open>RDMA_Prelude\<close>: widths of integers, rewrite collections, lemmas on words and lists.
  \<^item> \<open>RDMA_Error\<close> (\<open>rdma_error.hpp\<close>), \<open>RDMA_Config\<close> (\<open>rdma_commons.hpp\<close>, \<open>*_config_derive.ipp\<close>; locale
    \<open>config_policy\<close>: what is derived is within the device's limits, what was set is kept).
  \<^item> \<open>RDMA_Buffer\<close> (\<open>rdma_buffer.hpp\<close>, \<open>mr_range.hpp\<close>, \<open>ibv_mr.hpp\<close>, \<open>nd_mr.hpp\<close>; locale
    \<open>memory_region_like\<close>: a slice never leaves its region, with 64-bit wrap-around taken into account),
    \<open>Small_Sglist\<close> (\<open>small_sglist.hpp\<close>; locale \<open>element_sink\<close>) and \<open>Sglist_Build\<close> (\<open>ibv_buffer.hpp\<close>,
    \<open>nd_buffer.hpp\<close>: the result of the builder in closed form).
  \<^item> \<open>Verbs_Op\<close> (\<open>rdma_verbs_op.hpp\<close> and the four operations), \<open>IBV_Verbs\<close> (\<open>ibv_service_verbs.*\<close>),
    \<open>ND_Verbs\<close> (\<open>nd_service_verbs.*\<close>; both backends' posting functions equal the same closed form
    \<open>post_spec\<close>, locale \<open>post_operation\<close>), \<open>Verbs_Accounting\<close> and \<open>Completion_Dispatch\<close> (the invariant
    \<open>vw_inv\<close>: every live operation has exactly one owner; locale \<open>wc_resolution\<close> for a batch of work
    completions).
  \<^item> \<open>IBV_Completion_Queue\<close> and \<open>ND_Completion_Queue\<close> (\<open>*_completion_queue.*\<close>, \<open>nd_service_io_completion.*\<close>),
    \<open>IBV_IO_Completion\<close> (\<open>ibv_service_io_completion.*\<close>): polling completes each operation once; the poller
    neither loses a wakeup nor an operation, for every adapter that notifies as documented and until one of its
    calls fails.
  \<^item> \<open>IBV_Device\<close> (\<open>ibv_device*\<close>), \<open>ND_Device\<close> (\<open>nd_device_impl.*\<close>, \<open>nd_device.hpp\<close>): discovery and selection;
    NetworkDirect discovery tries every adapter a local address resolves to, once.
  \<^item> \<open>IBV_Queue_Pair\<close>, \<open>ND_Queue_Pair\<close> (\<open>*_queue_pair.*\<close>, \<open>*_use_device.ipp\<close>): installing a device, binding.
  \<^item> \<open>IBV_CM\<close> (\<open>ibv_ops_cm.*\<close>, \<open>ibv_op_connect.*\<close>, \<open>ibv_op_accept.hpp\<close>, \<open>ibv_op_wait_disconnect.*\<close>),
    \<open>IBV_Connector\<close> (\<open>ibv_service_connector.hpp\<close>), \<open>IBV_CM_Example\<close> (a concrete rdma_cm),
    \<open>IBV_Arbitration\<close> (the same code at the granularity of atomic accesses, with any number of
    threads in \<open>disconnect\<close>), \<open>IBV_Connector_Run\<close> and \<open>IBV_Connector_Resources\<close>: a connection that
    came up is torn down exactly once, every handler is invoked exactly once, a channel and an id are
    released with their connector.
  \<^item> \<open>IBV_Connector_Service\<close> (the lifecycle in \<open>ibv_service_connector.hpp\<close>: all connectors of a context over one
    rdma_cm and the intrusive list) and \<open>IBV_Connector_Lifecycle\<close>: in every run of constructions, calls,
    cancellations, moves and destructions each operation works on the live channel and id of the connector it is
    queued on, and shutdown releases them. The program may move and destroy a connector in flight; the run
    records it (\<open>misuse\<close>), and the pointers an operation keeps are good as long as it was not done.
  \<^item> \<open>ND_Provider\<close> (\<open>nd_error.*\<close>, \<open>nd_impl_types.hpp\<close>, \<open>nd_ops_cm.*\<close>, \<open>nd_service_device.hpp\<close>), \<open>ND_Connector\<close>
    (\<open>nd_service_connector.hpp\<close> and its operations) and \<open>ND_Connector_Run\<close>: the same for NetworkDirect, over
    the completion port.
  \<^item> \<open>ND_Connector_Service\<close> (the lifecycle in \<open>nd_service_connector.hpp\<close>: all connectors of a context over one
    completion port, moved with requests in flight) and \<open>ND_Connector_Lifecycle\<close>: in every run, whatever
    is in flight when a connector is moved or destroyed, connectors and handles have one owner, and shutdown
    releases them and cancels the requests; requests refer to objects that exist until one of the
    recorded misuses (\<open>nd_misuse\<close>).
  \<^item> \<open>IBV_Listener\<close>, \<open>ND_Listener\<close> (\<open>*_service_listener.hpp\<close>, \<open>*_op_get_connection_request.hpp\<close>, the
    adapters of \<open>*_listener.hpp\<close>), \<open>IBV_Listener_Objects\<close>: a connection request has one owner from its event
    to its connector; over all runs nothing is lost but the ids of requests whose channel cannot be created.
  \<^item> \<open>IBV_Listener_Service\<close>, \<open>ND_Listener_Service\<close>: all listeners of a context, constructed, moved while they
    wait, destroyed and shut down; every waiting operation belongs to a live listener, every object and handler
    has one owner. On libibverbs a move changes nothing for what is waiting but the cancellation of a single
    operation, which keeps looking into the source.
  \<^item> \<open>IBV_Public\<close>, \<open>ND_Public\<close> (\<open>*_connector.hpp\<close>, the throwing overloads of \<open>*_listener.hpp\<close> and
    \<open>*_queue_pair.hpp\<close>, \<open>move_accept_handler.hpp\<close>): exceptions, opening constructors, and the accepts that make
    a queue pair of their own, which is the user's after a success and gone after an error.
  \<^item> \<open>IBV_Memory\<close> (\<open>ibv_mr.hpp\<close>, \<open>reg_mr\<close>): a registration belongs to one libibverbs region in every run.
  \<^item> \<open>ND_Memory\<close> (\<open>nd_mr.*\<close>, \<open>reg_mr\<close>): registrations and reference counts of a NetworkDirect region.
  \<^item> \<open>ND_Error\<close> (\<open>nd_errc\<close>, the messages of \<open>nd_error.ipp\<close>, \<open>nd_asio_manual_init.*\<close>): the code a status becomes, and
    its message, from which the status can be read back (the standard category's messages are a parameter); start-up and clean-up of Winsock and NetworkDirect are balanced, exceptions included.
  \<^item> \<open>Service_Base\<close> (\<open>*_service_base.*\<close> of both backends; locale \<open>impl_registry\<close>): the doubly linked list refines the list of
    registered implementations, and shutdown visits each of them.
  \<^item> \<open>Data_Plane_Run\<close>: runs of the data plane of both backends, event and poll mode together, over the locale
    \<open>data_plane\<close>: every handler is invoked exactly once, and no operation is left behind.
  \<^item> \<open>Handler_Ledger\<close>: the locale \<open>handler_ledger\<close>, interpreted by both connectors and both listeners. A
    component shows that one step neither loses nor repeats a handler; its runs then keep the books.
  \<^item> This theory: the properties of configuration, buffers, scatter/gather lists, posting and devices,
    and the one that relates the two backends.

  \<^bold>\<open>Loops.\<close> Loops over data are structural recursion. Those that may not end (polling a completion queue,
  draining an event channel, walking the intrusive list) are partial functions into \<open>option\<close>; that they
  return is proved under the law that makes them return, not assumed. The four batches of one turn of the
  poller are the constant \<open>max_batches_per_turn\<close> of the source, not a fuel of the model.

  \<^bold>\<open>What the modelling showed.\<close> Some theorems describe behaviour the sources probably do not intend; their
  text says so. Among them are entries of a reused scatter/gather list that are lost when the list spills to the
  heap again, a child id that is not destroyed when a listener cannot create its channel, a watcher that swallows
  the events of a connect, the reference a NetworkDirect region leaks, adapters opened twice by discovery, a
  queue pair that stays bound after its binding failed, a connect in flight that writes to its connector
  after that was destroyed (on NetworkDirect a watcher, even when the scheduler only frees it), a
  connector moved while it connects, which never becomes connected, a per-operation cancellation that is lost when its
  connector or listener is moved (libibverbs), and a failing request for a notification that puts the poller to sleep
  for good.

  \<^bold>\<open>Not modelled.\<close> asio's template plumbing in the public headers (\<open>async_initiate\<close>, \<open>associator\<close>,
  \<open>io_object_impl\<close>), which passes a handler and its allocator, executor and cancellation slot on; what is
  left after removing it is modelled. The linker directives of \<open>nd_autolink.hpp\<close>. Allocation
  failure (\<open>bad_alloc\<close>) and asio's own memory recycling. The memory order of the atomics: \<open>IBV_Arbitration\<close>
  interleaves them sequentially, and all of its accesses are to one variable.
\<close>

section \<open>Configuration\<close>

text \<open>
  C40. On libibverbs, a configuration the device supports yields an effective configuration in which
  every limited field is within the device's limit; a field the user set is kept, deriving again
  changes nothing, and the poll batch is never 0.
\<close>

theorem ibv_effective_config_within_limits:
  assumes "ibv_is_config_compatible c caps"
  shows "(\<forall>(field, limit) \<in> set (ibv_limited caps).
      field (ibv_derive_effective_config c caps) \<le> limit \<and>
      (field c \<noteq> 0 \<longrightarrow> field (ibv_derive_effective_config c caps) = field c)) \<and>
    ibv_is_config_compatible (ibv_derive_effective_config c caps) caps \<and>
    ibv_derive_effective_config (ibv_derive_effective_config c caps) caps =
      ibv_derive_effective_config c caps \<and>
    cq_poll_batch (ibv_derive_effective_config c caps) \<noteq> 0"
  by (intro conjI ibv_config.derived_compat [OF assms] ibv_config.derive_again
      ibv_config.derive_batch)
    (auto simp: ibv_config.derived_within_limit [OF assms] ibv_config.derive_keeps)

definition example_caps :: native_device_attr_t where
  "example_caps = \<lparr>max_cqe = 64, max_qp_wr = 32, max_sge = 2, max_qp_rd_atom = 16,
     max_qp_init_rd_atom = 16\<rparr>"

theorem ibv_effective_config_within_limits_witness:
  "ibv_is_config_compatible default_config example_caps \<and>
   max_send_sge (ibv_derive_effective_config default_config example_caps) \<le> 2"
proof -
  have c: "ibv_is_config_compatible default_config example_caps"
    by (simp add: ibv_is_config_compatible_def default_config_def)
  have "(max_send_sge, cap_of (max_sge example_caps)) \<in> set (ibv_limited example_caps)"
    by (simp add: ibv_limited_def)
  moreover have "cap_of (max_sge example_caps) = 2" by (simp add: example_caps_def cap_of_def) code_simp
  ultimately show ?thesis using ibv_effective_config_within_limits [OF c] c by fastforce
qed

text \<open>
  The NetworkDirect derivation has the same contract, and whether a configuration is supported can
  be decided before or after the derivation with the same answer.
\<close>

theorem nd_effective_config_contract:
  "(nd_is_config_compatible (nd_derive_effective_config c caps) caps \<longleftrightarrow>
     nd_is_config_compatible c caps) \<and>
   nd_derive_effective_config (nd_derive_effective_config c caps) caps =
     nd_derive_effective_config c caps \<and>
   cq_poll_batch (nd_derive_effective_config c caps) \<noteq> 0"
  using nd_config.derived_compat_iff nd_config.derive_again nd_config.derive_batch by blast

section \<open>Memory regions and buffers\<close>

text \<open>
  C38. The pointer range check decides exactly mathematical containment: no 64-bit overflow can make a
  range outside the region look inside, and the offset returned is the true one.
\<close>

theorem mr_offset_of_exact:
  "mr_offset_of base region_length address len = Some off \<longleftrightarrow>
     base \<noteq> nullptr \<and> address \<noteq> nullptr \<and>
     unat base + unat region_length < 2 ^ 64 \<and>
     unat address = unat base + unat off \<and>
     unat off + unat len \<le> unat region_length"
  by (rule mr_offset_of_Some_iff)

text \<open>
  C39. A slice of a libibverbs region never throws, and a slice that is not empty lies inside the
  region and carries its key; outside requests (and a region that was moved from) give the empty
  buffer.
\<close>

theorem ibv_slice_inside_region:
  assumes "unat (ibv_mr_addr m) + unat (ibv_mr_length m) < 2 ^ 64"
  shows "\<exists>b. ibv_slice tag m off n = Inr b \<and>
    (if ibv_is_in_mr m off n
     then unat (buf_addr b) = unat (ibv_mr_addr m) + unat off \<and> buf_length b = n \<and>
       unat (buf_addr b) + unat n \<le> unat (ibv_mr_addr m) + unat (ibv_mr_length m) \<and>
       ibv_local_key m = Inr (buf_local_key b)
     else b = empty_buffer tag)"
proof -
  obtain b where b: "ibv_slice tag m off n = Inr b"
    using ibv_region.range_total by (metis ibv_slice_def)
  show ?thesis
  proof (cases "ibv_is_in_mr m off n")
    case True
    have c: "unat off + unat n \<le> unat (ibv_mr_length m)"
      using True by (simp add: ibv_is_in_mr_def mr_contains_offset_iff)
    have "unat (ibv_mr_addr m + off) = unat (ibv_mr_addr m) + unat off"
      by (rule unat_add_no_wrap) (use assms c in simp)
    then show ?thesis
      using ibv_region.range_inside [OF True] b c True by (simp add: ibv_slice_def)
  next
    case False
    then show ?thesis using ibv_region.range_outside [OF False] by (simp add: ibv_slice_def)
  qed
qed

definition example_region :: ibv_memory_region where
  "example_region = \<lparr>ibv_mr = Some \<lparr>lkey = 7, rkey = 9\<rparr>, ibv_mr_addr = 4096, ibv_mr_length = 256,
     ibv_mr_flag = mr_access_local_write, ibv_mr_extra_flag = 0\<rparr>"

theorem ibv_slice_inside_region_witness:
  "ibv_is_in_mr example_region 16 32 \<and>
   (\<exists>b. ibv_slice rdma_mutable_buffer_tag example_region 16 32 = Inr b \<and> unat (buf_addr b) = 4112)"
proof -
  have f: "unat (ibv_mr_addr example_region) + unat (ibv_mr_length example_region) < 2 ^ 64"
    by (simp add: example_region_def)
  have "ibv_is_in_mr example_region 16 32"
    by (simp add: ibv_is_in_mr_def example_region_def mr_contains_offset_iff)
  then show ?thesis
    using ibv_slice_inside_region [OF f, of rdma_mutable_buffer_tag 16 32]
    by (auto simp: example_region_def)
qed

section \<open>Scatter/gather lists\<close>

text \<open>
  C35. The SGE builder's outcome in closed form: too large when the admitted buffers' true total exceeds
  32 bits, otherwise too many when the limit is exceeded, otherwise the list holds exactly one entry
  per buffer, in order, with the buffer's address, key and untruncated length, and the summary counts
  them.
\<close>

theorem ibv_build_closed_form:
  assumes "ibv_build_native_sglist bs small_sglist_new max_sges = (built, sglist)"
  shows "build_outcome_of built = build_spec max_sges bs \<and>
    (build_spec max_sges bs = Build_ok \<longrightarrow>
       sgl_contents sglist = map ibv_fill_native_sge bs \<and> built_count built = length bs \<and>
       unat (built_total_bytes built) = total_length bs \<and>
       (built_all_empty built \<longleftrightarrow> (\<forall>b\<in>set bs. buf_length b = 0)) \<and>
       (\<forall>b\<in>set bs. unat (sge_length (ibv_fill_native_sge b)) = unat (buf_length b)))"
proof -
  have post: "build_post ibv_fill_native_sge max_sges bs (built, sglist)"
    using ibv_build_post [OF sgl_fresh_new, of max_sges bs] assms by simp
  have "unat (sge_length (ibv_fill_native_sge b)) = unat (buf_length b)"
    if "total_length bs \<le> 4294967295" "b \<in> set bs" for b
    using that buf_length_le_total [of b bs] by (intro ibv_fill_exact) simp
  then show ?thesis
    using post by (auto simp: build_post_def build_inv_def all_empty_def list_all_iff)
qed

definition example_buffer :: rdma_buffer where
  "example_buffer = \<lparr>buffer_kind = rdma_const_buffer_tag, buf_addr = 4096, buf_length = 8,
     buf_local_key = 7\<rparr>"

theorem ibv_build_closed_form_witness:
  "\<exists>built sglist.
     ibv_build_native_sglist [example_buffer, example_buffer] small_sglist_new 4 = (built, sglist) \<and>
     unat (built_total_bytes built) = 16 \<and> built_count built = 2"
proof -
  obtain built sglist where r:
    "ibv_build_native_sglist [example_buffer, example_buffer] small_sglist_new 4 = (built, sglist)"
    by fastforce
  have "build_spec 4 [example_buffer, example_buffer] = Build_ok"
    by (simp add: build_spec_def admitted_def example_buffer_def)
  then show ?thesis
    using ibv_build_closed_form [OF r] r by (simp add: example_buffer_def)
qed

text \<open>
  Appending to a scatter/gather list that never owned more than it shows appends: the first eight
  entries live inline, the ninth moves them all to the heap, and none is lost.
\<close>

theorem sgl_push_appends:
  assumes "sgl_fresh s"
  shows "sgl_contents (fold sgl_push vs (sgl_clear s)) = vs"
  by (rule sgl.refill [OF assms])

theorem sgl_push_appends_witness:
  "sgl_fresh (small_sglist_new :: native_sge small_sglist) \<and>
   sgl_contents (fold sgl_push (replicate 9 (SGE 1 2 3)) (sgl_clear small_sglist_new)) =
     replicate 9 (SGE 1 2 3)"
  using sgl_push_appends [OF sgl_fresh_new] sgl_fresh_new by blast

text \<open>
  A list that is reused after it had spilled to the heap is not safe: appending the ninth entry
  switches to the old heap array, whose first eight entries are read in place of the eight just
  appended.
\<close>

theorem sgl_reuse_reads_stale_entries:
  assumes "sgl_ok s" and "sgl_size s = 8" and "sgl_heap_capacity s \<noteq> 0"
  shows "sgl_contents (sgl_push v s) = take 8 (sgl_heap s) @ [v]"
  by (rule sgl_push_ninth_reused [OF assms])

definition reused_list :: "nat small_sglist" where
  "reused_list = fold sgl_push [11, 12, 13, 14, 15, 16, 17, 18]
     (sgl_clear (fold sgl_push [1, 2, 3, 4, 5, 6, 7, 8, 9] small_sglist_new))"

theorem sgl_reuse_reads_stale_entries_witness:
  "sgl_contents reused_list = [11, 12, 13, 14, 15, 16, 17, 18] \<and>
   sgl_contents (sgl_push 19 reused_list) = [1, 2, 3, 4, 5, 6, 7, 8, 19]"
proof -
  have "sgl_ok (fold sgl_push vs s)" if "sgl_ok s" for vs and s :: "nat small_sglist"
    using that by (induction vs arbitrary: s) (simp_all add: sgl_ok_push)
  then have ok: "sgl_ok reused_list"
    unfolding reused_list_def by (metis sgl_ok_new sgl_ok_clear)
  have "sgl_size reused_list = 8 \<and> sgl_heap_capacity reused_list \<noteq> 0 \<and>
      take 8 (sgl_heap reused_list) = [1, 2, 3, 4, 5, 6, 7, 8] \<and>
      sgl_contents reused_list = [11, 12, 13, 14, 15, 16, 17, 18]"
    by code_simp
  then show ?thesis using sgl_reuse_reads_stale_entries [OF ok] by simp
qed

section \<open>Devices\<close>

text \<open>
  Every device discovery returns has a context from the device list, a protection domain and a
  local address, each address slot holds its family; the list is never empty.
\<close>

theorem get_devices_usable:
  assumes "get_devices api = Inr ds"
  shows "ds \<noteq> [] \<and> (\<forall>d\<in>set ds. device_wf d \<and> has_local_address d \<and>
    (\<exists>array. api_rdma_get_devices api = Some array \<and> dev_context d \<in> set array))"
  using get_devices_sound [OF assms] by blast

definition one_device_api :: device_api where
  "one_device_api =
     \<lparr>api_rdma_get_devices = Some [16, 32], api_alloc_pd = \<lambda>c. (if c = 16 then 48 else nullptr, 12),
      api_query_device = \<lambda>c. (Some example_caps, 0), api_get_device_name = \<lambda>c. Some ''rxe0'',
      api_getifaddrs = (Some [\<lparr>ifa_addr = Some (SA_in 167772161), ifa_flags = 1\<rparr>], 0),
      api_rdma_create_id = 0, api_rdma_bind_addr = \<lambda>_. 0, api_bound_verbs = \<lambda>_. 16\<rparr>"

theorem get_devices_usable_witness:
  "\<exists>d. get_devices one_device_api = Inr [d] \<and> dev_context d = 16 \<and> device_wf d"
proof -
  let ?d = "\<lparr>dev_context = 16, dev_pd = 48, dev_attr = example_caps, dev_name = ''rxe0'',
     dev_v4_address = Some (V4 167772161), dev_v6_address = None\<rparr>"
  have r: "get_devices one_device_api = Inr [?d]"
    by (simp add: get_devices_def one_device_api_def create_device_def attach_local_addresses_def
        attach_interface_def is_candidate_local_address_def to_ip_address_def sockaddr_size_def
        bindable_context_for_def attach_device_address_def has_local_address_def)
  show ?thesis using get_devices_usable [OF r] r by simp
qed

text \<open>
  Device selection returns the first device in order whose limits admit the configuration, and
  nothing exactly when no device does.
\<close>

theorem get_first_available_device_first:
  "(get_first_available_device ds config = Some d \<longleftrightarrow>
     (\<exists>i < length ds. ds ! i = d \<and> dev_context d \<noteq> nullptr
        \<and> ibv_is_config_compatible config (dev_attr d)
        \<and> \<not> (\<exists>j < i. dev_context (ds ! j) \<noteq> nullptr
              \<and> ibv_is_config_compatible config (dev_attr (ds ! j))))) \<and>
   (get_first_available_device ds config = None \<longleftrightarrow>
     \<not> (\<exists>d. d \<in> set ds \<and> dev_context d \<noteq> nullptr \<and> ibv_is_config_compatible config (dev_attr d)))"
  unfolding get_first_available_device_Some_iff get_first_available_device_None_iff by blast

section \<open>Posting operations\<close>

text \<open>
  C33. Every posting function, on its single-buffer fast path and on its general path, behaves as one
  closed form: it rejects an invalid request without touching the adapter, completes an empty request
  at once, and otherwise makes exactly one native call with exactly the SGEs of the buffers.
\<close>

theorem do_post_refines_spec:
  "do_post_send ps impl p op h = post_spec (max_send_sge (vi_config impl)) True
     (\<lambda>sges. verbs_post_send ps (vi_qp impl) p sges (length sges)) op h \<and>
   do_post_recv pr impl p op h = post_spec (max_recv_sge (vi_config impl)) False
     (\<lambda>sges. verbs_post_recv pr (vi_qp impl) p sges (length sges)) op h \<and>
   do_post_read ps impl p op h = post_spec (max_send_sge (vi_config impl)) False
     (\<lambda>sges. verbs_post_read ps (vi_qp impl) p sges (length sges)
        (remote_address (op_remote op)) (remote_token (op_remote op))) op h \<and>
   do_post_write ps impl p op h = post_spec (max_send_sge (vi_config impl)) True
     (\<lambda>sges. verbs_post_write ps (vi_qp impl) p sges (length sges)
        (remote_address (op_remote op)) (remote_token (op_remote op))) op h"
  by (simp only: do_post_send_spec do_post_recv_spec do_post_read_spec do_post_write_spec)

text \<open>The outcomes of two posts are the same but for the code the native call returned.\<close>

definition same_post :: "bool \<times> verbs_op \<times> 'h \<Rightarrow> bool \<times> verbs_op \<times> 'h \<Rightarrow> bool" where
  "same_post r r' \<longleftrightarrow>
     fst r = fst r' \<and> snd (snd r) = snd (snd r') \<and>
     (fst (snd r))\<lparr>op_ec := no_error\<rparr> = (fst (snd r'))\<lparr>op_ec := no_error\<rparr> \<and>
     (is_error (op_ec (fst (snd r))) \<longleftrightarrow> is_error (op_ec (fst (snd r'))))"

text \<open>Two native calls accept the same requests and leave the adapter in the same state.\<close>

definition natives_agree :: "('s \<Rightarrow> 'h \<Rightarrow> error_code \<times> 'h) \<Rightarrow> ('s \<Rightarrow> 'h \<Rightarrow> error_code \<times> 'h) \<Rightarrow> bool" where
  "natives_agree f g \<longleftrightarrow>
     (\<forall>s h. (is_error (fst (f s h)) \<longleftrightarrow> is_error (fst (g s h))) \<and> snd (f s h) = snd (g s h))"

lemma post_spec_alike:
  assumes "natives_agree f g"
  shows "same_post (post_spec limit counted f op h) (post_spec limit counted g op h)"
  using assms
  by (simp add: natives_agree_def same_post_def post_spec_def set_posted_bytes_def Let_def case_prod_beta
      split: build_outcome.split)

text \<open>
  C34. The two backends post alike: over adapters that accept the same requests, and with the same
  configuration, each of the four posting functions of NetworkDirect has the same outcome as that of
  libibverbs on every request: whether the operation completes at once, the bytes it counts, whether it
  fails, and what the adapter holds afterwards. They differ in the category of the adapter's own error.
\<close>

theorem backends_post_alike:
  assumes "vi_config impl = nvi_config nimpl"
    and "natives_agree (\<lambda>s. verbs_post_send ps (vi_qp impl) p s (length s))
      (\<lambda>s. nd_post_send api (nvi_qp nimpl) p s (length s))"
    and "natives_agree (\<lambda>s. verbs_post_recv pr (vi_qp impl) p s (length s))
      (\<lambda>s. nd_post_recv api (nvi_qp nimpl) p s (length s))"
    and "natives_agree (\<lambda>s. verbs_post_read ps (vi_qp impl) p s (length s) (remote_address (op_remote op))
        (remote_token (op_remote op)))
      (\<lambda>s. nd_post_read api (nvi_qp nimpl) p s (length s) (remote_address (op_remote op)) (remote_token (op_remote op)))"
    and "natives_agree (\<lambda>s. verbs_post_write ps (vi_qp impl) p s (length s) (remote_address (op_remote op))
        (remote_token (op_remote op)))
      (\<lambda>s. nd_post_write api (nvi_qp nimpl) p s (length s) (remote_address (op_remote op)) (remote_token (op_remote op)))"
  shows "same_post (do_post_send ps impl p op h) (nd_do_post_send api nimpl p op h) \<and>
    same_post (do_post_recv pr impl p op h) (nd_do_post_recv api nimpl p op h) \<and>
    same_post (do_post_read ps impl p op h) (nd_do_post_read api nimpl p op h) \<and>
    same_post (do_post_write ps impl p op h) (nd_do_post_write api nimpl p op h)"
  unfolding do_post_send_spec do_post_recv_spec do_post_read_spec do_post_write_spec nd_do_post_spec assms(1)
  by (intro conjI post_spec_alike assms(2-5))

definition nd_list_post_api :: "ptr list nd_post_api" where
  "nd_list_post_api =
     \<lparr>ndp_send = \<lambda>h qp c sges n f. (ND_SUCCESS, h @ [c]), ndp_receive = \<lambda>h qp c sges n. (ND_SUCCESS, h @ [c]),
      ndp_read = \<lambda>h qp c sges n ra k f. (ND_SUCCESS, h @ [c]),
      ndp_write = \<lambda>h qp c sges n ra k f. (ND_SUCCESS, h @ [c])\<rparr>"

theorem backends_post_alike_witness:
  "same_post (do_post_send fifo_post_send verbs_impl_new 64
       (verbs_op_new post_send no_error (Buffer_sequence []) no_remote 1) [])
     (nd_do_post_send nd_list_post_api nd_verbs_impl_new 64
       (verbs_op_new post_send no_error (Buffer_sequence []) no_remote 1) [])"
proof -
  have "vi_config verbs_impl_new = nvi_config nd_verbs_impl_new"
    by (simp add: verbs_impl_new_def nd_verbs_impl_new_def)
  from backends_post_alike [where ps = fifo_post_send and pr = fifo_post_recv and api = nd_list_post_api, OF this]
  show ?thesis
    by (simp add: natives_agree_def verbs_post_send_def verbs_post_recv_def verbs_post_read_def verbs_post_write_def
        verbs_post_rdma_def nd_post_send_def nd_post_recv_def nd_post_read_def nd_post_write_def nd_list_post_api_def
        fifo_post_send_def fifo_post_recv_def rc_to_ec_def)
qed

text \<open>
  Initiating an operation from event mode keeps the ownership accounting (the new operation is
  owned by the adapter or by the scheduler, by exactly one of them) and makes exactly one more handler
  owed, whether the request is posted, rejected, empty or refused by the adapter. The assumption is
  that the adapter queued a work request if and only if it reported success.
\<close>

theorem async_event_mode_accounting:
  assumes "vw_inv outs batch held w" and "fresh_op p w"
    and "post_send_law outs ps" and "post_recv_law outs pr"
  shows "(vw_inv outs batch held (async_send ps impl bufs h p w) \<and>
      handled (async_send ps impl bufs h p w) = add_mset h (handled w)) \<and>
    (vw_inv outs batch held (async_recv pr impl bufs h p w) \<and>
      handled (async_recv pr impl bufs h p w) = add_mset h (handled w)) \<and>
    (vw_inv outs batch held (async_read ps impl bufs r h p w) \<and>
      handled (async_read ps impl bufs r h p w) = add_mset h (handled w)) \<and>
    (vw_inv outs batch held (async_write ps impl bufs r h p w) \<and>
      handled (async_write ps impl bufs r h p w) = add_mset h (handled w))"
  by (intro conjI async_two_sided_inv(2,4) [OF assms(1,2)] async_one_sided_inv(2,4) [OF assms(1,2)]
      async_handled [OF vw_invD(2) [OF assms(1)] assms(2)] assms(3,4))

definition example_impl :: ibv_verbs_impl where
  "example_impl = \<lparr>vi_qp = 80, vi_cq = 96, vi_device = None, vi_config = default_config,
     vi_poll_cq = 112\<rparr>"

lemma example_fresh: "fresh_op 12288 example_world"
  by (auto simp: fresh_op_def example_world_def)

theorem async_event_mode_accounting_witness:
  "vw_inv mset [] [] (async_send fifo_post_send example_impl (Single_buffer example_buffer) 5 12288
     example_world) \<and>
   handled (async_send fifo_post_send example_impl (Single_buffer example_buffer) 5 12288
     example_world) = add_mset 5 (handled example_world)"
  using async_event_mode_accounting [OF example_world_inv example_fresh fifo_laws(1,2)] by blast

text \<open>
  The same in poll mode, for a queue pair that is bound to a completion queue: an operation that
  completes without a work completion goes to the ready list, so its handler runs in a later poll and
  not in the initiating call.
\<close>

theorem async_poll_mode_accounting:
  assumes "vw_inv outs batch held w" and "fresh_op p w" and "vi_poll_cq impl \<noteq> nullptr"
    and "post_send_law outs ps" and "post_recv_law outs pr"
  shows "(vw_inv outs batch held (async_send_static ps impl bufs h p w) \<and>
      handled (async_send_static ps impl bufs h p w) = add_mset h (handled w)) \<and>
    (vw_inv outs batch held (async_recv_static pr impl bufs h p w) \<and>
      handled (async_recv_static pr impl bufs h p w) = add_mset h (handled w)) \<and>
    (vw_inv outs batch held (async_read_static ps impl bufs r h p w) \<and>
      handled (async_read_static ps impl bufs r h p w) = add_mset h (handled w)) \<and>
    (vw_inv outs batch held (async_write_static ps impl bufs r h p w) \<and>
      handled (async_write_static ps impl bufs r h p w) = add_mset h (handled w)) \<and>
    upcalls (async_send_static ps impl bufs h p w) = upcalls w \<and>
    upcalls (async_recv_static pr impl bufs h p w) = upcalls w \<and>
    upcalls (async_read_static ps impl bufs r h p w) = upcalls w \<and>
    upcalls (async_write_static ps impl bufs r h p w) = upcalls w"
proof -
  have u: "upcalls (finish_poll impl p i x) = upcalls x" for i and x :: "'a vworld"
    by (simp add: finish_poll_def)
  have n: "upcalls (snd (post_new_op f p op w)) = upcalls w" for f op
    by (simp add: post_new_op_def split: prod.split)
  have "upcalls (async_send_static ps impl bufs h p w) = upcalls w"
    "upcalls (async_recv_static pr impl bufs h p w) = upcalls w"
    "upcalls (async_read_static ps impl bufs r h p w) = upcalls w"
    "upcalls (async_write_static ps impl bufs r h p w) = upcalls w"
    by (simp_all add: async_send_static_def async_recv_static_def async_read_static_def
        async_write_static_def u case_prod_beta n)
  then show ?thesis
    by (intro conjI async_two_sided_inv(1,3) [OF assms(1,2)] async_one_sided_inv(1,3) [OF assms(1,2)]
        async_handled [OF vw_invD(2) [OF assms(1)] assms(2)] assms(3-5)) simp_all
qed

theorem async_poll_mode_accounting_witness:
  "vw_inv mset [] [] (async_recv_static fifo_post_recv example_impl (Buffer_sequence []) 5 12288
     example_world) \<and>
   upcalls (async_recv_static fifo_post_recv example_impl (Buffer_sequence []) 5 12288
     example_world) = []"
proof -
  have "vi_poll_cq example_impl \<noteq> nullptr" by (simp add: example_impl_def)
  from async_poll_mode_accounting [OF example_world_inv example_fresh this fifo_laws(1,2)]
  show ?thesis by (simp add: example_world_def)
qed

text \<open>
  A handler that is told of an error is told of zero bytes: in every state with the accounting
  invariant, every invocation recorded so far satisfies it, and the invariant is kept by polling.
\<close>

theorem poll_reports_no_bytes_on_error:
  assumes "vw_inv outs [] [] w" and "poll_cq_law outs poll_cq" and "handler_ok outs handler"
    and "cq_poll poll_cq handler cq w = Some (n, ec, w')"
    and "u \<in> set (upcalls w')" and "is_error (up_ec u)"
  shows "up_bytes u = 0"
  using cq_poll_post [OF assms(4,1,3,2)] vw_invD(7) [of outs "[]" "[]" w' u] assms(5,6)
  by (simp add: poll_post_def)

definition failed_world :: "ptr list vworld" where
  "failed_world = example_world\<lparr>hw := [],
     live_ops := [8192 \<mapsto> (verbs_op_new post_send no_error (Buffer_sequence []) no_remote 2)
       \<lparr>op_ec := operation_aborted, op_bytes := 99\<rparr>]\<rparr>"

theorem poll_reports_no_bytes_on_error_witness:
  "\<exists>n ec w' u. cq_poll fifo_poll_cq (\<lambda>_ w. w) example_cq failed_world = Some (n, ec, w') \<and>
     u \<in> set (upcalls w') \<and> up_ec u = operation_aborted \<and> up_bytes u = 0"
proof -
  let ?op = "(verbs_op_new post_send no_error (Buffer_sequence []) no_remote 2)
       \<lparr>op_ec := operation_aborted, op_bytes := 99\<rparr>"
  let ?u = "\<lparr>up_handler = 2, up_ec = operation_aborted, up_bytes = 0\<rparr>"
  have d: "dom (live_ops failed_world) = {8192}" by (auto simp: failed_world_def)
  have inv: "vw_inv mset [] [] failed_world"
    unfolding vw_inv_def d
    by (auto simp: failed_world_def in_flight_def example_world_def op_settled_def split: if_splits)
  have r: "cq_poll fifo_poll_cq (\<lambda>_ w. w) example_cq failed_world =
      Some (1, no_error, failed_world\<lparr>ready := [], live_ops := Map.empty, upcalls := [?u]\<rparr>)"
    by (simp add: cq_poll_def drain_ready_def failed_world_def example_world_def complete_at_def
        op_complete_def complete_func_def send_do_complete_def upcall_of_def verbs_op_new_def)
      (simp add: poll_loop.simps fifo_poll_cq_def)
  show ?thesis
    using poll_reports_no_bytes_on_error [OF inv fifo_laws(3) handler_ok_idle r, of ?u] r by fastforce
qed

end
